(* ===== verification/WK_Prelude.thy ===== *)
theory WK_Prelude
  imports Main "HOL-Library.Word"
begin

text \<open>
  Shared vocabulary of the development: the machine types of the C++ code, C strings and
  byte buffers, the bounded copies the driver uses everywhere, fixed-size arrays, and the
  collections of facts the component theories add to.

  A C string is the list of its characters up to (and without) the terminating NUL, so a
  value of type \<open>string\<close> that stands for a \<open>const char *\<close> contains no NUL. A raw
  buffer is a list of bytes.
\<close>

named_theorems cpp_defs \<open>unfoldings of small source-level helpers\<close>
named_theorems inv_intros \<open>invariant preservation facts of the components\<close>

type_synonym byte = "8 word"
type_synonym u16 = "16 word"
type_synonym u32 = "32 word"
type_synonym u64 = "64 word"

section \<open>Characters, bytes and C strings\<close>

definition byte_of_char :: "char \<Rightarrow> byte" where
  "byte_of_char c = word_of_nat (of_char c)"

definition char_of_byte :: "byte \<Rightarrow> char" where
  "char_of_byte b = char_of (unat b)"

text \<open>\<open>char\<close> is a signed 8-bit type for the compiler the repository targets, so an order
  comparison of two \<open>char\<close> values compares these integers.\<close>

definition schar :: "char \<Rightarrow> int" where
  "schar c = sint (byte_of_char c)"

definition bytes_of_str :: "string \<Rightarrow> byte list" where
  "bytes_of_str s = map byte_of_char s"

text \<open>The C string that starts at the head of a buffer: up to the first NUL byte.\<close>

definition cstr_of :: "byte list \<Rightarrow> string" where
  "cstr_of bs = map char_of_byte (takeWhile (\<lambda>b. b \<noteq> 0) bs)"

definition nul_free :: "string \<Rightarrow> bool" where
  "nul_free s \<longleftrightarrow> (\<forall>c \<in> set s. c \<noteq> CHR 0x00)"

text \<open>\<open>memcpy\<close> of a bounded C string into a zero-padded field of \<open>n\<close> bytes.\<close>

definition strncpy_field :: "nat \<Rightarrow> string \<Rightarrow> string" where
  "strncpy_field n s = take (n - 1) s"

lemma unat_byte_of_char [simp]: "unat (byte_of_char c) = of_char c"
proof -
  have "(of_char c :: nat) < 256" by simp
  then show ?thesis by (simp add: byte_of_char_def unat_of_nat take_bit_nat_eq_self_iff)
qed

lemma char_of_byte_of_char [simp]: "char_of_byte (byte_of_char c) = c"
  by (simp add: char_of_byte_def)

lemma byte_of_char_of_byte [simp]: "byte_of_char (char_of_byte b) = b"
proof -
  have "unat b < 256" using unsigned_less [of b] by simp
  then have "(of_char (char_of (unat b) :: char) :: nat) = unat b" by simp
  then show ?thesis by (simp add: byte_of_char_def char_of_byte_def)
qed

lemma inj_byte_of_char: "inj byte_of_char"
  by (rule inj_on_inverseI [where g = char_of_byte]) simp

lemma byte_of_char_eq_iff [simp]: "byte_of_char a = byte_of_char b \<longleftrightarrow> a = b"
  using inj_byte_of_char by (auto simp: inj_def)

lemma byte_of_char_0_iff [simp]: "byte_of_char c = 0 \<longleftrightarrow> c = CHR 0x00"
proof -
  have "byte_of_char (CHR 0x00) = 0" by (simp add: byte_of_char_def)
  then show ?thesis by (metis byte_of_char_eq_iff)
qed

lemma length_bytes_of_str [simp]: "length (bytes_of_str s) = length s"
  by (simp add: bytes_of_str_def)

lemma bytes_of_str_append [simp]: "bytes_of_str (s @ t) = bytes_of_str s @ bytes_of_str t"
  by (simp add: bytes_of_str_def)

lemma bytes_of_str_inj: "bytes_of_str s = bytes_of_str t \<longleftrightarrow> s = t"
  unfolding bytes_of_str_def by (rule inj_map_eq_map [OF inj_byte_of_char])

lemma nul_free_simps [simp]:
  "nul_free []" "nul_free (c # s) \<longleftrightarrow> c \<noteq> CHR 0x00 \<and> nul_free s"
  "nul_free (s @ t) \<longleftrightarrow> nul_free s \<and> nul_free t"
  by (auto simp: nul_free_def)

lemma nul_free_take: "nul_free s \<Longrightarrow> nul_free (take n s)"
  by (auto simp: nul_free_def dest: in_set_takeD)

lemma takeWhile_bytes_of_str:
  assumes "nul_free s"
  shows "takeWhile (\<lambda>b. b \<noteq> 0) (bytes_of_str s @ 0 # r) = bytes_of_str s"
  using assms by (induction s) (simp_all add: bytes_of_str_def)

lemma cstr_of_bytes_of_str:
  assumes "nul_free s"
  shows "cstr_of (bytes_of_str s @ 0 # r) = s"
  using takeWhile_bytes_of_str [OF assms]
  by (simp add: cstr_of_def bytes_of_str_def comp_def)

lemma nul_free_cstr_of: "nul_free (cstr_of bs)"
proof -
  have "char_of_byte b \<noteq> CHR 0x00" if "b \<noteq> 0" for b
    using that by (metis byte_of_char_0_iff byte_of_char_of_byte)
  then show ?thesis
    by (auto simp: cstr_of_def nul_free_def dest!: set_takeWhileD)
qed

section \<open>Counters\<close>

lemma unat_inc: "(c :: 'a::len word) < d \<Longrightarrow> unat (c + 1) = unat c + 1"
proof -
  assume "c < d"
  then have "unat c + 1 \<le> unat d" by (simp add: word_less_nat_alt)
  also have "\<dots> < 2 ^ LENGTH('a)" by (rule unsigned_less)
  finally show ?thesis by (simp add: unat_word_ariths)
qed

lemma unat_of_nat_u64: "n < 2 ^ 64 \<Longrightarrow> unat (of_nat n :: u64) = n"
  by (simp add: unat_of_nat take_bit_nat_eq_self_iff)

lemma unat_of_nat_u32: "n < 2 ^ 32 \<Longrightarrow> unat (of_nat n :: u32) = n"
  by (simp add: unat_of_nat take_bit_nat_eq_self_iff)

lemma of_nat_less_u64: "n < 2 ^ 64 \<Longrightarrow> m < 2 ^ 64 \<Longrightarrow> (of_nat n :: u64) < of_nat m \<longleftrightarrow> n < m"
  by (simp add: word_less_nat_alt unat_of_nat_u64)

lemma of_nat_diff_u64: "m \<le> n \<Longrightarrow> (of_nat n :: u64) - of_nat m = of_nat (n - m)"
  by (simp add: of_nat_diff)

lemma mod_neq_window:
  assumes "k < n" "n < k + B"
  shows "n mod B \<noteq> k mod (B :: nat)"
proof
  assume "n mod B = k mod B"
  then have "B dvd n - k" using assms(1) by (metis mod_eq_dvd_iff_nat less_imp_le)
  then show False using assms by (auto dest: dvd_imp_le)
qed

section \<open>Fixed-size arrays\<close>

text \<open>The first index of an array whose element satisfies a test, scanned upwards.\<close>

fun find_index :: "('a \<Rightarrow> bool) \<Rightarrow> 'a list \<Rightarrow> nat option" where
  "find_index P [] = None"
| "find_index P (x # xs) = (if P x then Some 0 else map_option Suc (find_index P xs))"

lemma find_index_SomeD:
  "find_index P xs = Some i \<Longrightarrow> i < length xs \<and> P (xs ! i) \<and> (\<forall>j < i. \<not> P (xs ! j))"
proof (induction xs arbitrary: i)
  case (Cons x xs)
  show ?case
  proof (cases "P x")
    case False
    with Cons.prems obtain k where k: "find_index P xs = Some k" "i = Suc k" by auto
    from Cons.IH [OF k(1)] k(2) False show ?thesis
      by (auto simp: nth_Cons split: nat.splits)
  qed (use Cons.prems in simp)
qed simp

lemma find_index_None_iff [simp]: "find_index P xs = None \<longleftrightarrow> (\<forall>x \<in> set xs. \<not> P x)"
  by (induction xs) auto

lemma find_index_unique:
  assumes "i < length xs" "P (xs ! i)" "\<And>j. j < length xs \<Longrightarrow> P (xs ! j) \<Longrightarrow> j = i"
  shows "find_index P xs = Some i"
proof (cases "find_index P xs")
  case None
  with assms(1,2) show ?thesis by auto
next
  case (Some k)
  with find_index_SomeD [OF Some] assms(3) show ?thesis by auto
qed

lemma set_list_updateD: "x \<in> set (xs[i := y]) \<Longrightarrow> x = y \<or> x \<in> set xs"
  using set_update_subset_insert by fastforce

section \<open>Options as results\<close>

lemma option_case_None_simp [simp]: "(case x of None \<Rightarrow> None | Some y \<Rightarrow> None) = None"
  by (cases x) auto

end
