(* ===== verification/FloatArith.thy ===== *)
theory FloatArith
  imports WK_Prelude Complex_Main "HOL-Library.Log_Nat"
begin

text \<open>
  The floating-point types of the code. \<open>float\<close> and \<open>double\<close> are IEEE 754 binary32 and
  binary64 with round-to-nearest, ties to even: a finite value is the rational it denotes,
  every arithmetic operation rounds the exact result, overflow gives an infinity, and NaN
  compares false with everything. The precision (24 or 53 bits) is the type argument. The two
  zeros are one value: the code never divides by a zero whose sign it has computed, so their
  difference is not observable in what is modelled.
\<close>

datatype (dead 'p) fp = FNaN | FInf bool | Fin rat

type_synonym float32 = "24 fp"
type_synonym double = "53 fp"

section \<open>Rounding\<close>

text \<open>The exponent of the leading bit of a positive rational.\<close>

definition ilog2 :: "rat \<Rightarrow> int" where
  "ilog2 x = (let (n, d) = quotient_of x; k = int (floorlog 2 (nat n)) - int (floorlog 2 (nat d))
     in if 2 powi k \<le> x then k else k - 1)"

text \<open>The largest exponent: 127 for the 24-bit format, 1023 for the 53-bit format; the
  exponent of the subnormal spacing follows (\<open>-149\<close> and \<open>-1074\<close>).\<close>

definition fp_emax :: "nat \<Rightarrow> int" where
  "fp_emax p = (if p \<le> 24 then 127 else 1023)"

definition fp_qmin :: "nat \<Rightarrow> int" where
  "fp_qmin p = 2 - fp_emax p - int p"

definition fp_qexp :: "nat \<Rightarrow> rat \<Rightarrow> int" where
  "fp_qexp p x = max (ilog2 \<bar>x\<bar> - (int p - 1)) (fp_qmin p)"

definition rne :: "rat \<Rightarrow> int" where
  "rne y = (let f = \<lfloor>y\<rfloor>; d = y - of_int f
     in if d < 1 / 2 then f else if d > 1 / 2 then f + 1 else if even f then f else f + 1)"

definition rnd :: "nat \<Rightarrow> rat \<Rightarrow> rat" where
  "rnd p x = (if x = 0 then 0
     else let q = 2 powi (fp_qexp p x) in of_int (rne (x / q)) * q)"

definition fround :: "rat \<Rightarrow> 'p::len fp" where
  "fround x = (let r = rnd LENGTH('p) x
     in if \<bar>r\<bar> \<ge> 2 powi (fp_emax LENGTH('p) + 1) then FInf (x < 0) else Fin r)"

section \<open>Arithmetic and comparison\<close>

instantiation fp :: (len) "{zero, one, uminus, plus, minus, times, inverse, ord, abs}"
begin

definition zero_fp :: "'a fp" where
  "zero_fp = Fin 0"

definition one_fp :: "'a fp" where
  "one_fp = Fin 1"

fun uminus_fp :: "'a fp \<Rightarrow> 'a fp" where
  "uminus_fp FNaN = FNaN"
| "uminus_fp (FInf s) = FInf (\<not> s)"
| "uminus_fp (Fin x) = Fin (- x)"

fun plus_fp :: "'a fp \<Rightarrow> 'a fp \<Rightarrow> 'a fp" where
  "plus_fp (Fin x) (Fin y) = fround (x + y)"
| "plus_fp (FInf s) (Fin y) = FInf s"
| "plus_fp (Fin x) (FInf t) = FInf t"
| "plus_fp (FInf s) (FInf t) = (if s = t then FInf s else FNaN)"
| "plus_fp _ _ = FNaN"

definition minus_fp :: "'a fp \<Rightarrow> 'a fp \<Rightarrow> 'a fp" where
  "minus_fp a b = a + (- b)"

fun times_fp :: "'a fp \<Rightarrow> 'a fp \<Rightarrow> 'a fp" where
  "times_fp (Fin x) (Fin y) = fround (x * y)"
| "times_fp (FInf s) (Fin y) = (if y = 0 then FNaN else FInf (s \<noteq> (y < 0)))"
| "times_fp (Fin x) (FInf t) = (if x = 0 then FNaN else FInf ((x < 0) \<noteq> t))"
| "times_fp (FInf s) (FInf t) = FInf (s \<noteq> t)"
| "times_fp _ _ = FNaN"

fun divide_fp :: "'a fp \<Rightarrow> 'a fp \<Rightarrow> 'a fp" where
  "divide_fp (Fin x) (Fin y) =
     (if y = 0 then (if x = 0 then FNaN else FInf (x < 0)) else fround (x / y))"
| "divide_fp (FInf s) (Fin y) = FInf (s \<noteq> (y < 0))"
| "divide_fp (Fin x) (FInf t) = Fin 0"
| "divide_fp (FInf s) (FInf t) = FNaN"
| "divide_fp _ _ = FNaN"

definition inverse_fp :: "'a fp \<Rightarrow> 'a fp" where
  "inverse_fp a = divide 1 a"

fun less_fp :: "'a fp \<Rightarrow> 'a fp \<Rightarrow> bool" where
  "less_fp (Fin x) (Fin y) = (x < y)"
| "less_fp (FInf s) (Fin y) = s"
| "less_fp (Fin x) (FInf t) = (\<not> t)"
| "less_fp (FInf s) (FInf t) = (s \<and> \<not> t)"
| "less_fp _ _ = False"

fun less_eq_fp :: "'a fp \<Rightarrow> 'a fp \<Rightarrow> bool" where
  "less_eq_fp (Fin x) (Fin y) = (x \<le> y)"
| "less_eq_fp (FInf s) (Fin y) = s"
| "less_eq_fp (Fin x) (FInf t) = (\<not> t)"
| "less_eq_fp (FInf s) (FInf t) = (s \<or> \<not> t)"
| "less_eq_fp _ _ = False"

fun abs_fp :: "'a fp \<Rightarrow> 'a fp" where
  "abs_fp FNaN = FNaN"
| "abs_fp (FInf s) = FInf False"
| "abs_fp (Fin x) = Fin \<bar>x\<bar>"

instance ..

end

text \<open>A literal of the source, rounded to the type it has there; an integer converted to a
  floating type; a conversion between the two types; \<open>std::isfinite\<close>, \<open>std::isnan\<close>.\<close>

definition lit :: "rat \<Rightarrow> 'p::len fp" where
  "lit r = fround r"

definition of_integer :: "int \<Rightarrow> 'p::len fp" where
  "of_integer i = fround (of_int i)"

fun fp_cast :: "'p::len fp \<Rightarrow> 'q::len fp" where
  "fp_cast FNaN = FNaN"
| "fp_cast (FInf s) = FInf s"
| "fp_cast (Fin x) = fround x"

fun isfinite :: "'p fp \<Rightarrow> bool" where
  "isfinite (Fin x) = True"
| "isfinite _ = False"

fun isnan :: "'p fp \<Rightarrow> bool" where
  "isnan FNaN = True"
| "isnan _ = False"

text \<open>\<open>std::max\<close>, \<open>std::min\<close> and \<open>std::clamp\<close>, with the standard's operand order: a
  NaN in the second argument of \<open>std::max\<close> loses.\<close>

definition std_max :: "'p::len fp \<Rightarrow> 'p fp \<Rightarrow> 'p fp" where
  "std_max a b = (if a < b then b else a)"

definition std_min :: "'p::len fp \<Rightarrow> 'p fp \<Rightarrow> 'p fp" where
  "std_min a b = (if b < a then b else a)"

definition std_clamp :: "'p::len fp \<Rightarrow> 'p fp \<Rightarrow> 'p fp \<Rightarrow> 'p fp" where
  "std_clamp v lo hi = (if v < lo then lo else if hi < v then hi else v)"

section \<open>Facts about rounding\<close>

lemma ilog2_bounds:
  assumes "0 < x"
  shows "2 powi (ilog2 x) \<le> x" and "x < 2 powi (ilog2 x + 1)"
proof -
  obtain n d where q: "quotient_of x = (n, d)" by fastforce
  have d: "0 < d" using quotient_of_denom_pos [OF q] .
  have x: "x = of_int n / of_int d" by (rule quotient_of_div [OF q])
  have n: "0 < n" using assms d x by (simp add: zero_less_divide_iff)
  define a b where "a = floorlog 2 (nat n)" and "b = floorlog 2 (nat d)"
  have nb: "2 ^ (a - 1) \<le> nat n" "nat n < 2 ^ a" and db: "2 ^ (b - 1) \<le> nat d" "nat d < 2 ^ b"
    using floorlog_bounds [of "nat n" 2] floorlog_bounds [of "nat d" 2] n d
    by (auto simp: a_def b_def)
  have ab: "0 < a" "0 < b"
    using n d by (auto simp: a_def b_def floorlog_eq_zero_iff zero_less_iff_neq_zero)
  define k where "k = int a - int b"
  have cast: "(2::rat) ^ i = of_nat (2 ^ i)" for i by simp
  have nr: "of_int n = (of_nat (nat n) :: rat)" and dr: "of_int d = (of_nat (nat d) :: rat)"
    using n d by simp_all
  have N: "(2::rat) ^ (a - 1) \<le> of_int n" "of_int n < (2::rat) ^ a"
    and D: "(2::rat) ^ (b - 1) \<le> of_int d" "of_int d < (2::rat) ^ b"
    unfolding cast nr dr using nb db by (simp_all only: of_nat_le_iff of_nat_less_iff)
  have ka: "2 powi (k - 1) * 2 ^ b = (2::rat) ^ (a - 1)"
  proof -
    have "k - 1 + int b = int (a - 1)" using ab by (simp add: k_def)
    then show ?thesis by (metis power_int_add power_int_of_nat zero_neq_numeral)
  qed
  have kb: "2 powi (k + 1) * 2 ^ (b - 1) = (2::rat) ^ a"
  proof -
    have "k + 1 + int (b - 1) = int a" using ab by (simp add: k_def)
    then show ?thesis by (metis power_int_add power_int_of_nat zero_neq_numeral)
  qed
  have dp: "(0::rat) < of_int d" using d by simp
  have lo: "2 powi (k - 1) \<le> x"
  proof -
    have "2 powi (k - 1) * of_int d \<le> 2 powi (k - 1) * (2::rat) ^ b" using D(2) by (intro mult_left_mono) simp_all
    with ka N(1) have "2 powi (k - 1) * of_int d \<le> (of_int n :: rat)" by linarith
    then show ?thesis using dp by (simp add: x le_divide_eq)
  qed
  have hi: "x < 2 powi (k + 1)"
  proof -
    have "2 powi (k + 1) * (2::rat) ^ (b - 1) \<le> 2 powi (k + 1) * of_int d" using D(1) by (intro mult_left_mono) simp_all
    with kb N(2) have "(of_int n :: rat) < 2 powi (k + 1) * of_int d" by linarith
    then show ?thesis using dp by (simp add: x divide_less_eq)
  qed
  have il: "ilog2 x = (if 2 powi k \<le> x then k else k - 1)"
    by (simp add: ilog2_def q k_def a_def b_def)
  show "2 powi (ilog2 x) \<le> x" and "x < 2 powi (ilog2 x + 1)"
    using lo hi by (auto simp: il)
qed
lemma pow2_pos [simp]: "(0::rat) < 2 powi k"
  by (simp add: zero_less_power_int)

lemma pow2_nonneg_iff [simp]: "\<not> (2::rat) powi k \<le> 0"
  by (simp add: not_le)

lemma pow2_le_iff [simp]: "(2::rat) powi a \<le> 2 powi b \<longleftrightarrow> a \<le> b"
  by (meson less_le_not_le linorder_le_cases power_int_increasing power_int_strict_increasing
      one_le_numeral one_less_numeral_iff semiring_norm(76) not_le)

lemma pow2_less_iff [simp]: "(2::rat) powi a < 2 powi b \<longleftrightarrow> a < b"
  by (simp add: less_le_not_le)

lemma pow2_split: "(2::rat) powi a = 2 powi (a - b) * 2 powi b"
  by (simp flip: power_int_add)

lemma ilog2_eqI:
  assumes "2 powi k \<le> x" "x < 2 powi (k + 1)"
  shows "ilog2 x = k"
proof -
  have pos: "0 < x" using assms(1) using pow2_pos [of k] by linarith
  have "(2::rat) powi k < 2 powi (ilog2 x + 1)" "(2::rat) powi ilog2 x < 2 powi (k + 1)"
    using ilog2_bounds [OF pos] assms by linarith+
  then show ?thesis by simp
qed

lemma ilog2_mono: "0 < x \<Longrightarrow> x \<le> y \<Longrightarrow> ilog2 x \<le> ilog2 y"
proof -
  assume "0 < x" "x \<le> y"
  then have "(2::rat) powi ilog2 x < 2 powi (ilog2 y + 1)"
    using ilog2_bounds [of x] ilog2_bounds [of y] by linarith
  then show ?thesis by simp
qed

lemma rne_of_int [simp]: "rne (of_int i) = i"
  by (simp add: rne_def)

lemma rne_bounds: "of_int (rne y) - y \<le> 1 / 2" "y - of_int (rne y) \<le> 1 / 2"
  by (auto simp: rne_def Let_def) linarith+

lemma rne_mono: "x \<le> y \<Longrightarrow> rne x \<le> rne y"
proof -
  assume xy: "x \<le> y"
  show ?thesis
  proof (cases "\<lfloor>x\<rfloor> = \<lfloor>y\<rfloor>")
    case True
    then show ?thesis using xy by (auto simp: rne_def Let_def)
  next
    case False
    then have "\<lfloor>x\<rfloor> + 1 \<le> \<lfloor>y\<rfloor>" using floor_mono [OF xy] by simp
    then show ?thesis by (auto simp: rne_def Let_def)
  qed
qed

lemma rne_minus: "rne (- x) = - rne x"
proof (cases "x = of_int \<lfloor>x\<rfloor>")
  case True
  then show ?thesis by (metis of_int_minus rne_of_int)
next
  case False
  then have "\<lfloor>- x\<rfloor> = - \<lfloor>x\<rfloor> - 1" by linarith
  then show ?thesis using False by (auto simp: rne_def Let_def)
qed
lemma rnd_minus: "rnd p (- x) = - rnd p x"
  by (simp add: rnd_def fp_qexp_def Let_def rne_minus)

lemma rnd_0 [simp]: "rnd p 0 = 0"
  by (simp add: rnd_def)

lemma pow2_nat: "0 \<le> k \<Longrightarrow> (2::rat) powi k = of_int (2 ^ nat k)"
  by (simp add: power_int_def)

lemma rnd_upper:
  assumes "x \<noteq> 0" "fp_qexp p x \<le> e" "x \<le> of_int m * 2 powi e"
  shows "rnd p x \<le> of_int m * 2 powi e"
proof -
  define q where "q = fp_qexp p x"
  define M where "M = m * 2 ^ nat (e - q)"
  have eq: "of_int m * 2 powi e = of_int M * (2::rat) powi q"
    using pow2_split [of e q] assms(2) by (simp add: q_def M_def pow2_nat)
  have "x / 2 powi q \<le> of_int M" using assms(3) by (simp add: eq divide_le_eq)
  from rne_mono [OF this] have "of_int (rne (x / 2 powi q)) \<le> (of_int M :: rat)" by simp
  then have "of_int (rne (x / 2 powi q)) * 2 powi q \<le> of_int M * (2::rat) powi q"
    by (intro mult_right_mono) simp_all
  then show ?thesis using assms(1) by (simp add: eq rnd_def Let_def q_def)
qed

lemma rnd_lower:
  assumes "x \<noteq> 0" "fp_qexp p x \<le> e" "of_int m * 2 powi e \<le> x"
  shows "of_int m * 2 powi e \<le> rnd p x"
  using rnd_upper [of "- x" p e "- m"] assms by (simp add: fp_qexp_def rnd_minus)

lemma rnd_exact:
  assumes "x = of_int m * 2 powi e" "fp_qexp p x \<le> e"
  shows "rnd p x = x"
proof (cases "x = 0")
  case False
  then show ?thesis using rnd_upper [of x p e m] rnd_lower [of x p e m] assms by simp
qed simp

lemma fp_qexp_abs [simp]: "fp_qexp p \<bar>x\<bar> = fp_qexp p x"
  by (simp add: fp_qexp_def)

lemma rnd_nonneg: "0 \<le> x \<Longrightarrow> 0 \<le> rnd p x"
  using rnd_lower [of x p "fp_qexp p x" 0] by (cases "x = 0") simp_all

lemma rnd_mono_pos:
  assumes "0 < x" "x \<le> y" "0 < p"
  shows "rnd p x \<le> rnd p y"
proof (cases "fp_qexp p x = fp_qexp p y")
  case True
  have "x / 2 powi fp_qexp p y \<le> y / 2 powi fp_qexp p y" using assms by (simp add: divide_right_mono)
  then have "of_int (rne (x / 2 powi fp_qexp p y)) \<le> (of_int (rne (y / 2 powi fp_qexp p y)) :: rat)"
    using rne_mono by simp
  then show ?thesis using assms True by (simp add: rnd_def Let_def mult_right_mono)
next
  case False
  have "ilog2 x \<le> ilog2 y" using ilog2_mono assms by blast
  then have less: "ilog2 x < ilog2 y" and qy: "fp_qexp p x \<le> ilog2 y" "fp_qexp p y \<le> ilog2 y"
    using False assms by (auto simp: fp_qexp_def max_def split: if_splits)
  have "x \<le> 2 powi (ilog2 x + 1)" using ilog2_bounds(2) [OF assms(1)] by simp
  also have "\<dots> \<le> 2 powi ilog2 y" using less by simp
  finally have "rnd p x \<le> of_int 1 * 2 powi ilog2 y"
    using assms qy by (intro rnd_upper) simp_all
  moreover have "of_int 1 * 2 powi ilog2 y \<le> rnd p y"
    using assms qy ilog2_bounds [of y] by (intro rnd_lower) simp_all
  ultimately show ?thesis by linarith
qed

lemma rnd_mono:
  assumes "x \<le> y" "0 < p"
  shows "rnd p x \<le> rnd p y"
proof -
  consider "0 < x" | "y < 0" | "x \<le> 0" "0 \<le> y" using assms(1) by linarith
  then show ?thesis
  proof cases
    case 1
    then show ?thesis using rnd_mono_pos assms by blast
  next
    case 2
    then have "rnd p (- y) \<le> rnd p (- x)" using rnd_mono_pos [of "- y" "- x" p] assms by simp
    then show ?thesis by (simp add: rnd_minus)
  next
    case 3
    then show ?thesis using rnd_nonneg [of y p] rnd_nonneg [of "- x" p] by (simp add: rnd_minus)
  qed
qed

lemma rnd_of_int:
  assumes "\<bar>m\<bar> \<le> 2 ^ p" "0 < p"
  shows "rnd p (of_int m) = of_int m"
proof (cases "m = 0")
  case False
  have qm: "fp_qmin p \<le> 0" using assms(2) by (simp add: fp_qmin_def fp_emax_def)
  show ?thesis
  proof (cases "\<bar>m\<bar> = 2 ^ p")
    case True
    then have "\<bar>of_int m\<bar> = (2::rat) powi int p" by (simp flip: of_int_abs)
    then have il: "ilog2 \<bar>of_int m\<bar> = int p" using pow2_less_iff [of "int p" "int p + 1"] by (intro ilog2_eqI) linarith+
    have "of_int m = of_int (m div 2) * (2::rat) powi 1"
    proof -
      have "even m" using True assms(2) by (metis dvd_abs_iff even_power even_numeral neq0_conv)
      then have "m = m div 2 * 2" by simp
      then show ?thesis by (metis of_int_mult of_int_numeral power_int_1_right)
    qed
    then show ?thesis
      using il qm by (intro rnd_exact [of _ "m div 2" 1]) (simp_all add: fp_qexp_def)
  next
    case neq: False
    then have "\<bar>of_int m\<bar> < (2::rat) ^ p"
      using assms(1) by (metis of_int_abs of_int_less_numeral_power_cancel_iff order_less_le)
    moreover have "(2::rat) powi ilog2 \<bar>of_int m\<bar> \<le> \<bar>of_int m\<bar>" using ilog2_bounds False by simp
    ultimately have "(2::rat) powi ilog2 \<bar>of_int m\<bar> < 2 powi int p" by simp
    then have "ilog2 \<bar>of_int m\<bar> < int p" by (simp only: pow2_less_iff)
    then show ?thesis using qm by (intro rnd_exact [of _ m 0]) (simp_all add: fp_qexp_def)
  qed
qed simp

section \<open>Facts about the arithmetic\<close>

lemma fround_cases [case_names overflow finite]:
  obtains "fround x = (FInf (x < 0) :: 'p::len fp)" | "fround x = (Fin (rnd LENGTH('p) x) :: 'p fp)"
  unfolding fround_def Let_def by (cases "2 powi (fp_emax LENGTH('p) + 1) \<le> \<bar>rnd LENGTH('p) x\<bar>") auto

lemma fround_not_nan [simp]: "fround x \<noteq> FNaN"
  by (simp add: fround_def Let_def)

lemma fround_of_int:
  assumes "\<bar>m\<bar> \<le> 2 ^ LENGTH('p)" "LENGTH('p) \<le> 53" "24 \<le> LENGTH('p)"
  shows "fround (of_int m) = (Fin (of_int m) :: 'p::len fp)"
proof -
  have r: "rnd LENGTH('p) (of_int m) = of_int m" using rnd_of_int assms by simp
  have "\<bar>of_int m\<bar> \<le> (2::rat) ^ LENGTH('p)"
    using assms(1) by (metis of_int_abs of_int_le_numeral_power_cancel_iff)
  also have "\<dots> = 2 powi int LENGTH('p)" by simp
  also have "\<dots> < 2 powi (fp_emax LENGTH('p) + 1)"
    using assms(2,3) by (simp only: pow2_less_iff) (auto simp: fp_emax_def)
  finally show ?thesis by (simp add: fround_def r not_le)
qed

lemma fround_zero [simp]: "fround 0 = Fin 0"
  by (simp add: fround_def not_le)

lemma fround_mono: "x \<le> y \<Longrightarrow> fround x \<le> (fround y :: 'p::len fp)"
proof -
  assume xy: "x \<le> y"
  have m: "rnd LENGTH('p) x \<le> rnd LENGTH('p) y" using rnd_mono [OF xy] by simp
  have s: "0 \<le> z \<Longrightarrow> 0 \<le> rnd LENGTH('p) z" "z \<le> 0 \<Longrightarrow> rnd LENGTH('p) z \<le> 0" for z
    using rnd_nonneg [of z] rnd_nonneg [of "- z"] by (simp_all add: rnd_minus)
  show ?thesis
    using xy m s [of x] s [of y] by (fastforce simp: fround_def Let_def abs_if not_le split: if_splits)
qed

lemma fp_less_le: "(a :: 'p::len fp) < b \<Longrightarrow> a \<le> b"
  by (cases a; cases b) auto

lemma fp_le_trans: "(a :: 'p::len fp) \<le> b \<Longrightarrow> b \<le> c \<Longrightarrow> a \<le> c"
  by (cases a; cases b; cases c) auto

lemma fp_le_less_trans: "(a :: 'p::len fp) \<le> b \<Longrightarrow> b < c \<Longrightarrow> a < c"
  by (cases a; cases b; cases c) auto

lemma fp_less_le_trans: "(a :: 'p::len fp) < b \<Longrightarrow> b \<le> c \<Longrightarrow> a < c"
  by (cases a; cases b; cases c) auto

lemma fp_not_less: "\<not> isnan a \<Longrightarrow> \<not> isnan b \<Longrightarrow> \<not> (a :: 'p::len fp) < b \<longleftrightarrow> b \<le> a"
  by (cases a; cases b) auto

lemma fp_le_refl: "\<not> isnan a \<Longrightarrow> (a :: 'p::len fp) \<le> a"
  by (cases a) auto

lemma fp_add_mono:
  assumes "a \<le> b" "c \<le> d" "isfinite a" "isfinite b" "isfinite c" "isfinite d"
  shows "(a :: 'p::len fp) + c \<le> b + d"
  using assms by (cases a; cases b; cases c; cases d) (auto intro!: fround_mono)

section \<open>Square root\<close>

text \<open>The integer square root, two bits of the argument at a time.\<close>

definition isqrt_bit :: "nat \<Rightarrow> nat \<Rightarrow> nat" where
  "isqrt_bit n r = (if (r + 1) * (r + 1) \<le> n then r + 1 else r)"

fun isqrt :: "nat \<Rightarrow> nat" where
  "isqrt n = (if n = 0 then 0 else isqrt_bit n (2 * isqrt (n div 4)))"

declare isqrt.simps [simp del]

lemma isqrt_bounds: "isqrt n * isqrt n \<le> n \<and> n < (isqrt n + 1) * (isqrt n + 1)"
proof (induction n rule: isqrt.induct)
  case (1 n)
  show ?case
  proof (cases "n = 0")
    case False
    define r where "r = isqrt (n div 4)"
    have "r * r \<le> n div 4 \<and> n div 4 < (r + 1) * (r + 1)" using 1 False by (simp add: r_def)
    then have "4 * (r * r) \<le> n" "n < 4 * ((r + 1) * (r + 1))" by linarith+
    moreover have "isqrt n = isqrt_bit n (2 * r)"
      using False by (subst isqrt.simps) (simp add: r_def)
    ultimately show ?thesis by (simp add: isqrt_bit_def algebra_simps)
  qed (simp add: isqrt.simps)
qed

text \<open>\<open>std::sqrt\<close>: the exact root rounded to the type. The root is taken of the argument scaled
  by a power of four, as an integer with two bits more than the type holds; when it is not
  exact, half a unit stands for the rest of the digits, which puts the scaled root strictly
  between the same two neighbouring values of the type as the exact one.\<close>

definition scaled_root :: "rat \<Rightarrow> nat \<Rightarrow> rat" where
  "scaled_root y s = (if of_nat (s * s) = y then of_nat s else of_nat s + 1 / 2)"

definition root_scale :: "nat \<Rightarrow> rat \<Rightarrow> int" where
  "root_scale p x = int p + 1 - ilog2 x div 2"

definition fp_root :: "nat \<Rightarrow> rat \<Rightarrow> rat" where
  "fp_root p x = scaled_root (x * 4 powi root_scale p x)
     (isqrt (nat \<lfloor>x * 4 powi root_scale p x\<rfloor>)) * 2 powi (- root_scale p x)"

fun fp_sqrt :: "'p::len fp \<Rightarrow> 'p fp" where
  "fp_sqrt FNaN = FNaN"
| "fp_sqrt (FInf s) = (if s then FNaN else FInf False)"
| "fp_sqrt (Fin x) = (if x < 0 then FNaN else if x = 0 then Fin 0 else fround (fp_root LENGTH('p) x))"


lemma isqrt_floor:
  assumes "0 \<le> y"
  shows "of_nat (isqrt (nat \<lfloor>y\<rfloor>) * isqrt (nat \<lfloor>y\<rfloor>)) \<le> (y :: rat)"
    "y < of_nat ((isqrt (nat \<lfloor>y\<rfloor>) + 1) * (isqrt (nat \<lfloor>y\<rfloor>) + 1))"
proof -
  let ?s = "isqrt (nat \<lfloor>y\<rfloor>)"
  have b: "?s * ?s \<le> nat \<lfloor>y\<rfloor>" "nat \<lfloor>y\<rfloor> < (?s + 1) * (?s + 1)" using isqrt_bounds by blast+
  have "of_nat (nat \<lfloor>y\<rfloor>) = (of_int \<lfloor>y\<rfloor> :: rat)" using assms by simp
  then show "of_nat (?s * ?s) \<le> y" using b(1) of_int_floor_le [of y]
    by (metis of_nat_le_iff order_trans)
  have "nat \<lfloor>y\<rfloor> + 1 \<le> (?s + 1) * (?s + 1)" using b(2) by linarith
  then have "of_nat (nat \<lfloor>y\<rfloor> + 1) \<le> (of_nat ((?s + 1) * (?s + 1)) :: rat)" by (simp only: of_nat_le_iff)
  moreover have "y < of_nat (nat \<lfloor>y\<rfloor> + 1)" using assms by simp linarith
  ultimately show "y < of_nat ((?s + 1) * (?s + 1))" by linarith
qed

lemma fp_sqrt_nonneg: "0 \<le> a \<Longrightarrow> 0 \<le> fp_sqrt (a :: 'p::len fp)"
proof (cases a)
  case (Fin x)
  have "0 \<le> fp_root LENGTH('p) x" by (simp add: fp_root_def scaled_root_def)
  then have "fround 0 \<le> (fround (fp_root LENGTH('p) x) :: 'p fp)" by (rule fround_mono)
  then show "0 \<le> a \<Longrightarrow> ?thesis" by (simp add: Fin zero_fp_def)
qed (simp_all add: zero_fp_def)

section \<open>The unit interval\<close>

definition in01 :: "'p::len fp \<Rightarrow> bool" where
  "in01 a \<longleftrightarrow> 0 \<le> a \<and> a \<le> 1"

lemma in01_Fin [simp]: "in01 (Fin x) \<longleftrightarrow> 0 \<le> x \<and> x \<le> 1"
  by (simp add: in01_def zero_fp_def one_fp_def)

lemma in01_cases:
  assumes "in01 a" obtains x where "a = Fin x" "0 \<le> x" "x \<le> 1"
  using assms by (cases a) (auto simp: in01_def zero_fp_def one_fp_def)

lemma fround_1: "fround 1 = (Fin 1 :: double)"
  using fround_of_int [of 1, where 'p = 53] by simp

lemma fround_in01: "0 \<le> x \<Longrightarrow> x \<le> 1 \<Longrightarrow> in01 (fround x :: double)"
  using fround_mono [of 0 x, where 'p = 53] fround_mono [of x 1, where 'p = 53]
  by (simp add: in01_def zero_fp_def one_fp_def fround_1)

lemma in01_times: "in01 a \<Longrightarrow> in01 b \<Longrightarrow> in01 (a * b :: double)"
  by (auto elim!: in01_cases intro!: fround_in01 mult_le_one)

lemma in01_compl: "in01 a \<Longrightarrow> in01 (1 - a :: double)"
  by (auto elim!: in01_cases intro!: fround_in01 simp: minus_fp_def one_fp_def)

lemma clamp_in01: "\<not> isnan v \<Longrightarrow> in01 (std_clamp v 0 1 :: double)"
  by (cases v) (auto simp: std_clamp_def in01_def zero_fp_def one_fp_def)

lemma std_max_in01: "in01 a \<Longrightarrow> in01 b \<Longrightarrow> in01 (std_max a b)"
  by (simp add: std_max_def)

text \<open>A product with a factor of the unit interval is no larger than a value of the type.\<close>

definition fp_rep :: "'p::len fp \<Rightarrow> bool" where
  "fp_rep a \<longleftrightarrow> (case a of Fin x \<Rightarrow> fround x = a | _ \<Rightarrow> True)"

lemma fround_uminus: "fround (- x) = (- fround x :: 'p::len fp)"
  by (auto simp: fround_def Let_def rnd_minus) (metis neg_less_0_iff_less not_less_iff_gr_or_eq rnd_0 abs_zero pow2_nonneg_iff)

lemma fround_abs: "fround \<bar>x\<bar> = (\<bar>fround x\<bar> :: 'p::len fp)"
proof (cases "x < 0")
  case True
  then have "rnd LENGTH('p) x \<le> 0" using rnd_nonneg [of "- x" "LENGTH('p)"] by (simp add: rnd_minus)
  with True show ?thesis by (auto simp: fround_def Let_def rnd_minus abs_if)
next
  case False
  then show ?thesis using rnd_nonneg [of x "LENGTH('p)"] by (auto simp: fround_def Let_def)
qed

lemma fp_scale_le:
  assumes "isfinite a" "fp_rep a" "in01 f"
  shows "\<bar>a * f\<bar> \<le> \<bar>a :: double\<bar>"
proof -
  from assms(1) obtain x where a: "a = Fin x" by (cases a) auto
  from assms(3) obtain y where f: "f = Fin y" "0 \<le> y" "y \<le> 1" by (rule in01_cases)
  have "\<bar>x * y\<bar> \<le> \<bar>x\<bar>" using f by (simp add: abs_mult mult_left_le)
  then have "fround \<bar>x * y\<bar> \<le> (fround \<bar>x\<bar> :: double)" by (rule fround_mono)
  then show ?thesis using assms(2) by (simp add: a f fround_abs fp_rep_def)
qed

lemma fround_eqI:
  assumes "2 powi e \<le> \<bar>x\<bar>" "\<bar>x\<bar> < 2 powi (e + 1)" "q = max (e - (int LENGTH('p) - 1)) (fp_qmin LENGTH('p))"
    "rne (x / 2 powi q) = m" "\<bar>of_int m * 2 powi q\<bar> < (2::rat) powi (fp_emax LENGTH('p) + 1)"
  shows "fround x = (Fin (of_int m * 2 powi q) :: 'p::len fp)"
proof -
  have "x \<noteq> 0" using assms(1) by auto
  moreover have "ilog2 \<bar>x\<bar> = e" using assms(1,2) \<open>x \<noteq> 0\<close> by (intro ilog2_eqI) auto
  ultimately have "rnd LENGTH('p) x = of_int m * 2 powi q"
    using assms(3,4) by (simp add: rnd_def fp_qexp_def)
  then show ?thesis using assms(5) by (simp add: fround_def not_le)
qed


lemma rnd_idem_pos:
  assumes "0 < x" "0 < p"
  shows "rnd p (rnd p x) = rnd p x"
proof -
  let ?r = "rnd p x" and ?E = "fp_qexp p x + int p"
  have r: "?r = of_int (rne (x / 2 powi fp_qexp p x)) * 2 powi fp_qexp p x"
    using assms by (simp add: rnd_def Let_def)
  have E: "ilog2 x + 1 \<le> ?E" using assms by (simp add: fp_qexp_def)
  have "x \<le> 2 powi (ilog2 x + 1)" using ilog2_bounds(2) [OF assms(1)] by simp
  also have "\<dots> \<le> 2 powi ?E" using E by (simp only: pow2_le_iff)
  finally have "?r \<le> 2 powi ?E" using rnd_upper [of x p ?E 1] assms by simp
  then consider "?r = 0" | "0 < ?r" "?r < 2 powi ?E" | "?r = of_int 1 * 2 powi ?E"
    using rnd_nonneg [of x p] assms by force
  then show ?thesis
  proof cases
    case 2
    have "(2::rat) powi ilog2 ?r < 2 powi ?E" using ilog2_bounds(1) [OF 2(1)] 2(2) by linarith
    then have "ilog2 ?r < ?E" by (simp only: pow2_less_iff)
    then have "fp_qexp p ?r \<le> fp_qexp p x" using 2 assms by (simp add: fp_qexp_def)
    then show ?thesis using rnd_exact [OF r] by simp
  next
    case 3
    then have "ilog2 ?r = ?E" by (intro ilog2_eqI) simp_all
    then have "fp_qexp p ?r \<le> ?E" using assms 3 by (simp add: fp_qexp_def)
    then show ?thesis using rnd_exact [OF 3] by simp
  qed simp
qed

lemma pow2_minus: "0 \<le> k \<Longrightarrow> (2::rat) powi (- k) = 1 / 2 ^ nat k"
  by (simp add: power_int_def field_simps)

lemma rnd_error_01:
  assumes "0 \<le> x" "x \<le> 1"
  shows "rnd 53 x \<le> x + 1 / 2 ^ 54"
proof (cases "x = 0 \<or> x = 1")
  case True
  then show ?thesis using rnd_of_int [of 1 53] by auto
next
  case False
  then have x: "0 < x" "x < 1" using assms by auto
  have "(2::rat) powi ilog2 x < 2 powi 0" using ilog2_bounds(1) [OF x(1)] x(2) by simp
  then have "ilog2 x < 0" by (simp only: pow2_less_iff)
  then have q: "fp_qexp 53 x \<le> -53" using x by (simp add: fp_qexp_def fp_qmin_def fp_emax_def)
  let ?q = "2 powi fp_qexp 53 x :: rat"
  have "of_int (rne (x / ?q)) \<le> x / ?q + 1 / 2" using rne_bounds(1) [of "x / ?q"] by linarith
  then have "of_int (rne (x / ?q)) * ?q \<le> (x / ?q + 1 / 2) * ?q" by (intro mult_right_mono) simp_all
  then have "rnd 53 x \<le> x + ?q / 2" using x by (simp add: rnd_def Let_def distrib_right)
  moreover have "?q \<le> 2 powi (- 53)" using q by (simp only: pow2_le_iff)
  moreover have "(2::rat) powi (- 53) = 1 / 2 ^ 53" by (simp add: pow2_minus del: power_int_minus_left)
  ultimately show ?thesis by simp
qed

lemma fround_le_1:
  assumes "x \<le> 1 + 1 / 2 ^ 54"
  shows "fround x \<le> (Fin 1 :: double)"
proof -
  have p: "(2::rat) powi (- 52) = 1 / 2 ^ 52" by (simp add: pow2_minus del: power_int_minus_left)
  have "fround (1 + 1 / 2 ^ 54) = (Fin (of_int (2 ^ 52) * 2 powi (- 52)) :: double)"
  proof (rule fround_eqI [where e = 0])
    have "(1 + 1 / 2 ^ 54) / 2 powi (- 52) = (2 ^ 52 + 1 / 4 :: rat)" by (simp only: p) simp
    moreover have "\<lfloor>18014398509481985 / 4 :: rat\<rfloor> = 4503599627370496" by (simp add: floor_eq_iff)
    ultimately show "rne ((1 + 1 / 2 ^ 54) / 2 powi (- 52)) = 2 ^ 52" by (simp add: rne_def Let_def)
    have "(2::rat) powi 0 < 2 powi (fp_emax 53 + 1)" by (simp only: pow2_less_iff) (simp add: fp_emax_def)
    then show "\<bar>of_int (2 ^ 52) * 2 powi (- 52)\<bar> < (2::rat) powi (fp_emax LENGTH(53) + 1)"
      by (simp add: p del: power_int_minus_left)
  qed (simp_all add: fp_qmin_def fp_emax_def)
  then show ?thesis using fround_mono [OF assms, where 'p = 53] by (simp add: p del: power_int_minus_left)
qed

text \<open>A convex combination, in the two shapes the code writes, stays in the interval: the
  rounding errors never carry it past 1.\<close>

lemma fround_01: "0 \<le> x \<Longrightarrow> x \<le> 1 \<Longrightarrow> fround x = (Fin (rnd 53 x) :: double)"
  using fround_in01 [of x] by (cases rule: fround_cases [of x, where 'p = 53]) (auto elim: in01_cases)

lemma rnd_01: "0 \<le> x \<Longrightarrow> x \<le> 1 \<Longrightarrow> 0 \<le> rnd 53 x \<and> rnd 53 x \<le> 1"
  using fround_in01 [of x] by (simp add: fround_01)

lemma rnd_compl_times:
  assumes "0 \<le> x" "x \<le> 1" "0 \<le> y" "y \<le> 1"
  shows "rnd 53 (rnd 53 (1 - x) * y) \<le> 1 - x + 1 / 2 ^ 54"
proof -
  have r: "0 \<le> rnd 53 (1 - x)" using rnd_01 [of "1 - x"] assms by simp
  have "rnd 53 (rnd 53 (1 - x) * y) \<le> rnd 53 (rnd 53 (1 - x))"
    using assms r by (intro rnd_mono) (simp_all add: mult_left_le)
  also have "\<dots> = rnd 53 (1 - x)" using rnd_idem_pos [of "1 - x" 53] assms by (cases "x = 1") simp_all
  also have "\<dots> \<le> 1 - x + 1 / 2 ^ 54" using rnd_error_01 [of "1 - x"] assms by simp
  finally show ?thesis .
qed

lemma in01_fround_sum:
  assumes "0 \<le> s" "s \<le> 1 + 1 / 2 ^ 54"
  shows "in01 (fround s :: double)"
  using fround_mono [OF assms(1), where 'p = 53] fround_le_1 [OF assms(2)]
  by (simp add: in01_def zero_fp_def one_fp_def)

lemma in01_convex:
  assumes "in01 a" "in01 b" "in01 c" "fp_rep a"
  shows "in01 ((1 - a) * b + a * c :: double)"
proof -
  obtain x where x: "a = Fin x" "0 \<le> x" "x \<le> 1" using assms(1) by (rule in01_cases)
  obtain y where y: "b = Fin y" "0 \<le> y" "y \<le> 1" using assms(2) by (rule in01_cases)
  obtain z where z: "c = Fin z" "0 \<le> z" "z \<le> 1" using assms(3) by (rule in01_cases)
  let ?r = "rnd 53 (1 - x)"
  have r: "0 \<le> ?r" "?r \<le> 1" using rnd_01 [of "1 - x"] x by simp_all
  have xr: "rnd 53 x = x" using assms(4) x by (simp add: fp_rep_def fround_01)
  have xz: "0 \<le> x * z" "x * z \<le> x" "x * z \<le> 1" and ry: "0 \<le> ?r * y" "?r * y \<le> 1"
    using x y z r by (simp_all add: mult_left_le mult_le_one)
  have "rnd 53 (x * z) \<le> x" using rnd_mono [OF xz(2), of 53] xr by simp
  then have "rnd 53 (?r * y) + rnd 53 (x * z) \<le> 1 + 1 / 2 ^ 54"
    using rnd_compl_times [of x y] x y by linarith
  then have "in01 (fround (rnd 53 (?r * y) + rnd 53 (x * z)) :: double)"
    using rnd_01 [OF ry] rnd_01 [OF xz(1,3)] by (intro in01_fround_sum) simp_all
  then show ?thesis using x y z xz ry by (simp add: minus_fp_def one_fp_def fround_01)
qed

lemma in01_lift:
  assumes "in01 a" "in01 b"
  shows "in01 (a + (1 - a) * b :: double)"
proof -
  obtain x where x: "a = Fin x" "0 \<le> x" "x \<le> 1" using assms(1) by (rule in01_cases)
  obtain y where y: "b = Fin y" "0 \<le> y" "y \<le> 1" using assms(2) by (rule in01_cases)
  let ?r = "rnd 53 (1 - x)"
  have r: "0 \<le> ?r" "?r \<le> 1" using rnd_01 [of "1 - x"] x by simp_all
  have ry: "0 \<le> ?r * y" "?r * y \<le> 1" using y r by (simp_all add: mult_le_one)
  have "in01 (fround (x + rnd 53 (?r * y)) :: double)"
    using rnd_01 [OF ry] rnd_compl_times [of x y] x y by (intro in01_fround_sum) simp_all
  then show ?thesis using x y ry by (simp add: minus_fp_def one_fp_def fround_01)
qed

lemma lit_rep: "0 \<le> x \<Longrightarrow> x \<le> 1 \<Longrightarrow> fp_rep (lit x :: double)"
  using rnd_idem_pos [of x 53] rnd_01 [of x]
  by (cases "x = 0") (simp_all add: lit_def fp_rep_def fround_01)

lemma fround_inv_pow2:
  assumes "k \<le> 1000"
  shows "fround (1 / 2 ^ k) = (Fin (1 / 2 ^ k) :: double)"
proof -
  have p: "1 / 2 ^ k = of_int 1 * (2::rat) powi (- int k)" by (simp add: power_int_minus field_simps)
  have "ilog2 \<bar>1 / 2 ^ k\<bar> = - int k"
  proof (rule ilog2_eqI)
    have "(2::rat) powi (- int k) < 2 powi (- int k + 1)" by (simp only: pow2_less_iff)
    then show "\<bar>1 / 2 ^ k\<bar> < (2::rat) powi (- int k + 1)" using p by simp
  qed (simp_all add: power_int_minus field_simps)
  then have "fp_qexp 53 (1 / 2 ^ k) \<le> - int k" using assms by (simp add: fp_qexp_def fp_qmin_def fp_emax_def)
  then have r: "rnd 53 (1 / 2 ^ k) = 1 / 2 ^ k" using rnd_exact [OF p, of 53] by simp
  have "\<bar>1 / 2 ^ k\<bar> \<le> (2::rat) powi 0" by simp
  also have "\<dots> < 2 powi (fp_emax 53 + 1)" by (simp only: pow2_less_iff) (simp add: fp_emax_def)
  finally show ?thesis by (simp add: fround_def Let_def r not_le)
qed

lemma isnan_fround [simp]: "\<not> isnan (fround x :: 'p::len fp)"
  by (cases "fround x :: 'p fp") (simp_all add: fround_def Let_def split: if_splits)

lemma fp_add_nonneg: "0 \<le> a \<Longrightarrow> 0 \<le> b \<Longrightarrow> 0 \<le> (a + b :: 'p::len fp)"
  using fround_mono [of 0, where 'p = 'p]
  by (cases a; cases b) (auto simp: zero_fp_def)

lemma fp_square_nonneg: "isfinite a \<Longrightarrow> 0 \<le> (a * a :: 'p::len fp)"
  using fround_mono [of 0, where 'p = 'p] by (cases a) (auto simp: zero_fp_def)

definition pos_fin :: "double \<Rightarrow> bool" where
  "pos_fin a \<longleftrightarrow> (\<exists>x. a = Fin x \<and> 0 < x)"

lemma lit_01: "0 \<le> x \<Longrightarrow> x \<le> 1 \<Longrightarrow> (lit x :: double) = Fin (rnd 53 x) \<and> 0 \<le> rnd 53 x \<and> rnd 53 x \<le> 1"
  using rnd_01 [of x] by (simp add: lit_def fround_01)

lemma rnd_le_quarter: "0 \<le> x \<Longrightarrow> x \<le> 1 / 4 \<Longrightarrow> rnd 53 x \<le> 1 / 4"
  using fround_mono [of x "1 / 4", where 'p = 53] fround_inv_pow2 [of 2] by (simp add: fround_01)

lemma rnd_ge_half: "1 / 2 \<le> x \<Longrightarrow> x \<le> 1 \<Longrightarrow> 1 / 2 \<le> rnd 53 x"
  using fround_mono [of "1 / 2" x, where 'p = 53] fround_inv_pow2 [of 1] by (simp add: fround_01)

lemma fround_pos: "1 / 4 \<le> x \<Longrightarrow> x \<le> 2 \<Longrightarrow> pos_fin (fround x)"
  using fround_mono [of "1 / 4" x, where 'p = 53] fround_mono [of x 2, where 'p = 53]
    fround_inv_pow2 [of 2] fround_of_int [of 2, where 'p = 53]
  by (cases "fround x :: double") (auto simp: pos_fin_def)

end
