(* ===== verification/Protocol.thy ===== *)
theory Protocol
  imports FloatArith
begin

text \<open>
  The message types of \<open>core/src/common/Protocol.h\<close>: what an overlay sends over a feature
  pipe and what the driver answers. A struct is a record with the source's fields less the
  padding (the \<open>_reserved\<close> and \<open>_pad\<close> members, which the driver never reads), a
  fixed-size \<open>char\<close> array is the string it holds (up to the first NUL, or all of the array
  when it holds none), an enumeration is a datatype. \<open>Request\<close> and \<open>Response\<close> are tagged
  unions in the source, the tag first; here a constructor carries its union member, and a
  request whose tag is none of the enumeration's values is \<open>RequestUnknown\<close>.
\<close>

section \<open>OpenVR value types\<close>

type_synonym HmdVector3d_t = "double \<times> double \<times> double"

record HmdQuaternion_t =
  qw :: double
  qx :: double
  qy :: double
  qz :: double

datatype ETrackingResult = TrackingResult_Running_OK | TrackingResult_Other int

text \<open>\<open>vr::DriverPose_t\<close>, as the header repeats it for the overlays.\<close>

record DriverPose_t =
  poseTimeOffset :: double
  qWorldFromDriverRotation :: HmdQuaternion_t
  vecWorldFromDriverTranslation :: HmdVector3d_t
  qDriverFromHeadRotation :: HmdQuaternion_t
  vecDriverFromHeadTranslation :: HmdVector3d_t
  vecPosition :: HmdVector3d_t
  vecVelocity :: HmdVector3d_t
  vecAcceleration :: HmdVector3d_t
  qRotation :: HmdQuaternion_t
  vecAngularVelocity :: HmdVector3d_t
  vecAngularAcceleration :: HmdVector3d_t
  pose_result :: ETrackingResult
  poseIsValid :: bool
  willDriftInYaw :: bool
  shouldApplyHeadModel :: bool
  deviceIsConnected :: bool

section \<open>Constants\<close>

definition Version :: u32 where
  "Version = 18"

definition MaxTrackingSystemNameLen :: nat where
  "MaxTrackingSystemNameLen = 32"

definition INPUTHEALTH_PATH_LEN :: nat where
  "INPUTHEALTH_PATH_LEN = 64"

definition kAllFingersMask :: u16 where
  "kAllFingersMask = 0x03FF"

definition FACETRACKING_OSC_HOST_LEN :: nat where
  "FACETRACKING_OSC_HOST_LEN = 40"

definition FACETRACKING_MODULE_UUID_LEN :: nat where
  "FACETRACKING_MODULE_UUID_LEN = 40"

definition OSC_ROUTE_ADDR_LEN :: nat where
  "OSC_ROUTE_ADDR_LEN = 64"

definition OSC_PUBLISH_TYPETAG_LEN :: nat where
  "OSC_PUBLISH_TYPETAG_LEN = 8"

definition OSC_PUBLISH_ARG_LEN :: nat where
  "OSC_PUBLISH_ARG_LEN = 32"

definition CAPTIONS_LANG_LEN :: nat where
  "CAPTIONS_LANG_LEN = 16"

definition CAPTIONS_ADDR_LEN :: nat where
  "CAPTIONS_ADDR_LEN = 48"

definition k_unMaxTrackedDeviceCount :: nat where
  "k_unMaxTrackedDeviceCount = 64"

lemmas protocol_consts = Version_def MaxTrackingSystemNameLen_def INPUTHEALTH_PATH_LEN_def
  kAllFingersMask_def FACETRACKING_OSC_HOST_LEN_def FACETRACKING_MODULE_UUID_LEN_def
  OSC_ROUTE_ADDR_LEN_def OSC_PUBLISH_TYPETAG_LEN_def OSC_PUBLISH_ARG_LEN_def
  CAPTIONS_LANG_LEN_def CAPTIONS_ADDR_LEN_def k_unMaxTrackedDeviceCount_def

declare protocol_consts [cpp_defs]

section \<open>Payloads\<close>

record AlignmentSpeedParams =
  thr_trans_tiny :: double
  thr_trans_small :: double
  thr_trans_large :: double
  thr_rot_tiny :: double
  thr_rot_small :: double
  thr_rot_large :: double
  align_speed_tiny :: double
  align_speed_small :: double
  align_speed_large :: double

record SetDeviceTransform =
  sdt_openVRID :: u32
  sdt_enabled :: bool
  sdt_updateTranslation :: bool
  sdt_updateRotation :: bool
  sdt_updateScale :: bool
  sdt_translation :: HmdVector3d_t
  sdt_rotation :: HmdQuaternion_t
  sdt_scale :: double
  sdt_lerp :: bool
  sdt_quash :: bool
  sdt_target_system :: string
  sdt_predictionSmoothness :: byte
  sdt_recalibrateOnMovement :: bool

record FingerSmoothingConfig =
  fs_master_enabled :: bool
  fs_smoothness :: byte
  fs_finger_mask :: u16
  fs_per_finger_smoothness :: "byte list"

record SetDevicePrediction =
  sdp_openVRID :: u32
  sdp_predictionSmoothness :: byte
  sdp_smart_enabled :: byte

record SetTrackingSystemFallback =
  stf_system_name :: string
  stf_enabled :: bool
  stf_translation :: HmdVector3d_t
  stf_rotation :: HmdQuaternion_t
  stf_scale :: double
  stf_predictionSmoothness :: byte
  stf_recalibrateOnMovement :: bool

record InputHealthConfig =
  ihc_master_enabled :: bool
  ihc_diagnostics_only :: bool
  ihc_enable_rest_recenter :: bool
  ihc_enable_trigger_remap :: bool

record InputHealthResetStats =
  ihr_device_serial_hash :: u64
  ihr_reset_passive :: byte
  ihr_reset_active :: byte
  ihr_reset_curves :: byte

datatype InputHealthCompensationKind =
    InputHealthCompScalarSingle | InputHealthCompStickX | InputHealthCompStickY
  | InputHealthCompBoolean

record InputHealthCompensationEntry =
  ihe_device_serial_hash :: u64
  ihe_path :: string
  ihe_kind :: byte
  ihe_enabled :: byte
  ihe_learned_rest_offset :: float32
  ihe_learned_trigger_min :: float32
  ihe_learned_trigger_max :: float32
  ihe_learned_deadzone_radius :: float32
  ihe_learned_debounce_us :: u16

record FaceTrackingConfig =
  ftc_master_enabled :: byte
  ftc_eyelid_sync_enabled :: byte
  ftc_eyelid_sync_preserve_winks :: byte
  ftc_vergence_lock_enabled :: byte
  ftc_continuous_calib_mode :: byte
  ftc_output_osc_enabled :: byte
  ftc_eyelid_sync_strength :: byte
  ftc_vergence_lock_strength :: byte
  ftc_gaze_smoothing :: byte
  ftc_openness_smoothing :: byte
  ftc_osc_port :: u16
  ftc_osc_host :: string
  ftc_active_module_uuid :: string

datatype FaceCalibrationOp =
    FaceCalibBegin | FaceCalibEnd | FaceCalibSave | FaceCalibResetAll | FaceCalibResetEye
  | FaceCalibResetExpr

record FaceCalibrationCommand =
  fcc_op :: byte

record FaceModuleSelection =
  fms_uuid :: string

type_synonym OscSubscriberId = u32

record OscRouteSubscribe =
  ors_subscriber_id :: OscSubscriberId
  ors_enabled :: byte
  ors_pattern :: string

record OscRouteUnsubscribe =
  oru_subscriber_id :: OscSubscriberId

record OscPublish =
  op_address :: string
  op_typetag :: string
  op_arg_len :: byte
  op_arg_bytes :: "byte list"

record OscRouterStats =
  packets_sent :: u64
  bytes_sent :: u64
  packets_dropped :: u64
  active_routes :: u32

datatype CaptionsMode = CaptionsModePushToTalk | CaptionsModeAlwaysOn

record CaptionsConfig =
  cc_master_enabled :: byte
  cc_mode :: byte
  cc_notify_sound :: byte
  cc_transcript_logging :: byte
  cc_chatbox_port :: u16
  cc_source_lang :: string
  cc_target_lang :: string
  cc_chatbox_address :: string

record CaptionsSupervisorStatus =
  css_host_halted :: byte
  css_last_exit_code :: u32
  css_last_exit_description :: string

section \<open>Requests and responses\<close>

datatype Request =
    RequestInvalid
  | RequestHandshake
  | RequestSetDeviceTransform SetDeviceTransform
  | RequestSetAlignmentSpeedParams AlignmentSpeedParams
  | RequestDebugOffset
  | RequestSetTrackingSystemFallback SetTrackingSystemFallback
  | RequestSetFingerSmoothing FingerSmoothingConfig
  | RequestSetInputHealthConfig InputHealthConfig
  | RequestResetInputHealthStats InputHealthResetStats
  | RequestSetInputHealthCompensation InputHealthCompensationEntry
  | RequestSetDevicePrediction SetDevicePrediction
  | RequestSetFaceTrackingConfig FaceTrackingConfig
  | RequestSetFaceCalibrationCommand FaceCalibrationCommand
  | RequestSetFaceActiveModule FaceModuleSelection
  | RequestFaceHostRestart
  | RequestOscRouteSubscribe OscRouteSubscribe
  | RequestOscRouteUnsubscribe OscRouteUnsubscribe
  | RequestOscPublish OscPublish
  | RequestOscGetStats
  | RequestSetCaptionsConfig CaptionsConfig
  | RequestCaptionsRestartHost
  | RequestCaptionsGetSupervisorStatus
  | RequestUnknown u32

datatype Response =
    ResponseInvalid
  | ResponseHandshake u32
  | ResponseSuccess
  | ResponseOscRouterStats OscRouterStats
  | ResponseCaptionsSupervisorStatus CaptionsSupervisorStatus

end
