(* ===== verification/DriverConfig.thy ===== *)
theory DriverConfig
  imports Protocol "HOL-Library.AList"
begin

unbundle bit_operations_syntax

text \<open>
  The configuration caches of the driver (\<open>core/src/driver/ServerTrackedDeviceProvider.cpp\<close>): the
  finger-smoothing settings packed into two atomics, the input-health settings packed into one,
  and the table of learned input compensations, with \<open>core/src/common/inputhealth/PathClassifier.h\<close>
  and \<open>SerialHash.h\<close>. The hash tables are association lists: their order is not observable.
\<close>

section \<open>Bytes of a 64-bit word\<close>

text \<open>The machine is little endian: byte \<open>i\<close> of the object representation is bits \<open>8 i\<close> and up.\<close>

abbreviation u8_u64 :: "byte \<Rightarrow> u64" where "u8_u64 \<equiv> ucast"
abbreviation u64_u8 :: "u64 \<Rightarrow> byte" where "u64_u8 \<equiv> ucast"
abbreviation u8_u16 :: "byte \<Rightarrow> u16" where "u8_u16 \<equiv> ucast"
abbreviation u16_u8 :: "u16 \<Rightarrow> byte" where "u16_u8 \<equiv> ucast"

fun le64 :: "byte list \<Rightarrow> u64" where
  "le64 [] = 0"
| "le64 (b # bs) = u8_u64 b OR push_bit 8 (le64 bs)"

definition byte_at :: "u64 \<Rightarrow> nat \<Rightarrow> byte" where
  "byte_at w i = u64_u8 (drop_bit (8 * i) w)"

lemma byte_at_0: "byte_at (u8_u64 b OR push_bit 8 w) 0 = b"
  by (rule bit_word_eqI) (auto simp: byte_at_def bit_simps)

lemma byte_at_Suc: "i < 7 \<Longrightarrow> byte_at (u8_u64 b OR push_bit 8 w) (Suc i) = byte_at w i"
  by (rule bit_word_eqI) (auto simp: byte_at_def bit_simps dest: bit_imp_le_length)

lemma byte_at_le64: "i < length bs \<Longrightarrow> length bs \<le> 8 \<Longrightarrow> byte_at (le64 bs) i = bs ! i"
proof (induction bs arbitrary: i)
  case (Cons b bs)
  then show ?case by (cases i) (simp_all add: byte_at_0 byte_at_Suc)
qed simp

section \<open>Finger smoothing\<close>

definition bool_byte :: "bool \<Rightarrow> byte" where
  "bool_byte b = (if b then 1 else 0)"

definition PackFingerHeader :: "FingerSmoothingConfig \<Rightarrow> u64" where
  "PackFingerHeader cfg = le64 [bool_byte (fs_master_enabled cfg), fs_smoothness cfg,
     u16_u8 (fs_finger_mask cfg AND 0xFF), u16_u8 (drop_bit 8 (fs_finger_mask cfg) AND 0xFF),
     0, fs_per_finger_smoothness cfg ! 8, fs_per_finger_smoothness cfg ! 9, 0]"

definition PackFingerLow :: "FingerSmoothingConfig \<Rightarrow> u64" where
  "PackFingerLow cfg = le64 (take 8 (fs_per_finger_smoothness cfg))"

definition UnpackFingerSmoothing :: "u64 \<Rightarrow> u64 \<Rightarrow> FingerSmoothingConfig" where
  "UnpackFingerSmoothing header low = \<lparr>fs_master_enabled = (byte_at header 0 \<noteq> 0), fs_smoothness = byte_at header 1,
     fs_finger_mask = u8_u16 (byte_at header 2) OR push_bit 8 (u8_u16 (byte_at header 3)),
     fs_per_finger_smoothness = map (byte_at low) [0..<8] @ [byte_at header 5, byte_at header 6]\<rparr>"

record DriverConfigs =
  fingerCfgPacked :: u64
  perFingerSmoothness0to7Packed :: u64
  inputHealthCfgPacked :: u64
  inputHealthComp :: "(u64 \<times> (string \<times> InputHealthCompensationEntry) list) list"

definition DriverConfigs_new :: DriverConfigs where
  "DriverConfigs_new = \<lparr>fingerCfgPacked = 0, perFingerSmoothness0to7Packed = 0, inputHealthCfgPacked = 0,
     inputHealthComp = []\<rparr>"

text \<open>The two exchanges of the writer, in order.\<close>

definition store_finger_header :: "FingerSmoothingConfig \<Rightarrow> DriverConfigs \<Rightarrow> DriverConfigs" where
  "store_finger_header cfg d = d\<lparr>fingerCfgPacked := PackFingerHeader cfg\<rparr>"

definition store_finger_low :: "FingerSmoothingConfig \<Rightarrow> DriverConfigs \<Rightarrow> DriverConfigs" where
  "store_finger_low cfg d = d\<lparr>perFingerSmoothness0to7Packed := PackFingerLow cfg\<rparr>"

definition SetFingerSmoothingConfig :: "FingerSmoothingConfig \<Rightarrow> DriverConfigs \<Rightarrow> DriverConfigs" where
  "SetFingerSmoothingConfig cfg d = store_finger_low cfg (store_finger_header cfg d)"

text \<open>The two loads of the reader: the header from one state, the low half from a later one.\<close>

definition read_fingers :: "DriverConfigs \<Rightarrow> DriverConfigs \<Rightarrow> FingerSmoothingConfig" where
  "read_fingers d1 d2 = UnpackFingerSmoothing (fingerCfgPacked d1) (perFingerSmoothness0to7Packed d2)"

definition GetFingerSmoothingConfig :: "DriverConfigs \<Rightarrow> FingerSmoothingConfig" where
  "GetFingerSmoothingConfig d = read_fingers d d"

section \<open>Input-health settings\<close>

definition pack_ih :: "InputHealthConfig \<Rightarrow> u64" where
  "pack_ih cfg = le64 [bool_byte (ihc_master_enabled cfg), bool_byte (ihc_diagnostics_only cfg),
     bool_byte (ihc_enable_rest_recenter cfg), bool_byte (ihc_enable_trigger_remap cfg)]"

definition SetInputHealthConfig :: "InputHealthConfig \<Rightarrow> DriverConfigs \<Rightarrow> DriverConfigs" where
  "SetInputHealthConfig cfg d = d\<lparr>inputHealthCfgPacked := pack_ih cfg\<rparr>"

definition GetInputHealthConfig :: "DriverConfigs \<Rightarrow> InputHealthConfig" where
  "GetInputHealthConfig d = (let p = inputHealthCfgPacked d in
     \<lparr>ihc_master_enabled = (byte_at p 0 \<noteq> 0), ihc_diagnostics_only = (byte_at p 1 \<noteq> 0),
      ihc_enable_rest_recenter = (byte_at p 2 \<noteq> 0), ihc_enable_trigger_remap = (byte_at p 3 \<noteq> 0)\<rparr>)"

section \<open>Input paths\<close>

datatype PathClass = Trigger | StickAxis | ControllerButton | DiagnosticsOnly | Unsupported

fun IsCompensationPath :: "PathClass \<Rightarrow> bool" where
  "IsCompensationPath cls \<longleftrightarrow> cls = Trigger \<or> cls = StickAxis \<or> cls = ControllerButton"

fun IsDiagnosticsOnlyPath :: "PathClass \<Rightarrow> bool" where
  "IsDiagnosticsOnlyPath cls \<longleftrightarrow> cls = DiagnosticsOnly"

text \<open>\<open>path.find (s) != npos\<close>.\<close>

fun str_contains :: "string \<Rightarrow> string \<Rightarrow> bool" where
  "str_contains s [] = (s = [])"
| "str_contains s (c # cs) = (take (length s) (c # cs) = s \<or> str_contains s cs)"

definition ends_with :: "string \<Rightarrow> string \<Rightarrow> bool" where
  "ends_with s path \<longleftrightarrow> length path \<ge> length s \<and> drop (length path - length s) path = s"

definition IsTriggerLikePath :: "string \<Rightarrow> bool" where
  "IsTriggerLikePath path =
     (if str_contains ''/click'' path \<or> str_contains ''/touch'' path then False
      else if str_contains ''trigger'' path \<or> str_contains ''Trigger'' path then True
      else if ends_with ''/force'' path then True
      else if ends_with ''/pressure'' path then True
      else if str_contains ''/grip/value'' path then True
      else str_contains ''/squeeze/value'' path)"

definition is_stick_axis :: "string \<Rightarrow> bool" where
  "is_stick_axis path \<longleftrightarrow> length path \<ge> 2 \<and> path ! (length path - 2) = CHR ''/'' \<and>
     path ! (length path - 1) \<in> {CHR ''x'', CHR ''X'', CHR ''y'', CHR ''Y''} \<and>
     (str_contains ''stick'' path \<or> str_contains ''joystick'' path \<or> str_contains ''trackpad'' path \<or>
      str_contains ''thumbstick'' path \<or> str_contains ''touchpad'' path)"

definition ClassifyInputPath :: "string \<Rightarrow> PathClass" where
  "ClassifyInputPath path =
     (if path = [] then Unsupported
      else if str_contains ''/eye'' path \<or> str_contains ''/face'' path then DiagnosticsOnly
      else if str_contains ''/pupil'' path \<or> str_contains ''proximity'' path \<or> str_contains ''/imu'' path
      then Unsupported
      else if IsTriggerLikePath path then Trigger
      else if is_stick_axis path then StickAxis
      else if str_contains ''/input/'' path then ControllerButton
      else Unsupported)"

text \<open>FNV-1a over the bytes of a serial number.\<close>

definition fnv_step :: "u64 \<Rightarrow> char \<Rightarrow> u64" where
  "fnv_step h c = (h XOR u8_u64 (byte_of_char c)) * 0x100000001b3"

definition Fnv1a64 :: "string \<Rightarrow> u64" where
  "Fnv1a64 s = foldl fnv_step 0xcbf29ce484222325 s"

definition kSerialHashAllDevices :: u64 where
  "kSerialHashAllDevices = 0"

section \<open>The compensation table\<close>

definition InputHealthPathString :: "string \<Rightarrow> string" where
  "InputHealthPathString path = takeWhile (\<lambda>c. c \<noteq> CHR 0x00) (take INPUTHEALTH_PATH_LEN path)"

definition comp_erase :: "u64 \<Rightarrow> string \<Rightarrow> (u64 \<times> (string \<times> InputHealthCompensationEntry) list) list \<Rightarrow>
    (u64 \<times> (string \<times> InputHealthCompensationEntry) list) list" where
  "comp_erase h path t = (case map_of t h of None \<Rightarrow> t | Some inner \<Rightarrow>
     let inner' = AList.delete path inner
     in if inner' = [] then AList.delete h t else AList.update h inner' t)"

definition comp_insert :: "u64 \<Rightarrow> string \<Rightarrow> InputHealthCompensationEntry \<Rightarrow>
    (u64 \<times> (string \<times> InputHealthCompensationEntry) list) list \<Rightarrow>
    (u64 \<times> (string \<times> InputHealthCompensationEntry) list) list" where
  "comp_insert h path e t = AList.update h
     (AList.update path e (case map_of t h of None \<Rightarrow> [] | Some inner \<Rightarrow> inner)) t"

definition SetInputHealthCompensation :: "InputHealthCompensationEntry \<Rightarrow> DriverConfigs \<Rightarrow> DriverConfigs" where
  "SetInputHealthCompensation e d =
     (let path = InputHealthPathString (ihe_path e); h = ihe_device_serial_hash e in
      if h = 0 \<or> path = [] then d
      else if \<not> IsCompensationPath (ClassifyInputPath path) then d
      else if ihe_enabled e = 0 then d\<lparr>inputHealthComp := comp_erase h path (inputHealthComp d)\<rparr>
      else d\<lparr>inputHealthComp := comp_insert h path e (inputHealthComp d)\<rparr>)"

text \<open>\<open>out\<close> is left alone when nothing is found; the result is what the caller may use.\<close>

definition LookupInputHealthCompensation :: "u64 \<Rightarrow> string \<Rightarrow> DriverConfigs \<Rightarrow> InputHealthCompensationEntry option" where
  "LookupInputHealthCompensation h path d =
     (if h = 0 \<or> path = [] then None
      else case map_of (inputHealthComp d) h of
        None \<Rightarrow> None
      | Some inner \<Rightarrow> (case map_of inner path of None \<Rightarrow> None
          | Some e \<Rightarrow> if ihe_enabled e \<noteq> 0 then Some e else None))"

definition ClearInputHealthCompensation :: "u64 \<Rightarrow> DriverConfigs \<Rightarrow> DriverConfigs" where
  "ClearInputHealthCompensation h d = (if h = kSerialHashAllDevices then d\<lparr>inputHealthComp := []\<rparr>
     else d\<lparr>inputHealthComp := AList.delete h (inputHealthComp d)\<rparr>)"

section \<open>Packing\<close>

lemma bool_byte_simp [simp]: "bool_byte b \<noteq> 0 \<longleftrightarrow> b"
  by (simp add: bool_byte_def)

lemma mask_halves:
  "u8_u16 (u16_u8 (m AND 0xFF)) OR push_bit 8 (u8_u16 (u16_u8 (drop_bit 8 m AND 0xFF))) = m"
proof (rule bit_word_eqI)
  fix n assume "n < LENGTH(16)"
  have f: "(0xFF :: u16) = mask 8" by (simp add: mask_eq_exp_minus_1)
  show "bit (u8_u16 (u16_u8 (m AND 0xFF)) OR push_bit 8 (u8_u16 (u16_u8 (drop_bit 8 m AND 0xFF)))) n = bit m n"
    using \<open>n < LENGTH(16)\<close> unfolding f by (auto simp: bit_simps)
qed

lemma nth_pair: "length xs = 10 \<Longrightarrow> drop 8 xs = [xs ! 8, xs ! 9]"
  by (rule nth_equalityI) (auto simp: less_Suc_eq numeral_eq_Suc nth_Cons split: nat.splits)

lemma unpack_mixed:
  assumes "length (fs_per_finger_smoothness a) = 10" "length (fs_per_finger_smoothness b) = 10"
  shows "UnpackFingerSmoothing (PackFingerHeader a) (PackFingerLow b) =
    a\<lparr>fs_per_finger_smoothness := take 8 (fs_per_finger_smoothness b) @ drop 8 (fs_per_finger_smoothness a)\<rparr>"
proof -
  let ?bs = "[bool_byte (fs_master_enabled a), fs_smoothness a,
     u16_u8 (fs_finger_mask a AND 0xFF), u16_u8 (drop_bit 8 (fs_finger_mask a) AND 0xFF),
     0, fs_per_finger_smoothness a ! 8, fs_per_finger_smoothness a ! 9, 0]"
  have h: "byte_at (PackFingerHeader a) i = ?bs ! i" if "i < 8" for i
    using that unfolding PackFingerHeader_def by (subst byte_at_le64) simp_all
  have l: "map (byte_at (PackFingerLow b)) [0..<8] = take 8 (fs_per_finger_smoothness b)"
    using assms(2) by (intro nth_equalityI) (simp_all add: PackFingerLow_def byte_at_le64)
  show ?thesis using assms(1)
    by (simp add: UnpackFingerSmoothing_def l h mask_halves nth_pair)
qed

section \<open>The table as a map\<close>

definition comp_map :: "DriverConfigs \<Rightarrow> u64 \<times> string \<Rightarrow> InputHealthCompensationEntry option" where
  "comp_map d k = (case map_of (inputHealthComp d) (fst k) of None \<Rightarrow> None | Some inner \<Rightarrow> map_of inner (snd k))"

definition entry_allowed :: "u64 \<Rightarrow> string \<Rightarrow> InputHealthCompensationEntry \<Rightarrow> bool" where
  "entry_allowed h path e \<longleftrightarrow> h \<noteq> 0 \<and> path \<noteq> [] \<and> ihe_enabled e \<noteq> 0 \<and> IsCompensationPath (ClassifyInputPath path)"

definition comp_inv :: "DriverConfigs \<Rightarrow> bool" where
  "comp_inv d \<longleftrightarrow> (\<forall>h path e. comp_map d (h, path) = Some e \<longrightarrow> entry_allowed h path e)"

definition spec_set_comp :: "InputHealthCompensationEntry \<Rightarrow> (u64 \<times> string \<rightharpoonup> InputHealthCompensationEntry) \<Rightarrow>
    u64 \<times> string \<rightharpoonup> InputHealthCompensationEntry" where
  "spec_set_comp e M = (let path = InputHealthPathString (ihe_path e); h = ihe_device_serial_hash e in
     if h = 0 \<or> path = [] \<or> \<not> IsCompensationPath (ClassifyInputPath path) then M
     else if ihe_enabled e = 0 then M((h, path) := None) else M((h, path) \<mapsto> e))"

lemma comp_map_erase:
  "comp_map (d\<lparr>inputHealthComp := comp_erase h path (inputHealthComp d)\<rparr>) = (comp_map d)((h, path) := None)"
proof (cases "map_of (inputHealthComp d) h")
  case None
  then show ?thesis by (auto simp: comp_map_def comp_erase_def fun_eq_iff)
next
  case (Some inner)
  have del: "map_of (AList.delete path inner) = (map_of inner)(path := None)" by (rule delete_conv')
  show ?thesis
  proof (cases "AList.delete path inner = []")
    case True
    then have "(map_of inner)(path := None) = Map.empty" using del by simp
    then have "map_of inner q = None" if "q \<noteq> path" for q using that by (metis fun_upd_other)
    then show ?thesis using Some True by (auto simp: comp_map_def comp_erase_def fun_eq_iff delete_conv')
  next
    case False
    then show ?thesis using Some del by (auto simp: comp_map_def comp_erase_def fun_eq_iff update_conv')
  qed
qed

lemma comp_map_insert:
  "comp_map (d\<lparr>inputHealthComp := comp_insert h path e (inputHealthComp d)\<rparr>) = (comp_map d)((h, path) \<mapsto> e)"
  by (auto simp: comp_map_def comp_insert_def fun_eq_iff update_conv' split: option.splits)

lemma comp_map_set: "comp_map (SetInputHealthCompensation e d) = spec_set_comp e (comp_map d)"
  by (simp add: SetInputHealthCompensation_def spec_set_comp_def Let_def comp_map_erase comp_map_insert)

lemma comp_map_clear:
  "comp_map (ClearInputHealthCompensation h d) = (\<lambda>k. if h = 0 \<or> fst k = h then None else comp_map d k)"
  by (auto simp: ClearInputHealthCompensation_def kSerialHashAllDevices_def comp_map_def fun_eq_iff delete_conv')

lemma comp_inv_new: "comp_inv DriverConfigs_new"
  by (simp add: comp_inv_def comp_map_def DriverConfigs_new_def)

lemma comp_inv_set: "comp_inv d \<Longrightarrow> comp_inv (SetInputHealthCompensation e d)"
  by (auto simp: comp_inv_def comp_map_set spec_set_comp_def Let_def entry_allowed_def)

lemma comp_inv_clear: "comp_inv d \<Longrightarrow> comp_inv (ClearInputHealthCompensation h d)"
  by (auto simp: comp_inv_def comp_map_clear)

inductive cfg_reach :: "DriverConfigs \<Rightarrow> bool" where
  Cfg_new: "cfg_reach DriverConfigs_new"
| Cfg_fingers: "cfg_reach d \<Longrightarrow> cfg_reach (SetFingerSmoothingConfig f d)"
| Cfg_health: "cfg_reach d \<Longrightarrow> cfg_reach (SetInputHealthConfig c d)"
| Cfg_set: "cfg_reach d \<Longrightarrow> cfg_reach (SetInputHealthCompensation e d)"
| Cfg_clear: "cfg_reach d \<Longrightarrow> cfg_reach (ClearInputHealthCompensation h d)"

lemma cfg_reach_inv: "cfg_reach d \<Longrightarrow> comp_inv d"
proof (induction rule: cfg_reach.induct)
  case (Cfg_fingers d f)
  then show ?case by (simp add: comp_inv_def comp_map_def SetFingerSmoothingConfig_def store_finger_low_def store_finger_header_def)
next
  case (Cfg_health d c)
  then show ?case by (simp add: comp_inv_def comp_map_def SetInputHealthConfig_def)
qed (simp_all add: comp_inv_new comp_inv_set comp_inv_clear)

lemma Lookup_comp_map: "comp_inv d \<Longrightarrow> LookupInputHealthCompensation h path d = comp_map d (h, path)"
  by (auto simp: LookupInputHealthCompensation_def comp_map_def comp_inv_def entry_allowed_def split: option.splits)

lemma compensation_path_allowed:
  assumes "IsCompensationPath (ClassifyInputPath path)"
    "frag \<in> {''/eye'', ''/face'', ''/pupil'', ''proximity'', ''/imu''}"
  shows "\<not> str_contains frag path"
  using assms by (auto simp: ClassifyInputPath_def split: if_splits)

lemma str_contains_iff: "str_contains s t \<longleftrightarrow> (\<exists>a b. t = a @ s @ b)"
proof (induction t)
  case (Cons c cs)
  have "take (length s) (c # cs) = s \<longleftrightarrow> (\<exists>b. c # cs = s @ b)"
    by (metis append_eq_conv_conj)
  moreover have "(\<exists>a b. c # cs = a @ s @ b) \<longleftrightarrow> (\<exists>b. c # cs = s @ b) \<or> (\<exists>a b. cs = a @ s @ b)"
    by (metis append_Cons append_Nil list.exhaust list.inject)
  ultimately show ?case using Cons by simp
qed simp

section \<open>Properties\<close>

text \<open>The finger settings survive packing into the two atomics, and a reader that loads the two words
  around a writer's two stores sees the header fields, the mask and the last two fingers of one
  configuration, and the first eight fingers of one configuration, each the old or the new one:
  every value read is one that was set.\<close>

theorem finger_config_reads:
  assumes "length (fs_per_finger_smoothness old) = 10" "length (fs_per_finger_smoothness new) = 10"
    "d0 = SetFingerSmoothingConfig old d" "d1 = store_finger_header new d0" "d2 = store_finger_low new d1"
    "a \<in> {d0, d1, d2}" "b \<in> {d0, d1, d2}"
  shows "GetFingerSmoothingConfig d0 = old \<and> GetFingerSmoothingConfig d2 = new \<and>
    (\<exists>h \<in> {old, new}. \<exists>l \<in> {old, new}. read_fingers a b =
       h\<lparr>fs_per_finger_smoothness := take 8 (fs_per_finger_smoothness l) @ drop 8 (fs_per_finger_smoothness h)\<rparr>)"
proof -
  let ?mix = "\<lambda>h l. h\<lparr>fs_per_finger_smoothness := take 8 (fs_per_finger_smoothness l) @ drop 8 (fs_per_finger_smoothness h)\<rparr>"
  have pack: "\<exists>h \<in> {old, new}. fingerCfgPacked c = PackFingerHeader h"
    "\<exists>l \<in> {old, new}. perFingerSmoothness0to7Packed c = PackFingerLow l" if "c \<in> {d0, d1, d2}" for c
    using that assms(3-5) by (auto simp: SetFingerSmoothingConfig_def store_finger_header_def store_finger_low_def)
  obtain h l where hl: "h \<in> {old, new}" "l \<in> {old, new}"
    "fingerCfgPacked a = PackFingerHeader h" "perFingerSmoothness0to7Packed b = PackFingerLow l"
    using pack(1) [OF assms(6)] pack(2) [OF assms(7)] by blast
  then have "read_fingers a b = ?mix h l"
    using assms(1,2) by (auto simp: read_fingers_def unpack_mixed)
  moreover have "GetFingerSmoothingConfig d0 = old" "GetFingerSmoothingConfig d2 = new"
    using assms(1-5) by (simp_all add: GetFingerSmoothingConfig_def read_fingers_def SetFingerSmoothingConfig_def
        store_finger_header_def store_finger_low_def unpack_mixed)
  ultimately show ?thesis using hl(1,2) by blast
qed

definition demo_fingers :: "byte \<Rightarrow> FingerSmoothingConfig" where
  "demo_fingers b = \<lparr>fs_master_enabled = True, fs_smoothness = 40, fs_finger_mask = 0x03A5,
     fs_per_finger_smoothness = [b, 1, 2, 3, 4, 5, 6, 7, 8, b]\<rparr>"

theorem finger_config_reads_witness:
  "GetFingerSmoothingConfig (SetFingerSmoothingConfig (demo_fingers 9) DriverConfigs_new) = demo_fingers 9"
  using finger_config_reads [of "demo_fingers 9" "demo_fingers 70", OF _ _ refl refl refl insertI1 insertI1]
  by (simp add: demo_fingers_def)

text \<open>The compensation table is a map from device and path to the last enabled entry: setting,
  disabling, clearing one device and clearing all act on it as on a map, a lookup returns exactly
  what the map holds, and no entry is ever held for an eye, face, pupil, proximity or IMU path.\<close>

theorem compensation_refines_map:
  assumes "cfg_reach d"
  shows "comp_map (SetInputHealthCompensation e d) = spec_set_comp e (comp_map d) \<and>
    comp_map (ClearInputHealthCompensation h d) = (\<lambda>k. if h = 0 \<or> fst k = h then None else comp_map d k) \<and>
    LookupInputHealthCompensation h path d = comp_map d (h, path) \<and>
    (comp_map d (h, path) \<noteq> None \<longrightarrow>
       (\<forall>frag \<in> {''/eye'', ''/face'', ''/pupil'', ''proximity'', ''/imu''}. \<not> (\<exists>a b. path = a @ frag @ b)))"
proof -
  have inv: "comp_inv d" by (rule cfg_reach_inv [OF assms])
  have "\<not> (\<exists>a b. path = a @ frag @ b)" if "comp_map d (h, path) \<noteq> None"
    "frag \<in> {''/eye'', ''/face'', ''/pupil'', ''proximity'', ''/imu''}" for frag
  proof -
    have "IsCompensationPath (ClassifyInputPath path)"
      using inv that(1) by (auto simp: comp_inv_def entry_allowed_def)
    from compensation_path_allowed [OF this that(2)] show ?thesis by (simp add: str_contains_iff)
  qed
  then show ?thesis using Lookup_comp_map [OF inv] by (simp add: comp_map_set comp_map_clear)
qed

definition demo_entry :: InputHealthCompensationEntry where
  "demo_entry = \<lparr>ihe_device_serial_hash = 7, ihe_path = ''/input/trigger/value'', ihe_kind = 0, ihe_enabled = 1,
     ihe_learned_rest_offset = 0, ihe_learned_trigger_min = 0, ihe_learned_trigger_max = 1,
     ihe_learned_deadzone_radius = 0, ihe_learned_debounce_us = 0\<rparr>"

theorem compensation_refines_map_witness:
  "LookupInputHealthCompensation 7 ''/input/trigger/value'' (SetInputHealthCompensation demo_entry DriverConfigs_new) =
     Some demo_entry"
proof -
  have "cfg_reach (SetInputHealthCompensation demo_entry DriverConfigs_new)" by (intro Cfg_set Cfg_new)
  from compensation_refines_map [OF this, of demo_entry 7 "''/input/trigger/value''"]
    compensation_refines_map [OF Cfg_new, of demo_entry 7 "''/input/trigger/value''"]
  show ?thesis
    by (simp add: spec_set_comp_def demo_entry_def InputHealthPathString_def INPUTHEALTH_PATH_LEN_def
        ClassifyInputPath_def IsTriggerLikePath_def Let_def)
qed

end
