(* ===== verification/InputStats.thy ===== *)
theory InputStats
  imports DriverConfig
begin

text \<open>
  The running statistics the driver keeps for one input component
  (\<open>core/src/common/inputhealth/*.h\<close> and \<open>inputhealth/PerComponentStats.h\<close>), the observation of
  a sample (\<open>InputHealthObservation.cpp\<close>) and the correction of a value with what was learned for
  the component (\<open>InputHealthCompensation.cpp\<close>). \<open>std::hypot\<close> and \<open>std::atan2\<close> are arguments,
  since their last digits depend on the C library; \<open>std::fmod\<close> is exact and is defined here.
\<close>

section \<open>Mean and variance\<close>

record WelfordState =
  wf_count :: u64
  wf_mean :: double
  wf_m2 :: double

definition WelfordState_new :: WelfordState where
  "WelfordState_new = \<lparr>wf_count = 0, wf_mean = 0, wf_m2 = 0\<rparr>"

definition WelfordUpdate :: "double \<Rightarrow> WelfordState \<Rightarrow> WelfordState" where
  "WelfordUpdate x s =
     (let count = wf_count s + 1;
          delta = x - wf_mean s;
          mean = wf_mean s + delta / of_integer (uint count);
          delta2 = x - mean
      in s\<lparr>wf_count := count, wf_mean := mean, wf_m2 := wf_m2 s + delta * delta2\<rparr>)"

definition PopulationVariance :: "WelfordState \<Rightarrow> double" where
  "PopulationVariance s = (if wf_count s = 0 then 0 else wf_m2 s / of_integer (uint (wf_count s)))"

definition SampleVariance :: "WelfordState \<Rightarrow> double" where
  "SampleVariance s = (if wf_count s < 2 then 0 else wf_m2 s / of_integer (uint (wf_count s - 1)))"

definition PopulationStdDev :: "WelfordState \<Rightarrow> double" where
  "PopulationStdDev s = fp_sqrt (PopulationVariance s)"

definition SampleStdDev :: "WelfordState \<Rightarrow> double" where
  "SampleStdDev s = fp_sqrt (SampleVariance s)"

definition WelfordReset :: "WelfordState \<Rightarrow> WelfordState" where
  "WelfordReset s = s\<lparr>wf_count := 0, wf_mean := 0, wf_m2 := 0\<rparr>"

section \<open>Change of level\<close>

record PageHinkleyState =
  phs_mean :: double
  phs_pos :: double
  phs_neg :: double
  phs_initialized :: bool
  phs_triggered :: bool
  phs_triggered_positive :: bool

definition PageHinkleyState_new :: PageHinkleyState where
  "PageHinkleyState_new = \<lparr>phs_mean = 0, phs_pos = 0, phs_neg = 0, phs_initialized = False,
     phs_triggered = False, phs_triggered_positive = False\<rparr>"

record PageHinkleyParams =
  php_alpha :: double
  php_delta :: double
  php_lambda :: double
  php_one_sided_positive :: bool

text \<open>The part before the threshold test, then the whole update with its result.\<close>

definition ph_accumulate :: "PageHinkleyParams \<Rightarrow> double \<Rightarrow> PageHinkleyState \<Rightarrow> PageHinkleyState" where
  "ph_accumulate p x s =
     (let mean = (if \<not> phs_initialized s then x else (1 - php_alpha p) * phs_mean s + php_alpha p * x);
          dev = x - mean
      in s\<lparr>phs_mean := mean, phs_initialized := True,
           phs_pos := std_max 0 (phs_pos s + (dev - php_delta p)),
           phs_neg := (if php_one_sided_positive p then phs_neg s
                       else std_max 0 (phs_neg s - (dev + php_delta p)))\<rparr>)"

definition PageHinkleyUpdate :: "PageHinkleyParams \<Rightarrow> double \<Rightarrow> PageHinkleyState \<Rightarrow> PageHinkleyState \<times> bool" where
  "PageHinkleyUpdate p x s0 = (let s = ph_accumulate p x s0 in
     if phs_triggered s then (s, False)
     else if php_lambda p < phs_pos s then (s\<lparr>phs_triggered := True, phs_triggered_positive := True\<rparr>, True)
     else if \<not> php_one_sided_positive p \<and> php_lambda p < phs_neg s
       then (s\<lparr>phs_triggered := True, phs_triggered_positive := False\<rparr>, True)
     else (s, False))"

definition PageHinkleyReset :: "PageHinkleyState \<Rightarrow> PageHinkleyState" where
  "PageHinkleyReset s = s\<lparr>phs_mean := 0, phs_pos := 0, phs_neg := 0, phs_initialized := False,
     phs_triggered := False, phs_triggered_positive := False\<rparr>"

section \<open>Rolling minimum\<close>

record EWMARollingMinState =
  ewm_value :: double
  ewm_initialized :: bool

definition EWMARollingMinState_new :: EWMARollingMinState where
  "EWMARollingMinState_new = \<lparr>ewm_value = 0, ewm_initialized = False\<rparr>"

definition EWMARollingMinUpdate :: "double \<Rightarrow> double \<Rightarrow> EWMARollingMinState \<Rightarrow> EWMARollingMinState" where
  "EWMARollingMinUpdate x decay0 s =
     (let decay1 = (if decay0 < 0 then 0 else decay0);
          decay = (if 1 < decay1 then 1 else decay1)
      in if \<not> ewm_initialized s then s\<lparr>ewm_value := x, ewm_initialized := True\<rparr>
         else if x < ewm_value s then s\<lparr>ewm_value := x\<rparr>
         else s\<lparr>ewm_value := (1 - decay) * ewm_value s + decay * x\<rparr>)"

definition EWMARollingMinReset :: "EWMARollingMinState \<Rightarrow> EWMARollingMinState" where
  "EWMARollingMinReset s = s\<lparr>ewm_value := 0, ewm_initialized := False\<rparr>"

definition EWMARollingMinValue :: "EWMARollingMinState \<Rightarrow> double" where
  "EWMARollingMinValue s = (if ewm_initialized s then ewm_value s else 0)"

section \<open>Stick envelope\<close>

definition kBinCount :: nat where "kBinCount = 36"
definition kPerBinCap :: u16 where "kPerBinCap = 256"
definition kPerBinMinForConfidence :: int where "kPerBinMinForConfidence = 16"
definition kTwoPi :: double where "kTwoPi = lit 6.283185307179586"
definition kBinWidthRad :: double where "kBinWidthRad = kTwoPi / of_integer (int kBinCount)"

record PolarBin =
  pb_max_r :: float32
  pb_count :: u16
  pb_last_update_us :: u64

definition PolarBin_new :: PolarBin where
  "PolarBin_new = \<lparr>pb_max_r = 0, pb_count = 0, pb_last_update_us = 0\<rparr>"

record PolarHistogramState =
  ph_bins :: "PolarBin list"
  global_max_r :: float32

definition PolarHistogramState_new :: PolarHistogramState where
  "PolarHistogramState_new = \<lparr>ph_bins = replicate kBinCount PolarBin_new, global_max_r = 0\<rparr>"

text \<open>\<open>static_cast<int>\<close> of a \<open>double\<close>: truncation towards zero; for a value that does not
  fit, the conversion instruction of the target (x86-64) gives the least \<open>int\<close>.\<close>

definition trunc_rat :: "rat \<Rightarrow> int" where
  "trunc_rat r = (if 0 \<le> r then \<lfloor>r\<rfloor> else \<lceil>r\<rceil>)"

fun cast_int :: "double \<Rightarrow> int" where
  "cast_int (Fin r) = (let i = trunc_rat r in if - (2 ^ 31) \<le> i \<and> i < 2 ^ 31 then i else - (2 ^ 31))"
| "cast_int _ = - (2 ^ 31)"

fun fp_fmod :: "double \<Rightarrow> double \<Rightarrow> double" where
  "fp_fmod (Fin x) (Fin y) = (if y = 0 then FNaN else Fin (x - of_int (trunc_rat (x / y)) * y))"
| "fp_fmod (Fin x) (FInf s) = Fin x"
| "fp_fmod _ _ = FNaN"

definition PolarBinIndexForAngle :: "double \<Rightarrow> nat" where
  "PolarBinIndexForAngle theta_rad =
     (let t0 = fp_fmod theta_rad kTwoPi;
          t = (if t0 < 0 then t0 + kTwoPi else t0);
          idx = cast_int (t / kBinWidthRad)
      in if idx < 0 then 0 else if idx \<ge> int kBinCount then kBinCount - 1 else nat idx)"

definition polar_bin_update :: "float32 \<Rightarrow> u64 \<Rightarrow> double \<Rightarrow> PolarBin \<Rightarrow> PolarBin" where
  "polar_bin_update rf timestamp_us saturated_decay b =
     (if pb_count b < kPerBinCap
      then b\<lparr>pb_count := pb_count b + 1, pb_max_r := (if pb_max_r b < rf then rf else pb_max_r b),
             pb_last_update_us := timestamp_us\<rparr>
      else
        let decay0 = (fp_cast saturated_decay :: float32);
            decay1 = (if decay0 < 0 then 0 else decay0);
            decay = (if 1 < decay1 then 1 else decay1);
            blended = (1 - decay) * pb_max_r b + decay * rf
        in b\<lparr>pb_max_r := (if pb_max_r b < rf then rf else blended), pb_last_update_us := timestamp_us\<rparr>)"

type_synonym fp2 = "double \<Rightarrow> double \<Rightarrow> double"

definition PolarHistogramUpdate ::
    "fp2 \<Rightarrow> fp2 \<Rightarrow> double \<Rightarrow> double \<Rightarrow> u64 \<Rightarrow> double \<Rightarrow> PolarHistogramState \<Rightarrow> PolarHistogramState" where
  "PolarHistogramUpdate hypot atan2 x y timestamp_us saturated_decay s =
     (let bin = PolarBinIndexForAngle (atan2 y x);
          b = polar_bin_update (fp_cast (hypot x y)) timestamp_us saturated_decay (ph_bins s ! bin)
      in s\<lparr>ph_bins := (ph_bins s)[bin := b],
           global_max_r := (if global_max_r s < pb_max_r b then pb_max_r b else global_max_r s)\<rparr>)"

definition PolarBinConfidence :: "PolarBin \<Rightarrow> float32" where
  "PolarBinConfidence b = (if pb_count b = 0 then 0
     else let c = of_integer (uint (pb_count b)) / of_integer kPerBinMinForConfidence
          in if 1 < c then 1 else c)"

definition PolarHistogramReset :: "PolarHistogramState \<Rightarrow> PolarHistogramState" where
  "PolarHistogramReset s = s\<lparr>ph_bins := replicate kBinCount PolarBin_new, global_max_r := 0\<rparr>"

section \<open>One component\<close>

datatype AxisRole = RoleUnpaired | RoleStickX | RoleStickY

record ComponentStats =
  cs_path :: string
  cs_is_scalar :: bool
  cs_is_boolean :: bool
  cs_container_handle :: u64
  cs_device_serial_hash :: u64
  cs_last_serial_resolve_attempt_us :: u64
  cs_serial_resolution_logged :: bool
  cs_first_update_logged :: bool
  cs_welford :: WelfordState
  cs_scalar_range_initialized :: bool
  cs_observed_min :: float32
  cs_observed_max :: float32
  cs_ph_drift :: PageHinkleyState
  cs_rest_min :: EWMARollingMinState
  cs_last_value :: float32
  cs_last_update_us :: u64
  cs_axis_role :: AxisRole
  cs_partner_handle :: u64
  cs_polar :: PolarHistogramState
  cs_press_count :: u64
  cs_last_boolean :: bool
  cs_pending_state :: bool
  cs_last_committed_us :: u64

definition ComponentStats_new :: ComponentStats where
  "ComponentStats_new = \<lparr>cs_path = [], cs_is_scalar = False, cs_is_boolean = False, cs_container_handle = 0,
     cs_device_serial_hash = 0, cs_last_serial_resolve_attempt_us = 0, cs_serial_resolution_logged = False,
     cs_first_update_logged = False, cs_welford = WelfordState_new, cs_scalar_range_initialized = False,
     cs_observed_min = 0, cs_observed_max = 0, cs_ph_drift = PageHinkleyState_new,
     cs_rest_min = EWMARollingMinState_new, cs_last_value = 0, cs_last_update_us = 0,
     cs_axis_role = RoleUnpaired, cs_partner_handle = 0, cs_polar = PolarHistogramState_new, cs_press_count = 0,
     cs_last_boolean = False, cs_pending_state = False, cs_last_committed_us = 0\<rparr>"

definition ComponentStatsResetPassive :: "ComponentStats \<Rightarrow> ComponentStats" where
  "ComponentStatsResetPassive s = s\<lparr>cs_welford := WelfordReset (cs_welford s),
     cs_ph_drift := PageHinkleyReset (cs_ph_drift s), cs_rest_min := EWMARollingMinReset (cs_rest_min s),
     cs_polar := PolarHistogramReset (cs_polar s), cs_scalar_range_initialized := False, cs_observed_min := 0,
     cs_observed_max := 0, cs_last_value := 0, cs_last_update_us := 0, cs_press_count := 0,
     cs_last_boolean := False, cs_pending_state := False, cs_last_committed_us := 0,
     cs_first_update_logged := False\<rparr>"

text \<open>The role and the stem.\<close>

definition ClassifyAxisRole :: "string \<Rightarrow> AxisRole \<times> string" where
  "ClassifyAxisRole path =
     (if length path < 2 then (RoleUnpaired, path)
      else let a = path ! (length path - 2); b = path ! (length path - 1) in
        if a = CHR ''/'' \<and> (b = CHR ''x'' \<or> b = CHR ''X'') then (RoleStickX, take (length path - 2) path)
        else if a = CHR ''/'' \<and> (b = CHR ''y'' \<or> b = CHR ''Y'') then (RoleStickY, take (length path - 2) path)
        else (RoleUnpaired, path))"

section \<open>Observation\<close>

definition DefaultDriftParams :: PageHinkleyParams where
  "DefaultDriftParams = \<lparr>php_alpha = lit 0.0001, php_delta = lit 0.002, php_lambda = lit 0.05,
     php_one_sided_positive = False\<rparr>"

definition kRestMinDecay :: double where "kRestMinDecay = lit 0.000000032"
definition kRestThreshold :: float32 where "kRestThreshold = lit 0.1"

definition ObserveBooleanSample :: "bool \<Rightarrow> ComponentStats \<Rightarrow> ComponentStats" where
  "ObserveBooleanSample newValue s = (if newValue \<noteq> cs_pending_state s
     then s\<lparr>cs_press_count := (if newValue then cs_press_count s + 1 else cs_press_count s),
            cs_pending_state := newValue\<rparr>
     else s)"

definition observe_range :: "float32 \<Rightarrow> ComponentStats \<Rightarrow> ComponentStats" where
  "observe_range newValue s = (if \<not> cs_scalar_range_initialized s
     then s\<lparr>cs_scalar_range_initialized := True, cs_observed_min := newValue, cs_observed_max := newValue\<rparr>
     else s\<lparr>cs_observed_min := (if newValue < cs_observed_min s then newValue else cs_observed_min s),
            cs_observed_max := (if cs_observed_max s < newValue then newValue else cs_observed_max s)\<rparr>)"

text \<open>The four statistics of the component itself, in the order of the code.\<close>

definition observe_own :: "float32 \<Rightarrow> ComponentStats \<Rightarrow> ComponentStats" where
  "observe_own newValue s0 =
     (let s1 = s0\<lparr>cs_welford := WelfordUpdate (fp_cast newValue) (cs_welford s0)\<rparr>;
          s2 = observe_range newValue s1;
          s3 = s2\<lparr>cs_ph_drift := fst (PageHinkleyUpdate DefaultDriftParams (fp_cast newValue) (cs_ph_drift s2))\<rparr>
      in if newValue < kRestThreshold \<and> - kRestThreshold < newValue
         then s3\<lparr>cs_rest_min := EWMARollingMinUpdate (fp_cast newValue) kRestMinDecay (cs_rest_min s3)\<rparr>
         else s3)"

text \<open>The component and its partner, which is another object when there is one.\<close>

definition ObserveScalarSample ::
    "fp2 \<Rightarrow> fp2 \<Rightarrow> float32 \<Rightarrow> u64 \<Rightarrow> ComponentStats \<Rightarrow> ComponentStats option \<Rightarrow>
      ComponentStats \<times> ComponentStats option" where
  "ObserveScalarSample hypot atan2 newValue nowUs stats partner =
     (let s = observe_own newValue stats;
          (s1, partner1) =
            (case cs_axis_role s of
               RoleStickX \<Rightarrow>
                 let partner_y = (case partner of None \<Rightarrow> 0 | Some q \<Rightarrow> cs_last_value q)
                 in (s\<lparr>cs_polar := PolarHistogramUpdate hypot atan2 (fp_cast newValue) (fp_cast partner_y) nowUs
                        kRestMinDecay (cs_polar s)\<rparr>, partner)
             | RoleStickY \<Rightarrow>
                 (case partner of
                    Some q \<Rightarrow> if cs_axis_role q = RoleStickX
                      then (s, Some (q\<lparr>cs_polar := PolarHistogramUpdate hypot atan2 (fp_cast (cs_last_value q))
                             (fp_cast newValue) nowUs kRestMinDecay (cs_polar q)\<rparr>))
                      else (s, partner)
                  | None \<Rightarrow> (s, None))
             | RoleUnpaired \<Rightarrow> (s, partner))
      in (s1\<lparr>cs_last_value := newValue, cs_last_update_us := nowUs\<rparr>, partner1))"

section \<open>Compensation\<close>

fun kind_code :: "InputHealthCompensationKind \<Rightarrow> byte" where
  "kind_code InputHealthCompScalarSingle = 0"
| "kind_code InputHealthCompStickX = 1"
| "kind_code InputHealthCompStickY = 2"
| "kind_code InputHealthCompBoolean = 3"

definition ClampFloat :: "float32 \<Rightarrow> float32 \<Rightarrow> float32 \<Rightarrow> float32" where
  "ClampFloat value lo hi = std_max lo (std_min value hi)"

definition trigger_remap :: "InputHealthCompensationEntry \<Rightarrow> float32 \<Rightarrow> float32" where
  "trigger_remap entry rawValue =
     (if 0 < ihe_learned_trigger_min entry \<or> 0 < ihe_learned_trigger_max entry
      then let maxValue = (if 0 < ihe_learned_trigger_max entry then ihe_learned_trigger_max entry else 1);
               range = std_max (lit 0.001) (maxValue - ihe_learned_trigger_min entry);
               remapped = (rawValue - ihe_learned_trigger_min entry) / range
           in ClampFloat remapped 0 1
      else ClampFloat rawValue 0 1)"

definition radial_partner ::
    "DriverConfigs \<Rightarrow> ComponentStats \<Rightarrow> float32 \<Rightarrow> bool \<Rightarrow> string \<Rightarrow> float32" where
  "radial_partner driver stats partnerValue hasPartner partnerPath =
     (if hasPartner \<and> cs_device_serial_hash stats \<noteq> 0 \<and> partnerPath \<noteq> []
      then (case LookupInputHealthCompensation (cs_device_serial_hash stats) partnerPath driver of
              None \<Rightarrow> partnerValue
            | Some partnerEntry \<Rightarrow> partnerValue - ihe_learned_rest_offset partnerEntry)
      else partnerValue)"

definition entry_is_stick :: "InputHealthCompensationEntry \<Rightarrow> bool" where
  "entry_is_stick entry \<longleftrightarrow> ihe_kind entry = kind_code InputHealthCompStickX \<or>
     ihe_kind entry = kind_code InputHealthCompStickY"

definition ApplyScalarCompensation ::
    "DriverConfigs \<Rightarrow> InputHealthCompensationEntry \<Rightarrow> ComponentStats \<Rightarrow> float32 \<Rightarrow> float32 \<Rightarrow> bool \<Rightarrow> string \<Rightarrow>
      float32" where
  "ApplyScalarCompensation driver entry stats rawValue partnerValue hasPartner partnerPath =
     (if IsTriggerLikePath (cs_path stats) then trigger_remap entry rawValue
      else
        let value = rawValue - ihe_learned_rest_offset entry;
            value1 =
              (if entry_is_stick entry \<and> 0 < ihe_learned_deadzone_radius entry
               then let radialPartner = radial_partner driver stats partnerValue hasPartner partnerPath;
                        radius = (if hasPartner then fp_sqrt (value * value + radialPartner * radialPartner)
                                  else \<bar>value\<bar>)
                    in if radius < ihe_learned_deadzone_radius entry then 0 else value
               else value)
        in if entry_is_stick entry then ClampFloat value1 (- 1) 1 else value1)"

definition ShouldSwallowBooleanUpdate ::
    "ComponentStats \<Rightarrow> InputHealthCompensationEntry \<Rightarrow> bool \<Rightarrow> u64 \<Rightarrow> bool" where
  "ShouldSwallowBooleanUpdate stats entry newValue nowUs \<longleftrightarrow>
     ihe_kind entry = kind_code InputHealthCompBoolean \<and> ihe_learned_debounce_us entry \<noteq> 0 \<and>
     newValue \<noteq> cs_last_boolean stats \<and> cs_last_committed_us stats \<noteq> 0 \<and>
     nowUs - cs_last_committed_us stats < ucast (ihe_learned_debounce_us entry)"

section \<open>Clamping and remapping\<close>

lemma ClampFloat_range: "lo \<le> hi \<Longrightarrow> lo \<le> ClampFloat v lo hi \<and> ClampFloat v lo hi \<le> hi"
  by (cases lo; cases hi; cases v) (auto simp: ClampFloat_def std_max_def std_min_def)

lemma fround_1_32: "fround 1 = (Fin 1 :: float32)"
  using fround_of_int [of 1, where 'p = 24] by simp

lemma ClampFloat_low: "\<not> isnan v \<Longrightarrow> v \<le> 0 \<Longrightarrow> ClampFloat v 0 1 = 0"
  by (cases v) (auto simp: ClampFloat_def std_max_def std_min_def zero_fp_def one_fp_def)

lemma ClampFloat_high: "1 \<le> v \<Longrightarrow> ClampFloat v 0 1 = 1"
  by (cases v) (auto simp: ClampFloat_def std_max_def std_min_def zero_fp_def one_fp_def)

lemma ClampFloat_mono: "v \<le> w \<Longrightarrow> ClampFloat v 0 1 \<le> ClampFloat w 0 1"
  by (cases v; cases w) (auto simp: ClampFloat_def std_max_def std_min_def zero_fp_def one_fp_def)

lemma fround_inf [simp]: "FInf True \<le> (fround x :: 'p::len fp)" "(fround x :: 'p fp) \<le> FInf False"
  by (cases "fround x :: 'p fp"; simp)+

lemma fp_max_same: "std_max a b = (b :: 'p::len fp)" if "a \<le> b" "isfinite b"
  using that by (cases a; cases b) (auto simp: std_max_def)

lemma fp_sub_mono:
  "v \<le> w \<Longrightarrow> isfinite c \<Longrightarrow> (v - c :: 'p::len fp) \<le> w - c"
  by (cases v; cases w; cases c) (auto simp: minus_fp_def intro!: fround_mono)

lemma fp_div_mono:
  "v \<le> w \<Longrightarrow> 0 < r \<Longrightarrow> v / Fin r \<le> (w / Fin r :: 'p::len fp)"
  by (cases v; cases w) (auto intro!: fround_mono divide_right_mono)

lemma fp_div_self: "0 < r \<Longrightarrow> Fin r / Fin r = (1 :: float32)"
  by (simp add: fround_1_32 one_fp_def)

text \<open>Trigger remapping. The corrected value of a trigger lies in [0,1] whatever is read and
  whatever was learned. When the learned interval is at least 0.001 wide, a reading at or below its lower
  end gives exactly 0, a reading at or above its upper end gives exactly 1, and a larger reading never
  gives a smaller value.\<close>

theorem trigger_remap_correct:
  assumes "isfinite (ihe_learned_trigger_min e)" "0 < ihe_learned_trigger_max e"
    "isfinite (ihe_learned_trigger_max e - ihe_learned_trigger_min e)"
    "lit (1 / 1000) \<le> ihe_learned_trigger_max e - ihe_learned_trigger_min e"
  shows "0 \<le> trigger_remap e' v \<and> trigger_remap e' v \<le> 1 \<and>
    (v \<le> ihe_learned_trigger_min e \<longrightarrow> trigger_remap e v = 0) \<and>
    (ihe_learned_trigger_max e \<le> v \<longrightarrow> trigger_remap e v = 1) \<and>
    (v \<le> w \<longrightarrow> trigger_remap e v \<le> trigger_remap e w)"
proof -
  let ?mn = "ihe_learned_trigger_min e" and ?mx = "ihe_learned_trigger_max e"
  have l: "0 < (lit (1 / 1000) :: float32)" by code_simp
  obtain r where r: "?mx - ?mn = Fin r" "0 < r"
    using assms(3,4) l fp_less_le_trans [OF l assms(4)] by (cases "?mx - ?mn") (auto simp: zero_fp_def)
  have eq: "trigger_remap e v = ClampFloat ((v - ?mn) / Fin r) 0 1" for v
    using assms(2,4) r by (simp add: trigger_remap_def Let_def fp_max_same)
  have zero: "?mn - ?mn = 0" using assms(1) by (cases ?mn) (simp_all add: minus_fp_def zero_fp_def)
  have "trigger_remap e v = 0" if "v \<le> ?mn"
  proof -
    have "v - ?mn \<le> 0" using fp_sub_mono [OF that assms(1)] zero by simp
    then have "(v - ?mn) / Fin r \<le> 0 / Fin r" using r(2) by (rule fp_div_mono)
    moreover have "0 / Fin r = (0 :: float32)" using r(2) by (simp add: zero_fp_def)
    ultimately have "(v - ?mn) / Fin r \<le> 0" by simp
    then show ?thesis unfolding eq by (cases "(v - ?mn) / Fin r") (auto intro!: ClampFloat_low)
  qed
  moreover have "trigger_remap e v = 1" if "?mx \<le> v"
    using fp_div_mono [OF fp_sub_mono [OF that assms(1)] r(2)] fp_div_self [OF r(2)] r(1)
    unfolding eq by (simp add: ClampFloat_high)
  moreover have "trigger_remap e v \<le> trigger_remap e w" if "v \<le> w"
    unfolding eq by (intro ClampFloat_mono fp_div_mono fp_sub_mono that assms(1) r(2))
  moreover have "0 \<le> trigger_remap e' v \<and> trigger_remap e' v \<le> 1"
    using ClampFloat_range [of 0 1] by (simp add: trigger_remap_def Let_def zero_fp_def one_fp_def)
  ultimately show ?thesis by blast
qed

section \<open>Mean and variance in floating point\<close>

lemma rne_below_half: "0 \<le> y \<Longrightarrow> y < 1 / 2 \<Longrightarrow> rne y = 0"
proof -
  assume y: "0 \<le> y" "y < 1 / 2"
  then have "\<lfloor>y\<rfloor> = 0" by (simp add: floor_eq_iff)
  then show ?thesis using y by (simp add: rne_def Let_def)
qed

lemma rnd_le_twice: "0 \<le> y \<Longrightarrow> rnd p y \<le> 2 * y"
proof (cases "y = 0")
  case False
  assume y: "0 \<le> y"
  let ?q = "2 powi fp_qexp p y :: rat"
  have "of_int (rne (y / ?q)) \<le> 2 * (y / ?q)"
  proof (cases "y / ?q < 1 / 2")
    case True
    then have "rne (y / ?q) = 0" using y by (intro rne_below_half) simp_all
    then show ?thesis using y by simp
  next
    case False
    then show ?thesis using rne_bounds(1) [of "y / ?q"] by linarith
  qed
  then have "of_int (rne (y / ?q)) * ?q \<le> 2 * (y / ?q) * ?q" by (intro mult_right_mono) simp_all
  then show ?thesis using False by (simp add: rnd_def Let_def)
qed simp

lemma rnd_abs_le: "\<bar>rnd p x\<bar> \<le> 2 * \<bar>x\<bar>"
  using rnd_le_twice [of x p] rnd_le_twice [of "- x" p] rnd_nonneg [of x p] rnd_nonneg [of "- x" p]
  by (cases "0 \<le> x") (simp_all add: rnd_minus)

lemma fround_moderate:
  assumes "\<bar>x\<bar> \<le> 2 ^ 1000"
  shows "fround x = (Fin (rnd 53 x) :: double)"
proof -
  have "\<bar>rnd 53 x\<bar> \<le> 2 powi 1001" using rnd_abs_le [of 53 x] assms by simp
  also have "(2::rat) powi 1001 < 2 powi (fp_emax 53 + 1)" by (simp only: pow2_less_iff) (simp add: fp_emax_def)
  finally show ?thesis by (simp add: fround_def Let_def not_le)
qed

lemma rnd_error: "y \<noteq> 0 \<Longrightarrow> rnd p y \<le> y + 2 powi fp_qexp p y / 2"
proof -
  assume "y \<noteq> 0"
  let ?q = "2 powi fp_qexp p y :: rat"
  have "of_int (rne (y / ?q)) * ?q \<le> (y / ?q + 1 / 2) * ?q"
    using rne_bounds(1) [of "y / ?q"] by (intro mult_right_mono) simp_all
  then show ?thesis using \<open>y \<noteq> 0\<close> by (simp add: rnd_def Let_def distrib_right)
qed

text \<open>The spacing at \<open>y\<close> is the least spacing of the format or small against \<open>y\<close>.\<close>

lemma spacing_cases: "0 < y \<Longrightarrow> 2 powi fp_qexp 53 y \<le> max (y / 8) (2 powi fp_qmin 53)"
proof -
  assume y: "0 < y"
  have "(2::rat) powi (ilog2 y - 52) \<le> 2 powi (ilog2 y - 3)" by (simp only: pow2_le_iff)
  also have "\<dots> = 2 powi ilog2 y / 8" by (simp add: power_int_diff)
  also have "\<dots> \<le> y / 8" using ilog2_bounds(1) [OF y] by simp
  finally show ?thesis using y by (simp add: fp_qexp_def)
qed

lemma rnd_multiple:
  assumes "rnd 53 x = x" obtains k where "x = of_int k * 2 powi fp_qmin 53"
proof (cases "x = 0")
  case False
  let ?d = "nat (fp_qexp 53 x - fp_qmin 53)"
  define n where "n = rne (x / 2 powi fp_qexp 53 x)"
  have "x = of_int n * 2 powi fp_qexp 53 x"
    using assms False by (simp add: rnd_def Let_def n_def)
  moreover have "(2::rat) powi fp_qexp 53 x = 2 ^ ?d * 2 powi fp_qmin 53"
    using pow2_split [of "fp_qexp 53 x" "fp_qmin 53"] by (simp add: fp_qexp_def power_int_def)
  ultimately have "x = of_int (n * 2 ^ ?d) * 2 powi fp_qmin 53" by simp
  then show ?thesis by (rule that)
qed (use that [of 0] in simp)

lemma share_arith:
  "t \<le> z + q / 2 \<Longrightarrow> q \<le> max (z / 8) u \<Longrightarrow> z \<le> 3 / 4 * y \<Longrightarrow> u \<le> y / 2 \<Longrightarrow> 0 < y \<Longrightarrow> t \<le> (y :: rat)"
  by (cases "z / 8 \<le> u") (simp_all add: max_def)

text \<open>A share of at most a half of a rounded difference never exceeds the difference.\<close>

lemma rnd_share_le:
  assumes y: "0 < y" "y = of_int k * 2 powi fp_qmin 53" and c: "2 \<le> c"
  shows "rnd 53 (rnd 53 y / c) \<le> y"
proof -
  let ?u = "2 powi fp_qmin 53 :: rat"
  have k: "1 \<le> k" using y pow2_pos [of "fp_qmin 53"] by (auto simp: zero_less_mult_iff)
  have half: "rnd 53 y / c \<le> rnd 53 y / 2"
    using c rnd_nonneg [of y 53] y by (intro divide_left_mono) simp_all
  show ?thesis
  proof (cases "k = 1")
    case True
    have "ilog2 y = fp_qmin 53" using True y pow2_less_iff [of "fp_qmin 53" "fp_qmin 53 + 1"] by (intro ilog2_eqI) simp_all
    then have "rnd 53 y = y" using y by (intro rnd_exact [of _ k "fp_qmin 53"]) (simp_all add: fp_qexp_def)
    then show ?thesis using rnd_le_twice [of "y / c" 53] c y(1) half
      by (simp add: mult.commute order_trans)
  next
    case False
    then have u: "?u \<le> y / 2" using k y(2) mult_right_mono [of 2 "of_int k" ?u] by simp
    have "rnd 53 y \<le> 3 / 2 * y" using rnd_error [of y 53] spacing_cases [OF y(1)] u y(1) by linarith
    then have z: "rnd 53 y / c \<le> 3 / 4 * y" using half by linarith
    show ?thesis
    proof (cases "rnd 53 y / c = 0")
      case nz: False
      then have pos: "0 < rnd 53 y / c" using rnd_nonneg [of y 53] y(1) c
        by (auto simp: zero_less_divide_iff order_le_less)
      then show ?thesis by (intro share_arith [OF rnd_error [OF nz] spacing_cases [OF pos] z u y(1)])
    next
      case True
      then show ?thesis using y(1) by (simp only: rnd_0)
    qed
  qed
qed

lemma mean_step_up:
  assumes "rnd 53 x = x" "rnd 53 m = m" "m \<le> x" "2 \<le> c"
  shows "m \<le> rnd 53 (m + rnd 53 (rnd 53 (x - m) / c)) \<and> rnd 53 (m + rnd 53 (rnd 53 (x - m) / c)) \<le> x"
proof (cases "m = x")
  case False
  let ?d = "rnd 53 (rnd 53 (x - m) / c)"
  obtain i j where "x = of_int i * 2 powi fp_qmin 53" "m = of_int j * 2 powi fp_qmin 53"
    using rnd_multiple [OF assms(1)] rnd_multiple [OF assms(2)] by metis
  then have "x - m = of_int (i - j) * 2 powi fp_qmin 53" by (simp add: left_diff_distrib)
  then have hi: "?d \<le> x - m" using False assms(3,4) by (intro rnd_share_le [of _ "i - j"]) simp_all
  have lo: "0 \<le> ?d" using assms(3,4) by (intro rnd_nonneg divide_nonneg_nonneg) simp_all
  show ?thesis using rnd_mono [of m "m + ?d" 53] rnd_mono [of "m + ?d" x 53] lo hi assms(1,2) by simp
qed (use assms in simp)

lemma mean_step:
  assumes "rnd 53 x = x" "rnd 53 m = m" "2 \<le> c"
  shows "min m x \<le> rnd 53 (m + rnd 53 (rnd 53 (x - m) / c)) \<and> rnd 53 (m + rnd 53 (rnd 53 (x - m) / c)) \<le> max m x"
proof (cases "m \<le> x")
  case True
  then show ?thesis using mean_step_up [OF assms(1,2) True assms(3)] by simp
next
  case False
  have "rnd 53 (- x - - m) = - rnd 53 (x - m)" by (metis minus_diff_eq minus_diff_minus rnd_minus)
  then have "rnd 53 (- m + rnd 53 (rnd 53 (- x - - m) / c)) = - rnd 53 (m + rnd 53 (rnd 53 (x - m) / c))"
    by (metis minus_add_distrib minus_divide_left rnd_minus)
  then show ?thesis using mean_step_up [of "- x" "- m" c] assms False by (simp add: rnd_minus)
qed

lemma rnd_idem: "rnd 53 (rnd 53 x) = rnd 53 x"
  using rnd_idem_pos [of x 53] rnd_idem_pos [of "- x" 53] by (cases x "0 :: rat" rule: linorder_cases) (simp_all add: rnd_minus)

lemma rnd_sign: "0 \<le> x * y \<Longrightarrow> 0 \<le> rnd p x * rnd p y"
  using rnd_nonneg [of x p] rnd_nonneg [of y p] rnd_nonneg [of "- x" p] rnd_nonneg [of "- y" p]
  by (auto simp: zero_le_mult_iff rnd_minus)

text \<open>A value of the type that is far from overflow.\<close>

definition moderate :: "rat \<Rightarrow> bool" where
  "moderate r \<longleftrightarrow> rnd 53 r = r \<and> \<bar>r\<bar> \<le> 2 ^ 990"

lemma fround_small: "\<bar>x\<bar> \<le> 16 * 2 ^ 990 \<Longrightarrow> fround x = (Fin (rnd 53 x) :: double)"
  by (rule fround_moderate) simp

lemma count_fp:
  assumes "n < 2 ^ 64"
  shows "\<exists>c. of_integer (int n) = (Fin c :: double) \<and> (1 \<le> n \<longrightarrow> 1 \<le> c) \<and> (2 \<le> n \<longrightarrow> 2 \<le> c)"
proof -
  have "(of_nat n :: rat) \<le> of_nat (2 ^ 64)" using assms by (simp only: of_nat_le_iff)
  then have "\<bar>of_int (int n)\<bar> \<le> (2::rat) ^ 1000" by simp
  then have "of_integer (int n) = (Fin (rnd 53 (of_int (int n))) :: double)"
    by (simp only: of_integer_def fround_moderate)
  moreover have le: "of_int k \<le> rnd 53 (of_int (int n))" if "k \<in> {1, 2}" "k \<le> int n" for k
    using rnd_mono [of "of_int k" "of_int (int n)" 53] rnd_of_int [of k 53] that by auto
  ultimately show ?thesis using le [of 1] le [of 2] by simp
qed

lemma WelfordUpdate_first:
  assumes "moderate r"
  shows "WelfordUpdate (Fin r) WelfordState_new = \<lparr>wf_count = 1, wf_mean = Fin r, wf_m2 = 0\<rparr>"
proof -
  have f: "fround r = (Fin r :: double)" using assms fround_small [of r] by (simp add: moderate_def)
  show ?thesis
    by (simp add: WelfordUpdate_def WelfordState_new_def Let_def zero_fp_def minus_fp_def of_integer_def fround_1 f)
qed

lemma WelfordUpdate_step:
  assumes "wf_mean s = Fin m" "moderate m" "moderate r" "0 \<le> wf_m2 s"
    and n: "uint (wf_count s + 1) = int n" "2 \<le> n" "n < 2 ^ 64"
  shows "\<exists>m'. wf_mean (WelfordUpdate (Fin r) s) = Fin m' \<and> moderate m' \<and> min m r \<le> m' \<and> m' \<le> max m r \<and>
    0 \<le> wf_m2 (WelfordUpdate (Fin r) s)"
proof -
  obtain B :: rat where B: "B = 2 ^ 990" by blast
  note small = fround_small [folded B]
  have b: "rnd 53 m = m" "\<bar>m\<bar> \<le> B" "rnd 53 r = r" "\<bar>r\<bar> \<le> B"
    using assms by (simp_all only: moderate_def B)
  obtain c where c: "of_integer (int n) = (Fin c :: double)" "2 \<le> c" using count_fp n by blast
  let ?d = "rnd 53 (r - m)" and ?q = "rnd 53 (rnd 53 (r - m) / c)"
  define m' where "m' = rnd 53 (m + ?q)"
  have hull: "min m r \<le> m'" "m' \<le> max m r" using mean_step [of r m c] b c(2) by (simp_all add: m'_def)
  then have mB: "\<bar>m'\<bar> \<le> B" using b by (simp add: min_def max_def split: if_splits)
  then have mod: "moderate m'" by (simp add: moderate_def B m'_def rnd_idem)
  have "t \<le> 2 * u \<Longrightarrow> u \<le> v + w \<Longrightarrow> v \<le> B \<Longrightarrow> w \<le> B \<Longrightarrow> t \<le> 4 * B" for t u v w by linarith
  then have dB: "\<bar>?d\<bar> \<le> 4 * B" using rnd_abs_le [of 53 "r - m"] abs_triangle_ineq4 [of r m] b(2,4) by blast
  have cB: "\<bar>?d / c\<bar> \<le> \<bar>?d\<bar> / 2" using c(2) frac_le [of "\<bar>?d\<bar>" "\<bar>?d\<bar>" 2 c] by simp
  have qB: "\<bar>?q\<bar> \<le> 4 * B" using rnd_abs_le [of 53 "?d / c"] dB cB by linarith
  have d: "fround (r - m) = (Fin ?d :: double)" using b by (intro small) linarith
  have q: "fround (?d / c) = (Fin ?q :: double)" using dB cB by (intro small) linarith
  have s: "fround (m + ?q) = (Fin m' :: double)" unfolding m'_def using b qB by (intro small) linarith
  have d2: "fround (r - m') = (Fin (rnd 53 (r - m')) :: double)" using b mB by (intro small) linarith
  have "0 \<le> (r - m) * (r - m')" using hull by (cases "m \<le> r") (simp_all add: mult_nonpos_nonpos)
  then have "fround 0 \<le> (fround (?d * rnd 53 (r - m')) :: double)" by (intro fround_mono rnd_sign)
  then have "0 \<le> wf_m2 s + fround (?d * rnd 53 (r - m'))" using assms(4) by (intro fp_add_nonneg) (simp_all add: zero_fp_def)
  moreover have "wf_mean (WelfordUpdate (Fin r) s) = Fin m'"
    using assms(1) c d q s n(1) by (simp add: WelfordUpdate_def Let_def minus_fp_def)
  moreover have "wf_m2 (WelfordUpdate (Fin r) s) = wf_m2 s + fround (?d * rnd 53 (r - m'))"
    using assms(1) c d q s d2 n(1) by (simp add: WelfordUpdate_def Let_def minus_fp_def)
  ultimately show ?thesis using hull mod by auto
qed

lemma welford_run:
  assumes "rs \<noteq> []" "length rs < 2 ^ 64" "\<forall>r \<in> set rs. moderate r \<and> lo \<le> r \<and> r \<le> hi"
  shows "\<exists>m. wf_mean (fold WelfordUpdate (map Fin rs) WelfordState_new) = Fin m \<and> moderate m \<and> lo \<le> m \<and> m \<le> hi \<and>
    0 \<le> wf_m2 (fold WelfordUpdate (map Fin rs) WelfordState_new) \<and>
    wf_count (fold WelfordUpdate (map Fin rs) WelfordState_new) = of_nat (length rs)"
  using assms
proof (induction rs rule: rev_nonempty_induct)
  case (single r)
  then show ?case by (simp add: WelfordUpdate_first zero_fp_def)
next
  case (snoc r rs)
  let ?s = "fold WelfordUpdate (map Fin rs) WelfordState_new"
  obtain m where m: "wf_mean ?s = Fin m" "moderate m" "lo \<le> m" "m \<le> hi" "0 \<le> wf_m2 ?s" "wf_count ?s = of_nat (length rs)"
    using snoc by auto
  have "wf_count ?s + 1 = of_nat (Suc (length rs))" using m(6) by simp
  then have u: "uint (wf_count ?s + 1) = int (Suc (length rs))"
    using snoc.prems(1) by (simp only: uint_nat unat_of_nat_u64 length_append_singleton)
  have "2 \<le> Suc (length rs)" using snoc.hyps by (cases rs) simp_all
  then obtain m' where m': "wf_mean (WelfordUpdate (Fin r) ?s) = Fin m'" "moderate m'" "min m r \<le> m'" "m' \<le> max m r"
    "0 \<le> wf_m2 (WelfordUpdate (Fin r) ?s)"
    using WelfordUpdate_step [OF m(1,2) _ m(5) u] snoc.prems by auto
  moreover have "wf_count (WelfordUpdate (Fin r) ?s) = of_nat (Suc (length rs))"
    using m(6) by (simp add: WelfordUpdate_def Let_def)
  moreover have "lo \<le> m' \<and> m' \<le> hi"
    using m'(3,4) m(3,4) snoc.prems(2) by (auto simp: min_def max_def split: if_splits)
  ultimately show ?case by simp
qed

section \<open>A run of samples\<close>

lemmas observe_defs = observe_own_def observe_range_def Let_def

lemma observe_own_fields [simp]:
  "cs_welford (observe_own x s) = WelfordUpdate (fp_cast x) (cs_welford s)"
  "cs_ph_drift (observe_own x s) = fst (PageHinkleyUpdate DefaultDriftParams (fp_cast x) (cs_ph_drift s))"
  "cs_scalar_range_initialized (observe_own x s)"
  "cs_observed_min (observe_own x s) =
     (if \<not> cs_scalar_range_initialized s \<or> x < cs_observed_min s then x else cs_observed_min s)"
  "cs_observed_max (observe_own x s) =
     (if \<not> cs_scalar_range_initialized s \<or> cs_observed_max s < x then x else cs_observed_max s)"
  by (simp_all add: observe_defs)

lemma Reset_new [simp]: "WelfordReset w = WelfordState_new" "PageHinkleyReset p = PageHinkleyState_new"
  "EWMARollingMinReset e = EWMARollingMinState_new" "PolarHistogramReset h = PolarHistogramState_new"
  by (simp_all add: WelfordReset_def WelfordState_new_def PageHinkleyReset_def PageHinkleyState_new_def
      EWMARollingMinReset_def EWMARollingMinState_new_def PolarHistogramReset_def PolarHistogramState_new_def)

lemma fold_observe_welford:
  "cs_welford (fold observe_own xs s) = fold WelfordUpdate (map fp_cast xs) (cs_welford s)"
  by (induction xs arbitrary: s) simp_all

lemma observed_range_run:
  assumes "xs \<noteq> []" "\<forall>x \<in> set xs. isfinite x" "\<not> cs_scalar_range_initialized s"
  shows "cs_observed_min (fold observe_own xs s) \<in> set xs \<and> (\<forall>x \<in> set xs. cs_observed_min (fold observe_own xs s) \<le> x) \<and>
    cs_observed_max (fold observe_own xs s) \<in> set xs \<and> (\<forall>x \<in> set xs. x \<le> cs_observed_max (fold observe_own xs s))"
  using assms
proof (induction xs rule: rev_nonempty_induct)
  case (single x)
  then show ?case by (cases x) auto
next
  case (snoc x xs)
  let ?s = "fold observe_own xs s"
  have i: "cs_scalar_range_initialized ?s" using snoc.hyps by (induction xs rule: rev_nonempty_induct) simp_all
  have IH: "cs_observed_min ?s \<in> set xs" "\<forall>x \<in> set xs. cs_observed_min ?s \<le> x" "cs_observed_max ?s \<in> set xs"
    "\<forall>x \<in> set xs. x \<le> cs_observed_max ?s" using snoc by auto
  have f: "\<not> isnan x" "\<not> isnan (cs_observed_min ?s)" "\<not> isnan (cs_observed_max ?s)"
    using IH(1,3) snoc.prems(1) by (auto elim!: isfinite.elims)
  have lo: "y \<in> set xs \<Longrightarrow> x < cs_observed_min ?s \<Longrightarrow> x \<le> y" and hi: "y \<in> set xs \<Longrightarrow> cs_observed_max ?s < x \<Longrightarrow> y \<le> x" for y
    using IH(2,4) fp_le_trans fp_less_le by blast+
  show ?case using IH i f lo hi by (simp add: fp_not_less fp_le_refl fp_less_le)
qed

lemma float_as_double:
  assumes "isfinite (x :: float32)" "fp_rep x"
  shows "\<exists>r. fp_cast x = (Fin r :: double) \<and> moderate r"
proof -
  obtain v where v: "x = Fin v" using assms(1) by (cases x) auto
  then have "rnd 24 v = v" "\<bar>v\<bar> < 2 powi 128"
    using assms(2) by (auto simp: fp_rep_def fround_def Let_def fp_emax_def not_le split: if_splits)
  then have b: "\<bar>v\<bar> \<le> 2 ^ 128" by simp
  have "\<bar>rnd 53 v\<bar> \<le> 2 ^ 990" using rnd_abs_le [of 53 v] b by simp
  then show ?thesis using v b fround_small [of v] by (simp add: moderate_def rnd_idem)
qed

lemma variance_nonneg:
  assumes "0 \<le> wf_m2 s"
  shows "0 \<le> PopulationVariance s \<and> 0 \<le> SampleVariance s"
proof -
  have d: "0 \<le> wf_m2 s / of_integer (uint w)" if w: "w \<noteq> 0" for w :: u64
  proof -
    have "1 \<le> unat w" using w by (simp add: Suc_le_eq unat_gt_0)
    moreover have "unat w < 2 ^ 64" using unsigned_less [of w] by simp
    ultimately obtain c where c: "of_integer (uint w) = (Fin c :: double)" "1 \<le> c"
      unfolding uint_nat using count_fp by blast
    have "0 / Fin c \<le> wf_m2 s / (Fin c :: double)" using assms c(2) by (intro fp_div_mono) simp_all
    then show ?thesis using c by (simp add: zero_fp_def split: if_splits)
  qed
  have "0 \<le> (0 :: double)" by (simp add: zero_fp_def)
  moreover have "wf_count s - 1 \<noteq> 0" if "\<not> wf_count s < 2"
  proof
    assume "wf_count s - 1 = 0"
    then have "wf_count s = 1" by simp
    then show False using that by (simp add: word_less_nat_alt)
  qed
  ultimately show ?thesis using d by (auto simp: PopulationVariance_def SampleVariance_def)
qed

text \<open>C36. Statistics of a scalar. After a reset, for every non-empty run of finite samples shorter
  than the counter, the counter is the number of samples, the observed range is exactly the smallest and the
  largest sample, the streaming mean lies between them in spite of all roundings, and both variances are
  non-negative.\<close>

theorem scalar_statistics_sound:
  assumes "xs \<noteq> []" "length xs < 2 ^ 64" "\<forall>x \<in> set xs. isfinite x \<and> fp_rep x"
  shows "let s = fold observe_own xs (ComponentStatsResetPassive c); w = cs_welford s in
    wf_count w = of_nat (length xs) \<and>
    cs_observed_min s \<in> set xs \<and> (\<forall>x \<in> set xs. cs_observed_min s \<le> x) \<and>
    cs_observed_max s \<in> set xs \<and> (\<forall>x \<in> set xs. x \<le> cs_observed_max s) \<and>
    fp_cast (cs_observed_min s) \<le> wf_mean w \<and> wf_mean w \<le> fp_cast (cs_observed_max s) \<and>
    0 \<le> PopulationVariance w \<and> 0 \<le> SampleVariance w"
proof -
  define s where "s = fold observe_own xs (ComponentStatsResetPassive c)"
  have rng: "cs_observed_min s \<in> set xs" "\<forall>x \<in> set xs. cs_observed_min s \<le> x"
    "cs_observed_max s \<in> set xs" "\<forall>x \<in> set xs. x \<le> cs_observed_max s"
    using observed_range_run [of xs "ComponentStatsResetPassive c"] assms
    by (auto simp: s_def ComponentStatsResetPassive_def)
  obtain f where f: "\<And>x. x \<in> set xs \<Longrightarrow> fp_cast x = (Fin (f x) :: double) \<and> moderate (f x)"
    using float_as_double assms(3) by metis
  have cast: "a \<le> b \<Longrightarrow> isfinite a \<Longrightarrow> isfinite b \<Longrightarrow> fp_cast a \<le> (fp_cast b :: double)" for a b :: float32
    by (cases a; cases b) (auto intro: fround_mono)
  have hull: "f (cs_observed_min s) \<le> f x \<and> f x \<le> f (cs_observed_max s)" if "x \<in> set xs" for x
    using that rng f assms(3) cast [of "cs_observed_min s" x] cast [of x "cs_observed_max s"] by auto
  have "cs_welford s = fold WelfordUpdate (map Fin (map f xs)) WelfordState_new"
    using f by (simp add: s_def fold_observe_welford ComponentStatsResetPassive_def cong: map_cong)
  then obtain m where "wf_mean (cs_welford s) = Fin m" "f (cs_observed_min s) \<le> m" "m \<le> f (cs_observed_max s)"
    "0 \<le> wf_m2 (cs_welford s)" "wf_count (cs_welford s) = of_nat (length xs)"
    using welford_run [of "map f xs" "f (cs_observed_min s)" "f (cs_observed_max s)"] assms(1,2) hull f by auto
  then show ?thesis using rng f variance_nonneg by (simp add: s_def [symmetric] Let_def)
qed

theorem scalar_statistics_sound_witness:
  "let s = fold observe_own [Fin (1 / 2), Fin (- 1), Fin (3 / 4)] (ComponentStatsResetPassive ComponentStats_new) in
    fp_cast (cs_observed_min s) \<le> wf_mean (cs_welford s) \<and> wf_mean (cs_welford s) \<le> fp_cast (cs_observed_max s) \<and>
    0 \<le> SampleVariance (cs_welford s)"
proof -
  have "fp_rep (Fin (1 / 2) :: float32) \<and> fp_rep (Fin (- 1) :: float32) \<and> fp_rep (Fin (3 / 4) :: float32)"
    by (simp add: fp_rep_def) code_simp
  then show ?thesis
    using scalar_statistics_sound [of "[Fin (1 / 2), Fin (- 1), Fin (3 / 4)]" ComponentStats_new]
    by (simp only: Let_def set_simps ball_simps isfinite.simps) simp
qed

section \<open>Invariants of a component\<close>

definition drift_ok :: "PageHinkleyState \<Rightarrow> bool" where
  "drift_ok s \<longleftrightarrow> 0 \<le> phs_pos s \<and> 0 \<le> phs_neg s \<and> (phs_triggered s \<longrightarrow> phs_initialized s) \<and>
     (phs_triggered_positive s \<longrightarrow> phs_triggered s)"

definition polar_ok :: "PolarHistogramState \<Rightarrow> bool" where
  "polar_ok h \<longleftrightarrow> length (ph_bins h) = kBinCount \<and> \<not> isnan (global_max_r h) \<and>
     (\<forall>b \<in> set (ph_bins h). pb_count b \<le> kPerBinCap \<and> \<not> global_max_r h < pb_max_r b)"

definition stats_ok :: "ComponentStats \<Rightarrow> bool" where
  "stats_ok s \<longleftrightarrow> drift_ok (cs_ph_drift s) \<and> polar_ok (cs_polar s)"

lemma std_max_0: "0 \<le> std_max 0 (a :: 'p::len fp)"
  by (cases a) (auto simp: std_max_def zero_fp_def)

lemma drift_ok_update: "drift_ok s \<Longrightarrow> drift_ok (fst (PageHinkleyUpdate p x s))"
  by (auto simp: drift_ok_def PageHinkleyUpdate_def ph_accumulate_def Let_def std_max_0)

lemma bin_index: "PolarBinIndexForAngle t < kBinCount"
  by (auto simp: PolarBinIndexForAngle_def Let_def kBinCount_def)

lemma fp_not_less_up: "a < b \<Longrightarrow> \<not> a < c \<Longrightarrow> \<not> (b :: 'p::len fp) < c"
  by (cases a; cases b; cases c) auto

lemma bin_count_ok: "pb_count b \<le> kPerBinCap \<Longrightarrow> pb_count (polar_bin_update rf ts d b) \<le> kPerBinCap"
  using inc_le [of "pb_count b" kPerBinCap] by (simp add: polar_bin_update_def Let_def)

lemma polar_ok_update:
  assumes "polar_ok h"
  shows "polar_ok (PolarHistogramUpdate hypot atan2 x y ts d h)"
proof -
  define i where "i = PolarBinIndexForAngle (atan2 y x)"
  define b where "b = polar_bin_update (fp_cast (hypot x y)) ts d (ph_bins h ! i)"
  have "ph_bins h ! i \<in> set (ph_bins h)" using assms bin_index by (simp add: polar_ok_def i_def)
  then have cnt: "pb_count b \<le> kPerBinCap" using assms bin_count_ok by (auto simp: polar_ok_def b_def)
  define g where "g = (if global_max_r h < pb_max_r b then pb_max_r b else global_max_r h)"
  have "\<not> isnan g \<and> \<not> g < pb_max_r b"
    using assms by (cases "pb_max_r b"; cases "global_max_r h") (auto simp: g_def polar_ok_def)
  moreover have "\<not> g < pb_max_r b'" if "b' \<in> set (ph_bins h)" for b'
    using that assms fp_not_less_up [of "global_max_r h" "pb_max_r b" "pb_max_r b'"]
    by (auto simp: g_def polar_ok_def)
  moreover have "PolarHistogramUpdate hypot atan2 x y ts d h = h\<lparr>ph_bins := (ph_bins h)[i := b], global_max_r := g\<rparr>"
    by (simp add: PolarHistogramUpdate_def Let_def i_def b_def g_def)
  ultimately show ?thesis using assms cnt by (auto simp: polar_ok_def dest!: set_list_updateD)
qed

lemma stats_ok_new [simp]: "stats_ok ComponentStats_new" "stats_ok (ComponentStatsResetPassive s)"
  by (auto simp: stats_ok_def ComponentStats_new_def ComponentStatsResetPassive_def drift_ok_def polar_ok_def
      PageHinkleyState_new_def PolarHistogramState_new_def PolarBin_new_def zero_fp_def kPerBinCap_def)

lemma observe_own_polar [simp]:
  "cs_polar (observe_own x s) = cs_polar s" "cs_axis_role (observe_own x s) = cs_axis_role s"
  by (simp_all add: observe_defs)

lemma ObserveScalarSample_ok:
  assumes "stats_ok s" "\<forall>q. p = Some q \<longrightarrow> stats_ok q" "ObserveScalarSample hy a2 x now s p = (s', p')"
  shows "stats_ok s' \<and> (\<forall>q. p' = Some q \<longrightarrow> stats_ok q)"
  using assms
  by (auto simp: ObserveScalarSample_def Let_def stats_ok_def drift_ok_update polar_ok_update
      split: AxisRole.splits option.splits if_splits)

text \<open>The global maximum never falls, even when every bin has decayed below it.\<close>

lemma global_max_r_mono:
  "\<not> isnan (global_max_r h) \<Longrightarrow> global_max_r h \<le> global_max_r (PolarHistogramUpdate hypot atan2 x y ts d h)"
  by (simp add: PolarHistogramUpdate_def Let_def fp_le_refl fp_less_le)

text \<open>One sample that is not a number blinds the drift detector of a component: whatever was
  accumulated before and whatever is read afterwards, both accumulators stay 0, the reference stays NaN and
  the detector reports nothing more, until a reset.\<close>

theorem nan_sample_blinds_detector:
  "let s' = fst (PageHinkleyUpdate DefaultDriftParams (fp_cast (FNaN :: float32)) s);
       t = fold (\<lambda>x s. fst (PageHinkleyUpdate DefaultDriftParams (fp_cast (x :: float32)) s)) xs s'
   in phs_mean t = FNaN \<and> phs_pos t = 0 \<and> phs_neg t = 0 \<and> phs_triggered t = phs_triggered s \<and>
      \<not> snd (PageHinkleyUpdate DefaultDriftParams y t)"
proof -
  define blind where "blind t \<longleftrightarrow> phs_mean t = FNaN \<and> phs_initialized t \<and> phs_pos t = 0 \<and> phs_neg t = 0 \<and>
    phs_triggered t = phs_triggered s" for t :: PageHinkleyState
  have lam: "\<not> lit (1 / 20) < (0 :: double)" by code_simp
  have nan: "x - FNaN = FNaN" "FNaN - x = FNaN" "x + FNaN = FNaN" "x * FNaN = FNaN" "FNaN + x = FNaN" for x :: double
    by (cases x; simp add: minus_fp_def)+
  have mx: "std_max 0 FNaN = (0 :: double)" by (simp add: std_max_def zero_fp_def)
  have step: "blind (fst (PageHinkleyUpdate DefaultDriftParams x t)) \<and> \<not> snd (PageHinkleyUpdate DefaultDriftParams x t)"
    if "x = FNaN \<and> phs_triggered t = phs_triggered s \<or> blind t" for x t
    using that lam by (auto simp: blind_def PageHinkleyUpdate_def ph_accumulate_def Let_def nan mx DefaultDriftParams_def)
  have "blind (fold (\<lambda>x s. fst (PageHinkleyUpdate DefaultDriftParams (fp_cast x) s)) xs t)" if "blind t" for t
    using that by (induction xs arbitrary: t) (simp_all add: step)
  moreover have "blind (fst (PageHinkleyUpdate DefaultDriftParams (fp_cast (FNaN :: float32)) s))"
    using step [of FNaN s] by simp
  ultimately show ?thesis using step by (simp add: Let_def blind_def)
qed

theorem trigger_remap_correct_witness:
  "let e = \<lparr>ihe_device_serial_hash = 7, ihe_path = ''/input/trigger/value'', ihe_kind = 0, ihe_enabled = 1,
     ihe_learned_rest_offset = 0, ihe_learned_trigger_min = Fin (1 / 8), ihe_learned_trigger_max = Fin (7 / 8),
     ihe_learned_deadzone_radius = 0, ihe_learned_debounce_us = 0\<rparr>
   in trigger_remap e (Fin (1 / 16)) = 0 \<and> trigger_remap e (Fin 1) = 1 \<and>
      trigger_remap e (Fin (1 / 4)) \<le> trigger_remap e (Fin (1 / 2))"
proof -
  let ?e = "\<lparr>ihe_device_serial_hash = 7, ihe_path = ''/input/trigger/value'', ihe_kind = 0, ihe_enabled = 1,
     ihe_learned_rest_offset = 0, ihe_learned_trigger_min = Fin (1 / 8), ihe_learned_trigger_max = Fin (7 / 8),
     ihe_learned_deadzone_radius = 0, ihe_learned_debounce_us = 0\<rparr>"
  have h: "isfinite (ihe_learned_trigger_max ?e - ihe_learned_trigger_min ?e)"
    "lit (1 / 1000) \<le> ihe_learned_trigger_max ?e - ihe_learned_trigger_min ?e" by code_simp+
  show ?thesis
    using trigger_remap_correct [of ?e ?e "Fin (1 / 16)" 0, OF _ _ h] trigger_remap_correct [of ?e ?e "Fin 1" 0, OF _ _ h]
      trigger_remap_correct [of ?e ?e "Fin (1 / 4)" "Fin (1 / 2)", OF _ _ h]
    by (simp add: Let_def zero_fp_def)
qed

end
