(* ===== verification/ShmemSegment.thy ===== *)
theory ShmemSegment
  imports WK_Prelude
begin

text \<open>
  The life cycle of a shared-memory segment in one process: \<open>Create\<close>, \<open>Open\<close> and
  \<open>Close\<close> of the four segment classes of \<open>core/src/common/Protocol.h\<close>. The classes
  differ in their magic and version numbers, and \<open>DriverPoseShmem\<close> also in how its
  \<open>Open\<close> cleans up. The results of the Win32 calls are inputs; the numbers of live handles
  and views are recorded so that leaks and double releases are visible.
\<close>

datatype handle = HInvalid | HNull | HOpen

record shm_client =
  hMapFile :: handle
  view :: bool
  live_handles :: int
  live_views :: int

datatype shmem_error = OpenFailed | MapFailed | MagicMismatch u32 | VersionMismatch u32 | NotOpen

definition shm_new :: shm_client where
  "shm_new = \<lparr>hMapFile = HInvalid, view = False, live_handles = 0, live_views = 0\<rparr>"

definition shm_unmap :: "shm_client \<Rightarrow> shm_client" where
  "shm_unmap c = c\<lparr>view := False, live_views := live_views c - 1\<rparr>"

definition shm_closehandle :: "handle \<Rightarrow> shm_client \<Rightarrow> shm_client" where
  "shm_closehandle h c = c\<lparr>hMapFile := h, live_handles := live_handles c - 1\<rparr>"

definition shm_Close :: "shm_client \<Rightarrow> shm_client" where
  "shm_Close c = (let c1 = if view c then shm_unmap c else c
     in if hMapFile c1 = HOpen then shm_closehandle HInvalid c1 else c1)"

text \<open>\<open>CreateFileMappingA\<close> or \<open>OpenFileMappingA\<close> followed by \<open>MapViewOfFile\<close>, with
  their success as inputs.\<close>

definition shm_file :: "bool \<Rightarrow> shm_client \<Rightarrow> shm_client" where
  "shm_file ok c = (if ok then c\<lparr>hMapFile := HOpen, live_handles := live_handles c + 1\<rparr>
     else c\<lparr>hMapFile := HNull\<rparr>)"

definition shm_map :: "bool \<Rightarrow> shm_client \<Rightarrow> shm_client" where
  "shm_map ok c = (if ok then c\<lparr>view := True, live_views := live_views c + 1\<rparr> else c\<lparr>view := False\<rparr>)"

text \<open>\<open>Create\<close>: the second component is the returned flag; the header is stamped exactly
  when it is true.\<close>

definition shm_Create :: "bool \<Rightarrow> bool \<Rightarrow> shm_client \<Rightarrow> shm_client \<times> bool" where
  "shm_Create file_ok map_ok c = (let c1 = shm_file file_ok (shm_Close c)
     in if \<not> file_ok then (c1, False) else (shm_map map_ok c1, map_ok))"

text \<open>\<open>Open\<close> of the three later classes: everything is released before the exception.\<close>

definition shm_Open :: "u32 \<Rightarrow> u32 \<Rightarrow> bool \<Rightarrow> bool \<Rightarrow> u32 \<times> u32 \<Rightarrow> shm_client \<Rightarrow> shm_client \<times> shmem_error option" where
  "shm_Open MAGIC VERSION file_ok map_ok hdr c = (let c1 = shm_file file_ok (shm_Close c); c2 = shm_map map_ok c1
     in if \<not> file_ok then (c1, Some OpenFailed)
        else if \<not> map_ok then (shm_closehandle HInvalid c2, Some MapFailed)
        else if fst hdr \<noteq> MAGIC then (shm_Close c2, Some (MagicMismatch (fst hdr)))
        else if snd hdr \<noteq> VERSION then (shm_Close c2, Some (VersionMismatch (snd hdr)))
        else (c2, None))"

text \<open>\<open>DriverPoseShmem::Open\<close>: a failed mapping keeps the file handle for the next
  \<open>Close\<close>, a header mismatch releases view and handle by hand.\<close>

definition pose_shm_Open :: "u32 \<Rightarrow> u32 \<Rightarrow> bool \<Rightarrow> bool \<Rightarrow> u32 \<times> u32 \<Rightarrow> shm_client \<Rightarrow> shm_client \<times> shmem_error option" where
  "pose_shm_Open MAGIC VERSION file_ok map_ok hdr c = (let c1 = shm_file file_ok (shm_Close c); c2 = shm_map map_ok c1
     in if \<not> file_ok then (c1, Some OpenFailed)
        else if \<not> map_ok then (c2, Some MapFailed)
        else if fst hdr \<noteq> MAGIC then (shm_closehandle HNull (shm_unmap c2), Some (MagicMismatch (fst hdr)))
        else if snd hdr \<noteq> VERSION then (shm_closehandle HNull (shm_unmap c2), Some (VersionMismatch (snd hdr)))
        else (c2, None))"

section \<open>The contract of a segment class\<close>

definition shm_inv :: "shm_client \<Rightarrow> bool" where
  "shm_inv c \<longleftrightarrow> live_handles c = (if hMapFile c = HOpen then 1 else 0) \<and>
     live_views c = (if view c then 1 else 0) \<and> (view c \<longrightarrow> hMapFile c = HOpen)"

datatype shm_op = OpCreate bool bool | OpOpen bool bool "u32 \<times> u32" | OpClose

text \<open>A process using one segment object: any sequence of the three operations.\<close>

fun shm_run_op :: "(bool \<Rightarrow> bool \<Rightarrow> u32 \<times> u32 \<Rightarrow> shm_client \<Rightarrow> shm_client \<times> shmem_error option) \<Rightarrow>
    shm_op \<Rightarrow> shm_client \<Rightarrow> shm_client" where
  "shm_run_op open_seg (OpCreate f m) c = fst (shm_Create f m c)"
| "shm_run_op open_seg (OpOpen f m hdr) c = fst (open_seg f m hdr c)"
| "shm_run_op open_seg OpClose c = shm_Close c"

locale shm_class =
  fixes open_seg :: "bool \<Rightarrow> bool \<Rightarrow> u32 \<times> u32 \<Rightarrow> shm_client \<Rightarrow> shm_client \<times> shmem_error option"
    and MAGIC VERSION :: u32
  assumes open_inv: "shm_inv c \<Longrightarrow> shm_inv (fst (open_seg f m hdr c))"
    and open_ok: "shm_inv c \<Longrightarrow> snd (open_seg f m hdr c) = None \<longleftrightarrow> f \<and> m \<and> hdr = (MAGIC, VERSION)"
    and open_view: "shm_inv c \<Longrightarrow> view (fst (open_seg f m hdr c)) \<longleftrightarrow> snd (open_seg f m hdr c) = None"
begin

lemma close_inv: "shm_inv c \<Longrightarrow> shm_inv (shm_Close c)"
  by (auto simp: shm_inv_def shm_Close_def shm_unmap_def shm_closehandle_def)

lemma create_inv: "shm_inv c \<Longrightarrow> shm_inv (fst (shm_Create f m c))"
  using close_inv [of c]
  by (auto simp: shm_Create_def shm_inv_def shm_file_def shm_map_def shm_Close_def shm_unmap_def
      shm_closehandle_def Let_def split: if_splits)

lemma run_inv: "shm_inv c \<Longrightarrow> shm_inv (fold (shm_run_op open_seg) ops c)"
proof (induction ops arbitrary: c)
  case (Cons a ops)
  have "shm_inv (shm_run_op open_seg a c)" using Cons.prems by (cases a) (simp_all add: create_inv open_inv close_inv)
  then show ?case using Cons.IH by simp
qed simp

lemma released_after_close:
  "shm_inv c \<Longrightarrow> live_handles (shm_Close c) = 0 \<and> live_views (shm_Close c) = 0 \<and> \<not> view (shm_Close c)"
  by (auto simp: shm_inv_def shm_Close_def shm_unmap_def shm_closehandle_def Let_def split: if_splits)

lemma run_released: "live_handles (fold (shm_run_op open_seg) (ops @ [OpClose]) shm_new) = 0 \<and>
    live_views (fold (shm_run_op open_seg) (ops @ [OpClose]) shm_new) = 0"
  using released_after_close [OF run_inv [of shm_new ops]] by (simp add: shm_inv_def shm_new_def)

end

lemmas shm_defs = shm_inv_def shm_Close_def shm_unmap_def shm_closehandle_def shm_file_def shm_map_def Let_def

lemma shm_Open_class: "shm_class (shm_Open M V) M V"
  by unfold_locales (auto simp: shm_Open_def shm_defs split: if_splits)

lemma pose_shm_Open_class: "shm_class (pose_shm_Open M V) M V"
  by unfold_locales (auto simp: pose_shm_Open_def shm_defs split: if_splits)

end
