(* ===== verification/Seqlock.thy ===== *)
theory Seqlock
  imports WK_Prelude
begin

text \<open>
  The per-slot sequence lock of the shared-memory segments (\<open>WriteSlot\<close> / \<open>TryReadSlot\<close>,
  \<open>Publish\<close> / \<open>TryReadLatestWire\<close> and \<open>WriteRoute\<close> / \<open>TryReadRoute\<close> of
  \<open>core/src/common/Protocol.h\<close> all follow it). First the slot with its operations run
  without interference, then the interleaving of one writer process and one reader process at
  the granularity of single memory accesses: the copies of the body move one word at a time
  and in any order, as \<open>memcpy\<close> may.
\<close>

section \<open>A slot, without interference\<close>

record 'b seq_slot =
  generation :: u64
  slot_body :: 'b

text \<open>\<open>prev = generation; generation = prev + 1; memcpy; generation = prev + 2\<close>.\<close>

definition seq_write :: "'b \<Rightarrow> 'b seq_slot \<Rightarrow> 'b seq_slot" where
  "seq_write b s = (let prev = generation s; s1 = s\<lparr>generation := prev + 1\<rparr>;
     s2 = s1\<lparr>slot_body := b\<rparr> in s2\<lparr>generation := prev + 2\<rparr>)"

text \<open>The retry loop: an odd generation costs an attempt, an unchanged even one succeeds.\<close>

fun seq_try_read :: "nat \<Rightarrow> 'b seq_slot \<Rightarrow> 'b option" where
  "seq_try_read 0 s = None"
| "seq_try_read (Suc n) s = (if odd (generation s) then seq_try_read n s else Some (slot_body s))"

lemma even_word_iff: "even (w :: 'a::len word) \<longleftrightarrow> even (unat w)"
  by transfer (simp add: even_take_bit_eq even_nat_iff)

lemma even_add_2 [simp]: "even (g + 2 :: u64) \<longleftrightarrow> even g"
  by simp

lemma seq_write_simps [simp]:
  "generation (seq_write b s) = generation s + 2" "slot_body (seq_write b s) = b"
  by (simp_all add: seq_write_def)

lemma seq_try_read_iff:
  "seq_try_read n s = (if n = 0 \<or> odd (generation s) then None else Some (slot_body s))"
  by (induction n) auto

section \<open>Interleaved accesses\<close>

text \<open>The writer keeps the generation it loaded, the body to store and the indices it has not
  stored yet; the reader keeps its attempt number, the first generation it loaded and the
  indices it has not copied yet. \<open>published\<close> lists the bodies completely written so far, the
  initial content first, and \<open>rd_from\<close> is the index of the newest of them when the current
  read began: both only record the history.\<close>

datatype 'w writer_pc = WIdle | WCopy u64 "'w list" "nat list"

datatype reader_pc = RIdle | RLoad1 nat | RCopy nat u64 "nat list" | RLoad2 nat u64 | RDone bool

record 'w seqlock =
  gen :: u64
  mem :: "'w list"
  w_pc :: "'w writer_pc"
  r_pc :: reader_pc
  rd_out :: "'w list"
  published :: "'w list list"
  rd_from :: nat

datatype 'w seq_action =
    WriteBegin "'w list" | WriteWord nat | WriteEnd
  | ReadBegin | ReadGen1 | ReadWord nat | ReadCopied | ReadGen2

text \<open>One access. The first argument is \<open>max_retries\<close>.\<close>

fun seq_step :: "nat \<Rightarrow> 'w seq_action \<Rightarrow> 'w seqlock \<Rightarrow> 'w seqlock option" where
  "seq_step r (WriteBegin b) s =
     (case w_pc s of
        WIdle \<Rightarrow> if length b = length (mem s)
          then Some (s\<lparr>gen := gen s + 1, w_pc := WCopy (gen s) b [0..<length b]\<rparr>) else None
      | _ \<Rightarrow> None)"
| "seq_step r (WriteWord i) s =
     (case w_pc s of
        WCopy g b todo \<Rightarrow> if i \<in> set todo
          then Some (s\<lparr>mem := (mem s)[i := b ! i], w_pc := WCopy g b (removeAll i todo)\<rparr>) else None
      | _ \<Rightarrow> None)"
| "seq_step r WriteEnd s =
     (case w_pc s of
        WCopy g b todo \<Rightarrow> if todo = []
          then Some (s\<lparr>gen := g + 2, w_pc := WIdle, published := published s @ [b]\<rparr>) else None
      | _ \<Rightarrow> None)"
| "seq_step r ReadBegin s =
     (case r_pc s of
        RIdle \<Rightarrow> Some (s\<lparr>r_pc := RLoad1 0, rd_from := length (published s) - 1\<rparr>)
      | RDone ok \<Rightarrow> Some (s\<lparr>r_pc := RLoad1 0, rd_from := length (published s) - 1\<rparr>)
      | _ \<Rightarrow> None)"
| "seq_step r ReadGen1 s =
     (case r_pc s of
        RLoad1 k \<Rightarrow>
          if k \<ge> r then Some (s\<lparr>r_pc := RDone False\<rparr>)
          else if odd (gen s) then Some (s\<lparr>r_pc := RLoad1 (Suc k)\<rparr>)
          else Some (s\<lparr>r_pc := RCopy k (gen s) [0..<length (mem s)]\<rparr>)
      | _ \<Rightarrow> None)"
| "seq_step r (ReadWord i) s =
     (case r_pc s of
        RCopy k g todo \<Rightarrow> if i \<in> set todo
          then Some (s\<lparr>rd_out := (rd_out s)[i := mem s ! i], r_pc := RCopy k g (removeAll i todo)\<rparr>) else None
      | _ \<Rightarrow> None)"
| "seq_step r ReadCopied s =
     (case r_pc s of
        RCopy k g todo \<Rightarrow> if todo = [] then Some (s\<lparr>r_pc := RLoad2 k g\<rparr>) else None
      | _ \<Rightarrow> None)"
| "seq_step r ReadGen2 s =
     (case r_pc s of
        RLoad2 k g \<Rightarrow>
          if gen s = g then Some (s\<lparr>r_pc := RDone True\<rparr>) else Some (s\<lparr>r_pc := RLoad1 (Suc k)\<rparr>)
      | _ \<Rightarrow> None)"

fun seq_run :: "nat \<Rightarrow> 'w seq_action list \<Rightarrow> 'w seqlock \<Rightarrow> 'w seqlock option" where
  "seq_run r [] s = Some s"
| "seq_run r (a # as) s = Option.bind (seq_step r a s) (seq_run r as)"

definition seq_init :: "u64 \<Rightarrow> 'w list \<Rightarrow> 'w seqlock" where
  "seq_init g b = \<lparr>gen = g, mem = b, w_pc = WIdle, r_pc = RIdle, rd_out = b,
     published = [b], rd_from = 0\<rparr>"

text \<open>The states of the protocol: a fresh segment (generation 0) and every interleaving.\<close>

inductive seq_reach :: "nat \<Rightarrow> 'w list \<Rightarrow> 'w seqlock \<Rightarrow> bool" for r b where
  init: "seq_reach r b (seq_init 0 b)"
| step: "seq_reach r b s \<Longrightarrow> seq_step r a s = Some t \<Longrightarrow> seq_reach r b t"

inductive_cases seq_reachE: "seq_reach r b s"

lemma seq_run_append: "seq_run r (as @ bs) s = Option.bind (seq_run r as s) (seq_run r bs)"
  by (induction as arbitrary: s) (auto split: Option.bind_splits)

lemma seq_run_chain:
  "seq_run r as s = Some t \<Longrightarrow> seq_run r bs t = Some u \<Longrightarrow> seq_run r (as @ bs) s = Some u"
  by (simp add: seq_run_append)

lemma seq_run_reach:
  "seq_run r as s = Some t \<Longrightarrow> seq_reach r b s \<Longrightarrow> seq_reach r b t"
  by (induction as arbitrary: s) (auto split: Option.bind_splits dest: seq_reach.step)

section \<open>Invariant\<close>

text \<open>Writer part: the generation counts completed writes, the memory holds the last published
  body when no write is under way, and the words stored so far during one.\<close>

definition writing :: "'w seqlock \<Rightarrow> bool" where
  "writing s \<longleftrightarrow> w_pc s \<noteq> WIdle"

definition seq_version :: "'w seqlock \<Rightarrow> nat" where
  "seq_version s = 2 * (length (published s) - 1) + (if writing s then 1 else 0)"

definition inv_writer :: "nat \<Rightarrow> 'w seqlock \<Rightarrow> bool" where
  "inv_writer n s \<longleftrightarrow> published s \<noteq> [] \<and> (\<forall>b \<in> set (published s). length b = n) \<and>
     length (mem s) = n \<and> gen s = of_nat (seq_version s) \<and>
     (case w_pc s of
        WIdle \<Rightarrow> mem s = last (published s)
      | WCopy g b todo \<Rightarrow> g = of_nat (2 * (length (published s) - 1)) \<and> length b = n \<and>
          (\<forall>i < n. i \<notin> set todo \<longrightarrow> mem s ! i = b ! i))"

text \<open>Reader part: an attempt that loaded version \<open>v\<close> has copied words of the published body
  number \<open>v\<close> as long as the writer has not moved on.\<close>

definition quiet_at :: "'w seqlock \<Rightarrow> nat \<Rightarrow> bool" where
  "quiet_at s v \<longleftrightarrow> \<not> writing s \<and> v = length (published s) - 1"

definition attempt_ok :: "'w seqlock \<Rightarrow> nat \<Rightarrow> u64 \<Rightarrow> nat set \<Rightarrow> bool" where
  "attempt_ok s n g todo \<longleftrightarrow> (\<exists>v. rd_from s \<le> v \<and> v < length (published s) \<and> g = of_nat (2 * v) \<and>
     (quiet_at s v \<longrightarrow> (\<forall>i < n. i \<notin> todo \<longrightarrow> rd_out s ! i = last (published s) ! i)))"

definition inv_reader :: "nat \<Rightarrow> 'w seqlock \<Rightarrow> bool" where
  "inv_reader n s \<longleftrightarrow> length (rd_out s) = n \<and> rd_from s < length (published s) \<and>
     (case r_pc s of
        RCopy k g todo \<Rightarrow> attempt_ok s n g (set todo)
      | RLoad2 k g \<Rightarrow> attempt_ok s n g {}
      | RDone ok \<Rightarrow> ok \<longrightarrow> (\<exists>v. rd_from s \<le> v \<and> v < length (published s) \<and> rd_out s = published s ! v)
      | _ \<Rightarrow> True)"

lemma inv_writer_init: "inv_writer (length b) (seq_init 0 b)"
  by (simp add: inv_writer_def seq_init_def seq_version_def writing_def)

lemma inv_reader_init: "inv_reader (length b) (seq_init 0 b)"
  by (simp add: inv_reader_def seq_init_def)

text \<open>The generation of a state determines its version as long as fewer than \<open>2^63\<close> bodies
  have been published.\<close>

lemma version_inj:
  assumes "inv_writer n s" "length (published s) \<le> 2 ^ 63" "v < length (published s)"
    "gen s = of_nat (2 * v)"
  shows "quiet_at s v"
proof -
  have le: "seq_version s < 2 ^ 64" "2 * v < 2 ^ 64"
    using assms(2,3) by (auto simp: seq_version_def)
  have "(of_nat (seq_version s) :: u64) = of_nat (2 * v)"
    using assms(1,4) by (simp add: inv_writer_def)
  then have "seq_version s = 2 * v"
    using unat_of_nat_u64 [OF le(1)] unat_of_nat_u64 [OF le(2)] by simp
  then show ?thesis using assms(1)
    by (auto simp: seq_version_def quiet_at_def inv_writer_def split: if_splits) presburger
qed

lemma seq_step_inv_writer:
  assumes "inv_writer n s" "seq_step r a s = Some t"
  shows "inv_writer n t"
proof (cases a)
  case (WriteWord i)
  with assms(2) obtain g b todo where w: "w_pc s = WCopy g b todo" "i \<in> set todo"
    and t: "t = s\<lparr>mem := (mem s)[i := b ! i], w_pc := WCopy g b (removeAll i todo)\<rparr>"
    by (auto split: writer_pc.splits if_splits)
  have "(mem s)[i := b ! i] ! j = b ! j" if "j < n" "j \<notin> set (removeAll i todo)" for j
    using that assms(1) w by (cases "j = i") (auto simp: inv_writer_def)
  then show ?thesis using assms(1) w
    by (auto simp: t inv_writer_def seq_version_def writing_def)
next
  case WriteEnd
  with assms(2) obtain g b where w: "w_pc s = WCopy g b []"
    and t: "t = s\<lparr>gen := g + 2, w_pc := WIdle, published := published s @ [b]\<rparr>"
    by (auto split: writer_pc.splits if_splits)
  obtain m where m: "length (published s) = Suc m"
    using assms(1) by (cases "published s") (auto simp: inv_writer_def)
  have "mem s = b" using assms(1) w by (auto simp: inv_writer_def intro: nth_equalityI)
  then show ?thesis using assms(1) w m
    by (auto simp: t inv_writer_def seq_version_def writing_def)
qed (use assms in \<open>auto simp: inv_writer_def seq_version_def writing_def
        split: writer_pc.splits reader_pc.splits if_splits\<close>)

lemma attempt_okI:
  assumes "attempt_ok s n g T" "rd_from t = rd_from s" "length (published s) \<le> length (published t)"
    and "\<And>v. v < length (published s) \<Longrightarrow> quiet_at t v \<Longrightarrow> quiet_at s v \<and> last (published t) = last (published s)"
    and "\<And>i. i < n \<Longrightarrow> i \<notin> T' \<Longrightarrow> (i \<notin> T \<and> rd_out t ! i = rd_out s ! i) \<or>
       rd_out t ! i = last (published t) ! i \<or> (\<forall>v. \<not> quiet_at t v)"
  shows "attempt_ok t n g T'"
  using assms unfolding attempt_ok_def by (metis order_less_le_trans)

lemma seq_step_inv_reader:
  assumes w: "inv_writer n s" and inv: "inv_reader n s" and len: "length (published s) \<le> 2 ^ 63"
    and st: "seq_step r a s = Some t"
  shows "inv_reader n t"
proof (cases a)
  case (WriteBegin b)
  with st obtain t': "t = s\<lparr>gen := gen s + 1, w_pc := WCopy (gen s) b [0..<length b]\<rparr>" and "w_pc s = WIdle"
    by (auto split: writer_pc.splits if_splits)
  have q: "\<not> quiet_at t v" for v by (simp add: t' quiet_at_def writing_def)
  have "attempt_ok t n g T" if "attempt_ok s n g T" for g T
    using that q by (intro attempt_okI [OF that]) (auto simp: t')
  then show ?thesis using inv by (auto simp: t' inv_reader_def split: reader_pc.splits)
next
  case (WriteWord i)
  with st obtain g0 b todo where "w_pc s = WCopy g0 b todo"
    and t': "t = s\<lparr>mem := (mem s)[i := b ! i], w_pc := WCopy g0 b (removeAll i todo)\<rparr>"
    by (auto split: writer_pc.splits if_splits)
  have q: "\<not> quiet_at t v" for v by (simp add: t' quiet_at_def writing_def)
  have "attempt_ok t n g T" if "attempt_ok s n g T" for g T
    using that q by (intro attempt_okI [OF that]) (auto simp: t')
  then show ?thesis using inv by (auto simp: t' inv_reader_def split: reader_pc.splits)
next
  case WriteEnd
  with st obtain g0 b where "w_pc s = WCopy g0 b []"
    and t': "t = s\<lparr>gen := g0 + 2, w_pc := WIdle, published := published s @ [b]\<rparr>"
    by (auto split: writer_pc.splits if_splits)
  have q: "\<not> quiet_at t v" if "v < length (published s)" for v using that by (simp add: t' quiet_at_def)
  have "attempt_ok t n g T" if "attempt_ok s n g T" for g T
    using that q unfolding attempt_ok_def by (fastforce simp: t')
  then show ?thesis using inv by (auto simp: t' inv_reader_def nth_append split: reader_pc.splits)
next
  case ReadGen1
  have ne: "published s \<noteq> []" using w by (simp add: inv_writer_def)
  have "attempt_ok s n (gen s) {0..<n}" if "even (gen s)"
  proof -
    have "\<not> writing s" using w that by (auto simp: inv_writer_def seq_version_def)
    then have "gen s = of_nat (2 * (length (published s) - 1))"
      using w by (simp add: inv_writer_def seq_version_def)
    then show ?thesis using inv ne
      by (auto simp: attempt_ok_def inv_reader_def intro!: exI [of _ "length (published s) - 1"])
  qed
  then show ?thesis using ReadGen1 st inv w
    by (auto simp: inv_reader_def inv_writer_def attempt_ok_def quiet_at_def writing_def
        split: reader_pc.splits if_splits)
next
  case (ReadWord i)
  with st obtain k g todo where pc: "r_pc s = RCopy k g todo" "i \<in> set todo"
    and t': "t = s\<lparr>rd_out := (rd_out s)[i := mem s ! i], r_pc := RCopy k g (removeAll i todo)\<rparr>"
    by (auto split: reader_pc.splits if_splits)
  have len: "length (rd_out s) = n" and ok: "attempt_ok s n g (set todo)"
    using inv pc by (simp_all add: inv_reader_def)
  have m: "mem s = last (published s)" if "quiet_at s v" for v
    using w that by (auto simp: inv_writer_def quiet_at_def writing_def)
  have q: "quiet_at t v = quiet_at s v" for v by (simp add: t' quiet_at_def writing_def)
  have "attempt_ok t n g (set (removeAll i todo))"
  proof (rule attempt_okI [OF ok])
    fix j assume j: "j < n" "j \<notin> set (removeAll i todo)"
    show "(j \<notin> set todo \<and> rd_out t ! j = rd_out s ! j) \<or>
       rd_out t ! j = last (published t) ! j \<or> (\<forall>v. \<not> quiet_at t v)"
      using j len m q by (cases "j = i") (auto simp: t')
  qed (auto simp: t' quiet_at_def writing_def)
  then show ?thesis using inv pc by (auto simp: t' inv_reader_def)
next
  case ReadGen2
  with st obtain k g where pc: "r_pc s = RLoad2 k g" by (auto split: reader_pc.splits)
  with inv obtain v where v: "rd_from s \<le> v" "v < length (published s)" "g = of_nat (2 * v)"
    and eq: "quiet_at s v \<Longrightarrow> \<forall>i < n. rd_out s ! i = last (published s) ! i"
    by (auto simp: inv_reader_def attempt_ok_def)
  show ?thesis
  proof (cases "gen s = g")
    case True
    have q: "quiet_at s v" using version_inj [OF w len v(2)] True v(3) by simp
    have "last (published s) = published s ! v"
      using q v(2) by (cases "published s = []") (auto simp: quiet_at_def last_conv_nth)
    moreover have "length (last (published s)) = n" using w by (simp add: inv_writer_def)
    ultimately have "rd_out s = published s ! v"
      using eq [OF q] inv by (auto simp: inv_reader_def intro!: nth_equalityI)
    then show ?thesis using ReadGen2 st pc True inv v(1,2) by (auto simp: inv_reader_def)
  next
    case False
    then show ?thesis using ReadGen2 st pc inv by (auto simp: inv_reader_def)
  qed
qed (use inv st w in \<open>auto simp: inv_reader_def inv_writer_def attempt_ok_def quiet_at_def writing_def
        split: reader_pc.splits if_splits\<close>)

lemma seq_step_published_mono:
  "seq_step r a s = Some t \<Longrightarrow> length (published s) \<le> length (published t)"
  by (cases a) (auto split: writer_pc.splits reader_pc.splits if_splits)

lemma seq_reach_inv:
  assumes "seq_reach r b s" "length (published s) \<le> 2 ^ 63"
  shows "inv_writer (length b) s \<and> inv_reader (length b) s"
  using assms
proof induction
  case init
  then show ?case by (simp add: inv_writer_init inv_reader_init)
next
  case (step s a t)
  have "length (published s) \<le> 2 ^ 63" using seq_step_published_mono [OF step.hyps(2)] step.prems by simp
  then show ?case
    using step seq_step_inv_writer [OF _ step.hyps(2)] seq_step_inv_reader [OF _ _ _ step.hyps(2)] by blast
qed

section \<open>The operations as undisturbed runs\<close>

lemma removeAll_upt: "removeAll k [k..<n] = [Suc k..<n]"
proof (cases "k < n")
  case True
  then have "[k..<n] = k # [Suc k..<n]" by (rule upt_conv_Cons)
  then show ?thesis by (simp add: removeAll_id)
qed simp

lemma seq_run_WriteWords:
  assumes "w_pc s = WCopy g b [k..<n]" "length b = n" "length (mem s) = n" "k \<le> n"
    "\<forall>i < k. mem s ! i = b ! i"
  shows "seq_run r (map WriteWord [k..<n]) s = Some (s\<lparr>mem := b, w_pc := WCopy g b []\<rparr>)"
  using assms
proof (induction "n - k" arbitrary: k s)
  case 0
  then have "mem s = b" by (intro nth_equalityI) auto
  then show ?case using 0 by simp
next
  case (Suc m)
  then have k: "k < n" by simp
  then have u: "[k..<n] = k # [Suc k..<n]" by (rule upt_conv_Cons)
  let ?t = "s\<lparr>mem := (mem s)[k := b ! k], w_pc := WCopy g b [Suc k..<n]\<rparr>"
  have "seq_step r (WriteWord k) s = Some ?t"
    using Suc.prems k removeAll_upt [of k n] by simp
  moreover have "seq_run r (map WriteWord [Suc k..<n]) ?t = Some (?t\<lparr>mem := b, w_pc := WCopy g b []\<rparr>)"
  proof (rule Suc.hyps(1))
    show "\<forall>i < Suc k. mem ?t ! i = b ! i" using Suc.prems k by (auto simp: less_Suc_eq)
  qed (use Suc k in auto)
  ultimately show ?case unfolding u by simp
qed

lemma seq_run_write:
  assumes "w_pc s = WIdle" "length b = length (mem s)"
  shows "seq_run r (WriteBegin b # map WriteWord [0..<length b] @ [WriteEnd]) s =
    Some (s\<lparr>gen := gen s + 2, mem := b, published := published s @ [b]\<rparr>)"
proof -
  let ?t = "s\<lparr>gen := gen s + 1, w_pc := WCopy (gen s) b [0..<length b]\<rparr>"
  have b: "seq_run r [WriteBegin b] s = Some ?t" using assms by simp
  have c: "seq_run r (map WriteWord [0..<length b]) ?t = Some (?t\<lparr>mem := b, w_pc := WCopy (gen s) b []\<rparr>)"
    using assms by (intro seq_run_WriteWords) auto
  have "seq_run r ([WriteBegin b] @ map WriteWord [0..<length b] @ [WriteEnd]) s =
      Some (s\<lparr>gen := gen s + 2, mem := b, published := published s @ [b]\<rparr>)"
    using assms(1) by (intro seq_run_chain [OF b] seq_run_chain [OF c]) simp
  then show ?thesis by simp
qed

lemma seq_run_ReadWords:
  assumes "r_pc s = RCopy a g [k..<n]" "length (rd_out s) = n" "length (mem s) = n" "k \<le> n"
    "\<forall>i < k. rd_out s ! i = mem s ! i"
  shows "seq_run r (map ReadWord [k..<n]) s = Some (s\<lparr>rd_out := mem s, r_pc := RCopy a g []\<rparr>)"
  using assms
proof (induction "n - k" arbitrary: k s)
  case 0
  then have "rd_out s = mem s" by (intro nth_equalityI) auto
  then show ?case using 0 by simp
next
  case (Suc m)
  then have k: "k < n" by simp
  then have u: "[k..<n] = k # [Suc k..<n]" by (rule upt_conv_Cons)
  let ?t = "s\<lparr>rd_out := (rd_out s)[k := mem s ! k], r_pc := RCopy a g [Suc k..<n]\<rparr>"
  have "seq_step r (ReadWord k) s = Some ?t"
    using Suc.prems k removeAll_upt [of k n] by simp
  moreover have "seq_run r (map ReadWord [Suc k..<n]) ?t = Some (?t\<lparr>rd_out := mem ?t, r_pc := RCopy a g []\<rparr>)"
  proof (rule Suc.hyps(1))
    show "\<forall>i < Suc k. rd_out ?t ! i = mem ?t ! i" using Suc.prems k by (auto simp: less_Suc_eq)
  qed (use Suc k in auto)
  ultimately show ?case unfolding u by simp
qed

lemma seq_run_read:
  assumes "r_pc s = RIdle" "even (gen s)" "0 < r" "length (rd_out s) = length (mem s)"
  shows "seq_run r ([ReadBegin, ReadGen1] @ map ReadWord [0..<length (mem s)] @ [ReadCopied, ReadGen2]) s =
    Some (s\<lparr>r_pc := RDone True, rd_out := mem s, rd_from := length (published s) - 1\<rparr>)"
proof -
  let ?t = "s\<lparr>r_pc := RCopy 0 (gen s) [0..<length (mem s)], rd_from := length (published s) - 1\<rparr>"
  have a: "seq_run r [ReadBegin, ReadGen1] s = Some ?t" using assms by simp
  have b: "seq_run r (map ReadWord [0..<length (mem s)]) ?t =
      Some (?t\<lparr>rd_out := mem ?t, r_pc := RCopy 0 (gen s) []\<rparr>)"
    using assms by (intro seq_run_ReadWords) auto
  show ?thesis by (intro seq_run_chain [OF a] seq_run_chain [OF b]) simp
qed

section \<open>The contract of a slot\<close>

text \<open>What the clients of a sequence-locked slot rely on, whatever the memory \<open>'m\<close> around it;
  \<open>ok\<close> holds of the memories in which the slot exists.\<close>

locale seq_slot_client =
  fixes ok :: "'m \<Rightarrow> bool" and wr :: "'b \<Rightarrow> 'm \<Rightarrow> 'm" and rd :: "'m \<Rightarrow> 'b option"
    and gen_of :: "'m \<Rightarrow> u64"
  assumes ok_wr: "ok m \<Longrightarrow> ok (wr b m)"
    and gen_wr: "ok m \<Longrightarrow> gen_of (wr b m) = gen_of m + 2"
    and rd_wr: "ok m \<Longrightarrow> even (gen_of m) \<Longrightarrow> rd (wr b m) = Some b"
    and rd_odd: "ok m \<Longrightarrow> odd (gen_of m) \<Longrightarrow> rd m = None"
begin

lemma ok_fold: "ok m \<Longrightarrow> ok (fold wr bs m)"
  by (induction bs arbitrary: m) (simp_all add: ok_wr)

lemma parity_fold: "ok m \<Longrightarrow> even (gen_of (fold wr bs m)) \<longleftrightarrow> even (gen_of m)"
  by (induction bs arbitrary: m) (simp_all add: gen_wr ok_wr)

lemma read_latest: "ok m \<Longrightarrow> even (gen_of m) \<Longrightarrow> rd (fold wr (bs @ [b]) m) = Some b"
  by (simp add: rd_wr parity_fold ok_fold)

lemma stuck_when_odd: "ok m \<Longrightarrow> odd (gen_of m) \<Longrightarrow> rd (fold wr bs m) = None"
  by (simp add: rd_odd parity_fold ok_fold)

end

interpretation slot: seq_slot_client "\<lambda>_. True" seq_write "seq_try_read (Suc n)" generation
  by unfold_locales (simp_all add: seq_try_read_iff)

text \<open>A table of such slots with an index of type \<open>'i\<close>: writing one slot shows there, as
  \<open>seen\<close> says, and nowhere else.\<close>

locale slot_table =
  fixes ok :: "'m \<Rightarrow> bool" and inside :: "'i \<Rightarrow> bool" and seen :: "'a \<Rightarrow> 'b"
    and wr_at :: "'i \<Rightarrow> 'a \<Rightarrow> 'm \<Rightarrow> 'm" and rd_at :: "'i \<Rightarrow> 'm \<Rightarrow> 'b option"
  assumes ok_wr_at: "ok m \<Longrightarrow> ok (wr_at i b m)"
    and rd_same: "ok m \<Longrightarrow> inside i \<Longrightarrow> rd_at i (wr_at i b m) = Some (seen b)"
    and rd_other: "ok m \<Longrightarrow> i \<noteq> j \<Longrightarrow> rd_at i (wr_at j b m) = rd_at i m"
    and rd_outside: "ok m \<Longrightarrow> \<not> inside i \<Longrightarrow> rd_at i m = None"
begin

lemma ok_history: "ok m \<Longrightarrow> ok (fold (\<lambda>(i, b). wr_at i b) ws m)"
  by (induction ws arbitrary: m) (auto simp: ok_wr_at)

lemma read_history:
  "ok m \<Longrightarrow> inside i \<Longrightarrow> rd_at i (fold (\<lambda>(i, b). wr_at i b) ws m) =
    (case map_of (rev ws) i of None \<Rightarrow> rd_at i m | Some b \<Rightarrow> Some (seen b))"
proof (induction ws rule: rev_induct)
  case (snoc w ws)
  obtain j b where w: "w = (j, b)" by (cases w)
  have "ok (fold (\<lambda>(i, b). wr_at i b) ws m)" using snoc.prems by (rule_tac ok_history)
  then show ?case using snoc by (cases "i = j") (simp_all add: w rd_same rd_other)
qed simp

end

definition slot_of :: "'w seqlock \<Rightarrow> 'w list seq_slot" where
  "slot_of s = \<lparr>generation = gen s, slot_body = mem s\<rparr>"

section \<open>Properties\<close>

text \<open>C2. No torn reads. In every interleaving of word-by-word writes and a reading call, a read
  that reports success returned a body that one write published completely, and not an older
  one than the newest body at the time the call began. The 64-bit generation cannot come around
  during a call while fewer than \<open>2^63\<close> bodies have been published.\<close>

theorem seqlock_no_torn_read:
  assumes "seq_reach r b s" "length (published s) \<le> 2 ^ 63" "r_pc s = RDone True"
  shows "\<exists>v. rd_from s \<le> v \<and> v < length (published s) \<and> rd_out s = published s ! v"
  using seq_reach_inv [OF assms(1,2)] assms(3) by (simp add: inv_reader_def)

text \<open>A schedule in which the first attempt is overtaken by a write and the second succeeds.\<close>

definition overtaken_read :: "nat seq_action list" where
  "overtaken_read = [ReadBegin, ReadGen1, ReadWord 0, WriteBegin [5, 6], WriteWord 1, WriteWord 0, WriteEnd,
     ReadWord 1, ReadCopied, ReadGen2, ReadGen1, ReadWord 1, ReadWord 0, ReadCopied, ReadGen2]"

theorem seqlock_no_torn_read_witness:
  "\<exists>s. seq_run 8 overtaken_read (seq_init 0 [1, 2]) = Some s \<and> rd_out s \<in> set (published s) \<and>
     published s = [[1, 2], [5, 6]]"
proof -
  obtain s where s: "seq_run 8 overtaken_read (seq_init 0 [1, 2]) = Some s"
    "r_pc s = RDone True" "published s = [[1, 2], [5, 6]]"
    by (simp add: overtaken_read_def seq_init_def upt_rec)
  have "seq_reach 8 [1, 2] s" by (rule seq_run_reach [OF s(1) seq_reach.init])
  have "length (published s) \<le> 2 ^ 63" by (simp add: s(3))
  from seqlock_no_torn_read [OF \<open>seq_reach 8 [1, 2] s\<close> this s(2)]
  have "rd_out s \<in> set (published s)" by (metis nth_mem)
  with s show ?thesis by blast
qed

text \<open>The operations are the protocol. Run without interference from a state with no write
  under way, the accesses of one write have exactly the effect of \<open>seq_write\<close>, and those of
  one read return exactly what \<open>seq_try_read\<close> does, in the first attempt.\<close>

theorem seqlock_refines_operations:
  assumes "w_pc s = WIdle" "length b = length (mem s)" "r_pc s = RIdle" "even (gen s)" "0 < r"
    "length (rd_out s) = length (mem s)"
  shows "map_option slot_of (seq_run r (WriteBegin b # map WriteWord [0..<length b] @ [WriteEnd]) s) =
      Some (seq_write b (slot_of s)) \<and>
    map_option rd_out (seq_run r ([ReadBegin, ReadGen1] @ map ReadWord [0..<length (mem s)] @
      [ReadCopied, ReadGen2]) s) = seq_try_read r (slot_of s)"
  unfolding seq_run_write [OF assms(1,2)] seq_run_read [OF assms(3-6)]
  using assms(4,5) by (simp add: slot_of_def seq_write_def seq_try_read_iff)

theorem seqlock_refines_operations_witness:
  "map_option slot_of (seq_run 8 [WriteBegin [3 :: nat, 4], WriteWord 0, WriteWord 1, WriteEnd] (seq_init 0 [1, 2])) =
     Some \<lparr>generation = 2, slot_body = [3, 4]\<rparr>"
  using seqlock_refines_operations [of "seq_init 0 [1 :: nat, 2]" "[3, 4]" 8]
  by (simp add: seq_init_def slot_of_def seq_write_def upt_rec)

text \<open>A writer that dies inside a write. The segment outlives the driver process as long as
  an overlay holds it open, and a restarted driver continues from the odd generation it finds.
  From then on every completed write leaves the generation odd again: no number of writes makes
  the slot readable, whatever the retry budget.\<close>

theorem seqlock_crash_unreadable:
  assumes "seq_reach r b s" "length (published s) \<le> 2 ^ 63" "writing s"
  shows "seq_try_read k (fold seq_write bs (slot_of s)) = None"
proof (cases k)
  case (Suc n)
  have "odd (gen s)"
    using seq_reach_inv [OF assms(1,2)] assms(3) by (simp add: inv_writer_def seq_version_def)
  then have "odd (generation (slot_of s))" by (simp add: slot_of_def)
  then show ?thesis unfolding Suc by (rule slot.stuck_when_odd [OF TrueI])
qed simp

theorem seqlock_crash_unreadable_witness:
  "\<exists>s. seq_run 8 [WriteBegin [3, 4 :: nat], WriteWord 0] (seq_init 0 [1, 2]) = Some s \<and>
     seq_try_read 8 (seq_write [7, 8] (slot_of s)) = None"
proof -
  obtain s where s: "seq_run 8 [WriteBegin [3, 4 :: nat], WriteWord 0] (seq_init 0 [1, 2]) = Some s"
    "writing s" "length (published s) = 1"
    by (simp add: seq_init_def upt_rec writing_def)
  have "seq_reach 8 [1, 2] s" by (rule seq_run_reach [OF s(1) seq_reach.init])
  from seqlock_crash_unreadable [OF this _ s(2), of 8 "[[7, 8]]"] s(1,3) show ?thesis by auto
qed

text \<open>Worse, in that situation the generation is even exactly while a write is under way, and a
  read can return a mixture of two bodies.\<close>

lemma seqlock_torn_after_crash:
  "\<exists>s t. seq_run 8 [WriteBegin [3, 4 :: nat], WriteWord 0] (seq_init 0 [1, 2]) = Some s \<and>
     seq_run 8 [WriteBegin [7, 8], WriteWord 0, ReadBegin, ReadGen1, ReadWord 0, ReadWord 1,
       ReadCopied, ReadGen2] (s\<lparr>w_pc := WIdle\<rparr>) = Some t \<and>
     r_pc t = RDone True \<and> rd_out t = [7, 2]"
  by (simp add: seq_init_def upt_rec)

end
