(* ===== verification/InputHealthShmem.thy ===== *)
theory InputHealthShmem
  imports Protocol ShmemSegment Seqlock
begin

text \<open>
  \<open>protocol::InputHealthSnapshotShmem\<close>: a table of 256 sequence-locked slots, one per input
  component, written by the driver's statistics worker and read by the overlay. The slot table
  is a list; the slot count is a field of the shared header, as in the source.
\<close>

section \<open>Data\<close>

definition INPUTHEALTH_POLAR_BIN_COUNT :: nat where
  "INPUTHEALTH_POLAR_BIN_COUNT = 36"

definition INPUTHEALTH_SLOT_COUNT :: nat where
  "INPUTHEALTH_SLOT_COUNT = 256"

definition IH_SHMEM_MAGIC :: u32 where
  "IH_SHMEM_MAGIC = 0x494E4848"

definition IH_SHMEM_VERSION :: u32 where
  "IH_SHMEM_VERSION = 2"

record InputHealthSnapshotBody =
  ihb_handle :: u64
  container_handle :: u64
  device_serial_hash :: u64
  partner_handle :: u64
  ihb_path :: string
  is_scalar :: byte
  is_boolean :: byte
  axis_role :: byte
  ph_initialized :: byte
  ph_triggered :: byte
  ph_triggered_positive :: byte
  rest_min_initialized :: byte
  last_boolean :: byte
  welford_count :: u64
  welford_mean :: double
  welford_m2 :: double
  ph_mean :: double
  ph_pos :: double
  ph_neg :: double
  rest_min :: double
  last_value :: float32
  last_update_us :: u64
  press_count :: u64
  scalar_range_initialized :: byte
  observed_min :: float32
  observed_max :: float32
  polar_max_r :: "float32 list"
  polar_count :: "u16 list"
  polar_last_update_us :: "u64 list"
  polar_global_max_r :: float32

type_synonym InputHealthSnapshotSlot = "InputHealthSnapshotBody seq_slot"

record IHShmemData =
  ih_magic :: u32
  ih_version :: u32
  ih_slot_count :: u32
  ih_publish_tick :: u64
  ih_slots :: "InputHealthSnapshotSlot list"

section \<open>Life cycle\<close>

definition InputHealthSnapshotShmem_Create ::
    "bool \<Rightarrow> bool \<Rightarrow> IHShmemData \<Rightarrow> shm_client \<Rightarrow> (shm_client \<times> IHShmemData) \<times> bool" where
  "InputHealthSnapshotShmem_Create f m d c = (let (c1, ok) = shm_Create f m c
     in ((c1, if ok then d\<lparr>ih_magic := IH_SHMEM_MAGIC, ih_version := IH_SHMEM_VERSION,
           ih_slot_count := of_nat INPUTHEALTH_SLOT_COUNT\<rparr> else d), ok))"

definition InputHealthSnapshotShmem_Open ::
    "bool \<Rightarrow> bool \<Rightarrow> u32 \<times> u32 \<Rightarrow> shm_client \<Rightarrow> shm_client \<times> shmem_error option" where
  "InputHealthSnapshotShmem_Open = shm_Open IH_SHMEM_MAGIC IH_SHMEM_VERSION"

interpretation ih_seg: shm_class InputHealthSnapshotShmem_Open IH_SHMEM_MAGIC IH_SHMEM_VERSION
  unfolding InputHealthSnapshotShmem_Open_def by (rule shm_Open_class)

section \<open>Operations\<close>

definition SlotCount :: "IHShmemData option \<Rightarrow> u32" where
  "SlotCount pData = (case pData of None \<Rightarrow> 0 | Some d \<Rightarrow> ih_slot_count d)"

definition BumpPublishTick :: "IHShmemData option \<Rightarrow> IHShmemData option" where
  "BumpPublishTick = map_option (\<lambda>d. d\<lparr>ih_publish_tick := ih_publish_tick d + 1\<rparr>)"

definition LoadPublishTick :: "IHShmemData option \<Rightarrow> u64" where
  "LoadPublishTick pData = (case pData of None \<Rightarrow> 0 | Some d \<Rightarrow> ih_publish_tick d)"

text \<open>The slot pointer is the slot's index.\<close>

definition SlotForWrite :: "u32 \<Rightarrow> IHShmemData option \<Rightarrow> nat option" where
  "SlotForWrite index pData = (case pData of None \<Rightarrow> None
     | Some d \<Rightarrow> if index \<ge> ih_slot_count d then None else Some (unat index))"

definition WriteSlot :: "u32 \<Rightarrow> InputHealthSnapshotBody \<Rightarrow> IHShmemData option \<Rightarrow> IHShmemData option" where
  "WriteSlot index body pData = (case SlotForWrite index pData of
       None \<Rightarrow> pData
     | Some i \<Rightarrow> map_option (\<lambda>d. d\<lparr>ih_slots := (ih_slots d)[i := seq_write body (ih_slots d ! i)]\<rparr>) pData)"

definition TryReadSlot :: "nat \<Rightarrow> u32 \<Rightarrow> IHShmemData option \<Rightarrow> InputHealthSnapshotBody option" where
  "TryReadSlot max_retries index pData = (case pData of None \<Rightarrow> None
     | Some d \<Rightarrow> if index \<ge> ih_slot_count d then None
        else seq_try_read max_retries (ih_slots d ! unat index))"

section \<open>Invariant and contracts\<close>

definition ih_wf :: "IHShmemData option \<Rightarrow> bool" where
  "ih_wf pData \<longleftrightarrow> (\<exists>d. pData = Some d \<and> ih_slot_count d = of_nat INPUTHEALTH_SLOT_COUNT \<and>
     length (ih_slots d) = INPUTHEALTH_SLOT_COUNT \<and> (\<forall>s \<in> set (ih_slots d). even (generation s)))"

definition ih_inside :: "u32 \<Rightarrow> bool" where
  "ih_inside i \<longleftrightarrow> unat i < INPUTHEALTH_SLOT_COUNT"

lemma ih_index_guard: "ih_slot_count d = of_nat INPUTHEALTH_SLOT_COUNT \<Longrightarrow> i < ih_slot_count d \<longleftrightarrow> ih_inside i"
  by (simp add: ih_inside_def INPUTHEALTH_SLOT_COUNT_def word_less_nat_alt)

lemma WriteSlot_wf: "ih_wf m \<Longrightarrow> ih_wf (WriteSlot i b m)"
proof -
  assume "ih_wf m"
  then obtain d where d: "m = Some d" "ih_slot_count d = of_nat INPUTHEALTH_SLOT_COUNT"
    "length (ih_slots d) = INPUTHEALTH_SLOT_COUNT" "\<forall>s \<in> set (ih_slots d). even (generation s)"
    by (auto simp: ih_wf_def)
  have "even (generation (ih_slots d ! unat i))" if "i < ih_slot_count d"
    using that d ih_index_guard [OF d(2)] by (simp add: ih_inside_def)
  then show ?thesis using d
    by (auto simp: ih_wf_def WriteSlot_def SlotForWrite_def dest!: set_list_updateD)
qed

interpretation ih_table: slot_table ih_wf ih_inside "\<lambda>b. b" WriteSlot "TryReadSlot (Suc n)"
proof
  fix m :: "IHShmemData option" and i j :: u32 and b
  assume wf: "ih_wf m"
  then obtain d where d: "m = Some d" "ih_slot_count d = of_nat INPUTHEALTH_SLOT_COUNT"
    "length (ih_slots d) = INPUTHEALTH_SLOT_COUNT" "\<forall>s \<in> set (ih_slots d). even (generation s)"
    by (auto simp: ih_wf_def)
  note guard = ih_index_guard [OF d(2)]
  show "ih_wf (WriteSlot i b m)" using wf by (rule WriteSlot_wf)
  show "TryReadSlot (Suc n) i (WriteSlot i b m) = Some b" if "ih_inside i"
    using that d guard
    by (simp add: TryReadSlot_def WriteSlot_def SlotForWrite_def not_le [symmetric] ih_inside_def)
  show "TryReadSlot (Suc n) i (WriteSlot j b m) = TryReadSlot (Suc n) i m" if "i \<noteq> j"
  proof -
    have "unat i \<noteq> unat j" using that by (simp add: word_unat_eq_iff)
    then show ?thesis using d by (simp add: TryReadSlot_def WriteSlot_def SlotForWrite_def)
  qed
  show "TryReadSlot (Suc n) i m = None" if "\<not> ih_inside i"
    using that d guard by (auto simp: TryReadSlot_def not_le)
qed

section \<open>Properties\<close>

definition ih_zero_body :: InputHealthSnapshotBody where
  "ih_zero_body = \<lparr>ihb_handle = 0, container_handle = 0, device_serial_hash = 0, partner_handle = 0,
     ihb_path = [], is_scalar = 0, is_boolean = 0, axis_role = 0, ph_initialized = 0, ph_triggered = 0,
     ph_triggered_positive = 0, rest_min_initialized = 0, last_boolean = 0, welford_count = 0,
     welford_mean = 0, welford_m2 = 0, ph_mean = 0, ph_pos = 0, ph_neg = 0, rest_min = 0,
     last_value = 0, last_update_us = 0, press_count = 0, scalar_range_initialized = 0,
     observed_min = 0, observed_max = 0, polar_max_r = replicate INPUTHEALTH_POLAR_BIN_COUNT 0,
     polar_count = replicate INPUTHEALTH_POLAR_BIN_COUNT 0,
     polar_last_update_us = replicate INPUTHEALTH_POLAR_BIN_COUNT 0, polar_global_max_r = 0\<rparr>"

text \<open>A zero-filled mapping after \<open>Create\<close>.\<close>

definition ih_fresh :: IHShmemData where
  "ih_fresh = snd (fst (InputHealthSnapshotShmem_Create True True
     \<lparr>ih_magic = 0, ih_version = 0, ih_slot_count = 0, ih_publish_tick = 0,
      ih_slots = replicate INPUTHEALTH_SLOT_COUNT \<lparr>generation = 0, slot_body = ih_zero_body\<rparr>\<rparr> shm_new))"

lemma ih_fresh_wf: "ih_wf (Some ih_fresh)"
  by (simp add: ih_fresh_def InputHealthSnapshotShmem_Create_def shm_Create_def ih_wf_def shm_defs)

text \<open>Snapshot table. After any sequence of slot writes by the driver, a read of slot
  \<open>i\<close> with a retry budget of at least one returns the body written last to that slot, or
  what it held before; writes to other slots and writes with an index outside the table do not
  show, and an index outside the table reads as absent.\<close>

theorem inputhealth_latest_snapshot:
  assumes "ih_wf m"
  shows "TryReadSlot (Suc n) i (fold (\<lambda>(i, b). WriteSlot i b) ws m) =
    (if ih_inside i then (case map_of (rev ws) i of None \<Rightarrow> TryReadSlot (Suc n) i m | Some b \<Rightarrow> Some b)
     else None)"
  using ih_table.read_history [OF assms] ih_table.rd_outside [OF ih_table.ok_history [OF assms]] by simp

theorem inputhealth_latest_snapshot_witness:
  "map (\<lambda>i. map_option press_count (TryReadSlot 8 i (fold (\<lambda>(i, b). WriteSlot i b)
     [(3, ih_zero_body\<lparr>press_count := 1\<rparr>), (4, ih_zero_body), (3, ih_zero_body\<lparr>press_count := 2\<rparr>), (300, ih_zero_body)]
     (Some ih_fresh)))) [3, 300] = [Some 2, None]"
proof -
  have e: "8 = Suc 7" by simp
  show ?thesis unfolding e list.map inputhealth_latest_snapshot [OF ih_fresh_wf]
    by (simp add: ih_inside_def INPUTHEALTH_SLOT_COUNT_def)
qed

end
