(* ===== verification/InputHealth.thy ===== *)
theory InputHealth
  imports InputStats InputHealthShmem "HOL-Library.Multiset"
begin

text \<open>
  The driver side of the input-health module: the registry of components
  (\<open>InputHealthComponentRegistry.cpp\<close>), the four detours on the input interface
  (\<open>InputHealthHookInjector.cpp\<close>), reset requests and snapshots (\<open>InputHealthSnapshotStaging.cpp\<close>)
  and the publisher of the snapshots (\<open>InputHealthSnapshotPublisher.cpp\<close>). The component map is an
  association list; the order in which \<open>std::unordered_map\<close> walks it is not specified, so a step of its
  own may reorder the list at any time. What \<open>vr::VRProperties\<close> answers for the serial number of a
  container is an argument of every step that asks, \<open>None\<close> standing for any failure.
\<close>

section \<open>Registry\<close>

type_synonym component_table = "(u64 \<times> ComponentStats) list"
type_synonym serials = "u64 \<Rightarrow> string option"

definition ResolveSerialHash :: "serials \<Rightarrow> u64 \<Rightarrow> u64" where
  "ResolveSerialHash props container = (if container = 0 then 0
     else case props container of None \<Rightarrow> 0
       | Some serial \<Rightarrow> if serial = [] then 0 else Fnv1a64 serial)"

definition stick_match :: "string \<Rightarrow> AxisRole \<Rightarrow> u64 \<Rightarrow> ComponentStats \<Rightarrow> bool" where
  "stick_match stem want container peer \<longleftrightarrow> cs_is_scalar peer \<and> cs_axis_role peer = want \<and>
     cs_container_handle peer = container \<and> snd (ClassifyAxisRole (cs_path peer)) = stem"

definition FindStickPartner_locked :: "string \<Rightarrow> AxisRole \<Rightarrow> u64 \<Rightarrow> component_table \<Rightarrow> u64" where
  "FindStickPartner_locked stem this_role container t =
     (let want = (if this_role = RoleStickX then RoleStickY else RoleStickX) in
      case find (\<lambda>(h, peer). stick_match stem want container peer) t of
        None \<Rightarrow> 0 | Some (h, peer) \<Rightarrow> h)"

text \<open>\<open>operator[]\<close> of the map: an absent component starts from the default.\<close>

definition stats_at :: "u64 \<Rightarrow> component_table \<Rightarrow> ComponentStats" where
  "stats_at handle t = (case map_of t handle of None \<Rightarrow> ComponentStats_new | Some s \<Rightarrow> s)"

definition RegisterBooleanComponent :: "serials \<Rightarrow> u64 \<Rightarrow> u64 \<Rightarrow> string \<Rightarrow> component_table \<Rightarrow> component_table" where
  "RegisterBooleanComponent props handle container path t = AList.update handle
     ((stats_at handle t)\<lparr>cs_path := path, cs_is_boolean := True, cs_is_scalar := False,
        cs_first_update_logged := False, cs_container_handle := container,
        cs_device_serial_hash := ResolveSerialHash props container\<rparr>) t"

definition pair_with :: "u64 \<Rightarrow> u64 \<Rightarrow> component_table \<Rightarrow> component_table" where
  "pair_with handle partner t = AList.update handle ((stats_at handle t)\<lparr>cs_partner_handle := partner\<rparr>) t"

definition RegisterScalarComponent :: "serials \<Rightarrow> u64 \<Rightarrow> u64 \<Rightarrow> string \<Rightarrow> component_table \<Rightarrow> component_table" where
  "RegisterScalarComponent props handle container path t =
     (let (role, stem) = ClassifyAxisRole path;
          t1 = AList.update handle
            ((stats_at handle t)\<lparr>cs_path := path, cs_is_boolean := False, cs_is_scalar := True,
               cs_first_update_logged := False, cs_axis_role := role, cs_partner_handle := 0,
               cs_container_handle := container,
               cs_device_serial_hash := ResolveSerialHash props container\<rparr>) t
      in if role = RoleStickX \<or> role = RoleStickY
         then let partner = FindStickPartner_locked stem role container t1
              in if partner \<noteq> 0 then pair_with partner handle (pair_with handle partner t1) else t1
         else t1)"

section \<open>Detours\<close>

text \<open>What the original \<open>Create\<close> call returned: success, the handle it wrote, the name.\<close>

record create_call =
  cc_ok :: bool
  cc_handle :: "u64 option"
  cc_container :: u64
  cc_name :: "string option"

definition registers :: "create_call \<Rightarrow> (u64 \<times> string) option" where
  "registers c = (case (cc_handle c, cc_name c) of
       (Some h, Some name) \<Rightarrow> if cc_ok c \<and> h \<noteq> 0 then Some (h, name) else None
     | _ \<Rightarrow> None)"

definition DetourCreateBooleanComponent :: "serials \<Rightarrow> create_call \<Rightarrow> component_table \<Rightarrow> component_table" where
  "DetourCreateBooleanComponent props c t = (case registers c of None \<Rightarrow> t
     | Some (h, name) \<Rightarrow> RegisterBooleanComponent props h (cc_container c) name t)"

definition DetourCreateScalarComponent :: "serials \<Rightarrow> create_call \<Rightarrow> component_table \<Rightarrow> component_table" where
  "DetourCreateScalarComponent props c t = (case registers c of None \<Rightarrow> t
     | Some (h, name) \<Rightarrow> RegisterScalarComponent props h (cc_container c) name t)"

text \<open>The retry of a serial number that was not known at registration, at most once a second.\<close>

definition resolve_late :: "serials \<Rightarrow> u64 \<Rightarrow> ComponentStats \<Rightarrow> ComponentStats" where
  "resolve_late props now_us s =
     (if cs_device_serial_hash s = 0 \<and> now_us - cs_last_serial_resolve_attempt_us s > 1000000
      then let hash = ResolveSerialHash props (cs_container_handle s)
           in s\<lparr>cs_last_serial_resolve_attempt_us := now_us, cs_device_serial_hash := hash,
                cs_serial_resolution_logged := (cs_serial_resolution_logged s \<or> hash \<noteq> 0)\<rparr>
      else s)"

definition swallows :: "DriverConfigs \<Rightarrow> ComponentStats \<Rightarrow> bool \<Rightarrow> u64 \<Rightarrow> bool" where
  "swallows driver s newValue now_us \<longleftrightarrow> cs_device_serial_hash s \<noteq> 0 \<and>
     (case LookupInputHealthCompensation (cs_device_serial_hash s) (cs_path s) driver of
        None \<Rightarrow> False
      | Some entry \<Rightarrow> ShouldSwallowBooleanUpdate s entry newValue now_us)"

text \<open>The new table and the value handed to the original function, if it is called.\<close>

definition DetourUpdateBooleanComponent ::
    "DriverConfigs option \<Rightarrow> serials \<Rightarrow> u64 \<Rightarrow> u64 \<Rightarrow> bool \<Rightarrow> component_table \<Rightarrow> component_table \<times> bool option" where
  "DetourUpdateBooleanComponent g_driver props now_us ulComponent bNewValue t = (case g_driver of
       None \<Rightarrow> (t, Some bNewValue)
     | Some driver \<Rightarrow>
         let cfg = GetInputHealthConfig driver in
         if \<not> ihc_master_enabled cfg then (t, Some bNewValue)
         else case map_of t ulComponent of
           None \<Rightarrow> (t, Some bNewValue)
         | Some s0 \<Rightarrow>
             let s1 = ObserveBooleanSample bNewValue s0;
                 s2 = (if ihc_diagnostics_only cfg then s1 else resolve_late props now_us s1);
                 swallow = (\<not> ihc_diagnostics_only cfg \<and> swallows driver s2 bNewValue now_us);
                 s3 = (if \<not> swallow \<and> bNewValue \<noteq> cs_last_boolean s2
                       then s2\<lparr>cs_last_boolean := bNewValue, cs_last_committed_us := now_us\<rparr> else s2);
                 s4 = s3\<lparr>cs_last_update_us := now_us, cs_first_update_logged := True\<rparr>
             in (AList.update ulComponent s4 t, if swallow then None else Some bNewValue))"

text \<open>The correction at the end of the scalar detour, with its gates.\<close>

definition compensate ::
    "DriverConfigs \<Rightarrow> InputHealthConfig \<Rightarrow> ComponentStats \<Rightarrow> ComponentStats option \<Rightarrow> float32 \<Rightarrow> float32" where
  "compensate driver cfg s partnerStats fNewValue =
     (if ihc_diagnostics_only cfg \<or> cs_device_serial_hash s = 0 then fNewValue
      else case LookupInputHealthCompensation (cs_device_serial_hash s) (cs_path s) driver of
        None \<Rightarrow> fNewValue
      | Some entry \<Rightarrow>
          if ihe_kind entry = kind_code InputHealthCompBoolean then fNewValue
          else let isStick = (cs_axis_role s = RoleStickX \<or> cs_axis_role s = RoleStickY) in
            if isStick \<and> \<not> ihc_enable_rest_recenter cfg then fNewValue
            else if \<not> isStick \<and> \<not> ihc_enable_trigger_remap cfg then fNewValue
            else (case partnerStats of
                None \<Rightarrow> ApplyScalarCompensation driver entry s fNewValue 0 False []
              | Some q \<Rightarrow> ApplyScalarCompensation driver entry s fNewValue (cs_last_value q) True (cs_path q)))"

definition DetourUpdateScalarComponent ::
    "fp2 \<Rightarrow> fp2 \<Rightarrow> DriverConfigs option \<Rightarrow> serials \<Rightarrow> u64 \<Rightarrow> u64 \<Rightarrow> float32 \<Rightarrow> component_table \<Rightarrow>
      component_table \<times> float32" where
  "DetourUpdateScalarComponent hypot atan2 g_driver props now_us ulComponent fNewValue t = (case g_driver of
       None \<Rightarrow> (t, fNewValue)
     | Some driver \<Rightarrow>
         let cfg = GetInputHealthConfig driver in
         if \<not> ihc_master_enabled cfg then (t, fNewValue)
         else case map_of t ulComponent of
           None \<Rightarrow> (t, fNewValue)
         | Some s0 \<Rightarrow>
             let pit = cs_partner_handle s0;
                 (s1, partnerStats) = ObserveScalarSample hypot atan2 fNewValue now_us s0 (map_of t pit);
                 s2 = s1\<lparr>cs_first_update_logged := True\<rparr>;
                 s3 = (if ihc_diagnostics_only cfg then s2 else resolve_late props now_us s2);
                 t1 = (case partnerStats of None \<Rightarrow> t | Some q \<Rightarrow> AList.update pit q t)
             in (AList.update ulComponent s3 t1, compensate driver cfg s3 partnerStats fNewValue))"

section \<open>Snapshots and reset requests\<close>

fun role_code :: "AxisRole \<Rightarrow> byte" where
  "role_code RoleUnpaired = 0"
| "role_code RoleStickX = 1"
| "role_code RoleStickY = 2"

definition flag :: "bool \<Rightarrow> byte" where
  "flag b = (if b then 1 else 0)"

definition FillSnapshotBody :: "u64 \<Rightarrow> ComponentStats \<Rightarrow> InputHealthSnapshotBody" where
  "FillSnapshotBody handle s = \<lparr>ihb_handle = handle, container_handle = cs_container_handle s,
     device_serial_hash = cs_device_serial_hash s, partner_handle = cs_partner_handle s,
     ihb_path = take (min (length (cs_path s)) (INPUTHEALTH_PATH_LEN - 1)) (cs_path s),
     is_scalar = flag (cs_is_scalar s), is_boolean = flag (cs_is_boolean s),
     axis_role = role_code (cs_axis_role s), ph_initialized = flag (phs_initialized (cs_ph_drift s)),
     ph_triggered = flag (phs_triggered (cs_ph_drift s)),
     ph_triggered_positive = flag (phs_triggered_positive (cs_ph_drift s)),
     rest_min_initialized = flag (ewm_initialized (cs_rest_min s)), last_boolean = flag (cs_last_boolean s),
     welford_count = wf_count (cs_welford s), welford_mean = wf_mean (cs_welford s),
     welford_m2 = wf_m2 (cs_welford s), ph_mean = phs_mean (cs_ph_drift s), ph_pos = phs_pos (cs_ph_drift s),
     ph_neg = phs_neg (cs_ph_drift s), rest_min = ewm_value (cs_rest_min s), last_value = cs_last_value s,
     last_update_us = cs_last_update_us s, press_count = cs_press_count s,
     scalar_range_initialized = flag (cs_scalar_range_initialized s), observed_min = cs_observed_min s,
     observed_max = cs_observed_max s,
     polar_max_r = map (\<lambda>i. pb_max_r (ph_bins (cs_polar s) ! i)) [0..<min INPUTHEALTH_POLAR_BIN_COUNT kBinCount],
     polar_count = map (\<lambda>i. pb_count (ph_bins (cs_polar s) ! i)) [0..<min INPUTHEALTH_POLAR_BIN_COUNT kBinCount],
     polar_last_update_us =
       map (\<lambda>i. pb_last_update_us (ph_bins (cs_polar s) ! i)) [0..<min INPUTHEALTH_POLAR_BIN_COUNT kBinCount],
     polar_global_max_r = global_max_r (cs_polar s)\<rparr>"

definition StageSnapshots :: "component_table \<Rightarrow> (u64 \<times> InputHealthSnapshotBody) list" where
  "StageSnapshots t = map (\<lambda>(h, s). (h, FillSnapshotBody h s)) t"

text \<open>The three passes of a reset; the lock is released between the first and the third.\<close>

definition reset_collect :: "component_table \<Rightarrow> (u64 \<times> u64 \<times> u64) list" where
  "reset_collect t = map (\<lambda>(h, s). (h, cs_container_handle s, cs_device_serial_hash s)) t"

definition reset_resolve :: "serials \<Rightarrow> (u64 \<times> u64 \<times> u64) list \<Rightarrow> (u64 \<times> u64 \<times> u64) list" where
  "reset_resolve props snap = map (\<lambda>(h, container, hash).
     (h, container, if hash \<noteq> 0 then hash else ResolveSerialHash props container)) snap"

definition reset_entry :: "InputHealthResetStats \<Rightarrow> u64 \<Rightarrow> ComponentStats \<Rightarrow> ComponentStats" where
  "reset_entry req hash s0 =
     (let s = (if hash \<noteq> 0 \<and> cs_device_serial_hash s0 = 0 then s0\<lparr>cs_device_serial_hash := hash\<rparr> else s0)
      in if ihr_device_serial_hash req \<noteq> kSerialHashAllDevices \<and>
            cs_device_serial_hash s \<noteq> ihr_device_serial_hash req then s
         else if ihr_reset_passive req \<noteq> 0 then ComponentStatsResetPassive s else s)"

definition reset_apply :: "InputHealthResetStats \<Rightarrow> (u64 \<times> u64 \<times> u64) list \<Rightarrow> component_table \<Rightarrow> component_table" where
  "reset_apply req snap t = fold (\<lambda>(h, container, hash) t. case map_of t h of
       None \<Rightarrow> t
     | Some s \<Rightarrow> AList.update h (reset_entry req hash s) t) snap t"

text \<open>\<open>ApplyResetRequest\<close> when nothing happens between the passes.\<close>

definition ApplyResetRequest ::
    "serials \<Rightarrow> InputHealthResetStats \<Rightarrow> DriverConfigs option \<Rightarrow> component_table \<Rightarrow>
      DriverConfigs option \<times> component_table" where
  "ApplyResetRequest props req g_driver t =
     (if ihr_reset_curves req \<noteq> 0 then map_option (ClearInputHealthCompensation (ihr_device_serial_hash req)) g_driver
      else g_driver,
      reset_apply req (reset_resolve props (reset_collect t)) t)"

section \<open>Publisher\<close>

record SnapshotPublisher =
  sp_shmem :: "IHShmemData option"
  sp_running :: bool
  sp_handleToSlot :: "(u64 \<times> u32) list"
  sp_nextFreeSlot :: u32
  sp_loggedFullTable :: bool

definition SnapshotPublisher_new :: SnapshotPublisher where
  "SnapshotPublisher_new = \<lparr>sp_shmem = None, sp_running = False, sp_handleToSlot = [], sp_nextFreeSlot = 0,
     sp_loggedFullTable = False\<rparr>"

definition publish_record :: "u64 \<times> InputHealthSnapshotBody \<Rightarrow> SnapshotPublisher \<Rightarrow> SnapshotPublisher" where
  "publish_record rec p = (case map_of (sp_handleToSlot p) (fst rec) of
       Some slot \<Rightarrow> p\<lparr>sp_shmem := WriteSlot slot (snd rec) (sp_shmem p)\<rparr>
     | None \<Rightarrow>
         if sp_nextFreeSlot p \<ge> of_nat INPUTHEALTH_SLOT_COUNT then p\<lparr>sp_loggedFullTable := True\<rparr>
         else let slot = sp_nextFreeSlot p
              in p\<lparr>sp_nextFreeSlot := slot + 1, sp_handleToSlot := AList.update (fst rec) slot (sp_handleToSlot p),
                   sp_shmem := WriteSlot slot (snd rec) (sp_shmem p)\<rparr>)"

definition PublishOneTick :: "component_table \<Rightarrow> SnapshotPublisher \<Rightarrow> SnapshotPublisher" where
  "PublishOneTick t p = (let q = fold publish_record (StageSnapshots t) p
     in q\<lparr>sp_shmem := BumpPublishTick (sp_shmem q)\<rparr>)"

text \<open>\<open>mapped\<close> is what the mapped memory holds, when the segment can be created.\<close>

definition SnapshotPublisherInit :: "IHShmemData option \<Rightarrow> SnapshotPublisher \<Rightarrow> SnapshotPublisher" where
  "SnapshotPublisherInit mapped p = (if sp_running p then p
     else case mapped of
       None \<Rightarrow> p
     | Some d \<Rightarrow> p\<lparr>sp_shmem := Some (snd (fst (InputHealthSnapshotShmem_Create True True d shm_new))),
                   sp_handleToSlot := [], sp_nextFreeSlot := 0, sp_loggedFullTable := False, sp_running := True\<rparr>)"

definition SnapshotPublisherShutdown :: "SnapshotPublisher \<Rightarrow> SnapshotPublisher" where
  "SnapshotPublisherShutdown p = (if \<not> sp_running p then p
     else p\<lparr>sp_shmem := None, sp_handleToSlot := [], sp_nextFreeSlot := 0, sp_loggedFullTable := False,
            sp_running := False\<rparr>)"

section \<open>The module\<close>

record ih_system =
  iy_driver :: "DriverConfigs option"
  iy_table :: component_table
  iy_pub :: SnapshotPublisher

definition ih_system_new :: ih_system where
  "ih_system_new = \<lparr>iy_driver = None, iy_table = [], iy_pub = SnapshotPublisher_new\<rparr>"

definition InputHealth_Init :: "DriverConfigs \<Rightarrow> IHShmemData option \<Rightarrow> ih_system \<Rightarrow> ih_system" where
  "InputHealth_Init driver mapped y = y\<lparr>iy_driver := Some driver, iy_table := [],
     iy_pub := SnapshotPublisherInit mapped (iy_pub y)\<rparr>"

definition InputHealth_Shutdown :: "ih_system \<Rightarrow> ih_system" where
  "InputHealth_Shutdown y = y\<lparr>iy_pub := SnapshotPublisherShutdown (iy_pub y), iy_table := [], iy_driver := None\<rparr>"

text \<open>The steps of the module, each under the component mutex: calls of the input interface from any
  driver thread, requests, ticks of the publisher thread. \<open>IhLateReset\<close> is the third pass of a reset with the
  list collected at some earlier time, \<open>IhRehash\<close> a change of the order of the map.\<close>

datatype ih_event =
    IhInit DriverConfigs "IHShmemData option"
  | IhShutdown
  | IhCreateBoolean serials create_call
  | IhCreateScalar serials create_call
  | IhUpdateBoolean serials u64 u64 bool
  | IhUpdateScalar serials u64 u64 float32
  | IhSetConfig InputHealthConfig
  | IhSetCompensation InputHealthCompensationEntry
  | IhReset serials InputHealthResetStats
  | IhLateReset InputHealthResetStats "(u64 \<times> u64 \<times> u64) list"
  | IhPublish
  | IhRehash component_table

fun ih_step :: "fp2 \<Rightarrow> fp2 \<Rightarrow> ih_event \<Rightarrow> ih_system \<Rightarrow> ih_system" where
  "ih_step hy a2 (IhInit d mapped) y = InputHealth_Init d mapped y"
| "ih_step hy a2 IhShutdown y = InputHealth_Shutdown y"
| "ih_step hy a2 (IhCreateBoolean props c) y = y\<lparr>iy_table := DetourCreateBooleanComponent props c (iy_table y)\<rparr>"
| "ih_step hy a2 (IhCreateScalar props c) y = y\<lparr>iy_table := DetourCreateScalarComponent props c (iy_table y)\<rparr>"
| "ih_step hy a2 (IhUpdateBoolean props now h v) y =
     y\<lparr>iy_table := fst (DetourUpdateBooleanComponent (iy_driver y) props now h v (iy_table y))\<rparr>"
| "ih_step hy a2 (IhUpdateScalar props now h v) y =
     y\<lparr>iy_table := fst (DetourUpdateScalarComponent hy a2 (iy_driver y) props now h v (iy_table y))\<rparr>"
| "ih_step hy a2 (IhSetConfig c) y = y\<lparr>iy_driver := map_option (SetInputHealthConfig c) (iy_driver y)\<rparr>"
| "ih_step hy a2 (IhSetCompensation e) y = y\<lparr>iy_driver := map_option (SetInputHealthCompensation e) (iy_driver y)\<rparr>"
| "ih_step hy a2 (IhReset props req) y = (let (d, t) = ApplyResetRequest props req (iy_driver y) (iy_table y)
     in y\<lparr>iy_driver := d, iy_table := t\<rparr>)"
| "ih_step hy a2 (IhLateReset req snap) y = y\<lparr>iy_table := reset_apply req snap (iy_table y)\<rparr>"
| "ih_step hy a2 IhPublish y = (if sp_running (iy_pub y)
     then y\<lparr>iy_pub := PublishOneTick (iy_table y) (iy_pub y)\<rparr> else y)"
| "ih_step hy a2 (IhRehash t) y = (if mset t = mset (iy_table y) then y\<lparr>iy_table := t\<rparr> else y)"

section \<open>The registry invariant\<close>

definition map_ok :: "(u64 \<rightharpoonup> ComponentStats) \<Rightarrow> bool" where
  "map_ok m \<longleftrightarrow> m 0 = None \<and> (\<forall>h s. m h = Some s \<longrightarrow> stats_ok s \<and>
     (cs_partner_handle s = 0 \<or> cs_partner_handle s \<noteq> h \<and> m (cs_partner_handle s) \<noteq> None))"

definition table_ok :: "component_table \<Rightarrow> bool" where
  "table_ok t \<longleftrightarrow> distinct (map fst t) \<and> map_ok (map_of t)"

definition link_ok :: "u64 \<Rightarrow> (u64 \<rightharpoonup> ComponentStats) \<Rightarrow> ComponentStats \<Rightarrow> bool" where
  "link_ok h m s \<longleftrightarrow> cs_partner_handle s = 0 \<or> cs_partner_handle s \<noteq> h \<and> m (cs_partner_handle s) \<noteq> None"

lemma map_ok_update:
  assumes "map_ok m" "h \<noteq> 0" "stats_ok s" "link_ok h m s"
  shows "map_ok (m(h \<mapsto> s))"
  unfolding map_ok_def
proof (intro conjI allI impI)
  show "(m(h \<mapsto> s)) 0 = None" using assms by (simp add: map_ok_def)
  fix k u assume k: "(m(h \<mapsto> s)) k = Some u"
  show "stats_ok u" using k assms by (cases "k = h") (auto simp: map_ok_def)
  show "cs_partner_handle u = 0 \<or> cs_partner_handle u \<noteq> k \<and> (m(h \<mapsto> s)) (cs_partner_handle u) \<noteq> None"
    using k assms by (cases "k = h") (fastforce simp: map_ok_def link_ok_def)+
qed

lemma table_ok_update:
  "table_ok t \<Longrightarrow> h \<noteq> 0 \<Longrightarrow> stats_ok s \<Longrightarrow> link_ok h (map_of t) s \<Longrightarrow> table_ok (AList.update h s t)"
  by (simp add: table_ok_def update_conv' distinct_update map_ok_update)

lemma map_okD: "map_ok m \<Longrightarrow> m h = Some s \<Longrightarrow> h \<noteq> 0 \<and> stats_ok s \<and> link_ok h m s"
  by (fastforce simp: map_ok_def link_ok_def)

lemma table_okD:
  "table_ok t \<Longrightarrow> map_of t h = Some s \<Longrightarrow> h \<noteq> 0 \<and> stats_ok s \<and> link_ok h (map_of t) s"
  unfolding table_ok_def using map_okD by blast

lemma stats_at_ok: "table_ok t \<Longrightarrow> stats_ok (stats_at h t) \<and> link_ok h (map_of t) (stats_at h t)"
  using table_okD [of t h] by (auto simp: stats_at_def link_ok_def ComponentStats_new_def split: option.splits)
    (metis ComponentStats_new_def stats_ok_new(1))

lemma stats_ok_fields [simp]:
  "stats_ok (s\<lparr>cs_path := a\<rparr>) = stats_ok s" "stats_ok (s\<lparr>cs_is_boolean := b\<rparr>) = stats_ok s"
  "stats_ok (s\<lparr>cs_is_scalar := b\<rparr>) = stats_ok s" "stats_ok (s\<lparr>cs_first_update_logged := b\<rparr>) = stats_ok s"
  "stats_ok (s\<lparr>cs_container_handle := c\<rparr>) = stats_ok s" "stats_ok (s\<lparr>cs_device_serial_hash := c\<rparr>) = stats_ok s"
  "stats_ok (s\<lparr>cs_axis_role := r\<rparr>) = stats_ok s" "stats_ok (s\<lparr>cs_partner_handle := c\<rparr>) = stats_ok s"
  "stats_ok (s\<lparr>cs_last_serial_resolve_attempt_us := c\<rparr>) = stats_ok s"
  "stats_ok (s\<lparr>cs_serial_resolution_logged := b\<rparr>) = stats_ok s" "stats_ok (s\<lparr>cs_press_count := c\<rparr>) = stats_ok s"
  "stats_ok (s\<lparr>cs_pending_state := b\<rparr>) = stats_ok s" "stats_ok (s\<lparr>cs_last_boolean := b\<rparr>) = stats_ok s"
  "stats_ok (s\<lparr>cs_last_committed_us := c\<rparr>) = stats_ok s" "stats_ok (s\<lparr>cs_last_update_us := c\<rparr>) = stats_ok s"
  by (simp_all add: stats_ok_def)

lemma table_ok_boolean:
  "table_ok t \<Longrightarrow> h \<noteq> 0 \<Longrightarrow> table_ok (RegisterBooleanComponent props h c path t)"
  unfolding RegisterBooleanComponent_def
  by (rule table_ok_update) (use stats_at_ok in \<open>auto simp: link_ok_def\<close>)

lemma FindStickPartner_sound:
  assumes "FindStickPartner_locked stem role c t = p" "p \<noteq> 0" "distinct (map fst t)" "role \<noteq> RoleUnpaired"
  shows "\<exists>q. map_of t p = Some q \<and> cs_is_scalar q \<and> cs_axis_role q \<noteq> role \<and> cs_axis_role q \<noteq> RoleUnpaired \<and>
    cs_container_handle q = c \<and> snd (ClassifyAxisRole (cs_path q)) = stem"
proof -
  obtain q where f: "find (\<lambda>(h, peer). stick_match stem (if role = RoleStickX then RoleStickY else RoleStickX) c peer) t =
      Some (p, q)"
    using assms(1,2) by (auto simp: FindStickPartner_locked_def Let_def split: option.splits)
  then have "(p, q) \<in> set t" "stick_match stem (if role = RoleStickX then RoleStickY else RoleStickX) c q"
    by (auto simp: find_Some_iff in_set_conv_nth)
  then show ?thesis using assms(3,4) by (auto simp: stick_match_def split: if_splits)
qed

lemma table_ok_pair:
  assumes "table_ok t" "map_of t h = Some s" "map_of t p = Some q" "h \<noteq> p"
  shows "table_ok (pair_with p h (pair_with h p t))"
proof -
  have t1: "table_ok (pair_with h p t)" unfolding pair_with_def
    using assms table_okD [OF assms(1,2)] by (intro table_ok_update) (auto simp: stats_at_def link_ok_def)
  moreover have "map_of (pair_with h p t) p = Some q"
    using assms by (simp add: pair_with_def update_conv')
  moreover have "map_of (pair_with h p t) h \<noteq> None" by (simp add: pair_with_def update_conv')
  ultimately show ?thesis unfolding pair_with_def [of p]
    using assms table_okD [of "pair_with h p t" p q] by (intro table_ok_update) (auto simp: stats_at_def link_ok_def)
qed

lemma table_ok_scalar:
  assumes "table_ok t" "h \<noteq> 0"
  shows "table_ok (RegisterScalarComponent props h c path t)"
proof -
  obtain role stem where cl: "ClassifyAxisRole path = (role, stem)" by fastforce
  define s where "s = (stats_at h t)\<lparr>cs_path := path, cs_is_boolean := False, cs_is_scalar := True,
     cs_first_update_logged := False, cs_axis_role := role, cs_partner_handle := 0,
     cs_container_handle := c, cs_device_serial_hash := ResolveSerialHash props c\<rparr>"
  define t1 where "t1 = AList.update h s t"
  have t1: "table_ok t1" using assms stats_at_ok [OF assms(1)]
    by (auto simp: t1_def s_def link_ok_def intro!: table_ok_update)
  have h: "map_of t1 h = Some s" by (simp add: t1_def update_conv')
  have "table_ok (pair_with p h (pair_with h p t1))" if pr: "p = FindStickPartner_locked stem role c t1" "p \<noteq> 0"
    "role \<noteq> RoleUnpaired" for p
  proof -
    have "distinct (map fst t1)" using t1 by (simp add: table_ok_def)
    then obtain q where "map_of t1 p = Some q" "cs_axis_role q \<noteq> role"
      using FindStickPartner_sound [of stem role c t1 p] pr by blast
    moreover from this h have "h \<noteq> p" by (auto simp: s_def)
    ultimately show ?thesis using table_ok_pair [OF t1 h] by blast
  qed
  moreover have "RegisterScalarComponent props h c path t = (if role = RoleStickX \<or> role = RoleStickY
    then let p = FindStickPartner_locked stem role c t1
         in if p \<noteq> 0 then pair_with p h (pair_with h p t1) else t1 else t1)"
    by (simp add: RegisterScalarComponent_def cl Let_def s_def t1_def)
  ultimately show ?thesis using t1 by (auto simp: Let_def)
qed

lemma resolve_late_ok [simp]:
  "stats_ok (resolve_late props now s) = stats_ok s" "cs_partner_handle (resolve_late props now s) = cs_partner_handle s"
  by (simp_all add: resolve_late_def Let_def)

lemma ObserveBooleanSample_ok [simp]:
  "stats_ok (ObserveBooleanSample v s) = stats_ok s" "cs_partner_handle (ObserveBooleanSample v s) = cs_partner_handle s"
  by (simp_all add: ObserveBooleanSample_def)

lemma table_ok_update_boolean:
  "table_ok t \<Longrightarrow> table_ok (fst (DetourUpdateBooleanComponent g props now h v t))"
  by (auto simp: DetourUpdateBooleanComponent_def Let_def link_ok_def dest: table_okD intro!: table_ok_update
      split: option.splits)

lemma observe_own_partner [simp]: "cs_partner_handle (observe_own x s) = cs_partner_handle s"
  by (simp add: observe_defs)

lemma ObserveScalarSample_links:
  "ObserveScalarSample hy a2 x now s p = (s', p') \<Longrightarrow> cs_partner_handle s' = cs_partner_handle s \<and>
     map_option cs_partner_handle p' = map_option cs_partner_handle p"
  by (auto simp: ObserveScalarSample_def Let_def split: AxisRole.splits option.splits if_splits)

lemma table_ok_update_scalar:
  assumes t: "table_ok t"
  shows "table_ok (fst (DetourUpdateScalarComponent hy a2 g props now h v t))"
proof -
  have "table_ok (AList.update h s'' (case p' of None \<Rightarrow> t | Some q \<Rightarrow> AList.update (cs_partner_handle s) q t))"
    if s: "map_of t h = Some s"
      and o: "ObserveScalarSample hy a2 v now s (map_of t (cs_partner_handle s)) = (s', p')"
      and s'': "stats_ok s'' = stats_ok s'" "cs_partner_handle s'' = cs_partner_handle s'" for s s' s'' p'
  proof -
    note ok = table_okD [OF t s] and links = ObserveScalarSample_links [OF o]
    have st: "stats_ok s' \<and> (\<forall>q. p' = Some q \<longrightarrow> stats_ok q)"
      using ok table_okD [OF t] by (intro ObserveScalarSample_ok [OF _ _ o]) auto
    show ?thesis
    proof (cases p')
      case None
      then show ?thesis using t ok st s'' links by (auto simp: link_ok_def intro!: table_ok_update)
    next
      case (Some q)
      then obtain q0 where q0: "map_of t (cs_partner_handle s) = Some q0" "cs_partner_handle q = cs_partner_handle q0"
        using links by (cases "map_of t (cs_partner_handle s)") auto
      have t1: "table_ok (AList.update (cs_partner_handle s) q t)"
        using t st Some q0 table_okD [OF t q0(1)] by (auto simp: link_ok_def intro!: table_ok_update)
      show ?thesis using Some t1 st s'' links ok by (auto simp: link_ok_def update_conv' intro!: table_ok_update)
    qed
  qed
  from this [OF _ _ refl refl] this show ?thesis using t
    by (auto simp: DetourUpdateScalarComponent_def Let_def split: option.split prod.split)
qed

lemma reset_entry_ok [simp]:
  "stats_ok s \<Longrightarrow> stats_ok (reset_entry req hash s)" "cs_partner_handle (reset_entry req hash s) = cs_partner_handle s"
proof -
  have "cs_partner_handle (ComponentStatsResetPassive u) = cs_partner_handle u" for u
    by (simp add: ComponentStatsResetPassive_def)
  then show "stats_ok s \<Longrightarrow> stats_ok (reset_entry req hash s)"
    "cs_partner_handle (reset_entry req hash s) = cs_partner_handle s"
    by (simp_all add: reset_entry_def Let_def)
qed

lemma table_ok_reset: "table_ok t \<Longrightarrow> table_ok (reset_apply req snap t)"
  unfolding reset_apply_def
proof (induction snap arbitrary: t)
  case (Cons e snap)
  obtain h c hash where e: "e = (h, c, hash)" by (cases e)
  have "table_ok (AList.update h (reset_entry req hash s) t)" if "map_of t h = Some s" for s
    using table_okD [OF Cons.prems that] Cons.prems by (intro table_ok_update) (auto simp: link_ok_def)
  then show ?case using Cons by (auto simp: e split: option.split)
qed simp

lemma table_ok_perm: "mset t' = mset t \<Longrightarrow> table_ok t \<Longrightarrow> table_ok t'"
proof -
  assume p: "mset t' = mset t" and t: "table_ok t"
  have d: "distinct (map fst t')" using p t by (metis mset_eq_imp_distinct_iff mset_map table_ok_def)
  moreover have "map_of t' = map_of t"
    using p t d by (intro map_of_inject_set [THEN iffD2]) (auto simp: table_ok_def dest: mset_eq_setD)
  ultimately show ?thesis using t by (simp add: table_ok_def)
qed

section \<open>The publisher\<close>

definition pub_ok :: "SnapshotPublisher \<Rightarrow> bool" where
  "pub_ok p \<longleftrightarrow> (sp_running p \<longrightarrow> ih_wf (sp_shmem p)) \<and> unat (sp_nextFreeSlot p) \<le> INPUTHEALTH_SLOT_COUNT \<and>
     (\<forall>h i. map_of (sp_handleToSlot p) h = Some i \<longrightarrow> i < sp_nextFreeSlot p) \<and>
     (\<forall>h k i. map_of (sp_handleToSlot p) h = Some i \<longrightarrow> map_of (sp_handleToSlot p) k = Some i \<longrightarrow> h = k)"

definition full :: "SnapshotPublisher \<Rightarrow> bool" where
  "full p \<longleftrightarrow> unat (sp_nextFreeSlot p) = INPUTHEALTH_SLOT_COUNT"

definition delivered :: "nat \<Rightarrow> u64 \<times> InputHealthSnapshotBody \<Rightarrow> SnapshotPublisher \<Rightarrow> bool" where
  "delivered n r p \<longleftrightarrow> (case map_of (sp_handleToSlot p) (fst r) of
       Some i \<Rightarrow> TryReadSlot (Suc n) i (sp_shmem p) = Some (snd r)
     | None \<Rightarrow> full p)"

lemma slot_inside: "pub_ok p \<Longrightarrow> map_of (sp_handleToSlot p) h = Some i \<Longrightarrow> ih_inside i"
  unfolding pub_ok_def ih_inside_def by (metis less_le_trans word_less_nat_alt)

lemma publish_record_step:
  assumes p: "pub_ok p" "sp_running p"
  shows "pub_ok (publish_record r p)" "sp_running (publish_record r p)"
    "map_of (sp_handleToSlot p) \<subseteq>\<^sub>m map_of (sp_handleToSlot (publish_record r p))"
    "delivered n r (publish_record r p)"
    "fst r \<noteq> fst r' \<Longrightarrow> delivered n r' p \<Longrightarrow> delivered n r' (publish_record r p)"
proof -
  let ?m = "map_of (sp_handleToSlot p)" and ?N = "sp_nextFreeSlot p"
  have wf: "ih_wf (sp_shmem p)" using p by (simp add: pub_ok_def)
  note rd = ih_table.rd_same [OF wf] ih_table.rd_other [OF wf] ih_table.ok_wr_at [OF wf]
  consider (known) i where "?m (fst r) = Some i" | (full) "?m (fst r) = None" "?N \<ge> of_nat INPUTHEALTH_SLOT_COUNT"
    | (new) "?m (fst r) = None" "?N < of_nat INPUTHEALTH_SLOT_COUNT" by fastforce
  then have "pub_ok (publish_record r p) \<and> sp_running (publish_record r p) \<and>
    ?m \<subseteq>\<^sub>m map_of (sp_handleToSlot (publish_record r p)) \<and> delivered n r (publish_record r p) \<and>
    (fst r \<noteq> fst r' \<longrightarrow> delivered n r' p \<longrightarrow> delivered n r' (publish_record r p))"
  proof cases
    case known
    have "j \<noteq> i" if "?m k = Some j" "fst r \<noteq> k" for j k using p known that by (auto simp: pub_ok_def)
    then show ?thesis using p known rd slot_inside [OF p(1) known]
      by (auto simp: publish_record_def pub_ok_def delivered_def full_def split: option.splits)
  next
    case full
    then have "unat ?N = INPUTHEALTH_SLOT_COUNT"
      using p by (simp add: pub_ok_def word_le_nat_alt INPUTHEALTH_SLOT_COUNT_def)
    then show ?thesis using p full
      by (auto simp: publish_record_def pub_ok_def delivered_def full_def split: option.splits)
  next
    case new
    have N: "unat (?N + 1) = unat ?N + 1" by (rule unat_inc [OF new(2)])
    have N': "unat ?N < INPUTHEALTH_SLOT_COUNT" using new(2) by (simp add: word_less_nat_alt INPUTHEALTH_SLOT_COUNT_def)
    have lt: "j < ?N + 1" if "j < ?N" for j using that N by (simp add: word_less_nat_alt)
    have fresh: "?m k \<noteq> Some ?N" for k using p(1) by (force simp: pub_ok_def)
    have inN: "ih_inside ?N" using N' by (simp add: ih_inside_def)
    have m': "map_of (sp_handleToSlot (publish_record r p)) = ?m(fst r \<mapsto> ?N)"
      "sp_nextFreeSlot (publish_record r p) = ?N + 1" "sp_running (publish_record r p)"
      "sp_shmem (publish_record r p) = WriteSlot ?N (snd r) (sp_shmem p)"
      using new p(2) by (auto simp: publish_record_def Let_def update_conv' not_le)
    have "pub_ok (publish_record r p)" unfolding pub_ok_def m' using p(1) N N' lt fresh rd(3)
      by (fastforce simp: pub_ok_def word_less_nat_alt split: if_splits)
    moreover have "?m \<subseteq>\<^sub>m ?m(fst r \<mapsto> ?N)" using new(1) by (auto simp: map_le_def dom_def)
    moreover have "delivered n r (publish_record r p)" using rd(1) [OF inN] by (simp add: delivered_def m')
    moreover have "delivered n r' (publish_record r p)" if d: "fst r \<noteq> fst r'" "delivered n r' p"
    proof (cases "?m (fst r')")
      case None
      then show ?thesis using d N' by (simp add: delivered_def full_def)
    next
      case (Some j)
      then have "?N \<noteq> j" using fresh by auto
      then show ?thesis using d Some rd(2) by (simp add: delivered_def m')
    qed
    ultimately show ?thesis using m' by simp
  qed
  then show "pub_ok (publish_record r p)" "sp_running (publish_record r p)"
    "?m \<subseteq>\<^sub>m map_of (sp_handleToSlot (publish_record r p))" "delivered n r (publish_record r p)"
    "fst r \<noteq> fst r' \<Longrightarrow> delivered n r' p \<Longrightarrow> delivered n r' (publish_record r p)" by blast+
qed

lemma publish_run:
  assumes "pub_ok p" "sp_running p" "distinct (map fst rs)"
  shows "pub_ok (fold publish_record rs p) \<and> sp_running (fold publish_record rs p) \<and>
    map_of (sp_handleToSlot p) \<subseteq>\<^sub>m map_of (sp_handleToSlot (fold publish_record rs p)) \<and>
    (\<forall>r \<in> set rs. delivered n r (fold publish_record rs p))"
  using assms(3)
proof (induction rs rule: rev_induct)
  case (snoc r rs)
  let ?q = "fold publish_record rs p"
  have q: "pub_ok ?q" "sp_running ?q" "map_of (sp_handleToSlot p) \<subseteq>\<^sub>m map_of (sp_handleToSlot ?q)"
    "\<forall>r \<in> set rs. delivered n r ?q" using snoc by auto
  note step = publish_record_step [OF q(1,2)]
  have "\<forall>r' \<in> set rs. delivered n r' (publish_record r ?q)"
  proof
    fix r' assume r': "r' \<in> set rs"
    then have "fst r \<noteq> fst r'" using snoc.prems by force
    then show "delivered n r' (publish_record r ?q)" using q(4) r' step(5) by blast
  qed
  then show ?case using step(1,2,4) map_le_trans [OF q(3) step(3)] by simp
qed (use assms in simp)

lemma BumpPublishTick_wf [simp]: "ih_wf (BumpPublishTick m) = ih_wf m"
  by (cases m) (simp_all add: BumpPublishTick_def ih_wf_def)

lemma BumpPublishTick_read [simp]: "TryReadSlot n i (BumpPublishTick m) = TryReadSlot n i m"
  by (cases m) (simp_all add: BumpPublishTick_def TryReadSlot_def)

lemma bump_pub [simp]:
  "pub_ok (q\<lparr>sp_shmem := BumpPublishTick (sp_shmem q)\<rparr>) = pub_ok q"
  "delivered n r (q\<lparr>sp_shmem := BumpPublishTick (sp_shmem q)\<rparr>) = delivered n r q"
  by (simp_all add: pub_ok_def delivered_def full_def split: option.split)

lemma PublishOneTick_ok:
  assumes "table_ok t" "pub_ok p" "sp_running p"
  shows "pub_ok (PublishOneTick t p) \<and> sp_running (PublishOneTick t p) \<and>
    map_of (sp_handleToSlot p) \<subseteq>\<^sub>m map_of (sp_handleToSlot (PublishOneTick t p)) \<and>
    (\<forall>h s. map_of t h = Some s \<longrightarrow> delivered n (h, FillSnapshotBody h s) (PublishOneTick t p))"
proof -
  have "map fst (StageSnapshots t) = map fst t" by (auto simp: StageSnapshots_def)
  then have d: "distinct (map fst (StageSnapshots t))" using assms(1) by (simp add: table_ok_def)
  note run = publish_run [OF assms(2,3) d, of n]
  have "(h, FillSnapshotBody h s) \<in> set (StageSnapshots t)" if "map_of t h = Some s" for h s
    using map_of_SomeD [OF that] by (auto simp: StageSnapshots_def)
  then show ?thesis using run by (auto simp: PublishOneTick_def Let_def)
qed

section \<open>Every run of the module\<close>

text \<open>The environment's part: a mapped segment has 256 slots, none of them left half-written.\<close>

definition mapped_ok :: "IHShmemData \<Rightarrow> bool" where
  "mapped_ok d \<longleftrightarrow> length (ih_slots d) = INPUTHEALTH_SLOT_COUNT \<and> (\<forall>s \<in> set (ih_slots d). even (generation s))"

fun event_ok :: "ih_event \<Rightarrow> bool" where
  "event_ok (IhInit d mapped) \<longleftrightarrow> comp_inv d \<and> (\<forall>m. mapped = Some m \<longrightarrow> mapped_ok m)"
| "event_ok _ \<longleftrightarrow> True"

definition system_ok :: "ih_system \<Rightarrow> bool" where
  "system_ok y \<longleftrightarrow> table_ok (iy_table y) \<and> pub_ok (iy_pub y) \<and> (\<forall>d. iy_driver y = Some d \<longrightarrow> comp_inv d)"

lemma table_ok_Nil [simp]: "table_ok []"
  by (simp add: table_ok_def map_ok_def)

lemma pub_ok_init: "pub_ok p \<Longrightarrow> (\<And>m. mapped = Some m \<Longrightarrow> mapped_ok m) \<Longrightarrow> pub_ok (SnapshotPublisherInit mapped p)"
  by (auto simp: SnapshotPublisherInit_def pub_ok_def InputHealthSnapshotShmem_Create_def shm_Create_def shm_defs
      ih_wf_def mapped_ok_def split: option.splits)

lemma pub_ok_shutdown: "pub_ok p \<Longrightarrow> pub_ok (SnapshotPublisherShutdown p)"
  by (auto simp: SnapshotPublisherShutdown_def pub_ok_def)

lemma comp_inv_config: "comp_inv d \<Longrightarrow> comp_inv (SetInputHealthConfig c d)"
  by (simp add: comp_inv_def comp_map_def SetInputHealthConfig_def)

lemma ih_step_ok:
  assumes "system_ok y" "event_ok ev"
  shows "system_ok (ih_step hy a2 ev y)"
proof (cases ev)
  case (IhInit d m)
  then show ?thesis using assms by (auto simp: system_ok_def InputHealth_Init_def pub_ok_init)
next
  case IhShutdown
  then show ?thesis using assms by (auto simp: system_ok_def InputHealth_Shutdown_def pub_ok_shutdown)
next
  case (IhCreateBoolean props c)
  then show ?thesis using assms
    by (auto simp: system_ok_def DetourCreateBooleanComponent_def registers_def table_ok_boolean split: option.splits if_splits)
next
  case (IhCreateScalar props c)
  then show ?thesis using assms
    by (auto simp: system_ok_def DetourCreateScalarComponent_def registers_def table_ok_scalar split: option.splits if_splits)
next
  case IhPublish
  then show ?thesis using assms PublishOneTick_ok by (auto simp: system_ok_def)
next
  case (IhReset props req)
  then show ?thesis using assms
    by (auto simp: system_ok_def ApplyResetRequest_def table_ok_reset comp_inv_clear split: if_splits)
qed (use assms in \<open>auto simp: system_ok_def table_ok_update_boolean table_ok_update_scalar comp_inv_config comp_inv_set
    table_ok_reset table_ok_perm\<close>)

lemma system_ok_new: "system_ok ih_system_new"
  by (simp add: system_ok_def ih_system_new_def SnapshotPublisher_new_def pub_ok_def)

lemma ih_run_ok: "\<forall>ev \<in> set evs. event_ok ev \<Longrightarrow> system_ok y \<Longrightarrow> system_ok (fold (ih_step hy a2) evs y)"
  by (induction evs arbitrary: y) (simp_all add: ih_step_ok)

text \<open>C9. The input-health module. In every run of registrations, updates, requests, resets and
  publisher ticks, in any order and for any samples (NaN and infinities too): no component has handle 0 and
  none is registered twice; a paired axis points to another registered component, never to itself; the drift
  accumulators are non-negative, an envelope has 36 bins of at most 256 samples none of which exceeds the
  global maximum; no two handles share a snapshot slot, every slot is inside the table, and the compensation
  table holds only entries that were allowed.\<close>

theorem inputhealth_module_invariant:
  assumes "\<forall>ev \<in> set evs. event_ok ev"
  shows "system_ok (fold (ih_step hypot atan2) evs ih_system_new)"
  using ih_run_ok [OF assms system_ok_new] .

definition ih_demo_create :: "u64 \<Rightarrow> string \<Rightarrow> create_call" where
  "ih_demo_create h name = \<lparr>cc_ok = True, cc_handle = Some h, cc_container = 5, cc_name = Some name\<rparr>"

definition ih_demo_cfg :: InputHealthConfig where
  "ih_demo_cfg = \<lparr>ihc_master_enabled = True, ihc_diagnostics_only = False, ihc_enable_rest_recenter = True,
     ihc_enable_trigger_remap = True\<rparr>"

definition ih_demo_events :: "ih_event list" where
  "ih_demo_events = [IhInit DriverConfigs_new (Some ih_fresh), IhSetConfig ih_demo_cfg,
     IhCreateScalar (\<lambda>_. Some ''LHR-1'') (ih_demo_create 11 ''/input/joystick/x''),
     IhCreateScalar (\<lambda>_. None) (ih_demo_create 12 ''/input/joystick/y''),
     IhUpdateScalar (\<lambda>_. None) 1000 11 (Fin (1 / 2)), IhUpdateScalar (\<lambda>_. None) 2000 12 FNaN]"

lemma mapped_ok_fresh: "mapped_ok ih_fresh"
  using ih_fresh_wf by (auto simp: mapped_ok_def ih_wf_def)

lemma ih_demo_events_ok: "\<forall>ev \<in> set ih_demo_events. event_ok ev"
  by (simp add: ih_demo_events_def mapped_ok_fresh comp_inv_new)

theorem inputhealth_module_invariant_witness:
  "system_ok (fold (ih_step (\<lambda>x y. x) (\<lambda>y x. 0)) ih_demo_events ih_system_new)"
  by (rule inputhealth_module_invariant [OF ih_demo_events_ok])

text \<open>C35. Snapshots. A tick of the publisher in any reachable state leaves, for every registered
  component, its current statistics readable in the component's own slot, unless all 256 slots belong to
  other components; a component that has a slot keeps it.\<close>

theorem publish_tick_delivers:
  fixes evs hypot atan2
  defines "y \<equiv> fold (ih_step hypot atan2) evs ih_system_new"
  defines "y' \<equiv> ih_step hypot atan2 IhPublish y"
  assumes "\<forall>ev \<in> set evs. event_ok ev" "sp_running (iy_pub y)" "map_of (iy_table y) h = Some s"
  shows "(case map_of (sp_handleToSlot (iy_pub y')) h of
       Some i \<Rightarrow> TryReadSlot (Suc n) i (sp_shmem (iy_pub y')) = Some (FillSnapshotBody h s)
     | None \<Rightarrow> unat (sp_nextFreeSlot (iy_pub y')) = INPUTHEALTH_SLOT_COUNT) \<and>
    map_of (sp_handleToSlot (iy_pub y)) \<subseteq>\<^sub>m map_of (sp_handleToSlot (iy_pub y'))"
proof -
  have "system_ok y" using ih_run_ok [OF assms(3) system_ok_new] by (simp add: y_def)
  then have "table_ok (iy_table y)" "pub_ok (iy_pub y)" by (simp_all add: system_ok_def)
  note tick = PublishOneTick_ok [OF this assms(4), of n]
  then have "delivered n (h, FillSnapshotBody h s) (iy_pub y')" using assms(4,5) by (simp add: y'_def)
  then show ?thesis using tick assms(4) by (simp add: y'_def delivered_def full_def cong: option.case_cong)
qed

definition ih_demo_button :: "ih_event list" where
  "ih_demo_button = [IhInit DriverConfigs_new (Some ih_fresh), IhSetConfig ih_demo_cfg,
     IhCreateBoolean (\<lambda>_. Some ''LHR-1'') (ih_demo_create 7 ''/input/a/click'')]"

definition ih_demo_stats :: ComponentStats where
  "ih_demo_stats = ComponentStats_new\<lparr>cs_path := ''/input/a/click'', cs_is_boolean := True, cs_container_handle := 5,
     cs_device_serial_hash := Fnv1a64 ''LHR-1''\<rparr>"

theorem publish_tick_delivers_witness:
  "\<exists>i. TryReadSlot 3 i (sp_shmem (iy_pub (ih_step (\<lambda>x y. x) (\<lambda>y x. 0) IhPublish
     (fold (ih_step (\<lambda>x y. x) (\<lambda>y x. 0)) ih_demo_button ih_system_new)))) = Some (FillSnapshotBody 7 ih_demo_stats)"
proof -
  let ?y = "fold (ih_step (\<lambda>x y. x) (\<lambda>y x. 0)) ih_demo_button ih_system_new"
  have ok: "\<forall>ev \<in> set ih_demo_button. event_ok ev"
    by (simp add: ih_demo_button_def mapped_ok_fresh comp_inv_new)
  have y: "iy_table ?y = [(7, ih_demo_stats)]" "sp_running (iy_pub ?y)" "sp_handleToSlot (iy_pub ?y) = []"
    "sp_nextFreeSlot (iy_pub ?y) = 0"
    by (simp_all add: ih_demo_button_def ih_system_new_def InputHealth_Init_def SnapshotPublisherInit_def
        SnapshotPublisher_new_def DetourCreateBooleanComponent_def registers_def ih_demo_create_def
        RegisterBooleanComponent_def stats_at_def ResolveSerialHash_def ih_demo_stats_def ComponentStats_new_def)
  have "map_of (sp_handleToSlot (iy_pub (ih_step (\<lambda>x y. x) (\<lambda>y x. 0) IhPublish ?y))) 7 = Some 0"
    using y by (simp add: PublishOneTick_def StageSnapshots_def publish_record_def Let_def INPUTHEALTH_SLOT_COUNT_def)
  then show ?thesis using publish_tick_delivers [OF ok y(2), of 7 ih_demo_stats 2] y(1) by auto
qed

section \<open>Buttons\<close>

text \<open>What reaches the runtime from a sequence of updates of one component, and the times at which the value
  the runtime sees changes.\<close>

fun button_feed :: "DriverConfigs \<Rightarrow> u64 \<Rightarrow> (serials \<times> u64 \<times> bool) list \<Rightarrow> component_table \<Rightarrow> (u64 \<times> bool) list" where
  "button_feed d h [] t = []"
| "button_feed d h ((props, now, v) # us) t =
     (let (t', out) = DetourUpdateBooleanComponent (Some d) props now h v t
      in (case out of None \<Rightarrow> [] | Some w \<Rightarrow> [(now, w)]) @ button_feed d h us t')"

fun changes :: "bool \<Rightarrow> (u64 \<times> bool) list \<Rightarrow> u64 list" where
  "changes b [] = []"
| "changes b ((now, v) # xs) = (if v \<noteq> b then now # changes v xs else changes b xs)"

text \<open>The settings under which presses of a component are debounced with the interval of \<open>e\<close>.\<close>

definition debounces :: "DriverConfigs \<Rightarrow> ComponentStats \<Rightarrow> InputHealthCompensationEntry \<Rightarrow> bool" where
  "debounces d s e \<longleftrightarrow> ihc_master_enabled (GetInputHealthConfig d) \<and> \<not> ihc_diagnostics_only (GetInputHealthConfig d) \<and>
     cs_device_serial_hash s \<noteq> 0 \<and> LookupInputHealthCompensation (cs_device_serial_hash s) (cs_path s) d = Some e \<and>
     ihe_kind e = kind_code InputHealthCompBoolean \<and> ihe_learned_debounce_us e \<noteq> 0"

lemma boolean_step:
  assumes "map_of t h = Some s" "debounces d s e"
    and "DetourUpdateBooleanComponent (Some d) props now h v t = (t', out)"
  shows "\<exists>s'. map_of t' h = Some s' \<and> debounces d s' e \<and>
    (let swallow = (v \<noteq> cs_last_boolean s \<and> cs_last_committed_us s \<noteq> 0 \<and>
           now - cs_last_committed_us s < ucast (ihe_learned_debounce_us e));
         change = (v \<noteq> cs_last_boolean s \<and> \<not> swallow)
     in out = (if swallow then None else Some v) \<and>
        cs_last_boolean s' = (if change then v else cs_last_boolean s) \<and>
        cs_last_committed_us s' = (if change then now else cs_last_committed_us s))"
proof -
  have res: "resolve_late props now (ObserveBooleanSample v s) = ObserveBooleanSample v s" for v
    using assms(2) by (simp add: resolve_late_def debounces_def ObserveBooleanSample_def)
  have f: "cs_device_serial_hash (ObserveBooleanSample v s) = cs_device_serial_hash s"
    "cs_path (ObserveBooleanSample v s) = cs_path s" "cs_last_boolean (ObserveBooleanSample v s) = cs_last_boolean s"
    "cs_last_committed_us (ObserveBooleanSample v s) = cs_last_committed_us s" for v
    by (simp_all add: ObserveBooleanSample_def)
  show ?thesis using assms
    by (auto simp: DetourUpdateBooleanComponent_def Let_def debounces_def res f swallows_def
        ShouldSwallowBooleanUpdate_def update_conv')
qed

lemma button_feed_gaps:
  assumes "map_of t h = Some s" "debounces d s e" "\<forall>(props, now, v) \<in> set us. now \<noteq> 0"
  shows "successively (\<lambda>a b. ucast (ihe_learned_debounce_us e) \<le> b - a)
    ((if cs_last_committed_us s = 0 then [] else [cs_last_committed_us s]) @ changes (cs_last_boolean s) (button_feed d h us t))"
  using assms
proof (induction us arbitrary: t s)
  case (Cons u us)
  obtain props now v where u: "u = (props, now, v)" by (cases u)
  obtain t' out where st: "DetourUpdateBooleanComponent (Some d) props now h v t = (t', out)" by fastforce
  obtain s' where s': "map_of t' h = Some s'" "debounces d s' e" and
    out: "out = (if v \<noteq> cs_last_boolean s \<and> cs_last_committed_us s \<noteq> 0 \<and>
           now - cs_last_committed_us s < ucast (ihe_learned_debounce_us e) then None else Some v)" and
    lb: "out = None \<longrightarrow> cs_last_boolean s' = cs_last_boolean s" "out \<noteq> None \<longrightarrow> cs_last_boolean s' = v" and
    lc: "out \<noteq> None \<and> v \<noteq> cs_last_boolean s \<longrightarrow> cs_last_committed_us s' = now"
      "\<not> (out \<noteq> None \<and> v \<noteq> cs_last_boolean s) \<longrightarrow> cs_last_committed_us s' = cs_last_committed_us s"
    using boolean_step [OF Cons.prems(1,2) st] by (auto simp: Let_def split: if_splits)
  have IH: "successively (\<lambda>a b. ucast (ihe_learned_debounce_us e) \<le> b - a)
    ((if cs_last_committed_us s' = 0 then [] else [cs_last_committed_us s']) @
      changes (cs_last_boolean s') (button_feed d h us t'))"
    using Cons.IH [OF s'] Cons.prems(3) by simp
  have now: "now \<noteq> 0" using Cons.prems(3) by (simp add: u)
  show ?case
  proof (cases "out \<noteq> None \<and> v \<noteq> cs_last_boolean s")
    case True
    then have "cs_last_committed_us s = 0 \<or> ucast (ihe_learned_debounce_us e) \<le> now - cs_last_committed_us s"
      using out by (auto simp: not_less split: if_splits)
    then show ?thesis using IH True st out lb lc now by (auto simp: u split: if_splits)
  next
    case False
    then show ?thesis using IH st out lb lc by (auto simp: u split: if_splits)
  qed
qed simp

text \<open>Debouncing. While debouncing is active for a component, the changes of a button that reach
  the runtime are at least the learned interval apart, whatever the hardware reports and whenever it does.\<close>

theorem debounce_spacing:
  assumes "map_of t h = Some s" "debounces d s e" "\<forall>(props, now, v) \<in> set us. now \<noteq> 0"
  shows "successively (\<lambda>a b. ucast (ihe_learned_debounce_us e) \<le> b - a)
    (changes (cs_last_boolean s) (button_feed d h us t))"
  using button_feed_gaps [OF assms] by (auto simp: successively_Cons split: if_splits)

definition ih_demo_entry :: "string \<Rightarrow> byte \<Rightarrow> InputHealthCompensationEntry" where
  "ih_demo_entry path kind = \<lparr>ihe_device_serial_hash = 9, ihe_path = path, ihe_kind = kind, ihe_enabled = 1,
     ihe_learned_rest_offset = 0, ihe_learned_trigger_min = 0, ihe_learned_trigger_max = 0,
     ihe_learned_deadzone_radius = 0, ihe_learned_debounce_us = 5000\<rparr>"

definition ih_demo_driver :: "string \<Rightarrow> byte \<Rightarrow> DriverConfigs" where
  "ih_demo_driver path kind = SetInputHealthConfig ih_demo_cfg
     (DriverConfigs_new\<lparr>inputHealthComp := [(9, [(path, ih_demo_entry path kind)])]\<rparr>)"

lemma ih_config_roundtrip: "GetInputHealthConfig (SetInputHealthConfig c d) = c"
proof -
  have "byte_at (pack_ih c) i = [bool_byte (ihc_master_enabled c), bool_byte (ihc_diagnostics_only c),
      bool_byte (ihc_enable_rest_recenter c), bool_byte (ihc_enable_trigger_remap c)] ! i" if "i < 4" for i
    unfolding pack_ih_def using that by (subst byte_at_le64) simp_all
  then show ?thesis by (simp add: GetInputHealthConfig_def SetInputHealthConfig_def)
qed

lemma ih_demo_driver_simps:
  "GetInputHealthConfig (ih_demo_driver path kind) = ih_demo_cfg"
  "path \<noteq> [] \<Longrightarrow> LookupInputHealthCompensation 9 path (ih_demo_driver path kind) = Some (ih_demo_entry path kind)"
  by (simp_all add: ih_demo_driver_def ih_config_roundtrip LookupInputHealthCompensation_def)
    (simp add: SetInputHealthConfig_def ih_demo_entry_def)

text \<open>A press, a bounce that is swallowed, and a release that falls into the interval: the runtime is left with
  the button pressed although the hardware has released it.\<close>

theorem debounce_spacing_witness:
  "let s = ComponentStats_new\<lparr>cs_path := ''/input/a/click'', cs_device_serial_hash := 9\<rparr>;
       d = ih_demo_driver ''/input/a/click'' 3;
       feed = button_feed d 7 [(\<lambda>_. None, 1000000, True), (\<lambda>_. None, 1001000, False)] [(7, s)]
   in successively (\<lambda>a b. 5000 \<le> b - a) (changes False feed) \<and> feed = [(1000000, True)]"
proof -
  let ?s = "ComponentStats_new\<lparr>cs_path := ''/input/a/click'', cs_device_serial_hash := 9\<rparr>"
  let ?d = "ih_demo_driver ''/input/a/click'' 3"
  let ?us = "[(\<lambda>_. None, 1000000, True), (\<lambda>_. None, 1001000, False)]"
  have deb: "debounces ?d ?s (ih_demo_entry ''/input/a/click'' 3)"
    by (simp add: debounces_def ih_demo_driver_simps ih_demo_cfg_def) (simp add: ih_demo_entry_def)
  have "button_feed ?d 7 ?us [(7, ?s)] = [(1000000, True)]"
    by (simp add: DetourUpdateBooleanComponent_def ih_demo_driver_simps Let_def ih_demo_cfg_def ObserveBooleanSample_def
        resolve_late_def swallows_def ShouldSwallowBooleanUpdate_def ComponentStats_new_def ih_demo_entry_def)
  then show ?thesis using debounce_spacing [of "[(7, ?s)]" 7 ?s ?d _ ?us, OF _ deb]
    by (simp add: Let_def ComponentStats_new_def)
qed

section \<open>Axes\<close>

lemma ApplyScalarCompensation_range:
  "IsTriggerLikePath (cs_path s) \<Longrightarrow> 0 \<le> ApplyScalarCompensation d e s x pv hp pp \<and> ApplyScalarCompensation d e s x pv hp pp \<le> 1"
  "\<not> IsTriggerLikePath (cs_path s) \<Longrightarrow> entry_is_stick e \<Longrightarrow>
     - 1 \<le> ApplyScalarCompensation d e s x pv hp pp \<and> ApplyScalarCompensation d e s x pv hp pp \<le> 1"
  using ClampFloat_range [of 0 1] ClampFloat_range [of "- 1" 1]
  by (simp_all add: ApplyScalarCompensation_def trigger_remap_def Let_def zero_fp_def one_fp_def)

text \<open>C37. Axes. The value handed to the runtime differs from the reading only when the module is
  enabled beyond diagnostics, the component is registered with a known serial number, and an enabled entry for
  exactly this device and path is in the table, for a path that may be corrected: eye and face paths are never
  changed. A corrected trigger lies in [0,1] and a corrected stick axis in [-1,1], for every reading, NaN and
  infinities included.\<close>

theorem axis_correction_safe:
  assumes "comp_inv d" "DetourUpdateScalarComponent hypot atan2 (Some d) props now h x t = (t', out)" "out \<noteq> x"
  shows "\<exists>s e. map_of t' h = Some s \<and> ihc_master_enabled (GetInputHealthConfig d) \<and>
    \<not> ihc_diagnostics_only (GetInputHealthConfig d) \<and> comp_map d (cs_device_serial_hash s, cs_path s) = Some e \<and>
    cs_device_serial_hash s \<noteq> 0 \<and> IsCompensationPath (ClassifyInputPath (cs_path s)) \<and> ihe_kind e \<noteq> 3 \<and>
    (IsTriggerLikePath (cs_path s) \<longrightarrow> 0 \<le> out \<and> out \<le> 1) \<and>
    (\<not> IsTriggerLikePath (cs_path s) \<and> entry_is_stick e \<longrightarrow> - 1 \<le> out \<and> out \<le> 1)"
proof -
  let ?cfg = "GetInputHealthConfig d"
  obtain s q where s: "map_of t' h = Some s" "ihc_master_enabled ?cfg" "out = compensate d ?cfg s q x"
    using assms(2,3) by (auto simp: DetourUpdateScalarComponent_def Let_def update_conv' split: if_splits option.splits prod.splits)
  have g: "\<not> ihc_diagnostics_only ?cfg" "cs_device_serial_hash s \<noteq> 0"
    using s(3) assms(3) by (auto simp: compensate_def)
  obtain e where e: "LookupInputHealthCompensation (cs_device_serial_hash s) (cs_path s) d = Some e" "ihe_kind e \<noteq> 3"
    "\<exists>pv hp pp. out = ApplyScalarCompensation d e s x pv hp pp"
    using s(3) assms(3) g by (auto simp: compensate_def Let_def split: option.splits if_splits)
  have m: "comp_map d (cs_device_serial_hash s, cs_path s) = Some e"
    using e(1) Lookup_comp_map [OF assms(1)] by simp
  then have "IsCompensationPath (ClassifyInputPath (cs_path s))"
    using assms(1) by (auto simp: comp_inv_def entry_allowed_def)
  then show ?thesis using s(1,2) g m e(2,3) ApplyScalarCompensation_range by metis
qed

theorem axis_correction_safe_witness:
  "let s = ComponentStats_new\<lparr>cs_path := ''/input/trigger/value'', cs_is_scalar := True, cs_device_serial_hash := 9\<rparr>;
       out = snd (DetourUpdateScalarComponent (\<lambda>x y. x) (\<lambda>y x. 0) (Some (ih_demo_driver ''/input/trigger/value'' 0))
         (\<lambda>_. None) 1000 7 (Fin 2) [(7, s)])
   in out \<noteq> Fin 2 \<and> IsCompensationPath (ClassifyInputPath ''/input/trigger/value'') \<and> 0 \<le> out \<and> out \<le> 1"
proof -
  let ?p = "''/input/trigger/value''"
  let ?s = "ComponentStats_new\<lparr>cs_path := ?p, cs_is_scalar := True, cs_device_serial_hash := 9\<rparr>"
  obtain t' out where st: "DetourUpdateScalarComponent (\<lambda>x y. x) (\<lambda>y x. 0) (Some (ih_demo_driver ?p 0))
    (\<lambda>_. None) 1000 7 (Fin 2) [(7, ?s)] = (t', out)" by fastforce
  have path: "IsTriggerLikePath ?p" "IsCompensationPath (ClassifyInputPath ?p)" by code_simp+
  have inv: "comp_inv (ih_demo_driver ?p 0)"
    using path(2) by (auto simp: comp_inv_def comp_map_def entry_allowed_def ih_demo_driver_def SetInputHealthConfig_def
        ih_demo_entry_def split: if_splits)
  have own: "cs_path (observe_own (Fin 2) ?s) = ?p" "cs_device_serial_hash (observe_own (Fin 2) ?s) = 9"
    "cs_axis_role (observe_own (Fin 2) ?s) = RoleUnpaired" "cs_partner_handle ?s = 0"
    by (simp_all add: observe_defs ComponentStats_new_def)
  have o: "out = 1" and s: "map_option cs_path (map_of t' 7) = Some ?p"
    using st path(1) own
    by (auto simp: DetourUpdateScalarComponent_def ih_demo_driver_simps ih_demo_cfg_def ObserveScalarSample_def Let_def
        resolve_late_def compensate_def ApplyScalarCompensation_def trigger_remap_def ih_demo_entry_def ClampFloat_def
        std_max_def std_min_def zero_fp_def one_fp_def)
  then have ne: "out \<noteq> Fin 2" by (simp add: one_fp_def)
  from axis_correction_safe [OF inv st ne] s path have "0 \<le> out \<and> out \<le> 1" by auto
  with ne path(2) show ?thesis by (simp only: st Let_def snd_conv) simp
qed

section \<open>Reset requests\<close>

lemma reset_apply_at:
  assumes "distinct (map fst snap)"
  shows "map_of (reset_apply req snap t) h = (case map_of t h of None \<Rightarrow> None
    | Some s \<Rightarrow> Some (case map_of snap h of None \<Rightarrow> s | Some (c, hash) \<Rightarrow> reset_entry req hash s))"
  using assms
proof (induction snap arbitrary: t)
  case Nil
  then show ?case by (simp add: reset_apply_def split: option.split)
next
  case (Cons e snap)
  obtain k c hash where e: "e = (k, c, hash)" by (cases e)
  let ?t = "case map_of t k of None \<Rightarrow> t | Some s \<Rightarrow> AList.update k (reset_entry req hash s) t"
  have "reset_apply req (e # snap) t = reset_apply req snap ?t" by (simp add: reset_apply_def e)
  moreover have "map_of snap k = None" using Cons.prems by (auto simp: e map_of_eq_None_iff)
  ultimately show ?case using Cons.IH [of ?t] Cons.prems
    by (cases "h = k") (auto simp: e update_conv' split: option.splits)
qed

text \<open>Reset. A request clears the statistics of exactly the components that belong to the named
  device, by their known serial number or the one that can be resolved now, or of all of them when it names
  every device; it keeps their identity and pairing, leaves the others as they were except for a newly
  resolved serial number, registers and removes nothing, and clears the learned corrections of exactly the
  named device when asked to.\<close>

theorem reset_request_exact:
  assumes "table_ok t" "ApplyResetRequest props req (Some d) t = (g', t')"
  shows "map_of t' h = map_option (\<lambda>s.
      let hash = (if cs_device_serial_hash s \<noteq> 0 then cs_device_serial_hash s
                  else ResolveSerialHash props (cs_container_handle s));
          s1 = s\<lparr>cs_device_serial_hash := hash\<rparr>
      in if ihr_reset_passive req \<noteq> 0 \<and> (ihr_device_serial_hash req = 0 \<or> hash = ihr_device_serial_hash req)
         then ComponentStatsResetPassive s1 else s1) (map_of t h) \<and>
    (\<exists>d'. g' = Some d' \<and> (\<forall>k. comp_map d' k =
      (if ihr_reset_curves req \<noteq> 0 \<and> (ihr_device_serial_hash req = 0 \<or> fst k = ihr_device_serial_hash req)
       then None else comp_map d k)))"
proof
  let ?hash = "\<lambda>s. if cs_device_serial_hash s \<noteq> 0 then cs_device_serial_hash s
    else ResolveSerialHash props (cs_container_handle s)"
  have same: "u\<lparr>cs_device_serial_hash := x\<rparr> = u" if "cs_device_serial_hash u = x" for u :: ComponentStats and x
    using that by (cases u) simp
  define snap where "snap = reset_resolve props (reset_collect t)"
  have keys: "map fst snap = map fst t" by (simp add: snap_def reset_resolve_def reset_collect_def case_prod_beta)
  have "snap = map (\<lambda>(h, s). (h, cs_container_handle s, ?hash s)) t"
    by (simp add: snap_def reset_resolve_def reset_collect_def case_prod_beta)
  then have at: "map_of snap h = map_option (\<lambda>s. (cs_container_handle s, ?hash s)) (map_of t h)"
    by (simp add: map_of_map)
  have "t' = reset_apply req snap t" using assms(2) by (simp add: ApplyResetRequest_def snap_def)
  moreover have "distinct (map fst snap)" using assms(1) keys by (simp add: table_ok_def)
  ultimately show "map_of t' h = map_option (\<lambda>s. let hash = ?hash s; s1 = s\<lparr>cs_device_serial_hash := hash\<rparr>
      in if ihr_reset_passive req \<noteq> 0 \<and> (ihr_device_serial_hash req = 0 \<or> hash = ihr_device_serial_hash req)
         then ComponentStatsResetPassive s1 else s1) (map_of t h)"
    using reset_apply_at [of snap req t h] at
    by (auto simp: reset_entry_def Let_def kSerialHashAllDevices_def split: option.splits) (simp_all add: same)
  show "\<exists>d'. g' = Some d' \<and> (\<forall>k. comp_map d' k =
      (if ihr_reset_curves req \<noteq> 0 \<and> (ihr_device_serial_hash req = 0 \<or> fst k = ihr_device_serial_hash req)
       then None else comp_map d k))"
    using assms(2) by (auto simp: ApplyResetRequest_def comp_map_clear split: if_splits)
qed

theorem reset_request_exact_witness:
  "let t = [(7, ih_demo_stats\<lparr>cs_press_count := 4, cs_device_serial_hash := 2\<rparr>), (8, ih_demo_stats\<lparr>cs_press_count := 6, cs_device_serial_hash := 3\<rparr>)];
       req = \<lparr>ihr_device_serial_hash = 3, ihr_reset_passive = 1, ihr_reset_active = 0, ihr_reset_curves = 0\<rparr>;
       t' = snd (ApplyResetRequest (\<lambda>_. None) req (Some DriverConfigs_new) t)
   in map_option cs_press_count (map_of t' 7) = Some 4 \<and> map_option cs_press_count (map_of t' 8) = Some 0"
proof -
  let ?t = "[(7, ih_demo_stats\<lparr>cs_press_count := 4, cs_device_serial_hash := 2\<rparr>), (8, ih_demo_stats\<lparr>cs_press_count := 6, cs_device_serial_hash := 3\<rparr>)]"
  let ?req = "\<lparr>ihr_device_serial_hash = 3, ihr_reset_passive = 1, ihr_reset_active = 0, ihr_reset_curves = 0\<rparr>"
  obtain g' t' where a: "ApplyResetRequest (\<lambda>_. None) ?req (Some DriverConfigs_new) ?t = (g', t')" by fastforce
  have cleared: "cs_press_count (ComponentStatsResetPassive u) = 0" for u by (simp add: ComponentStatsResetPassive_def)
  have "stats_ok ih_demo_stats" "cs_partner_handle ih_demo_stats = 0"
    by (simp_all add: ih_demo_stats_def) (simp add: ComponentStats_new_def)
  then have ok: "table_ok ?t" by (auto simp: table_ok_def map_ok_def split: if_splits)
  show ?thesis
    using reset_request_exact [OF ok a, of 7] reset_request_exact [OF ok a, of 8] by (simp add: Let_def a cleared)
qed

end
