(* ===== verification/FaceFrameShmem.thy ===== *)
theory FaceFrameShmem
  imports Protocol ShmemSegment Seqlock
begin

text \<open>
  \<open>protocol::FaceTrackingFrameShmem\<close>: the 32-slot ring through which the face-tracking host
  hands frames to the driver, with the host's liveness fields, and the remapping of the 88
  upstream expression shapes to the driver's 63
  (\<open>core/src/common/facetracking/UpstreamShapeMap.h\<close>). The wire body and the driver's body
  differ only in the length of the expression array, so they share a record.
\<close>

section \<open>Data\<close>

definition FACETRACKING_EXPRESSION_COUNT :: nat where
  "FACETRACKING_EXPRESSION_COUNT = 63"

definition FACETRACKING_UPSTREAM_EXPRESSION_COUNT :: nat where
  "FACETRACKING_UPSTREAM_EXPRESSION_COUNT = 88"

type_synonym vec3f = "float32 \<times> float32 \<times> float32"

record FaceTrackingFrameBody =
  qpc_sample_time :: u64
  source_module_uuid_hash :: u64
  eye_origin_l :: vec3f
  eye_origin_r :: vec3f
  eye_gaze_l :: vec3f
  eye_gaze_r :: vec3f
  eye_openness_l :: float32
  eye_openness_r :: float32
  pupil_dilation_l :: float32
  pupil_dilation_r :: float32
  eye_confidence_l :: float32
  eye_confidence_r :: float32
  expressions :: "float32 list"
  ff_flags :: u32
  head_yaw :: float32
  head_pitch :: float32
  head_roll :: float32
  head_pos_x :: float32
  head_pos_y :: float32
  head_pos_z :: float32
  head_flags :: u32

text \<open>A wire body is such a record with 88 expressions, a driver body one with 63.\<close>

type_synonym FaceTrackingFrameBodyWire = FaceTrackingFrameBody

type_synonym FaceTrackingFrameSlot = "FaceTrackingFrameBodyWire seq_slot"

definition HostStateLegacy :: u32 where
  "HostStateLegacy = 0"

definition HostStatePublishing :: u32 where
  "HostStatePublishing = 1"

definition HostStateIdle :: u32 where
  "HostStateIdle = 2"

definition HostStateDraining :: u32 where
  "HostStateDraining = 3"

definition FT_SHMEM_MAGIC :: u32 where
  "FT_SHMEM_MAGIC = 0x46544652"

definition FT_SHMEM_VERSION :: u32 where
  "FT_SHMEM_VERSION = 3"

definition RING_SIZE :: nat where
  "RING_SIZE = 32"

record FTShmemData =
  ft_magic :: u32
  ft_version :: u32
  ft_ring_size :: u32
  ft_host_state :: u32
  ft_host_heartbeat_qpc :: u64
  ft_publish_index :: u64
  ft_slots :: "FaceTrackingFrameSlot list"

section \<open>Life cycle\<close>

definition FaceTrackingFrameShmem_Create ::
    "bool \<Rightarrow> bool \<Rightarrow> FTShmemData \<Rightarrow> shm_client \<Rightarrow> (shm_client \<times> FTShmemData) \<times> bool" where
  "FaceTrackingFrameShmem_Create f m d c = (let (c1, ok) = shm_Create f m c
     in ((c1, if ok then d\<lparr>ft_magic := FT_SHMEM_MAGIC, ft_version := FT_SHMEM_VERSION,
           ft_ring_size := of_nat RING_SIZE\<rparr> else d), ok))"

definition FaceTrackingFrameShmem_Open ::
    "bool \<Rightarrow> bool \<Rightarrow> u32 \<times> u32 \<Rightarrow> shm_client \<Rightarrow> shm_client \<times> shmem_error option" where
  "FaceTrackingFrameShmem_Open = shm_Open FT_SHMEM_MAGIC FT_SHMEM_VERSION"

interpretation ft_seg: shm_class FaceTrackingFrameShmem_Open FT_SHMEM_MAGIC FT_SHMEM_VERSION
  unfolding FaceTrackingFrameShmem_Open_def by (rule shm_Open_class)

section \<open>Operations\<close>

definition RingSize :: "FTShmemData option \<Rightarrow> u32" where
  "RingSize pData = (case pData of None \<Rightarrow> 0 | Some d \<Rightarrow> ft_ring_size d)"

definition PublishIndex :: "FTShmemData option \<Rightarrow> u64" where
  "PublishIndex pData = (case pData of None \<Rightarrow> 0 | Some d \<Rightarrow> ft_publish_index d)"

definition HostHeartbeatQpc :: "FTShmemData option \<Rightarrow> u64" where
  "HostHeartbeatQpc pData = (case pData of None \<Rightarrow> 0 | Some d \<Rightarrow> ft_host_heartbeat_qpc d)"

definition HostStateField :: "FTShmemData option \<Rightarrow> u32" where
  "HostStateField pData = (case pData of None \<Rightarrow> HostStateLegacy | Some d \<Rightarrow> ft_host_state d)"

definition ResetHostLiveness :: "FTShmemData option \<Rightarrow> FTShmemData option" where
  "ResetHostLiveness = map_option (\<lambda>d. d\<lparr>ft_host_state := HostStateLegacy, ft_host_heartbeat_qpc := 0\<rparr>)"

definition ring_slot :: "u64 \<Rightarrow> nat" where
  "ring_slot idx = unat (idx - 1) mod RING_SIZE"

definition TryReadLatestWire :: "nat \<Rightarrow> FTShmemData option \<Rightarrow> FaceTrackingFrameBodyWire option" where
  "TryReadLatestWire max_retries pData = (case pData of None \<Rightarrow> None | Some d \<Rightarrow>
     let idx = ft_publish_index d in
     if idx = 0 then None else seq_try_read max_retries (ft_slots d ! ring_slot idx))"

text \<open>The guard of \<open>TryReadWireByIndex\<close>, evaluated on the index loaded at its start.\<close>

definition index_in_window :: "u64 \<Rightarrow> u64 \<Rightarrow> bool" where
  "index_in_window target now \<longleftrightarrow> target \<noteq> 0 \<and> \<not> target > now \<and> \<not> now - target \<ge> of_nat RING_SIZE"

definition TryReadWireByIndex :: "nat \<Rightarrow> u64 \<Rightarrow> FTShmemData option \<Rightarrow> FaceTrackingFrameBodyWire option" where
  "TryReadWireByIndex max_retries target pData = (case pData of None \<Rightarrow> None | Some d \<Rightarrow>
     if index_in_window target (ft_publish_index d)
     then seq_try_read max_retries (ft_slots d ! ring_slot target) else None)"

definition Publish :: "FaceTrackingFrameBodyWire \<Rightarrow> FTShmemData option \<Rightarrow> FTShmemData option" where
  "Publish body = map_option (\<lambda>d. let nxt = ft_publish_index d + 1; i = ring_slot nxt in
     d\<lparr>ft_slots := (ft_slots d)[i := seq_write body (ft_slots d ! i)], ft_publish_index := nxt\<rparr>)"

section \<open>Shape remapping\<close>

definition kUpstreamToOurs :: "int list" where
  "kUpstreamToOurs =
    [11, 10, 9, 8, 19, 18, 13, 12, 15, 14, 17, 16, - 1, - 1, - 1, - 1, - 1, - 1, 21, 20, 23, 22, 26, 
     29, 28, 27, - 1, - 1, - 1, 40, 31, 30, 33, 32, - 1, - 1, 35, 34, 37, 36, 39, 38, - 1, - 1, - 1, 
     - 1, - 1, - 1, 25, 24, - 1, - 1, 42, 41, 44, 43, 46, 45, - 1, - 1, 48, 47, 50, 49, 52, 51, 53, 
     54, 56, 55, 58, 57, 59, 60, 61, - 1, 62, - 1, - 1, - 1, - 1, - 1, - 1, - 1, - 1, - 1, - 1, - 1]"

text \<open>\<open>RemapUpstreamShapes\<close>: one pass over the upstream shapes, storing into the destination.\<close>

definition remap_one :: "float32 list \<Rightarrow> nat \<Rightarrow> float32 list \<Rightarrow> float32 list" where
  "remap_one src u dst = (let oi = kUpstreamToOurs ! u; v = src ! u in
     if oi < 0 \<or> oi \<ge> int FACETRACKING_EXPRESSION_COUNT then dst
     else if \<not> isfinite v then dst
     else dst[nat oi := std_clamp v 0 1])"

definition RemapUpstreamShapes :: "float32 list \<Rightarrow> float32 list \<Rightarrow> float32 list" where
  "RemapUpstreamShapes src dst = fold (remap_one src) [0..<FACETRACKING_UPSTREAM_EXPRESSION_COUNT] dst"

section \<open>The ring as a history of frames\<close>

definition ft_ok :: "FaceTrackingFrameBodyWire list \<Rightarrow> FTShmemData \<Rightarrow> bool" where
  "ft_ok h d \<longleftrightarrow> length (ft_slots d) = RING_SIZE \<and> (\<forall>s \<in> set (ft_slots d). even (generation s)) \<and>
     length h < 2 ^ 64 \<and> ft_publish_index d = of_nat (length h) \<and>
     (\<forall>k < length h. length h \<le> k + RING_SIZE \<longrightarrow> slot_body (ft_slots d ! (k mod RING_SIZE)) = h ! k)"

lemma RING_SIZE_pos [simp]: "0 < RING_SIZE"
  by (simp add: RING_SIZE_def)

lemma ring_slot_Suc: "k < 2 ^ 64 \<Longrightarrow> ring_slot (of_nat (Suc k)) = k mod RING_SIZE"
  using unat_of_nat_u64 [of k] by (simp add: ring_slot_def)

lemma Publish_ft_ok:
  assumes ok: "ft_ok h d" and len: "length h + 1 < 2 ^ 64"
  shows "\<exists>d'. Publish b (Some d) = Some d' \<and> ft_ok (h @ [b]) d'"
proof -
  let ?n = "length h" and ?i = "length h mod RING_SIZE"
  let ?d = "d\<lparr>ft_slots := (ft_slots d)[?i := seq_write b (ft_slots d ! ?i)], ft_publish_index := of_nat (Suc ?n)\<rparr>"
  have i: "ring_slot (of_nat (Suc ?n)) = ?i" using len by (intro ring_slot_Suc) simp
  have nxt: "ft_publish_index d + 1 = of_nat (Suc ?n)" using ok by (simp add: ft_ok_def)
  have p: "Publish b (Some d) = Some ?d"
    unfolding Publish_def option.map Let_def nxt i ..
  have il: "?i < length (ft_slots d)" using ok by (simp add: ft_ok_def)
  have "slot_body (ft_slots ?d ! (k mod RING_SIZE)) = (h @ [b]) ! k"
    if "k < Suc ?n" "Suc ?n \<le> k + RING_SIZE" for k
  proof (cases "k = ?n")
    case True
    then show ?thesis using il by simp
  next
    case False
    then have "?i \<noteq> k mod RING_SIZE" using that by (intro mod_neq_window) auto
    then show ?thesis using ok that False by (auto simp: ft_ok_def nth_append)
  qed
  moreover have "even (generation s)" if "s \<in> set (ft_slots ?d)" for s
    using that ok il by (auto simp: ft_ok_def dest!: set_list_updateD)
  ultimately have "ft_ok (h @ [b]) ?d" using ok len by (simp add: ft_ok_def)
  with p show ?thesis by blast
qed

lemma fold_Publish_ft_ok:
  assumes "ft_ok h d" "length h + length bs < 2 ^ 64"
  shows "\<exists>d'. fold Publish bs (Some d) = Some d' \<and> ft_ok (h @ bs) d'"
  using assms
proof (induction bs arbitrary: h d)
  case (Cons b bs)
  obtain d1 where "Publish b (Some d) = Some d1" "ft_ok (h @ [b]) d1"
    using Publish_ft_ok [OF Cons.prems(1), of b] Cons.prems(2) by auto
  with Cons.IH [of "h @ [b]" d1] Cons.prems(2) show ?case by simp
qed simp

lemma ft_ok_slot:
  assumes "ft_ok h d" "k < length h" "length h \<le> k + RING_SIZE"
  shows "seq_try_read (Suc n) (ft_slots d ! ring_slot (of_nat (Suc k))) = Some (h ! k)"
proof -
  have r: "ring_slot (of_nat (Suc k)) = k mod RING_SIZE"
    using assms by (intro ring_slot_Suc) (auto simp: ft_ok_def)
  have "ft_slots d ! (k mod RING_SIZE) \<in> set (ft_slots d)" using assms by (auto simp: ft_ok_def)
  then have "even (generation (ft_slots d ! (k mod RING_SIZE)))" using assms(1) by (simp add: ft_ok_def)
  then show ?thesis unfolding r using assms by (simp add: ft_ok_def)
qed

lemma index_in_window_nat:
  assumes "n < 2 ^ 64" "k < 2 ^ 64"
  shows "index_in_window (of_nat k) (of_nat n) \<longleftrightarrow> 0 < k \<and> k \<le> n \<and> n - k < RING_SIZE"
proof -
  have z: "(of_nat k :: u64) = 0 \<longleftrightarrow> k = 0"
  proof
    assume "(of_nat k :: u64) = 0"
    then have "unat (of_nat k :: u64) = 0" by (simp only: unsigned_0)
    then show "k = 0" using unat_of_nat_u64 [OF assms(2)] by simp
  qed simp
  have lt: "(of_nat n < (of_nat k :: u64)) = (n < k)" using assms by (simp add: of_nat_less_u64)
  have gap: "(of_nat RING_SIZE \<le> (of_nat n :: u64) - of_nat k) = (RING_SIZE \<le> n - k)" if "k \<le> n"
    using that assms of_nat_diff_u64 [OF that] of_nat_less_u64 [of "n - k" RING_SIZE]
    by (simp add: not_less [symmetric] RING_SIZE_def)
  show ?thesis unfolding index_in_window_def z lt using gap by (cases "k \<le> n") auto
qed

definition ft_fresh :: "FaceTrackingFrameBodyWire \<Rightarrow> FTShmemData" where
  "ft_fresh z = \<lparr>ft_magic = FT_SHMEM_MAGIC, ft_version = FT_SHMEM_VERSION, ft_ring_size = of_nat RING_SIZE,
     ft_host_state = HostStateLegacy, ft_host_heartbeat_qpc = 0, ft_publish_index = 0,
     ft_slots = replicate RING_SIZE \<lparr>generation = 0, slot_body = z\<rparr>\<rparr>"

lemma ft_ok_fresh: "ft_ok [] (ft_fresh z)"
  by (simp add: ft_ok_def ft_fresh_def)

section \<open>Remapping lemmas\<close>

lemma fold_update_other:
  "(\<And>u. u \<in> set us \<Longrightarrow> P u \<Longrightarrow> f u \<noteq> x) \<Longrightarrow>
    fold (\<lambda>u d. if P u then d[f u := g u] else d) us dst ! x = dst ! x"
  by (induction us arbitrary: dst) auto

lemma fold_update_hit:
  assumes "u \<in> set us" "P u" "f u < length dst"
    "\<And>v. v \<in> set us \<Longrightarrow> P v \<Longrightarrow> f v = f u \<Longrightarrow> v = u"
  shows "fold (\<lambda>u d. if P u then d[f u := g u] else d) us dst ! (f u) = g u"
  using assms
proof (induction us arbitrary: dst)
  case (Cons v us)
  show ?case
  proof (cases "u \<in> set us")
    case True
    then show ?thesis using Cons by auto
  next
    case False
    then have vu: "v = u" using Cons.prems(1) by simp
    have "f w \<noteq> f u" if "w \<in> set us" "P w" for w using that Cons.prems(4) [of w] False by auto
    then have "fold (\<lambda>u d. if P u then d[f u := g u] else d) us (dst[f u := g u]) ! f u = dst[f u := g u] ! f u"
      by (rule fold_update_other)
    then show ?thesis using Cons.prems(2,3) by (simp add: vu)
  qed
qed simp

lemma length_fold_update [simp]:
  "length (fold (\<lambda>u d. if P u then d[f u := g u] else d) us dst) = length dst"
  by (induction us arbitrary: dst) auto

definition remap_hits :: "float32 list \<Rightarrow> nat \<Rightarrow> bool" where
  "remap_hits src u \<longleftrightarrow> 0 \<le> kUpstreamToOurs ! u \<and> kUpstreamToOurs ! u < 63 \<and> isfinite (src ! u)"

lemma remap_one_eq:
  "remap_one src u dst =
    (if remap_hits src u then dst[nat (kUpstreamToOurs ! u) := std_clamp (src ! u) 0 1] else dst)"
  by (auto simp: remap_one_def remap_hits_def Let_def FACETRACKING_EXPRESSION_COUNT_def)

lemma RemapUpstreamShapes_eq:
  "RemapUpstreamShapes src dst = fold (\<lambda>u d. if remap_hits src u
     then d[nat (kUpstreamToOurs ! u) := std_clamp (src ! u) 0 1] else d) [0..<88] dst"
  unfolding RemapUpstreamShapes_def remap_one_eq [abs_def] FACETRACKING_UPSTREAM_EXPRESSION_COUNT_def ..

text \<open>No slot of the driver is the target of two upstream shapes, and every target exists.\<close>

lemma upstream_targets_distinct:
  "distinct (filter (\<lambda>x. 0 \<le> x) kUpstreamToOurs)" "list_all (\<lambda>x. x < 63) kUpstreamToOurs"
  "length kUpstreamToOurs = 88"
  by (simp_all add: kUpstreamToOurs_def)

lemma nth_inj_of_filter:
  assumes "distinct (filter P xs)" "i < length xs" "j < length xs" "P (xs ! i)" "xs ! i = xs ! j"
  shows "i = j"
  using assms
proof (induction xs arbitrary: i j)
  case (Cons x xs)
  have m: "y \<in> set (filter P xs)" if "k < length xs" "P (xs ! k)" "xs ! k = y" for k y using that by auto
  show ?case
  proof (cases i)
    case 0
    then show ?thesis using Cons.prems m [of "j - 1" x] by (cases j) auto
  next
    case (Suc k)
    then show ?thesis using Cons.prems m [of k x] Cons.IH [of k "j - 1"]
      by (cases j) (auto split: if_splits)
  qed
qed simp

lemma upstream_target_inj:
  assumes "u < 88" "v < 88" "0 \<le> kUpstreamToOurs ! u" "kUpstreamToOurs ! u = kUpstreamToOurs ! v"
  shows "u = v"
  using nth_inj_of_filter [OF upstream_targets_distinct(1)] upstream_targets_distinct(3) assms by metis

lemma std_clamp_01_bounds: "isfinite v \<Longrightarrow> (0 :: float32) \<le> std_clamp v 0 1 \<and> std_clamp v 0 1 \<le> 1"
  by (cases v) (auto simp: std_clamp_def zero_fp_def one_fp_def)

section \<open>Properties\<close>

text \<open>Frame ring. After any number of published frames below \<open>2^64\<close>, reading the latest
  frame returns the last one published, and reading by index returns exactly the frame published
  under that index when it is among the last 32, and nothing otherwise.\<close>

theorem face_ring_lookback:
  assumes "length bs < 2 ^ 64" "k < 2 ^ 64"
  shows "TryReadLatestWire (Suc n) (fold Publish bs (Some (ft_fresh z))) =
      (if bs = [] then None else Some (last bs)) \<and>
    TryReadWireByIndex (Suc n) (of_nat k) (fold Publish bs (Some (ft_fresh z))) =
      (if 0 < k \<and> k \<le> length bs \<and> length bs - k < RING_SIZE then Some (bs ! (k - 1)) else None)"
proof -
  obtain d where d: "fold Publish bs (Some (ft_fresh z)) = Some d" "ft_ok bs d"
    using fold_Publish_ft_ok [OF ft_ok_fresh, of bs z] assms(1) by auto
  have idx: "ft_publish_index d = of_nat (length bs)" using d(2) by (simp add: ft_ok_def)
  have "TryReadLatestWire (Suc n) (Some d) = (if bs = [] then None else Some (last bs))"
  proof (cases bs rule: rev_cases)
    case Nil
    then show ?thesis using idx by (simp add: TryReadLatestWire_def)
  next
    case (snoc ys y)
    have ne: "(of_nat (length bs) :: u64) \<noteq> 0"
      using unat_of_nat_u64 [OF assms(1)] snoc by (metis length_append_singleton nat.distinct(1) unsigned_0)
    have "seq_try_read (Suc n) (ft_slots d ! ring_slot (of_nat (Suc (length ys)))) = Some (bs ! length ys)"
      using ft_ok_slot [OF d(2), of "length ys" n] snoc by (simp add: RING_SIZE_def)
    then show ?thesis using snoc ne by (simp add: TryReadLatestWire_def idx Let_def del: seq_try_read.simps)
  qed
  moreover have "TryReadWireByIndex (Suc n) (of_nat k) (Some d) =
      (if 0 < k \<and> k \<le> length bs \<and> length bs - k < RING_SIZE then Some (bs ! (k - 1)) else None)"
  proof (cases "0 < k \<and> k \<le> length bs \<and> length bs - k < RING_SIZE")
    case True
    then have "seq_try_read (Suc n) (ft_slots d ! ring_slot (of_nat (Suc (k - 1)))) = Some (bs ! (k - 1))"
      by (intro ft_ok_slot [OF d(2)]) auto
    with True show ?thesis
      using index_in_window_nat [OF assms] by (simp add: TryReadWireByIndex_def idx del: seq_try_read.simps)
  next
    case False
    then have "\<not> index_in_window (of_nat k) (of_nat (length bs))"
      using index_in_window_nat [OF assms] by blast
    then show ?thesis unfolding if_not_P [OF False] by (simp add: TryReadWireByIndex_def idx)
  qed
  ultimately show ?thesis by (simp add: d(1))
qed

definition zero_frame :: FaceTrackingFrameBody where
  "zero_frame = (let v = (0, 0, 0) in \<lparr>qpc_sample_time = 0, source_module_uuid_hash = 0, eye_origin_l = v,
     eye_origin_r = v, eye_gaze_l = v, eye_gaze_r = v, eye_openness_l = 0, eye_openness_r = 0,
     pupil_dilation_l = 0, pupil_dilation_r = 0, eye_confidence_l = 0, eye_confidence_r = 0,
     expressions = replicate FACETRACKING_UPSTREAM_EXPRESSION_COUNT 0, ff_flags = 0, head_yaw = 0,
     head_pitch = 0, head_roll = 0, head_pos_x = 0, head_pos_y = 0, head_pos_z = 0, head_flags = 0\<rparr>)"

theorem face_ring_lookback_witness:
  "TryReadWireByIndex 8 (of_nat 1) (fold Publish [zero_frame\<lparr>ff_flags := 1\<rparr>, zero_frame\<lparr>ff_flags := 2\<rparr>]
     (Some (ft_fresh zero_frame))) = Some (zero_frame\<lparr>ff_flags := 1\<rparr>)"
  using face_ring_lookback [of "[zero_frame\<lparr>ff_flags := 1\<rparr>, zero_frame\<lparr>ff_flags := 2\<rparr>]" 1 7 zero_frame]
  by (simp add: RING_SIZE_def)

text \<open>Lookback race. The window check of \<open>TryReadWireByIndex\<close> is made once, before the slot
  is read: when the writer publishes one more frame between the two, the oldest admissible index
  passes the check and the read then succeeds with the new frame instead of the requested one.\<close>

theorem face_index_race:
  assumes "ft_ok h d" "RING_SIZE \<le> length h" "length h + 1 < 2 ^ 64"
  shows "index_in_window (of_nat (length h - 31)) (ft_publish_index d) \<and>
    (\<exists>d'. Publish b (Some d) = Some d' \<and>
       seq_try_read (Suc n) (ft_slots d' ! ring_slot (of_nat (length h - 31))) = Some b)"
proof
  have idx: "ft_publish_index d = of_nat (length h)" using assms(1) by (simp add: ft_ok_def)
  show "index_in_window (of_nat (length h - 31)) (ft_publish_index d)"
    unfolding idx using assms(2,3) index_in_window_nat [of "length h" "length h - 31"] by (simp add: RING_SIZE_def)
  obtain d' where d': "Publish b (Some d) = Some d'" "ft_ok (h @ [b]) d'"
    using Publish_ft_ok [OF assms(1,3)] by blast
  have s: "length h - 31 = Suc (length h - 32)" using assms(2) by (simp add: RING_SIZE_def)
  have "ring_slot (of_nat (length h - 31)) = ring_slot (of_nat (Suc (length h)))"
    unfolding s using assms(2,3) ring_slot_Suc [of "length h - 32"] ring_slot_Suc [of "length h"]
    by (simp add: RING_SIZE_def le_mod_geq)
  then show "\<exists>d'. Publish b (Some d) = Some d' \<and>
       seq_try_read (Suc n) (ft_slots d' ! ring_slot (of_nat (length h - 31))) = Some b"
    using d'(1) ft_ok_slot [OF d'(2), of "length h" n]
    by (simp add: nth_append RING_SIZE_def del: seq_try_read.simps)
qed

theorem face_index_race_witness:
  "\<exists>d d'. index_in_window 1 (ft_publish_index d) \<and> Publish (zero_frame\<lparr>ff_flags := 9\<rparr>) (Some d) = Some d' \<and>
     seq_try_read 8 (ft_slots d' ! ring_slot 1) = Some (zero_frame\<lparr>ff_flags := 9\<rparr>)"
proof -
  obtain d where d: "ft_ok (replicate 32 zero_frame) d"
    using fold_Publish_ft_ok [OF ft_ok_fresh, of "replicate 32 zero_frame" zero_frame] by auto
  from face_index_race [OF d, of "zero_frame\<lparr>ff_flags := 9\<rparr>" 7] show ?thesis
    by (auto simp: RING_SIZE_def simp del: seq_try_read.simps)
qed

text \<open>Shape remapping. Every driver shape receives the clamped value of the one upstream shape
  mapped to it when that value is finite, and keeps what the destination held otherwise; shapes
  without an upstream source are left alone. A destination within 0 and 1 stays so.\<close>

theorem remap_shapes_exact:
  assumes "length src = 88" "length dst = 63" "k < 63"
  shows "length (RemapUpstreamShapes src dst) = 63 \<and>
    (\<forall>u < 88. kUpstreamToOurs ! u = int k \<longrightarrow> RemapUpstreamShapes src dst ! k =
       (if isfinite (src ! u) then std_clamp (src ! u) 0 1 else dst ! k)) \<and>
    (int k \<notin> set kUpstreamToOurs \<longrightarrow> RemapUpstreamShapes src dst ! k = dst ! k) \<and>
    (0 \<le> dst ! k \<and> dst ! k \<le> 1 \<longrightarrow> 0 \<le> RemapUpstreamShapes src dst ! k \<and> RemapUpstreamShapes src dst ! k \<le> 1)"
proof -
  let ?r = "RemapUpstreamShapes src dst"
  have src_of: "?r ! k = (if isfinite (src ! u) then std_clamp (src ! u) 0 1 else dst ! k)"
    if u: "u < 88" "kUpstreamToOurs ! u = int k" for u
  proof (cases "isfinite (src ! u)")
    case True
    have "?r ! nat (kUpstreamToOurs ! u) = std_clamp (src ! u) 0 1"
      unfolding RemapUpstreamShapes_eq
      using u True assms upstream_target_inj
      by (intro fold_update_hit) (auto simp: remap_hits_def nat_eq_iff)
    then show ?thesis using u True by simp
  next
    case False
    have "?r ! k = dst ! k" unfolding RemapUpstreamShapes_eq
    proof (rule fold_update_other)
      fix v assume v: "v \<in> set [0..<88]" "remap_hits src v"
      show "nat (kUpstreamToOurs ! v) \<noteq> k"
      proof
        assume "nat (kUpstreamToOurs ! v) = k"
        then have "v = u" using u v upstream_target_inj [of v u] by (auto simp: remap_hits_def)
        with v(2) False show False by (simp add: remap_hits_def)
      qed
    qed
    then show ?thesis using False by simp
  qed
  have none: "?r ! k = dst ! k" if "int k \<notin> set kUpstreamToOurs"
    unfolding RemapUpstreamShapes_eq using that upstream_targets_distinct(3)
    by (intro fold_update_other) (auto simp: remap_hits_def in_set_conv_nth)
  have bound: "0 \<le> ?r ! k \<and> ?r ! k \<le> 1" if "0 \<le> dst ! k \<and> dst ! k \<le> 1"
  proof (cases "int k \<in> set kUpstreamToOurs")
    case True
    then obtain u where "u < 88" "kUpstreamToOurs ! u = int k"
      using upstream_targets_distinct(3) by (auto simp: in_set_conv_nth)
    then show ?thesis using src_of that std_clamp_01_bounds by simp
  qed (use none that in simp)
  have "length ?r = 63" unfolding RemapUpstreamShapes_eq using assms(2) by simp
  then show ?thesis using src_of none bound by blast
qed

theorem remap_shapes_exact_witness:
  "RemapUpstreamShapes ((replicate 88 0)[22 := Fin 3]) (replicate 63 0) ! 26 = (1 :: float32)"
proof -
  let ?s = "(replicate 88 0)[22 := Fin 3] :: float32 list"
  have "kUpstreamToOurs ! 22 = int 26" by (simp add: kUpstreamToOurs_def)
  moreover have "?s ! 22 = Fin 3" by simp
  ultimately have "RemapUpstreamShapes ?s (replicate 63 0) ! 26 = std_clamp (Fin 3) 0 1"
    using remap_shapes_exact [of ?s "replicate 63 0" 26, THEN conjunct2, THEN conjunct1, THEN spec, of 22]
    by simp
  then show ?thesis by (simp add: std_clamp_def zero_fp_def one_fp_def)
qed

end
