(* ===== verification/FaceFilters.thy ===== *)
theory FaceFilters
  imports FaceFrameShmem
begin

text \<open>
  The filters of the face-tracking worker (\<open>modules/facetracking/src/driver\<close>): the continuous calibration of
  every shape (\<open>CalibrationEngine.cpp\<close>), the vergence lock (\<open>VergenceLock.cpp\<close>) and the eyelid
  synchronisation (\<open>EyelidSync.cpp\<close>), the detector of a wedged host and the pipeline of
  \<open>FacetrackingDriverModule.cpp\<close> that composes them. The performance counter and its frequency are
  arguments; the reading and writing of calibration files is not modelled.
\<close>

unbundle bit_operations_syntax

section \<open>Shape calibration\<close>

record ShapeCalib =
  sc_q :: "float32 list"
  sc_n :: "float32 list"
  sc_dn :: "float32 list"
  sc_p02 :: float32
  sc_p98 :: float32
  sc_ema_min :: float32
  sc_ema_max :: float32
  sc_ema_value :: float32
  sc_ema_var :: float32
  sc_hold_count :: u32
  sc_hold_first_qpc :: u64
  sc_samples :: u32
  sc_warm :: bool

definition ShapeCalib_new :: ShapeCalib where
  "ShapeCalib_new = \<lparr>sc_q = [0, lit 0.005, lit 0.02, lit 0.5, 1],
     sc_n = [of_integer 1, of_integer 2, of_integer 3, of_integer 4, of_integer 5],
     sc_dn = [0, lit 0.01, lit 0.02, lit 0.51, 1],
     sc_p02 = 0, sc_p98 = 1, sc_ema_min = 0, sc_ema_max = 1, sc_ema_value = lit 0.5, sc_ema_var = lit 0.04,
     sc_hold_count = 0, sc_hold_first_qpc = 0, sc_samples = 0, sc_warm = False\<rparr>"

definition PsqUpdate :: "float32 list \<Rightarrow> float32 list \<Rightarrow> nat \<Rightarrow> float32 \<Rightarrow> float32" where
  "PsqUpdate q n i d =
     (let h1 = n ! (i + 1) - n ! i; h2 = n ! i - n ! (i - 1)
      in q ! i + d / (h1 + h2) * ((h2 / h1) * (q ! (i + 1) - q ! i) + (h1 / h2) * (q ! i - q ! (i - 1))))"

definition PsqLinear :: "float32 list \<Rightarrow> float32 list \<Rightarrow> nat \<Rightarrow> float32 \<Rightarrow> float32" where
  "PsqLinear q n i d = (let j = (if 0 < d then i + 1 else i - 1)
     in q ! i + d * (q ! j - q ! i) / (n ! j - n ! i))"

text \<open>The three steps of \<open>PsqStep\<close>: the cell of an observation, the counts above it, one inner marker.\<close>

definition psq_cell :: "float32 list \<Rightarrow> float32 \<Rightarrow> float32 list \<times> nat" where
  "psq_cell q xn =
     (if xn < q ! 0 then (q[0 := xn], 0)
      else if xn < q ! 1 then (q, 0)
      else if xn < q ! 2 then (q, 1)
      else if xn < q ! 3 then (q, 2)
      else if xn \<le> q ! 4 then (q, 3)
      else (q[4 := xn], 3))"

definition psq_count :: "nat \<Rightarrow> float32 list \<Rightarrow> float32 list" where
  "psq_count k n = fold (\<lambda>i n. n[i := n ! i + 1]) [k + 1..<5] n"

definition psq_adjust :: "float32 list \<Rightarrow> nat \<Rightarrow> float32 list \<times> float32 list \<Rightarrow> float32 list \<times> float32 list" where
  "psq_adjust dn i qn = (case qn of (q, n) \<Rightarrow>
     let di = dn ! i - n ! i in
     if (1 \<le> di \<and> 1 < n ! (i + 1) - n ! i) \<or> (di \<le> - 1 \<and> n ! (i - 1) - n ! i < - 1)
     then let d = (if 0 < di then 1 else - 1);
              q_new = PsqUpdate q n i d
          in (q[i := (if q ! (i - 1) < q_new \<and> q_new < q ! (i + 1) then q_new else PsqLinear q n i d)],
              n[i := n ! i + d])
     else (q, n))"

definition PsqStep :: "float32 list \<Rightarrow> float32 list \<Rightarrow> float32 list \<Rightarrow> float32 \<Rightarrow> float32 list \<times> float32 list" where
  "PsqStep q n dn xn = (let (q1, k) = psq_cell q xn
     in fold (psq_adjust dn) [1, 2, 3] (q1, psq_count k n))"

definition kAlphaUp :: float32 where "kAlphaUp = lit 0.02"
definition kAlphaDown :: float32 where "kAlphaDown = lit 0.0005"
definition kVelocityGateSigmas :: float32 where "kVelocityGateSigmas = lit 4"
definition kWarmThreshold :: u32 where "kWarmThreshold = 200"
definition kHoldCountMin :: u32 where "kHoldCountMin = 6"
definition kHoldTimeMs :: float32 where "kHoldTimeMs = lit 80"
definition kFrameAgeMaxMs :: float32 where "kFrameAgeMaxMs = lit 33"
definition kNormEps :: float32 where "kNormEps = lit 0.000001"

text \<open>Ticks of the performance counter as milliseconds.\<close>

definition ticks_ms :: "int \<Rightarrow> u64 \<Rightarrow> float32" where
  "ticks_ms freq d = of_integer (uint d) * lit 1000 / of_integer freq"

definition update_envelope :: "int \<Rightarrow> float32 \<Rightarrow> u64 \<Rightarrow> ShapeCalib \<Rightarrow> ShapeCalib" where
  "update_envelope freq raw now_qpc s =
     (if sc_ema_max s < raw
      then let first = (if sc_hold_count s = 0 then now_qpc else sc_hold_first_qpc s);
               count = sc_hold_count s + 1;
               elapsed_ms = (if first < now_qpc then ticks_ms freq (now_qpc - first) else 0)
           in if kHoldCountMin \<le> count \<and> kHoldTimeMs \<le> elapsed_ms
              then s\<lparr>sc_ema_max := raw, sc_hold_count := 0, sc_hold_first_qpc := 0\<rparr>
              else s\<lparr>sc_hold_count := count, sc_hold_first_qpc := first\<rparr>
      else s\<lparr>sc_hold_count := 0, sc_hold_first_qpc := 0,
             sc_ema_min := (if raw < sc_ema_min s then (1 - kAlphaUp) * sc_ema_min s + kAlphaUp * raw
                            else (1 - kAlphaDown) * sc_ema_min s + kAlphaDown * raw),
             sc_ema_max := (1 - kAlphaDown) * sc_ema_max s + kAlphaDown * raw\<rparr>)"

definition velocity_gate :: "float32 \<Rightarrow> ShapeCalib \<Rightarrow> bool" where
  "velocity_gate raw s \<longleftrightarrow> kVelocityGateSigmas * fp_sqrt (sc_ema_var s + kNormEps) < \<bar>raw - sc_ema_value s\<bar>"

definition UpdateShape :: "int \<Rightarrow> float32 \<Rightarrow> u64 \<Rightarrow> ShapeCalib \<Rightarrow> ShapeCalib" where
  "UpdateShape freq raw now_qpc s =
     (if velocity_gate raw s then s
      else
        let dev = raw - sc_ema_value s;
            v = sc_ema_value s + kAlphaUp * dev;
            dev2 = (raw - v) * (raw - v);
            s1 = s\<lparr>sc_ema_value := v, sc_ema_var := (1 - lit 0.05) * sc_ema_var s + lit 0.05 * dev2\<rparr>;
            s2 = update_envelope freq raw now_qpc s1;
            (q, n) = PsqStep (sc_q s2) (sc_n s2) (sc_dn s2) raw;
            samples = sc_samples s2 + 1
        in s2\<lparr>sc_q := q, sc_n := n, sc_p02 := q ! 2, sc_p98 := sc_ema_max s2, sc_samples := samples,
              sc_warm := (sc_warm s2 \<or> kWarmThreshold \<le> samples)\<rparr>)"

definition clamp01 :: "float32 \<Rightarrow> float32" where
  "clamp01 v = std_max 0 (std_min 1 v)"

definition NormalizeOne :: "ShapeCalib \<Rightarrow> float32 \<Rightarrow> float32" where
  "NormalizeOne s raw =
     (let lo = sc_p02 s; hi = sc_p98 s; range = hi - lo
      in if range < kNormEps then raw else clamp01 ((raw - lo) / range))"

section \<open>The engine\<close>

definition kTotalShapes :: nat where "kTotalShapes = FACETRACKING_EXPRESSION_COUNT + 4"
definition kIdxOpenL :: nat where "kIdxOpenL = FACETRACKING_EXPRESSION_COUNT"
definition kIdxOpenR :: nat where "kIdxOpenR = kIdxOpenL + 1"
definition kIdxPupilL :: nat where "kIdxPupilL = kIdxOpenL + 2"
definition kIdxPupilR :: nat where "kIdxPupilR = kIdxOpenL + 3"

type_synonym CalibrationEngine = "ShapeCalib list"

definition CalibrationEngine_new :: CalibrationEngine where
  "CalibrationEngine_new = replicate kTotalShapes ShapeCalib_new"

definition update_at :: "int \<Rightarrow> u64 \<Rightarrow> nat \<Rightarrow> float32 \<Rightarrow> CalibrationEngine \<Rightarrow> CalibrationEngine" where
  "update_at freq now i raw e = e[i := UpdateShape freq raw now (e ! i)]"

definition IngestFrame :: "int \<Rightarrow> u64 \<Rightarrow> FaceTrackingFrameBody \<Rightarrow> CalibrationEngine \<Rightarrow> CalibrationEngine" where
  "IngestFrame freq nowQpc f e0 =
     (let age_ms = (if sint (qpc_sample_time f) < sint nowQpc then ticks_ms freq (nowQpc - qpc_sample_time f) else 0)
      in if kFrameAgeMaxMs < age_ms then e0
         else
           let e1 = (if ff_flags f AND 1 \<noteq> 0
                 then update_at freq nowQpc kIdxPupilR (pupil_dilation_r f)
                       (update_at freq nowQpc kIdxPupilL (pupil_dilation_l f)
                         (update_at freq nowQpc kIdxOpenR (eye_openness_r f)
                           (update_at freq nowQpc kIdxOpenL (eye_openness_l f) e0)))
                 else e0)
           in if ff_flags f AND 2 \<noteq> 0
              then fold (\<lambda>i e. update_at freq nowQpc i (expressions f ! i) e) [0..<FACETRACKING_EXPRESSION_COUNT] e1
              else e1)"

definition norm_at :: "CalibrationEngine \<Rightarrow> nat \<Rightarrow> float32 \<Rightarrow> float32" where
  "norm_at e i v = (if sc_warm (e ! i) then NormalizeOne (e ! i) v else v)"

definition Calib_Normalize :: "CalibrationEngine \<Rightarrow> FaceTrackingFrameBody \<Rightarrow> FaceTrackingFrameBody" where
  "Calib_Normalize e f0 =
     (let f1 = (if ff_flags f0 AND 1 \<noteq> 0
           then f0\<lparr>eye_openness_l := norm_at e kIdxOpenL (eye_openness_l f0),
                   eye_openness_r := norm_at e kIdxOpenR (eye_openness_r f0),
                   pupil_dilation_l := norm_at e kIdxPupilL (pupil_dilation_l f0),
                   pupil_dilation_r := norm_at e kIdxPupilR (pupil_dilation_r f0)\<rparr>
           else f0)
      in if ff_flags f1 AND 2 \<noteq> 0
         then f1\<lparr>expressions := map (\<lambda>i. norm_at e i (expressions f1 ! i)) [0..<FACETRACKING_EXPRESSION_COUNT]\<rparr>
         else f1)"

definition WarmShapeCount :: "CalibrationEngine \<Rightarrow> nat" where
  "WarmShapeCount e = length (filter sc_warm e)"

definition IsShapeWarm :: "int \<Rightarrow> CalibrationEngine \<Rightarrow> bool" where
  "IsShapeWarm idx e = (if idx < 0 \<or> idx \<ge> int kTotalShapes then False else sc_warm (e ! nat idx))"

text \<open>The effect of a command on the shapes; saving and deleting the file is left out.\<close>

fun Calib_Reset :: "FaceCalibrationOp \<Rightarrow> CalibrationEngine \<Rightarrow> CalibrationEngine" where
  "Calib_Reset FaceCalibResetAll e = map (\<lambda>_. ShapeCalib_new) e"
| "Calib_Reset FaceCalibResetEye e = e[kIdxOpenL := ShapeCalib_new, kIdxOpenR := ShapeCalib_new,
     kIdxPupilL := ShapeCalib_new, kIdxPupilR := ShapeCalib_new]"
| "Calib_Reset FaceCalibResetExpr e = fold (\<lambda>i e. e[i := ShapeCalib_new]) [0..<FACETRACKING_EXPRESSION_COUNT] e"
| "Calib_Reset _ e = e"

section \<open>Eyelid synchronisation\<close>

definition kWinkThreshold :: float32 where "kWinkThreshold = lit 0.45"
definition kWinkConfMin :: float32 where "kWinkConfMin = lit 0.6"
definition kWinkDwellMs :: float32 where "kWinkDwellMs = lit 120"
definition kSmoothAlpha :: float32 where "kSmoothAlpha = lit 0.1"

record EyelidSync =
  wink_start_qpc :: u64
  wink_stable :: bool
  smooth_l :: float32
  smooth_r :: float32
  smooth_init :: bool

definition EyelidSync_new :: EyelidSync where
  "EyelidSync_new = \<lparr>wink_start_qpc = 0, wink_stable = False, smooth_l = lit 0.5, smooth_r = lit 0.5,
     smooth_init = False\<rparr>"

definition lids_asymmetric :: "FaceTrackingFrameBody \<Rightarrow> bool" where
  "lids_asymmetric f \<longleftrightarrow> kWinkThreshold < \<bar>eye_openness_l f - eye_openness_r f\<bar> \<and>
     kWinkConfMin < eye_confidence_l f \<and> kWinkConfMin < eye_confidence_r f"

text \<open>The dwell timer and whether the frame is an intentional wink.\<close>

definition detect_wink :: "int \<Rightarrow> u64 \<Rightarrow> FaceTrackingFrameBody \<Rightarrow> EyelidSync \<Rightarrow> EyelidSync \<times> bool" where
  "detect_wink freq now f s =
     (if lids_asymmetric f
      then let s1 = (if wink_start_qpc s = 0 then s\<lparr>wink_start_qpc := now, wink_stable := False\<rparr>
                     else if \<not> wink_stable s \<and> kWinkDwellMs \<le> ticks_ms freq (now - wink_start_qpc s)
                       then s\<lparr>wink_stable := True\<rparr> else s)
           in (s1, wink_stable s1)
      else (s\<lparr>wink_start_qpc := 0, wink_stable := False\<rparr>, False))"

definition ema :: "float32 \<Rightarrow> float32 \<Rightarrow> float32" where
  "ema smooth raw = smooth + kSmoothAlpha * (raw - smooth)"

definition EyelidSync_Apply ::
    "int \<Rightarrow> u64 \<Rightarrow> byte \<Rightarrow> bool \<Rightarrow> FaceTrackingFrameBody \<times> EyelidSync \<Rightarrow> FaceTrackingFrameBody \<times> EyelidSync" where
  "EyelidSync_Apply freq now strength preserve_winks fs = (case fs of (f, s0) \<Rightarrow>
     if ff_flags f AND 1 = 0 \<or> strength = 0 then (f, s0)
     else
       let lid_L = eye_openness_l f; lid_R = eye_openness_r f;
           c_L = eye_confidence_l f; c_R = eye_confidence_r f;
           s1 = (if smooth_init s0 then s0 else s0\<lparr>smooth_l := lid_L, smooth_r := lid_R, smooth_init := True\<rparr>);
           (s2, wink) = (if preserve_winks then detect_wink freq now f s1 else (s1, False))
       in if wink
          then (f, s2\<lparr>smooth_l := ema (smooth_l s2) lid_L, smooth_r := ema (smooth_r s2) lid_R\<rparr>)
          else
            let denom = c_L + c_R + lit 0.000001;
                target = (c_L * lid_L + c_R * lid_R) / denom;
                k = of_integer (uint strength) / lit 100;
                l = ema (smooth_l s2) (lid_L + k * (target - lid_L));
                r = ema (smooth_r s2) (lid_R + k * (target - lid_R))
            in (f\<lparr>eye_openness_l := clamp01 l, eye_openness_r := clamp01 r\<rparr>,
                s2\<lparr>smooth_l := l, smooth_r := r\<rparr>))"

section \<open>Vergence lock\<close>

fun v_Dot :: "vec3f \<Rightarrow> vec3f \<Rightarrow> float32" where
  "v_Dot (x, y, z) (u, v, w) = x * u + y * v + z * w"

fun v_Sub :: "vec3f \<Rightarrow> vec3f \<Rightarrow> vec3f" where
  "v_Sub (x, y, z) (u, v, w) = (x - u, y - v, z - w)"

fun v_Add :: "vec3f \<Rightarrow> vec3f \<Rightarrow> vec3f" where
  "v_Add (x, y, z) (u, v, w) = (x + u, y + v, z + w)"

fun v_Scale :: "vec3f \<Rightarrow> float32 \<Rightarrow> vec3f" where
  "v_Scale (x, y, z) s = (x * s, y * s, z * s)"

definition v_Length :: "vec3f \<Rightarrow> float32" where
  "v_Length v = fp_sqrt (v_Dot v v)"

definition v_Normalize :: "vec3f \<Rightarrow> vec3f" where
  "v_Normalize v = (let len = v_Length v in if len < lit 0.000000001 then v else v_Scale v (1 / len))"

fun v_Lerp :: "vec3f \<Rightarrow> vec3f \<Rightarrow> float32 \<Rightarrow> vec3f" where
  "v_Lerp (x, y, z) (u, v, w) t = (x + t * (u - x), y + t * (v - y), z + t * (w - z))"

record VergenceLock =
  last_focus_m :: float32
  last_ipd_m :: float32

definition VergenceLock_new :: VergenceLock where
  "VergenceLock_new = \<lparr>last_focus_m = 0, last_ipd_m = 0\<rparr>"

text \<open>The strength after the penalty for disagreeing rays; \<open>None\<close> when nothing of it is left.\<close>

definition vergence_strength :: "float32 \<Rightarrow> float32 \<Rightarrow> float32 \<Rightarrow> float32 option" where
  "vergence_strength k t_L t_R =
     (let avg_t = lit 0.5 * (\<bar>t_L\<bar> + \<bar>t_R\<bar> + lit 0.000000001);
          rel_disagree = \<bar>\<bar>t_L\<bar> - \<bar>t_R\<bar>\<bar> / avg_t
      in if lit 0.5 < rel_disagree
         then let scale = clamp01 (1 - (rel_disagree - lit 0.5) / lit 0.5); k' = k * scale
              in if k' < lit 0.0001 then None else Some k'
         else Some k)"

text \<open>The focus point within its physiological range; \<open>None\<close> when the frame is left as it is.\<close>

definition vergence_focus :: "vec3f \<Rightarrow> vec3f \<Rightarrow> float32 \<Rightarrow> vec3f option" where
  "vergence_focus eyeMid focus fdist =
     (if fdist < lit 0.1
      then if fdist < lit 0.000001 then None
           else Some (v_Add eyeMid (v_Scale (v_Scale (v_Sub focus eyeMid) (1 / fdist)) (lit 0.1)))
      else if lit 20 < fdist then None else Some focus)"

text \<open>From the check for parallel rays on, with both eyes tracked.\<close>

definition vergence_solve ::
    "float32 \<Rightarrow> vec3f \<Rightarrow> vec3f \<Rightarrow> FaceTrackingFrameBody \<times> VergenceLock \<Rightarrow> FaceTrackingFrameBody \<times> VergenceLock" where
  "vergence_solve k d_L d_R fv = (case fv of (f, v) \<Rightarrow>
     let o_L = eye_origin_l f; o_R = eye_origin_r f; r = v_Sub o_L o_R;
         a = v_Dot d_L d_L; b = v_Dot d_L d_R; c = v_Dot d_R d_R; d = v_Dot d_L r; e = v_Dot d_R r;
         denom = a * c - b * b
     in if denom < lit 0.000001 then (f, v)
        else
          let t_L = (b * e - c * d) / denom; t_R = (a * e - b * d) / denom
          in (case vergence_strength k t_L t_R of
               None \<Rightarrow> (f, v)
             | Some k' \<Rightarrow>
                 let p_L = v_Add o_L (v_Scale d_L t_L); p_R = v_Add o_R (v_Scale d_R t_R);
                     focus0 = v_Scale (v_Add p_L p_R) (lit 0.5); eyeMid = v_Scale (v_Add o_L o_R) (lit 0.5);
                     fdist = v_Length (v_Sub focus0 eyeMid);
                     v1 = v\<lparr>last_focus_m := fdist\<rparr>
                 in (case vergence_focus eyeMid focus0 fdist of
                      None \<Rightarrow> (f, v1)
                    | Some focus \<Rightarrow>
                        (f\<lparr>eye_gaze_l := v_Normalize (v_Lerp d_L (v_Normalize (v_Sub focus o_L)) k'),
                           eye_gaze_r := v_Normalize (v_Lerp d_R (v_Normalize (v_Sub focus o_R)) k')\<rparr>, v1))))"

definition VergenceLock_Apply ::
    "byte \<Rightarrow> FaceTrackingFrameBody \<times> VergenceLock \<Rightarrow> FaceTrackingFrameBody \<times> VergenceLock" where
  "VergenceLock_Apply strength fv = (case fv of (f, v) \<Rightarrow>
     if ff_flags f AND 1 = 0 \<or> strength = 0 then (f, v)
     else
       let k = of_integer (uint strength) / lit 100;
           d_L = v_Normalize (eye_gaze_l f); d_R = v_Normalize (eye_gaze_r f);
           v1 = v\<lparr>last_ipd_m := v_Length (v_Sub (eye_origin_l f) (eye_origin_r f))\<rparr>;
           lDrop = (eye_confidence_l f < lit 0.3); rDrop = (eye_confidence_r f < lit 0.3)
       in if lDrop \<and> rDrop then (f, v1)
          else if lDrop then (f\<lparr>eye_gaze_l := v_Normalize (v_Lerp d_L d_R k)\<rparr>, v1)
          else if rDrop then (f\<lparr>eye_gaze_r := v_Normalize (v_Lerp d_R d_L k)\<rparr>, v1)
          else vergence_solve k d_L d_R (f, v1))"

section \<open>The worker\<close>

definition HeartbeatAgeMs :: "u64 \<Rightarrow> u64 \<Rightarrow> FTShmemData option \<Rightarrow> u64" where
  "HeartbeatAgeMs now freq shmem = (case shmem of None \<Rightarrow> - 1
     | Some d \<Rightarrow> let hb = HostHeartbeatQpc shmem in
         if hb = 0 then - 1 else if now \<le> hb then 0 else if freq = 0 then - 1
         else (now - hb) * 1000 div freq)"

definition TranslateWireBody :: "FaceTrackingFrameBodyWire \<Rightarrow> FaceTrackingFrameBody" where
  "TranslateWireBody wire = wire\<lparr>expressions :=
     RemapUpstreamShapes (expressions wire) (replicate FACETRACKING_EXPRESSION_COUNT 0)\<rparr>"

text \<open>The locals of the worker loop that belong to the wedge detector; the clock is in nanoseconds.\<close>

record wedge_detector =
  wedge_restart_pending :: bool
  last_wedge_restart_time :: int

definition wedge_new :: wedge_detector where
  "wedge_new = \<lparr>wedge_restart_pending = False, last_wedge_restart_time = 0\<rparr>"

definition wedge_threshold_ms :: "u32 \<Rightarrow> u64" where
  "wedge_threshold_ms host_state = (if host_state = HostStatePublishing then 2000
     else if host_state = HostStateIdle then 5000 else - 1)"

definition is_wedged :: "u32 \<Rightarrow> u64 \<Rightarrow> bool" where
  "is_wedged host_state hb_age_ms \<longleftrightarrow> host_state \<noteq> HostStateLegacy \<and> hb_age_ms \<noteq> - 1 \<and>
     wedge_threshold_ms host_state < hb_age_ms"

datatype wedge_outcome = WedgeNone | WedgeWait | WedgeRestart

definition wedge_tick :: "int \<Rightarrow> u32 \<Rightarrow> u64 \<Rightarrow> wedge_detector \<Rightarrow> wedge_detector \<times> wedge_outcome" where
  "wedge_tick now host_state hb_age_ms w =
     (if is_wedged host_state hb_age_ms
      then if \<not> wedge_restart_pending w \<or> 10 \<le> (now - last_wedge_restart_time w) div 1000000000
           then (w\<lparr>wedge_restart_pending := True, last_wedge_restart_time := now\<rparr>, WedgeRestart)
           else (w, WedgeWait)
      else if wedge_restart_pending w \<and> hb_age_ms \<noteq> - 1
      then (w\<lparr>wedge_restart_pending := False\<rparr>, WedgeNone)
      else (w, WedgeNone))"

record face_worker =
  fw_calib :: CalibrationEngine
  fw_vergence :: VergenceLock
  fw_eyelid :: EyelidSync

definition face_worker_new :: face_worker where
  "face_worker_new = \<lparr>fw_calib = CalibrationEngine_new, fw_vergence = VergenceLock_new, fw_eyelid = EyelidSync_new\<rparr>"

text \<open>The filters between the reading of a frame and its publication. \<open>t1\<close> and \<open>t2\<close> are the
  readings of the performance counter in the two filters that take one.\<close>

definition process_frame ::
    "int \<Rightarrow> u64 \<Rightarrow> u64 \<Rightarrow> FaceTrackingConfig \<Rightarrow> FaceTrackingFrameBody \<Rightarrow> face_worker \<Rightarrow>
      FaceTrackingFrameBody \<times> face_worker" where
  "process_frame freq t1 t2 cfg f0 w0 =
     (let (f1, calib) = (if 0 < ftc_continuous_calib_mode cfg
            then let e = IngestFrame freq t1 f0 (fw_calib w0) in (Calib_Normalize e f0, e)
            else (f0, fw_calib w0));
          (f2, vergence) = (if ftc_vergence_lock_enabled cfg \<noteq> 0
            then VergenceLock_Apply (ftc_vergence_lock_strength cfg) (f1, fw_vergence w0)
            else (f1, fw_vergence w0));
          (f3, eyelid) = (if ftc_eyelid_sync_enabled cfg \<noteq> 0
            then EyelidSync_Apply freq t2 (ftc_eyelid_sync_strength cfg) (ftc_eyelid_sync_preserve_winks cfg \<noteq> 0)
                   (f2, fw_eyelid w0)
            else (f2, fw_eyelid w0))
      in (f3, \<lparr>fw_calib = calib, fw_vergence = vergence, fw_eyelid = eyelid\<rparr>))"

section \<open>The percentile markers\<close>

lemma fround_int32: "\<bar>m\<bar> \<le> 2 ^ 24 \<Longrightarrow> fround (of_int m) = (Fin (of_int m) :: float32)"
  using fround_of_int [of m, where 'p = 24] by simp

lemma Fin_add_int: "\<bar>a + b\<bar> \<le> 2 ^ 24 \<Longrightarrow> Fin (of_int a) + Fin (of_int b) = (Fin (of_int (a + b)) :: float32)"
  using fround_int32 [of "a + b"] by simp

lemma Fin_sub_int: "\<bar>a - b\<bar> \<le> 2 ^ 24 \<Longrightarrow> Fin (of_int a) - Fin (of_int b) = (Fin (of_int (a - b)) :: float32)"
  using fround_int32 [of "a - b"] by (simp add: minus_fp_def)

lemma one_int: "(1 :: float32) = Fin (of_int 1)" "(- 1 :: float32) = Fin (of_int (- 1))"
  by (simp_all add: one_fp_def)

text \<open>The desired positions never grow, so they lie below every count.\<close>

lemma desired_below:
  assumes "0 \<le> x" "x \<le> 1" "2 \<le> c" "c \<le> 10"
  shows "(Fin x - Fin (of_int c) :: float32) \<le> - 1 \<and> \<not> 1 \<le> (Fin x - Fin (of_int c) :: float32) \<and>
    \<not> 0 < (Fin x - Fin (of_int c) :: float32)"
proof -
  have "(of_int c :: rat) \<ge> 2" using assms(3) by (metis of_int_le_iff of_int_numeral)
  then have "fround (x - of_int c) \<le> (fround (of_int (- 1)) :: float32)" using assms by (intro fround_mono) simp
  then show ?thesis using fround_int32 [of "- 1"]
    by (cases "fround (x - of_int c) :: float32") (auto simp: minus_fp_def one_fp_def zero_fp_def)
qed

lemma psq_adjust_counts:
  assumes "dn ! i = Fin x" "0 \<le> x" "x \<le> 1" "n ! i = Fin (of_int c)" "n ! (i - 1) = Fin (of_int b)"
    "2 \<le> c" "c \<le> 10" "1 \<le> b" "b \<le> 10"
  shows "snd (psq_adjust dn i (q, n)) = (if b - c < - 1 then n[i := Fin (of_int (c - 1))] else n)"
proof -
  note d = desired_below [OF assms(2,3,6,7)]
  have s: "Fin (of_int b) - Fin (of_int c) = (Fin (of_int (b - c)) :: float32)" using assms by (intro Fin_sub_int) auto
  have c: "Fin (of_int c) + - 1 = (Fin (of_int (c - 1)) :: float32)"
    using Fin_add_int [of c "- 1"] assms unfolding one_int by simp
  have l: "(Fin (of_int (b - c)) :: float32) < - 1 \<longleftrightarrow> b - c < - 1"
    unfolding one_int(2) less_fp.simps of_int_less_iff ..
  have cond: "(n ! (i - 1) - n ! i < - 1) = (b - c < - 1)" unfolding assms(4,5) s l ..
  show ?thesis unfolding psq_adjust_def prod.case Let_def cond using d by (simp add: assms(1,4) c [simplified])
qed

definition unit_list :: "float32 list \<Rightarrow> bool" where
  "unit_list dn \<longleftrightarrow> (\<forall>i \<in> {1, 2, 3}. \<exists>x. dn ! i = Fin x \<and> 0 \<le> x \<and> x \<le> 1)"

abbreviation "ranks c1 c2 c3 N \<equiv> map (\<lambda>c. Fin (of_int c) :: float32) [1, c1, c2, c3, N]"

lemma adjust_ranks:
  assumes dn: "unit_list dn" and c: "c1 \<in> {2, 3}" "c2 \<in> {3, 4}" "c3 \<in> {4, 5}"
    and mono: "c1 = 3 \<longrightarrow> c2 = 4" "c2 = 4 \<longrightarrow> c3 = 5"
  shows "snd (fold (psq_adjust dn) [1, 2, 3] (q, ranks c1 c2 c3 N)) = ranks 2 3 4 N"
proof -
  obtain x y z where d: "dn ! 1 = Fin x" "0 \<le> x" "x \<le> 1" "dn ! 2 = Fin y" "0 \<le> y" "y \<le> 1" "dn ! 3 = Fin z" "0 \<le> z" "z \<le> 1"
    using dn by (auto simp: unit_list_def)
  have 1: "snd (psq_adjust dn 1 (q, ranks c1 c2 c3 N)) = ranks 2 c2 c3 N" for q
    using psq_adjust_counts [OF d(1-3), of "ranks c1 c2 c3 N" c1 1 q] c by (auto simp: numeral_2_eq_2)
  have 2: "snd (psq_adjust dn 2 (q, ranks 2 c2 c3 N)) = ranks 2 3 c3 N" for q
    using psq_adjust_counts [OF d(4-6), of "ranks 2 c2 c3 N" c2 2 q] c by (auto simp: numeral_2_eq_2)
  have 3: "snd (psq_adjust dn 3 (q, ranks 2 3 c3 N)) = ranks 2 3 4 N" for q
    using psq_adjust_counts [OF d(7-9), of "ranks 2 3 c3 N" c3 3 q] c by (auto simp: numeral_3_eq_3)
  have "fold (psq_adjust dn) [1, 2, 3] (q, ranks c1 c2 c3 N) =
      psq_adjust dn 3 (psq_adjust dn 2 (psq_adjust dn 1 (q, ranks c1 c2 c3 N)))" by simp
  then show ?thesis using 1 [of q] 2 3 by (metis prod.collapse)
qed

lemma count_ranks:
  assumes "k \<le> 3" "5 \<le> N" "N < 2 ^ 24"
  shows "\<exists>c1 c2 c3. psq_count k (ranks 2 3 4 N) = ranks c1 c2 c3 (N + 1) \<and> c1 \<in> {2, 3} \<and> c2 \<in> {3, 4} \<and> c3 \<in> {4, 5} \<and>
    (c1 = 3 \<longrightarrow> c2 = 4) \<and> (c2 = 4 \<longrightarrow> c3 = 5)"
proof -
  have add: "Fin (of_int c) + 1 = (Fin (of_int (c + 1)) :: float32)" if "\<bar>c\<bar> < 2 ^ 24" for c
    unfolding one_int using that by (intro Fin_add_int) simp
  consider "k = 0" | "k = 1" | "k = 2" | "k = 3" using assms(1) by linarith
  then show ?thesis
  proof cases
    case 1
    then have "psq_count k (ranks 2 3 4 N) = ranks 3 4 5 (N + 1)"
      using add [of 2] add [of 3] add [of 4] add [of N] assms by (simp add: psq_count_def upt_conv_Cons)
    then show ?thesis by (intro exI [of _ 3] exI [of _ 4] exI [of _ 5]) simp
  next
    case 2
    then have "psq_count k (ranks 2 3 4 N) = ranks 2 4 5 (N + 1)"
      using add [of 3] add [of 4] add [of N] assms by (simp add: psq_count_def upt_conv_Cons)
    then show ?thesis by (intro exI [of _ 2] exI [of _ 4] exI [of _ 5]) simp
  next
    case 3
    then have "psq_count k (ranks 2 3 4 N) = ranks 2 3 5 (N + 1)"
      using add [of 4] add [of N] assms by (simp add: psq_count_def upt_conv_Cons)
    then show ?thesis by (intro exI [of _ 2] exI [of _ 3] exI [of _ 5]) simp
  next
    case 4
    then have "psq_count k (ranks 2 3 4 N) = ranks 2 3 4 (N + 1)"
      using add [of N] assms by (simp add: psq_count_def upt_conv_Cons)
    then show ?thesis by (intro exI [of _ 2] exI [of _ 3] exI [of _ 4]) simp
  qed
qed

lemma PsqStep_ranks:
  assumes "unit_list dn" "5 \<le> N" "N < 2 ^ 24"
  shows "snd (PsqStep q (ranks 2 3 4 N) dn x) = ranks 2 3 4 (N + 1)"
proof -
  obtain q1 k where c: "psq_cell q x = (q1, k)" by fastforce
  then have "k \<le> 3" by (auto simp: psq_cell_def split: if_splits)
  then obtain c1 c2 c3 where "psq_count k (ranks 2 3 4 N) = ranks c1 c2 c3 (N + 1)" "c1 \<in> {2, 3}" "c2 \<in> {3, 4}"
    "c3 \<in> {4, 5}" "c1 = 3 \<longrightarrow> c2 = 4" "c2 = 4 \<longrightarrow> c3 = 5"
    using count_ranks assms(2,3) by metis
  then show ?thesis using adjust_ranks [OF assms(1)] by (simp only: PsqStep_def c prod.case Let_def)
qed

lemma UpdateShape_rejected: "velocity_gate raw s \<Longrightarrow> UpdateShape freq raw now s = s"
  by (simp add: UpdateShape_def)

lemma update_envelope_keeps [simp]:
  "sc_q (update_envelope freq raw now s) = sc_q s" "sc_n (update_envelope freq raw now s) = sc_n s"
  "sc_dn (update_envelope freq raw now s) = sc_dn s" "sc_samples (update_envelope freq raw now s) = sc_samples s"
  "sc_warm (update_envelope freq raw now s) = sc_warm s" "sc_ema_value (update_envelope freq raw now s) = sc_ema_value s"
  by (simp_all add: update_envelope_def Let_def)

lemma UpdateShape_accepted:
  "\<not> velocity_gate raw s \<Longrightarrow> sc_n (UpdateShape freq raw now s) = snd (PsqStep (sc_q s) (sc_n s) (sc_dn s) raw) \<and>
     sc_dn (UpdateShape freq raw now s) = sc_dn s \<and> sc_samples (UpdateShape freq raw now s) = sc_samples s + 1 \<and>
     sc_warm (UpdateShape freq raw now s) = (sc_warm s \<or> kWarmThreshold \<le> sc_samples s + 1)"
  by (simp add: UpdateShape_def Let_def split: prod.split)

definition markers_frozen :: "ShapeCalib \<Rightarrow> bool" where
  "markers_frozen s \<longleftrightarrow> sc_dn s = sc_dn ShapeCalib_new \<and> sc_n s = ranks 2 3 4 (5 + uint (sc_samples s)) \<and>
     (sc_warm s \<longleftrightarrow> kWarmThreshold \<le> sc_samples s)"

lemma unit_list_new: "unit_list (sc_dn ShapeCalib_new)"
proof -
  have "\<exists>x. (lit r :: float32) = Fin x \<and> 0 \<le> x \<and> x \<le> 1" if "0 \<le> r" "r \<le> 1" for r
    using fround_mono [OF that(1), where 'p = 24] fround_mono [OF that(2), where 'p = 24] fround_int32 [of 1]
    by (cases "fround r :: float32") (auto simp: lit_def)
  then show ?thesis by (simp add: unit_list_def ShapeCalib_new_def)
qed

lemma markers_frozen_new: "markers_frozen ShapeCalib_new"
  using fround_int32 [of 1] fround_int32 [of 2] fround_int32 [of 3] fround_int32 [of 4] fround_int32 [of 5]
  by (simp add: markers_frozen_def ShapeCalib_new_def of_integer_def kWarmThreshold_def)

lemma markers_frozen_step:
  assumes "markers_frozen s" "uint (sc_samples s) < 2 ^ 24 - 5"
  shows "markers_frozen (UpdateShape freq raw now s)"
proof (cases "velocity_gate raw s")
  case True
  then show ?thesis using assms by (simp add: UpdateShape_rejected)
next
  case False
  have "uint (sc_samples s + 1) = uint (sc_samples s) + 1"
    using assms(2) by (simp add: uint_word_ariths)
  moreover have "snd (PsqStep (sc_q s) (ranks 2 3 4 (5 + uint (sc_samples s))) (sc_dn ShapeCalib_new) raw) =
    ranks 2 3 4 (5 + uint (sc_samples s) + 1)"
    using assms(2) by (intro PsqStep_ranks unit_list_new) simp_all
  moreover have "sc_samples s \<le> sc_samples s + 1"
    using assms(2) by (simp add: word_le_def uint_word_ariths)
  ultimately show ?thesis using assms(1) UpdateShape_accepted [OF False, of freq now]
    by (auto simp: markers_frozen_def add.assoc)
qed

lemma markers_frozen_run:
  assumes "int (length xs) < 2 ^ 24 - 5"
  shows "markers_frozen (fold (\<lambda>(x, t). UpdateShape freq x t) xs ShapeCalib_new) \<and>
    uint (sc_samples (fold (\<lambda>(x, t). UpdateShape freq x t) xs ShapeCalib_new)) \<le> int (length xs)"
  using assms
proof (induction xs rule: rev_induct)
  case Nil
  then show ?case by (simp add: markers_frozen_new) (simp add: ShapeCalib_new_def)
next
  case (snoc e xs)
  obtain x t where e: "e = (x, t)" by (cases e)
  let ?s = "fold (\<lambda>(x, t). UpdateShape freq x t) xs ShapeCalib_new"
  have IH: "markers_frozen ?s" "uint (sc_samples ?s) \<le> int (length xs)" using snoc by simp_all
  then have s: "uint (sc_samples ?s) < 2 ^ 24 - 5" using snoc.prems by simp
  then have "uint (sc_samples ?s + 1) = uint (sc_samples ?s) + 1" by (simp add: uint_word_ariths)
  then have "uint (sc_samples (UpdateShape freq x t ?s)) \<le> uint (sc_samples ?s) + 1"
    using UpdateShape_accepted [of x ?s freq t] by (cases "velocity_gate x ?s") (simp_all add: UpdateShape_rejected)
  then show ?case using IH markers_frozen_step [OF IH(1) s] by (simp add: e)
qed

text \<open>The percentile of a shape. The estimator of the second percentile never moves its markers: for
  every run of samples of a fresh shape, the marker whose height is used as \<open>p02\<close> keeps rank 3 of all the
  samples accepted, however many there are, and does not move towards a percentile. (The count is exact up to the precision of \<open>float\<close>.) The shape is warm exactly from its
  200th accepted sample on.\<close>

theorem percentile_marker_frozen:
  assumes "int (length xs) < 2 ^ 24 - 5"
  shows "let s = fold (\<lambda>(x, t). UpdateShape freq x t) xs ShapeCalib_new in
    sc_n s = map (\<lambda>c. Fin (of_int c)) [1, 2, 3, 4, 5 + uint (sc_samples s)] \<and>
    (sc_warm s \<longleftrightarrow> 200 \<le> uint (sc_samples s)) \<and> uint (sc_samples s) \<le> int (length xs)"
  using markers_frozen_run [OF assms, of freq]
  by (simp add: Let_def markers_frozen_def kWarmThreshold_def word_le_def)

theorem percentile_marker_frozen_witness:
  "take 4 (sc_n (fold (\<lambda>(x, t). UpdateShape 10000000 x t) (replicate 1000 (Fin (1 / 2), 7)) ShapeCalib_new)) =
     [Fin 1, Fin 2, Fin 3, Fin 4]"
  using percentile_marker_frozen [of "replicate 1000 (Fin (1 / 2), 7)" 10000000] by (simp add: Let_def)

text \<open>A value that is not a number passes every gate.\<close>

lemma nan_arith [simp]:
  "x - FNaN = (FNaN :: 'p::len fp)" "FNaN - x = (FNaN :: 'p fp)" "x + FNaN = (FNaN :: 'p fp)" "FNaN + x = (FNaN :: 'p fp)"
  "x * FNaN = (FNaN :: 'p fp)" "FNaN * x = (FNaN :: 'p fp)" "x / FNaN = (FNaN :: 'p fp)"
  "\<not> x < (FNaN :: 'p fp)" "\<not> FNaN < (x :: 'p fp)"
  by (cases x; simp add: minus_fp_def)+

definition poisoned :: "ShapeCalib \<Rightarrow> bool" where
  "poisoned s \<longleftrightarrow> sc_ema_value s = FNaN \<and> sc_ema_max s = FNaN \<and> sc_p98 s = FNaN"

lemma poisoned_step:
  assumes "raw = FNaN \<or> poisoned s"
  shows "poisoned (UpdateShape freq raw now s)"
proof -
  have g: "\<not> velocity_gate raw s" using assms by (auto simp: velocity_gate_def poisoned_def)
  have m: "sc_ema_max (update_envelope freq raw now u) = FNaN" if "raw = FNaN \<or> sc_ema_max u = FNaN" for u raw
    using that by (auto simp: update_envelope_def)
  show ?thesis using g assms by (auto simp: UpdateShape_def Let_def poisoned_def m split: prod.split)
qed

text \<open>One expression value that is not a number destroys the calibration of its shape: from then
  on, whatever the module delivers, the shape is normalised to exactly 1, until the user resets it.\<close>

theorem nan_sample_saturates_shape:
  "let s = fold (\<lambda>(x, t). UpdateShape freq x t) xs (UpdateShape freq FNaN now s0)
   in sc_p98 s = FNaN \<and> (\<forall>x. NormalizeOne s x = 1)"
proof -
  define s where "s = fold (\<lambda>(x, t). UpdateShape freq x t) xs (UpdateShape freq FNaN now s0)"
  have "poisoned (fold (\<lambda>(x, t). UpdateShape freq x t) xs u)" if "poisoned u" for u
    using that by (induction xs arbitrary: u) (auto simp: poisoned_step)
  then have "poisoned s" using poisoned_step [of FNaN s0] by (simp add: s_def)
  then have "sc_p98 s = FNaN" by (simp add: poisoned_def)
  moreover have "clamp01 FNaN = 1" by (simp add: clamp01_def std_max_def std_min_def zero_fp_def one_fp_def)
  ultimately show ?thesis by (simp add: s_def [symmetric] NormalizeOne_def Let_def)
qed

text \<open>A level outside the velocity gate is never learned: the shape ignores it for as long as it lasts.\<close>

lemma gate_locks_out:
  "\<forall>(x, t) \<in> set xs. velocity_gate x s \<Longrightarrow> fold (\<lambda>(x, t). UpdateShape freq x t) xs s = s"
  by (induction xs) (auto simp: UpdateShape_rejected)

section \<open>Ranges\<close>

lemma clamp01_range: "0 \<le> clamp01 v \<and> clamp01 v \<le> 1"
  by (cases v) (auto simp: clamp01_def std_max_def std_min_def zero_fp_def one_fp_def)

lemma NormalizeOne_range:
  "\<not> sc_p98 s - sc_p02 s < kNormEps \<Longrightarrow> 0 \<le> NormalizeOne s x \<and> NormalizeOne s x \<le> 1"
  by (simp add: NormalizeOne_def Let_def clamp01_range)

section \<open>Winks\<close>

text \<open>What the dwell timer has seen: the frames since it started, all asymmetric, and, once it is stable,
  one of them at least the dwell time after the first.\<close>

definition dwell_seen :: "int \<Rightarrow> (FaceTrackingFrameBody \<times> u64) list \<Rightarrow> bool" where
  "dwell_seen freq evs \<longleftrightarrow> (\<exists>pre f0 t0 suf. evs = pre @ (f0, t0) # suf \<and>
     (\<forall>(g, t) \<in> set ((f0, t0) # suf). lids_asymmetric g) \<and>
     (\<exists>(g, t) \<in> set suf. kWinkDwellMs \<le> ticks_ms freq (t - t0)))"

definition timer_ok :: "int \<Rightarrow> (FaceTrackingFrameBody \<times> u64) list \<Rightarrow> EyelidSync \<Rightarrow> bool" where
  "timer_ok freq evs s \<longleftrightarrow> (if wink_start_qpc s = 0 then \<not> wink_stable s
     else \<exists>pre f0 suf. evs = pre @ (f0, wink_start_qpc s) # suf \<and>
       (\<forall>(g, t) \<in> set ((f0, wink_start_qpc s) # suf). lids_asymmetric g) \<and>
       (wink_stable s \<longrightarrow> (\<exists>(g, t) \<in> set suf. kWinkDwellMs \<le> ticks_ms freq (t - wink_start_qpc s))))"

lemma detect_wink_ok:
  assumes "timer_ok freq evs s" "now \<noteq> 0"
  shows "timer_ok freq (evs @ [(f, now)]) (fst (detect_wink freq now f s)) \<and>
    (snd (detect_wink freq now f s) \<longrightarrow> dwell_seen freq (evs @ [(f, now)]))"
proof (cases "lids_asymmetric f")
  case False
  then show ?thesis by (simp add: detect_wink_def timer_ok_def)
next
  case asym: True
  show ?thesis
  proof (cases "wink_start_qpc s = 0")
    case True
    have "evs @ [(f, now)] = evs @ (f, now) # []" by simp
    then show ?thesis using True asym assms(2) by (fastforce simp: detect_wink_def timer_ok_def)
  next
    case False
    let ?s = "fst (detect_wink freq now f s)"
    obtain pre f0 suf where e: "evs = pre @ (f0, wink_start_qpc s) # suf"
      "\<forall>(g, t) \<in> set ((f0, wink_start_qpc s) # suf). lids_asymmetric g"
      "wink_stable s \<longrightarrow> (\<exists>(g, t) \<in> set suf. kWinkDwellMs \<le> ticks_ms freq (t - wink_start_qpc s))"
      using assms(1) unfolding timer_ok_def if_not_P [OF False] by blast
    have s: "wink_start_qpc ?s = wink_start_qpc s" "snd (detect_wink freq now f s) = wink_stable ?s"
      "wink_stable ?s \<longrightarrow> wink_stable s \<or> kWinkDwellMs \<le> ticks_ms freq (now - wink_start_qpc s)"
      using asym False by (auto simp: detect_wink_def Let_def)
    have long: "wink_stable ?s \<longrightarrow> (\<exists>(g, t) \<in> set (suf @ [(f, now)]). kWinkDwellMs \<le> ticks_ms freq (t - wink_start_qpc s))"
      using s(3) e(3) by fastforce
    have all: "\<forall>(g, t) \<in> set ((f0, wink_start_qpc s) # suf @ [(f, now)]). lids_asymmetric g" using e(2) asym by auto
    have split: "evs @ [(f, now)] = pre @ (f0, wink_start_qpc s) # (suf @ [(f, now)])" using e(1) by simp
    have "timer_ok freq (evs @ [(f, now)]) ?s" unfolding timer_ok_def s(1) if_not_P [OF False]
      using split all long by blast
    moreover have "wink_stable ?s \<longrightarrow> dwell_seen freq (evs @ [(f, now)])"
      using split all long unfolding dwell_seen_def by blast
    ultimately show ?thesis using s(2) by simp
  qed
qed

lemma timer_ok_cong:
  "wink_start_qpc s' = wink_start_qpc s \<Longrightarrow> wink_stable s' = wink_stable s \<Longrightarrow> timer_ok freq evs s' = timer_ok freq evs s"
  by (simp add: timer_ok_def)

lemma EyelidSync_Apply_step:
  assumes "timer_ok freq evs s" "now \<noteq> 0" "ff_flags f AND 1 \<noteq> 0" "strength \<noteq> 0"
    and "EyelidSync_Apply freq now strength True (f, s) = (f', s')"
  shows "timer_ok freq (evs @ [(f, now)]) s' \<and>
    ((f' = f \<and> dwell_seen freq (evs @ [(f, now)])) \<or>
     (\<exists>l r. f' = f\<lparr>eye_openness_l := clamp01 l, eye_openness_r := clamp01 r\<rparr>))"
proof -
  define s1 where "s1 = (if smooth_init s then s
    else s\<lparr>smooth_l := eye_openness_l f, smooth_r := eye_openness_r f, smooth_init := True\<rparr>)"
  have s1: "timer_ok freq evs s1" using assms(1) timer_ok_cong [of s1 s] by (simp add: s1_def)
  obtain s2 w where d: "detect_wink freq now f s1 = (s2, w)" by fastforce
  have ok: "timer_ok freq (evs @ [(f, now)]) s2" "w \<longrightarrow> dwell_seen freq (evs @ [(f, now)])"
    using detect_wink_ok [OF s1 assms(2), of f] d by simp_all
  have "wink_start_qpc s' = wink_start_qpc s2" "wink_stable s' = wink_stable s2"
    "w \<and> f' = f \<or> (\<exists>l r. f' = f\<lparr>eye_openness_l := clamp01 l, eye_openness_r := clamp01 r\<rparr>)"
    using assms(3-5) d by (auto simp: EyelidSync_Apply_def Let_def s1_def [symmetric] split: if_splits)
  then show ?thesis using ok timer_ok_cong [of s' s2] by blast
qed

text \<open>The synchroniser after a sequence of frames.\<close>

definition eyelid_run :: "int \<Rightarrow> byte \<Rightarrow> (FaceTrackingFrameBody \<times> u64) list \<Rightarrow> EyelidSync" where
  "eyelid_run freq strength evs =
     fold (\<lambda>(f, now) s. snd (EyelidSync_Apply freq now strength True (f, s))) evs EyelidSync_new"

lemma eyelid_run_ok:
  assumes "strength \<noteq> 0" "\<forall>(f, now) \<in> set evs. ff_flags f AND 1 \<noteq> 0 \<and> now \<noteq> 0"
  shows "timer_ok freq evs (eyelid_run freq strength evs)"
  using assms(2)
proof (induction evs rule: rev_induct)
  case Nil
  then show ?case by (simp add: eyelid_run_def timer_ok_def EyelidSync_new_def)
next
  case (snoc e evs)
  obtain f now where e: "e = (f, now)" by (cases e)
  obtain f' s' where a: "EyelidSync_Apply freq now strength True (f, eyelid_run freq strength evs) = (f', s')" by fastforce
  have "timer_ok freq (evs @ [(f, now)]) s'"
    using EyelidSync_Apply_step [OF _ _ _ assms(1) a] snoc by (simp add: e)
  then show ?case using a by (simp add: e eyelid_run_def)
qed


definition wink_frame :: FaceTrackingFrameBody where
  "wink_frame = zero_frame\<lparr>ff_flags := 1, eye_openness_l := Fin 1, eye_confidence_l := Fin 1, eye_confidence_r := Fin 1\<rparr>"


section \<open>Wedged hosts\<close>

text \<open>The times at which the detector restarts the host, over the iterations of the worker loop.\<close>

fun wedge_restarts :: "(int \<times> u32 \<times> u64) list \<Rightarrow> wedge_detector \<Rightarrow> int list" where
  "wedge_restarts [] w = []"
| "wedge_restarts ((now, st, hb) # evs) w = (let (w', out) = wedge_tick now st hb w
     in (if out = WedgeRestart then [now] else []) @ wedge_restarts evs w')"

lemma wedge_restarts_pending:
  assumes "\<forall>(now, st, hb) \<in> set evs. is_wedged st hb \<or> hb = - 1" "wedge_restart_pending w"
  shows "successively (\<lambda>a b. 10 \<le> (b - a) div 1000000000) (last_wedge_restart_time w # wedge_restarts evs w)"
  using assms
proof (induction evs arbitrary: w)
  case (Cons e evs)
  obtain now st hb where e: "e = (now, st, hb)" by (cases e)
  obtain w' out where t: "wedge_tick now st hb w = (w', out)" by fastforce
  have w': "wedge_restart_pending w'" "out = WedgeRestart \<longrightarrow> last_wedge_restart_time w' = now \<and>
      10 \<le> (now - last_wedge_restart_time w) div 1000000000"
    "out \<noteq> WedgeRestart \<longrightarrow> last_wedge_restart_time w' = last_wedge_restart_time w"
    using t Cons.prems by (auto simp: wedge_tick_def e split: if_splits)
  have IH: "successively (\<lambda>a b. 10 \<le> (b - a) div 1000000000) (last_wedge_restart_time w' # wedge_restarts evs w')"
    using Cons.IH [OF _ w'(1)] Cons.prems(1) by simp
  then show ?case using w'(2,3) t by (cases "out = WedgeRestart") (auto simp: e)
qed simp

text \<open>Wedged hosts. A host that is draining or writes no heartbeat is never restarted. Until a
  heartbeat is seen that is not too old, restarts are at least ten seconds apart; and a host found wedged is
  restarted at once when none is pending or ten seconds have passed.\<close>

theorem wedge_restarts_spaced:
  assumes "\<forall>(now, st, hb) \<in> set evs. is_wedged st hb \<or> hb = - 1"
  shows "successively (\<lambda>a b. 10 \<le> (b - a) div 1000000000) (wedge_restarts evs w) \<and>
    \<not> is_wedged HostStateDraining hb \<and> \<not> is_wedged HostStateLegacy hb \<and> \<not> is_wedged st (- 1) \<and>
    (is_wedged st hb \<and> (wedge_restart_pending w \<longrightarrow> 10 \<le> (now - last_wedge_restart_time w) div 1000000000) \<longrightarrow>
      snd (wedge_tick now st hb w) = WedgeRestart)"
proof -
  have "hb \<le> (- 1 :: u64)" by simp
  then have d: "\<not> is_wedged HostStateDraining hb"
    by (simp add: is_wedged_def wedge_threshold_ms_def HostStateDraining_def HostStatePublishing_def HostStateIdle_def not_less)
  have "successively (\<lambda>a b. 10 \<le> (b - a) div 1000000000) (wedge_restarts evs w)" using assms
  proof (induction evs arbitrary: w)
    case (Cons e evs)
    obtain now st hb where e: "e = (now, st, hb)" by (cases e)
    obtain w' out where t: "wedge_tick now st hb w = (w', out)" by fastforce
    have r: "out = WedgeRestart \<longrightarrow> wedge_restart_pending w' \<and> last_wedge_restart_time w' = now"
      using t by (auto simp: wedge_tick_def split: if_splits)
    have "\<forall>(now, st, hb) \<in> set evs. is_wedged st hb \<or> hb = - 1" using Cons.prems by simp
    note rest = wedge_restarts_pending [OF this, of w'] Cons.IH [OF this, of w']
    show ?case using rest r t by (cases "out = WedgeRestart") (auto simp: e)
  qed simp
  then show ?thesis using d by (auto simp: wedge_tick_def) (simp_all add: is_wedged_def)
qed

theorem wedge_restarts_spaced_witness:
  "wedge_restarts [(0, 1, 2500), (100, 0, - 1), (5000000000, 1, 2600), (11000000000, 1, 2600)] wedge_new = [0, 11000000000] \<and>
   successively (\<lambda>a b. 10 \<le> (b - a) div 1000000000)
     (wedge_restarts [(0, 1, 2500), (100, 0, - 1), (5000000000, 1, 2600), (11000000000, 1, 2600)] wedge_new)"
proof -
  let ?evs = "[(0, 1, 2500), (100, 0, - 1), (5000000000, 1, 2600), (11000000000, 1, 2600)] :: (int \<times> u32 \<times> u64) list"
  have w: "is_wedged 1 2500" "is_wedged 1 2600" "\<not> is_wedged 0 (- 1)"
    by (simp_all add: is_wedged_def wedge_threshold_ms_def HostStatePublishing_def HostStateLegacy_def)
  have "\<forall>(now, st, hb) \<in> set ?evs. is_wedged st hb \<or> hb = - 1" using w by simp
  from wedge_restarts_spaced [OF this, of wedge_new] show ?thesis
    using w by (simp add: wedge_tick_def wedge_new_def)
qed

section \<open>Gaze\<close>

text \<open>The vergence lock changes nothing but gaze directions; with both eyes lost it changes
  nothing, and with one eye lost only the direction of that eye.\<close>

lemma vergence_touches_gaze:
  "let f' = fst (VergenceLock_Apply k (f, v)) in
     f' = f\<lparr>eye_gaze_l := eye_gaze_l f', eye_gaze_r := eye_gaze_r f'\<rparr> \<and>
     (eye_confidence_l f < lit 0.3 \<and> eye_confidence_r f < lit 0.3 \<longrightarrow> f' = f) \<and>
     (eye_confidence_l f < lit 0.3 \<longrightarrow> eye_gaze_r f' = eye_gaze_r f) \<and>
     (eye_confidence_r f < lit 0.3 \<longrightarrow> eye_gaze_l f' = eye_gaze_l f)"
  by (simp add: VergenceLock_Apply_def vergence_solve_def Let_def split: option.split)

lemma vergence_focus_stale:
  "eye_confidence_l f < lit 0.3 \<Longrightarrow> last_focus_m (snd (VergenceLock_Apply k (f, v))) = last_focus_m v"
  by (simp add: VergenceLock_Apply_def Let_def)

end
