(* ===== verification/HostSupervisor.thy ===== *)
theory HostSupervisor
  imports WK_Prelude
begin

text \<open>
  The supervisor of a feature-host process (\<open>core/src/common/HostSupervisorBase.h\<close>, \<open>.cpp\<close>):
  spawning or attaching, the monitor thread with its back-off and circuit breaker, and
  \<open>Start\<close>, \<open>Stop\<close> and \<open>Restart\<close> called by the driver while the monitor runs.

  A step is what a thread does between two points where the other can come in: one critical
  section, one atomic store, one call. The answers of Windows calls are the inputs of a step
  (\<open>win32\<close>). The virtual hooks \<open>OnHostReady\<close> and \<open>OnHostExited\<close> belong to the subclass; a step
  records that it calls them. Log lines and the job object's limits have no effect on the state.
\<close>

section \<open>State\<close>

definition kFastExitThresholdMs :: int where "kFastExitThresholdMs = 2000"
definition kCircuitBreakerThreshold :: int where "kCircuitBreakerThreshold = 5"
definition kBackoffStartMs :: int where "kBackoffStartMs = 1000"
definition kBackoffMaxMs :: int where "kBackoffMaxMs = 30000"

lemmas supervisor_constants = kFastExitThresholdMs_def kCircuitBreakerThreshold_def
  kBackoffStartMs_def kBackoffMaxMs_def

text \<open>A process is a number; \<open>None\<close> in \<open>process_handle\<close> is \<open>INVALID_HANDLE_VALUE\<close>.\<close>

record supervisor =
  host_exe_path :: string
  stop_requested :: bool
  running :: bool
  process_handle :: "nat option"
  job_handle :: bool
  attached_to_existing :: bool
  consecutive_fast_exits :: int
  halted :: bool
  last_exit_code :: u32
  last_exit_description :: string

definition supervisor_new :: "string \<Rightarrow> bool \<Rightarrow> supervisor" where
  "supervisor_new path job = \<lparr>host_exe_path = path, stop_requested = False, running = False,
     process_handle = None, job_handle = job, attached_to_existing = False,
     consecutive_fast_exits = 0, halted = False, last_exit_code = 0, last_exit_description = []\<rparr>"

text \<open>What the calls of one step answer: whether a process is still running
  (\<open>WaitForSingleObject\<close> with 0 gives \<open>WAIT_TIMEOUT\<close>), whether the long wait saw it end, the
  control pipe, the singleton mutex, the path conversion, \<open>CreateProcessW\<close>, the exit codes and
  the clock in milliseconds.\<close>

record win32 =
  still_running :: "nat \<Rightarrow> bool"
  wait_signalled :: bool
  wait_pipe :: bool
  open_pipe :: bool
  mutex_name :: string
  mutex_opens :: bool
  path_converts :: bool
  create_process :: "nat option"
  exit_code_of :: "nat \<Rightarrow> u32"
  clock :: int

definition CanConnectToHost :: "win32 \<Rightarrow> bool" where
  "CanConnectToHost E \<longleftrightarrow> wait_pipe E \<and> open_pipe E"

definition IsSingletonMutexHeld :: "win32 \<Rightarrow> bool" where
  "IsSingletonMutexHeld E \<longleftrightarrow> mutex_name E \<noteq> [] \<and> mutex_opens E"

definition IsCleanSingletonExit :: "u32 \<Rightarrow> bool" where
  "IsCleanSingletonExit c \<longleftrightarrow> c = 3 \<or> c = 4"

section \<open>Critical sections\<close>

datatype spawn_result = AlreadyRunning | Attached | Spawned | SpawnFailed

definition tracked_alive :: "win32 \<Rightarrow> supervisor \<Rightarrow> bool" where
  "tracked_alive E s = (case process_handle s of None \<Rightarrow> False | Some h \<Rightarrow> still_running E h)"

definition create_host :: "win32 \<Rightarrow> supervisor \<Rightarrow> spawn_result \<times> supervisor" where
  "create_host E s = (if \<not> path_converts E then (SpawnFailed, s)
     else case create_process E of None \<Rightarrow> (SpawnFailed, s)
     | Some p \<Rightarrow> (Spawned, s\<lparr>process_handle := Some p, attached_to_existing := False, running := True\<rparr>))"

definition Spawn :: "win32 \<Rightarrow> supervisor \<Rightarrow> spawn_result \<times> supervisor" where
  "Spawn E s = (if tracked_alive E s then (AlreadyRunning, s)
     else if CanConnectToHost E \<and> (mutex_name E = [] \<or> IsSingletonMutexHeld E)
       then (Attached, s\<lparr>attached_to_existing := True, running := True\<rparr>)
     else create_host E s)"

definition spawn_ok :: "spawn_result \<Rightarrow> bool" where
  "spawn_ok r \<longleftrightarrow> r \<noteq> SpawnFailed"

definition spawn_calls_ready :: "spawn_result \<Rightarrow> bool" where
  "spawn_calls_ready r \<longleftrightarrow> r = Attached \<or> r = Spawned"

definition Kill :: "supervisor \<Rightarrow> supervisor" where
  "Kill s = (case process_handle s of None \<Rightarrow> s
     | Some _ \<Rightarrow> s\<lparr>process_handle := None, attached_to_existing := False, running := False\<rparr>)"

definition reset_breaker :: "supervisor \<Rightarrow> supervisor" where
  "reset_breaker s = s\<lparr>halted := False, consecutive_fast_exits := 0\<rparr>"

definition note_exit :: "u32 \<Rightarrow> int \<Rightarrow> supervisor \<Rightarrow> supervisor" where
  "note_exit code uptime s = (if IsCleanSingletonExit code then s
     else let n = (if uptime < kFastExitThresholdMs then consecutive_fast_exits s + 1 else 0)
       in if n \<ge> kCircuitBreakerThreshold then s\<lparr>consecutive_fast_exits := n, halted := True\<rparr>
          else s\<lparr>consecutive_fast_exits := n\<rparr>)"

definition should_halt :: "u32 \<Rightarrow> int \<Rightarrow> supervisor \<Rightarrow> bool" where
  "should_halt code uptime s \<longleftrightarrow> \<not> IsCleanSingletonExit code
     \<and> (if uptime < kFastExitThresholdMs then consecutive_fast_exits s + 1 else 0) \<ge> kCircuitBreakerThreshold"

definition next_backoff :: "bool \<Rightarrow> int \<Rightarrow> int" where
  "next_backoff ok b = (if ok then kBackoffStartMs else min (b * 2) kBackoffMaxMs)"

section \<open>Stale hosts\<close>

definition lower_ascii :: "char \<Rightarrow> char" where
  "lower_ascii c = (if (65::nat) \<le> of_char c \<and> of_char c \<le> (90::nat) then char_of (of_char c + 32 :: nat) else c)"

definition ExtractImageName :: "string \<Rightarrow> string" where
  "ExtractImageName path = map lower_ascii (rev (takeWhile (\<lambda>c. c \<noteq> CHR 0x5C \<and> c \<noteq> CHR ''/'') (rev path)))"

text \<open>Wide characters outside ASCII are left out of the copy.\<close>

definition LowerAscii :: "u16 list \<Rightarrow> string" where
  "LowerAscii w = map (\<lambda>c. lower_ascii (char_of (unat c))) (filter (\<lambda>c. c < 128) (takeWhile (\<lambda>c. c \<noteq> 0) w))"

text \<open>An entry of the process snapshot, with whether the process can be opened and terminated.\<close>

record process_entry =
  szExeFile :: "u16 list"
  th32ProcessID :: u32
  opens :: bool
  terminates :: bool

text \<open>The identifiers of the processes it terminates; \<open>None\<close> stands for a snapshot that fails.\<close>

definition CleanupStaleHostIfWedged :: "win32 \<Rightarrow> u32 \<Rightarrow> process_entry list option \<Rightarrow> supervisor \<Rightarrow> u32 list" where
  "CleanupStaleHostIfWedged E self snap s =
     (if mutex_name E = [] \<or> \<not> IsSingletonMutexHeld E \<or> CanConnectToHost E then []
      else let image_lc = ExtractImageName (host_exe_path s) in
        if image_lc = [] then []
        else case snap of None \<Rightarrow> []
        | Some ps \<Rightarrow> map th32ProcessID (filter (\<lambda>p. LowerAscii (szExeFile p) = image_lc
            \<and> th32ProcessID p \<noteq> self \<and> opens p \<and> terminates p) ps))"

lemma CleanupStaleHostIfWedged_only:
  assumes "pid \<in> set (CleanupStaleHostIfWedged E self (Some ps) s)"
  shows "IsSingletonMutexHeld E \<and> \<not> CanConnectToHost E \<and> pid \<noteq> self
    \<and> (\<exists>p \<in> set ps. th32ProcessID p = pid \<and> LowerAscii (szExeFile p) = ExtractImageName (host_exe_path s))"
  using assms by (auto simp: CleanupStaleHostIfWedged_def Let_def split: if_splits)

section \<open>The two threads\<close>

datatype hook = HostReady | HostExited

text \<open>Where \<open>MonitorLoop\<close> stands. \<open>MNone\<close>: there is no thread to join; \<open>MDone\<close>: it has returned.
  The numbers are the local variables still needed: the handle, \<open>spawn_time\<close>, the exit code, the
  uptime.\<close>

datatype mpc = MNone | MDone
  | MTop | MRead | MNoHandle | MProbe | MDetach | MDetached | MAttachedCheck
  | MReady nat | MWait nat int | MReap int | MLostHandle | MExited u32 int
  | MRecord u32 int | MBreaker u32 int | MCheck | MSpawn | MSpawned spawn_result

datatype cpc = CIdle | CStartSpawn | CStartSpawned spawn_result
  | CStopKill | CStopJoin | CStopReset
  | CRestartExited | CRestartKill | CRestartCheck | CRestartSpawn | CRestartSpawned spawn_result

datatype client_call = CallStart | CallStop | CallRestart

text \<open>\<open>hook_calls\<close> and \<open>exits\<close> are histories: the hooks called so far and the exit codes the
  monitor has judged.\<close>

record sup_sys =
  svr :: supervisor
  mon :: mpc
  backoff_ms :: int
  cli :: cpc
  hook_calls :: "hook list"
  exits :: "u32 list"

definition sys_new :: "string \<Rightarrow> bool \<Rightarrow> sup_sys" where
  "sys_new path job = \<lparr>svr = supervisor_new path job, mon = MNone, backoff_ms = kBackoffStartMs,
     cli = CIdle, hook_calls = [], exits = []\<rparr>"

definition call_hook :: "hook \<Rightarrow> sup_sys \<Rightarrow> sup_sys" where
  "call_hook h s = s\<lparr>hook_calls := hook_calls s @ [h]\<rparr>"

definition call_hook_if :: "bool \<Rightarrow> hook \<Rightarrow> sup_sys \<Rightarrow> sup_sys" where
  "call_hook_if b h s = (if b then call_hook h s else s)"

definition upd_sup :: "(supervisor \<Rightarrow> supervisor) \<Rightarrow> sup_sys \<Rightarrow> sup_sys" where
  "upd_sup f s = s\<lparr>svr := f (svr s)\<rparr>"

definition wait_ms :: "int \<Rightarrow> int" where
  "wait_ms b = (if b > 1000 then b else 1000)"

fun MonitorLoop :: "(u32 \<Rightarrow> string) \<Rightarrow> win32 \<Rightarrow> mpc \<Rightarrow> sup_sys \<Rightarrow> sup_sys" where
  "MonitorLoop D E MNone s = s"
| "MonitorLoop D E MDone s = s"
| "MonitorLoop D E MTop s = s\<lparr>mon := if stop_requested (svr s) then MDone else MRead\<rparr>"
| "MonitorLoop D E MRead s = s\<lparr>mon := if halted (svr s) then MTop
     else case process_handle (svr s) of None \<Rightarrow> MNoHandle | Some h \<Rightarrow> MReady h\<rparr>"
| "MonitorLoop D E MNoHandle s = s\<lparr>mon := if attached_to_existing (svr s) then MProbe else MTop\<rparr>"
| "MonitorLoop D E MProbe s = (if \<not> CanConnectToHost E
     then upd_sup (running_update (\<lambda>_. False)) s\<lparr>mon := MDetach\<rparr>
     else call_hook HostReady s\<lparr>mon := MTop\<rparr>)"
| "MonitorLoop D E MDetach s = upd_sup (attached_to_existing_update (\<lambda>_. False)) s\<lparr>mon := MDetached\<rparr>"
| "MonitorLoop D E MDetached s = call_hook HostExited s\<lparr>mon := MAttachedCheck\<rparr>"
| "MonitorLoop D E MAttachedCheck s = s\<lparr>mon := if stop_requested (svr s) then MTop else MSpawn\<rparr>"
| "MonitorLoop D E (MReady h) s = call_hook HostReady s\<lparr>mon := MWait h (clock E)\<rparr>"
| "MonitorLoop D E (MWait h t0) s = s\<lparr>mon := if stop_requested (svr s) then MDone
     else if wait_signalled E then MReap t0 else MTop\<rparr>"
| "MonitorLoop D E (MReap t0) s = (case process_handle (svr s) of
       None \<Rightarrow> s\<lparr>mon := MLostHandle\<rparr>
     | Some h \<Rightarrow> upd_sup (process_handle_update (\<lambda>_. None)) s\<lparr>mon := MExited (exit_code_of E h) t0\<rparr>)"
| "MonitorLoop D E MLostHandle s = upd_sup (running_update (\<lambda>_. False)) s\<lparr>mon := MTop\<rparr>"
| "MonitorLoop D E (MExited code t0) s =
     call_hook HostExited (upd_sup (running_update (\<lambda>_. False)) s\<lparr>mon := MRecord code (clock E - t0)\<rparr>)"
| "MonitorLoop D E (MRecord code uptime) s =
     upd_sup (\<lambda>b. b\<lparr>last_exit_code := code, last_exit_description := D code\<rparr>) s\<lparr>mon := MBreaker code uptime\<rparr>"
| "MonitorLoop D E (MBreaker code uptime) s =
     upd_sup (note_exit code uptime) s\<lparr>mon := if should_halt code uptime (svr s) then MTop else MCheck,
       exits := exits s @ [code]\<rparr>"
| "MonitorLoop D E MCheck s = s\<lparr>mon := if stop_requested (svr s) then MDone else MSpawn\<rparr>"
| "MonitorLoop D E MSpawn s = (let (r, b) = Spawn E (svr s) in s\<lparr>svr := b, mon := MSpawned r\<rparr>)"
| "MonitorLoop D E (MSpawned r) s =
     call_hook_if (spawn_calls_ready r) HostReady s\<lparr>mon := MTop, backoff_ms := next_backoff (spawn_ok r) (backoff_ms s)\<rparr>"

definition monitor_step :: "(u32 \<Rightarrow> string) \<Rightarrow> win32 \<Rightarrow> sup_sys \<Rightarrow> sup_sys" where
  "monitor_step D E s = MonitorLoop D E (mon s) s"

text \<open>The driver's calls. \<open>Start\<close> is called when there is no thread to join; \<open>Stop\<close> waits in
  \<open>CStopJoin\<close> until the monitor has returned.\<close>

fun call_entry :: "client_call \<Rightarrow> sup_sys \<Rightarrow> sup_sys" where
  "call_entry CallStart s = (if host_exe_path (svr s) = [] then s
     else upd_sup (\<lambda>b. (reset_breaker b)\<lparr>stop_requested := False, attached_to_existing := False\<rparr>) s\<lparr>cli := CStartSpawn\<rparr>)"
| "call_entry CallStop s = upd_sup (stop_requested_update (\<lambda>_. True)) s\<lparr>cli := CStopKill\<rparr>"
| "call_entry CallRestart s = upd_sup reset_breaker s\<lparr>cli := CRestartExited\<rparr>"

fun client_at :: "win32 \<Rightarrow> cpc \<Rightarrow> sup_sys \<Rightarrow> sup_sys" where
  "client_at E CIdle s = s"
| "client_at E CStartSpawn s = (let (r, b) = Spawn E (svr s) in s\<lparr>svr := b, cli := CStartSpawned r\<rparr>)"
| "client_at E (CStartSpawned r) s = call_hook_if (spawn_calls_ready r) HostReady
     (if spawn_ok r then s\<lparr>cli := CIdle, mon := MTop, backoff_ms := kBackoffStartMs\<rparr> else s\<lparr>cli := CIdle\<rparr>)"
| "client_at E CStopKill s = upd_sup Kill s\<lparr>cli := CStopJoin\<rparr>"
| "client_at E CStopJoin s = (if mon s = MNone \<or> mon s = MDone then s\<lparr>mon := MNone, cli := CStopReset\<rparr> else s)"
| "client_at E CStopReset s = upd_sup reset_breaker s\<lparr>cli := CIdle\<rparr>"
| "client_at E CRestartExited s = call_hook HostExited s\<lparr>cli := CRestartKill\<rparr>"
| "client_at E CRestartKill s = upd_sup Kill s\<lparr>cli := CRestartCheck\<rparr>"
| "client_at E CRestartCheck s = s\<lparr>cli := if stop_requested (svr s) then CIdle else CRestartSpawn\<rparr>"
| "client_at E CRestartSpawn s = (let (r, b) = Spawn E (svr s) in s\<lparr>svr := b, cli := CRestartSpawned r\<rparr>)"
| "client_at E (CRestartSpawned r) s = call_hook_if (spawn_calls_ready r) HostReady s\<lparr>cli := CIdle\<rparr>"

definition client_step :: "win32 \<Rightarrow> sup_sys \<Rightarrow> sup_sys" where
  "client_step E s = client_at E (cli s) s"

datatype sup_action = Mon win32 | Cli win32 | Call client_call

definition call_allowed :: "client_call \<Rightarrow> sup_sys \<Rightarrow> bool" where
  "call_allowed c s \<longleftrightarrow> cli s = CIdle \<and> (c = CallStart \<longrightarrow> mon s = MNone)"

fun sup_act :: "(u32 \<Rightarrow> string) \<Rightarrow> sup_action \<Rightarrow> sup_sys \<Rightarrow> sup_sys" where
  "sup_act D (Mon E) s = monitor_step D E s"
| "sup_act D (Cli E) s = client_step E s"
| "sup_act D (Call c) s = (if call_allowed c s then call_entry c s else s)"

text \<open>The states that occur when every step satisfies \<open>P\<close>, an assumption on the environment.\<close>

inductive sup_reach :: "(u32 \<Rightarrow> string) \<Rightarrow> (sup_action \<Rightarrow> sup_sys \<Rightarrow> bool) \<Rightarrow> sup_sys \<Rightarrow> bool"
  for D P where
  sup_init: "sup_reach D P (sys_new path job)"
| sup_next: "sup_reach D P s \<Longrightarrow> P a s \<Longrightarrow> sup_reach D P (sup_act D a s)"

section \<open>The circuit breaker\<close>

lemma call_hook_simps [simp]: "svr (call_hook h s) = svr s" "mon (call_hook h s) = mon s"
  "cli (call_hook h s) = cli s" "backoff_ms (call_hook h s) = backoff_ms s" "exits (call_hook h s) = exits s"
  by (simp_all add: call_hook_def)

lemma call_hook_if_simps [simp]: "svr (call_hook_if b h s) = svr s" "mon (call_hook_if b h s) = mon s"
  "cli (call_hook_if b h s) = cli s" "backoff_ms (call_hook_if b h s) = backoff_ms s"
  "exits (call_hook_if b h s) = exits s"
  by (simp_all add: call_hook_if_def)

lemma upd_sup_simps [simp]: "svr (upd_sup f s) = f (svr s)" "mon (upd_sup f s) = mon s"
  "cli (upd_sup f s) = cli s" "backoff_ms (upd_sup f s) = backoff_ms s" "exits (upd_sup f s) = exits s"
  by (simp_all add: upd_sup_def)

lemma Spawn_breaker: "Spawn E b = (r, b') \<Longrightarrow> halted b' = halted b
    \<and> consecutive_fast_exits b' = consecutive_fast_exits b \<and> stop_requested b' = stop_requested b"
  by (auto simp: Spawn_def create_host_def split: if_splits option.splits)

lemma Kill_breaker [simp]: "halted (Kill b) = halted b"
  "consecutive_fast_exits (Kill b) = consecutive_fast_exits b" "stop_requested (Kill b) = stop_requested b"
  by (simp_all add: Kill_def split: option.split)

definition breaker_ok :: "supervisor \<Rightarrow> bool" where
  "breaker_ok b \<longleftrightarrow> 0 \<le> consecutive_fast_exits b \<and> consecutive_fast_exits b \<le> kCircuitBreakerThreshold
     \<and> (halted b \<longleftrightarrow> consecutive_fast_exits b = kCircuitBreakerThreshold)"

definition at_rest :: "mpc \<Rightarrow> bool" where
  "at_rest m \<longleftrightarrow> m \<in> {MNone, MDone, MTop, MRead}"

definition sup_inv :: "sup_sys \<Rightarrow> bool" where
  "sup_inv s \<longleftrightarrow> breaker_ok (svr s) \<and> (halted (svr s) \<longrightarrow> at_rest (mon s))"

lemma breaker_ok_cong: "halted b' = halted b \<Longrightarrow> consecutive_fast_exits b' = consecutive_fast_exits b
    \<Longrightarrow> breaker_ok b' = breaker_ok b"
  by (simp add: breaker_ok_def)

lemma breaker_ok_reset [simp]: "breaker_ok (reset_breaker b)" "\<not> halted (reset_breaker b)"
  by (simp_all add: breaker_ok_def reset_breaker_def kCircuitBreakerThreshold_def)

lemma note_exit_breaker:
  assumes "breaker_ok b" "\<not> halted b"
  shows "breaker_ok (note_exit c u b)" "halted (note_exit c u b) = should_halt c u b"
  using assms by (auto simp: breaker_ok_def note_exit_def should_halt_def supervisor_constants Let_def)

lemma monitor_step_inv:
  assumes "sup_inv s"
  shows "sup_inv (monitor_step D E s)"
proof (cases "mon s")
  case (MBreaker c u)
  then show ?thesis using assms note_exit_breaker [of "svr s" c u]
    by (auto simp: sup_inv_def monitor_step_def at_rest_def)
next
  case MSpawn
  obtain r b where sp: "Spawn E (svr s) = (r, b)" by fastforce
  with Spawn_breaker [OF sp] show ?thesis using assms MSpawn
    by (auto simp: sup_inv_def monitor_step_def at_rest_def breaker_ok_def)
qed (use assms in \<open>auto simp: sup_inv_def monitor_step_def at_rest_def breaker_ok_def split: option.split\<close>)

lemma client_step_inv:
  assumes "sup_inv s"
  shows "sup_inv (client_step E s)"
proof -
  obtain r b where sp: "Spawn E (svr s) = (r, b)" by fastforce
  show ?thesis using assms Spawn_breaker [OF sp]
    by (cases "cli s") (auto simp: sup_inv_def client_step_def sp at_rest_def breaker_ok_def reset_breaker_def kCircuitBreakerThreshold_def)
qed

lemma call_entry_inv: "sup_inv s \<Longrightarrow> sup_inv (call_entry c s)"
  by (cases c) (auto simp: sup_inv_def at_rest_def breaker_ok_def reset_breaker_def kCircuitBreakerThreshold_def)

lemma sup_inv_new: "sup_inv (sys_new path job)"
  by (simp add: sup_inv_def sys_new_def supervisor_new_def breaker_ok_def kCircuitBreakerThreshold_def)

lemma sup_act_inv: "sup_inv s \<Longrightarrow> sup_inv (sup_act D a s)"
  by (cases a) (simp_all add: monitor_step_inv client_step_inv call_entry_inv)

lemma sup_reach_inv: "sup_reach D P s \<Longrightarrow> sup_inv s"
  by (induction rule: sup_reach.induct) (simp_all add: sup_inv_new sup_act_inv)

section \<open>Stopping\<close>

text \<open>How many steps the monitor can still take once a stop is requested.\<close>

fun mon_rank :: "mpc \<Rightarrow> nat" where
  "mon_rank MNone = 0" | "mon_rank MDone = 0" | "mon_rank MTop = 1" | "mon_rank MRead = 8"
| "mon_rank MNoHandle = 7" | "mon_rank MProbe = 6" | "mon_rank MDetach = 4" | "mon_rank MDetached = 3"
| "mon_rank MAttachedCheck = 2" | "mon_rank (MReady h) = 2" | "mon_rank (MWait h t) = 1"
| "mon_rank (MReap t) = 6" | "mon_rank MLostHandle = 2" | "mon_rank (MExited c t) = 5"
| "mon_rank (MRecord c u) = 4" | "mon_rank (MBreaker c u) = 3" | "mon_rank MCheck = 1"
| "mon_rank MSpawn = 3" | "mon_rank (MSpawned r) = 2"

lemma monitor_step_stop:
  assumes "stop_requested (svr s)"
  shows "stop_requested (svr (monitor_step D E s))"
    and "mon_rank (mon (monitor_step D E s)) \<le> mon_rank (mon s) - 1"
    and "mon s \<noteq> MNone \<Longrightarrow> mon (monitor_step D E s) \<noteq> MNone"
proof -
  obtain r b where sp: "Spawn E (svr s) = (r, b)" by fastforce
  note facts = assms Spawn_breaker [OF sp]
  show "stop_requested (svr (monitor_step D E s))"
    using facts by (cases "mon s") (auto simp: monitor_step_def sp note_exit_def Let_def split: option.split)
  show "mon_rank (mon (monitor_step D E s)) \<le> mon_rank (mon s) - 1"
    using facts by (cases "mon s") (auto simp: monitor_step_def sp split: option.split)
  show "mon s \<noteq> MNone \<Longrightarrow> mon (monitor_step D E s) \<noteq> MNone"
    using facts by (cases "mon s") (auto simp: monitor_step_def sp split: option.split)
qed

lemma mon_rank_bound: "mon_rank m \<le> 8"
  by (cases m) simp_all

lemma mon_rank_0: "mon_rank m = 0 \<longleftrightarrow> m = MNone \<or> m = MDone"
  by (cases m) simp_all

lemma monitor_stops:
  assumes "stop_requested (svr s)" "mon s \<noteq> MNone" "mon_rank (mon s) \<le> length Es"
  shows "mon (fold (monitor_step D) Es s) = MDone"
  using assms
proof (induction Es arbitrary: s)
  case Nil
  then show ?case by (simp add: mon_rank_0)
next
  case (Cons E Es)
  then show ?case using monitor_step_stop [OF Cons.prems(1), of D E] by simp
qed

section \<open>What counts as a fast exit\<close>

definition crashes :: "u32 list \<Rightarrow> nat" where
  "crashes cs = length (filter (\<lambda>c. \<not> IsCleanSingletonExit c) cs)"

text \<open>An environment in which nothing is late: the exit is handled less than a second after the
  wait of \<open>wait_ms\<close> began to expire, and the monitor's \<open>CreateProcessW\<close> succeeds. How often the
  wait times out before the host ends, and so how long a host lives, is left open.\<close>

fun prompt_env :: "sup_action \<Rightarrow> sup_sys \<Rightarrow> bool" where
  "prompt_env (Mon E) s \<longleftrightarrow>
     (case mon s of MExited c t0 \<Rightarrow> clock E - t0 < wait_ms (backoff_ms s) + 1000
      | MSpawn \<Rightarrow> path_converts E \<and> create_process E \<noteq> None | _ \<Rightarrow> True)"
| "prompt_env (Cli E) s \<longleftrightarrow> True"
| "prompt_env (Call c) s \<longleftrightarrow> c = CallStart"

fun fast_pc :: "mpc \<Rightarrow> bool" where
  "fast_pc (MRecord c u) \<longleftrightarrow> u < kFastExitThresholdMs"
| "fast_pc (MBreaker c u) \<longleftrightarrow> u < kFastExitThresholdMs"
| "fast_pc (MSpawned r) \<longleftrightarrow> spawn_ok r"
| "fast_pc _ \<longleftrightarrow> True"

fun starting :: "cpc \<Rightarrow> bool" where
  "starting CStartSpawn \<longleftrightarrow> True"
| "starting (CStartSpawned r) \<longleftrightarrow> True"
| "starting _ \<longleftrightarrow> False"

definition crash_inv :: "sup_sys \<Rightarrow> bool" where
  "crash_inv s \<longleftrightarrow> backoff_ms s = kBackoffStartMs
     \<and> consecutive_fast_exits (svr s) = int (crashes (exits s)) \<and> fast_pc (mon s)
     \<and> (cli s = CIdle \<or> starting (cli s) \<and> mon s = MNone) \<and> (mon s = MNone \<longrightarrow> exits s = [])"

lemma Spawn_succeeds: "path_converts E \<Longrightarrow> create_process E \<noteq> None \<Longrightarrow> spawn_ok (fst (Spawn E b))"
  by (auto simp: Spawn_def create_host_def spawn_ok_def)

lemma note_exit_fast: "u < kFastExitThresholdMs \<Longrightarrow> consecutive_fast_exits (note_exit c u b)
    = consecutive_fast_exits b + (if IsCleanSingletonExit c then 0 else 1)"
  by (simp add: note_exit_def Let_def)

lemma crash_inv_monitor:
  assumes "crash_inv s" "prompt_env (Mon E) s"
  shows "crash_inv (monitor_step D E s)"
proof -
  obtain r b where sp: "Spawn E (svr s) = (r, b)" by fastforce
  show ?thesis
    using assms Spawn_breaker [OF sp] Spawn_succeeds [of E "svr s"]
    by (cases "mon s") (auto simp: crash_inv_def monitor_step_def sp note_exit_fast crashes_def
        wait_ms_def next_backoff_def supervisor_constants split: option.split)
qed

lemma crash_inv_client: "crash_inv s \<Longrightarrow> crash_inv (client_step E s)"
proof -
  obtain r b where sp: "Spawn E (svr s) = (r, b)" by fastforce
  show "crash_inv s \<Longrightarrow> ?thesis" using Spawn_breaker [OF sp]
    by (cases "cli s") (auto simp: crash_inv_def client_step_def sp)
qed

lemma crash_inv_start: "crash_inv s \<Longrightarrow> call_allowed CallStart s \<Longrightarrow> crash_inv (call_entry CallStart s)"
  by (simp add: crash_inv_def call_allowed_def reset_breaker_def crashes_def)

lemma crash_inv_act: "crash_inv s \<Longrightarrow> prompt_env a s \<Longrightarrow> crash_inv (sup_act D a s)"
  by (cases a) (auto simp: crash_inv_monitor crash_inv_client crash_inv_start simp del: call_entry.simps)

lemma crash_inv_new: "crash_inv (sys_new path job)"
  by (simp add: crash_inv_def sys_new_def supervisor_new_def crashes_def)

lemma sup_reach_crash_inv: "sup_reach D prompt_env s \<Longrightarrow> crash_inv s"
  by (induction rule: sup_reach.induct) (simp_all add: crash_inv_new crash_inv_act)

text \<open>A list of actions each of which the environment assumption allows.\<close>

fun run_within :: "(sup_action \<Rightarrow> sup_sys \<Rightarrow> bool) \<Rightarrow> (u32 \<Rightarrow> string) \<Rightarrow> sup_action list \<Rightarrow> sup_sys \<Rightarrow> bool" where
  "run_within P D [] s \<longleftrightarrow> True"
| "run_within P D (a # as) s \<longleftrightarrow> P a s \<and> run_within P D as (sup_act D a s)"

lemma sup_reach_run: "sup_reach D P s \<Longrightarrow> run_within P D as s \<Longrightarrow> sup_reach D P (fold (sup_act D) as s)"
  by (induction as arbitrary: s) (simp_all add: sup_next)

section \<open>Example environments\<close>

definition quiet_env :: "nat option \<Rightarrow> win32" where
  "quiet_env p = \<lparr>still_running = (\<lambda>h. h \<ge> 2), wait_signalled = True, wait_pipe = False, open_pipe = False,
     mutex_name = [], mutex_opens = False, path_converts = True, create_process = p,
     exit_code_of = (\<lambda>h. if h \<ge> 2 then 259 else 1), clock = 0\<rparr>"

definition pipe_env :: win32 where
  "pipe_env = (quiet_env None)\<lparr>wait_pipe := True, open_pipe := True\<rparr>"

definition host_path :: string where "host_path = ''host.exe''"

definition started_with :: "win32 \<Rightarrow> sup_sys" where
  "started_with E = fold (sup_act (\<lambda>_. [])) [Call CallStart, Cli E, Cli E] (sys_new host_path False)"

lemmas demo_simps = started_with_def quiet_env_def pipe_env_def host_path_def sys_new_def supervisor_new_def
  call_allowed_def client_step_def monitor_step_def Spawn_def create_host_def tracked_alive_def
  CanConnectToHost_def IsSingletonMutexHeld_def spawn_calls_ready_def spawn_ok_def call_hook_if_def call_hook_def
  upd_sup_def reset_breaker_def Kill_def note_exit_def should_halt_def IsCleanSingletonExit_def
  supervisor_constants next_backoff_def Let_def

text \<open>A host that ends 100.5 s after it was spawned: the first wait times out.\<close>

definition at_time :: "int \<Rightarrow> bool \<Rightarrow> sup_action" where
  "at_time t ended = Mon ((quiet_env None)\<lparr>clock := t, wait_signalled := ended\<rparr>)"

definition long_life :: "sup_action list" where
  "long_life = [Call CallStart, Cli (quiet_env (Some 1)), Cli (quiet_env None),
     at_time 0 False, at_time 0 False, at_time 0 False, at_time 1000 False,
     at_time 100000 False, at_time 100000 False, at_time 100000 False, at_time 100500 True,
     at_time 100500 True, at_time 100500 True, at_time 100500 True, at_time 100500 True]"

definition restart_calls :: "sup_action list" where
  "restart_calls = [Call CallStart, Cli (quiet_env (Some 1)), Cli (quiet_env None)]
     @ [Mon (quiet_env None), Mon (quiet_env None), Mon (quiet_env None)]
     @ [Call CallRestart, Cli (quiet_env None), Cli (quiet_env None), Mon (quiet_env None),
        Cli (quiet_env None), Cli (quiet_env (Some 2)), Cli (quiet_env None)]"

definition monitor_calls :: "sup_action list" where
  "monitor_calls = [Mon (quiet_env None), Mon (quiet_env None), Mon (quiet_env None), Mon (quiet_env None),
     Mon (quiet_env None), Mon (quiet_env (Some 3))]"

fun monitor_seeing :: "nat \<Rightarrow> sup_action \<Rightarrow> bool" where
  "monitor_seeing p (Mon E) \<longleftrightarrow> still_running E p"
| "monitor_seeing p _ \<longleftrightarrow> False"

section \<open>Properties\<close>

text \<open>
  C11. In every interleaving of the driver's calls with the monitor thread, whatever Windows
  answers, the count of fast exits is between 0 and 5, the breaker is open exactly when the count
  is 5, and while it is open the monitor neither spawns, attaches nor forgets a host: it leaves
  every field of the supervisor as it is, so that only \<open>Restart\<close>, \<open>Stop\<close> or \<open>Start\<close> close it.
\<close>

theorem breaker_invariant:
  assumes "sup_reach D P s"
  shows "0 \<le> consecutive_fast_exits (svr s) \<and> consecutive_fast_exits (svr s) \<le> kCircuitBreakerThreshold
    \<and> (halted (svr s) \<longleftrightarrow> consecutive_fast_exits (svr s) = kCircuitBreakerThreshold)
    \<and> (halted (svr s) \<longrightarrow> svr (monitor_step D E s) = svr s \<and> hook_calls (monitor_step D E s) = hook_calls s)"
  using sup_reach_inv [OF assms]
  by (cases "mon s") (auto simp: sup_inv_def breaker_ok_def at_rest_def monitor_step_def)

theorem breaker_invariant_witness:
  "consecutive_fast_exits (svr (fold (sup_act (\<lambda>_. [])) long_life (sys_new host_path False))) \<le> kCircuitBreakerThreshold"
proof -
  have "run_within (\<lambda>_ _. True) (\<lambda>_. []) as s" for as s by (induction as arbitrary: s) simp_all
  from breaker_invariant [OF sup_reach_run [OF sup_init this]] show ?thesis by blast
qed

text \<open>
  C40. Once a stop is requested the monitor returns within eight of its own steps, wherever it
  stands and whatever Windows answers, so the join of \<open>Stop\<close> does not wait for ever.
\<close>

theorem monitor_stop_terminates:
  assumes "stop_requested (svr s)" "mon s \<noteq> MNone" "8 \<le> length Es"
  shows "mon (fold (monitor_step D) Es s) = MDone"
  using monitor_stops [OF assms(1,2)] assms(3) mon_rank_bound [of "mon s"] by (meson le_trans)

theorem monitor_stop_terminates_witness:
  "mon (fold (monitor_step (\<lambda>_. [])) (replicate 8 pipe_env)
     (upd_sup (stop_requested_update (\<lambda>_. True)) (sys_new ''h'' True\<lparr>mon := MRead\<rparr>))) = MDone"
  by (rule monitor_stop_terminates) simp_all

text \<open>
  The uptime is measured from the start of the current wait, not from the spawn. So when the
  monitor is not delayed and its spawns succeed, every exit that is not a clean singleton exit
  counts as a fast one, however long the host had been running: the count never goes back, the
  breaker opens at the fifth crash since \<open>Start\<close>, and the back-off stays at its first value.
\<close>

theorem every_crash_counts:
  assumes "sup_reach D prompt_env s"
  shows "consecutive_fast_exits (svr s) = int (crashes (exits s))
    \<and> (halted (svr s) \<longleftrightarrow> crashes (exits s) = 5) \<and> backoff_ms s = kBackoffStartMs"
  using sup_reach_crash_inv [OF assms] sup_reach_inv [OF assms]
  by (auto simp: crash_inv_def sup_inv_def breaker_ok_def kCircuitBreakerThreshold_def)

theorem every_crash_counts_witness:
  "exits (fold (sup_act (\<lambda>_. [])) long_life (sys_new host_path False)) = [1]
   \<and> consecutive_fast_exits (svr (fold (sup_act (\<lambda>_. [])) long_life (sys_new host_path False))) = 1"
proof -
  let ?s = "fold (sup_act (\<lambda>_. [])) long_life (sys_new host_path False)"
  have "run_within prompt_env (\<lambda>_. []) long_life (sys_new host_path False)" and ex: "exits ?s = [1]"
    by (simp_all add: long_life_def at_time_def wait_ms_def demo_simps)
  then have "sup_reach (\<lambda>_. []) prompt_env ?s" by (intro sup_reach_run sup_init)
  from every_crash_counts [OF this] ex show ?thesis by (simp add: crashes_def IsCleanSingletonExit_def)
qed

text \<open>
  \<open>Restart\<close> can lose the host it has just spawned: when the monitor has seen the killed host
  end but has not yet taken the lock, it takes the new handle for the old one, records the exit
  code 259 (\<open>STILL_ACTIVE\<close>) as a crash, closes the handle of the running host and spawns another.
\<close>

theorem restart_race_loses_host:
  "\<exists>as bs. (let s = fold (sup_act D) as (sys_new ''host.exe'' job); s' = fold (sup_act D) bs s
     in process_handle (svr s) = Some 2 \<and> list_all (monitor_seeing 2) bs
       \<and> process_handle (svr s') = Some 3 \<and> exits s' = [259] \<and> last_exit_code (svr s') = 259
       \<and> consecutive_fast_exits (svr s') = 1)"
  by (rule exI [of _ restart_calls], rule exI [of _ monitor_calls])
     (simp add: demo_simps restart_calls_def monitor_calls_def)

text \<open>
  \<open>Restart\<close> kills and respawns a host the supervisor has spawned. When the control pipe
  answers (and the mutex, if any, is held) it attaches instead; in particular a host it was already
  attached to is neither killed nor replaced, though the subclass is told that it has exited.
\<close>

theorem restart_outcome:
  assumes "cli s = CIdle" "\<not> stop_requested (svr s)"
    and "s' = (client_step E ^^ 5) (call_entry CallRestart s)"
    and "ready \<longleftrightarrow> CanConnectToHost E \<and> (mutex_name E = [] \<or> IsSingletonMutexHeld E)"
  shows "cli s' = CIdle \<and> mon s' = mon s \<and> \<not> halted (svr s') \<and> consecutive_fast_exits (svr s') = 0
    \<and> (ready \<longrightarrow> process_handle (svr s') = None \<and> attached_to_existing (svr s') \<and> running (svr s')
          \<and> hook_calls s' = hook_calls s @ [HostExited, HostReady])
    \<and> (\<not> ready \<longrightarrow> path_converts E \<longrightarrow> process_handle (svr s') = create_process E)
    \<and> (\<not> ready \<longrightarrow> path_converts E \<longrightarrow> create_process E = None \<longrightarrow> hook_calls s' = hook_calls s @ [HostExited])"
  using assms
  by (auto simp: numeral_eq_Suc client_step_def Spawn_def create_host_def tracked_alive_def Kill_def upd_sup_def
      reset_breaker_def call_hook_if_def call_hook_def spawn_calls_ready_def split: option.split)

theorem restart_outcome_witness:
  "attached_to_existing (svr ((client_step pipe_env ^^ 5) (call_entry CallRestart (started_with pipe_env))))"
  using restart_outcome [where s = "started_with pipe_env" and E = pipe_env and ready = True, OF _ _ refl]
  by (simp add: demo_simps)

end
