(* ===== verification/OscWire.thy ===== *)
theory OscWire
  imports WK_Prelude
begin

text \<open>
  The OSC 1.0 codec of the driver's OSC router
  (\<open>modules/oscrouter/src/driver/OscWire.h\<close> and \<open>OscWire.cpp\<close>): the serializer
  \<open>OscPacket<N>\<close>, the bounds-checked reader \<open>OscReader\<close>, the message parser, the
  bundle dispatcher and the glob matcher for OSC addresses.

  Buffers are byte lists; \<open>size_t\<close> is a 64-bit word where its arithmetic matters
  (\<open>OscPad4\<close>) and a natural number where it indexes a buffer.
\<close>

unbundle bit_operations_syntax

section \<open>Padding\<close>

text \<open>\<open>(n + 3u) & ~3u\<close>: the mask \<open>~3u\<close> is a 32-bit constant, so it is zero-extended
  to \<open>0x00000000FFFFFFFC\<close> when it meets the 64-bit sum.\<close>

definition OscPad4 :: "u64 \<Rightarrow> u64" where
  "OscPad4 n = (n + 3) AND 0xFFFFFFFC"

abbreviation osc_pad4 :: "nat \<Rightarrow> nat" where
  "osc_pad4 n \<equiv> unat (OscPad4 (word_of_nat n))"

section \<open>Serialization\<close>

text \<open>\<open>OscPacket<N>\<close>: the bytes written so far (\<open>buf_[0 .. pos_)\<close>, so \<open>pos_\<close> is the
  length) and the sticky \<open>ok_\<close> flag; \<open>N\<close> is an argument of every write.\<close>

record OscPacket =
  pk_buf :: "byte list"
  pk_ok :: bool

definition OscPacket_new :: OscPacket where
  "OscPacket_new = \<lparr>pk_buf = [], pk_ok = True\<rparr>"

definition AppendByte :: "nat \<Rightarrow> byte \<Rightarrow> OscPacket \<Rightarrow> OscPacket" where
  "AppendByte N b p =
     (if \<not> pk_ok p then p
      else if length (pk_buf p) \<ge> N then p\<lparr>pk_ok := False\<rparr>
      else p\<lparr>pk_buf := pk_buf p @ [b]\<rparr>)"

definition Append :: "nat \<Rightarrow> byte list \<Rightarrow> OscPacket \<Rightarrow> OscPacket" where
  "Append N src p =
     (if \<not> pk_ok p then p
      else if length (pk_buf p) + length src > N then p\<lparr>pk_ok := False\<rparr>
      else p\<lparr>pk_buf := pk_buf p @ src\<rparr>)"

definition be32 :: "u32 \<Rightarrow> byte list" where
  "be32 v = [ucast (drop_bit 24 v), ucast (drop_bit 16 v), ucast (drop_bit 8 v), ucast v]"

text \<open>An \<open>int32_t\<close> is the word of its two's complement bits.\<close>

definition WriteInt32 :: "nat \<Rightarrow> u32 \<Rightarrow> OscPacket \<Rightarrow> OscPacket" where
  "WriteInt32 N v p = Append N (be32 v) p"

text \<open>\<open>WriteFloat\<close> copies the float's representation, so its argument is that
  representation.\<close>

definition WriteFloat :: "nat \<Rightarrow> u32 \<Rightarrow> OscPacket \<Rightarrow> OscPacket" where
  "WriteFloat N bits p = WriteInt32 N bits p"

fun append_zeros :: "nat \<Rightarrow> nat \<Rightarrow> OscPacket \<Rightarrow> OscPacket" where
  "append_zeros N 0 p = p"
| "append_zeros N (Suc k) p = append_zeros N k (AppendByte N 0 p)"

definition WriteStr :: "nat \<Rightarrow> string \<Rightarrow> OscPacket \<Rightarrow> OscPacket" where
  "WriteStr N s p =
     (let len = length s + 1;
          p1 = Append N (bytes_of_str s @ [0]) p
      in append_zeros N (osc_pad4 len - len) p1)"

definition WriteBlob :: "nat \<Rightarrow> byte list \<Rightarrow> OscPacket \<Rightarrow> OscPacket" where
  "WriteBlob N data p =
     (let len = length data;
          p1 = WriteInt32 N (word_of_nat len) p;
          p2 = Append N data p1
      in append_zeros N (osc_pad4 len - len) p2)"

definition WriteRawArgs :: "nat \<Rightarrow> byte list \<Rightarrow> OscPacket \<Rightarrow> OscPacket" where
  "WriteRawArgs N data p = Append N data p"

definition Begin :: "nat \<Rightarrow> string \<Rightarrow> string \<Rightarrow> OscPacket \<Rightarrow> OscPacket" where
  "Begin N address typetag p =
     WriteStr N typetag (WriteStr N address (p\<lparr>pk_buf := [], pk_ok := True\<rparr>))"

section \<open>Parsing\<close>

record OscReader =
  rd_data :: "byte list"
  rd_pos :: nat
  rd_valid :: bool

definition OscReader_new :: "byte list \<Rightarrow> OscReader" where
  "OscReader_new data = \<lparr>rd_data = data, rd_pos = 0, rd_valid = (length data > 0)\<rparr>"

abbreviation rd_size :: "OscReader \<Rightarrow> nat" where
  "rd_size r \<equiv> length (rd_data r)"

text \<open>\<open>strnlen(start, remaining)\<close>: the run of non-NUL bytes at the read position.\<close>

definition rd_strnlen :: "OscReader \<Rightarrow> nat" where
  "rd_strnlen r = length (takeWhile (\<lambda>b. b \<noteq> 0) (drop (rd_pos r) (rd_data r)))"

definition ReadStr :: "OscReader \<Rightarrow> OscReader \<times> string option" where
  "ReadStr r =
     (if \<not> rd_valid r then (r, None)
      else let remaining = rd_size r - rd_pos r; len = rd_strnlen r
        in if len = remaining then (r\<lparr>rd_valid := False\<rparr>, None)
           else let advance = osc_pad4 (len + 1)
             in if rd_pos r + advance > rd_size r then (r\<lparr>rd_valid := False\<rparr>, None)
                else (r\<lparr>rd_pos := rd_pos r + advance\<rparr>,
                      Some (cstr_of (drop (rd_pos r) (rd_data r)))))"

definition ReadBytes :: "nat \<Rightarrow> OscReader \<Rightarrow> OscReader \<times> byte list option" where
  "ReadBytes n r =
     (if \<not> rd_valid r then (r, None)
      else if rd_pos r + n > rd_size r then (r\<lparr>rd_valid := False\<rparr>, None)
      else (r\<lparr>rd_pos := rd_pos r + n\<rparr>, Some (take n (drop (rd_pos r) (rd_data r)))))"

definition of_be32 :: "byte list \<Rightarrow> u32" where
  "of_be32 b = push_bit 24 (ucast (b ! 0)) OR push_bit 16 (ucast (b ! 1))
     OR push_bit 8 (ucast (b ! 2)) OR ucast (b ! 3)"

definition ReadInt32 :: "OscReader \<Rightarrow> OscReader \<times> u32" where
  "ReadInt32 r =
     (case ReadBytes 4 r of (r', None) \<Rightarrow> (r', 0) | (r', Some b) \<Rightarrow> (r', of_be32 b))"

text \<open>\<open>ReadFloat\<close> returns the bits of the float.\<close>

definition ReadFloat :: "OscReader \<Rightarrow> OscReader \<times> u32" where
  "ReadFloat r = ReadInt32 r"

definition ReadBlob :: "OscReader \<Rightarrow> OscReader \<times> byte list option" where
  "ReadBlob r =
     (let (r1, raw) = ReadInt32 r
      in if \<not> rd_valid r1 \<or> sint raw < 0 then (r1\<lparr>rd_valid := False\<rparr>, None)
         else let len = unat raw
           in if rd_pos r1 + len > rd_size r1 then (r1\<lparr>rd_valid := False\<rparr>, None)
              else let r2 = r1\<lparr>rd_pos := rd_pos r1 + osc_pad4 len\<rparr>
                in if rd_pos r2 > rd_size r2 then (r2\<lparr>rd_valid := False\<rparr>, None)
                   else (r2, Some (take len (drop (rd_pos r1) (rd_data r1)))))"

text \<open>\<open>AtEnd\<close>, \<open>Remaining\<close> (an unsigned difference) and \<open>Pos\<close>.\<close>

definition AtEnd :: "OscReader \<Rightarrow> bool" where
  "AtEnd r \<longleftrightarrow> rd_pos r \<ge> rd_size r"

definition Remaining :: "OscReader \<Rightarrow> nat" where
  "Remaining r = rd_size r - rd_pos r"

record OscMessage =
  om_address :: "string option"
  om_typetag :: "string option"
  om_args :: "byte list"
  om_valid :: bool

definition OscParseMessage :: "byte list \<Rightarrow> OscMessage" where
  "OscParseMessage data =
     (let (r1, address) = ReadStr (OscReader_new data);
          (r2, typetag) = ReadStr r1;
          msg = \<lparr>om_address = address, om_typetag = typetag, om_args = [], om_valid = False\<rparr>
      in if \<not> rd_valid r2 \<or> address = None \<or> typetag = None then msg
         else msg\<lparr>om_args := drop (rd_pos r2) data, om_valid := True\<rparr>)"

section \<open>Bundle dispatch\<close>

definition kOscBundlePrefix :: "byte list" where
  "kOscBundlePrefix = bytes_of_str ''#bundle'' @ [0]"

text \<open>The callback is called once per valid message, in order: the dispatcher is the
  list of the messages it passes to the callback.\<close>

function OscDispatch :: "byte list \<Rightarrow> OscMessage list"
  and OscBundleLoop :: "byte list \<Rightarrow> nat \<Rightarrow> OscMessage list" where
  "OscDispatch data =
     (if length data < 8 then []
      else if take 8 data = kOscBundlePrefix then
        (if length data < 16 then [] else OscBundleLoop data 16)
      else let msg = OscParseMessage data in if om_valid msg then [msg] else [])"
| "OscBundleLoop data pos =
     (if pos + 4 \<le> length data then
        (let len = unat (of_be32 (take 4 (drop pos data))) in
         if pos + 4 + len > length data then []
         else OscDispatch (take len (drop (pos + 4) data)) @ OscBundleLoop data (pos + 4 + len))
      else [])"
  by pat_completeness auto
termination
  by (relation "measure (\<lambda>x. case x of Inl d \<Rightarrow> length d + 1 | Inr (d, p) \<Rightarrow> length d - p)") auto

declare OscDispatch.simps [simp del] OscBundleLoop.simps [simp del]

section \<open>Address patterns\<close>

text \<open>\<open>MatchCharClass\<close>: the characters after \<open>[\<close>, the character \<open>ch\<close>. The loop
  returns the \<open>matched\<close> flag and the text after the closing bracket, or nothing when the
  class is not closed (\<open>ok = false\<close>).\<close>

fun char_class_loop :: "string \<Rightarrow> char \<Rightarrow> bool \<Rightarrow> (bool \<times> string) option" where
  "char_class_loop [] ch matched = None"
| "char_class_loop (c1 # p) ch matched =
     (if c1 = CHR '']'' then Some (matched, p)
      else case p of
        d # c2 # p' \<Rightarrow>
          (if d = CHR ''-'' \<and> c2 \<noteq> CHR '']'' then
             char_class_loop p' ch (matched \<or> (schar ch \<ge> schar c1 \<and> schar ch \<le> schar c2))
           else char_class_loop p ch (matched \<or> ch = c1))
      | _ \<Rightarrow> char_class_loop p ch (matched \<or> ch = c1))"

definition MatchCharClass :: "string \<Rightarrow> char \<Rightarrow> (bool \<times> string) option" where
  "MatchCharClass p ch =
     (let negated = (p \<noteq> [] \<and> hd p = CHR ''!'');
          q = (if negated then tl p else p)
      in case char_class_loop q ch False of
           None \<Rightarrow> None
         | Some (matched, rest) \<Rightarrow> Some (if negated then \<not> matched else matched, rest))"

text \<open>The patterns \<open>MatchAlternates\<close> tries, in order: each alternative with the rest of
  the pattern appended in the 256-byte scratch buffer. The list ends where the code
  returns false without trying anything further. \<open>alt\<close> is the text between \<open>start\<close>
  and \<open>p\<close>; alternatives before the last are joined with \<open>rest\<close>, the last one with the
  text after the first closing brace.\<close>

definition alt_buffer_size :: nat where
  "alt_buffer_size = 256"

fun alternate_patterns :: "string \<Rightarrow> string \<Rightarrow> string \<Rightarrow> string list" where
  "alternate_patterns alt [] rest = []"
| "alternate_patterns alt (c # p) rest =
     (if c = CHR ''}'' then
        (if length alt \<ge> alt_buffer_size - 1 then []
         else if length alt + length p \<ge> alt_buffer_size then [] else [alt @ p])
      else if c = CHR '','' then
        (if length alt \<ge> alt_buffer_size - 1 then []
         else if length alt + length rest \<ge> alt_buffer_size then []
         else (alt @ rest) # alternate_patterns [] p rest)
      else alternate_patterns (alt @ [c]) p rest)"

text \<open>The scan for the matching brace: the text after it, or the empty string.\<close>

fun rest_after_brace :: "nat \<Rightarrow> string \<Rightarrow> string" where
  "rest_after_brace depth [] = []"
| "rest_after_brace depth (c # p) =
     (if depth = 0 then c # p
      else rest_after_brace (if c = CHR ''{'' then depth + 1
                             else if c = CHR ''}'' then depth - 1 else depth) p)"

lemma length_rest_after_brace: "length (rest_after_brace d p) \<le> length p"
  by (induction d p rule: rest_after_brace.induct) auto

fun nonempty_suffixes :: "string \<Rightarrow> string list" where
  "nonempty_suffixes [] = []"
| "nonempty_suffixes (c # a) = (c # a) # nonempty_suffixes a"

lemma char_class_loop_step:
  assumes "char_class_loop (c1 # p) ch m = Some (r, rest)"
  obtains (close) "rest = p"
  | (more) p' m' where "length p' \<le> length p" "char_class_loop p' ch m' = Some (r, rest)"
proof (cases "c1 = CHR '']''")
  case True
  with assms close show thesis by simp
next
  case False
  show thesis
  proof (cases p)
    case Nil
    with assms False show thesis by simp
  next
    case (Cons d p1)
    then show thesis
    proof (cases p1)
      case Nil
      with assms False Cons more [of p "m \<or> ch = c1"] show thesis by simp
    next
      case (Cons c2 p2)
      with \<open>p = d # p1\<close> assms False more [of p2] more [of p] show thesis
        by (simp split: if_splits)
    qed
  qed
qed

lemma char_class_loop_length:
  "char_class_loop p ch m = Some (r, rest) \<Longrightarrow> length rest < length p"
proof (induction p arbitrary: m rule: length_induct)
  case (1 p)
  show ?case
  proof (cases p)
    case Nil
    with "1.prems" show ?thesis by simp
  next
    case (Cons c1 p1)
    with "1.prems" have "char_class_loop (c1 # p1) ch m = Some (r, rest)" by simp
    then show ?thesis
    proof (cases rule: char_class_loop_step)
      case close
      with Cons show ?thesis by simp
    next
      case (more p' m')
      with Cons "1.IH" have "length rest < length p'" by (auto simp: less_Suc_eq_le)
      with more(1) Cons show ?thesis by simp
    qed
  qed
qed

lemma MatchCharClass_length:
  "MatchCharClass p ch = Some (r, rest) \<Longrightarrow> length rest < length p"
  by (auto simp: MatchCharClass_def Let_def split: option.splits if_splits
      dest!: char_class_loop_length)

text \<open>Every alternative is shorter than the text it is cut from: up to the first closing
  brace the scan for the matching brace has not stopped, so the rest it finds lies after the
  alternative.\<close>

lemma alternate_patterns_length:
  assumes "q \<in> set (alternate_patterns alt p (rest_after_brace (Suc d) p))"
  shows "length q < length alt + length p"
  using assms
proof (induction p arbitrary: alt d)
  case (Cons c p)
  consider (close) "c = CHR ''}''" | (comma) "c = CHR '',''" | (other) "c \<noteq> CHR ''}''" "c \<noteq> CHR '',''"
    by blast
  then show ?case
  proof cases
    case close
    then show ?thesis using Cons.prems by (simp split: if_splits)
  next
    case comma
    then have "q = alt @ rest_after_brace (Suc d) p \<or>
        q \<in> set (alternate_patterns [] p (rest_after_brace (Suc d) p))"
      using Cons.prems by (simp split: if_splits)
    then show ?thesis
      using Cons.IH [of "[]" d] length_rest_after_brace [of "Suc d" p] by fastforce
  next
    case other
    define d' where "d' = (if c = CHR ''{'' then Suc d else d)"
    have "rest_after_brace (Suc d) (c # p) = rest_after_brace (Suc d') p"
      using other by (simp add: d'_def)
    then have "q \<in> set (alternate_patterns (alt @ [c]) p (rest_after_brace (Suc d') p))"
      using Cons.prems other by simp
    then show ?thesis using Cons.IH [of "alt @ [c]" d'] by simp
  qed
qed simp

function PatternMatchImpl :: "string \<Rightarrow> string \<Rightarrow> bool" where
  "PatternMatchImpl [] a = (a = [])"
| "PatternMatchImpl (c # p) a =
     (if c = CHR ''?'' then (case a of [] \<Rightarrow> False | _ # a' \<Rightarrow> PatternMatchImpl p a')
      else if c = CHR ''*'' then
        (let p' = dropWhile (\<lambda>x. x = CHR ''*'') p in
         if p' = [] then True
         else list_ex (\<lambda>a'. PatternMatchImpl p' a') (nonempty_suffixes a))
      else if c = CHR ''['' then
        (case MatchCharClass p (case a of [] \<Rightarrow> CHR 0x00 | x # _ \<Rightarrow> x) of
           None \<Rightarrow> False
         | Some (hit, p') \<Rightarrow>
             (if \<not> hit then False
              else case a of [] \<Rightarrow> False | _ # a' \<Rightarrow> PatternMatchImpl p' a'))
      else if c = CHR ''{'' then
        list_ex (\<lambda>q. PatternMatchImpl q a) (alternate_patterns [] p (rest_after_brace 1 p))
      else (case a of [] \<Rightarrow> False | x # a' \<Rightarrow> if c \<noteq> x then False else PatternMatchImpl p a'))"
  by pat_completeness auto
termination
proof (relation "measure (length \<circ> fst)", goal_cases)
  case (3 c p a p' a')
  then show ?case by (simp add: le_imp_less_Suc length_dropWhile_le)
next
  case (4 c p a z hit p' x a')
  then show ?case by (auto dest!: MatchCharClass_length)
next
  case (5 c p a q)
  then show ?case using alternate_patterns_length [of q "[]" p 0] by simp
qed auto

declare PatternMatchImpl.simps(2) [simp del]

text \<open>\<open>OscPatternMatch\<close>: null pointers never match.\<close>

definition OscPatternMatch :: "string option \<Rightarrow> string option \<Rightarrow> bool" where
  "OscPatternMatch pattern address =
     (case (pattern, address) of (Some p, Some a) \<Rightarrow> PatternMatchImpl p a | _ \<Rightarrow> False)"

section \<open>Padding arithmetic\<close>

lemma OscPad4_eq: "OscPad4 n = push_bit 2 (take_bit 30 (drop_bit 2 (n + 3)))"
proof -
  have "(0xFFFFFFFC :: u64) = push_bit 2 (mask 30)"
    by (simp add: mask_eq_exp_minus_1 push_bit_eq_mult)
  then have eq: "OscPad4 n = (n + 3) AND push_bit 2 (mask 30)"
    by (simp only: OscPad4_def)
  have idx: "Suc (Suc (i - 2)) = i" if "2 \<le> i" for i :: nat using that by simp
  show ?thesis unfolding eq by (rule bit_word_eqI) (auto simp: bit_simps idx)
qed

lemma unat_OscPad4: "unat (OscPad4 n) = 4 * ((unat (n + 3) div 4) mod 2 ^ 30)"
proof -
  have w: "take_bit 64 (unat x) = unat x" for x :: u64
    using unsigned_less [of x] by (simp add: take_bit_nat_eq_self_iff)
  have "unat (OscPad4 n) = take_bit 64 (push_bit 2 (take_bit 30 (drop_bit 2 (unat (n + 3)))))"
    unfolding OscPad4_eq
    by (simp only: unsigned_push_bit_eq unsigned_take_bit_eq unsigned_drop_bit_eq) (simp add: w)
  also have "\<dots> = push_bit 2 (take_bit 30 (drop_bit 2 (unat (n + 3))))"
    by (simp add: take_bit_push_bit)
  finally show ?thesis by (simp add: push_bit_eq_mult take_bit_eq_mod drop_bit_eq_div)
qed

lemma osc_pad4_nat:
  assumes "n < 2 ^ 32 - 3"
  shows "osc_pad4 n = 4 * ((n + 3) div 4)"
proof -
  have u: "unat (word_of_nat n + 3 :: u64) = n + 3"
    using assms by (simp add: unat_word_ariths unat_of_nat)
  have "(n + 3) div 4 < 2 ^ 30" using assms by (simp add: div_less_iff_less_mult)
  then show ?thesis by (simp add: unat_OscPad4 u)
qed

lemma osc_pad4_ge: "n < 2 ^ 32 - 3 \<Longrightarrow> n \<le> osc_pad4 n"
  by (simp add: osc_pad4_nat)

lemma osc_pad4_slack: "n < 2 ^ 32 - 3 \<Longrightarrow> osc_pad4 n < n + 4"
  by (simp add: osc_pad4_nat)

lemma osc_pad4_id: "n < 2 ^ 32 - 3 \<Longrightarrow> 4 dvd n \<Longrightarrow> osc_pad4 n = n"
  by (auto simp: osc_pad4_nat elim!: dvdE)

section \<open>The contract of the packet writers\<close>

text \<open>Every write either appends one fixed encoding to the packet or clears the sticky flag;
  it never grows the buffer past \<open>N\<close> and never changes bytes already written.\<close>

locale osc_write =
  fixes w :: "nat \<Rightarrow> OscPacket \<Rightarrow> OscPacket" and enc :: "byte list"
  assumes w_bound: "length (pk_buf p) \<le> N \<Longrightarrow> length (pk_buf (w N p)) \<le> N"
    and w_ok: "length (pk_buf p) \<le> N \<Longrightarrow>
      pk_ok (w N p) \<longleftrightarrow> pk_ok p \<and> length (pk_buf p) + length enc \<le> N"
    and w_buf: "pk_ok (w N p) \<Longrightarrow> pk_buf (w N p) = pk_buf p @ enc"
    and w_sticky: "\<not> pk_ok p \<Longrightarrow> \<not> pk_ok (w N p)"
    and w_keep: "take (length (pk_buf p)) (pk_buf (w N p)) = pk_buf p"
begin

lemma fresh_ok: "pk_ok (w N (p\<lparr>pk_buf := [], pk_ok := True\<rparr>)) \<longleftrightarrow> length enc \<le> N"
  using w_ok [of "p\<lparr>pk_buf := [], pk_ok := True\<rparr>" N] by simp

end

text \<open>Two writes in sequence emit the two encodings in sequence.\<close>

locale osc_write_pair = fst: osc_write w1 e1 + snd: osc_write w2 e2
  for w1 :: "nat \<Rightarrow> OscPacket \<Rightarrow> OscPacket" and e1 :: "byte list"
    and w2 :: "nat \<Rightarrow> OscPacket \<Rightarrow> OscPacket" and e2 :: "byte list"
begin

lemma pair_ok:
  assumes "length (pk_buf p) \<le> N"
  shows "pk_ok (w2 N (w1 N p)) \<longleftrightarrow> pk_ok p \<and> length (pk_buf p) + length (e1 @ e2) \<le> N"
proof -
  have "pk_ok (w2 N (w1 N p)) \<longleftrightarrow> pk_ok (w1 N p) \<and> length (pk_buf (w1 N p)) + length e2 \<le> N"
    by (rule snd.w_ok) (rule fst.w_bound [OF assms])
  then show ?thesis using fst.w_ok [OF assms] fst.w_buf [of N p] by auto
qed

lemma pair_buf:
  assumes "pk_ok (w2 N (w1 N p))"
  shows "pk_buf (w2 N (w1 N p)) = pk_buf p @ e1 @ e2"
  using snd.w_buf [OF assms] fst.w_buf [of N p] snd.w_sticky [of "w1 N p" N] assms by auto

lemma pair_keep: "take (length (pk_buf p)) (pk_buf (w2 N (w1 N p))) = pk_buf p"
proof -
  let ?n = "length (pk_buf p)" and ?b1 = "pk_buf (w1 N p)" and ?b2 = "pk_buf (w2 N (w1 N p))"
  have le: "?n \<le> length ?b1"
    using fst.w_keep [of p N] by (metis length_take min.cobounded2 min.commute)
  have "take ?n (take (length ?b1) ?b2) = take ?n ?b1" by (simp add: snd.w_keep)
  then show ?thesis using le fst.w_keep [of p N] by (simp add: min_absorb1)
qed

end

sublocale osc_write_pair < pair: osc_write "\<lambda>N p. w2 N (w1 N p)" "e1 @ e2"
  by unfold_locales
    (simp_all add: fst.w_bound snd.w_bound fst.w_sticky snd.w_sticky pair_ok pair_buf pair_keep)

section \<open>The writers meet the contract\<close>

text \<open>The encodings of the OSC argument types.\<close>

definition osc_string :: "string \<Rightarrow> byte list" where
  "osc_string s = bytes_of_str s @ 0 # replicate (osc_pad4 (length s + 1) - (length s + 1)) 0"

definition osc_blob :: "byte list \<Rightarrow> byte list" where
  "osc_blob b = be32 (word_of_nat (length b)) @ b @ replicate (osc_pad4 (length b) - length b) 0"

lemma length_osc_string:
  "length s < 2 ^ 32 - 4 \<Longrightarrow> length (osc_string s) = osc_pad4 (length s + 1)"
  using osc_pad4_ge [of "length s + 1"] by (simp add: osc_string_def)

lemma length_be32 [simp]: "length (be32 v) = 4"
  by (simp add: be32_def)

interpretation wappend: osc_write "\<lambda>N p. Append N bs p" bs
  for bs by unfold_locales (auto simp: Append_def)

lemma append_zeros_bound:
  "length (pk_buf p) \<le> N \<Longrightarrow> length (pk_buf (append_zeros N k p)) \<le> N"
  by (induction N k p rule: append_zeros.induct) (auto simp: AppendByte_def split: if_splits)

lemma append_zeros_ok:
  "length (pk_buf p) \<le> N \<Longrightarrow>
   pk_ok (append_zeros N k p) \<longleftrightarrow> pk_ok p \<and> length (pk_buf p) + k \<le> N"
proof (induction N k p rule: append_zeros.induct)
  case (2 N k p)
  then have "length (pk_buf (AppendByte N 0 p)) \<le> N" by (auto simp: AppendByte_def)
  with "2.IH" "2.prems" show ?case by (auto simp: AppendByte_def)
qed simp

lemma append_zeros_sticky: "\<not> pk_ok q \<Longrightarrow> \<not> pk_ok (append_zeros N k q)"
  by (induction k) (auto simp: AppendByte_def)

lemma append_zeros_buf:
  "pk_ok (append_zeros N k p) \<Longrightarrow> pk_buf (append_zeros N k p) = pk_buf p @ replicate k 0"
proof (induction N k p rule: append_zeros.induct)
  case (2 N k p)
  show ?case
  proof (cases "pk_ok p \<and> length (pk_buf p) < N")
    case True
    then have "AppendByte N 0 p = p\<lparr>pk_buf := pk_buf p @ [0]\<rparr>" by (simp add: AppendByte_def)
    with "2.IH" "2.prems" show ?thesis by simp
  next
    case False
    then have "\<not> pk_ok (AppendByte N 0 p)" by (auto simp: AppendByte_def)
    with "2.prems" append_zeros_sticky show ?thesis by auto
  qed
qed simp

lemma append_zeros_keep: "take (length (pk_buf p)) (pk_buf (append_zeros N k p)) = pk_buf p"
proof -
  have "\<exists>z. pk_buf (append_zeros N k p) = pk_buf p @ z"
  proof (induction k arbitrary: p)
    case (Suc k)
    then obtain z where "pk_buf (append_zeros N (Suc k) p) = pk_buf (AppendByte N 0 p) @ z" by auto
    then show ?case by (auto simp: AppendByte_def)
  qed simp
  then show ?thesis by auto
qed

interpretation wzeros: osc_write "\<lambda>N p. append_zeros N k p" "replicate k 0"
  for k
  by unfold_locales
    (simp_all add: append_zeros_bound append_zeros_ok append_zeros_buf append_zeros_keep append_zeros_sticky)

interpretation wstr_parts: osc_write_pair "\<lambda>N p. Append N (bytes_of_str s @ [0]) p" "bytes_of_str s @ [0]"
  "\<lambda>N p. append_zeros N (osc_pad4 (length s + 1) - (length s + 1)) p"
  "replicate (osc_pad4 (length s + 1) - (length s + 1)) 0"
  for s by unfold_locales

interpretation wstr: osc_write "\<lambda>N p. WriteStr N s p" "osc_string s"
  for s
  using wstr_parts.pair.osc_write_axioms [of s] by (simp add: WriteStr_def osc_string_def Let_def)

interpretation wint: osc_write "\<lambda>N p. WriteInt32 N v p" "be32 v"
  for v using wappend.osc_write_axioms [of "be32 v"] by (simp add: WriteInt32_def)

interpretation wraw: osc_write "\<lambda>N p. WriteRawArgs N bs p" bs
  for bs using wappend.osc_write_axioms [of bs] by (simp add: WriteRawArgs_def)

interpretation wblob_parts: osc_write_pair "\<lambda>N p. WriteInt32 N (word_of_nat (length b)) p"
  "be32 (word_of_nat (length b))" "\<lambda>N p. WriteRawArgs N b p" b
  for b by unfold_locales

interpretation wblob_all: osc_write_pair
  "\<lambda>N p. WriteRawArgs N b (WriteInt32 N (word_of_nat (length b)) p)"
  "be32 (word_of_nat (length b)) @ b"
  "\<lambda>N p. append_zeros N (osc_pad4 (length b) - length b) p"
  "replicate (osc_pad4 (length b) - length b) 0"
  for b by unfold_locales

interpretation wblob: osc_write "\<lambda>N p. WriteBlob N b p" "osc_blob b"
  for b
  using wblob_all.pair.osc_write_axioms [of b]
  by (simp add: WriteBlob_def WriteRawArgs_def osc_blob_def Let_def)

text \<open>A whole message: address, type tag, raw argument bytes, as \<open>BuildAndEnqueue\<close>
  writes it.\<close>

definition osc_message :: "string \<Rightarrow> string \<Rightarrow> byte list \<Rightarrow> byte list" where
  "osc_message address typetag args = osc_string address @ osc_string typetag @ args"

interpretation wmsg_head: osc_write_pair "\<lambda>N p. WriteStr N a p" "osc_string a"
  "\<lambda>N p. WriteStr N t p" "osc_string t"
  for a t by unfold_locales

interpretation wmsg: osc_write_pair "\<lambda>N p. WriteStr N t (WriteStr N a p)"
  "osc_string a @ osc_string t" "\<lambda>N p. WriteRawArgs N args p" args
  for a t args by unfold_locales

definition build_message :: "nat \<Rightarrow> string \<Rightarrow> string \<Rightarrow> byte list \<Rightarrow> OscPacket \<Rightarrow> OscPacket" where
  "build_message N a t args p = WriteRawArgs N args (Begin N a t p)"

lemma build_message_ok: "pk_ok (build_message N a t args p) \<longleftrightarrow> length (osc_message a t args) \<le> N"
  using wmsg.pair.fresh_ok [where N = N and a = a and t = t and args = args and p = p]
  by (simp add: build_message_def Begin_def osc_message_def)

lemma build_message_buf:
  "pk_ok (build_message N a t args p) \<Longrightarrow> pk_buf (build_message N a t args p) = osc_message a t args"
  unfolding build_message_def Begin_def
  by (drule wmsg.pair.w_buf) (simp add: osc_message_def)

section \<open>Reading back what was written\<close>

lemma rd_strnlen_osc_string:
  assumes "rd_data r = pre @ osc_string s @ rest" "rd_pos r = length pre" "nul_free s"
  shows "rd_strnlen r = length s"
  using assms takeWhile_bytes_of_str [OF assms(3)]
  by (simp add: rd_strnlen_def osc_string_def)

lemma ReadStr_osc_string:
  assumes data: "rd_data r = pre @ osc_string s @ rest" and pos: "rd_pos r = length pre"
    and "rd_valid r" "nul_free s" and small: "length s < 2 ^ 32 - 4"
  shows "ReadStr r = (r\<lparr>rd_pos := rd_pos r + length (osc_string s)\<rparr>, Some s)"
proof -
  have len: "rd_strnlen r = length s" using rd_strnlen_osc_string [OF data pos assms(4)] .
  have "length (osc_string s) = osc_pad4 (length s + 1)" by (rule length_osc_string [OF small])
  moreover have "length s + 1 \<le> osc_pad4 (length s + 1)" using small by (intro osc_pad4_ge) simp
  moreover have "cstr_of (drop (rd_pos r) (rd_data r)) = s"
    using data pos cstr_of_bytes_of_str [OF assms(4)] by (simp add: osc_string_def)
  ultimately show ?thesis
    using assms(3) data pos by (simp add: ReadStr_def len Let_def)
qed

lemma osc_string_nonempty: "osc_string s \<noteq> []"
  by (simp add: osc_string_def)

lemma OscParseMessage_osc_message:
  assumes "nul_free a" "nul_free t" "length (osc_message a t args) < 2 ^ 32 - 4"
  shows "OscParseMessage (osc_message a t args) =
    \<lparr>om_address = Some a, om_typetag = Some t, om_args = args, om_valid = True\<rparr>"
proof -
  let ?d = "osc_message a t args"
  have "length a < length (osc_string a)" "length t < length (osc_string t)"
    by (simp_all add: osc_string_def)
  then have la: "length a < 2 ^ 32 - 4" and lt: "length t < 2 ^ 32 - 4"
    using assms(3) by (auto simp: osc_message_def)
  have 1: "ReadStr (OscReader_new ?d) =
      ((OscReader_new ?d)\<lparr>rd_pos := length (osc_string a)\<rparr>, Some a)"
    using ReadStr_osc_string [of "OscReader_new ?d" "[]" a "osc_string t @ args"] assms(1) la
    by (simp add: OscReader_new_def osc_message_def osc_string_nonempty)
  have 2: "ReadStr ((OscReader_new ?d)\<lparr>rd_pos := length (osc_string a)\<rparr>) =
      ((OscReader_new ?d)\<lparr>rd_pos := length (osc_string a) + length (osc_string t)\<rparr>, Some t)"
    using ReadStr_osc_string [of "(OscReader_new ?d)\<lparr>rd_pos := length (osc_string a)\<rparr>"
        "osc_string a" t args] assms(2) lt
    by (simp add: OscReader_new_def osc_message_def osc_string_nonempty)
  show ?thesis
    by (simp add: OscParseMessage_def 1 2)
      (simp add: OscReader_new_def osc_message_def osc_string_nonempty)
qed

section \<open>Bounds of the reader\<close>

definition reader_ok :: "OscReader \<Rightarrow> bool" where
  "reader_ok r \<longleftrightarrow> (rd_valid r \<longrightarrow> rd_pos r \<le> rd_size r)"

lemma reader_ok_new [inv_intros]: "reader_ok (OscReader_new d)"
  by (simp add: reader_ok_def OscReader_new_def)

lemma reader_ok_ReadStr [inv_intros]: "reader_ok r \<Longrightarrow> reader_ok (fst (ReadStr r))"
  by (auto simp: reader_ok_def ReadStr_def Let_def)

lemma reader_ok_ReadInt32 [inv_intros]: "reader_ok r \<Longrightarrow> reader_ok (fst (ReadInt32 r))"
  by (auto simp: reader_ok_def ReadInt32_def ReadBytes_def)

lemma reader_ok_ReadBlob [inv_intros]: "reader_ok r \<Longrightarrow> reader_ok (fst (ReadBlob r))"
  by (auto simp: reader_ok_def ReadBlob_def Let_def split: prod.splits)

lemma rd_data_ReadStr [simp]: "rd_data (fst (ReadStr r)) = rd_data r"
  by (auto simp: ReadStr_def Let_def)

lemma ReadStr_SomeD:
  assumes "ReadStr r = (r', Some s)"
  shows "rd_valid r" "r' = r\<lparr>rd_pos := rd_pos r + osc_pad4 (length s + 1)\<rparr>"
    "rd_pos r' \<le> rd_size r" "s = cstr_of (drop (rd_pos r) (rd_data r))"
  using assms
  by (auto simp: ReadStr_def Let_def rd_strnlen_def cstr_of_def split: if_splits)

lemma OscParseMessage_validD:
  assumes "om_valid (OscParseMessage d)"
  obtains a t where "om_address (OscParseMessage d) = Some a" "om_typetag (OscParseMessage d) = Some t"
    "a = cstr_of d" "t = cstr_of (drop (osc_pad4 (length a + 1)) d)"
    "osc_pad4 (length a + 1) + osc_pad4 (length t + 1) \<le> length d"
    "om_args (OscParseMessage d) = drop (osc_pad4 (length a + 1) + osc_pad4 (length t + 1)) d"
proof -
  obtain r1 ao where r1: "ReadStr (OscReader_new d) = (r1, ao)" by fastforce
  obtain r2 to where r2: "ReadStr r1 = (r2, to)" by fastforce
  from assms r1 r2 obtain a t where at: "ao = Some a" "to = Some t"
    by (auto simp: OscParseMessage_def Let_def split: if_splits)
  note A = ReadStr_SomeD [OF r1 [unfolded at]] and B = ReadStr_SomeD [OF r2 [unfolded at]]
  have dat: "rd_data (OscReader_new d) = d" "rd_pos (OscReader_new d) = 0"
    by (simp_all add: OscReader_new_def)
  show thesis
  proof (rule that [of a t])
    show "om_args (OscParseMessage d) = drop (osc_pad4 (length a + 1) + osc_pad4 (length t + 1)) d"
      using assms r1 r2 at A(2) B(2) dat by (auto simp: OscParseMessage_def Let_def split: if_splits)
  qed (use assms r1 r2 at A B dat in \<open>auto simp: OscParseMessage_def Let_def split: if_splits\<close>)
qed

section \<open>Bundles\<close>

lemma of_be32_be32 [simp]: "of_be32 (be32 v) = v"
proof (rule bit_word_eqI)
  fix n :: nat assume n: "n < LENGTH(32)"
  then consider "n < 8" | "8 \<le> n" "n < 16" | "16 \<le> n" "n < 24" | "24 \<le> n" by linarith
  then show "bit (of_be32 (be32 v)) n \<longleftrightarrow> bit v n"
    by cases (use n in \<open>simp_all add: of_be32_def be32_def bit_simps less_diff_conv2\<close>)
qed

text \<open>A bundle: prefix, 8-byte time tag, then length-prefixed elements.\<close>

definition osc_element :: "byte list \<Rightarrow> byte list" where
  "osc_element e = be32 (word_of_nat (length e)) @ e"

definition osc_bundle :: "byte list \<Rightarrow> byte list list \<Rightarrow> byte list" where
  "osc_bundle timetag es = kOscBundlePrefix @ timetag @ concat (map osc_element es)"

lemma length_kOscBundlePrefix [simp]: "length kOscBundlePrefix = 8"
  by (simp add: kOscBundlePrefix_def)

lemma OscBundleLoop_elements:
  assumes "\<forall>e \<in> set es. length e < 2 ^ 32"
  shows "OscBundleLoop (pre @ concat (map osc_element es)) (length pre) = concat (map OscDispatch es)"
  using assms
proof (induction es arbitrary: pre)
  case Nil
  show ?case by (simp add: OscBundleLoop.simps)
next
  case (Cons e es)
  let ?d = "pre @ concat (map osc_element (e # es))" and ?pre' = "pre @ osc_element e"
  have len: "unat (word_of_nat (length e) :: u32) = length e"
    using Cons.prems by (simp add: unat_of_nat)
  have tail: "OscBundleLoop ?d (length ?pre') = concat (map OscDispatch es)"
    using Cons.IH [of ?pre'] Cons.prems by simp
  have l4: "length ?pre' = length pre + 4 + length e" by (simp add: osc_element_def)
  show ?case
    using tail
    by (subst OscBundleLoop.simps) (simp add: osc_element_def Let_def len l4 add.assoc)
qed

section \<open>The pattern language\<close>

text \<open>The OSC address patterns as data, what they denote, and how they are written. A
  well-formed pattern keeps the meta characters out of literals, and has no empty
  alternative.\<close>

datatype class_item = CSingle char | CRange char char

datatype osc_pat = PLit char | PAny | PStar | PClass bool "class_item list" | PAlt "string list"

fun item_matches :: "class_item \<Rightarrow> char \<Rightarrow> bool" where
  "item_matches (CSingle c) x = (x = c)"
| "item_matches (CRange lo hi) x = (schar lo \<le> schar x \<and> schar x \<le> schar hi)"

definition class_matches :: "bool \<Rightarrow> class_item list \<Rightarrow> char \<Rightarrow> bool" where
  "class_matches neg its x \<longleftrightarrow> (list_ex (\<lambda>it. item_matches it x) its \<noteq> neg)"

fun osc_matches :: "osc_pat list \<Rightarrow> string \<Rightarrow> bool" where
  "osc_matches [] a = (a = [])"
| "osc_matches (PLit c # ps) a = (case a of [] \<Rightarrow> False | x # a' \<Rightarrow> x = c \<and> osc_matches ps a')"
| "osc_matches (PAny # ps) a = (case a of [] \<Rightarrow> False | x # a' \<Rightarrow> osc_matches ps a')"
| "osc_matches (PStar # ps) a = (\<exists>n \<le> length a. osc_matches ps (drop n a))"
| "osc_matches (PClass neg its # ps) a =
     (case a of [] \<Rightarrow> False | x # a' \<Rightarrow> class_matches neg its x \<and> osc_matches ps a')"
| "osc_matches (PAlt ss # ps) a =
     (\<exists>s \<in> set ss. take (length s) a = s \<and> osc_matches ps (drop (length s) a))"

fun write_item :: "class_item \<Rightarrow> string" where
  "write_item (CSingle c) = [c]"
| "write_item (CRange lo hi) = [lo, CHR ''-'', hi]"

fun write_alts :: "string list \<Rightarrow> string" where
  "write_alts [] = []"
| "write_alts [s] = s"
| "write_alts (s # ss) = s @ CHR '','' # write_alts ss"

fun write_pat :: "osc_pat \<Rightarrow> string" where
  "write_pat (PLit c) = [c]"
| "write_pat PAny = ''?''"
| "write_pat PStar = ''*''"
| "write_pat (PClass neg its) =
     CHR ''['' # (if neg then ''!'' else []) @ concat (map write_item its) @ '']''"
| "write_pat (PAlt ss) = CHR ''{'' # write_alts ss @ ''}''"

definition write_pats :: "osc_pat list \<Rightarrow> string" where
  "write_pats ps = concat (map write_pat ps)"

definition plain_char :: "char \<Rightarrow> bool" where
  "plain_char c \<longleftrightarrow> c \<notin> {CHR ''?'', CHR ''*'', CHR ''['', CHR ''{''}"

definition alt_char :: "char \<Rightarrow> bool" where
  "alt_char c \<longleftrightarrow> plain_char c \<and> c \<notin> {CHR '','', CHR ''}''}"

definition class_char :: "char \<Rightarrow> bool" where
  "class_char c \<longleftrightarrow> c \<notin> {CHR '']'', CHR ''-'', CHR ''!''}"

fun wf_item :: "class_item \<Rightarrow> bool" where
  "wf_item (CSingle c) = class_char c"
| "wf_item (CRange lo hi) = (class_char lo \<and> hi \<noteq> CHR '']'')"

fun wf_pat :: "osc_pat \<Rightarrow> bool" where
  "wf_pat (PLit c) = plain_char c"
| "wf_pat PAny = True"
| "wf_pat PStar = True"
| "wf_pat (PClass neg its) = list_all wf_item its"
| "wf_pat (PAlt ss) = (ss \<noteq> [] \<and> (\<forall>s \<in> set ss. s \<noteq> [] \<and> list_all alt_char s))"

lemma char_class_loop_items:
  assumes "list_all wf_item its"
  shows "char_class_loop (concat (map write_item its) @ CHR '']'' # r) ch m =
    Some (m \<or> list_ex (\<lambda>it. item_matches it ch) its, r)"
  using assms
proof (induction its arbitrary: m)
  case (Cons it its)
  show ?case
  proof (cases it)
    case (CRange lo hi)
    with Cons show ?thesis by (auto simp: class_char_def)
  next
    case (CSingle c)
    let ?q = "concat (map write_item its) @ CHR '']'' # r"
    have step: "char_class_loop (c # ?q) ch m = char_class_loop ?q ch (m \<or> ch = c)"
    proof (cases its)
      case Nil
      with CSingle Cons.prems show ?thesis by (auto simp: class_char_def split: list.splits)
    next
      case (Cons it2 its2)
      with \<open>it = CSingle c\<close> \<open>list_all wf_item (it # its)\<close> show ?thesis
        by (cases it2) (auto simp: class_char_def split: list.splits)
    qed
    with CSingle Cons show ?thesis by auto
  qed
qed simp

lemma MatchCharClass_items:
  assumes "list_all wf_item its"
  shows "MatchCharClass ((if neg then ''!'' else []) @ concat (map write_item its) @ CHR '']'' # r) ch
    = Some (class_matches neg its ch, r)"
proof (cases neg)
  case True
  then show ?thesis
    using char_class_loop_items [OF assms] by (simp add: MatchCharClass_def class_matches_def)
next
  case False
  let ?q = "concat (map write_item its) @ CHR '']'' # r"
  have "hd ?q \<noteq> CHR ''!''"
  proof (cases its)
    case (Cons it its')
    with assms show ?thesis by (cases it) (auto simp: class_char_def)
  qed simp
  with False show ?thesis
    using char_class_loop_items [OF assms] by (simp add: MatchCharClass_def class_matches_def)
qed

lemma alternate_patterns_consume:
  "list_all alt_char s \<Longrightarrow> alternate_patterns alt (s @ p) rest = alternate_patterns (alt @ s) p rest"
  by (induction s arbitrary: alt) (auto simp: alt_char_def)

lemma rest_after_brace_consume:
  "CHR ''{'' \<notin> set s \<Longrightarrow> CHR ''}'' \<notin> set s \<Longrightarrow>
   rest_after_brace (Suc d) (s @ p) = rest_after_brace (Suc d) p"
  by (induction s) auto

lemma notin_write_alts:
  "\<forall>s \<in> set ss. x \<notin> set s \<Longrightarrow> x \<noteq> CHR '','' \<Longrightarrow> x \<notin> set (write_alts ss)"
  by (induction ss rule: write_alts.induct) auto

lemma rest_after_alts:
  assumes "\<forall>s \<in> set ss. list_all alt_char s"
  shows "rest_after_brace 1 (write_alts ss @ CHR ''}'' # r) = r"
proof -
  have "\<forall>s \<in> set ss. CHR ''{'' \<notin> set s" "\<forall>s \<in> set ss. CHR ''}'' \<notin> set s"
    using assms unfolding list_all_iff alt_char_def plain_char_def by blast+
  then have "CHR ''{'' \<notin> set (write_alts ss)" "CHR ''}'' \<notin> set (write_alts ss)"
    by (simp_all add: notin_write_alts)
  moreover have "rest_after_brace 0 r = r" by (cases r) auto
  ultimately show ?thesis using rest_after_brace_consume [of "write_alts ss" 0 "CHR ''}'' # r"] by simp
qed

lemma alternate_patterns_alts:
  assumes "ss \<noteq> []" "\<forall>s \<in> set ss. list_all alt_char s"
    "length (write_alts ss) + length r < 255"
  shows "alternate_patterns [] (write_alts ss @ CHR ''}'' # r) r = map (\<lambda>s. s @ r) ss"
  using assms
proof (induction ss rule: write_alts.induct)
  case (2 s)
  then show ?case
    by (simp add: alternate_patterns_consume alt_buffer_size_def)
next
  case (3 s v va)
  then show ?case
    by (simp add: alternate_patterns_consume alt_buffer_size_def)
qed simp

lemma PatternMatchImpl_literal:
  assumes "list_all plain_char s"
  shows "PatternMatchImpl (s @ p) a \<longleftrightarrow>
    take (length s) a = s \<and> PatternMatchImpl p (drop (length s) a)"
  using assms
proof (induction s arbitrary: a)
  case (Cons c s)
  then show ?case
    by (cases a) (auto simp: PatternMatchImpl.simps(2) plain_char_def)
qed simp

lemma list_ex_nonempty_suffixes:
  "list_ex P (nonempty_suffixes a) \<longleftrightarrow> (\<exists>n < length a. P (drop n a))"
proof (induction a)
  case (Cons c a)
  then show ?case by (auto simp: less_Suc_eq_0_disj)
qed simp

lemma osc_matches_stars:
  "osc_matches (PStar # PStar # ps) a \<longleftrightarrow> osc_matches (PStar # ps) a"
proof
  assume "osc_matches (PStar # PStar # ps) a"
  then obtain n m where "n \<le> length a" "m \<le> length a - n" "osc_matches ps (drop (m + n) a)"
    by auto
  then show "osc_matches (PStar # ps) a" by (auto intro: exI [of _ "m + n"])
next
  assume "osc_matches (PStar # ps) a"
  then obtain n where "n \<le> length a" "osc_matches ps (drop n a)" by auto
  then show "osc_matches (PStar # PStar # ps) a" 
    by (simp del: drop_drop) (metis drop0 le0)
qed

lemma osc_matches_star_run:
  "osc_matches (PStar # ps) a \<longleftrightarrow> osc_matches (PStar # dropWhile (\<lambda>x. x = PStar) ps) a"
proof (induction ps)
  case (Cons q ps)
  show ?case
  proof (cases "q = PStar")
    case True
    then show ?thesis using Cons osc_matches_stars [of ps a] by (simp del: osc_matches.simps)
  qed (simp del: osc_matches.simps)
qed simp

lemma osc_matches_nonempty:
  assumes "ps \<noteq> []" "hd ps \<noteq> PStar" "list_all wf_pat ps"
  shows "\<not> osc_matches ps []"
proof (cases ps)
  case (Cons q qs)
  with assms show ?thesis by (cases q) auto
qed (use assms in simp)

lemma write_pat_hd: "wf_pat q \<Longrightarrow> q \<noteq> PStar \<Longrightarrow> write_pat q \<noteq> [] \<and> hd (write_pat q) \<noteq> CHR ''*''"
  by (cases q) (auto simp: plain_char_def)

lemma write_pats_star_run:
  assumes "list_all wf_pat ps"
  shows "dropWhile (\<lambda>x. x = CHR ''*'') (write_pats ps) = write_pats (dropWhile (\<lambda>x. x = PStar) ps)"
  using assms
proof (induction ps)
  case (Cons q ps)
  show ?case
  proof (cases "q = PStar")
    case False
    then obtain c s where "write_pat q = c # s" "c \<noteq> CHR ''*''"
      using write_pat_hd [of q] Cons.prems by (cases "write_pat q") auto
    with False show ?thesis by (simp add: write_pats_def)
  qed (use Cons in \<open>simp add: write_pats_def\<close>)
qed (simp add: write_pats_def)

lemma write_pats_Nil_iff: "list_all wf_pat ps \<Longrightarrow> write_pats ps = [] \<longleftrightarrow> ps = []"
  by (cases ps; cases "hd ps") (auto simp: write_pats_def)

lemma length_write_pats_dropWhile:
  "length (write_pats (dropWhile P ps)) \<le> length (write_pats ps)"
  by (induction ps) (auto simp: write_pats_def)

lemma osc_matches_star_anchored:
  assumes "list_all wf_pat rs" "rs \<noteq> [] \<Longrightarrow> hd rs \<noteq> PStar"
  shows "osc_matches (PStar # rs) a \<longleftrightarrow> rs = [] \<or> (\<exists>n < length a. osc_matches rs (drop n a))"
proof (cases "rs = []")
  case False
  then have "\<not> osc_matches rs []" using assms osc_matches_nonempty by blast
  then show ?thesis using False by (auto simp: less_le)
qed (auto intro: exI [of _ "length a"])

lemma write_pats_Cons: "write_pats (q # qs) = write_pat q @ write_pats qs"
  by (simp add: write_pats_def)

lemma PatternMatchImpl_class:
  assumes "list_all wf_item its"
  shows "PatternMatchImpl (write_pats (PClass neg its # qs)) a \<longleftrightarrow>
    (case a of [] \<Rightarrow> False | x # a' \<Rightarrow> class_matches neg its x \<and> PatternMatchImpl (write_pats qs) a')"
  using MatchCharClass_items [OF assms, of neg "write_pats qs"]
  by (cases a) (simp_all add: write_pats_Cons PatternMatchImpl.simps(2))

lemma PatternMatchImpl_alts:
  assumes "wf_pat (PAlt ss)" "length (write_pats (PAlt ss # qs)) < 255"
  shows "PatternMatchImpl (write_pats (PAlt ss # qs)) a \<longleftrightarrow>
    (\<exists>s \<in> set ss. take (length s) a = s \<and> PatternMatchImpl (write_pats qs) (drop (length s) a))"
proof -
  let ?r = "write_pats qs"
  have ss: "ss \<noteq> []" "\<forall>s \<in> set ss. list_all alt_char s" using assms by auto
  have len: "length (write_alts ss) + length ?r < 255" using assms by (simp add: write_pats_Cons)
  have plain: "list_all plain_char s" if "s \<in> set ss" for s
    using ss(2) that by (auto simp: list_all_iff alt_char_def)
  have "PatternMatchImpl (write_pats (PAlt ss # qs)) a \<longleftrightarrow>
      (\<exists>s \<in> set ss. PatternMatchImpl (s @ ?r) a)"
    using rest_after_alts [OF ss(2), of ?r] alternate_patterns_alts [OF ss len]
    by (simp add: write_pats_Cons PatternMatchImpl.simps(2) list_ex_iff)
  then show ?thesis using plain PatternMatchImpl_literal by auto
qed

lemma PatternMatchImpl_star:
  assumes "list_all wf_pat qs"
  defines "rs \<equiv> dropWhile (\<lambda>x. x = PStar) qs"
  shows "PatternMatchImpl (write_pats (PStar # qs)) a \<longleftrightarrow>
    rs = [] \<or> (\<exists>n < length a. PatternMatchImpl (write_pats rs) (drop n a))"
proof -
  have "list_all wf_pat rs" using assms by (auto simp: list_all_iff dest: set_dropWhileD)
  then have "write_pats rs = [] \<longleftrightarrow> rs = []" by (rule write_pats_Nil_iff)
  then show ?thesis
    using write_pats_star_run [OF assms(1), folded rs_def]
    by (auto simp: write_pats_Cons PatternMatchImpl.simps(2) list_ex_nonempty_suffixes)
qed

lemma PatternMatchImpl_write_pats:
  assumes "list_all wf_pat ps" "length (write_pats ps) < 255"
  shows "PatternMatchImpl (write_pats ps) a \<longleftrightarrow> osc_matches ps a"
  using assms
proof (induction ps arbitrary: a rule: length_induct)
  case (1 ps)
  show ?case
  proof (cases ps)
    case Nil
    then show ?thesis by (simp add: write_pats_def)
  next
    case (Cons q qs)
    have wf: "wf_pat q" "list_all wf_pat qs" using "1.prems" Cons by simp_all
    have IH: "PatternMatchImpl (write_pats qs) b \<longleftrightarrow> osc_matches qs b" for b
      using "1.IH" "1.prems" Cons by (simp add: write_pats_Cons)
    show ?thesis
    proof (cases q)
      case PStar
      let ?rs = "dropWhile (\<lambda>x. x = PStar) qs"
      have rs: "list_all wf_pat ?rs" using wf by (auto simp: list_all_iff dest: set_dropWhileD)
      have "PatternMatchImpl (write_pats ?rs) b \<longleftrightarrow> osc_matches ?rs b" for b
        using "1.IH" "1.prems" Cons rs length_dropWhile_le [of "\<lambda>x. x = PStar" qs]
          length_write_pats_dropWhile [of "\<lambda>x. x = PStar" qs]
        by (simp add: write_pats_Cons less_Suc_eq_le)
      then show ?thesis
        using PStar Cons PatternMatchImpl_star [OF wf(2)] osc_matches_star_run [of qs a]
          osc_matches_star_anchored [OF rs] hd_dropWhile [of "\<lambda>x. x = PStar" qs]
        by (simp del: osc_matches.simps)
    next
      case (PAlt ss)
      then show ?thesis using PatternMatchImpl_alts [of ss qs a] "1.prems" Cons wf IH by auto
    next
      case (PClass neg its)
      then show ?thesis using PatternMatchImpl_class [of its neg qs a] Cons wf IH by (cases a) simp_all
    qed (use wf Cons IH in \<open>cases a; auto simp: write_pats_Cons PatternMatchImpl.simps(2) plain_char_def\<close>)+
  qed
qed

section \<open>Properties\<close>

text \<open>Padding. For every size below \<open>2^32 - 3\<close>, \<open>OscPad4\<close> rounds up to the next
  multiple of four; from there on the 32-bit mask cuts the result down, and the padded size of
  \<open>2^32 - 3\<close> bytes is 0.\<close>

theorem OscPad4_rounds_up:
  "(unat n < 2 ^ 32 - 3 \<longrightarrow>
      4 dvd unat (OscPad4 n) \<and> unat n \<le> unat (OscPad4 n) \<and> unat (OscPad4 n) < unat n + 4) \<and>
   OscPad4 (2 ^ 32 - 3) = 0"
proof (intro conjI impI)
  have w: "word_of_nat (unat n) = n" by simp
  assume small: "unat n < 2 ^ 32 - 3"
  then show "4 dvd unat (OscPad4 n)" using osc_pad4_nat [OF small] by (simp add: w)
  show "unat n \<le> unat (OscPad4 n)" using osc_pad4_ge [OF small] by (simp add: w)
  show "unat (OscPad4 n) < unat n + 4" using osc_pad4_slack [OF small] by (simp add: w)
qed (simp add: OscPad4_def)

theorem OscPad4_rounds_up_witness:
  "unat (OscPad4 5) = 8"
proof -
  have "unat (5 :: u64) < 2 ^ 32 - 3" by simp
  then have "4 dvd unat (OscPad4 5) \<and> 5 \<le> unat (OscPad4 5) \<and> unat (OscPad4 5) < 9"
    using OscPad4_rounds_up [of 5] by simp
  then show ?thesis by (auto elim!: dvdE)
qed

text \<open>Serializer. Building a message (\<open>Begin\<close> and \<open>WriteRawArgs\<close>) in an
  \<open>OscPacket<N>\<close> succeeds exactly when the padded address, the padded type tag and the
  arguments fit into \<open>N\<close> bytes, whatever the packet held before; in every case at most
  \<open>N\<close> bytes are written.\<close>

theorem osc_build_fits:
  assumes "length a < 2 ^ 32 - 4" "length t < 2 ^ 32 - 4"
  shows "(pk_ok (WriteRawArgs N args (Begin N a t p)) \<longleftrightarrow>
      osc_pad4 (length a + 1) + osc_pad4 (length t + 1) + length args \<le> N) \<and>
    length (pk_buf (WriteRawArgs N args (Begin N a t p))) \<le> N"
proof
  show "pk_ok (WriteRawArgs N args (Begin N a t p)) \<longleftrightarrow>
      osc_pad4 (length a + 1) + osc_pad4 (length t + 1) + length args \<le> N"
    using build_message_ok [of N a t args p] assms
    by (simp add: build_message_def osc_message_def length_osc_string add.assoc)
  show "length (pk_buf (WriteRawArgs N args (Begin N a t p))) \<le> N"
    unfolding Begin_def by (rule wmsg.pair.w_bound) simp
qed

theorem osc_build_fits_witness:
  "\<not> pk_ok (WriteRawArgs 16 [1,2,3,4] (Begin 16 ''/chatbox'' '',f'' OscPacket_new)) \<and>
   pk_ok (WriteRawArgs 20 [1,2,3,4] (Begin 20 ''/chatbox'' '',f'' OscPacket_new))"
proof -
  have p: "unat (OscPad4 9) = 12" "unat (OscPad4 3) = 4" by (simp_all add: OscPad4_def)
  show ?thesis
    using osc_build_fits [of "''/chatbox''" "'',f''" 16 "[1,2,3,4]" OscPacket_new]
      osc_build_fits [of "''/chatbox''" "'',f''" 20 "[1,2,3,4]" OscPacket_new] p
    by simp
qed

text \<open>C6. Round trip. Parsing a packet that was built without error gives back the address,
  the type tag and the argument bytes.\<close>

theorem osc_parse_build_roundtrip:
  assumes "nul_free a" "nul_free t" "N < 2 ^ 32 - 4"
    and "pk_ok (WriteRawArgs N args (Begin N a t p))"
  shows "OscParseMessage (pk_buf (WriteRawArgs N args (Begin N a t p))) =
    \<lparr>om_address = Some a, om_typetag = Some t, om_args = args, om_valid = True\<rparr>"
proof -
  note [simp] = build_message_def [symmetric]
  have "length (osc_message a t args) < 2 ^ 32 - 4"
    using assms build_message_ok [of N a t args p] by simp
  then show ?thesis
    using assms OscParseMessage_osc_message build_message_buf [of N a t args p] by simp
qed

theorem osc_parse_build_roundtrip_witness:
  "OscParseMessage (pk_buf (WriteRawArgs 512 [63,64,0,0] (Begin 512 ''/avatar/parameters/JawOpen'' '',f'' OscPacket_new)))
   = \<lparr>om_address = Some ''/avatar/parameters/JawOpen'', om_typetag = Some '',f'',
      om_args = [63,64,0,0], om_valid = True\<rparr>"
proof (rule osc_parse_build_roundtrip)
  have "unat (OscPad4 27) = 28" "unat (OscPad4 3) = 4" by (simp_all add: OscPad4_def)
  then show "pk_ok (WriteRawArgs 512 [63,64,0,0]
      (Begin 512 ''/avatar/parameters/JawOpen'' '',f'' OscPacket_new))"
    using build_message_ok [of 512 "''/avatar/parameters/JawOpen''" "'',f''" "[63,64,0,0]" OscPacket_new]
    by (simp add: build_message_def osc_message_def osc_string_def)
qed simp_all

text \<open>Parser bounds. On an arbitrary datagram, a message reported valid is cut from inside
  the datagram: the address is the C string at its start, the type tag the C string at the
  next padded position, both end before the datagram does, and the argument bytes are exactly
  what is left.\<close>

theorem osc_parse_within_datagram:
  assumes "om_valid (OscParseMessage d)"
  shows "\<exists>a t. om_address (OscParseMessage d) = Some a \<and> om_typetag (OscParseMessage d) = Some t \<and>
    a = cstr_of d \<and> t = cstr_of (drop (osc_pad4 (length a + 1)) d) \<and>
    osc_pad4 (length a + 1) + osc_pad4 (length t + 1) + length (om_args (OscParseMessage d)) = length d \<and>
    om_args (OscParseMessage d) = drop (osc_pad4 (length a + 1) + osc_pad4 (length t + 1)) d"
  using assms
proof (rule OscParseMessage_validD)
  fix a t
  assume "om_address (OscParseMessage d) = Some a" "om_typetag (OscParseMessage d) = Some t"
    "a = cstr_of d" "t = cstr_of (drop (osc_pad4 (length a + 1)) d)"
    "osc_pad4 (length a + 1) + osc_pad4 (length t + 1) \<le> length d"
    "om_args (OscParseMessage d) = drop (osc_pad4 (length a + 1) + osc_pad4 (length t + 1)) d"
  then show ?thesis by (intro exI [of _ a] exI [of _ t]) simp
qed

theorem osc_parse_within_datagram_witness:
  "length (om_args (OscParseMessage (osc_message ''/a'' '',i'' [0,0,0,7]))) = 4"
proof -
  have p: "unat (OscPad4 3) = 4" by (simp add: OscPad4_def)
  have m: "OscParseMessage (osc_message ''/a'' '',i'' [0,0,0,7]) =
      \<lparr>om_address = Some ''/a'', om_typetag = Some '',i'', om_args = [0,0,0,7], om_valid = True\<rparr>"
    by (rule OscParseMessage_osc_message) (simp_all add: osc_message_def osc_string_def p)
  then have "om_valid (OscParseMessage (osc_message ''/a'' '',i'' [0,0,0,7]))" by simp
  from osc_parse_within_datagram [OF this] show ?thesis using m p
    by (auto simp: osc_message_def osc_string_def)
qed

text \<open>Bundles. Dispatching a bundle calls the callback with the messages of its elements,
  in order and for nested bundles too: dispatch distributes over the elements.\<close>

theorem osc_dispatch_bundle:
  assumes "length timetag = 8" "\<forall>e \<in> set es. length e < 2 ^ 32"
  shows "OscDispatch (osc_bundle timetag es) = concat (map OscDispatch es)"
proof -
  have "OscBundleLoop (osc_bundle timetag es) 16 = concat (map OscDispatch es)"
    using OscBundleLoop_elements [OF assms(2), of "kOscBundlePrefix @ timetag"] assms(1)
    by (simp add: osc_bundle_def)
  then show ?thesis
    using assms(1) by (subst OscDispatch.simps) (simp add: osc_bundle_def)
qed

theorem osc_dispatch_bundle_witness:
  "map om_address (OscDispatch (osc_bundle (replicate 8 0)
     [osc_message ''/a'' '','' [], osc_bundle (replicate 8 1) [osc_message ''/b'' '','' []]]))
   = [Some ''/a'', Some ''/b'']"
proof -
  have p: "unat (OscPad4 3) = 4" "unat (OscPad4 2) = 4" by (simp_all add: OscPad4_def)
  have a: "OscDispatch (osc_message [CHR ''/'', c] '','' []) =
      [\<lparr>om_address = Some [CHR ''/'', c], om_typetag = Some '','', om_args = [], om_valid = True\<rparr>]"
    if "c = CHR ''a'' \<or> c = CHR ''b''" for c
  proof -
    have m: "OscParseMessage (osc_message [CHR ''/'', c] '','' []) =
        \<lparr>om_address = Some [CHR ''/'', c], om_typetag = Some '','', om_args = [], om_valid = True\<rparr>"
      using that by (intro OscParseMessage_osc_message) (auto simp: osc_message_def osc_string_def p)
    have "take 8 (osc_message [CHR ''/'', c] '','' []) \<noteq> kOscBundlePrefix"
      "length (osc_message [CHR ''/'', c] '','' []) = 8"
      by (auto simp: osc_message_def osc_string_def p kOscBundlePrefix_def bytes_of_str_def)
    with m show ?thesis by (simp add: OscDispatch.simps)
  qed
  have inner: "OscDispatch (osc_bundle (replicate 8 1) [osc_message ''/b'' '','' []]) =
      concat (map OscDispatch [osc_message ''/b'' '','' []])"
    by (rule osc_dispatch_bundle) (simp_all add: osc_message_def osc_string_def p)
  have outer: "OscDispatch (osc_bundle (replicate 8 0) [osc_message ''/a'' '','' [],
        osc_bundle (replicate 8 1) [osc_message ''/b'' '','' []]]) =
      concat (map OscDispatch [osc_message ''/a'' '','' [],
        osc_bundle (replicate 8 1) [osc_message ''/b'' '','' []]])"
    by (rule osc_dispatch_bundle)
      (simp_all add: osc_bundle_def osc_element_def osc_message_def osc_string_def p)
  show ?thesis by (simp add: outer inner a)
qed



text \<open>The hypothesis that no alternative is empty is needed: after a star the matcher never
  tries the empty suffix, so \<open>/a*{,b}\<close> does not match \<open>/a\<close> although each part may be
  empty.\<close>

lemma star_skips_empty_suffix:
  "\<not> PatternMatchImpl ''/a*{,b}'' ''/a''" "osc_matches [PLit (CHR ''/''), PLit (CHR ''a''), PStar, PAlt [[], ''b'']] ''/a''"
  by (simp_all add: PatternMatchImpl.simps(2))

end
