(* ===== verification/OscStatsShmem.thy ===== *)
theory OscStatsShmem
  imports Protocol ShmemSegment Seqlock
begin

text \<open>
  \<open>protocol::OscRouterStatsShmem\<close>: the send counters of the OSC router and a table of 32
  sequence-locked route slots, written by the router's send worker and read by the overlay. The
  generation of a slot is kept apart from its remaining fields, which form the body.
\<close>

section \<open>Data\<close>

definition OSC_ROUTER_ROUTE_SLOTS :: nat where
  "OSC_ROUTER_ROUTE_SLOTS = 32"

definition OSC_SHMEM_MAGIC :: u32 where
  "OSC_SHMEM_MAGIC = 0xC5C7057C"

definition OSC_SHMEM_VERSION :: u32 where
  "OSC_SHMEM_VERSION = 1"

record OscRouteBody =
  address_pattern :: string
  subscriber_label :: string
  rt_match_count :: u64
  rt_drop_count :: u64
  rt_last_match_tick :: u64
  rt_active :: byte

type_synonym OscRouterRouteSlot = "OscRouteBody seq_slot"

record OscShmemData =
  osc_magic :: u32
  osc_version :: u32
  shm_packets_sent :: u64
  shm_bytes_sent :: u64
  shm_packets_dropped :: u64
  routes :: "OscRouterRouteSlot list"

section \<open>Life cycle\<close>

definition OscRouterStatsShmem_Create ::
    "bool \<Rightarrow> bool \<Rightarrow> OscShmemData \<Rightarrow> shm_client \<Rightarrow> (shm_client \<times> OscShmemData) \<times> bool" where
  "OscRouterStatsShmem_Create f m d c = (let (c1, ok) = shm_Create f m c
     in ((c1, if ok then d\<lparr>osc_magic := OSC_SHMEM_MAGIC, osc_version := OSC_SHMEM_VERSION\<rparr> else d), ok))"

definition OscRouterStatsShmem_Open ::
    "bool \<Rightarrow> bool \<Rightarrow> u32 \<times> u32 \<Rightarrow> shm_client \<Rightarrow> shm_client \<times> shmem_error option" where
  "OscRouterStatsShmem_Open = shm_Open OSC_SHMEM_MAGIC OSC_SHMEM_VERSION"

interpretation osc_seg: shm_class OscRouterStatsShmem_Open OSC_SHMEM_MAGIC OSC_SHMEM_VERSION
  unfolding OscRouterStatsShmem_Open_def by (rule shm_Open_class)

section \<open>Operations\<close>

definition AddSent :: "u64 \<Rightarrow> OscShmemData option \<Rightarrow> OscShmemData option" where
  "AddSent bytes = map_option (\<lambda>d. d\<lparr>shm_packets_sent := shm_packets_sent d + 1,
     shm_bytes_sent := shm_bytes_sent d + bytes\<rparr>)"

definition AddDropped :: "OscShmemData option \<Rightarrow> OscShmemData option" where
  "AddDropped = map_option (\<lambda>d. d\<lparr>shm_packets_dropped := shm_packets_dropped d + 1\<rparr>)"

text \<open>The bounded copy into a field of \<open>dst_size\<close> characters; a null source clears it.\<close>

definition CopyStrField :: "nat \<Rightarrow> string option \<Rightarrow> string" where
  "CopyStrField dst_size src = (case src of None \<Rightarrow> [] | Some s \<Rightarrow> strncpy_field dst_size s)"

definition WriteRoute :: "u32 \<Rightarrow> string option \<Rightarrow> string option \<Rightarrow> u64 \<Rightarrow> u64 \<Rightarrow> u64 \<Rightarrow> bool \<Rightarrow>
    OscShmemData option \<Rightarrow> OscShmemData option" where
  "WriteRoute index pattern subscriber matches drops tick active pData = (case pData of
       None \<Rightarrow> None
     | Some d \<Rightarrow> if unat index \<ge> OSC_ROUTER_ROUTE_SLOTS then pData else
        let body = \<lparr>address_pattern = CopyStrField OSC_ROUTE_ADDR_LEN pattern,
              subscriber_label = CopyStrField 32 subscriber, rt_match_count = matches,
              rt_drop_count = drops, rt_last_match_tick = tick, rt_active = (if active then 1 else 0)\<rparr>
        in Some (d\<lparr>routes := (routes d)[unat index := seq_write body (routes d ! unat index)]\<rparr>))"

definition ReadGlobalStats :: "OscShmemData option \<Rightarrow> OscRouterStats option" where
  "ReadGlobalStats = map_option (\<lambda>d. \<lparr>packets_sent = shm_packets_sent d, bytes_sent = shm_bytes_sent d,
     packets_dropped = shm_packets_dropped d,
     active_routes = of_nat (length (filter (\<lambda>s. rt_active (slot_body s) \<noteq> 0) (routes d)))\<rparr>)"

definition TryReadRoute :: "nat \<Rightarrow> u32 \<Rightarrow> OscShmemData option \<Rightarrow> OscRouteBody option" where
  "TryReadRoute max_retries index pData = (case pData of
       None \<Rightarrow> None
     | Some d \<Rightarrow> if unat index \<ge> OSC_ROUTER_ROUTE_SLOTS then None
        else seq_try_read max_retries (routes d ! unat index))"

section \<open>Invariant and contracts\<close>

definition osc_wf :: "OscShmemData option \<Rightarrow> bool" where
  "osc_wf pData \<longleftrightarrow> (\<exists>d. pData = Some d \<and> length (routes d) = OSC_ROUTER_ROUTE_SLOTS \<and>
     (\<forall>s \<in> set (routes d). even (generation s)))"

definition osc_inside :: "u32 \<Rightarrow> bool" where
  "osc_inside i \<longleftrightarrow> unat i < OSC_ROUTER_ROUTE_SLOTS"

text \<open>The arguments of \<open>WriteRoute\<close> as one value, and what a reader sees of them.\<close>

type_synonym route_args = "string option \<times> string option \<times> u64 \<times> u64 \<times> u64 \<times> bool"

fun write_args :: "u32 \<Rightarrow> route_args \<Rightarrow> OscShmemData option \<Rightarrow> OscShmemData option" where
  "write_args i (p, l, mc, dc, t, a) = WriteRoute i p l mc dc t a"

fun route_seen :: "route_args \<Rightarrow> OscRouteBody" where
  "route_seen (p, l, mc, dc, t, a) =
     \<lparr>address_pattern = CopyStrField OSC_ROUTE_ADDR_LEN p, subscriber_label = CopyStrField 32 l,
      rt_match_count = mc, rt_drop_count = dc, rt_last_match_tick = t, rt_active = (if a then 1 else 0)\<rparr>"

lemma write_args_eq:
  "write_args i b (Some d) = (if unat i < OSC_ROUTER_ROUTE_SLOTS
     then Some (d\<lparr>routes := (routes d)[unat i := seq_write (route_seen b) (routes d ! unat i)]\<rparr>)
     else Some d)"
  by (cases b) (simp add: WriteRoute_def Let_def)

lemma write_args_wf: "osc_wf m \<Longrightarrow> osc_wf (write_args i b m)"
  by (auto simp: osc_wf_def write_args_eq dest!: set_list_updateD)

interpretation osc_routes: slot_table osc_wf osc_inside route_seen write_args "TryReadRoute (Suc n)"
proof
  fix m :: "OscShmemData option" and i j :: u32 and b
  assume wf: "osc_wf m"
  then obtain d where d: "m = Some d" "length (routes d) = OSC_ROUTER_ROUTE_SLOTS"
    "\<forall>s \<in> set (routes d). even (generation s)"
    by (auto simp: osc_wf_def)
  show "osc_wf (write_args i b m)" using wf by (rule write_args_wf)
  show "TryReadRoute (Suc n) i (write_args i b m) = Some (route_seen b)" if "osc_inside i"
    using that d by (simp add: TryReadRoute_def write_args_eq osc_inside_def del: route_seen.simps)
  show "TryReadRoute (Suc n) i (write_args j b m) = TryReadRoute (Suc n) i m" if "i \<noteq> j"
  proof -
    have "unat i \<noteq> unat j" using that by (simp add: word_unat_eq_iff)
    then show ?thesis using d by (simp add: TryReadRoute_def write_args_eq)
  qed
  show "TryReadRoute (Suc n) i m = None" if "\<not> osc_inside i"
    using that d by (simp add: TryReadRoute_def osc_inside_def)
qed

end
