(* ===== verification/RouteTable.thy ===== *)
theory RouteTable
  imports OscWire OscStatsShmem
begin

text \<open>
  \<open>oscrouter::RouteTable\<close> (\<open>modules/oscrouter/src/driver/RouteTable.h\<close>, \<open>.cpp\<close>): the
  32 route entries of the OSC router, keyed by subscriber. The entries form a list of fixed
  length; a slot index is a position in it and \<open>-1\<close> is \<open>None\<close>.
\<close>

section \<open>Data and operations\<close>

definition kMaxRoutes :: nat where
  "kMaxRoutes = OSC_ROUTER_ROUTE_SLOTS"

record RouteEntry =
  re_subscriber_id :: OscSubscriberId
  re_pattern :: string
  re_label :: string
  re_match_count :: u64
  re_drop_count :: u64
  re_last_match_tick :: u64
  re_active :: bool

type_synonym RouteTable = "RouteEntry list"

definition FindSlot :: "OscSubscriberId \<Rightarrow> RouteTable \<Rightarrow> nat option" where
  "FindSlot sid t = find_index (\<lambda>e. re_active e \<and> re_subscriber_id e = sid) t"

definition FindFreeSlot :: "RouteTable \<Rightarrow> nat option" where
  "FindFreeSlot t = find_index (\<lambda>e. \<not> re_active e) t"

text \<open>The two copy loops stop at the NUL or one character before the end of the field.\<close>

definition new_entry :: "OscSubscriberId \<Rightarrow> string \<Rightarrow> string \<Rightarrow> RouteEntry" where
  "new_entry sid pattern label = \<lparr>re_subscriber_id = sid, re_pattern = strncpy_field OSC_ROUTE_ADDR_LEN pattern,
     re_label = strncpy_field 32 label, re_match_count = 0, re_drop_count = 0, re_last_match_tick = 0,
     re_active = True\<rparr>"

definition Subscribe :: "OscSubscriberId \<Rightarrow> string \<Rightarrow> string \<Rightarrow> RouteTable \<Rightarrow> RouteTable \<times> bool" where
  "Subscribe sid pattern label t =
     (case (case FindSlot sid t of Some s \<Rightarrow> Some s | None \<Rightarrow> FindFreeSlot t) of
        None \<Rightarrow> (t, False)
      | Some slot \<Rightarrow> (t[slot := new_entry sid pattern label], True))"

definition Unsubscribe :: "OscSubscriberId \<Rightarrow> RouteTable \<Rightarrow> RouteTable" where
  "Unsubscribe sid t = (case FindSlot sid t of None \<Rightarrow> t | Some s \<Rightarrow> t[s := (t ! s)\<lparr>re_active := False\<rparr>])"

definition entry_matches :: "string \<Rightarrow> RouteEntry \<Rightarrow> bool" where
  "entry_matches address e \<longleftrightarrow> re_active e \<and> OscPatternMatch (Some (re_pattern e)) (Some address)"

definition Dispatch :: "string \<Rightarrow> u64 \<Rightarrow> RouteTable \<Rightarrow> RouteTable \<times> bool" where
  "Dispatch address tick t =
     (map (\<lambda>e. if entry_matches address e
             then e\<lparr>re_match_count := re_match_count e + 1, re_last_match_tick := tick\<rparr> else e) t,
      list_ex (entry_matches address) t)"

definition BumpDropCount :: "string \<Rightarrow> RouteTable \<Rightarrow> RouteTable" where
  "BumpDropCount address t =
     map (\<lambda>e. if entry_matches address e then e\<lparr>re_drop_count := re_drop_count e + 1\<rparr> else e) t"

text \<open>The counters of an inactive entry are passed on without having been copied, so they are
  whatever the stack held: the argument \<open>junk\<close>.\<close>

definition route_row :: "(nat \<Rightarrow> u64 \<times> u64 \<times> u64) \<Rightarrow> RouteTable \<Rightarrow> nat \<Rightarrow> route_args" where
  "route_row junk t i = (let e = t ! i in
     if re_active e then (Some (re_pattern e), Some (re_label e), re_match_count e, re_drop_count e,
         re_last_match_tick e, True)
     else (Some [], Some [], fst (junk i), fst (snd (junk i)), snd (snd (junk i)), False))"

definition PublishToShmem ::
    "(nat \<Rightarrow> u64 \<times> u64 \<times> u64) \<Rightarrow> RouteTable \<Rightarrow> OscShmemData option \<Rightarrow> OscShmemData option" where
  "PublishToShmem junk t shm = fold (\<lambda>i. write_args (of_nat i) (route_row junk t i)) [0..<kMaxRoutes] shm"

definition ActiveCount :: "RouteTable \<Rightarrow> u32" where
  "ActiveCount t = of_nat (length (filter re_active t))"

definition RouteTable_new :: RouteTable where
  "RouteTable_new = replicate kMaxRoutes \<lparr>re_subscriber_id = 0, re_pattern = [], re_label = [],
     re_match_count = 0, re_drop_count = 0, re_last_match_tick = 0, re_active = False\<rparr>"

section \<open>Invariant\<close>

definition active_ids :: "RouteTable \<Rightarrow> OscSubscriberId list" where
  "active_ids t = map re_subscriber_id (filter re_active t)"

definition entry_ok :: "RouteEntry \<Rightarrow> bool" where
  "entry_ok e \<longleftrightarrow> length (re_pattern e) < OSC_ROUTE_ADDR_LEN \<and> length (re_label e) < 32"

definition rt_inv :: "RouteTable \<Rightarrow> bool" where
  "rt_inv t \<longleftrightarrow> length t = kMaxRoutes \<and> distinct (active_ids t) \<and> list_all entry_ok t"

text \<open>The abstract content: which pattern each subscriber has.\<close>

definition rt_lookup :: "RouteTable \<Rightarrow> OscSubscriberId \<Rightarrow> string option" where
  "rt_lookup t sid = map_option (\<lambda>s. re_pattern (t ! s)) (FindSlot sid t)"

lemma rt_inv_new: "rt_inv RouteTable_new"
  by (simp add: rt_inv_def RouteTable_new_def active_ids_def entry_ok_def list_all_iff
      OSC_ROUTE_ADDR_LEN_def kMaxRoutes_def OSC_ROUTER_ROUTE_SLOTS_def)

lemma active_ids_Cons [simp]:
  "active_ids [] = []"
  "active_ids (e # t) = (if re_active e then re_subscriber_id e # active_ids t else active_ids t)"
  by (simp_all add: active_ids_def)

lemma active_ids_update_same:
  assumes "s < length t" "re_active (t ! s)" "re_active e" "re_subscriber_id e = re_subscriber_id (t ! s)"
  shows "active_ids (t[s := e]) = active_ids t"
  using assms by (induction t arbitrary: s) (auto split: nat.splits)

lemma set_active_ids: "set (active_ids t) = {re_subscriber_id e |e. e \<in> set t \<and> re_active e}"
  by (auto simp: active_ids_def)

lemma distinct_active_activate:
  assumes "distinct (active_ids t)" "s < length t" "\<not> re_active (t ! s)" "re_subscriber_id e \<notin> set (active_ids t)"
  shows "distinct (active_ids (t[s := e]))"
  using assms
proof (induction t arbitrary: s)
  case (Cons a t)
  show ?case
  proof (cases s)
    case 0
    then show ?thesis using Cons.prems by simp
  next
    case (Suc k)
    have "re_subscriber_id a \<notin> set (active_ids (t[k := e]))" if "re_active a"
      using that Cons.prems by (auto simp: set_active_ids dest!: set_list_updateD)
    then show ?thesis using Cons.IH [of k] Cons.prems Suc by (auto split: if_splits)
  qed
qed simp

lemma distinct_active_deactivate:
  assumes "distinct (active_ids t)"
  shows "distinct (active_ids (t[s := (t ! s)\<lparr>re_active := False\<rparr>]))"
  using assms
proof (induction t arbitrary: s)
  case (Cons a t)
  show ?case
  proof (cases s)
    case (Suc k)
    have "set (active_ids (t[k := (t ! k)\<lparr>re_active := False\<rparr>])) \<subseteq> set (active_ids t)"
      by (auto simp: set_active_ids dest!: set_list_updateD)
    then show ?thesis using Cons.IH [of k] Cons.prems Suc by (auto split: if_splits)
  qed (use Cons.prems in \<open>auto split: if_splits\<close>)
qed simp

lemma FindSlot_SomeD:
  "FindSlot sid t = Some s \<Longrightarrow> s < length t \<and> re_active (t ! s) \<and> re_subscriber_id (t ! s) = sid"
  unfolding FindSlot_def by (drule find_index_SomeD) simp

lemma FindFreeSlot_SomeD: "FindFreeSlot t = Some s \<Longrightarrow> s < length t \<and> \<not> re_active (t ! s)"
  unfolding FindFreeSlot_def by (drule find_index_SomeD) simp

lemma FindSlot_None: "FindSlot sid t = None \<longleftrightarrow> sid \<notin> set (active_ids t)"
  by (auto simp: FindSlot_def set_active_ids)

lemma entry_ok_new: "entry_ok (new_entry sid p l)"
  by (simp add: entry_ok_def new_entry_def strncpy_field_def OSC_ROUTE_ADDR_LEN_def min_less_iff_disj)

lemma Subscribe_inv [inv_intros]: "rt_inv t \<Longrightarrow> rt_inv (fst (Subscribe sid p l t))"
proof -
  assume inv: "rt_inv t"
  have len: "list_all entry_ok (t[s := new_entry sid p l])" for s
    using inv by (auto simp: rt_inv_def list_all_iff entry_ok_new dest!: set_list_updateD)
  show ?thesis
  proof (cases "FindSlot sid t")
    case (Some s)
    then show ?thesis using inv FindSlot_SomeD [OF Some] len
      by (auto simp: Subscribe_def rt_inv_def active_ids_update_same new_entry_def)
  next
    case None
    show ?thesis
    proof (cases "FindFreeSlot t")
      case (Some s)
      have "distinct (active_ids (t[s := new_entry sid p l]))"
        using inv None FindFreeSlot_SomeD [OF Some]
        by (intro distinct_active_activate) (auto simp: rt_inv_def FindSlot_None new_entry_def)
      then show ?thesis using inv None Some len by (simp add: Subscribe_def rt_inv_def)
    qed (use inv None in \<open>simp add: Subscribe_def\<close>)
  qed
qed

lemma Unsubscribe_inv [inv_intros]: "rt_inv t \<Longrightarrow> rt_inv (Unsubscribe sid t)"
proof (cases "FindSlot sid t")
  case (Some s)
  assume inv: "rt_inv t"
  have "entry_ok ((t ! s)\<lparr>re_active := False\<rparr>)"
    using inv FindSlot_SomeD [OF Some] by (simp add: rt_inv_def list_all_iff entry_ok_def)
  then show ?thesis using inv Some distinct_active_deactivate
    by (auto simp: Unsubscribe_def rt_inv_def list_all_iff dest!: set_list_updateD)
qed (simp add: Unsubscribe_def)

lemma map_counters_inv:
  assumes "rt_inv t" "\<And>e. re_subscriber_id (f e) = re_subscriber_id e" "\<And>e. re_active (f e) = re_active e"
    "\<And>e. re_pattern (f e) = re_pattern e" "\<And>e. re_label (f e) = re_label e"
  shows "rt_inv (map f t)"
proof -
  have "active_ids (map f t) = active_ids t"
    using assms(2,3) by (simp add: active_ids_def filter_map comp_def)
  then show ?thesis using assms by (auto simp: rt_inv_def list_all_iff entry_ok_def)
qed

lemma Dispatch_inv [inv_intros]: "rt_inv t \<Longrightarrow> rt_inv (fst (Dispatch a k t))"
  unfolding Dispatch_def fst_conv by (rule map_counters_inv) simp_all

lemma BumpDropCount_inv [inv_intros]: "rt_inv t \<Longrightarrow> rt_inv (BumpDropCount a t)"
  unfolding BumpDropCount_def by (rule map_counters_inv) simp_all

section \<open>The table as a bounded map\<close>

lemma active_ids_inj:
  assumes "distinct (active_ids t)" "i < length t" "j < length t" "re_active (t ! i)" "re_active (t ! j)"
    "re_subscriber_id (t ! i) = re_subscriber_id (t ! j)"
  shows "i = j"
  using assms
proof (induction t arbitrary: i j)
  case (Cons a t)
  have m: "x \<in> set (active_ids t)" if "k < length t" "re_active (t ! k)" "re_subscriber_id (t ! k) = x" for k x
    using that by (auto simp: set_active_ids)
  show ?case
  proof (cases i)
    case 0
    then show ?thesis
      using Cons.prems m [of "j - 1" "re_subscriber_id a"] by (cases j) (simp_all split: if_splits)
  next
    case (Suc k)
    then show ?thesis
      using Cons.prems m [of k "re_subscriber_id a"] Cons.IH [of k "j - 1"] by (cases j) (simp_all split: if_splits)
  qed
qed simp

lemma FindSlot_unique:
  assumes "rt_inv t" "i < length t" "re_active (t ! i)" "re_subscriber_id (t ! i) = sid"
  shows "FindSlot sid t = Some i"
  unfolding FindSlot_def
  using assms by (intro find_index_unique) (auto simp: rt_inv_def intro: active_ids_inj)

lemma dom_rt_lookup: "dom (rt_lookup t) = set (active_ids t)"
  using FindSlot_None by (auto simp: rt_lookup_def dom_def)

lemma rt_lookup_SomeI:
  assumes "rt_inv t" "i < length t" "re_active (t ! i)"
  shows "rt_lookup t (re_subscriber_id (t ! i)) = Some (re_pattern (t ! i))"
  by (simp add: rt_lookup_def FindSlot_unique [OF assms refl])

lemma rt_lookup_eq:
  assumes "rt_inv t" "rt_inv u"
    and "\<And>i. i < length t \<Longrightarrow> re_active (t ! i) \<Longrightarrow> re_subscriber_id (t ! i) = sid \<Longrightarrow>
      i < length u \<and> re_active (u ! i) \<and> re_subscriber_id (u ! i) = sid \<and> re_pattern (u ! i) = re_pattern (t ! i)"
    and "\<And>i. i < length u \<Longrightarrow> re_active (u ! i) \<Longrightarrow> re_subscriber_id (u ! i) = sid \<Longrightarrow>
      i < length t \<and> re_active (t ! i) \<and> re_subscriber_id (t ! i) = sid"
  shows "rt_lookup u sid = rt_lookup t sid"
proof (cases "FindSlot sid t")
  case (Some i)
  from FindSlot_SomeD [OF Some] assms(3) have "FindSlot sid u = Some i" "re_pattern (u ! i) = re_pattern (t ! i)"
    by (auto intro!: FindSlot_unique [OF assms(2)])
  then show ?thesis by (simp add: rt_lookup_def Some)
next
  case None
  have "FindSlot sid u = None"
  proof (cases "FindSlot sid u")
    case (Some j)
    from FindSlot_SomeD [OF Some] assms(4) FindSlot_unique [OF assms(1)] None show ?thesis by force
  qed
  then show ?thesis by (simp add: rt_lookup_def None)
qed

lemma Subscribe_write:
  assumes "rt_inv t" "snd (Subscribe sid p l t)"
  obtains s where "s < length t" "fst (Subscribe sid p l t) = t[s := new_entry sid p l]"
    "re_active (t ! s) \<Longrightarrow> re_subscriber_id (t ! s) = sid"
    "\<And>i. i < length t \<Longrightarrow> i \<noteq> s \<Longrightarrow> re_active (t ! i) \<Longrightarrow> re_subscriber_id (t ! i) \<noteq> sid"
proof (cases "FindSlot sid t")
  case (Some s)
  show thesis
  proof (rule that [of s])
    show "re_subscriber_id (t ! i) \<noteq> sid" if "i < length t" "i \<noteq> s" "re_active (t ! i)" for i
      using that FindSlot_unique [OF assms(1) that(1,3)] Some by auto
  qed (use FindSlot_SomeD [OF Some] Some in \<open>auto simp: Subscribe_def\<close>)
next
  case None
  with assms(2) obtain s where s: "FindFreeSlot t = Some s" by (auto simp: Subscribe_def split: option.splits)
  show thesis
  proof (rule that [of s])
    show "re_subscriber_id (t ! i) \<noteq> sid" if "i < length t" "i \<noteq> s" "re_active (t ! i)" for i
      using that None by (auto simp: FindSlot_None set_active_ids)
  qed (use FindFreeSlot_SomeD [OF s] None s in \<open>auto simp: Subscribe_def\<close>)
qed

lemma Subscribe_lookup:
  assumes inv: "rt_inv t" and ok: "snd (Subscribe sid p l t)"
  shows "rt_lookup (fst (Subscribe sid p l t)) = (rt_lookup t)(sid \<mapsto> strncpy_field OSC_ROUTE_ADDR_LEN p)"
proof (rule ext)
  fix k
  obtain s where s: "s < length t" "fst (Subscribe sid p l t) = t[s := new_entry sid p l]"
    "re_active (t ! s) \<Longrightarrow> re_subscriber_id (t ! s) = sid"
    "\<And>i. i < length t \<Longrightarrow> i \<noteq> s \<Longrightarrow> re_active (t ! i) \<Longrightarrow> re_subscriber_id (t ! i) \<noteq> sid"
    using Subscribe_write [OF inv ok] by blast
  have inv': "rt_inv (t[s := new_entry sid p l])" using Subscribe_inv [OF inv, of sid p l] s(2) by simp
  show "rt_lookup (fst (Subscribe sid p l t)) k = ((rt_lookup t)(sid \<mapsto> strncpy_field OSC_ROUTE_ADDR_LEN p)) k"
  proof (cases "k = sid")
    case True
    then show ?thesis using rt_lookup_SomeI [OF inv', of s] s(1,2) by (simp add: new_entry_def)
  next
    case False
    have "rt_lookup (t[s := new_entry sid p l]) k = rt_lookup t k"
      by (rule rt_lookup_eq [OF inv inv']) (use s(1,3) False in \<open>auto simp: nth_list_update new_entry_def split: if_splits\<close>)
    then show ?thesis using False s(2) by simp
  qed
qed

lemma Unsubscribe_lookup:
  assumes inv: "rt_inv t"
  shows "rt_lookup (Unsubscribe sid t) = (rt_lookup t)(sid := None)"
proof (cases "FindSlot sid t")
  case (Some s)
  note s = FindSlot_SomeD [OF Some]
  have inv': "rt_inv (Unsubscribe sid t)" using inv by (rule Unsubscribe_inv)
  have u: "Unsubscribe sid t = t[s := (t ! s)\<lparr>re_active := False\<rparr>]" by (simp add: Unsubscribe_def Some)
  have "FindSlot sid (Unsubscribe sid t) = None"
  proof (cases "FindSlot sid (Unsubscribe sid t)")
    case (Some j)
    from FindSlot_SomeD [OF Some] u s have "j \<noteq> s" "j < length t" "re_active (t ! j)" "re_subscriber_id (t ! j) = sid"
      by (auto simp: nth_list_update split: if_splits)
    with s active_ids_inj [of t j s] inv show ?thesis by (auto simp: rt_inv_def)
  qed
  moreover have "rt_lookup (Unsubscribe sid t) k = rt_lookup t k" if "k \<noteq> sid" for k
    by (rule rt_lookup_eq [OF inv inv']) (use s that in \<open>auto simp: u nth_list_update split: if_splits\<close>)
  ultimately show ?thesis by (auto simp: rt_lookup_def)
qed (auto simp: Unsubscribe_def rt_lookup_def)

lemma rt_lookup_new: "rt_lookup RouteTable_new = Map.empty"
  by (rule ext) (simp add: rt_lookup_def FindSlot_None active_ids_def RouteTable_new_def)

lemma card_active: "rt_inv t \<Longrightarrow> card (dom (rt_lookup t)) = length (active_ids t)"
  by (simp add: dom_rt_lookup rt_inv_def distinct_card)

lemma active_ids_full: "length (active_ids t) < length t \<longleftrightarrow> (\<exists>e \<in> set t. \<not> re_active e)"
proof
  assume "length (active_ids t) < length t"
  then have "filter re_active t \<noteq> t" by (auto simp: active_ids_def)
  then show "\<exists>e \<in> set t. \<not> re_active e" by (simp add: filter_id_conv)
next
  assume "\<exists>e \<in> set t. \<not> re_active e"
  then show "length (active_ids t) < length t" by (auto simp: active_ids_def intro: length_filter_less)
qed

lemma Subscribe_succeeds_iff:
  assumes "rt_inv t"
  shows "snd (Subscribe sid p l t) \<longleftrightarrow> sid \<in> dom (rt_lookup t) \<or> card (dom (rt_lookup t)) < kMaxRoutes"
proof -
  have "FindFreeSlot t = None \<longleftrightarrow> \<not> length (active_ids t) < kMaxRoutes"
    using assms active_ids_full [of t] by (simp add: FindFreeSlot_def rt_inv_def)
  moreover have "FindSlot sid t = None \<longleftrightarrow> sid \<notin> dom (rt_lookup t)"
    by (simp add: dom_rt_lookup FindSlot_None)
  ultimately show ?thesis
    using card_active [OF assms] by (auto simp: Subscribe_def split: option.splits)
qed

lemma Subscribe_fails: "\<not> snd (Subscribe sid p l t) \<Longrightarrow> fst (Subscribe sid p l t) = t"
  by (auto simp: Subscribe_def split: option.splits)

text \<open>The contract of a bounded table of named subscriptions: a client sees a map from keys to
  values that rejects new keys when \<open>capacity\<close> keys are present.\<close>

locale bounded_subscriptions =
  fixes inv :: "'t \<Rightarrow> bool" and lookup :: "'t \<Rightarrow> 'k \<Rightarrow> 'v option"
    and sub :: "'k \<Rightarrow> 'a \<Rightarrow> 't \<Rightarrow> 't \<times> bool" and unsub :: "'k \<Rightarrow> 't \<Rightarrow> 't"
    and val :: "'a \<Rightarrow> 'v" and capacity :: nat
  assumes inv_sub: "inv t \<Longrightarrow> inv (fst (sub k a t))"
    and inv_unsub: "inv t \<Longrightarrow> inv (unsub k t)"
    and lookup_sub: "inv t \<Longrightarrow> snd (sub k a t) \<Longrightarrow> lookup (fst (sub k a t)) = (lookup t)(k \<mapsto> val a)"
    and sub_failed: "\<not> snd (sub k a t) \<Longrightarrow> fst (sub k a t) = t"
    and sub_iff: "inv t \<Longrightarrow> snd (sub k a t) \<longleftrightarrow> k \<in> dom (lookup t) \<or> card (dom (lookup t)) < capacity"
    and lookup_unsub: "inv t \<Longrightarrow> lookup (unsub k t) = (lookup t)(k := None)"

datatype ('k, 'a) sub_cmd = SubCmd 'k 'a | UnsubCmd 'k

text \<open>The specification: one command on the abstract map, with the flag returned to the client.\<close>

fun spec_cmd :: "nat \<Rightarrow> ('a \<Rightarrow> 'v) \<Rightarrow> ('k, 'a) sub_cmd \<Rightarrow> ('k \<rightharpoonup> 'v) \<Rightarrow> ('k \<rightharpoonup> 'v) \<times> bool" where
  "spec_cmd N val (SubCmd k a) m =
     (if k \<in> dom m \<or> card (dom m) < N then (m(k \<mapsto> val a), True) else (m, False))"
| "spec_cmd N val (UnsubCmd k) m = (m(k := None), True)"

fun impl_cmd :: "('k \<Rightarrow> 'a \<Rightarrow> 't \<Rightarrow> 't \<times> bool) \<Rightarrow> ('k \<Rightarrow> 't \<Rightarrow> 't) \<Rightarrow> ('k, 'a) sub_cmd \<Rightarrow> 't \<Rightarrow> 't \<times> bool" where
  "impl_cmd sub unsub (SubCmd k a) t = sub k a t"
| "impl_cmd sub unsub (UnsubCmd k) t = (unsub k t, True)"

fun run_cmds :: "('c \<Rightarrow> 's \<Rightarrow> 's \<times> bool) \<Rightarrow> 'c list \<Rightarrow> 's \<Rightarrow> 's \<times> bool list" where
  "run_cmds f [] s = (s, [])"
| "run_cmds f (c # cs) s = (let (s1, r) = f c s; (s2, rs) = run_cmds f cs s1 in (s2, r # rs))"

context bounded_subscriptions
begin

lemma cmd_simulation:
  assumes "inv t"
  shows "inv (fst (impl_cmd sub unsub c t)) \<and>
    spec_cmd capacity val c (lookup t) =
      (lookup (fst (impl_cmd sub unsub c t)), snd (impl_cmd sub unsub c t))"
proof (cases c)
  case (SubCmd k a)
  then show ?thesis using assms inv_sub [of t k a] lookup_sub [of t k a] sub_failed [of k a t] sub_iff [of t k a]
    by (cases "snd (sub k a t)") auto
qed (use assms in \<open>auto simp: inv_unsub lookup_unsub\<close>)

lemma run_simulation:
  "inv t \<Longrightarrow> inv (fst (run_cmds (impl_cmd sub unsub) cs t)) \<and>
    run_cmds (spec_cmd capacity val) cs (lookup t) =
      (lookup (fst (run_cmds (impl_cmd sub unsub) cs t)), snd (run_cmds (impl_cmd sub unsub) cs t))"
proof (induction cs arbitrary: t)
  case (Cons c cs)
  from cmd_simulation [OF Cons.prems, of c] Cons.IH [of "fst (impl_cmd sub unsub c t)"]
  show ?case by (auto simp: Let_def split: prod.splits)
qed simp

end

definition subscribe_pl :: "OscSubscriberId \<Rightarrow> string \<times> string \<Rightarrow> RouteTable \<Rightarrow> RouteTable \<times> bool" where
  "subscribe_pl sid pl = Subscribe sid (fst pl) (snd pl)"

interpretation routes: bounded_subscriptions rt_inv rt_lookup subscribe_pl Unsubscribe
  "\<lambda>pl. strncpy_field OSC_ROUTE_ADDR_LEN (fst pl)" kMaxRoutes
  by unfold_locales (simp_all add: subscribe_pl_def Subscribe_inv Unsubscribe_inv Subscribe_lookup
      Subscribe_fails Subscribe_succeeds_iff Unsubscribe_lookup)

section \<open>Publication\<close>

lemma row_seen_active:
  assumes "entry_ok (t ! i)" "re_active (t ! i)"
  shows "route_seen (route_row junk t i) = \<lparr>address_pattern = re_pattern (t ! i), subscriber_label = re_label (t ! i),
    rt_match_count = re_match_count (t ! i), rt_drop_count = re_drop_count (t ! i),
    rt_last_match_tick = re_last_match_tick (t ! i), rt_active = 1\<rparr>"
  using assms by (simp add: route_row_def CopyStrField_def strncpy_field_def entry_ok_def Let_def OSC_ROUTE_ADDR_LEN_def)

lemma PublishToShmem_history:
  "PublishToShmem junk t m = fold (\<lambda>(i, b). write_args i b)
     (map (\<lambda>i. (of_nat i, route_row junk t i)) [0..<kMaxRoutes]) m"
  by (simp add: PublishToShmem_def fold_map comp_def)

lemma unat_of_nat_route: "z < kMaxRoutes \<Longrightarrow> unat (of_nat z :: u32) = z"
  by (rule unat_of_nat_u32) (simp add: kMaxRoutes_def OSC_ROUTER_ROUTE_SLOTS_def)

lemma inj_of_nat_u32: "inj_on (of_nat :: nat \<Rightarrow> u32) {0..<kMaxRoutes}"
proof (rule inj_onI)
  fix x y assume xy: "x \<in> {0..<kMaxRoutes}" "y \<in> {0..<kMaxRoutes}" "(of_nat x :: u32) = of_nat y"
  have u: "unat (of_nat z :: u32) = z" if "z < kMaxRoutes" for z
    using that by (rule unat_of_nat_route)
  show "x = y" using u [of x] u [of y] xy by (metis atLeastLessThan_iff)
qed

lemma published_row:
  assumes "osc_wf m" "i < kMaxRoutes"
  shows "TryReadRoute (Suc n) (of_nat i) (PublishToShmem junk t m) = Some (route_seen (route_row junk t i))"
proof -
  let ?ws = "map (\<lambda>i. (of_nat i :: u32, route_row junk t i)) [0..<kMaxRoutes]"
  have d: "distinct (map fst (rev ?ws))"
    using inj_of_nat_u32 by (simp add: rev_map [symmetric] comp_def distinct_map)
  have "(of_nat i, route_row junk t i) \<in> set (rev ?ws)" using assms(2) by auto
  then have "map_of (rev ?ws) (of_nat i) = Some (route_row junk t i)" using d by (rule map_of_is_SomeI [rotated])
  moreover have "osc_inside (of_nat i)"
    using assms(2) unat_of_nat_route by (simp add: osc_inside_def kMaxRoutes_def)
  ultimately show ?thesis
    unfolding PublishToShmem_history using osc_routes.read_history [OF assms(1), of "of_nat i" n ?ws] by simp
qed

section \<open>Properties\<close>

text \<open>C7. Route table refinement. Any sequence of subscriptions and removals leaves the table with
  32 entries, at most one active entry per subscriber and fields within their size, and answers
  exactly like a map from subscribers to (truncated) patterns that holds at most 32 keys: a
  known subscriber is updated, a new one is added while there is room and refused otherwise.\<close>

theorem route_table_refines_map:
  assumes "rt_inv t"
  shows "rt_inv (fst (run_cmds (impl_cmd subscribe_pl Unsubscribe) cs t)) \<and>
    run_cmds (spec_cmd kMaxRoutes (\<lambda>pl. take 63 (fst pl))) cs (rt_lookup t) =
      (rt_lookup (fst (run_cmds (impl_cmd subscribe_pl Unsubscribe) cs t)),
       snd (run_cmds (impl_cmd subscribe_pl Unsubscribe) cs t))"
  using routes.run_simulation [OF assms, of cs] by (simp add: strncpy_field_def OSC_ROUTE_ADDR_LEN_def)

theorem route_table_refines_map_witness:
  "rt_lookup (fst (run_cmds (impl_cmd subscribe_pl Unsubscribe)
     [SubCmd 7 (''/a/*'', ''sub-7''), SubCmd 8 (''/b'', ''sub-8''), UnsubCmd 8, SubCmd 7 (''/c'', ''sub-7'')] RouteTable_new)) 7
   = Some ''/c''"
proof -
  let ?cs = "[SubCmd 7 (''/a/*'', ''sub-7''), SubCmd 8 (''/b'', ''sub-8''), UnsubCmd 8, SubCmd 7 (''/c'', ''sub-7'')]"
  have eq: "rt_lookup (fst (run_cmds (impl_cmd subscribe_pl Unsubscribe) ?cs RouteTable_new)) =
      fst (run_cmds (spec_cmd kMaxRoutes (\<lambda>pl. take 63 (fst pl))) ?cs (rt_lookup RouteTable_new))"
    using route_table_refines_map [OF rt_inv_new, of ?cs] by simp
  show ?thesis unfolding eq rt_lookup_new
    by (simp add: kMaxRoutes_def OSC_ROUTER_ROUTE_SLOTS_def)
qed

text \<open>Match counting. Dispatching an address adds one to the match count of exactly the active
  entries whose pattern matches it and stamps them with the tick, reports whether there was one,
  and changes no subscription.\<close>

theorem route_dispatch_counts:
  assumes "rt_inv t"
  shows "rt_inv (fst (Dispatch a tick t)) \<and> rt_lookup (fst (Dispatch a tick t)) = rt_lookup t \<and>
    (snd (Dispatch a tick t) \<longleftrightarrow> (\<exists>i < length t. entry_matches a (t ! i))) \<and>
    (\<forall>i < length t. fst (Dispatch a tick t) ! i = (if entry_matches a (t ! i)
       then (t ! i)\<lparr>re_match_count := re_match_count (t ! i) + 1, re_last_match_tick := tick\<rparr> else t ! i))"
proof (intro conjI)
  show inv: "rt_inv (fst (Dispatch a tick t))" using assms by (rule Dispatch_inv)
  show "rt_lookup (fst (Dispatch a tick t)) = rt_lookup t"
    by (rule ext, rule rt_lookup_eq [OF assms inv]) (auto simp: Dispatch_def split: if_splits)
qed (auto simp: Dispatch_def list_ex_length)

theorem route_dispatch_counts_witness:
  "re_match_count (fst (Dispatch ''/a/x'' 99 (fst (Subscribe 7 ''/a/*'' ''sub-7'' RouteTable_new))) ! 0) = 1"
proof -
  let ?t = "fst (Subscribe 7 ''/a/*'' ''sub-7'' RouteTable_new)"
  have t: "?t = RouteTable_new[0 := new_entry 7 ''/a/*'' ''sub-7'']"
    by (simp add: Subscribe_def FindSlot_def FindFreeSlot_def RouteTable_new_def kMaxRoutes_def
        OSC_ROUTER_ROUTE_SLOTS_def numeral_eq_Suc)
  have len: "length RouteTable_new = 32" by (simp add: RouteTable_new_def kMaxRoutes_def OSC_ROUTER_ROUTE_SLOTS_def)
  have m: "entry_matches ''/a/x'' (?t ! 0)"
    by (simp add: t len entry_matches_def new_entry_def strncpy_field_def OSC_ROUTE_ADDR_LEN_def
        OscPatternMatch_def PatternMatchImpl.simps(2))
  have "rt_inv ?t" by (intro Subscribe_inv rt_inv_new)
  from route_dispatch_counts [OF this, of "''/a/x''" 99] m len show ?thesis
    by (auto simp: t new_entry_def)
qed

text \<open>Published routes. After the send worker has published the table, a reader of the
  statistics segment finds for every active entry exactly its pattern, label and counters, and
  for every other entry a row marked inactive with empty strings.\<close>

theorem route_publish_exact:
  assumes "rt_inv t" "osc_wf m" "i < kMaxRoutes"
  shows "\<exists>row. TryReadRoute (Suc n) (of_nat i) (PublishToShmem junk t m) = Some row \<and>
    (if re_active (t ! i)
     then row = \<lparr>address_pattern = re_pattern (t ! i), subscriber_label = re_label (t ! i),
        rt_match_count = re_match_count (t ! i), rt_drop_count = re_drop_count (t ! i),
        rt_last_match_tick = re_last_match_tick (t ! i), rt_active = 1\<rparr>
     else rt_active row = 0 \<and> address_pattern row = [] \<and> subscriber_label row = [])"
proof -
  have "entry_ok (t ! i)" using assms(1,3) by (simp add: rt_inv_def list_all_length)
  then show ?thesis
    using published_row [OF assms(2,3), of n junk t] row_seen_active [of t i junk]
    by (simp add: route_row_def CopyStrField_def strncpy_field_def Let_def)
qed


theorem route_publish_exact_witness:
  "map_option address_pattern (TryReadRoute 8 (of_nat 0) (PublishToShmem (\<lambda>_. (0, 0, 0))
     (fst (Subscribe 7 ''/a/*'' ''sub-7'' RouteTable_new)) (Some
       \<lparr>osc_magic = OSC_SHMEM_MAGIC, osc_version = OSC_SHMEM_VERSION, shm_packets_sent = 0, shm_bytes_sent = 0,
        shm_packets_dropped = 0, routes = replicate OSC_ROUTER_ROUTE_SLOTS \<lparr>generation = 0, slot_body =
          \<lparr>address_pattern = [], subscriber_label = [], rt_match_count = 0, rt_drop_count = 0,
           rt_last_match_tick = 0, rt_active = 0\<rparr>\<rparr>\<rparr>))) = Some ''/a/*''"
  (is "map_option _ (TryReadRoute 8 _ (PublishToShmem ?j ?t (Some ?d))) = _")
proof -
  have t: "?t = RouteTable_new[0 := new_entry 7 ''/a/*'' ''sub-7'']"
    by (simp add: Subscribe_def FindSlot_def FindFreeSlot_def RouteTable_new_def kMaxRoutes_def
        OSC_ROUTER_ROUTE_SLOTS_def numeral_eq_Suc)
  have len: "0 < length RouteTable_new" by (simp add: RouteTable_new_def kMaxRoutes_def OSC_ROUTER_ROUTE_SLOTS_def)
  have "rt_inv ?t" "osc_wf (Some ?d)" "0 < kMaxRoutes"
    by (simp_all add: Subscribe_inv rt_inv_new osc_wf_def kMaxRoutes_def OSC_ROUTER_ROUTE_SLOTS_def)
  from route_publish_exact [OF this, of 7 ?j] len show ?thesis
    by (auto simp: t new_entry_def strncpy_field_def OSC_ROUTE_ADDR_LEN_def)
qed

end
