(* ===== verification/OscRouter.thy ===== *)
theory OscRouter
  imports RouteTable
begin

text \<open>
  \<open>oscrouter::OscRouter\<close> (\<open>modules/oscrouter/src/driver/OscRouter.h\<close>, \<open>.cpp\<close>), with
  \<open>UdpSender\<close> and the in-process entry point \<open>RouterPublishApi\<close>: the bounded send queue and
  its producers and consumer, the IPC handlers, the publish pipe and the module's life cycle. The
  queue mutex makes each producer's and the consumer's access to the queue one step. Results of
  the socket and pipe calls, clock readings and the number of an unspecified stack value are
  inputs. A queue entry is the used part of its 512-byte buffer.
\<close>

section \<open>UDP sender\<close>

record UdpSender =
  sock_open :: bool
  wsaInit :: bool
  us_target :: "string \<times> u16"

text \<open>Whether \<open>WSAStartup\<close>, \<open>socket\<close> and \<open>inet_pton\<close> succeed.\<close>

record udp_env =
  wsa_ok :: bool
  socket_ok :: bool
  pton_ok :: bool

definition UdpSender_Close :: "UdpSender \<Rightarrow> UdpSender" where
  "UdpSender_Close u = u\<lparr>sock_open := False\<rparr>"

definition UdpSender_Open :: "udp_env \<Rightarrow> string \<Rightarrow> u16 \<Rightarrow> UdpSender \<Rightarrow> UdpSender \<times> bool" where
  "UdpSender_Open env host port u =
     (let u1 = UdpSender_Close u in
      if \<not> wsaInit u1 \<and> \<not> wsa_ok env then (u1, False) else
      let u2 = u1\<lparr>wsaInit := True\<rparr> in
      if \<not> socket_ok env then (u2, False) else
      let u3 = u2\<lparr>sock_open := True\<rparr> in
      if \<not> pton_ok env then (UdpSender_Close u3, False)
      else (u3\<lparr>us_target := (host, port)\<rparr>, True))"

text \<open>The argument \<open>res\<close> is the result of \<open>sendto\<close>; \<open>SOCKET_ERROR\<close> is \<open>-1\<close>.\<close>

definition UdpSender_Send :: "int \<Rightarrow> UdpSender \<Rightarrow> int" where
  "UdpSender_Send res u = (if \<not> sock_open u then - 1 else if res = - 1 then - 1 else res)"

section \<open>Router state\<close>

definition kSendQueueEntryMaxSize :: nat where
  "kSendQueueEntryMaxSize = 512"

definition kSendQueueCapacity :: nat where
  "kSendQueueCapacity = 1024"

record OscRouter =
  sendHost :: string
  sendPort :: u16
  routeTable :: RouteTable
  sender :: UdpSender
  send_queue :: "nat \<Rightarrow> byte list"
  qHead :: nat
  qTail :: nat
  qCount :: nat
  droppedCount :: u64
  packetsSent :: u64
  bytesSent :: u64
  stop_flag :: bool
  statsClient :: shm_client
  statsData :: OscShmemData
  shmemReady :: bool

definition OscRouter_new :: "OscShmemData \<Rightarrow> OscRouter" where
  "OscRouter_new seg = \<lparr>sendHost = ''127.0.0.1'', sendPort = 9000, routeTable = RouteTable_new,
     sender = \<lparr>sock_open = False, wsaInit = False, us_target = ([], 0)\<rparr>,
     send_queue = (\<lambda>_. []), qHead = 0, qTail = 0, qCount = 0, droppedCount = 0, packetsSent = 0, bytesSent = 0,
     stop_flag = False, statsClient = shm_new, statsData = seg, shmemReady = False\<rparr>"

text \<open>\<open>statsShmem_\<close> as the operations see it: absent when the segment is not mapped.\<close>

definition statsShmem :: "OscRouter \<Rightarrow> OscShmemData option" where
  "statsShmem r = (if view (statsClient r) then Some (statsData r) else None)"

definition upd_stats :: "(OscShmemData option \<Rightarrow> OscShmemData option) \<Rightarrow> OscRouter \<Rightarrow> OscRouter" where
  "upd_stats f r = (case f (statsShmem r) of None \<Rightarrow> r | Some d \<Rightarrow> r\<lparr>statsData := d\<rparr>)"

section \<open>Queue and publishing\<close>

definition EnqueueLocked :: "byte list \<Rightarrow> OscRouter \<Rightarrow> OscRouter \<times> bool" where
  "EnqueueLocked data r =
     (if qCount r \<ge> kSendQueueCapacity then (r, False)
      else if length data > kSendQueueEntryMaxSize then (r, False)
      else (r\<lparr>send_queue := (send_queue r)(qTail r := data),
              qTail := (qTail r + 1) mod kSendQueueCapacity, qCount := qCount r + 1\<rparr>, True))"

text \<open>The head entry leaves the queue (inside the worker's critical section).\<close>

definition DequeueLocked :: "OscRouter \<Rightarrow> OscRouter \<times> byte list option" where
  "DequeueLocked r =
     (if qCount r = 0 then (r, None)
      else (r\<lparr>qHead := (qHead r + 1) mod kSendQueueCapacity, qCount := qCount r - 1\<rparr>,
            Some (send_queue r (qHead r))))"

definition count_drop :: "OscRouter \<Rightarrow> OscRouter" where
  "count_drop r = (let r1 = r\<lparr>droppedCount := droppedCount r + 1\<rparr>
     in if shmemReady r1 then upd_stats AddDropped r1 else r1)"

definition BuildAndEnqueue :: "string \<Rightarrow> string \<Rightarrow> byte list option \<Rightarrow> OscRouter \<Rightarrow> OscRouter \<times> bool" where
  "BuildAndEnqueue address typetag args r =
     (let p = Begin kSendQueueEntryMaxSize address typetag OscPacket_new;
          pkt = (case args of Some a \<Rightarrow> if length a > 0 then WriteRawArgs kSendQueueEntryMaxSize a p else p | None \<Rightarrow> p)
      in if \<not> pk_ok pkt then (r, False)
         else let (r1, queued) = EnqueueLocked (pk_buf pkt) r in
           if queued then (r1, True)
           else (count_drop (r1\<lparr>routeTable := BumpDropCount address (routeTable r1)\<rparr>), False))"

definition PublishOsc :: "string \<Rightarrow> string \<Rightarrow> byte list option \<Rightarrow> OscRouter \<Rightarrow> OscRouter \<times> bool" where
  "PublishOsc address typetag args r =
     (if stop_flag r then (r, False) else BuildAndEnqueue address typetag args r)"

section \<open>IPC handlers\<close>

text \<open>\<open>"%u"\<close> of a 32-bit value.\<close>

fun dec_digits :: "nat \<Rightarrow> string" where
  "dec_digits n = (if n < 10 then [char_of (48 + n)] else dec_digits (n div 10) @ [char_of (48 + n mod 10)])"

declare dec_digits.simps [simp del]

definition subscriber_label_of :: "OscSubscriberId \<Rightarrow> string" where
  "subscriber_label_of sid = take 31 (''sub-'' @ dec_digits (unat sid))"

text \<open>What a handler does: refuse the request, answer it, or read outside the request.\<close>

datatype handled = NotHandled | Answer Response | OutOfBoundsRead

definition HandleSubscribe :: "OscRouteSubscribe \<Rightarrow> OscRouter \<Rightarrow> OscRouter \<times> handled" where
  "HandleSubscribe req r =
     (let (t, ok) = Subscribe (ors_subscriber_id req) (ors_pattern req)
            (subscriber_label_of (ors_subscriber_id req)) (routeTable r)
      in (r\<lparr>routeTable := t\<rparr>, Answer (if ok then ResponseSuccess else ResponseInvalid)))"

definition HandleUnsubscribe :: "OscRouteUnsubscribe \<Rightarrow> OscRouter \<Rightarrow> OscRouter \<times> handled" where
  "HandleUnsubscribe req r =
     (r\<lparr>routeTable := Unsubscribe (oru_subscriber_id req) (routeTable r)\<rparr>, Answer ResponseSuccess)"

text \<open>\<open>arg_bytes\<close> has 32 elements and \<open>arg_len\<close> is any byte: a larger length makes
  \<open>WriteRawArgs\<close> read past the end of the request.\<close>

definition HandlePublish :: "OscPublish \<Rightarrow> OscRouter \<Rightarrow> OscRouter \<times> handled" where
  "HandlePublish req r =
     (if unat (op_arg_len req) > OSC_PUBLISH_ARG_LEN then (r, OutOfBoundsRead)
      else let (r1, ok) = BuildAndEnqueue (op_address req) (op_typetag req)
             (Some (take (unat (op_arg_len req)) (op_arg_bytes req))) r
        in (r1, Answer (if ok then ResponseSuccess else ResponseInvalid)))"

definition HandleGetStats :: "OscRouter \<Rightarrow> OscRouter \<times> handled" where
  "HandleGetStats r = (r, Answer (ResponseOscRouterStats (case ReadGlobalStats (statsShmem r) of
       Some s \<Rightarrow> s
     | None \<Rightarrow> \<lparr>packets_sent = 0, bytes_sent = 0, packets_dropped = 0,
               active_routes = ActiveCount (routeTable r)\<rparr>)))"

definition OscRouter_HandleRequest :: "Request \<Rightarrow> OscRouter \<Rightarrow> OscRouter \<times> handled" where
  "OscRouter_HandleRequest req r = (case req of
       RequestOscRouteSubscribe q \<Rightarrow> HandleSubscribe q r
     | RequestOscRouteUnsubscribe q \<Rightarrow> HandleUnsubscribe q r
     | RequestOscPublish q \<Rightarrow> HandlePublish q r
     | RequestOscGetStats \<Rightarrow> HandleGetStats r
     | _ \<Rightarrow> (r, NotHandled))"

section \<open>Send worker\<close>

text \<open>One pass of the loop of \<open>SendWorkerMain\<close>: the \<open>sendto\<close> result, the performance
  counter, whether the 100 ms statistics period has elapsed, and the unspecified counters.\<close>

record worker_env =
  we_sendto :: int
  we_qpc :: u64
  we_stats_due :: bool
  we_junk :: "nat \<Rightarrow> u64 \<times> u64 \<times> u64"

definition count_sent :: "worker_env \<Rightarrow> int \<Rightarrow> byte list \<Rightarrow> OscRouter \<Rightarrow> OscRouter" where
  "count_sent env sent data r =
     (let r1 = r\<lparr>packetsSent := packetsSent r + 1, bytesSent := bytesSent r + of_int sent\<rparr>;
          r2 = if shmemReady r1 then upd_stats (AddSent (of_int sent)) r1 else r1;
          msg = OscParseMessage data
      in if om_valid msg
         then r2\<lparr>routeTable := fst (Dispatch (the (om_address msg)) (we_qpc env) (routeTable r2))\<rparr> else r2)"

definition maybe_stats :: "worker_env \<Rightarrow> OscRouter \<Rightarrow> OscRouter" where
  "maybe_stats env r =
     (if we_stats_due env \<and> shmemReady r then upd_stats (PublishToShmem (we_junk env) (routeTable r)) r else r)"

definition SendWorkerPass :: "worker_env \<Rightarrow> OscRouter \<Rightarrow> OscRouter" where
  "SendWorkerPass env r =
     (case DequeueLocked r of
        (r1, None) \<Rightarrow> maybe_stats env r1
      | (r1, Some data) \<Rightarrow>
          let sent = UdpSender_Send (we_sendto env) (sender r1) in
          maybe_stats env
            (if sock_open (sender r1) \<and> length data > 0 \<and> sent > 0 then count_sent env sent data r1 else r1))"

section \<open>Publish pipe\<close>

text \<open>The results of successive \<open>ReadFile\<close> calls of one client connection: \<open>None\<close> is a
  failure, and the end of the list the end of the connection.\<close>

type_synonym pipe_reads = "byte list option list"

definition le32 :: "byte list \<Rightarrow> nat" where
  "le32 b = unat (b ! 0) + unat (b ! 1) * 2 ^ 8 + unat (b ! 2) * 2 ^ 16 + unat (b ! 3) * 2 ^ 24"

fun read_payload :: "nat \<Rightarrow> byte list \<Rightarrow> pipe_reads \<Rightarrow> (byte list \<times> pipe_reads) option" where
  "read_payload frameLen got reads =
     (if length got \<ge> frameLen then (if length got = frameLen then Some (got, reads) else None)
      else case reads of
          [] \<Rightarrow> None
        | None # rest \<Rightarrow> None
        | Some chunk # rest \<Rightarrow> read_payload frameLen (got @ chunk) rest)"

declare read_payload.simps [simp del]

definition read_frame :: "pipe_reads \<Rightarrow> (byte list \<times> pipe_reads) option" where
  "read_frame reads = (case reads of
       Some src # Some lenBuf # rest \<Rightarrow>
         if length src \<noteq> 32 \<or> length lenBuf \<noteq> 4 then None
         else if le32 lenBuf = 0 \<or> le32 lenBuf > kSendQueueEntryMaxSize then None
         else read_payload (le32 lenBuf) [] rest
     | _ \<Rightarrow> None)"

definition enqueue_frame :: "byte list \<Rightarrow> OscRouter \<Rightarrow> OscRouter" where
  "enqueue_frame data r = (case EnqueueLocked data r of (r1, ok) \<Rightarrow> if ok then r1 else count_drop r1)"

lemma read_payload_len:
  "read_payload n got reads = Some (d, rest) \<Longrightarrow> length rest \<le> length reads"
proof (induction reads arbitrary: got)
  case Nil
  then show ?case by (subst (asm) read_payload.simps) (auto split: if_splits)
next
  case (Cons x reads)
  from Cons.prems show ?case
    by (subst (asm) read_payload.simps) (auto split: if_splits option.splits dest!: Cons.IH)
qed

lemma read_frame_len: "read_frame reads = Some (d, rest) \<Longrightarrow> length rest < length reads"
  by (auto simp: read_frame_def dest!: read_payload_len split: list.splits option.splits if_splits)

text \<open>Frames of one client until the connection ends, a read fails or a frame is malformed.\<close>

function pub_client :: "pipe_reads \<Rightarrow> OscRouter \<Rightarrow> OscRouter" where
  "pub_client reads r =
     (if stop_flag r then r
      else case read_frame reads of
          None \<Rightarrow> r
        | Some (data, rest) \<Rightarrow> pub_client rest (enqueue_frame data r))"
  by pat_completeness auto
termination
  by (relation "measure (\<lambda>(reads, r). length reads)") (auto dest: read_frame_len)

declare pub_client.simps [simp del]

section \<open>Life cycle\<close>

definition OscRouter_Init :: "bool \<Rightarrow> bool \<Rightarrow> udp_env \<Rightarrow> OscRouter \<Rightarrow> OscRouter" where
  "OscRouter_Init file_ok map_ok env r =
     (let ((c, d), ok) = OscRouterStatsShmem_Create file_ok map_ok (statsData r) (statsClient r);
          u = fst (UdpSender_Open env (sendHost r) (sendPort r) (sender r))
      in r\<lparr>statsClient := c, statsData := d, shmemReady := ok \<or> shmemReady r, sender := u, stop_flag := False\<rparr>)"

definition OscRouter_Shutdown :: "OscRouter \<Rightarrow> OscRouter" where
  "OscRouter_Shutdown r = r\<lparr>stop_flag := True, sender := UdpSender_Close (sender r),
     statsClient := shm_Close (statsClient r)\<rparr>"

definition SetSendEndpointForTesting :: "udp_env \<Rightarrow> string option \<Rightarrow> u16 \<Rightarrow> OscRouter \<Rightarrow> OscRouter" where
  "SetSendEndpointForTesting env host port r =
     (let h = (case host of Some s \<Rightarrow> if s \<noteq> [] then s else sendHost r | None \<Rightarrow> sendHost r);
          p = (if port \<noteq> 0 then port else sendPort r);
          r1 = r\<lparr>sendHost := h, sendPort := p\<rparr>
      in if sock_open (sender r1) then r1\<lparr>sender := fst (UdpSender_Open env h p (sender r1))\<rparr> else r1)"

text \<open>The process-wide pointer \<open>g_activeRouter\<close> and the entry point other modules use.\<close>

record osc_process =
  the_router :: OscRouter
  activeRouter :: bool

definition api_PublishOsc :: "string \<Rightarrow> string \<Rightarrow> byte list option \<Rightarrow> osc_process \<Rightarrow> osc_process \<times> bool" where
  "api_PublishOsc address typetag args p =
     (if \<not> activeRouter p then (p, False)
      else let (r, ok) = PublishOsc address typetag args (the_router p) in (p\<lparr>the_router := r\<rparr>, ok))"

definition process_Init :: "bool \<Rightarrow> bool \<Rightarrow> udp_env \<Rightarrow> osc_process \<Rightarrow> osc_process" where
  "process_Init f m env p = p\<lparr>the_router := OscRouter_Init f m env (the_router p), activeRouter := True\<rparr>"

definition process_Shutdown :: "osc_process \<Rightarrow> osc_process" where
  "process_Shutdown p = p\<lparr>the_router := OscRouter_Shutdown (the_router p), activeRouter := False\<rparr>"

section \<open>The queue as a bounded FIFO\<close>

text \<open>The contract of a bounded FIFO queue with a size limit on its elements.\<close>

locale bounded_fifo =
  fixes inv :: "'s \<Rightarrow> bool" and contents :: "'s \<Rightarrow> 'a list"
    and enq :: "'a \<Rightarrow> 's \<Rightarrow> 's \<times> bool" and deq :: "'s \<Rightarrow> 's \<times> 'a option"
    and capacity :: nat and fits :: "'a \<Rightarrow> bool"
  assumes inv_enq: "inv s \<Longrightarrow> inv (fst (enq x s))"
    and inv_deq: "inv s \<Longrightarrow> inv (fst (deq s))"
    and enq_iff: "inv s \<Longrightarrow> snd (enq x s) \<longleftrightarrow> length (contents s) < capacity \<and> fits x"
    and contents_enq: "inv s \<Longrightarrow> contents (fst (enq x s)) = contents s @ (if snd (enq x s) then [x] else [])"
    and contents_deq: "inv s \<Longrightarrow> contents s = (case snd (deq s) of None \<Rightarrow> [] | Some x \<Rightarrow> x # contents (fst (deq s)))"
    and deq_none: "inv s \<Longrightarrow> snd (deq s) = None \<Longrightarrow> fst (deq s) = s"
begin

lemma bounded: "inv s \<Longrightarrow> length (contents s) \<le> capacity \<Longrightarrow> length (contents (fst (enq x s))) \<le> capacity"
  using enq_iff [of s x] contents_enq [of s x] by auto

lemma deq_empty_iff: "inv s \<Longrightarrow> snd (deq s) = None \<longleftrightarrow> contents s = []"
  using contents_deq [of s] contents_deq [of "fst (deq s)"] deq_none [of s] by (auto split: option.splits)

end

definition q_contents :: "OscRouter \<Rightarrow> byte list list" where
  "q_contents r = map (\<lambda>i. send_queue r ((qHead r + i) mod kSendQueueCapacity)) [0..<qCount r]"

definition q_inv :: "OscRouter \<Rightarrow> bool" where
  "q_inv r \<longleftrightarrow> qHead r < kSendQueueCapacity \<and> qCount r \<le> kSendQueueCapacity \<and>
     qTail r = (qHead r + qCount r) mod kSendQueueCapacity \<and>
     (\<forall>d \<in> set (q_contents r). length d \<le> kSendQueueEntryMaxSize)"

lemma kSendQueueCapacity_pos [simp]: "0 < kSendQueueCapacity"
  by (simp add: kSendQueueCapacity_def)

lemma q_contents_enqueue:
  assumes "q_inv r" "qCount r < kSendQueueCapacity"
  shows "q_contents (r\<lparr>send_queue := (send_queue r)(qTail r := d), qTail := t, qCount := qCount r + 1\<rparr>) =
    q_contents r @ [d]"
proof -
  have "(qHead r + i) mod kSendQueueCapacity \<noteq> (qHead r + qCount r) mod kSendQueueCapacity" if "i < qCount r" for i
    using assms that mod_neq_window [of "qHead r + i" "qHead r + qCount r" kSendQueueCapacity]
    by (auto simp: q_inv_def)
  then show ?thesis using assms(1) by (auto simp: q_contents_def q_inv_def)
qed

lemma q_contents_dequeue:
  assumes "q_inv r" "0 < qCount r"
  shows "q_contents r = send_queue r (qHead r) #
    q_contents (r\<lparr>qHead := (qHead r + 1) mod kSendQueueCapacity, qCount := qCount r - 1\<rparr>)"
proof -
  obtain n where n: "qCount r = Suc n" using assms(2) by (cases "qCount r") auto
  have "(qHead r + Suc i) mod kSendQueueCapacity = ((qHead r + 1) mod kSendQueueCapacity + i) mod kSendQueueCapacity" for i
    by (simp add: mod_add_left_eq)
  then show ?thesis using assms(1) by (simp add: q_contents_def n upt_conv_Cons q_inv_def comp_def flip: map_Suc_upt del: upt_Suc)
qed

interpretation sendq: bounded_fifo q_inv q_contents EnqueueLocked DequeueLocked kSendQueueCapacity
  "\<lambda>d. length d \<le> kSendQueueEntryMaxSize"
proof
  fix s :: OscRouter and x :: "byte list"
  assume inv: "q_inv s"
  have len: "length (q_contents s) = qCount s" by (simp add: q_contents_def)
  have acc: "snd (EnqueueLocked x s) \<longleftrightarrow> qCount s < kSendQueueCapacity \<and> length x \<le> kSendQueueEntryMaxSize"
    by (simp add: EnqueueLocked_def)
  show "snd (EnqueueLocked x s) \<longleftrightarrow> length (q_contents s) < kSendQueueCapacity \<and> length x \<le> kSendQueueEntryMaxSize"
    by (simp add: acc len)
  show c: "q_contents (fst (EnqueueLocked x s)) = q_contents s @ (if snd (EnqueueLocked x s) then [x] else [])"
    using q_contents_enqueue [OF inv] by (simp add: EnqueueLocked_def)
  show "q_inv (fst (EnqueueLocked x s))"
  proof (cases "snd (EnqueueLocked x s)")
    case True
    then have "\<forall>d \<in> set (q_contents (fst (EnqueueLocked x s))). length d \<le> kSendQueueEntryMaxSize"
      using c inv acc by (auto simp: q_inv_def)
    then show ?thesis using inv True acc by (auto simp: q_inv_def EnqueueLocked_def mod_Suc_eq)
  next
    case False
    then show ?thesis using inv acc by (auto simp: EnqueueLocked_def)
  qed
  show d: "q_contents s = (case snd (DequeueLocked s) of None \<Rightarrow> [] | Some x \<Rightarrow> x # q_contents (fst (DequeueLocked s)))"
    using q_contents_dequeue [OF inv] by (simp add: DequeueLocked_def q_contents_def)
  show "q_inv (fst (DequeueLocked s))"
  proof (cases "qCount s = 0")
    case False
    then have "\<forall>e \<in> set (q_contents (fst (DequeueLocked s))). length e \<le> kSendQueueEntryMaxSize"
      using d inv by (auto simp: q_inv_def DequeueLocked_def)
    moreover have "((qHead s + 1) mod kSendQueueCapacity + (qCount s - 1)) mod kSendQueueCapacity =
        (qHead s + qCount s) mod kSendQueueCapacity"
      using False by (metis Suc_diff_1 add.assoc mod_add_left_eq neq0_conv plus_1_eq_Suc)
    ultimately show ?thesis using inv False by (auto simp: q_inv_def DequeueLocked_def)
  qed (use inv in \<open>simp add: DequeueLocked_def\<close>)
  show "fst (DequeueLocked s) = s" if "snd (DequeueLocked s) = None"
    using that by (auto simp: DequeueLocked_def split: if_splits)
qed

section \<open>Router invariant\<close>

definition router_inv :: "OscRouter \<Rightarrow> bool" where
  "router_inv r \<longleftrightarrow> q_inv r \<and> rt_inv (routeTable r) \<and> osc_wf (Some (statsData r)) \<and> shm_inv (statsClient r)"

definition same_queue :: "OscRouter \<Rightarrow> OscRouter \<Rightarrow> bool" where
  "same_queue r r' \<longleftrightarrow> send_queue r' = send_queue r \<and> qHead r' = qHead r \<and> qTail r' = qTail r \<and> qCount r' = qCount r"

lemma same_queueD: "same_queue r r' \<Longrightarrow> q_contents r' = q_contents r \<and> q_inv r' = q_inv r"
  by (simp add: same_queue_def q_inv_def q_contents_def)

lemma same_queue_trans: "same_queue a b \<Longrightarrow> same_queue b c \<Longrightarrow> same_queue a c"
  by (simp add: same_queue_def)

lemma same_queue_refl [simp]: "same_queue r r"
  by (simp add: same_queue_def)

definition keeps_stats :: "(OscShmemData option \<Rightarrow> OscShmemData option) \<Rightarrow> bool" where
  "keeps_stats f \<longleftrightarrow> (\<forall>d. osc_wf (Some d) \<longrightarrow> osc_wf (f (Some d))) \<and> f None = None"

lemma upd_stats_inv:
  assumes "keeps_stats f" "router_inv r"
  shows "router_inv (upd_stats f r) \<and> same_queue r (upd_stats f r)"
proof (cases "f (statsShmem r)")
  case (Some d)
  with assms have "osc_wf (Some d)" by (auto simp: keeps_stats_def statsShmem_def router_inv_def split: if_splits)
  then show ?thesis using assms(2) same_queueD [of r "r\<lparr>statsData := d\<rparr>"]
    by (simp add: upd_stats_def Some router_inv_def same_queue_def)
qed (use assms in \<open>simp add: upd_stats_def\<close>)

lemma keeps_stats_ops:
  "keeps_stats AddDropped" "keeps_stats (AddSent n)" "keeps_stats (PublishToShmem junk t)"
proof -
  show "keeps_stats AddDropped" "keeps_stats (AddSent n)"
    by (simp_all add: keeps_stats_def AddDropped_def AddSent_def osc_wf_def)
  have "PublishToShmem junk t None = None"
  proof -
    have "fold (\<lambda>i. write_args (of_nat i) (route_row junk t i)) xs None = None" for xs
    proof (induction xs)
      case (Cons x xs)
      then show ?case by (cases "route_row junk t x") (simp add: WriteRoute_def)
    qed simp
    then show ?thesis by (simp add: PublishToShmem_def)
  qed
  then show "keeps_stats (PublishToShmem junk t)"
    by (simp add: keeps_stats_def PublishToShmem_history osc_routes.ok_history)
qed

lemma routeTable_inv:
  assumes "router_inv r" "rt_inv t"
  shows "router_inv (r\<lparr>routeTable := t\<rparr>) \<and> same_queue r (r\<lparr>routeTable := t\<rparr>)"
  using assms same_queueD [of r "r\<lparr>routeTable := t\<rparr>"] by (simp add: router_inv_def same_queue_def)

lemma count_drop_inv:
  assumes "router_inv r"
  shows "router_inv (count_drop r) \<and> same_queue r (count_drop r)"
proof -
  let ?r = "r\<lparr>droppedCount := droppedCount r + 1\<rparr>"
  have sq: "same_queue r ?r" by (simp add: same_queue_def)
  have "router_inv ?r" using assms same_queueD [OF sq] by (simp add: router_inv_def)
  then show ?thesis
    using upd_stats_inv [OF keeps_stats_ops(1)] sq same_queue_trans by (auto simp: count_drop_def Let_def)
qed

lemma EnqueueLocked_inv: "router_inv r \<Longrightarrow> router_inv (fst (EnqueueLocked d r))"
  using sendq.inv_enq [of r d] by (auto simp: router_inv_def EnqueueLocked_def)

lemma DequeueLocked_inv: "router_inv r \<Longrightarrow> router_inv (fst (DequeueLocked r))"
  using sendq.inv_deq [of r] by (auto simp: router_inv_def DequeueLocked_def)

text \<open>The packet \<open>BuildAndEnqueue\<close> builds, and what a producer adds to the queue.\<close>

definition built_packet :: "string \<Rightarrow> string \<Rightarrow> byte list option \<Rightarrow> OscPacket" where
  "built_packet address typetag args = (let p = Begin kSendQueueEntryMaxSize address typetag OscPacket_new
     in case args of Some a \<Rightarrow> if length a > 0 then WriteRawArgs kSendQueueEntryMaxSize a p else p | None \<Rightarrow> p)"

lemma EnqueueLocked_refused: "EnqueueLocked d r = (r', False) \<Longrightarrow> r' = r"
  by (auto simp: EnqueueLocked_def split: if_splits)

lemma BuildAndEnqueue_eq:
  "BuildAndEnqueue address typetag args r = (let pkt = built_packet address typetag args in
     if \<not> pk_ok pkt then (r, False) else if snd (EnqueueLocked (pk_buf pkt) r) then EnqueueLocked (pk_buf pkt) r
     else (count_drop (r\<lparr>routeTable := BumpDropCount address (routeTable r)\<rparr>), False))"
  unfolding BuildAndEnqueue_def built_packet_def Let_def
  by (auto split: prod.splits dest: EnqueueLocked_refused)

lemma built_packet_eq: "built_packet a t args = build_message kSendQueueEntryMaxSize a t (case args of None \<Rightarrow> [] | Some b \<Rightarrow> b) OscPacket_new"
proof -
  have "WriteRawArgs N [] p = p" if "length (pk_buf p) \<le> N" for N p
    using that by (simp add: WriteRawArgs_def Append_def)
  moreover have "length (pk_buf (Begin N a t OscPacket_new)) \<le> N" for N
    unfolding Begin_def by (rule wmsg_head.pair.w_bound) simp
  ultimately show ?thesis by (auto simp: built_packet_def build_message_def Let_def split: option.splits)
qed

lemma BuildAndEnqueue_step:
  assumes "router_inv r"
  shows "router_inv (fst (BuildAndEnqueue a t args r)) \<and>
    q_contents (fst (BuildAndEnqueue a t args r)) =
      q_contents r @ (if snd (BuildAndEnqueue a t args r) then [pk_buf (built_packet a t args)] else [])"
proof (cases "pk_ok (built_packet a t args)")
  case ok: True
  let ?d = "pk_buf (built_packet a t args)"
  show ?thesis
  proof (cases "snd (EnqueueLocked ?d r)")
    case True
    then show ?thesis using ok EnqueueLocked_inv [OF assms] sendq.contents_enq [of r ?d] assms
      by (simp add: BuildAndEnqueue_eq router_inv_def)
  next
    case False
    have "rt_inv (BumpDropCount a (routeTable r))" using assms by (simp add: router_inv_def BumpDropCount_inv)
    note 1 = routeTable_inv [OF assms this]
    note 2 = count_drop_inv [OF conjunct1 [OF 1]]
    from same_queueD [OF same_queue_trans [OF conjunct2 [OF 1] conjunct2 [OF 2]]] 2
    show ?thesis using ok False by (simp add: BuildAndEnqueue_eq Let_def)
  qed
qed (use assms in \<open>simp add: BuildAndEnqueue_eq\<close>)

lemma enqueue_frame_step:
  assumes "router_inv r"
  shows "router_inv (enqueue_frame d r) \<and>
    q_contents (enqueue_frame d r) = q_contents r @ (if snd (EnqueueLocked d r) then [d] else [])"
proof -
  note inv = EnqueueLocked_inv [OF assms, of d]
  show ?thesis
    using inv count_drop_inv [OF inv] sendq.contents_enq [of r d] assms
    by (auto simp: enqueue_frame_def router_inv_def split: prod.splits dest!: same_queueD)
qed

lemma count_sent_inv:
  assumes "router_inv r"
  shows "router_inv (count_sent env sent d r) \<and> same_queue r (count_sent env sent d r)"
proof -
  let ?r = "r\<lparr>packetsSent := packetsSent r + 1, bytesSent := bytesSent r + of_int sent\<rparr>"
  have sq: "same_queue r ?r" by (simp add: same_queue_def)
  have r: "router_inv ?r" using assms same_queueD [OF sq] by (simp add: router_inv_def)
  obtain r2 where r2: "r2 = (if shmemReady ?r then upd_stats (AddSent (of_int sent)) ?r else ?r)" by simp
  have 2: "router_inv r2 \<and> same_queue r r2"
    using r sq upd_stats_inv [OF keeps_stats_ops(2) r] same_queue_trans unfolding r2 by auto
  have "rt_inv (fst (Dispatch a k (routeTable r2)))" for a k
    using 2 by (simp add: router_inv_def Dispatch_inv)
  note 3 = routeTable_inv [OF conjunct1 [OF 2] this]
  show ?thesis using 2 3 same_queue_trans [OF conjunct2 [OF 2]]
    unfolding count_sent_def Let_def r2 [symmetric] by auto
qed

lemma maybe_stats_inv:
  "router_inv r \<Longrightarrow> router_inv (maybe_stats env r) \<and> same_queue r (maybe_stats env r)"
  using upd_stats_inv [OF keeps_stats_ops(3)] by (simp add: maybe_stats_def)

lemma SendWorkerPass_step:
  assumes "router_inv r"
  shows "router_inv (SendWorkerPass env r) \<and>
    q_contents r = (case snd (DequeueLocked r) of None \<Rightarrow> [] | Some d \<Rightarrow> [d]) @ q_contents (SendWorkerPass env r)"
proof (cases "DequeueLocked r")
  case (Pair r1 o1)
  have r1: "router_inv r1" using DequeueLocked_inv [OF assms] Pair by simp
  have q: "q_contents r = (case o1 of None \<Rightarrow> [] | Some d \<Rightarrow> d # q_contents r1)" "o1 = None \<Longrightarrow> r1 = r"
    using sendq.contents_deq [of r] sendq.deq_none [of r] assms Pair by (auto simp: router_inv_def split: option.splits)
  show ?thesis
  proof (cases o1)
    case None
    then show ?thesis using Pair q maybe_stats_inv [OF r1, of env]
      by (auto simp: SendWorkerPass_def dest!: same_queueD)
  next
    case (Some d)
    let ?sent = "UdpSender_Send (we_sendto env) (sender r1)"
    obtain r2 where r2: "r2 = (if sock_open (sender r1) \<and> length d > 0 \<and> ?sent > 0 then count_sent env ?sent d r1 else r1)"
      by simp
    have 2: "router_inv r2 \<and> same_queue r1 r2" using r1 count_sent_inv [OF r1] unfolding r2 by auto
    have p: "SendWorkerPass env r = maybe_stats env r2"
      unfolding SendWorkerPass_def Pair Some r2 Let_def by simp
    show ?thesis using 2 maybe_stats_inv [of r2 env] q Some Pair
      by (auto simp: p dest!: same_queueD)
  qed
qed

lemma HandleRequest_inv:
  assumes "router_inv r"
  shows "router_inv (fst (OscRouter_HandleRequest req r))"
proof (cases req)
  case (RequestOscRouteSubscribe q)
  have "rt_inv (fst (Subscribe (ors_subscriber_id q) (ors_pattern q) (subscriber_label_of (ors_subscriber_id q)) (routeTable r)))"
    using assms by (simp add: router_inv_def Subscribe_inv)
  from routeTable_inv [OF assms this] show ?thesis
    by (auto simp: RequestOscRouteSubscribe OscRouter_HandleRequest_def HandleSubscribe_def split: prod.splits)
next
  case (RequestOscRouteUnsubscribe q)
  have "rt_inv (Unsubscribe (oru_subscriber_id q) (routeTable r))"
    using assms by (simp add: router_inv_def Unsubscribe_inv)
  from routeTable_inv [OF assms this] show ?thesis
    by (simp add: RequestOscRouteUnsubscribe OscRouter_HandleRequest_def HandleUnsubscribe_def)
next
  case (RequestOscPublish q)
  then show ?thesis using assms BuildAndEnqueue_step [OF assms]
    by (auto simp: OscRouter_HandleRequest_def HandlePublish_def split: prod.splits)
       (metis fst_conv)
qed (use assms in \<open>simp_all add: OscRouter_HandleRequest_def HandleGetStats_def\<close>)

section \<open>Runs\<close>

text \<open>The steps of the producers and of the send worker, with the packets each adds to the queue
  and takes from it.\<close>

datatype router_action =
    APublish string string "byte list option"
  | APubFrame "byte list"
  | ARequest Request
  | AWorker worker_env

fun router_step :: "router_action \<Rightarrow> OscRouter \<Rightarrow> OscRouter" where
  "router_step (APublish a t args) r = fst (PublishOsc a t args r)"
| "router_step (APubFrame d) r = enqueue_frame d r"
| "router_step (ARequest req) r = fst (OscRouter_HandleRequest req r)"
| "router_step (AWorker env) r = SendWorkerPass env r"

fun accepted :: "router_action \<Rightarrow> OscRouter \<Rightarrow> byte list list" where
  "accepted (APublish a t args) r = (if snd (PublishOsc a t args r) then [pk_buf (built_packet a t args)] else [])"
| "accepted (APubFrame d) r = (if snd (EnqueueLocked d r) then [d] else [])"
| "accepted (ARequest (RequestOscPublish q)) r =
     (if snd (OscRouter_HandleRequest (RequestOscPublish q) r) = Answer ResponseSuccess
      then [pk_buf (built_packet (op_address q) (op_typetag q) (Some (take (unat (op_arg_len q)) (op_arg_bytes q))))]
      else [])"
| "accepted (ARequest _) r = []"
| "accepted (AWorker env) r = []"

fun taken :: "router_action \<Rightarrow> OscRouter \<Rightarrow> byte list list" where
  "taken (AWorker env) r = (case snd (DequeueLocked r) of None \<Rightarrow> [] | Some d \<Rightarrow> [d])"
| "taken _ r = []"

fun router_run :: "router_action list \<Rightarrow> OscRouter \<Rightarrow> OscRouter \<times> byte list list \<times> byte list list" where
  "router_run [] r = (r, [], [])"
| "router_run (a # as) r = (let (r', acc, tak) = router_run as (router_step a r)
     in (r', accepted a r @ acc, taken a r @ tak))"

lemma HandlePublish_step:
  assumes "router_inv r"
  shows "q_contents r @ accepted (ARequest (RequestOscPublish q)) r =
    q_contents (fst (OscRouter_HandleRequest (RequestOscPublish q) r))"
proof (cases "unat (op_arg_len q) > OSC_PUBLISH_ARG_LEN")
  case False
  let ?b = "BuildAndEnqueue (op_address q) (op_typetag q) (Some (take (unat (op_arg_len q)) (op_arg_bytes q))) r"
  have "OscRouter_HandleRequest (RequestOscPublish q) r =
      (fst ?b, Answer (if snd ?b then ResponseSuccess else ResponseInvalid))"
    using False by (simp add: OscRouter_HandleRequest_def HandlePublish_def split: prod.splits)
  then show ?thesis using BuildAndEnqueue_step [OF assms] by simp
qed (simp add: OscRouter_HandleRequest_def HandlePublish_def)

lemma router_step_queue:
  assumes "router_inv r"
  shows "router_inv (router_step a r) \<and> q_contents r @ accepted a r = taken a r @ q_contents (router_step a r)"
proof (cases a)
  case (APublish ad t args)
  then show ?thesis using assms BuildAndEnqueue_step [OF assms] by (simp add: PublishOsc_def)
next
  case (APubFrame d)
  then show ?thesis using enqueue_frame_step [OF assms] by simp
next
  case (ARequest req)
  have "q_contents r @ accepted (ARequest req) r = q_contents (fst (OscRouter_HandleRequest req r))"
  proof (cases req)
    case (RequestOscPublish q)
    then show ?thesis using HandlePublish_step [OF assms] by simp
  qed (auto simp: OscRouter_HandleRequest_def HandleSubscribe_def HandleUnsubscribe_def HandleGetStats_def
      q_contents_def split: prod.splits)
  then show ?thesis using ARequest HandleRequest_inv [OF assms] by simp
next
  case (AWorker env)
  then show ?thesis using SendWorkerPass_step [OF assms] by simp
qed

lemma accepted_queued:
  assumes "router_inv r"
  shows "set (accepted a r) \<subseteq> set (q_contents (router_step a r))"
proof (cases "\<exists>env. a = AWorker env")
  case False
  then have "taken a r = []" by (cases a) auto
  with router_step_queue [OF assms, of a] have "q_contents (router_step a r) = q_contents r @ accepted a r" by simp
  then show ?thesis by simp
qed auto

lemma router_run_queue:
  "router_inv r \<Longrightarrow> router_inv (fst (router_run as r)) \<and>
    q_contents r @ fst (snd (router_run as r)) = snd (snd (router_run as r)) @ q_contents (fst (router_run as r))"
proof (induction as arbitrary: r)
  case (Cons a as)
  note st = router_step_queue [OF Cons.prems, of a]
  from Cons.IH [of "router_step a r"] st show ?case
    by (auto simp: Let_def split: prod.splits) (metis append.assoc)
qed simp

lemma router_inv_new:
  assumes "osc_wf (Some seg)"
  shows "router_inv (OscRouter_new seg) \<and> q_contents (OscRouter_new seg) = []"
  using assms rt_inv_new
  by (simp add: router_inv_def OscRouter_new_def q_inv_def q_contents_def shm_inv_def shm_new_def)

section \<open>Publish pipe framing\<close>

definition le32_bytes :: "nat \<Rightarrow> byte list" where
  "le32_bytes n = map (\<lambda>i. of_nat (n div 2 ^ (8 * i))) [0..<4]"

lemma le32_le32_bytes: "n < 2 ^ 16 \<Longrightarrow> le32 (le32_bytes n) = n"
proof -
  assume n: "n < 2 ^ 16"
  have b: "unat (of_nat x :: byte) = x mod 256" for x by (simp add: unat_of_nat take_bit_eq_mod)
  have "n div 2 ^ 16 = 0" "n div 2 ^ 24 = 0" using n by simp_all
  moreover have "n div 256 mod 256 = n div 256" using n by (simp add: div_less_iff_less_mult)
  ultimately show ?thesis by (simp add: le32_def le32_bytes_def b upt_rec)
qed

text \<open>A frame as a client sends it: identifier, payload, and how the payload's bytes arrive.\<close>

type_synonym pub_frame = "byte list \<times> byte list list"

definition frame_ok :: "pub_frame \<Rightarrow> bool" where
  "frame_ok f \<longleftrightarrow> length (fst f) = 32 \<and> list_all (\<lambda>c. c \<noteq> []) (snd f) \<and> concat (snd f) \<noteq> [] \<and>
     length (concat (snd f)) \<le> kSendQueueEntryMaxSize"

definition frame_reads :: "pub_frame \<Rightarrow> pipe_reads" where
  "frame_reads f = Some (fst f) # Some (le32_bytes (length (concat (snd f)))) # map Some (snd f)"

lemma read_payload_chunks:
  assumes "list_all (\<lambda>c. c \<noteq> []) cs" "length got + length (concat cs) = n"
  shows "read_payload n got (map Some cs @ rest) = Some (got @ concat cs, rest)"
  using assms
proof (induction cs arbitrary: got)
  case Nil
  then show ?case by (simp add: read_payload.simps)
next
  case (Cons c cs)
  then have "length got < n" by (cases c) auto
  then show ?case using Cons.IH [of "got @ c"] Cons.prems by (subst read_payload.simps) simp
qed

lemma read_frame_frame:
  assumes "frame_ok f"
  shows "read_frame (frame_reads f @ rest) = Some (concat (snd f), rest)"
proof -
  let ?n = "length (concat (snd f))"
  have n: "le32 (le32_bytes ?n) = ?n" "0 < ?n" "?n \<le> kSendQueueEntryMaxSize"
    using assms by (auto simp: frame_ok_def kSendQueueEntryMaxSize_def intro!: le32_le32_bytes)
  have l: "length (le32_bytes ?n) = 4" by (simp add: le32_bytes_def)
  have p: "read_payload ?n [] (map Some (snd f) @ rest) = Some (concat (snd f), rest)"
    using assms read_payload_chunks [of "snd f" "[]"] by (simp add: frame_ok_def)
  show ?thesis using assms n l p by (simp add: read_frame_def frame_reads_def frame_ok_def)
qed

lemma stop_flag_simps [simp]:
  "stop_flag (upd_stats f r) = stop_flag r" "stop_flag (count_drop r) = stop_flag r"
  "stop_flag (enqueue_frame d r) = stop_flag r"
  by (simp_all add: upd_stats_def count_drop_def enqueue_frame_def EnqueueLocked_def Let_def split: option.splits)

lemma pub_client_frames:
  assumes "list_all frame_ok fs" "router_inv r" "\<not> stop_flag r"
    "length (q_contents r) + length fs \<le> kSendQueueCapacity"
  shows "router_inv (pub_client (concat (map frame_reads fs)) r) \<and>
    q_contents (pub_client (concat (map frame_reads fs)) r) = q_contents r @ map (\<lambda>f. concat (snd f)) fs"
  using assms
proof (induction fs arbitrary: r)
  case Nil
  then show ?case by (simp add: pub_client.simps read_frame_def)
next
  case (Cons f fs)
  let ?d = "concat (snd f)"
  have rf: "read_frame (concat (map frame_reads (f # fs))) = Some (?d, concat (map frame_reads fs))"
    using read_frame_frame Cons.prems(1) by simp
  have acc: "snd (EnqueueLocked ?d r)"
    using Cons.prems sendq.enq_iff [of r ?d] by (simp add: router_inv_def frame_ok_def)
  note st = enqueue_frame_step [OF Cons.prems(2), of ?d]
  have "pub_client (concat (map frame_reads (f # fs))) r =
      pub_client (concat (map frame_reads fs)) (enqueue_frame ?d r)"
    using rf Cons.prems(3) by (subst pub_client.simps) simp
  then show ?case using Cons.IH [of "enqueue_frame ?d r"] st acc Cons.prems by simp
qed

lemma worker_passes_drain:
  "router_inv r \<Longrightarrow> router_inv (fold SendWorkerPass envs r) \<and>
    q_contents (fold SendWorkerPass envs r) = drop (length envs) (q_contents r)"
proof (induction envs arbitrary: r)
  case (Cons env envs)
  note st = SendWorkerPass_step [OF Cons.prems, of env]
  have "q_contents (SendWorkerPass env r) = drop 1 (q_contents r)"
  proof (cases "snd (DequeueLocked r)")
    case None
    then have "q_contents r = []" using sendq.deq_empty_iff [of r] Cons.prems by (simp add: router_inv_def)
    with st None show ?thesis by simp
  next
    case (Some d)
    with st have "q_contents r = d # q_contents (SendWorkerPass env r)" by simp
    then show ?thesis by (metis drop0 drop_Suc_Cons One_nat_def)
  qed
  then show ?case using Cons.IH [of "SendWorkerPass env r"] conjunct1 [OF st] by simp
qed simp

section \<open>Properties\<close>

text \<open>C4. The send queue is a FIFO. For any interleaving of in-process publishes, publish-pipe
  frames, IPC requests and worker passes, the packets that producers were told are queued come
  out in exactly that order, none lost and none duplicated: those taken by the worker followed by
  those still queued are those queued before followed by those accepted. The queue never holds
  more than 1024 packets of at most 512 bytes, and the route table, the statistics segment and
  the segment's handles stay well formed.\<close>

theorem router_fifo:
  assumes "router_inv r" "router_run as r = (r', acc, tak)"
  shows "router_inv r' \<and> q_contents r @ acc = tak @ q_contents r' \<and>
    length (q_contents r') \<le> 1024 \<and> (\<forall>d \<in> set (tak @ q_contents r'). length d \<le> 512)"
proof -
  have r': "router_inv r'" "q_contents r @ acc = tak @ q_contents r'"
    using router_run_queue [OF assms(1), of as] assms(2) by simp_all
  have sz: "\<forall>d \<in> set acc. length d \<le> 512" if "router_inv r" "router_run as r = (r', acc, tak)" for as r r' acc tak
    using that
  proof (induction as arbitrary: r acc tak)
    case (Cons a as)
    have "\<forall>d \<in> set (accepted a r). length d \<le> 512"
      using accepted_queued [OF Cons.prems(1), of a] router_step_queue [OF Cons.prems(1), of a]
      by (auto simp: router_inv_def q_inv_def kSendQueueEntryMaxSize_def)
    moreover obtain acc1 tak1 where "router_run as (router_step a r) = (r', acc1, tak1)" "acc = accepted a r @ acc1"
      using Cons.prems(2) by (auto simp: Let_def split: prod.splits)
    ultimately show ?case using Cons.IH [of "router_step a r" acc1 tak1] router_step_queue [OF Cons.prems(1), of a]
      by auto
  qed simp
  have "\<forall>d \<in> set (q_contents r @ acc). length d \<le> 512"
    using sz [OF assms] assms(1) by (auto simp: router_inv_def q_inv_def kSendQueueEntryMaxSize_def)
  moreover have "length (q_contents r') \<le> 1024"
    using r'(1) by (simp add: router_inv_def q_inv_def q_contents_def kSendQueueCapacity_def)
  ultimately show ?thesis using r' by (metis set_append Un_iff)
qed

definition demo_segment :: OscShmemData where
  "demo_segment = \<lparr>osc_magic = 0, osc_version = 0, shm_packets_sent = 0, shm_bytes_sent = 0,
     shm_packets_dropped = 0, routes = replicate OSC_ROUTER_ROUTE_SLOTS \<lparr>generation = 0, slot_body =
       \<lparr>address_pattern = [], subscriber_label = [], rt_match_count = 0, rt_drop_count = 0,
        rt_last_match_tick = 0, rt_active = 0\<rparr>\<rparr>\<rparr>"

definition demo_env :: worker_env where
  "demo_env = \<lparr>we_sendto = 4, we_qpc = 0, we_stats_due = False, we_junk = (\<lambda>_. (0, 0, 0))\<rparr>"

lemma demo_router_inv: "router_inv (OscRouter_new demo_segment)" "q_contents (OscRouter_new demo_segment) = []"
proof -
  have "osc_wf (Some demo_segment)" by (simp add: osc_wf_def demo_segment_def)
  from router_inv_new [OF this]
  show "router_inv (OscRouter_new demo_segment)" "q_contents (OscRouter_new demo_segment) = []" by simp_all
qed

theorem router_fifo_witness:
  "\<exists>r' acc tak. router_run [APubFrame [1], APubFrame [2], AWorker demo_env] (OscRouter_new demo_segment) = (r', acc, tak) \<and>
     acc = [[1], [2]] \<and> tak = [[1]] \<and> q_contents r' = [[2]]"
proof -
  let ?r0 = "OscRouter_new demo_segment"
  let ?r1 = "enqueue_frame [1] ?r0"
  let ?r2 = "enqueue_frame [2] ?r1"
  have room: "snd (EnqueueLocked d r)" if "router_inv r" "length (q_contents r) < 5" "length d = 1" for d r
    using that sendq.enq_iff [of r d] by (simp add: router_inv_def kSendQueueCapacity_def kSendQueueEntryMaxSize_def)
  have a1: "snd (EnqueueLocked [1] ?r0)" using room demo_router_inv by simp
  then have r1: "router_inv ?r1" "q_contents ?r1 = [[1]]"
    using enqueue_frame_step [OF demo_router_inv(1), of "[1]"] demo_router_inv(2) by simp_all
  have a2: "snd (EnqueueLocked [2] ?r1)" using room r1 by simp
  then have r2: "router_inv ?r2" "q_contents ?r2 = [[1], [2]]"
    using enqueue_frame_step [OF r1(1), of "[2]"] r1(2) by simp_all
  have run: "router_run [APubFrame [1], APubFrame [2], AWorker demo_env] ?r0 =
      (SendWorkerPass demo_env ?r2, [[1], [2]], taken (AWorker demo_env) ?r2)"
    by (simp only: router_run.simps Let_def case_prod_conv router_step.simps accepted.simps a1 a2) simp
  have "taken (AWorker demo_env) ?r2 \<noteq> []" "length (taken (AWorker demo_env) ?r2) \<le> 1"
    using sendq.deq_empty_iff [of ?r2] r2 by (auto simp: router_inv_def split: option.splits)
  with router_fifo [OF demo_router_inv(1) run] demo_router_inv(2) run show ?thesis
    by (cases "taken (AWorker demo_env) ?r2") auto
qed

text \<open>Publish pipe. A client's frames, each a 32-byte identifier, a little-endian length and 1 to
  512 payload bytes arriving in arbitrary non-empty pieces, are queued whole and in order as long
  as the queue has room for them.\<close>

theorem pub_pipe_framing:
  assumes "list_all frame_ok fs" "router_inv r" "\<not> stop_flag r"
    "length (q_contents r) + length fs \<le> 1024"
  shows "q_contents (pub_client (concat (map frame_reads fs)) r) = q_contents r @ map (\<lambda>f. concat (snd f)) fs"
  using pub_client_frames [OF assms(1-3)] assms(4) by (simp add: kSendQueueCapacity_def)

theorem pub_pipe_framing_witness:
  "q_contents (pub_client [Some (replicate 32 0), Some [3, 0, 0, 0], Some [7], Some [8, 9],
      Some (replicate 32 1), Some [1, 0, 0, 0], Some [5]] (OscRouter_new demo_segment)) = [[7, 8, 9], [5]]"
proof -
  let ?f = "(replicate 32 0, [[7], [8, 9]]) :: pub_frame" and ?g = "(replicate 32 1, [[5]]) :: pub_frame"
  have run: "\<not> stop_flag (OscRouter_new demo_segment)" by (simp add: OscRouter_new_def)
  have b: "le32_bytes 3 = [3, 0, 0, 0]" "le32_bytes 1 = [1, 0, 0, 0]"
    by (simp_all add: le32_bytes_def upt_rec)
  have fr: "frame_reads ?f = [Some (replicate 32 0), Some [3, 0, 0, 0], Some [7], Some [8, 9]]"
    "frame_reads ?g = [Some (replicate 32 1), Some [1, 0, 0, 0], Some [5]]"
    using b by (simp_all add: frame_reads_def eval_nat_numeral del: replicate.simps)
  have ok: "list_all frame_ok [?f, ?g]" by (simp add: frame_ok_def kSendQueueEntryMaxSize_def)
  have "length (q_contents (OscRouter_new demo_segment)) + length [?f, ?g] \<le> 1024"
    by (simp add: demo_router_inv(2))
  from pub_pipe_framing [OF ok demo_router_inv(1) run this] show ?thesis
    by (simp only: list.map concat.simps fr append_Cons append_Nil append_Nil2 demo_router_inv(2) snd_conv)
qed



text \<open>Publishing. An in-process publish through the active-router pointer succeeds exactly when a
  router is active and not stopped, the encoded message fits 512 bytes and the queue has room for
  it. It then adds to the end of the queue one packet, which parses back to the published
  address, type tag and arguments; in every other case the queue is unchanged.\<close>

theorem api_publish_exact:
  assumes "router_inv (the_router p)" "nul_free a" "nul_free t"
  shows "(snd (api_PublishOsc a t (Some args) p) \<longleftrightarrow>
      activeRouter p \<and> \<not> stop_flag (the_router p) \<and> length (osc_message a t args) \<le> 512 \<and>
      length (q_contents (the_router p)) < 1024) \<and>
    (if snd (api_PublishOsc a t (Some args) p)
     then \<exists>d. q_contents (the_router (fst (api_PublishOsc a t (Some args) p))) = q_contents (the_router p) @ [d] \<and>
       OscParseMessage d = \<lparr>om_address = Some a, om_typetag = Some t, om_args = args, om_valid = True\<rparr>
     else q_contents (the_router (fst (api_PublishOsc a t (Some args) p))) = q_contents (the_router p))"
proof -
  let ?r = "the_router p" and ?pk = "built_packet a t (Some args)"
  let ?b = "BuildAndEnqueue a t (Some args) ?r"
  have pk: "pk_ok ?pk \<longleftrightarrow> length (osc_message a t args) \<le> 512"
    "pk_ok ?pk \<Longrightarrow> pk_buf ?pk = osc_message a t args"
    using build_message_ok [of kSendQueueEntryMaxSize a t args OscPacket_new]
      build_message_buf [of kSendQueueEntryMaxSize a t args OscPacket_new]
    by (simp_all add: built_packet_eq kSendQueueEntryMaxSize_def)
  have ok: "snd ?b \<longleftrightarrow> length (osc_message a t args) \<le> 512 \<and> length (q_contents ?r) < 1024"
    using pk sendq.enq_iff [of ?r "pk_buf ?pk"] assms(1)
    by (auto simp: BuildAndEnqueue_eq Let_def router_inv_def kSendQueueCapacity_def kSendQueueEntryMaxSize_def)
  have parse: "OscParseMessage (pk_buf ?pk) = \<lparr>om_address = Some a, om_typetag = Some t, om_args = args, om_valid = True\<rparr>"
    if "snd ?b" using that ok pk OscParseMessage_osc_message [OF assms(2,3), of args] by simp
  have api: "api_PublishOsc a t (Some args) p =
      (if activeRouter p \<and> \<not> stop_flag ?r then (p\<lparr>the_router := fst ?b\<rparr>, snd ?b) else (p, False))"
    by (simp add: api_PublishOsc_def PublishOsc_def split: prod.splits)
  show ?thesis unfolding api using ok parse BuildAndEnqueue_step [OF assms(1), of a t "Some args"] by auto
qed

theorem api_publish_exact_witness:
  "snd (api_PublishOsc ''/chatbox/input'' '',s'' (Some [104, 105, 0, 0])
      (process_Init True True \<lparr>wsa_ok = True, socket_ok = True, pton_ok = True\<rparr>
        \<lparr>the_router = OscRouter_new demo_segment, activeRouter = False\<rparr>)) \<and>
   \<not> snd (api_PublishOsc ''/chatbox/input'' '',s'' (Some [104, 105, 0, 0])
      (process_Shutdown \<lparr>the_router = OscRouter_new demo_segment, activeRouter = True\<rparr>))"
proof -
  let ?e = "\<lparr>wsa_ok = True, socket_ok = True, pton_ok = True\<rparr>" and ?r = "OscRouter_new demo_segment"
  let ?p = "process_Init True True ?e \<lparr>the_router = ?r, activeRouter = False\<rparr>"
  let ?q = "process_Shutdown \<lparr>the_router = ?r, activeRouter = True\<rparr>"
  note ri = demo_router_inv(1)
  have p: "router_inv (the_router ?p)" "q_contents (the_router ?p) = []" "activeRouter ?p" "\<not> stop_flag (the_router ?p)"
    by (simp_all add: process_Init_def OscRouter_Init_def OscRouterStatsShmem_Create_def shm_Create_def shm_defs
        router_inv_def q_inv_def q_contents_def OscRouter_new_def demo_segment_def rt_inv_new osc_wf_def shm_new_def)
  have q: "router_inv (the_router ?q)" "\<not> activeRouter ?q"
    by (simp_all add: process_Shutdown_def OscRouter_Shutdown_def shm_defs
        router_inv_def q_inv_def q_contents_def OscRouter_new_def demo_segment_def rt_inv_new osc_wf_def shm_new_def)
  have "length (osc_message ''/chatbox/input'' '',s'' [104, 105, 0, 0]) = 24"
    by (simp add: osc_message_def osc_string_def OscPad4_def)
  then show ?thesis
    using api_publish_exact [OF p(1), of "''/chatbox/input''" "'',s''" "[104, 105, 0, 0]"] p
      api_publish_exact [OF q(1), of "''/chatbox/input''" "'',s''" "[104, 105, 0, 0]"] q
    by simp
qed

text \<open>Module life cycle. For any results of the system calls, initialising the router keeps it
  well formed, clears the stop flag and leaves the queued packets alone; shutting it down stops
  every later publish, closes the socket and releases every handle and view of the statistics
  segment, and a second shutdown changes nothing.\<close>

theorem router_lifecycle:
  assumes "router_inv r"
  shows "router_inv (OscRouter_Init f m env r) \<and> \<not> stop_flag (OscRouter_Init f m env r) \<and>
    q_contents (OscRouter_Init f m env r) = q_contents r \<and>
    (view (statsClient (OscRouter_Init f m env r)) \<longleftrightarrow> f \<and> m) \<and>
    router_inv (OscRouter_Shutdown r) \<and> \<not> snd (PublishOsc a t args (OscRouter_Shutdown r)) \<and>
    \<not> sock_open (sender (OscRouter_Shutdown r)) \<and> live_handles (statsClient (OscRouter_Shutdown r)) = 0 \<and>
    live_views (statsClient (OscRouter_Shutdown r)) = 0 \<and>
    OscRouter_Shutdown (OscRouter_Shutdown r) = OscRouter_Shutdown r"
proof -
  have c: "shm_inv (statsClient r)" using assms by (simp add: router_inv_def)
  obtain cl d ok where create: "OscRouterStatsShmem_Create f m (statsData r) (statsClient r) = ((cl, d), ok)"
    by (metis prod.exhaust)
  have d: "osc_wf (Some d)" "shm_inv cl" "view cl \<longleftrightarrow> f \<and> m"
    using create osc_seg.create_inv [OF c, of f m] osc_seg.released_after_close [OF c] assms
    by (auto simp: OscRouterStatsShmem_Create_def shm_Create_def Let_def osc_wf_def router_inv_def shm_map_def
        shm_file_def split: if_splits)
  note rel = osc_seg.released_after_close [OF c] and ci = osc_seg.close_inv [OF c]
  have twice: "shm_Close (shm_Close (statsClient r)) = shm_Close (statsClient r)"
    by (simp add: shm_defs)
  have i: "OscRouter_Init f m env r = r\<lparr>statsClient := cl, statsData := d, shmemReady := ok \<or> shmemReady r,
      sender := fst (UdpSender_Open env (sendHost r) (sendPort r) (sender r)), stop_flag := False\<rparr>"
    by (simp add: OscRouter_Init_def create Let_def)
  have "router_inv (OscRouter_Init f m env r)" "q_contents (OscRouter_Init f m env r) = q_contents r"
    using assms d by (simp_all add: i router_inv_def q_inv_def q_contents_def)
  moreover have "router_inv (OscRouter_Shutdown r)"
    using assms ci by (simp add: OscRouter_Shutdown_def router_inv_def q_inv_def q_contents_def)
  ultimately show ?thesis
    using d rel by (simp add: i OscRouter_Shutdown_def PublishOsc_def UdpSender_Close_def twice)
qed

theorem router_lifecycle_witness:
  "live_handles (statsClient (OscRouter_Shutdown (OscRouter_Init True True
      \<lparr>wsa_ok = True, socket_ok = False, pton_ok = True\<rparr> (OscRouter_new demo_segment)))) = 0"
proof -
  let ?e = "\<lparr>wsa_ok = True, socket_ok = False, pton_ok = True\<rparr>" and ?r = "OscRouter_new demo_segment"
  have "router_inv (OscRouter_Init True True ?e ?r)"
    using router_lifecycle [OF demo_router_inv(1), of True True ?e "[]" "[]" None] by simp
  then show ?thesis using router_lifecycle [of "OscRouter_Init True True ?e ?r" True True ?e "[]" "[]" None] by simp
qed

end
