(* ===== verification/CaptionsHost.thy ===== *)
theory CaptionsHost
  imports OscRouter FloatArith "HOL-Library.Sublist"
begin

text \<open>
  The captions host process (\<open>modules/captions/src/host\<close>): publishing chatbox packets on the OSC
  router's publish pipe (\<open>RouterPublisher.cpp\<close>), the rate limiter (\<open>ChatboxPacer.cpp\<close>), the
  control messages from the driver and the main loop that turns audio frames into captions
  (\<open>main.cpp\<close>). Speech recognition, translation and voice detection are libraries: parameters of
  the loop. Pipe and file calls are inputs.
\<close>

unbundle bit_operations_syntax

section \<open>RouterPublisher\<close>

definition kSourceId :: "byte list" where
  "kSourceId = bytes_of_str ''translator'' @ replicate 22 0"

text \<open>\<open>wire\<close> is what has been written on the current connection.\<close>

record RouterPublisher =
  pub_pipe_open :: bool
  identified :: bool
  pub_backoff_ms :: int
  wire :: "byte list"

definition RouterPublisher_new :: RouterPublisher where
  "RouterPublisher_new = \<lparr>pub_pipe_open = False, identified = False, pub_backoff_ms = 500, wire = []\<rparr>"

definition Disconnect :: "RouterPublisher \<Rightarrow> RouterPublisher" where
  "Disconnect p = p\<lparr>pub_pipe_open := False, identified := False\<rparr>"

text \<open>\<open>Write\<close> loops over \<open>WriteFile\<close>; \<open>ok\<close> says whether all calls succeed. When one fails, \<open>n\<close>
  bytes had been written.\<close>

datatype write_result = WriteOk | WriteFails nat

fun Write :: "write_result \<Rightarrow> byte list \<Rightarrow> RouterPublisher \<Rightarrow> RouterPublisher \<times> bool" where
  "Write WriteOk bs p = (p\<lparr>wire := wire p @ bs\<rparr>, True)"
| "Write (WriteFails n) bs p = (p\<lparr>wire := wire p @ take n bs\<rparr>, False)"

record publish_env =
  pipe_opens :: bool
  id_write :: write_result
  len_write :: write_result
  pkt_write :: write_result

definition Connect :: "publish_env \<Rightarrow> RouterPublisher \<Rightarrow> RouterPublisher \<times> bool" where
  "Connect E p = (let p1 = Disconnect p in
     if \<not> pipe_opens E then (p1, False)
     else case Write (id_write E) kSourceId (p1\<lparr>pub_pipe_open := True, wire := []\<rparr>) of
         (p2, False) \<Rightarrow> (Disconnect p2, False)
       | (p2, True) \<Rightarrow> (p2\<lparr>identified := True, pub_backoff_ms := 500\<rparr>, True))"

definition kMaxBackoffMs :: int where "kMaxBackoffMs = 15000"

definition Pad4 :: "u64 \<Rightarrow> u64" where
  "Pad4 n = (n + 3) AND 0xFFFFFFFC"

abbreviation pad4 :: "nat \<Rightarrow> nat" where
  "pad4 n \<equiv> unat (Pad4 (word_of_nat n))"

definition WriteOscString :: "string \<Rightarrow> byte list" where
  "WriteOscString s = (let len = length s + 1
     in bytes_of_str s @ [0] @ replicate (pad4 len - len) 0)"

definition chatbox_input :: string where "chatbox_input = ''/chatbox/input''"

definition chatbox_typetag :: "bool \<Rightarrow> bool \<Rightarrow> string" where
  "chatbox_typetag send_immediate notify = '',s'' @ [if send_immediate then CHR ''T'' else CHR ''F'',
     if notify then CHR ''T'' else CHR ''F'']"

text \<open>\<open>[]\<close> is the error result 0.\<close>

definition EncodeChatboxPacket :: "nat \<Rightarrow> string \<Rightarrow> bool \<Rightarrow> bool \<Rightarrow> byte list" where
  "EncodeChatboxPacket buf_size text send_immediate notify =
     (let typetag = chatbox_typetag send_immediate notify;
          total = pad4 (length chatbox_input + 1) + pad4 (length typetag + 1) + pad4 (length text + 1)
      in if total > buf_size then []
         else WriteOscString chatbox_input @ WriteOscString typetag @ WriteOscString text)"

definition kLimit :: nat where "kLimit = 144"

definition is_blank :: "char \<Rightarrow> bool" where
  "is_blank c \<longleftrightarrow> c = CHR '' '' \<or> c = CHR 0x09 \<or> c = CHR 0x0D \<or> c = CHR 0x0A"

fun last_blank :: "string \<Rightarrow> nat \<Rightarrow> nat" where
  "last_blank text 0 = 0"
| "last_blank text (Suc c) = (if is_blank (text ! Suc c) then Suc c else last_blank text c)"

definition TruncateToVrchatLimit :: "string \<Rightarrow> string" where
  "TruncateToVrchatLimit text = (if length text \<le> kLimit then text
     else let cut = last_blank text kLimit; cut = (if cut = 0 then kLimit else cut)
          in take cut text @ ''...'')"

definition c_str :: "string \<Rightarrow> string" where
  "c_str s = takeWhile (\<lambda>c. c \<noteq> CHR 0x00) s"

definition kPacketBuf :: nat where "kPacketBuf = 1024"

definition len32_bytes :: "nat \<Rightarrow> byte list" where
  "len32_bytes n = [of_nat n, of_nat (n div 2 ^ 8), of_nat (n div 2 ^ 16), of_nat (n div 2 ^ 24)]"

definition double_backoff :: "RouterPublisher \<Rightarrow> RouterPublisher" where
  "double_backoff p = p\<lparr>pub_backoff_ms := min (pub_backoff_ms p * 2) kMaxBackoffMs\<rparr>"

definition send_packet :: "publish_env \<Rightarrow> byte list \<Rightarrow> RouterPublisher \<Rightarrow> RouterPublisher \<times> bool" where
  "send_packet E pkt p = (case Write (len_write E) (len32_bytes (length pkt)) p of
       (p1, False) \<Rightarrow> (p1, False)
     | (p1, True) \<Rightarrow> Write (pkt_write E) pkt p1)"

text \<open>The attempts of the \<open>for\<close> loop, one environment each.\<close>

fun publish_attempts :: "publish_env list \<Rightarrow> byte list \<Rightarrow> RouterPublisher \<Rightarrow> RouterPublisher \<times> bool" where
  "publish_attempts [] pkt p = (double_backoff p, False)"
| "publish_attempts (E # Es) pkt p =
     (case (if \<not> pub_pipe_open p \<or> \<not> identified p then Connect E p else (p, True)) of
        (p1, False) \<Rightarrow> (double_backoff p1, False)
      | (p1, True) \<Rightarrow>
          if pkt = [] then (p1, False)
          else (case send_packet E pkt p1 of
                  (p2, True) \<Rightarrow> (p2, True)
                | (p2, False) \<Rightarrow> publish_attempts Es pkt (Disconnect p2)))"

definition PublishChatbox :: "publish_env \<times> publish_env \<Rightarrow> string \<Rightarrow> bool \<Rightarrow> bool \<Rightarrow> RouterPublisher
    \<Rightarrow> RouterPublisher \<times> bool" where
  "PublishChatbox Es text_in send_immediate notify p =
     publish_attempts [fst Es, snd Es]
       (EncodeChatboxPacket kPacketBuf (c_str (TruncateToVrchatLimit text_in)) send_immediate notify) p"

section \<open>ChatboxPacer\<close>

record PacerEntry =
  pe_text :: string
  pe_send_immediate :: bool
  pe_notify :: bool

text \<open>Times are nanoseconds of the steady clock.\<close>

record ChatboxPacer =
  min_gap_sec :: double
  pacer_queue :: "PacerEntry list"
  last_send :: int
  first_send :: bool

definition kQueueCap :: nat where "kQueueCap = 8"

definition ChatboxPacer_new :: "double \<Rightarrow> ChatboxPacer" where
  "ChatboxPacer_new gap = \<lparr>min_gap_sec = gap, pacer_queue = [], last_send = 0, first_send = True\<rparr>"

definition Enqueue :: "PacerEntry \<Rightarrow> ChatboxPacer \<Rightarrow> ChatboxPacer" where
  "Enqueue e q = q\<lparr>pacer_queue :=
     (if length (pacer_queue q) \<ge> kQueueCap then tl (pacer_queue q) else pacer_queue q) @ [e]\<rparr>"

definition elapsed_sec :: "int \<Rightarrow> int \<Rightarrow> double" where
  "elapsed_sec now since = of_integer (now - since) / of_integer 1000000000"

definition Dequeue :: "int \<Rightarrow> ChatboxPacer \<Rightarrow> ChatboxPacer \<times> PacerEntry option" where
  "Dequeue now q = (case pacer_queue q of [] \<Rightarrow> (q, None)
     | e # rest \<Rightarrow>
         if \<not> first_send q \<and> elapsed_sec now (last_send q) < min_gap_sec q then (q, None)
         else (q\<lparr>pacer_queue := rest, last_send := now, first_send := False\<rparr>, Some e))"

section \<open>Control messages\<close>

record HostConfig =
  hc_source_lang :: string
  hc_target_lang :: string
  hc_chatbox_address :: string
  hc_chatbox_port :: u16
  hc_transcript_logging :: bool
  hc_mode :: int
  hc_whisper_model_path :: string
  hc_silero_model_path :: string

definition HostConfig_new :: HostConfig where
  "HostConfig_new = \<lparr>hc_source_lang = ''auto'', hc_target_lang = [], hc_chatbox_address = ''/chatbox/input'',
     hc_chatbox_port = 9000, hc_transcript_logging = False, hc_mode = 0,
     hc_whisper_model_path = [], hc_silero_model_path = []\<rparr>"

datatype stoi_error = InvalidArgument | OutOfRange

definition is_digit :: "char \<Rightarrow> bool" where
  "is_digit c \<longleftrightarrow> (48::nat) \<le> of_char c \<and> of_char c \<le> (57::nat)"

definition is_space :: "char \<Rightarrow> bool" where
  "is_space c \<longleftrightarrow> c = CHR '' '' \<or> (9::nat) \<le> of_char c \<and> of_char c \<le> (13::nat)"

definition digits_value :: "string \<Rightarrow> int" where
  "digits_value ds = foldl (\<lambda>n c. 10 * n + (int (of_char c) - 48)) 0 ds"

text \<open>\<open>std::stoi\<close>: leading white space, an optional sign, decimal digits; the rest is ignored.\<close>

definition stoi :: "string \<Rightarrow> stoi_error + int" where
  "stoi s = (let t = dropWhile is_space s;
       neg = (t \<noteq> [] \<and> hd t = CHR ''-'');
       u = (if t \<noteq> [] \<and> (hd t = CHR ''-'' \<or> hd t = CHR ''+'') then tl t else t);
       ds = takeWhile is_digit u; v = (if neg then - digits_value ds else digits_value ds)
     in if ds = [] then Inl InvalidArgument
        else if v < - (2 ^ 31) \<or> v \<ge> 2 ^ 31 then Inl OutOfRange else Inr v)"

definition strip_eol :: "string \<Rightarrow> string" where
  "strip_eol v = rev (dropWhile (\<lambda>c. c = CHR 0x0A \<or> c = CHR 0x0D) (rev v))"

definition set_config_key :: "string \<Rightarrow> string \<Rightarrow> HostConfig \<Rightarrow> stoi_error + HostConfig" where
  "set_config_key key val c =
     (if key = ''src'' then Inr (c\<lparr>hc_source_lang := val\<rparr>)
      else if key = ''tgt'' then Inr (c\<lparr>hc_target_lang := val\<rparr>)
      else if key = ''mode'' then map_sum id (\<lambda>n. c\<lparr>hc_mode := n\<rparr>) (stoi val)
      else if key = ''addr'' then Inr (c\<lparr>hc_chatbox_address := val\<rparr>)
      else if key = ''port'' then map_sum id (\<lambda>n. c\<lparr>hc_chatbox_port := word_of_int n\<rparr>) (stoi val)
      else if key = ''log'' then Inr (c\<lparr>hc_transcript_logging := (val \<noteq> ''0'')\<rparr>)
      else Inr c)"

text \<open>The loop over \<open>body\<close>, on what is left from \<open>pos\<close>.\<close>

lemma length_after_field:
  assumes "x \<in> set xs"
  shows "length (dropWhile Q (tl (dropWhile P xs))) - Suc 0 < length xs"
proof -
  have "length (dropWhile Q (tl (dropWhile P xs))) \<le> length (tl (dropWhile P xs))" by (rule length_dropWhile_le)
  also have "\<dots> \<le> length xs - 1" using length_dropWhile_le [of P xs] by simp
  finally show ?thesis using assms by (cases xs) auto
qed

function config_loop :: "string \<Rightarrow> HostConfig \<Rightarrow> stoi_error + HostConfig" where
  "config_loop body c = (if CHR ''='' \<notin> set body then Inr c
     else let key = takeWhile (\<lambda>x. x \<noteq> CHR ''='') body;
              after = tl (dropWhile (\<lambda>x. x \<noteq> CHR ''='') body);
              val = takeWhile (\<lambda>x. x \<noteq> CHR '','') after
          in case set_config_key key (strip_eol val) c of
               Inl e \<Rightarrow> Inl e
             | Inr c' \<Rightarrow> if CHR '','' \<notin> set after then Inr c'
                 else config_loop (tl (dropWhile (\<lambda>x. x \<noteq> CHR '','') after)) c')"
  by pat_completeness auto
termination
  by (relation "measure (length \<circ> fst)") (auto intro: length_after_field)

declare config_loop.simps [simp del]

definition DispatchControlMessage :: "string \<Rightarrow> HostConfig \<Rightarrow> stoi_error + HostConfig" where
  "DispatchControlMessage msg c = (if take 7 msg \<noteq> ''config:'' then Inr c else config_loop (drop 7 msg) c)"

section \<open>Main loop\<close>

definition kSilenceFrames :: int where "kSilenceFrames = 20"
definition kMinSamples :: nat where "kMinSamples = 1600"

definition kSpeechThreshold :: float32 where "kSpeechThreshold = lit (1 / 2)"

type_synonym samples = "float32 list"

text \<open>The libraries: whether the voice detector is loaded, the recogniser (text and detected
  language), and the translator when a model is loaded.\<close>

record speech_libs =
  vad_loaded :: bool
  Transcribe :: "samples \<Rightarrow> string \<times> string"
  Translate :: "(string \<Rightarrow> string \<Rightarrow> string \<Rightarrow> string) option"

text \<open>A captured frame with the probability the voice detector gives it. \<open>transcribed\<close> is the
  history of the buffers given to the recogniser.\<close>

type_synonym audio_frame = "samples \<times> float32"

record host_loop =
  silence_count :: int
  in_speech :: bool
  ptt_was_held :: bool
  speech_buf :: samples
  pacer :: ChatboxPacer
  publisher :: RouterPublisher
  transcribed :: "samples list"

definition host_loop_new :: host_loop where
  "host_loop_new = \<lparr>silence_count = 0, in_speech = False, ptt_was_held = False, speech_buf = [],
     pacer = ChatboxPacer_new (lit (12 / 10)), publisher = RouterPublisher_new, transcribed = []\<rparr>"

definition caption_output :: "speech_libs \<Rightarrow> HostConfig \<Rightarrow> samples \<Rightarrow> string" where
  "caption_output L cfg buf = (case Transcribe L buf of (transcript, detected) \<Rightarrow>
     (case Translate L of
        Some tr \<Rightarrow> if hc_target_lang cfg \<noteq> [] then tr transcript
             (if detected = [] then hc_source_lang cfg else detected) (hc_target_lang cfg) else transcript
      | None \<Rightarrow> transcript))"

definition transcribe_buf :: "speech_libs \<Rightarrow> HostConfig \<Rightarrow> host_loop \<Rightarrow> host_loop" where
  "transcribe_buf L cfg h = (if length (speech_buf h) < kMinSamples then h\<lparr>speech_buf := []\<rparr>
     else let out = caption_output L cfg (speech_buf h); h' = h\<lparr>speech_buf := [], transcribed := transcribed h @ [speech_buf h]\<rparr>
          in if out = [] then h' else h'\<lparr>pacer := Enqueue \<lparr>pe_text = out, pe_send_immediate = True,
               pe_notify = (hc_chatbox_port cfg \<noteq> 0)\<rparr> (pacer h')\<rparr>)"

definition vad_frame :: "speech_libs \<Rightarrow> HostConfig \<Rightarrow> audio_frame \<Rightarrow> host_loop \<Rightarrow> host_loop" where
  "vad_frame L cfg f h =
     (if snd f \<ge> kSpeechThreshold
      then (let buf = (if in_speech h then speech_buf h else [])
            in h\<lparr>in_speech := True, silence_count := 0, speech_buf := buf @ fst f\<rparr>)
      else if in_speech h
      then (let n = silence_count h + 1; h' = h\<lparr>silence_count := n\<rparr>
            in if n \<ge> kSilenceFrames then transcribe_buf L cfg (h'\<lparr>in_speech := False\<rparr>)
               else h'\<lparr>speech_buf := speech_buf h @ fst f\<rparr>)
      else h)"

definition ptt_frame :: "speech_libs \<Rightarrow> HostConfig \<Rightarrow> bool \<Rightarrow> audio_frame \<Rightarrow> host_loop \<Rightarrow> host_loop" where
  "ptt_frame L cfg ptt_held f h =
     (if ptt_held then h\<lparr>speech_buf := (if ptt_was_held h then speech_buf h else []) @ fst f, ptt_was_held := True\<rparr>
      else if ptt_was_held h then transcribe_buf L cfg (h\<lparr>ptt_was_held := False\<rparr>)
      else h)"

definition audio_step :: "speech_libs \<Rightarrow> HostConfig \<Rightarrow> bool \<Rightarrow> audio_frame \<Rightarrow> host_loop \<Rightarrow> host_loop" where
  "audio_step L cfg ptt_held f h =
     (if hc_mode cfg = 1 then (if vad_loaded L then vad_frame L cfg f h else h)
      else ptt_frame L cfg ptt_held f h)"

text \<open>\<open>while (pacer.Dequeue (entry)) publisher.PublishChatbox (...)\<close>: a clock reading and the
  environment of one publication per round; the last round's \<open>Dequeue\<close> gives nothing.\<close>

fun drain_pacer :: "(int \<times> publish_env \<times> publish_env) list \<Rightarrow> host_loop \<Rightarrow> host_loop" where
  "drain_pacer [] h = h"
| "drain_pacer ((now, E) # rest) h = (case Dequeue now (pacer h) of
       (q, None) \<Rightarrow> h
     | (q, Some e) \<Rightarrow> drain_pacer rest (h\<lparr>pacer := q,
          publisher := fst (PublishChatbox E (pe_text e) (pe_send_immediate e) (pe_notify e) (publisher h))\<rparr>))"

record loop_input =
  in_ptt_held :: bool
  in_frames :: "audio_frame list"
  in_config :: HostConfig
  in_libs :: speech_libs
  in_rounds :: "(int \<times> publish_env \<times> publish_env) list"

definition main_loop_body :: "loop_input \<Rightarrow> host_loop \<Rightarrow> host_loop" where
  "main_loop_body I h = drain_pacer (in_rounds I)
     (fold (audio_step (in_libs I) (in_config I) (in_ptt_held I)) (in_frames I) h)"

section \<open>Chatbox packets\<close>

lemma WriteOscString_eq: "WriteOscString s = osc_string s"
  by (simp add: WriteOscString_def osc_string_def Let_def Pad4_def OscPad4_def)

lemma Pad4_eq: "Pad4 = OscPad4"
  by (simp add: fun_eq_iff Pad4_def OscPad4_def)

lemma last_blank_le: "last_blank t n \<le> n"
  by (induction n) auto

lemma length_TruncateToVrchatLimit: "length (TruncateToVrchatLimit t) \<le> 147"
  using last_blank_le [of t 144] by (auto simp: TruncateToVrchatLimit_def kLimit_def Let_def)

lemma nul_free_c_str: "nul_free (c_str s)"
  by (auto simp: nul_free_def c_str_def dest: set_takeWhileD)

lemma length_c_str: "length (c_str s) \<le> length s"
  by (simp add: c_str_def length_takeWhile_le)

definition chatbox_packet :: "string \<Rightarrow> bool \<Rightarrow> bool \<Rightarrow> byte list" where
  "chatbox_packet cap si nt = osc_message chatbox_input (chatbox_typetag si nt) (osc_string cap)"

lemma length_heads: "length (osc_string chatbox_input) = 16" "length (osc_string (chatbox_typetag si nt)) = 8"
  by (simp_all add: osc_string_def chatbox_input_def chatbox_typetag_def OscPad4_def)

lemma length_chatbox_packet:
  "length cap \<le> 147 \<Longrightarrow> length (chatbox_packet cap si nt) \<le> 172 \<and> 28 \<le> length (chatbox_packet cap si nt)"
  using length_osc_string [of cap] osc_pad4_nat [of "length cap + 1"]
  by (simp add: chatbox_packet_def osc_message_def length_heads)

lemma EncodeChatboxPacket_eq:
  assumes "length cap \<le> 147"
  shows "EncodeChatboxPacket kPacketBuf cap si nt = chatbox_packet cap si nt"
proof -
  have "pad4 (length s + 1) = length (osc_string s)" if "length s \<le> 147" for s
    using that length_osc_string [of s] by (simp add: Pad4_eq)
  moreover have "length chatbox_input \<le> 147" "length (chatbox_typetag si nt) \<le> 147"
    by (simp_all add: chatbox_input_def chatbox_typetag_def)
  ultimately have "pad4 (length chatbox_input + 1) + pad4 (length (chatbox_typetag si nt) + 1) + pad4 (length cap + 1)
      = length (chatbox_packet cap si nt)"
    using assms by (simp only: chatbox_packet_def osc_message_def length_append)
  then show ?thesis using length_chatbox_packet [OF assms, of si nt]
    by (simp only: EncodeChatboxPacket_def Let_def kPacketBuf_def)
       (simp add: chatbox_packet_def osc_message_def WriteOscString_eq)
qed

lemma chatbox_packet_parses:
  assumes "nul_free cap" "length cap \<le> 147"
  shows "OscParseMessage (chatbox_packet cap si nt) = \<lparr>om_address = Some chatbox_input,
    om_typetag = Some (chatbox_typetag si nt), om_args = osc_string cap, om_valid = True\<rparr>"
  using assms length_chatbox_packet [of cap si nt] unfolding chatbox_packet_def
  by (intro OscParseMessage_osc_message) (simp_all add: nul_free_def chatbox_input_def chatbox_typetag_def)

section \<open>A connection seen by the router\<close>

text \<open>The reads of the router's worker on a byte pipe that holds \<open>bs\<close>: 32 bytes, 4 bytes, and as
  many as the length says, each read returning what is there.\<close>

function buffered_reads :: "byte list \<Rightarrow> pipe_reads" where
  "buffered_reads bs = (if bs = [] then []
     else if length bs < 36 then [Some (take 32 bs), Some (drop 32 bs)]
     else let n = le32 (take 4 (drop 32 bs))
          in Some (take 32 bs) # Some (take 4 (drop 32 bs)) # Some (take n (drop 36 bs))
             # buffered_reads (drop (36 + n) bs))"
  by pat_completeness auto
termination
  by (relation "measure length") auto

declare buffered_reads.simps [simp del]

lemma len32_bytes_eq: "len32_bytes n = le32_bytes n"
  by (simp add: len32_bytes_def le32_bytes_def upt_rec)

lemma buffered_reads_frame:
  assumes "length sid = 32" "pkt \<noteq> []" "length pkt \<le> kSendQueueEntryMaxSize"
  shows "buffered_reads (sid @ len32_bytes (length pkt) @ pkt @ rest) = frame_reads (sid, [pkt]) @ buffered_reads rest"
proof -
  let ?bs = "sid @ len32_bytes (length pkt) @ pkt @ rest"
  have l4: "length (len32_bytes (length pkt)) = 4" by (simp add: len32_bytes_def)
  have n: "le32 (len32_bytes (length pkt)) = length pkt"
    using assms(3) by (simp add: len32_bytes_eq le32_le32_bytes kSendQueueEntryMaxSize_def)
  have d: "take 32 ?bs = sid" "take 4 (drop 32 ?bs) = len32_bytes (length pkt)" "drop 36 ?bs = pkt @ rest"
    using assms(1) l4 by (simp_all add: drop_append)
  moreover have "drop (36 + length pkt) ?bs = rest" using assms(1) l4 by (simp add: drop_append)
  moreover have "\<not> length ?bs < 36" "?bs \<noteq> []" using assms(1) l4 by auto
  ultimately show ?thesis
    by (subst buffered_reads.simps) (simp add: Let_def n frame_reads_def len32_bytes_eq [symmetric])
qed

lemma read_frame_text:
  assumes "8 \<le> length cap" "nul_free cap" "length pre = 28"
  shows "read_frame (buffered_reads (pre @ osc_string cap)) = None"
proof -
  let ?bs = "pre @ osc_string cap"
  let ?b = "take 4 (drop 32 ?bs)"
  have b: "?b = take 4 (drop 4 (bytes_of_str cap))"
    using assms by (simp add: osc_string_def)
  have "?b ! 3 = byte_of_char (cap ! 7)" unfolding b using assms(1) by (simp add: bytes_of_str_def)
  then have "?b ! 3 \<noteq> 0" using assms(1,2) by (simp add: nul_free_def)
  then have "1 \<le> unat (?b ! 3)" by (simp add: Suc_le_eq unat_gt_0)
  then have big: "kSendQueueEntryMaxSize < le32 ?b" by (simp add: le32_def kSendQueueEntryMaxSize_def)
  have "36 \<le> length ?bs" using assms(1,3) by (simp add: osc_string_def)
  then have "\<exists>x r. buffered_reads ?bs = Some (take 32 ?bs) # Some ?b # x # r"
    by (subst buffered_reads.simps) (auto simp: Let_def)
  with big show ?thesis by (auto simp: read_frame_def)
qed

lemma pub_client_last:
  assumes "frame_ok f" "router_inv r" "\<not> stop_flag r" "length (q_contents r) < kSendQueueCapacity" "read_frame rest = None"
  shows "q_contents (pub_client (frame_reads f @ rest) r) = q_contents r @ [concat (snd f)]"
proof -
  have one: "pub_client (frame_reads f @ xs) r = enqueue_frame (concat (snd f)) r" if "read_frame xs = None" for xs
    using read_frame_frame [OF assms(1), of xs] assms(3) that
    by (subst pub_client.simps, simp, subst pub_client.simps) simp
  have "read_frame [] = None" by (simp add: read_frame_def)
  with pub_client_frames [of "[f]" r] assms(1-4) one [of "[]"] one [OF assms(5)] show ?thesis by simp
qed

definition all_ok :: "publish_env \<Rightarrow> bool" where
  "all_ok E \<longleftrightarrow> pipe_opens E \<and> id_write E = WriteOk \<and> len_write E = WriteOk \<and> pkt_write E = WriteOk"

definition sent_text :: "string \<Rightarrow> string" where
  "sent_text t = c_str (TruncateToVrchatLimit t)"

lemma length_sent_text: "length (sent_text t) \<le> 147"
  using length_c_str length_TruncateToVrchatLimit le_trans unfolding sent_text_def by blast

lemma PublishChatbox_wire:
  assumes "all_ok E"
  shows "PublishChatbox (E, E') t si nt p =
    (let pkt = chatbox_packet (sent_text t) si nt; pre = (if pub_pipe_open p \<and> identified p then wire p else kSourceId)
     in (p\<lparr>pub_pipe_open := True, identified := True, wire := pre @ len32_bytes (length pkt) @ pkt,
          pub_backoff_ms := (if pub_pipe_open p \<and> identified p then pub_backoff_ms p else 500)\<rparr>, True))"
proof -
  have "chatbox_packet (sent_text t) si nt \<noteq> []"
    using length_chatbox_packet [OF length_sent_text, of t si nt] by auto
  with assms show ?thesis
    by (auto simp: PublishChatbox_def EncodeChatboxPacket_eq length_sent_text sent_text_def [symmetric] Let_def
        all_ok_def Connect_def Disconnect_def send_packet_def split: if_splits)
qed

section \<open>Pacing\<close>

datatype pacer_action = PushEntry PacerEntry | PopEntry int

text \<open>Runs with their history: the entries pushed, and the entries sent with the time of sending.\<close>

fun pacer_run :: "pacer_action list \<Rightarrow> ChatboxPacer \<Rightarrow> (int \<times> PacerEntry) list \<times> ChatboxPacer" where
  "pacer_run [] q = ([], q)"
| "pacer_run (PushEntry e # as) q = pacer_run as (Enqueue e q)"
| "pacer_run (PopEntry now # as) q = (case Dequeue now q of
       (q', None) \<Rightarrow> pacer_run as q'
     | (q', Some e) \<Rightarrow> (case pacer_run as q' of (out, q'') \<Rightarrow> ((now, e) # out, q'')))"

fun pushed :: "pacer_action list \<Rightarrow> PacerEntry list" where
  "pushed [] = []"
| "pushed (PushEntry e # as) = e # pushed as"
| "pushed (PopEntry now # as) = pushed as"

fun spaced :: "double \<Rightarrow> int list \<Rightarrow> bool" where
  "spaced gap (s # t # ts) \<longleftrightarrow> \<not> elapsed_sec t s < gap \<and> spaced gap (t # ts)"
| "spaced gap _ \<longleftrightarrow> True"

lemma pacer_run_spaced:
  assumes "pacer_run as q = (out, q')"
  shows "spaced (min_gap_sec q) (if first_send q then map fst out else last_send q # map fst out)"
  using assms
proof (induction as q arbitrary: out rule: pacer_run.induct)
  case (3 now as q)
  show ?case
  proof (cases "Dequeue now q")
    case (Pair q1 r)
    show ?thesis
    proof (cases r)
      case None
      with 3 Pair have "q1 = q" by (auto simp: Dequeue_def split: list.splits if_splits)
      with 3 Pair None show ?thesis by simp
    next
      case (Some e)
      then obtain out1 where o: "pacer_run as q1 = (out1, q')" "out = (now, e) # out1"
        using 3(3) Pair by (auto split: prod.splits)
      have q1: "min_gap_sec q1 = min_gap_sec q" "last_send q1 = now" "\<not> first_send q1"
        and g: "first_send q \<or> \<not> elapsed_sec now (last_send q) < min_gap_sec q"
        using Pair Some by (auto simp: Dequeue_def split: list.splits if_splits)
      from 3(2) [OF Pair [symmetric] Some o(1)] q1 g show ?thesis by (auto simp: o(2))
    qed
  qed
qed (auto simp: Enqueue_def)

lemma pacer_run_order:
  assumes "pacer_run as q = (out, q')" "length (pacer_queue q) \<le> kQueueCap"
  shows "\<exists>old. pacer_queue q @ pushed as = old @ pacer_queue q' \<and> subseq (map snd out) old
    \<and> length (pacer_queue q') \<le> kQueueCap"
  using assms
proof (induction as q arbitrary: out rule: pacer_run.induct)
  case (2 e as q)
  let ?d = "if length (pacer_queue q) \<ge> kQueueCap then take 1 (pacer_queue q) else []"
  have eq: "pacer_queue q @ pushed (PushEntry e # as) = ?d @ pacer_queue (Enqueue e q) @ pushed as"
    by (cases "pacer_queue q") (auto simp: Enqueue_def kQueueCap_def)
  have "length (pacer_queue (Enqueue e q)) \<le> kQueueCap"
    using 2(3) by (auto simp: Enqueue_def kQueueCap_def)
  with 2(1) [of out] 2(2) obtain old where "pacer_queue (Enqueue e q) @ pushed as = old @ pacer_queue q'"
    "subseq (map snd out) old" "length (pacer_queue q') \<le> kQueueCap" by auto
  with eq show ?case by (intro exI [of _ "?d @ old"]) (simp only: append_assoc list_emb_append2 simp_thms)
next
  case (3 now as q)
  show ?case
  proof (cases "Dequeue now q")
    case (Pair q1 r)
    show ?thesis
    proof (cases r)
      case None
      with 3 Pair have "q1 = q" by (auto simp: Dequeue_def split: list.splits if_splits)
      with 3 Pair None show ?thesis by simp
    next
      case (Some e)
      then obtain out1 where o: "pacer_run as q1 = (out1, q')" "out = (now, e) # out1"
        using 3(3) Pair by (auto split: prod.splits)
      have q: "pacer_queue q = e # pacer_queue q1"
        using Pair Some by (auto simp: Dequeue_def split: list.splits if_splits)
      with 3(2) [OF Pair [symmetric] Some o(1)] 3(4) obtain old where
        "pacer_queue q1 @ pushed as = old @ pacer_queue q'" "subseq (map snd out1) old"
        "length (pacer_queue q') \<le> kQueueCap" by auto
      with q o(2) show ?thesis by (intro exI [of _ "e # old"]) simp
    qed
  qed
qed simp

section \<open>Push to talk\<close>

text \<open>What push-to-talk means: an utterance is the audio of a maximal run of frames with the key
  held, ended by the first frame without it. \<open>cur\<close> is the utterance under way.\<close>

fun utterances :: "samples option \<Rightarrow> (bool \<times> audio_frame) list \<Rightarrow> samples list" where
  "utterances cur [] = []"
| "utterances None ((held, f) # xs) = utterances (if held then Some (fst f) else None) xs"
| "utterances (Some b) ((held, f) # xs) =
     (if held then utterances (Some (b @ fst f)) xs else b # utterances None xs)"

definition under_way :: "host_loop \<Rightarrow> samples option" where
  "under_way h = (if ptt_was_held h then Some (speech_buf h) else None)"

lemma transcribe_buf_simps:
  "transcribed (transcribe_buf L cfg h) = transcribed h @ (if length (speech_buf h) < kMinSamples then [] else [speech_buf h])"
  "ptt_was_held (transcribe_buf L cfg h) = ptt_was_held h"
  by (simp_all add: transcribe_buf_def Let_def)

lemma ptt_step:
  assumes "hc_mode cfg \<noteq> 1"
  shows "transcribed (audio_step L cfg held f h) = transcribed h @
      (case under_way h of Some b \<Rightarrow> if \<not> held \<and> kMinSamples \<le> length b then [b] else [] | None \<Rightarrow> [])"
    and "under_way (audio_step L cfg held f h) =
      (if held then Some ((case under_way h of Some b \<Rightarrow> b | None \<Rightarrow> []) @ fst f) else None)"
  using assms by (auto simp: audio_step_def ptt_frame_def under_way_def transcribe_buf_simps)

lemma ptt_run:
  assumes "hc_mode cfg \<noteq> 1"
  shows "transcribed (fold (\<lambda>(held, f). audio_step L cfg held f) xs h) =
    transcribed h @ filter (\<lambda>b. kMinSamples \<le> length b) (utterances (under_way h) xs)"
proof (induction xs arbitrary: h)
  case Nil
  show ?case by (cases "under_way h") simp_all
next
  case (Cons x xs)
  obtain held f where x: "x = (held, f)" by (cases x)
  note st = ptt_step [OF assms, of L held f h]
  show ?case unfolding x fold_Cons comp_apply prod.case Cons.IH st
    by (cases "under_way h") simp_all
qed

section \<open>Properties\<close>

definition ok_env :: publish_env where
  "ok_env = \<lparr>pipe_opens = True, id_write = WriteOk, len_write = WriteOk, pkt_write = WriteOk\<rparr>"

lemma ok_env_ok: "all_ok ok_env"
  by (simp add: all_ok_def ok_env_def)

lemma fresh: "\<not> stop_flag (OscRouter_new seg)" "\<not> identified RouterPublisher_new"
  by (simp_all add: OscRouter_new_def RouterPublisher_new_def)

lemma first_frame:
  fixes t :: string and si nt :: bool
  defines "pkt \<equiv> chatbox_packet (sent_text t) si nt"
  shows "frame_ok (kSourceId, [pkt])"
    and "buffered_reads (kSourceId @ len32_bytes (length pkt) @ pkt @ rest) = frame_reads (kSourceId, [pkt]) @ buffered_reads rest"
proof -
  have "length pkt \<le> kSendQueueEntryMaxSize" "pkt \<noteq> []" "length kSourceId = 32"
    using length_chatbox_packet [OF length_sent_text, of t si nt]
    by (auto simp: pkt_def kSendQueueEntryMaxSize_def kSourceId_def bytes_of_str_def)
  then show "frame_ok (kSourceId, [pkt])"
    and "buffered_reads (kSourceId @ len32_bytes (length pkt) @ pkt @ rest) = frame_reads (kSourceId, [pkt]) @ buffered_reads rest"
    using buffered_reads_frame by (simp_all add: frame_ok_def)
qed

text \<open>
  The first caption on a connection reaches the router intact: what \<open>PublishChatbox\<close> writes is
  read by the router's pipe worker as one frame, which is queued behind what was there and parses
  as \<open>/chatbox/input\<close> with the two flags as type tags and the text as its argument. The text is
  the caption up to its first NUL, shortened to at most 147 bytes.
\<close>

theorem first_caption_delivered:
  assumes "router_inv r" "\<not> stop_flag r" "length (q_contents r) < 1024"
    and "all_ok E" "\<not> identified p"
    and "PublishChatbox (E, E') t si nt p = (p', ok)"
  shows "ok \<and> q_contents (pub_client (buffered_reads (wire p')) r) = q_contents r @ [chatbox_packet (sent_text t) si nt]
    \<and> OscParseMessage (chatbox_packet (sent_text t) si nt) = \<lparr>om_address = Some ''/chatbox/input'',
        om_typetag = Some (chatbox_typetag si nt), om_args = osc_string (sent_text t), om_valid = True\<rparr>
    \<and> length (sent_text t) \<le> 147"
proof -
  let ?pkt = "chatbox_packet (sent_text t) si nt"
  have w: "ok" "wire p' = kSourceId @ len32_bytes (length ?pkt) @ ?pkt @ []"
    using PublishChatbox_wire [OF assms(4), of E' t si nt p] assms(5,6) by (auto simp: Let_def)
  have "read_frame (buffered_reads []) = None" by (simp add: buffered_reads.simps read_frame_def)
  from pub_client_last [OF first_frame(1) assms(1,2) _ this] assms(3)
  have "q_contents (pub_client (buffered_reads (wire p')) r) = q_contents r @ [?pkt]"
    unfolding w(2) first_frame(2) by (simp add: kSendQueueCapacity_def)
  with w(1) chatbox_packet_parses [of "sent_text t" si nt] length_sent_text [of t] show ?thesis
    by (simp add: nul_free_c_str sent_text_def chatbox_input_def)
qed

theorem first_caption_delivered_witness:
  "q_contents (pub_client (buffered_reads (wire (fst (PublishChatbox (ok_env, ok_env) ''hello'' True False RouterPublisher_new))))
     (OscRouter_new demo_segment)) = [chatbox_packet (sent_text ''hello'') True False]"
proof -
  obtain p' ok where p: "PublishChatbox (ok_env, ok_env) ''hello'' True False RouterPublisher_new = (p', ok)" by fastforce
  from first_caption_delivered [OF demo_router_inv(1) fresh(1) _ ok_env_ok fresh(2) p] show ?thesis
    by (simp add: p demo_router_inv(2))
qed

text \<open>
  C5. The second caption on a connection is lost. The router reads the 32-byte source identifier
  before every frame; the publisher writes it only when it connects. A second caption of 8 bytes or
  more is accepted by \<open>PublishChatbox\<close>, but the router takes its length and head for an
  identifier and four of its characters for a length, refuses that length, and ends the connection
  with only the first caption queued.
\<close>

theorem second_caption_lost:
  assumes "router_inv r" "\<not> stop_flag r" "length (q_contents r) < 1024"
    and "all_ok E1" "all_ok E2" "\<not> identified p"
    and "PublishChatbox (E1, E1') t1 si1 nt1 p = (p1, ok1)" "PublishChatbox (E2, E2') t2 si2 nt2 p1 = (p2, ok2)"
    and "8 \<le> length (sent_text t2)"
  shows "ok1 \<and> ok2 \<and> q_contents (pub_client (buffered_reads (wire p2)) r)
    = q_contents r @ [chatbox_packet (sent_text t1) si1 nt1]"
proof -
  let ?pkt = "chatbox_packet (sent_text t1) si1 nt1" and ?pkt2 = "chatbox_packet (sent_text t2) si2 nt2"
  let ?pre = "len32_bytes (length ?pkt2) @ osc_string chatbox_input @ osc_string (chatbox_typetag si2 nt2)"
  have w1: "ok1" "identified p1" "pub_pipe_open p1" "wire p1 = kSourceId @ len32_bytes (length ?pkt) @ ?pkt"
    using PublishChatbox_wire [OF assms(4), of E1' t1 si1 nt1 p] assms(6,7) by (auto simp: Let_def)
  have w2: "ok2" "wire p2 = kSourceId @ len32_bytes (length ?pkt) @ ?pkt @ ?pre @ osc_string (sent_text t2)"
    using PublishChatbox_wire [OF assms(5), of E2' t2 si2 nt2 p1] assms(8) w1
    by (auto simp: Let_def chatbox_packet_def [of "sent_text t2"] osc_message_def)
  have "length ?pre = 28" by (simp add: length_heads len32_bytes_def)
  from read_frame_text [OF assms(9) _ this] have "read_frame (buffered_reads (?pre @ osc_string (sent_text t2))) = None"
    by (simp add: sent_text_def nul_free_c_str)
  from pub_client_last [OF first_frame(1) assms(1,2) _ this] assms(3) show ?thesis
    unfolding w2(2) first_frame(2) using w1(1) w2(1) by (simp add: kSendQueueCapacity_def)
qed

theorem second_caption_lost_witness:
  "\<exists>p1 p2. PublishChatbox (ok_env, ok_env) ''first words'' True False RouterPublisher_new = (p1, True)
     \<and> PublishChatbox (ok_env, ok_env) ''then more'' True False p1 = (p2, True)
     \<and> q_contents (pub_client (buffered_reads (wire p2)) (OscRouter_new demo_segment))
         = [chatbox_packet (sent_text ''first words'') True False]"
proof -
  obtain p1 ok1 where p1: "PublishChatbox (ok_env, ok_env) ''first words'' True False RouterPublisher_new = (p1, ok1)" by fastforce
  obtain p2 ok2 where p2: "PublishChatbox (ok_env, ok_env) ''then more'' True False p1 = (p2, ok2)" by fastforce
  have "8 \<le> length (sent_text ''then more'')" by (simp add: sent_text_def TruncateToVrchatLimit_def kLimit_def c_str_def)
  from second_caption_lost [OF demo_router_inv(1) fresh(1) _ ok_env_ok ok_env_ok fresh(2) p1 p2 this] p1 p2 show ?thesis
    by (simp add: demo_router_inv(2))
qed

text \<open>
  The pacer sends at most one caption per minimum gap, in the order they were pushed and each at
  most once; what waits is always the newest captions pushed, at most eight of them.
\<close>

theorem pacer_rate_and_order:
  assumes "pacer_run as (ChatboxPacer_new gap) = (out, q)"
  shows "spaced gap (map fst out) \<and> length (pacer_queue q) \<le> 8
    \<and> (\<exists>old. pushed as = old @ pacer_queue q \<and> subseq (map snd out) old)"
  using pacer_run_spaced [OF assms] pacer_run_order [OF assms]
  by (auto simp: ChatboxPacer_new_def kQueueCap_def)

definition entry :: "string \<Rightarrow> PacerEntry" where
  "entry t = \<lparr>pe_text = t, pe_send_immediate = True, pe_notify = True\<rparr>"

theorem pacer_rate_and_order_witness:
  "\<exists>q. pacer_run [PushEntry (entry ''a''), PushEntry (entry ''b''), PopEntry 5] (ChatboxPacer_new (lit (12 / 10))) = ([(5, entry ''a'')], q)
     \<and> length (pacer_queue q) \<le> 8"
proof -
  obtain q where "pacer_run [PushEntry (entry ''a''), PushEntry (entry ''b''), PopEntry 5] (ChatboxPacer_new (lit (12 / 10))) = ([(5, entry ''a'')], q)"
    by (simp add: Enqueue_def Dequeue_def ChatboxPacer_new_def kQueueCap_def)
  with pacer_rate_and_order [OF this] show ?thesis by blast
qed

text \<open>
  In push-to-talk mode the recogniser is given exactly the utterances of at least 1600 samples:
  each the audio of the frames during which the key was held, complete, once, and in order.
\<close>

theorem ptt_utterances_exact:
  assumes "hc_mode cfg \<noteq> 1"
  shows "transcribed (fold (\<lambda>(held, f). audio_step L cfg held f) xs host_loop_new) =
    filter (\<lambda>b. 1600 \<le> length b) (utterances None xs)"
  using ptt_run [OF assms, of L xs host_loop_new]
  by (simp add: host_loop_new_def under_way_def kMinSamples_def)

definition no_libs :: speech_libs where
  "no_libs = \<lparr>vad_loaded = False, Transcribe = (\<lambda>_. ([], [])), Translate = None\<rparr>"

theorem ptt_utterances_exact_witness:
  "transcribed (fold (\<lambda>(held, f). audio_step no_libs HostConfig_new held f)
     [(True, replicate 1600 0, 0), (True, replicate 10 0, 0), (False, [], 0)] host_loop_new) = [replicate 1610 0]"
  using ptt_utterances_exact [of HostConfig_new no_libs "[(True, replicate 1600 0, 0), (True, replicate 10 0, 0), (False, [], 0)]"]
  by (simp add: HostConfig_new_def replicate_add [symmetric])

end
