(* ===== verification/HostCommands.thy ===== *)
theory HostCommands
  imports HostSupervisor CaptionsHost
begin

text \<open>
  What the driver sends to its host processes over their control pipes. The two subclasses of the
  supervisor (\<open>modules/captions/src/driver/HostSupervisor.cpp\<close>,
  \<open>modules/facetracking/src/driver/HostSupervisor.cpp\<close>) keep one pending message each and retry it
  from the monitor's hooks; the messages are the captions configuration line and the CBOR
  \<open>SelectModule\<close> map. \<open>CaptionsDriverModule.cpp\<close> turns requests into them.

  A sender reads the pending message under the mutex, writes it to the pipe outside the mutex, and
  takes the mutex again to note that it was sent; two threads (the request handler and the monitor)
  can be inside such a sender at once.
\<close>

section \<open>The pending message\<close>

record pending_message =
  pending :: string
  has_pending :: bool
  msg_sent :: bool

definition no_pending :: pending_message where
  "no_pending = \<lparr>pending = [], has_pending = False, msg_sent = False\<rparr>"

text \<open>\<open>SetHostConfigCommand\<close> and \<open>SetActiveModuleUuid\<close> up to their send, with the message to send.\<close>

definition SetHostConfigCommand :: "string \<Rightarrow> pending_message \<Rightarrow> pending_message \<times> string option" where
  "SetHostConfigCommand m c = (c\<lparr>pending := m, has_pending := (m \<noteq> []), msg_sent := False\<rparr>,
     if m \<noteq> [] then Some m else None)"

definition SetActiveModuleUuid :: "string \<Rightarrow> pending_message \<Rightarrow> pending_message \<times> string option" where
  "SetActiveModuleUuid m c = (c\<lparr>pending := m, has_pending := True, msg_sent := False\<rparr>, Some m)"

definition OnHostReady :: "pending_message \<Rightarrow> string option" where
  "OnHostReady c = (if has_pending c \<and> \<not> msg_sent c then Some (pending c) else None)"

definition OnHostExited :: "pending_message \<Rightarrow> pending_message" where
  "OnHostExited c = (if has_pending c then c\<lparr>msg_sent := False\<rparr> else c)"

text \<open>What \<open>TrySendCommand\<close> and \<open>TrySendUuid\<close> do after a write that succeeded.\<close>

definition TrySendCommand_done :: "string \<Rightarrow> pending_message \<Rightarrow> pending_message" where
  "TrySendCommand_done m c = (if pending c = m then c\<lparr>msg_sent := True\<rparr> else c)"

definition TrySendUuid_done :: "string \<Rightarrow> pending_message \<Rightarrow> pending_message" where
  "TrySendUuid_done m c = c\<lparr>msg_sent := True\<rparr>"

section \<open>Senders that overlap\<close>

text \<open>\<open>writing\<close>: senders that have read their message; \<open>written\<close>: senders whose write succeeded and
  which have not yet taken the mutex; \<open>delivered\<close>: what the pipe has taken, in order.\<close>

record channel_sys =
  chan :: pending_message
  writing :: "string list"
  written :: "string list"
  delivered :: "string list"

definition channel_new :: channel_sys where
  "channel_new = \<lparr>chan = no_pending, writing = [], written = [], delivered = []\<rparr>"

definition begin_send :: "string option \<Rightarrow> channel_sys \<Rightarrow> channel_sys" where
  "begin_send m s = (case m of None \<Rightarrow> s | Some x \<Rightarrow> s\<lparr>writing := writing s @ [x]\<rparr>)"

definition remove_nth :: "nat \<Rightarrow> 'a list \<Rightarrow> 'a list" where
  "remove_nth i xs = take i xs @ drop (Suc i) xs"

datatype channel_action = ChSet string | ChReady | ChExited | ChWrite nat bool | ChDone nat

fun channel_step :: "(string \<Rightarrow> pending_message \<Rightarrow> pending_message \<times> string option)
    \<Rightarrow> (string \<Rightarrow> pending_message \<Rightarrow> pending_message) \<Rightarrow> channel_action \<Rightarrow> channel_sys \<Rightarrow> channel_sys" where
  "channel_step put mark_sent (ChSet m) s = (case put m (chan s) of (c, out) \<Rightarrow> begin_send out (s\<lparr>chan := c\<rparr>))"
| "channel_step put mark_sent ChReady s = begin_send (OnHostReady (chan s)) s"
| "channel_step put mark_sent ChExited s = s\<lparr>chan := OnHostExited (chan s)\<rparr>"
| "channel_step put mark_sent (ChWrite i ok) s = (if i < length (writing s)
     then let m = writing s ! i; s' = s\<lparr>writing := remove_nth i (writing s)\<rparr>
          in if ok then s'\<lparr>written := written s @ [m], delivered := delivered s @ [m]\<rparr> else s'
     else s)"
| "channel_step put mark_sent (ChDone i) s = (if i < length (written s)
     then s\<lparr>written := remove_nth i (written s), chan := mark_sent (written s ! i) (chan s)\<rparr> else s)"

inductive channel_reach :: "(string \<Rightarrow> pending_message \<Rightarrow> pending_message \<times> string option)
    \<Rightarrow> (string \<Rightarrow> pending_message \<Rightarrow> pending_message) \<Rightarrow> channel_sys \<Rightarrow> bool" for put mark_sent where
  channel_init: "channel_reach put mark_sent channel_new"
| channel_next: "channel_reach put mark_sent s \<Longrightarrow> channel_reach put mark_sent (channel_step put mark_sent a s)"

lemma channel_reach_fold:
  "channel_reach put mark_sent s \<Longrightarrow> channel_reach put mark_sent (fold (channel_step put mark_sent) as s)"
  by (induction as arbitrary: s) (simp_all add: channel_next)

lemma set_remove_nth: "set (remove_nth i xs) \<subseteq> set xs"
  using set_take_subset [of i xs] set_drop_subset [of "Suc i" xs] by (auto simp: remove_nth_def)

definition delivered_inv :: "channel_sys \<Rightarrow> bool" where
  "delivered_inv s \<longleftrightarrow> (msg_sent (chan s) \<longrightarrow> pending (chan s) \<in> set (delivered s))
     \<and> set (written s) \<subseteq> set (delivered s)"

lemma begin_send_keeps: "delivered_inv (begin_send m s) = delivered_inv s"
  by (simp add: delivered_inv_def begin_send_def split: option.split)

text \<open>The contract under which a message noted as sent has been sent.\<close>

locale message_channel =
  fixes put :: "string \<Rightarrow> pending_message \<Rightarrow> pending_message \<times> string option"
    and mark_sent :: "string \<Rightarrow> pending_message \<Rightarrow> pending_message"
  assumes put_unsent: "\<not> msg_sent (fst (put m c))"
    and mark_pending: "pending (mark_sent m c) = pending c"
    and mark_own: "msg_sent (mark_sent m c) \<Longrightarrow> msg_sent c \<or> pending c = m"
begin

lemma delivered_inv_step: "delivered_inv s \<Longrightarrow> delivered_inv (channel_step put mark_sent a s)"
proof (induction a)
  case (ChSet m)
  obtain c out where p: "put m (chan s) = (c, out)" by fastforce
  then have "\<not> msg_sent c" using put_unsent [of m "chan s"] by simp
  with ChSet show ?case by (simp add: p begin_send_keeps) (simp add: delivered_inv_def)
next
  case (ChDone i)
  then show ?case using mark_own [of "written s ! i" "chan s"] mark_pending [of "written s ! i" "chan s"]
      set_remove_nth [of i "written s"] by (auto simp: delivered_inv_def)
qed (auto simp: begin_send_keeps, auto simp: delivered_inv_def OnHostExited_def Let_def)

lemma reach_delivered: "channel_reach put mark_sent s \<Longrightarrow> delivered_inv s"
  by (induction rule: channel_reach.induct)
    (simp_all add: delivered_inv_step del: channel_step.simps, simp add: delivered_inv_def channel_new_def no_pending_def)

end

interpretation captions_channel: message_channel SetHostConfigCommand TrySendCommand_done
  by unfold_locales (auto simp: SetHostConfigCommand_def TrySendCommand_done_def split: if_splits)

section \<open>Captions messages\<close>

definition BuildHostConfigCommand :: "CaptionsConfig \<Rightarrow> string" where
  "BuildHostConfigCommand c = ''config:'' @
     ''src='' @ cc_source_lang c @
     '',tgt='' @ cc_target_lang c @
     '',mode='' @ dec_digits (unat (cc_mode c)) @
     '',addr='' @ cc_chatbox_address c @
     '',port='' @ dec_digits (unat (cc_chatbox_port c)) @
     '',log='' @ dec_digits (unat (cc_transcript_logging c)) @
     [CHR 0x0A]"

definition DescribeExitCode :: "u32 \<Rightarrow> string" where
  "DescribeExitCode code =
     (if code = 0xC0000135 then ''STATUS_DLL_NOT_FOUND -- a hard-import DLL is missing; ''
          @ ''check openvr_api.dll and VC runtime staging beside '' @ ''WKOpenVR.CaptionsHost.exe''
      else if code = 0xC0000005 then ''STATUS_ACCESS_VIOLATION -- crash inside native lib; ''
          @ ''see captions_host_crash_<pid>.txt in '' @ ''%LocalAppDataLow%'' @ [CHR 0x5C] @ ''WKOpenVR'' @ [CHR 0x5C] @ ''Logs''
      else if code = 0xC000007B then ''STATUS_INVALID_IMAGE_FORMAT -- 32/64-bit mismatch''
      else if code = 0xC0000142 then ''STATUS_DLL_INIT_FAILED -- DLL DllMain returned FALSE; a ''
          @ ''required dependency of a loaded DLL is itself missing''
      else if code AND 0xFFFFFF00 = 0xCEE0DC00 then
        (if code AND 0xFF = 126 then ''delay-load failed: ERROR_MOD_NOT_FOUND (126) -- ''
            @ ''optional captions runtime DLL missing; install the '' @ ''relevant Captions pack; see captions_host_crash_<pid>.txt ''
            @ ''for the exact DLL name''
         else ''delay-load failed -- optional captions runtime DLL missing; '' @ ''see captions_host_crash_<pid>.txt for details'')
      else if code = 3 then ''clean singleton exit (another host already running)''
      else if code = 4 then ''clean pipe-busy exit (another host owns the control pipe)''
      else if code = 0 then ''normal exit (code 0)''
      else ''unknown'')"

record CaptionsModule =
  cm_config :: CaptionsConfig
  cm_supervisor :: sup_sys
  cm_channel :: channel_sys

definition restart_supervisor :: "win32 \<Rightarrow> sup_sys \<Rightarrow> sup_sys" where
  "restart_supervisor E s = (client_step E ^^ 5) (call_entry CallRestart s)"

definition send_config :: "CaptionsModule \<Rightarrow> CaptionsModule" where
  "send_config m = m\<lparr>cm_channel :=
     channel_step SetHostConfigCommand TrySendCommand_done (ChSet (BuildHostConfigCommand (cm_config m))) (cm_channel m)\<rparr>"

text \<open>\<open>Restart\<close> with the hooks it calls; a send begun in a hook or by \<open>send_config\<close> is left in
  \<open>writing\<close> for the steps of the channel.\<close>

fun hook_action :: "hook \<Rightarrow> channel_action" where
  "hook_action HostReady = ChReady"
| "hook_action HostExited = ChExited"

definition restart_host :: "win32 \<Rightarrow> CaptionsModule \<Rightarrow> CaptionsModule" where
  "restart_host E m = (let s = restart_supervisor E (cm_supervisor m);
       called = drop (length (hook_calls (cm_supervisor m))) (hook_calls s)
     in m\<lparr>cm_supervisor := s,
          cm_channel := fold (channel_step SetHostConfigCommand TrySendCommand_done) (map hook_action called) (cm_channel m)\<rparr>)"

definition supervisor_status :: "supervisor \<Rightarrow> CaptionsSupervisorStatus" where
  "supervisor_status b = \<lparr>css_host_halted = (if halted b then 1 else 0),
     css_last_exit_code = last_exit_code b, css_last_exit_description = take 127 (c_str (last_exit_description b))\<rparr>"

definition captions_HandleRequest :: "win32 \<Rightarrow> Request \<Rightarrow> CaptionsModule \<Rightarrow> (CaptionsModule \<times> Response) option" where
  "captions_HandleRequest E r m = (case r of
       RequestSetCaptionsConfig c \<Rightarrow> Some (send_config (m\<lparr>cm_config := c\<rparr>), ResponseSuccess)
     | RequestCaptionsRestartHost \<Rightarrow>
         Some (send_config (restart_host E m), ResponseSuccess)
     | RequestCaptionsGetSupervisorStatus \<Rightarrow>
         Some (m, ResponseCaptionsSupervisorStatus (supervisor_status (svr (cm_supervisor m))))
     | _ \<Rightarrow> None)"

section \<open>Face-tracking messages\<close>

definition CborAppendTextString :: "byte list \<Rightarrow> string \<Rightarrow> byte list" where
  "CborAppendTextString out s = (if length s < 24 then out @ [0x60 OR of_nat (length s)]
     else out @ [0x78, of_nat (length s)]) @ bytes_of_str s"

definition select_module_body :: "string \<Rightarrow> byte list" where
  "select_module_body uuid = CborAppendTextString (CborAppendTextString (CborAppendTextString
     (CborAppendTextString [0xA2] ''type'') ''SelectModule'') ''uuid'') uuid"

definition EncodeSelectModule :: "string \<Rightarrow> byte list" where
  "EncodeSelectModule uuid = (let body = select_module_body uuid in len32_bytes (length body) @ body)"

definition QuoteArg :: "string \<Rightarrow> string" where
  "QuoteArg v = [CHR 0x22] @ concat (map (\<lambda>ch. if ch = CHR 0x22 then [CHR 0x5C, CHR 0x22] else [ch]) v) @ [CHR 0x22]"

definition AppendPathArg :: "string \<Rightarrow> string \<Rightarrow> string \<Rightarrow> string" where
  "AppendPathArg commandLine name val = (if val = [] then commandLine
     else commandLine @ '' '' @ name @ '' '' @ QuoteArg val)"

text \<open>\<open>faceDir\<close> and \<open>logPath\<close> stand for the answers of the path helpers.\<close>

definition BuildCommandLine :: "bool \<Rightarrow> string \<Rightarrow> string \<Rightarrow> string \<Rightarrow> string" where
  "BuildCommandLine debugLogging faceDir logPath commandLine =
     (let sub = (\<lambda>f. if faceDir = [] then [] else faceDir @ [CHR 0x5C] @ f);
          c0 = (if debugLogging then commandLine @ '' --debug-logging 1'' else commandLine);
          c1 = AppendPathArg c0 ''--status-file'' (sub ''host_status.json'');
          c2 = AppendPathArg c1 ''--modules-dir'' (sub ''modules'')
      in if debugLogging then AppendPathArg c2 ''--log-file'' logPath else c2)"

section \<open>Numbers and fields of the configuration line\<close>

lemma dec_digits_digits: "list_all is_digit (dec_digits n) \<and> dec_digits n \<noteq> []"
proof (induction n rule: dec_digits.induct)
  case (1 n)
  have "is_digit (char_of (48 + k))" if "k < 10" for k :: nat using that by (simp add: is_digit_def)
  with 1 show ?case by (subst (1 2) dec_digits.simps) auto
qed

lemma digits_value_dec_digits: "digits_value (dec_digits n) = int n"
proof (induction n rule: dec_digits.induct)
  case (1 n)
  have d: "int (of_char (char_of (48 + k) :: char)) - 48 = int k" if "k < 10" for k :: nat using that by simp
  show ?case
  proof (cases "n < 10")
    case True
    then show ?thesis using d [of n] by (simp add: dec_digits.simps [of n] digits_value_def)
  next
    case False
    then have "digits_value (dec_digits n) = 10 * int (n div 10) + int (n mod 10)"
      using 1 d [of "n mod 10"] by (simp add: dec_digits.simps [of n] digits_value_def)
    moreover have "int n = 10 * int (n div 10) + int (n mod 10)"
      by (metis mult_div_mod_eq of_nat_add of_nat_mult of_nat_numeral)
    ultimately show ?thesis by presburger
  qed
qed

lemma is_digit_simps: "is_digit c \<Longrightarrow> \<not> is_space c \<and> c \<noteq> CHR ''-'' \<and> c \<noteq> CHR ''+'' \<and> c \<noteq> CHR '',''
    \<and> c \<noteq> CHR 0x0A \<and> c \<noteq> CHR 0x0D"
  by (auto simp: is_digit_def is_space_def)

lemma stoi_dec_digits: "n < 2 ^ 31 \<Longrightarrow> stoi (dec_digits n) = Inr (int n)"
proof -
  assume n: "n < 2 ^ 31"
  obtain c ds where cd: "dec_digits n = c # ds" using dec_digits_digits [of n] by (cases "dec_digits n") auto
  with dec_digits_digits [of n] have c: "is_digit c" and ds: "list_all is_digit ds" by auto
  have tw: "takeWhile is_digit ds = ds" using ds by (simp add: list_all_iff)
  from c cd is_digit_simps [OF c] digits_value_dec_digits [of n] n show ?thesis
    by (simp add: stoi_def Let_def tw)
qed

lemma no_comma_dec_digits: "CHR '','' \<notin> set (dec_digits n)"
  using dec_digits_digits [of n] is_digit_simps by (auto simp: list_all_iff)

lemma strip_eol_dec_digits: "strip_eol (dec_digits n) = dec_digits n" "strip_eol (dec_digits n @ [CHR 0x0A]) = dec_digits n"
proof -
  have "is_digit (last (dec_digits n))" using dec_digits_digits [of n] by (simp add: list_all_iff)
  then have "hd (rev (dec_digits n)) \<noteq> CHR 0x0A \<and> hd (rev (dec_digits n)) \<noteq> CHR 0x0D"
    using is_digit_simps by (simp add: hd_rev)
  then have "dropWhile (\<lambda>c. c = CHR 0x0A \<or> c = CHR 0x0D) (rev (dec_digits n)) = rev (dec_digits n)"
    by (cases "rev (dec_digits n)") auto
  then show "strip_eol (dec_digits n) = dec_digits n" "strip_eol (dec_digits n @ [CHR 0x0A]) = dec_digits n"
    by (simp_all add: strip_eol_def)
qed

lemma take_drop_sep: "x \<notin> set k \<Longrightarrow> takeWhile (\<lambda>c. c \<noteq> x) (k @ x # r) = k"
  "x \<notin> set k \<Longrightarrow> dropWhile (\<lambda>c. c \<noteq> x) (k @ x # r) = x # r"
  by (induction k) auto

lemma config_loop_field:
  assumes "CHR ''='' \<notin> set k" "CHR '','' \<notin> set v"
  shows "config_loop (k @ CHR ''='' # v @ CHR '','' # rest) c =
    (case set_config_key k (strip_eol v) c of Inl e \<Rightarrow> Inl e | Inr c' \<Rightarrow> config_loop rest c')"
  by (subst config_loop.simps) (simp add: Let_def take_drop_sep assms split: sum.split)

lemma config_loop_last:
  assumes "CHR ''='' \<notin> set k" "CHR '','' \<notin> set v"
  shows "config_loop (k @ CHR ''='' # v) c = set_config_key k (strip_eol v) c"
proof -
  have tw: "takeWhile (\<lambda>c. c \<noteq> CHR '','') v = v" using assms(2) by (auto simp: takeWhile_eq_all_conv)
  show ?thesis by (subst config_loop.simps) (simp add: Let_def take_drop_sep assms tw split: sum.split)
qed

definition plain_value :: "string \<Rightarrow> bool" where
  "plain_value v \<longleftrightarrow> CHR '','' \<notin> set v \<and> (v \<noteq> [] \<longrightarrow> last v \<noteq> CHR 0x0A \<and> last v \<noteq> CHR 0x0D)"

lemma strip_eol_plain: "plain_value v \<Longrightarrow> strip_eol v = v"
  by (cases v rule: rev_cases) (auto simp: plain_value_def strip_eol_def)

lemma dec_digits_0_iff: "dec_digits n = ''0'' \<longleftrightarrow> n = 0"
proof
  assume "dec_digits n = ''0''"
  then have "int n = digits_value ''0''" using digits_value_dec_digits [of n] by simp
  then show "n = 0" by (simp add: digits_value_def)
next
  have "char_of (48::nat) = CHR ''0''" using char_of_char [of "CHR ''0''"] by simp
  then show "n = 0 \<Longrightarrow> dec_digits n = ''0''" by (simp add: dec_digits.simps)
qed

section \<open>Reading CBOR\<close>

text \<open>The part of RFC 8949 that the host's reader needs: text strings (major type 3) with an
  immediate or a one-byte length, and a map of two text pairs.\<close>

definition cbor_text :: "byte list \<Rightarrow> (string \<times> byte list) option" where
  "cbor_text bs = (case bs of [] \<Rightarrow> None
     | b # r \<Rightarrow>
        if 0x60 \<le> b \<and> b < 0x78 \<and> unat (b - 0x60) \<le> length r
          then Some (map char_of_byte (take (unat (b - 0x60)) r), drop (unat (b - 0x60)) r)
        else if b = 0x78 then (case r of [] \<Rightarrow> None | n # r' \<Rightarrow>
          if unat n \<le> length r' then Some (map char_of_byte (take (unat n) r'), drop (unat n) r') else None)
        else None)"

fun cbor_texts :: "nat \<Rightarrow> byte list \<Rightarrow> (string list \<times> byte list) option" where
  "cbor_texts 0 bs = Some ([], bs)"
| "cbor_texts (Suc n) bs = (case cbor_text bs of None \<Rightarrow> None
     | Some (t, r) \<Rightarrow> (case cbor_texts n r of None \<Rightarrow> None | Some (ts, r') \<Rightarrow> Some (t # ts, r')))"

definition cbor_pair_map :: "byte list \<Rightarrow> (string list \<times> byte list) option" where
  "cbor_pair_map bs = (case bs of b # r \<Rightarrow> if b = 0xA2 then cbor_texts 4 r else None | [] \<Rightarrow> None)"

lemma map_char_bytes: "map char_of_byte (bytes_of_str s) = s"
  by (simp add: bytes_of_str_def o_def)

lemma or_0x60: "n < 24 \<Longrightarrow> (0x60 OR of_nat n :: byte) = of_nat (96 + n)"
proof -
  assume "n < 24"
  then have "n \<in> set [0..<24]" by simp
  then show ?thesis by (simp add: upt_rec) (elim disjE; simp)
qed

lemma cbor_text_append:
  assumes "length s < 256"
  shows "cbor_text (CborAppendTextString [] s @ rest) = Some (s, rest)"
proof (cases "length s < 24")
  case True
  let ?b = "of_nat (96 + length s) :: byte"
  have u: "unat ?b = 96 + length s" using True by (simp add: unat_of_nat take_bit_nat_eq_self_iff del: of_nat_add)
  then have "0x60 \<le> ?b" "?b < 0x78" "unat (?b - 0x60) = length s"
    using True by (simp_all add: word_le_nat_alt word_less_nat_alt unat_sub del: of_nat_add)
  with True show ?thesis
    by (simp add: CborAppendTextString_def cbor_text_def or_0x60 map_char_bytes del: of_nat_add)
next
  case False
  have "unat (of_nat (length s) :: byte) = length s"
    using assms by (simp add: unat_of_nat take_bit_nat_eq_self_iff)
  with False show ?thesis by (simp add: CborAppendTextString_def cbor_text_def map_char_bytes)
qed

lemma CborAppend_eq: "CborAppendTextString out s = out @ CborAppendTextString [] s"
  by (simp add: CborAppendTextString_def)

lemma select_module_body_eq: "select_module_body uuid = 0xA2 # CborAppendTextString [] ''type''
    @ CborAppendTextString [] ''SelectModule'' @ CborAppendTextString [] ''uuid'' @ CborAppendTextString [] uuid @ []"
  unfolding select_module_body_def
  by (subst CborAppend_eq, subst (2) CborAppend_eq, subst (3) CborAppend_eq, subst (4) CborAppend_eq) simp

section \<open>Properties\<close>

text \<open>
  The captions configuration arrives. For values without a comma that do not end in a line
  break, the line the driver builds sets exactly the languages, mode, address, port and logging of
  the configuration in the host, whatever the host's configuration was, and parsing it never throws.
\<close>

theorem captions_config_roundtrip:
  assumes "plain_value (cc_source_lang c)" "plain_value (cc_target_lang c)" "plain_value (cc_chatbox_address c)"
  shows "DispatchControlMessage (BuildHostConfigCommand c) h = Inr (h\<lparr>hc_source_lang := cc_source_lang c,
      hc_target_lang := cc_target_lang c, hc_mode := int (unat (cc_mode c)),
      hc_chatbox_address := cc_chatbox_address c, hc_chatbox_port := cc_chatbox_port c,
      hc_transcript_logging := (cc_transcript_logging c \<noteq> 0)\<rparr>)"
proof -
  have "unat (cc_mode c) < 256" using unsigned_less [of "cc_mode c"] by simp
  then have m: "unat (cc_mode c) < 2 ^ 31" by simp
  have "unat (cc_chatbox_port c) < 65536" using unsigned_less [of "cc_chatbox_port c"] by simp
  then have p: "unat (cc_chatbox_port c) < 2 ^ 31" by simp
  have l: "dec_digits (unat (cc_transcript_logging c)) = ''0'' \<longleftrightarrow> cc_transcript_logging c = 0"
    by (simp add: dec_digits_0_iff unat_eq_0)
  have body: "drop 7 (BuildHostConfigCommand c) = ''src'' @ CHR ''='' # cc_source_lang c @ CHR '','' #
     ''tgt'' @ CHR ''='' # cc_target_lang c @ CHR '','' # ''mode'' @ CHR ''='' # dec_digits (unat (cc_mode c)) @ CHR '','' #
     ''addr'' @ CHR ''='' # cc_chatbox_address c @ CHR '','' # ''port'' @ CHR ''='' # dec_digits (unat (cc_chatbox_port c)) @ CHR '','' #
     ''log'' @ CHR ''='' # (dec_digits (unat (cc_transcript_logging c)) @ [CHR 0x0A])"
    by (simp add: BuildHostConfigCommand_def)
  have nc: "CHR '','' \<notin> set (cc_source_lang c)" "CHR '','' \<notin> set (cc_target_lang c)" "CHR '','' \<notin> set (cc_chatbox_address c)"
    using assms by (simp_all add: plain_value_def)
  have "take 7 (BuildHostConfigCommand c) = ''config:''" by (simp add: BuildHostConfigCommand_def)
  then have "DispatchControlMessage (BuildHostConfigCommand c) h = config_loop (drop 7 (BuildHostConfigCommand c)) h"
    by (simp add: DispatchControlMessage_def)
  also have "\<dots> = Inr (h\<lparr>hc_source_lang := cc_source_lang c,
      hc_target_lang := cc_target_lang c, hc_mode := int (unat (cc_mode c)),
      hc_chatbox_address := cc_chatbox_address c, hc_chatbox_port := cc_chatbox_port c,
      hc_transcript_logging := (cc_transcript_logging c \<noteq> 0)\<rparr>)"
    unfolding body
    by (simp add: config_loop_field config_loop_last nc no_comma_dec_digits strip_eol_dec_digits strip_eol_plain assms
        set_config_key_def stoi_dec_digits [OF m] stoi_dec_digits [OF p] l del: append.simps)
  finally show ?thesis .
qed

definition demo_captions :: CaptionsConfig where
  "demo_captions = \<lparr>cc_master_enabled = 1, cc_mode = 1, cc_notify_sound = 0, cc_transcript_logging = 1,
     cc_chatbox_port = 9000, cc_source_lang = ''auto'', cc_target_lang = ''de'', cc_chatbox_address = ''/chatbox/input''\<rparr>"

theorem captions_config_roundtrip_witness:
  "\<exists>h. DispatchControlMessage (BuildHostConfigCommand demo_captions) HostConfig_new = Inr h
     \<and> hc_target_lang h = ''de'' \<and> hc_mode h = 1 \<and> hc_transcript_logging h"
  using captions_config_roundtrip [of demo_captions HostConfig_new] by (simp add: demo_captions_def plain_value_def)

text \<open>
  A captions configuration that is noted as sent has been written to the pipe, in every
  interleaving of the request handler, the monitor's hooks and their senders, failed writes
  included; one that is not noted as sent is sent again at the next hook.
\<close>

theorem captions_config_not_lost:
  assumes "channel_reach SetHostConfigCommand TrySendCommand_done s"
  shows "(msg_sent (chan s) \<longrightarrow> pending (chan s) \<in> set (delivered s))
    \<and> (has_pending (chan s) \<longrightarrow> \<not> msg_sent (chan s) \<longrightarrow> OnHostReady (chan s) = Some (pending (chan s)))"
  using captions_channel.reach_delivered [OF assms] by (simp add: delivered_inv_def OnHostReady_def)

theorem captions_config_not_lost_witness:
  "delivered (fold (channel_step SetHostConfigCommand TrySendCommand_done) [ChSet ''a'', ChWrite 0 True, ChDone 0] channel_new) = [''a''] \<and>
   ''a'' \<in> set (delivered (fold (channel_step SetHostConfigCommand TrySendCommand_done) [ChSet ''a'', ChWrite 0 True, ChDone 0] channel_new))"
  using captions_config_not_lost [OF channel_reach_fold [OF channel_init, where as = "[ChSet ''a'', ChWrite 0 True, ChDone 0]"]]
  by (simp add: channel_new_def no_pending_def SetHostConfigCommand_def TrySendCommand_done_def begin_send_def remove_nth_def Let_def)

text \<open>
  The face-tracking supervisor lacks that guarantee: a selection made while the previous one is
  being sent can be noted as sent though its own write failed. Then no send is under way, none is
  started by the hooks, and the host never hears of the selection the driver holds.
\<close>

theorem face_selection_lost:
  "\<exists>s. channel_reach SetActiveModuleUuid TrySendUuid_done s \<and> pending (chan s) = ''new'' \<and> ''new'' \<notin> set (delivered s)
     \<and> writing s = [] \<and> written s = [] \<and> has_pending (chan s) \<and> OnHostReady (chan s) = None"
  by (rule exI [of _ "fold (channel_step SetActiveModuleUuid TrySendUuid_done)
        [ChSet ''old'', ChWrite 0 True, ChSet ''new'', ChWrite 0 False, ChDone 0] channel_new"],
      intro conjI channel_reach_fold channel_init)
     (simp_all add: channel_new_def no_pending_def SetActiveModuleUuid_def TrySendUuid_done_def begin_send_def
      remove_nth_def OnHostReady_def Let_def)

text \<open>
  The \<open>SelectModule\<close> message of a module identifier of at most 255 bytes is a frame whose length
  prefix is the length of its body, and the body is a CBOR map from which a reader gets the
  type \<open>SelectModule\<close> and the identifier back, with nothing left over.
\<close>

theorem select_module_roundtrip:
  assumes "length uuid < 256"
  shows "\<exists>body. EncodeSelectModule uuid = len32_bytes (length body) @ body \<and> le32 (len32_bytes (length body)) = length body
    \<and> cbor_pair_map body = Some ([''type'', ''SelectModule'', ''uuid'', uuid], [])"
proof (intro exI conjI)
  show "EncodeSelectModule uuid = len32_bytes (length (select_module_body uuid)) @ select_module_body uuid"
    by (simp add: EncodeSelectModule_def Let_def)
  have "length (CborAppendTextString [] s) \<le> length s + 2" for s by (simp add: CborAppendTextString_def bytes_of_str_def)
  from this [of "''type''"] this [of "''SelectModule''"] this [of "''uuid''"] this [of uuid]
  have "length (select_module_body uuid) < 2 ^ 16" using assms by (simp add: select_module_body_eq)
  then show "le32 (len32_bytes (length (select_module_body uuid))) = length (select_module_body uuid)"
    by (simp add: len32_bytes_eq le32_le32_bytes)
  have four: "(4::nat) = Suc (Suc (Suc (Suc 0)))" by simp
  show "cbor_pair_map (select_module_body uuid) = Some ([''type'', ''SelectModule'', ''uuid'', uuid], [])"
    unfolding select_module_body_eq cbor_pair_map_def four
    by (simp add: cbor_text_append assms del: append_Nil2)
qed

theorem select_module_roundtrip_witness:
  "\<exists>body. EncodeSelectModule ''0a1b-2c3d'' = len32_bytes (length body) @ body
     \<and> cbor_pair_map body = Some ([''type'', ''SelectModule'', ''uuid'', ''0a1b-2c3d''], [])"
  using select_module_roundtrip [of "''0a1b-2c3d''"] by auto

end
