(* ===== verification/CalibrationDecisions.thy ===== *)
theory CalibrationDecisions
  imports FloatArith
begin

text \<open>
  The decision rules of continuous calibration, which the overlay keeps in headers of their own
  (\<open>modules/calibration/src/overlay\<close>): the state table (\<open>StateTransitions.h\<close>), the stall, watchdog and
  wedge rules (\<open>StallDecisions.h\<close>, \<open>WatchdogDecisions.h\<close>, \<open>WedgeDetector.h\<close>), the geometry-shift
  detector with the block of \<open>CalibrationTick\<close> that drives it (\<open>GeometryShiftDetector.h\<close>,
  \<open>Calibration.cpp\<close>), tracker liveness with the anchor gate of \<open>CalibrationTick\<close>
  (\<open>TrackerLiveness.h\<close>), and Tukey's weight (\<open>RobustScale.h\<close>). Times are seconds as \<open>double\<close>.
\<close>

unbundle bit_operations_syntax

section \<open>State table\<close>

datatype CalibrationState = CalNone | CalBegin | CalRotation | CalTranslation | CalEditing
  | CalContinuous | CalContinuousStandby

fun IsLegalTransition :: "CalibrationState \<Rightarrow> CalibrationState \<Rightarrow> bool" where
  "IsLegalTransition CalNone t \<longleftrightarrow> t \<in> {CalNone, CalBegin, CalContinuous, CalContinuousStandby, CalEditing}"
| "IsLegalTransition CalBegin t \<longleftrightarrow> t \<in> {CalBegin, CalNone, CalRotation, CalContinuous}"
| "IsLegalTransition CalRotation t \<longleftrightarrow> t \<in> {CalRotation, CalNone, CalTranslation}"
| "IsLegalTransition CalTranslation t \<longleftrightarrow> t \<in> {CalTranslation, CalNone}"
| "IsLegalTransition CalEditing t \<longleftrightarrow> t \<in> {CalEditing, CalNone}"
| "IsLegalTransition CalContinuous t \<longleftrightarrow> t \<in> {CalContinuous, CalNone, CalBegin, CalContinuousStandby}"
| "IsLegalTransition CalContinuousStandby t \<longleftrightarrow> t \<in> {CalContinuousStandby, CalNone, CalBegin, CalContinuous}"

section \<open>Stall and watchdog\<close>

definition ShouldDemoteOnHmdStall :: "int \<Rightarrow> int \<Rightarrow> bool" where
  "ShouldDemoteOnHmdStall consecutiveStalls maxStalls = False"

definition kMaxConsecutiveRejections :: int where "kMaxConsecutiveRejections = 50"
definition kHealthyPriorErrorMaxMeters :: double where "kHealthyPriorErrorMaxMeters = lit (5 / 1000)"

definition IsCalibrationHealthy :: "bool \<Rightarrow> double \<Rightarrow> bool" where
  "IsCalibrationHealthy isValid priorError \<longleftrightarrow> isValid \<and> priorError < kHealthyPriorErrorMaxMeters"

definition ShouldClearViaWatchdog :: "bool \<Rightarrow> int \<Rightarrow> double \<Rightarrow> bool" where
  "ShouldClearViaWatchdog isValid rejectionCount priorError \<longleftrightarrow> isValid
     \<and> rejectionCount \<ge> kMaxConsecutiveRejections \<and> \<not> IsCalibrationHealthy isValid priorError"

section \<open>Wedge detector\<close>

definition kMaxPlausibleCalibrationMagnitudeCm :: double where "kMaxPlausibleCalibrationMagnitudeCm = lit 500"
definition kRuntimeWedgeDebounceSec :: double where "kRuntimeWedgeDebounceSec = lit 30"

definition ShouldFireRuntimeWedgeRecovery :: "double \<Rightarrow> double \<Rightarrow> double \<Rightarrow> double \<times> bool" where
  "ShouldFireRuntimeWedgeRecovery magnitudeCm now wedgeSince =
     (if magnitudeCm \<le> kMaxPlausibleCalibrationMagnitudeCm then (- 1, False)
      else if wedgeSince < 0 then (now, False)
      else if now - wedgeSince \<ge> kRuntimeWedgeDebounceSec then (- 1, True)
      else (wedgeSince, False))"

section \<open>Geometry shift\<close>

definition kSpikeRatio :: double where "kSpikeRatio = lit 5"
definition kMedianFloor :: double where "kMedianFloor = lit (1 / 10 ^ 9)"
definition kMinSustainedSpikes :: int where "kMinSustainedSpikes = 3"

definition IsCurrentErrorSpike :: "double \<Rightarrow> double \<Rightarrow> bool" where
  "IsCurrentErrorSpike currentError rollingMedian \<longleftrightarrow>
     rollingMedian > kMedianFloor \<and> currentError > kSpikeRatio * rollingMedian"

definition ShouldFireGeometryShiftRecovery :: "int \<Rightarrow> bool" where
  "ShouldFireGeometryShiftRecovery sustainedSpikes \<longleftrightarrow> sustainedSpikes \<ge> kMinSustainedSpikes"

definition kCusumDriftMm :: double where "kCusumDriftMm = lit (1 / 2)"
definition kCusumThreshold :: double where "kCusumThreshold = lit 5"

definition UpdateCusumGeometryShift :: "double \<Rightarrow> double \<Rightarrow> double \<Rightarrow> double \<times> bool" where
  "UpdateCusumGeometryShift S currentErrorMm baselineMm =
     (let increment = (currentErrorMm - baselineMm) - kCusumDriftMm;
          S1 = S + increment; S2 = (if S1 < 0 then 0 else S1)
      in if S2 > kCusumThreshold then (0, True) else (S2, False))"

text \<open>The watchdog block of \<open>CalibrationTick\<close>. The series is a list of (time, error in mm), newest
  last; \<open>std::sort\<close> orders by \<open><\<close>.\<close>

fun insert_fp :: "double \<Rightarrow> double list \<Rightarrow> double list" where
  "insert_fp x [] = [x]"
| "insert_fp x (y # ys) = (if y < x then y # insert_fp x ys else x # y # ys)"

definition sort_fp :: "double list \<Rightarrow> double list" where
  "sort_fp xs = foldr insert_fp xs []"

record shift_watch =
  s_consecutiveBadTicks :: int
  s_lastErrorTs :: double
  s_cusum :: double

definition shift_watch_new :: shift_watch where
  "shift_watch_new = \<lparr>s_consecutiveBadTicks = 0, s_lastErrorTs = 0, s_cusum = 0\<rparr>"

definition rolling_median :: "(double \<times> double) list \<Rightarrow> double" where
  "rolling_median series = (let tail = sort_fp (map snd (drop (length series - min 30 (length series)) series))
     in tail ! (length tail div 2))"

definition shift_decision :: "bool \<Rightarrow> double \<Rightarrow> double \<Rightarrow> shift_watch \<Rightarrow> shift_watch \<times> bool" where
  "shift_decision useCusum current median w =
     (if useCusum
      then (case UpdateCusumGeometryShift (s_cusum w) current median of (S, fire) \<Rightarrow>
              (w\<lparr>s_cusum := S, s_consecutiveBadTicks := 0\<rparr>, fire))
      else (let n = (if IsCurrentErrorSpike current median then s_consecutiveBadTicks w + 1 else 0)
            in (w\<lparr>s_consecutiveBadTicks := n, s_cusum := 0\<rparr>, ShouldFireGeometryShiftRecovery n)))"

definition shift_tick :: "bool \<Rightarrow> bool \<Rightarrow> (double \<times> double) list \<Rightarrow> shift_watch \<Rightarrow> shift_watch \<times> bool" where
  "shift_tick isValid useCusum series w =
     (if length series \<ge> 5 \<and> isValid
      then (if fst (last series) > s_lastErrorTs w
            then (case shift_decision useCusum (snd (last series)) (rolling_median series)
                         (w\<lparr>s_lastErrorTs := fst (last series)\<rparr>) of
                    (w', True) \<Rightarrow> (w'\<lparr>s_consecutiveBadTicks := 0, s_cusum := 0\<rparr>, True)
                  | (w', False) \<Rightarrow> (w', False))
            else (w, False))
      else (w\<lparr>s_consecutiveBadTicks := 0, s_cusum := 0\<rparr>, False))"

section \<open>Tracker liveness\<close>

definition kFrozenPoseThresholdSec :: double where "kFrozenPoseThresholdSec = lit 8"
definition kHmdMovedThresholdMps :: double where "kHmdMovedThresholdMps = lit (2 / 100)"
definition kReconnectDebounceSec :: double where "kReconnectDebounceSec = lit 2"

record TrackerLivenessState =
  poseHashSinceSec :: double
  lastPoseHash :: u64
  offlineSinceSec :: double
  reconnectSinceSec :: double
  hmdMovedDuringFreeze :: bool

record TrackerLivenessInputs =
  posHash :: u64
  deviceIsConnected :: bool
  hmdSpeedMps :: double
  lastEmaUpdateSec :: double
  tick_now :: double

definition TrackerLivenessState_new :: TrackerLivenessState where
  "TrackerLivenessState_new = \<lparr>poseHashSinceSec = - 1, lastPoseHash = 0, offlineSinceSec = - 1,
     reconnectSinceSec = - 1, hmdMovedDuringFreeze = False\<rparr>"

definition IsOffline :: "TrackerLivenessState \<Rightarrow> bool" where
  "IsOffline s \<longleftrightarrow> offlineSinceSec s \<ge> 0"

definition go_offline :: "double \<Rightarrow> TrackerLivenessState \<Rightarrow> TrackerLivenessState" where
  "go_offline now s = s\<lparr>offlineSinceSec := now, reconnectSinceSec := - 1\<rparr>"

definition hash_changed :: "TrackerLivenessInputs \<Rightarrow> TrackerLivenessState \<Rightarrow> TrackerLivenessState" where
  "hash_changed i s = (let s1 = s\<lparr>lastPoseHash := posHash i, poseHashSinceSec := tick_now i, hmdMovedDuringFreeze := False\<rparr>
     in if \<not> IsOffline s1 then s1
        else if reconnectSinceSec s1 < 0 then s1\<lparr>reconnectSinceSec := tick_now i\<rparr>
        else if tick_now i - reconnectSinceSec s1 \<ge> kReconnectDebounceSec then TrackerLivenessState_new
        else s1)"

definition hash_unchanged :: "TrackerLivenessInputs \<Rightarrow> TrackerLivenessState \<Rightarrow> TrackerLivenessState \<times> bool" where
  "hash_unchanged i s = (let
       s1 = (if reconnectSinceSec s \<ge> 0 then s\<lparr>reconnectSinceSec := - 1\<rparr> else s);
       s2 = (if hmdSpeedMps i \<ge> kHmdMovedThresholdMps then s1\<lparr>hmdMovedDuringFreeze := True\<rparr> else s1)
     in if IsOffline s2 then (s2, False)
        else if poseHashSinceSec s2 < 0 then (s2\<lparr>poseHashSinceSec := tick_now i\<rparr>, False)
        else if tick_now i - poseHashSinceSec s2 \<ge> kFrozenPoseThresholdSec \<and> hmdMovedDuringFreeze s2
          then (go_offline (tick_now i) s2, True)
        else (s2, False))"

definition TickTrackerLiveness :: "TrackerLivenessInputs \<Rightarrow> TrackerLivenessState \<Rightarrow> TrackerLivenessState \<times> bool" where
  "TickTrackerLiveness i s =
     (if \<not> deviceIsConnected i
      then (if \<not> IsOffline s then (go_offline (tick_now i) s, True) else (s, False))
      else if posHash i \<noteq> lastPoseHash s then (hash_changed i s, False)
      else hash_unchanged i s)"

text \<open>The words are the bit patterns of the three coordinates.\<close>

definition HashPositionLow64 :: "u64 \<Rightarrow> u64 \<Rightarrow> u64 \<Rightarrow> u64" where
  "HashPositionLow64 h0 h1 h2 = h0 XOR (h1 * 0x9E3779B97F4A7C15) XOR (h2 * 0xC2B2AE3D27D4EB4F)"

section \<open>The anchor gate of a continuous tick\<close>

record anchor_gate =
  g_refLiveness :: TrackerLivenessState
  g_tgtLiveness :: TrackerLivenessState
  g_refWasOffline :: bool
  g_tgtWasOffline :: bool

definition anchor_gate_new :: anchor_gate where
  "anchor_gate_new = \<lparr>g_refLiveness = TrackerLivenessState_new, g_tgtLiveness = TrackerLivenessState_new,
     g_refWasOffline = False, g_tgtWasOffline = False\<rparr>"

datatype gate_result = GateSkip | GateRestart | GateCollect

text \<open>\<open>None\<close>: the anchor is unassigned or the HMD, and is not ticked.\<close>

definition tick_one :: "TrackerLivenessInputs option \<Rightarrow> TrackerLivenessState \<Rightarrow> TrackerLivenessState" where
  "tick_one i s = (case i of None \<Rightarrow> s | Some x \<Rightarrow> fst (TickTrackerLiveness x s))"

text \<open>\<open>GateRestart\<close> calls \<open>StartContinuousCalibration\<close>, which resets the gate.\<close>

definition gate_tick :: "TrackerLivenessInputs option \<Rightarrow> TrackerLivenessInputs option \<Rightarrow> anchor_gate \<Rightarrow> anchor_gate \<times> gate_result" where
  "gate_tick refIn tgtIn g =
     (let r = tick_one refIn (g_refLiveness g); t = tick_one tgtIn (g_tgtLiveness g);
          refOff = IsOffline r; tgtOff = IsOffline t;
          refReturned = (g_refWasOffline g \<and> \<not> refOff); tgtReturned = (g_tgtWasOffline g \<and> \<not> tgtOff);
          g' = \<lparr>g_refLiveness = r, g_tgtLiveness = t, g_refWasOffline = refOff, g_tgtWasOffline = tgtOff\<rparr>
      in if refOff \<or> tgtOff then (g', GateSkip)
         else if refReturned \<or> tgtReturned then (anchor_gate_new, GateRestart)
         else (g', GateCollect))"

section \<open>Tukey's weight\<close>

definition TukeyWeight :: "double \<Rightarrow> double \<Rightarrow> double" where
  "TukeyWeight residual c = (if \<not> c > 0 then 0
     else let u = residual / c
          in if \<bar>u\<bar> \<ge> 1 then 0
             else let oneMinusUSq = 1 - u * u in oneMinusUSq * oneMinusUSq)"

section \<open>Liveness over a run\<close>

lemma zero_le_zero [simp]: "0 \<le> (0 :: double)"
  by (simp add: zero_fp_def)

lemma neg_one [simp]: "\<not> 0 \<le> (- 1 :: double)" "(- 1 :: double) < 0"
  by (simp_all add: zero_fp_def one_fp_def)

lemma fp_nonneg_less [simp]: "0 \<le> (a :: double) \<Longrightarrow> \<not> a < 0"
  by (cases a) (auto simp: zero_fp_def)

lemma fp_cases_0: "(a :: double) < 0 \<or> 0 \<le> a \<or> isnan a"
  by (cases a) (auto simp: zero_fp_def)

lemma IsOffline_simps [simp]:
  "IsOffline (s\<lparr>poseHashSinceSec := x\<rparr>) = IsOffline s" "IsOffline (s\<lparr>lastPoseHash := h\<rparr>) = IsOffline s"
  "IsOffline (s\<lparr>reconnectSinceSec := x\<rparr>) = IsOffline s" "IsOffline (s\<lparr>hmdMovedDuringFreeze := b\<rparr>) = IsOffline s"
  "IsOffline (go_offline t s) = (0 \<le> t)" "\<not> IsOffline TrackerLivenessState_new"
  by (simp_all add: IsOffline_def go_offline_def TrackerLivenessState_new_def)

definition liveness_run :: "TrackerLivenessInputs list \<Rightarrow> TrackerLivenessState" where
  "liveness_run is = fold (\<lambda>i s. fst (TickTrackerLiveness i s)) is TrackerLivenessState_new"

text \<open>\<open>j # post\<close> is the time since the pose last changed.\<close>

definition frozen_span :: "u64 \<Rightarrow> TrackerLivenessInputs list \<Rightarrow> bool" where
  "frozen_span h xs \<longleftrightarrow> list_all (\<lambda>x. deviceIsConnected x \<and> posHash x = h) xs"

definition hmd_moved :: "TrackerLivenessInputs list \<Rightarrow> bool" where
  "hmd_moved xs \<longleftrightarrow> list_ex (\<lambda>x. hmdSpeedMps x \<ge> kHmdMovedThresholdMps) xs"

definition freeze_known :: "TrackerLivenessInputs list \<Rightarrow> TrackerLivenessState \<Rightarrow> bool" where
  "freeze_known is s \<longleftrightarrow> IsOffline s
     \<or> poseHashSinceSec s < 0 \<and> \<not> hmdMovedDuringFreeze s
     \<or> (\<exists>pre j post. is = pre @ j # post \<and> poseHashSinceSec s = tick_now j \<and> 0 \<le> tick_now j \<and> frozen_span (lastPoseHash s) (j # post)
          \<and> (hmdMovedDuringFreeze s \<longrightarrow> hmd_moved (j # post)))"

lemma freeze_known_start:
  "poseHashSinceSec s = tick_now i \<Longrightarrow> 0 \<le> tick_now i \<Longrightarrow> deviceIsConnected i \<Longrightarrow> posHash i = lastPoseHash s
    \<Longrightarrow> (hmdMovedDuringFreeze s \<Longrightarrow> hmdSpeedMps i \<ge> kHmdMovedThresholdMps) \<Longrightarrow> freeze_known (is @ [i]) s"
  unfolding freeze_known_def
  by (intro disjI2 exI [of _ "is"] exI [of _ i] exI [of _ "[]"]) (simp add: frozen_span_def hmd_moved_def)

lemma freeze_known_extend:
  assumes "freeze_known is s" "\<not> IsOffline s" "\<not> poseHashSinceSec s < 0"
    and "deviceIsConnected i" "posHash i = lastPoseHash s"
    and "poseHashSinceSec s' = poseHashSinceSec s" "lastPoseHash s' = lastPoseHash s"
    and "hmdMovedDuringFreeze s' \<longrightarrow> hmdMovedDuringFreeze s \<or> hmdSpeedMps i \<ge> kHmdMovedThresholdMps"
  shows "\<exists>pre j post. is @ [i] = pre @ j # post \<and> poseHashSinceSec s' = tick_now j \<and> 0 \<le> tick_now j \<and> frozen_span (posHash i) (j # post)
    \<and> (hmdMovedDuringFreeze s' \<longrightarrow> hmd_moved (j # post))"
proof -
  from assms(1-3) obtain pre j post where "is = pre @ j # post" "poseHashSinceSec s = tick_now j" "0 \<le> tick_now j"
    "frozen_span (lastPoseHash s) (j # post)" "hmdMovedDuringFreeze s \<longrightarrow> hmd_moved (j # post)"
    by (auto simp: freeze_known_def)
  with assms(4-8) show ?thesis
    by (intro exI [of _ pre] exI [of _ j] exI [of _ "post @ [i]"]) (auto simp: frozen_span_def hmd_moved_def)
qed

lemma tick_offline:
  assumes "IsOffline s"
  shows "IsOffline (fst (TickTrackerLiveness i s)) \<or> fst (TickTrackerLiveness i s) = TrackerLivenessState_new"
  using assms by (simp add: TickTrackerLiveness_def hash_changed_def hash_unchanged_def Let_def)

lemma TickTrackerLiveness_known:
  assumes "freeze_known is s" "0 \<le> tick_now i"
  shows "freeze_known (is @ [i]) (fst (TickTrackerLiveness i s))"
proof (cases "deviceIsConnected i \<and> \<not> IsOffline s")
  case False
  then have "IsOffline (fst (TickTrackerLiveness i s)) \<or> fst (TickTrackerLiveness i s) = TrackerLivenessState_new"
    using tick_offline [of s i] assms(2) by (cases "IsOffline s") (auto simp: TickTrackerLiveness_def)
  then show ?thesis by (auto simp: freeze_known_def TrackerLivenessState_new_def)
next
  case True
  show ?thesis
  proof (cases "posHash i = lastPoseHash s")
    case False
    with True have "TickTrackerLiveness i s = (s\<lparr>lastPoseHash := posHash i, poseHashSinceSec := tick_now i, hmdMovedDuringFreeze := False\<rparr>, False)"
      by (simp add: TickTrackerLiveness_def hash_changed_def Let_def)
    with True assms(2) show ?thesis by (auto intro: freeze_known_start)
  next
    case same: True
    let ?s = "fst (TickTrackerLiveness i s)"
    show ?thesis
    proof (cases "poseHashSinceSec s < 0")
      case unset: True
      with assms(1) True have "\<not> hmdMovedDuringFreeze s" by (auto simp: freeze_known_def)
      then show ?thesis using True same unset assms(2)
        by (intro freeze_known_start) (auto simp: TickTrackerLiveness_def hash_unchanged_def Let_def split: if_splits)
    next
      case set: False
      have st: "poseHashSinceSec ?s = poseHashSinceSec s" "lastPoseHash ?s = lastPoseHash s"
        "hmdMovedDuringFreeze ?s \<longrightarrow> hmdMovedDuringFreeze s \<or> hmdSpeedMps i \<ge> kHmdMovedThresholdMps"
        using True same set by (auto simp: TickTrackerLiveness_def hash_unchanged_def go_offline_def Let_def split: if_splits)
      from freeze_known_extend [OF assms(1) _ set _ same st] True same st show ?thesis
        by (simp add: freeze_known_def)
    qed
  qed
qed

lemma liveness_run_known:
  "list_all (\<lambda>x. 0 \<le> tick_now x) is \<Longrightarrow> freeze_known is (liveness_run is)"
proof (induction "is" rule: rev_induct)
  case Nil
  show ?case by (simp add: freeze_known_def liveness_run_def TrackerLivenessState_new_def)
next
  case (snoc i "is")
  then show ?case using TickTrackerLiveness_known [of "is" "liveness_run is" i] by (simp add: liveness_run_def)
qed

lemma tick_edge:
  assumes "0 \<le> tick_now i" "TickTrackerLiveness i s = (s', fired)"
  shows "fired \<longleftrightarrow> \<not> IsOffline s \<and> IsOffline s'"
  using assms by (auto simp: TickTrackerLiveness_def hash_changed_def hash_unchanged_def Let_def split: if_splits)

lemma tick_fires:
  assumes "TickTrackerLiveness i s = (s', True)" "deviceIsConnected i"
  shows "\<not> IsOffline s \<and> \<not> poseHashSinceSec s < 0 \<and> posHash i = lastPoseHash s
    \<and> (hmdMovedDuringFreeze s \<or> hmdSpeedMps i \<ge> kHmdMovedThresholdMps) \<and> hmdMovedDuringFreeze s'
    \<and> poseHashSinceSec s' = poseHashSinceSec s \<and> lastPoseHash s' = lastPoseHash s
    \<and> tick_now i - poseHashSinceSec s \<ge> kFrozenPoseThresholdSec"
  using assms by (auto simp: TickTrackerLiveness_def hash_unchanged_def go_offline_def Let_def split: if_splits)

section \<open>Geometry shift over a run\<close>

lemma set_insert_fp: "set (insert_fp x xs) = insert x (set xs)"
  by (induction xs) auto

lemma set_sort_fp: "set (sort_fp xs) = set xs"
  by (induction xs) (simp_all add: sort_fp_def set_insert_fp)

lemma length_insert_fp: "length (insert_fp x xs) = Suc (length xs)"
  by (induction xs) auto

lemma length_sort_fp: "length (sort_fp xs) = length xs"
  by (induction xs) (simp_all add: sort_fp_def length_insert_fp)

lemma rolling_median_in:
  assumes "series \<noteq> []"
  shows "rolling_median series \<in> snd ` set series"
proof -
  let ?t = "map snd (drop (length series - min 30 (length series)) series)"
  have "length ?t \<noteq> 0" using assms by (cases "length series") auto
  then have "length ?t div 2 < length (sort_fp ?t)" by (simp only: length_sort_fp)
  then have "sort_fp ?t ! (length ?t div 2) \<in> set (sort_fp ?t)" by (rule nth_mem)
  then have "rolling_median series \<in> set ?t"
    by (simp only: rolling_median_def Let_def length_sort_fp set_sort_fp)
  then show ?thesis by (auto dest: in_set_dropD)
qed

definition finite_series :: "(double \<times> double) list \<Rightarrow> bool" where
  "finite_series series \<longleftrightarrow> list_all (\<lambda>p. isfinite (snd p)) series"

definition shift_ok :: "shift_watch \<Rightarrow> bool" where
  "shift_ok w \<longleftrightarrow> 0 \<le> s_consecutiveBadTicks w \<and> s_consecutiveBadTicks w < kMinSustainedSpikes
     \<and> 0 \<le> s_cusum w \<and> s_cusum w \<le> kCusumThreshold \<and> (s_consecutiveBadTicks w = 0 \<or> s_cusum w = 0)"

lemma kCusumThreshold_Fin: "kCusumThreshold = Fin 5"
  using fround_of_int [of 5, where 'p = 53] by (simp add: kCusumThreshold_def lit_def)

lemma threshold_pos: "0 \<le> kCusumThreshold"
  by (simp add: kCusumThreshold_Fin zero_fp_def)

lemma lit_fin: "\<exists>d. kCusumDriftMm = Fin d"
  using fround_in01 [of "1 / 2"] by (auto simp: kCusumDriftMm_def lit_def elim: in01_cases)

lemma cusum_not_nan:
  assumes "isfinite c" "isfinite b" "0 \<le> S" "S \<le> kCusumThreshold"
  shows "\<not> isnan (S + ((c - b) - kCusumDriftMm))"
proof -
  obtain d where d: "kCusumDriftMm = Fin d" using lit_fin by blast
  obtain x y where c: "c = Fin x" "b = Fin y" using assms(1,2) by (cases c; cases b) auto
  obtain z where z: "S = Fin z" using assms(3,4) by (cases S) (auto simp: zero_fp_def kCusumThreshold_Fin)
  have "c - b = fround (x - y)" by (simp add: minus_fp_def c)
  then show ?thesis
    by (cases rule: fround_cases [of "x - y", where 'p = 53])
       (simp_all add: d z minus_fp_def isnan_fround,
        cases rule: fround_cases [of "rnd 53 (x - y) + - d", where 'p = 53], simp_all add: isnan_fround)
qed

lemma cusum_step:
  assumes "isfinite c" "isfinite b" "0 \<le> S" "S \<le> kCusumThreshold" "UpdateCusumGeometryShift S c b = (S', fire)"
  shows "0 \<le> S' \<and> S' \<le> kCusumThreshold \<and> (fire \<longrightarrow> S' = 0)"
proof -
  let ?x = "S + ((c - b) - kCusumDriftMm)"
  have n: "\<not> isnan ?x" by (rule cusum_not_nan [OF assms(1-4)])
  have t: "\<not> isnan kCusumThreshold" by (simp add: kCusumThreshold_Fin)
  show ?thesis
  proof (cases "?x < 0")
    case True
    then show ?thesis using assms(5) threshold_pos
      by (auto simp: UpdateCusumGeometryShift_def Let_def split: if_splits)
  next
    case False
    then have "0 \<le> ?x" using fp_not_less [OF n, of 0] by (simp add: zero_fp_def)
    moreover have "\<not> kCusumThreshold < ?x \<Longrightarrow> ?x \<le> kCusumThreshold" using fp_not_less [OF t n] by simp
    ultimately show ?thesis using assms(5) False threshold_pos
      by (auto simp: UpdateCusumGeometryShift_def Let_def split: if_splits)
  qed
qed

lemma shift_ok_reset: "shift_ok (w\<lparr>s_consecutiveBadTicks := 0, s_cusum := 0\<rparr>)"
  using threshold_pos by (simp add: shift_ok_def kMinSustainedSpikes_def)

lemma shift_tick_ok:
  assumes "shift_ok w" "finite_series series"
  shows "shift_ok (fst (shift_tick isValid useCusum series w))"
proof (cases "length series \<ge> 5 \<and> isValid \<and> fst (last series) > s_lastErrorTs w")
  case True
  let ?c = "snd (last series)" and ?b = "rolling_median series" and ?w = "w\<lparr>s_lastErrorTs := fst (last series)\<rparr>"
  have ne: "series \<noteq> []" using True by auto
  then have fin: "isfinite ?c" "isfinite ?b"
    using assms(2) rolling_median_in [OF ne] last_in_set [OF ne] by (auto simp: finite_series_def list_all_iff)
  obtain S f where cu: "UpdateCusumGeometryShift (s_cusum w) ?c ?b = (S, f)" by fastforce
  from cusum_step [OF fin _ _ cu] assms(1) have S: "0 \<le> S" "S \<le> kCusumThreshold" by (auto simp: shift_ok_def)
  obtain w' fire where d: "shift_decision useCusum ?c ?b ?w = (w', fire)" by fastforce
  have "shift_ok w'" if "\<not> fire"
    using that d assms(1) S cu threshold_pos
    by (auto simp: shift_decision_def shift_ok_def ShouldFireGeometryShiftRecovery_def kMinSustainedSpikes_def Let_def split: if_splits)
  then show ?thesis using True d shift_ok_reset [of w'] by (cases fire) (auto simp: shift_tick_def)
next
  case False
  then show ?thesis using assms(1) shift_ok_reset [of w] by (auto simp: shift_tick_def)
qed

lemma shift_tick_fires:
  assumes "shift_tick isValid useCusum series w = (w', True)"
  shows "isValid \<and> length series \<ge> 5 \<and> s_consecutiveBadTicks w' = 0 \<and> s_cusum w' = 0
    \<and> (\<not> useCusum \<longrightarrow> s_consecutiveBadTicks w + 1 \<ge> kMinSustainedSpikes \<and> IsCurrentErrorSpike (snd (last series)) (rolling_median series))"
  using assms
  by (auto simp: shift_tick_def shift_decision_def ShouldFireGeometryShiftRecovery_def kMinSustainedSpikes_def Let_def
      split: if_splits prod.splits bool.splits)

definition shift_run :: "(bool \<times> bool \<times> (double \<times> double) list) list \<Rightarrow> shift_watch" where
  "shift_run xs = fold (\<lambda>(isValid, useCusum, series) w. fst (shift_tick isValid useCusum series w)) xs shift_watch_new"

lemma shift_run_ok:
  assumes "list_all (\<lambda>x. finite_series (snd (snd x))) xs"
  shows "shift_ok (shift_run xs)"
proof -
  have new: "shift_ok shift_watch_new"
    using shift_ok_reset [of shift_watch_new] by (simp add: shift_watch_new_def)
  have "shift_ok (fold (\<lambda>(isValid, useCusum, series) w. fst (shift_tick isValid useCusum series w)) xs w)" if "shift_ok w" for w
    using assms that
  proof (induction xs arbitrary: w)
    case (Cons x xs)
    then show ?case by (cases x) (simp add: shift_tick_ok)
  qed simp
  with new show ?thesis by (simp add: shift_run_def)
qed

section \<open>Properties\<close>

text \<open>
  C34. Tracker liveness. Over any run of ticks at times that are not negative, a tick reports
  an outage exactly when the tracker goes from online to offline; and unless the runtime
  itself said that the tracker is disconnected, there was then a stretch of ticks up to this one, at
  least 8 s long, in which the tracker was connected and its pose never changed while the headset
  moved. A tracker lying still while the headset lies still is never reported.
\<close>

theorem liveness_outage_justified:
  assumes "list_all (\<lambda>x. 0 \<le> tick_now x) (is @ [i])"
    and "TickTrackerLiveness i (liveness_run is) = (s', fired)"
  shows "(fired \<longleftrightarrow> \<not> IsOffline (liveness_run is) \<and> IsOffline s')
    \<and> (fired \<longrightarrow> \<not> deviceIsConnected i \<or> (\<exists>pre j post. is @ [i] = pre @ j # post \<and> frozen_span (posHash i) (j # post)
          \<and> hmd_moved (j # post) \<and> tick_now i - tick_now j \<ge> kFrozenPoseThresholdSec))"
proof (intro conjI impI)
  show "fired \<longleftrightarrow> \<not> IsOffline (liveness_run is) \<and> IsOffline s'" using tick_edge [OF _ assms(2)] assms(1) by simp
  assume fired
  show "\<not> deviceIsConnected i \<or> (\<exists>pre j post. is @ [i] = pre @ j # post \<and> frozen_span (posHash i) (j # post)
          \<and> hmd_moved (j # post) \<and> tick_now i - tick_now j \<ge> kFrozenPoseThresholdSec)"
  proof (cases "deviceIsConnected i")
    case True
    note f = tick_fires [OF assms(2) [unfolded \<open>fired\<close> [THEN eqTrueI]] True]
    have "freeze_known is (liveness_run is)" using assms(1) by (intro liveness_run_known) simp
    from freeze_known_extend [OF this _ _ True, of s'] f show ?thesis by fastforce
  qed simp
qed

definition demo_tick :: "rat \<Rightarrow> TrackerLivenessInputs" where
  "demo_tick t = \<lparr>posHash = 7, deviceIsConnected = True, hmdSpeedMps = 1, lastEmaUpdateSec = 0, tick_now = Fin t\<rparr>"

lemma demo_thresholds: "kFrozenPoseThresholdSec = Fin 8" "kHmdMovedThresholdMps \<le> 1" "Fin 8 - Fin 0 = (Fin 8 :: double)"
  using fround_of_int [of 8, where 'p = 53] fround_in01 [of "2 / 100"]
  by (simp_all add: kFrozenPoseThresholdSec_def kHmdMovedThresholdMps_def lit_def minus_fp_def in01_def)

theorem liveness_outage_justified_witness:
  "snd (TickTrackerLiveness (demo_tick 8) (liveness_run [demo_tick 0]))
   \<and> \<not> IsOffline (liveness_run [demo_tick 0])"
proof -
  have run: "liveness_run [demo_tick 0] = \<lparr>poseHashSinceSec = Fin 0, lastPoseHash = 7, offlineSinceSec = - 1,
      reconnectSinceSec = - 1, hmdMovedDuringFreeze = False\<rparr>"
    by (simp add: liveness_run_def demo_tick_def TickTrackerLiveness_def hash_changed_def TrackerLivenessState_new_def
        IsOffline_def Let_def)
  obtain s' fired where t: "TickTrackerLiveness (demo_tick 8) (liveness_run [demo_tick 0]) = (s', fired)" by fastforce
  have nneg: "\<not> Fin 0 < (0 :: double)" by (simp add: zero_fp_def)
  from t have fired unfolding run
    by (simp add: TickTrackerLiveness_def hash_unchanged_def IsOffline_def Let_def demo_tick_def demo_thresholds nneg)
  moreover have "list_all (\<lambda>x. 0 \<le> tick_now x) ([demo_tick 0] @ [demo_tick 8])" by (simp add: demo_tick_def zero_fp_def)
  ultimately show ?thesis using liveness_outage_justified [OF _ t] t by simp
qed

text \<open>
  The anchor gate. A continuous tick goes on to collect a sample only when both anchors are
  online, and the first tick after an outage restarts the calibration instead of collecting, so
  samples from before and after an outage are never mixed.
\<close>

theorem gate_no_mixing:
  assumes "gate_tick a b g = (g1, r1)" "gate_tick a' b' g1 = (g2, r2)"
  shows "(r2 = GateCollect \<longrightarrow> \<not> IsOffline (g_refLiveness g2) \<and> \<not> IsOffline (g_tgtLiveness g2))
    \<and> (r1 = GateSkip \<longrightarrow> r2 \<noteq> GateCollect) \<and> (r2 = GateRestart \<longrightarrow> g2 = anchor_gate_new)"
  using assms by (auto simp: gate_tick_def Let_def split: if_splits)

theorem gate_no_mixing_witness:
  "snd (gate_tick None None (fst (gate_tick (Some ((demo_tick 1)\<lparr>deviceIsConnected := False\<rparr>)) None anchor_gate_new))) \<noteq> GateCollect"
proof -
  obtain g1 r1 where g: "gate_tick (Some ((demo_tick 1)\<lparr>deviceIsConnected := False\<rparr>)) None anchor_gate_new = (g1, r1)" by fastforce
  obtain g2 r2 where g': "gate_tick None None g1 = (g2, r2)" by fastforce
  have "r1 = GateSkip" using g by (auto simp: gate_tick_def tick_one_def anchor_gate_new_def demo_tick_def
        TickTrackerLiveness_def TrackerLivenessState_new_def IsOffline_def go_offline_def Let_def zero_fp_def split: if_splits)
  with gate_no_mixing [OF g g'] g g' show ?thesis by simp
qed

text \<open>
  The geometry-shift watchdog. Over any run of ticks on finite errors, whichever of the two
  tests is selected at each tick, the spike count stays in 0..2, the CUSUM statistic in 0..5, and
  at most one of them is non-zero; a tick that fires has a valid calibration and at least 5
  samples, and leaves both at zero.
\<close>

theorem shift_watch_bounded:
  assumes "list_all (\<lambda>x. finite_series (snd (snd x))) xs"
    and "shift_tick isValid useCusum series (shift_run xs) = (w', fire)"
  shows "0 \<le> s_consecutiveBadTicks (shift_run xs) \<and> s_consecutiveBadTicks (shift_run xs) \<le> 2
    \<and> 0 \<le> s_cusum (shift_run xs) \<and> s_cusum (shift_run xs) \<le> kCusumThreshold
    \<and> (s_consecutiveBadTicks (shift_run xs) = 0 \<or> s_cusum (shift_run xs) = 0)
    \<and> (fire \<longrightarrow> isValid \<and> 5 \<le> length series \<and> s_consecutiveBadTicks w' = 0 \<and> s_cusum w' = 0)"
  using shift_run_ok [OF assms(1)] shift_tick_fires [of isValid useCusum series "shift_run xs" w'] assms(2)
  by (auto simp: shift_ok_def kMinSustainedSpikes_def)

theorem shift_watch_bounded_witness:
  "s_consecutiveBadTicks (shift_run [(True, False, replicate 5 (1, 1))]) \<le> 2"
proof -
  obtain w' fire where "shift_tick True True [] (shift_run [(True, False, replicate 5 (1, 1))]) = (w', fire)" by fastforce
  moreover have "list_all (\<lambda>x. finite_series (snd (snd x))) [(True, False, replicate 5 (1, 1))]"
    by (simp add: finite_series_def list_all_iff one_fp_def)
  ultimately show ?thesis using shift_watch_bounded by blast
qed

text \<open>
  Tukey's weight is a weight: between 0 and 1 for every residual that is not NaN and every
  finite cut-off, and 0 outside the cut-off or when the cut-off is not positive.
\<close>

theorem tukey_weight_unit:
  assumes "\<not> isnan residual" "isfinite c"
  shows "in01 (TukeyWeight residual c) \<and> (\<not> c > 0 \<longrightarrow> TukeyWeight residual c = 0)
    \<and> (\<bar>residual / c\<bar> \<ge> 1 \<longrightarrow> TukeyWeight residual c = 0)"
proof (cases "c > 0 \<and> \<not> \<bar>residual / c\<bar> \<ge> 1")
  case True
  obtain y where y: "c = Fin y" "0 < y" using True assms(2) by (cases c) (auto simp: zero_fp_def)
  have nn: "\<not> isnan (residual / c)" using y assms(1) by (cases residual) (auto simp: isnan_fround)
  then obtain u where u: "residual / c = Fin u" "\<bar>u\<bar> < 1"
    using True by (cases "residual / c") (auto simp: one_fp_def not_le)
  then have "0 \<le> u * u" "u * u \<le> 1" by (auto simp: abs_less_iff abs_square_le_1 power2_eq_square [symmetric] abs_le_iff)
  then have "in01 ((residual / c) * (residual / c))" unfolding u(1) by (simp add: fround_in01)
  then have "in01 ((1 - (residual / c) * (residual / c)) * (1 - (residual / c) * (residual / c)))"
    by (intro in01_times [OF in01_compl in01_compl])
  with True show ?thesis by (simp add: TukeyWeight_def Let_def)
qed (auto simp: TukeyWeight_def Let_def in01_def one_fp_def zero_fp_def)

theorem tukey_weight_unit_witness: "in01 (TukeyWeight (Fin 1) (Fin 2))"
  using tukey_weight_unit [of "Fin 1" "Fin 2"] by simp

text \<open>The wedge detector as written can fire again although the magnitude never dropped back under
  the bound.\<close>

lemma wedge_refires:
  assumes "\<not> m \<le> kMaxPlausibleCalibrationMagnitudeCm" "0 \<le> t1" "t2 - t1 \<ge> kRuntimeWedgeDebounceSec"
  shows "ShouldFireRuntimeWedgeRecovery m t2 (fst (ShouldFireRuntimeWedgeRecovery m t1 (- 1))) = (- 1, True)"
  using assms by (simp add: ShouldFireRuntimeWedgeRecovery_def)

end
