(* ===== verification/FloatSteps.thy ===== *)
theory FloatSteps
  imports InputStats
begin

text \<open>
  Steps of a filter in rounded arithmetic, for both formats: a blend \<open>m + (x - m) * t\<close> with a factor
  clearly below 1 stays between its two ends, although each of its three operations rounds. The
  skeletal smoothing and the calibration filters rest on these facts.
\<close>

section \<open>Blends\<close>

lemma fround_between:
  assumes "fround lo = (Fin lo :: 'p::len fp)" "fround hi = (Fin hi :: 'p fp)" "lo \<le> x" "x \<le> hi"
  shows "\<exists>r. fround x = (Fin r :: 'p fp) \<and> lo \<le> r \<and> r \<le> hi"
  using fround_mono [OF assms(3), where 'p = 'p] fround_mono [OF assms(4), where 'p = 'p] assms(1,2)
  by (cases "fround x :: 'p fp") auto

lemma fround_moderate_24:
  assumes "\<bar>x\<bar> \<le> 2 ^ 120"
  shows "fround x = (Fin (rnd 24 x) :: float32)"
proof -
  have "\<bar>rnd 24 x\<bar> \<le> 2 powi 121" using rnd_abs_le [of 24 x] assms by simp
  also have "(2::rat) powi 121 < 2 powi (fp_emax 24 + 1)" by (simp only: pow2_less_iff) (simp add: fp_emax_def)
  finally show ?thesis by (simp add: fround_def Let_def not_le)
qed

lemma rnd_abs_bound: "\<bar>x\<bar> \<le> c \<Longrightarrow> \<bar>rnd p x\<bar> \<le> 2 * c"
  using rnd_abs_le [of p x] by (rule order_trans) simp

lemma rnd_idem_any: "0 < p \<Longrightarrow> rnd p (rnd p x) = rnd p x"
  using rnd_idem_pos [of x p] rnd_idem_pos [of "- x" p] by (cases x "0 :: rat" rule: linorder_cases) (simp_all add: rnd_minus)

lemma rnd_grid:
  assumes "x \<noteq> 0" "rnd p x = x" obtains n where "x = of_int n * 2 powi fp_qexp p x"
  using assms that [of "rne (x / 2 powi fp_qexp p x)"] by (simp add: rnd_def Let_def)

lemma rnd_grid_min:
  assumes "rnd p x = x" obtains k where "x = of_int k * 2 powi fp_qmin p"
proof (cases "x = 0")
  case False
  let ?d = "nat (fp_qexp p x - fp_qmin p)"
  obtain n where "x = of_int n * 2 powi fp_qexp p x" by (rule rnd_grid [OF False assms])
  moreover have "(2::rat) powi fp_qexp p x = 2 ^ ?d * 2 powi fp_qmin p"
    using pow2_split [of "fp_qexp p x" "fp_qmin p"] by (simp add: fp_qexp_def power_int_def)
  ultimately have "x = of_int (n * 2 ^ ?d) * 2 powi fp_qmin p" by simp
  then show ?thesis by (rule that)
qed (use that [of 0] in simp)

lemma shave_arith: "q * 1048576 \<le> d \<Longrightarrow> 0 < q \<Longrightarrow> d * (1048575 / 1048576) \<le> d - (q :: rat)"
  by simp

text \<open>A product with a factor clearly below 1 does not exceed the exact difference whose rounding it
  multiplies: either the difference is exact, or the float below its rounding lies between the two.\<close>

lemma rnd_scaled_le:
  assumes p: "21 \<le> p" and y: "0 < y" "y = of_int k * 2 powi fp_qmin p" and t: "0 \<le> t" "t \<le> 1048575 / 1048576"
  shows "rnd p (rnd p y * t) \<le> y"
proof -
  have pos_p: "0 < p" using p by simp
  show ?thesis
  proof (cases "rnd p y \<le> y")
    case True
    have "rnd p y * t \<le> rnd p y" using t rnd_nonneg [of y p] y(1) by (intro mult_left_le) simp_all
    from rnd_mono [OF this pos_p] show ?thesis using True by (simp add: rnd_idem_any [OF pos_p])
  next
    case False
    let ?d = "rnd p y" and ?Q = "fp_qexp p y"
    let ?q = "2 powi ?Q :: rat"
    have up: "fp_qmin p < ?Q"
    proof (rule ccontr)
      assume "\<not> fp_qmin p < ?Q"
      then have "?Q \<le> fp_qmin p" by simp
      from rnd_exact [OF y(2) this] False show False by simp
    qed
    then have Q: "?Q = ilog2 y - (int p - 1)" using y(1) by (simp add: fp_qexp_def max_def split: if_splits)
    have "?q * 1048576 \<le> ?q * 2 ^ (p - 1)" using p power_increasing [of 20 "p - 1" "2::rat"] by (intro mult_left_mono) simp_all
    also have "\<dots> = 2 powi ilog2 y" using pow2_split [of "ilog2 y" ?Q] p by (simp add: Q power_int_def nat_diff_distrib)
    finally have big: "?q * 1048576 \<le> y" using ilog2_bounds(1) [OF y(1)] by simp
    obtain n where n: "?d = of_int n * ?q" using y(1) by (simp add: rnd_def Let_def)
    have "?d \<le> y + ?q / 2" using rnd_error [of y p] y(1) by simp
    then have below: "?d - ?q \<le> y" using pow2_pos [of ?Q] by linarith
    have "?d * t \<le> ?d * (1048575 / 1048576)" using t False y(1) by (intro mult_left_mono) simp_all
    also have "\<dots> \<le> ?d - ?q"
    proof -
      have "?q * 1048576 \<le> ?d" using big False by linarith
      then show ?thesis using pow2_pos [of ?Q] by (rule shave_arith)
    qed
    finally have le: "?d * t \<le> of_int (n - 1) * ?q" by (simp add: n left_diff_distrib)
    show ?thesis
    proof (cases "?d * t = 0")
      case nz: False
      then have pos: "0 < ?d * t" using t False y(1) by simp
      have "?d * t \<le> y" using le below by (simp add: n left_diff_distrib)
      from ilog2_mono [OF pos this] have "fp_qexp p (?d * t) \<le> ?Q" using pos y(1) by (auto simp: fp_qexp_def)
      from rnd_upper [OF nz this le] show ?thesis using below by (simp add: n left_diff_distrib)
    qed (use y(1) in auto)
  qed
qed

lemma lerp_up:
  assumes p: "21 \<le> p" and "rnd p x = x" "rnd p m = m" "m \<le> x" "0 \<le> t" "t \<le> 1048575 / 1048576"
  shows "m \<le> rnd p (m + rnd p (rnd p (x - m) * t)) \<and> rnd p (m + rnd p (rnd p (x - m) * t)) \<le> x"
proof (cases "m = x")
  case False
  let ?d = "rnd p (rnd p (x - m) * t)"
  obtain i j where "x = of_int i * 2 powi fp_qmin p" "m = of_int j * 2 powi fp_qmin p"
    using rnd_grid_min [OF assms(2)] rnd_grid_min [OF assms(3)] by metis
  then have "x - m = of_int (i - j) * 2 powi fp_qmin p" by (simp add: left_diff_distrib)
  then have hi: "?d \<le> x - m" using False assms(4-6) by (intro rnd_scaled_le [OF p, of _ "i - j"]) simp_all
  have lo: "0 \<le> ?d" using assms(4,5) by (intro rnd_nonneg mult_nonneg_nonneg) simp_all
  show ?thesis using rnd_mono [of m "m + ?d" p] rnd_mono [of "m + ?d" x p] lo hi assms(2,3) p by simp
qed (use assms in simp)

lemma lerp_step:
  assumes p: "21 \<le> p" and "rnd p x = x" "rnd p m = m" "0 \<le> t" "t \<le> 1048575 / 1048576"
  shows "min m x \<le> rnd p (m + rnd p (rnd p (x - m) * t)) \<and> rnd p (m + rnd p (rnd p (x - m) * t)) \<le> max m x"
proof (cases "m \<le> x")
  case True
  then show ?thesis using lerp_up [OF assms(1-3) True assms(4,5)] by simp
next
  case False
  have "rnd p (- x - - m) = - rnd p (x - m)" by (metis minus_diff_eq minus_diff_minus rnd_minus)
  then have "rnd p (- m + rnd p (rnd p (- x - - m) * t)) = - rnd p (m + rnd p (rnd p (x - m) * t))"
    by (metis minus_add_distrib mult_minus_left rnd_minus)
  then show ?thesis using lerp_up [OF p, of "- x" "- m" t] assms False by (simp add: rnd_minus)
qed


section \<open>The same in double precision\<close>

definition fin_in :: "rat \<Rightarrow> rat \<Rightarrow> double \<Rightarrow> bool" where
  "fin_in lo hi v = (case v of Fin x \<Rightarrow> rnd 53 x = x \<and> lo \<le> x \<and> x \<le> hi | _ \<Rightarrow> False)"

lemma fround_fin_in:
  assumes "fround lo = (Fin lo :: double)" "fround hi = (Fin hi :: double)" "lo \<le> x" "x \<le> hi"
  shows "fin_in lo hi (fround x)"
proof -
  obtain r where r: "fround x = (Fin r :: double)" "lo \<le> r" "r \<le> hi" using fround_between [OF assms] by blast
  then have "r = rnd 53 x" by (auto simp: fround_def Let_def split: if_splits)
  then show ?thesis using r by (simp add: fin_in_def rnd_idem)
qed

lemma fin_inE:
  assumes "fin_in lo hi v" obtains x where "v = Fin x" "rnd 53 x = x" "lo \<le> x" "x \<le> hi"
  using assms by (auto simp: fin_in_def split: fp.splits)

text \<open>A gain clearly below 1 moves the estimate towards the measurement and not beyond it.\<close>

lemma gain_step:
  assumes "fin_in lo hi m" "fin_in lo hi x" "- (2 ^ 900) \<le> lo" "hi \<le> 2 ^ 900" "K = Fin k" "0 \<le> k" "k \<le> 1048575 / 1048576"
  shows "fin_in lo hi (m + K * (x - m))"
proof -
  obtain a b where a: "m = Fin a" "rnd 53 a = a" "lo \<le> a" "a \<le> hi" and b: "x = Fin b" "rnd 53 b = b" "lo \<le> b" "b \<le> hi"
    using assms(1,2) by (auto elim!: fin_inE)
  let ?d = "rnd 53 (b - a)" and ?e = "rnd 53 (rnd 53 (b - a) * k)"
  obtain B :: rat where B: "B = 2 ^ 900" by simp
  have ab: "\<bar>a\<bar> \<le> B" "\<bar>b\<bar> \<le> B" using a b assms(3,4) by (auto simp: B)
  have ba: "\<bar>b - a\<bar> \<le> B + B" by (rule order_trans [OF abs_triangle_ineq4]) (rule add_mono [OF ab(2,1)])
  have "\<bar>?d * k\<bar> \<le> \<bar>?d\<bar>" using assms(6,7) by (simp add: abs_mult mult_left_le)
  then have dk: "\<bar>?d * k\<bar> \<le> 2 * (B + B)" using rnd_abs_bound [OF ba, of 53] by (rule order_trans)
  have s: "\<bar>a + ?e\<bar> \<le> B + 2 * (2 * (B + B))"
    by (rule order_trans [OF abs_triangle_ineq]) (rule add_mono [OF ab(1) rnd_abs_bound [OF dk]])
  have "B + B \<le> 2 ^ 1000" "2 * (B + B) \<le> 2 ^ 1000" "B + 2 * (2 * (B + B)) \<le> 2 ^ 1000" by (simp_all add: B)
  then have "fround (b - a) = (Fin ?d :: double)" "fround (?d * k) = (Fin ?e :: double)"
    "fround (a + ?e) = (Fin (rnd 53 (a + ?e)) :: double)"
    using ba dk s by (meson fround_moderate order_trans)+
  then have "m + K * (x - m) = Fin (rnd 53 (a + ?e))"
    by (simp add: a(1) b(1) assms(5) minus_fp_def mult.commute)
  then show ?thesis using lerp_step [of 53, OF _ b(2) a(2) assms(6,7)] a b by (auto simp: fin_in_def rnd_idem)
qed

end
