(* ===== verification/Skeletal.thy ===== *)
theory Skeletal
  imports DriverConfig FloatSteps
begin

unbundle bit_operations_syntax

text \<open>
  Finger smoothing, the skeletal part of the smoothing module
  (\<open>modules/smoothing/src/driver/SkeletalHookInjector.cpp\<close>): the detours of
  \<open>IVRDriverInput::CreateSkeletonComponent\<close> and \<open>UpdateSkeletonComponent\<close>, the smoothing of a bone,
  the per-hand state, the counters and the throttles of the diagnostics. The trigonometric functions of
  \<open><cmath>\<close> are a parameter, readings of the performance counter are arguments, and a log line is an
  element of a list. A pointer argument is an optional list of bones.
\<close>

section \<open>Bones and hands\<close>

record HmdQuaternionf =
  qf_w :: float32
  qf_x :: float32
  qf_y :: float32
  qf_z :: float32

record VRBoneTransform =
  bone_position :: "float32 list"
  bone_orientation :: HmdQuaternionf

definition zero_bone :: VRBoneTransform where
  "zero_bone = \<lparr>bone_position = replicate 4 0, bone_orientation = \<lparr>qf_w = 0, qf_x = 0, qf_y = 0, qf_z = 0\<rparr>\<rparr>"

definition kBones :: nat where
  "kBones = 31"

record HandState =
  hs_initialized :: bool
  hs_previous :: "VRBoneTransform list"

record PerHandStats =
  totalCalls :: u64
  smoothedCalls :: u64
  passthroughCalls :: u64
  firstCallLogged :: bool

datatype skel_line = StatsLine | DeepStateDump | FirstCallLine nat | VerboseLine nat | FirstUnknownLine | FirstCreateLine

record Skel =
  g_driver :: "DriverConfigs option"
  g_handState :: "HandState list"
  g_handleToHandedness :: "u64 \<rightharpoonup> nat"
  g_stats :: "PerHandStats list"
  g_unknownHandleCalls :: u64
  g_invalidTransformCalls :: u64
  g_lastStatsLogQpc :: int
  g_lastDeepStateLogQpc :: int
  g_qpcFreq :: int
  g_verboseCallsRemaining :: "u32 list"
  g_firstUnknownHandleLogged :: bool
  g_firstCreateSkeletonLogged :: bool
  skel_log :: "skel_line list"

definition kStatsLogIntervalSec :: double where
  "kStatsLogIntervalSec = lit 30"

definition kDeepStateLogIntervalSec :: double where
  "kDeepStateLogIntervalSec = lit 60"

definition kVerboseFirstCalls :: u32 where
  "kVerboseFirstCalls = 3"

section \<open>Throttled diagnostics\<close>

definition skel_say :: "skel_line \<Rightarrow> Skel \<Rightarrow> Skel" where
  "skel_say l s = s\<lparr>skel_log := skel_log s @ [l]\<rparr>"

definition qpc_elapsed_sec :: "int \<Rightarrow> int \<Rightarrow> int \<Rightarrow> double" where
  "qpc_elapsed_sec now since freq = of_integer (now - since) / of_integer freq"

definition MaybeLogStats :: "int \<Rightarrow> Skel \<Rightarrow> Skel" where
  "MaybeLogStats now s =
     (if g_qpcFreq s = 0 then s
      else if g_lastStatsLogQpc s = 0 then s\<lparr>g_lastStatsLogQpc := now\<rparr>
      else if qpc_elapsed_sec now (g_lastStatsLogQpc s) (g_qpcFreq s) < kStatsLogIntervalSec then s
      else skel_say StatsLine (s\<lparr>g_lastStatsLogQpc := now\<rparr>))"

definition MaybeLogDeepState :: "int \<Rightarrow> Skel \<Rightarrow> Skel" where
  "MaybeLogDeepState now s =
     (if g_qpcFreq s = 0 then s
      else if g_lastDeepStateLogQpc s = 0 then s\<lparr>g_lastDeepStateLogQpc := now\<rparr>
      else if qpc_elapsed_sec now (g_lastDeepStateLogQpc s) (g_qpcFreq s) < kDeepStateLogIntervalSec then s
      else skel_say DeepStateDump (s\<lparr>g_lastDeepStateLogQpc := now\<rparr>))"

section \<open>Smoothing of one bone\<close>

text \<open>\<open>std::acos\<close>, \<open>std::sin\<close> and \<open>std::cos\<close> on \<open>float\<close>.\<close>

record Trig =
  acosf :: "float32 \<Rightarrow> float32"
  sinf :: "float32 \<Rightarrow> float32"
  cosf :: "float32 \<Rightarrow> float32"

definition Lerpf :: "float32 \<Rightarrow> float32 \<Rightarrow> float32 \<Rightarrow> float32" where
  "Lerpf a b t = a + (b - a) * t"

definition quat_dot :: "HmdQuaternionf \<Rightarrow> HmdQuaternionf \<Rightarrow> float32" where
  "quat_dot a b = qf_x a * qf_x b + qf_y a * qf_y b + qf_z a * qf_z b + qf_w a * qf_w b"

definition quat_neg :: "HmdQuaternionf \<Rightarrow> HmdQuaternionf" where
  "quat_neg b = \<lparr>qf_w = - qf_w b, qf_x = - qf_x b, qf_y = - qf_y b, qf_z = - qf_z b\<rparr>"

text \<open>The nearly aligned case: a linear blend, normalised.\<close>

definition nlerp_quat :: "HmdQuaternionf \<Rightarrow> HmdQuaternionf \<Rightarrow> float32 \<Rightarrow> HmdQuaternionf" where
  "nlerp_quat a b t =
     (let w = Lerpf (qf_w a) (qf_w b) t; x = Lerpf (qf_x a) (qf_x b) t;
          y = Lerpf (qf_y a) (qf_y b) t; z = Lerpf (qf_z a) (qf_z b) t;
          len = fp_sqrt (w * w + x * x + y * y + z * z)
      in if 0 < len then (let inv = 1 / len in \<lparr>qf_w = w * inv, qf_x = x * inv, qf_y = y * inv, qf_z = z * inv\<rparr>)
         else \<lparr>qf_w = w, qf_x = x, qf_y = y, qf_z = z\<rparr>)"

definition slerp_arc :: "Trig \<Rightarrow> float32 \<Rightarrow> HmdQuaternionf \<Rightarrow> HmdQuaternionf \<Rightarrow> float32 \<Rightarrow> HmdQuaternionf" where
  "slerp_arc M dot a b t =
     (let theta_0 = acosf M dot; sin_theta_0 = sinf M theta_0; theta = theta_0 * t; sin_theta = sinf M theta;
          s1 = cosf M theta - dot * sin_theta / sin_theta_0; s2 = sin_theta / sin_theta_0
      in \<lparr>qf_w = s1 * qf_w a + s2 * qf_w b, qf_x = s1 * qf_x a + s2 * qf_x b,
         qf_y = s1 * qf_y a + s2 * qf_y b, qf_z = s1 * qf_z a + s2 * qf_z b\<rparr>)"

definition SlerpQuat :: "Trig \<Rightarrow> HmdQuaternionf \<Rightarrow> HmdQuaternionf \<Rightarrow> float32 \<Rightarrow> HmdQuaternionf" where
  "SlerpQuat M a b0 t =
     (let dot0 = quat_dot a b0;
          b = (if dot0 < 0 then quat_neg b0 else b0);
          dot = (if dot0 < 0 then - dot0 else dot0)
      in if lit (9995 / 10000) < dot then nlerp_quat a b t else slerp_arc M dot a b t)"

definition FingerIndexForBone :: "nat \<Rightarrow> nat option" where
  "FingerIndexForBone bone =
     (if 2 \<le> bone \<and> bone \<le> 5 then Some 0
      else if 6 \<le> bone \<and> bone \<le> 10 then Some 1
      else if 11 \<le> bone \<and> bone \<le> 15 then Some 2
      else if 16 \<le> bone \<and> bone \<le> 20 then Some 3
      else if 21 \<le> bone \<and> bone \<le> 25 then Some 4
      else None)"

definition SmoothnessToAlpha :: "byte \<Rightarrow> float32" where
  "SmoothnessToAlpha smoothness =
     (let s0 = of_integer (uint smoothness);
          s1 = (if s0 < 0 then 0 else s0);
          s = (if lit 100 < s1 then lit 100 else s1)
      in 1 - (s / lit 100) * lit (95 / 100))"

text \<open>The strength one finger of a hand gets: its own setting, or the global one when that is 0.\<close>

definition finger_strength :: "FingerSmoothingConfig \<Rightarrow> nat \<Rightarrow> nat \<Rightarrow> byte" where
  "finger_strength cfg handBase f =
     (let s = fs_per_finger_smoothness cfg ! (handBase + f) in if s = 0 then fs_smoothness cfg else s)"

definition smooth_bone :: "Trig \<Rightarrow> VRBoneTransform \<Rightarrow> VRBoneTransform \<Rightarrow> float32 \<Rightarrow> VRBoneTransform" where
  "smooth_bone M prev inp alpha =
     \<lparr>bone_position =
        [Lerpf (bone_position prev ! 0) (bone_position inp ! 0) alpha,
         Lerpf (bone_position prev ! 1) (bone_position inp ! 1) alpha,
         Lerpf (bone_position prev ! 2) (bone_position inp ! 2) alpha,
         bone_position inp ! 3],
      bone_orientation = SlerpQuat M (bone_orientation prev) (bone_orientation inp) alpha\<rparr>"

text \<open>What the loop writes for bone \<open>i\<close>, both to the output and to the previous frame.\<close>

definition bone_out :: "Trig \<Rightarrow> FingerSmoothingConfig \<Rightarrow> nat \<Rightarrow> VRBoneTransform list \<Rightarrow> VRBoneTransform list \<Rightarrow> nat \<Rightarrow> VRBoneTransform" where
  "bone_out M cfg hand prev inp i =
     (case FingerIndexForBone i of
        None \<Rightarrow> inp ! i
      | Some finger \<Rightarrow>
          if drop_bit (hand * 5 + finger) (fs_finger_mask cfg) AND 1 = 0 then inp ! i
          else let alpha = SmoothnessToAlpha (finger_strength cfg (hand * 5) finger)
               in if 1 \<le> alpha then inp ! i else smooth_bone M (prev ! i) (inp ! i) alpha)"

definition smooth_frame :: "Trig \<Rightarrow> FingerSmoothingConfig \<Rightarrow> nat \<Rightarrow> VRBoneTransform list \<Rightarrow> HandState \<Rightarrow> HandState \<times> VRBoneTransform list" where
  "smooth_frame M cfg hand inp st =
     (if \<not> hs_initialized st then (\<lparr>hs_initialized = True, hs_previous = take kBones inp\<rparr>, take kBones inp)
      else let out = map (bone_out M cfg hand (hs_previous st) inp) [0..<kBones]
           in (st\<lparr>hs_previous := out\<rparr>, out))"

definition anySmoothing :: "FingerSmoothingConfig \<Rightarrow> nat \<Rightarrow> bool" where
  "anySmoothing cfg hand = (\<exists>f \<in> set [0..<5]. finger_strength cfg (hand * 5) f \<noteq> 0)"

section \<open>The detours\<close>

text \<open>The call forwarded to the original \<open>UpdateSkeletonComponent\<close>; its result is the detour's.\<close>

record SkelCall =
  sc_component :: u64
  sc_motionRange :: int
  sc_transforms :: "VRBoneTransform list option"
  sc_count :: u32

definition upd_skel_stats :: "nat \<Rightarrow> (PerHandStats \<Rightarrow> PerHandStats) \<Rightarrow> Skel \<Rightarrow> Skel" where
  "upd_skel_stats h f s = s\<lparr>g_stats := (g_stats s)[h := f (g_stats s ! h)]\<rparr>"

text \<open>The counter, the first-call line, the verbose lines and the deep dump of a frame on a known hand.\<close>

definition note_frame :: "int \<Rightarrow> nat \<Rightarrow> Skel \<Rightarrow> Skel" where
  "note_frame nowDeep h s =
     (let s1 = upd_skel_stats h (\<lambda>p. p\<lparr>totalCalls := totalCalls p + 1\<rparr>) s;
          s2 = (if firstCallLogged (g_stats s1 ! h) then s1
                else skel_say (FirstCallLine h) (upd_skel_stats h (\<lambda>p. p\<lparr>firstCallLogged := True\<rparr>) s1));
          rem = g_verboseCallsRemaining s2 ! h;
          s3 = s2\<lparr>g_verboseCallsRemaining := (g_verboseCallsRemaining s2)[h := rem - 1]\<rparr>;
          s4 = (if 0 < sint rem then skel_say (VerboseLine h) s3 else s3)
      in MaybeLogDeepState nowDeep s4)"

definition smooth_known_hand :: "Trig \<Rightarrow> int \<Rightarrow> FingerSmoothingConfig \<Rightarrow> nat \<Rightarrow> SkelCall \<Rightarrow> VRBoneTransform list \<Rightarrow> Skel \<Rightarrow> Skel \<times> SkelCall" where
  "smooth_known_hand M nowStats cfg h c inp s =
     (if \<not> anySmoothing cfg h
      then (MaybeLogStats nowStats (upd_skel_stats h (\<lambda>p. p\<lparr>passthroughCalls := passthroughCalls p + 1\<rparr>) s), c)
      else let (st, out) = smooth_frame M cfg h inp (g_handState s ! h);
               s1 = s\<lparr>g_handState := (g_handState s)[h := st]\<rparr>;
               s2 = upd_skel_stats h (\<lambda>p. p\<lparr>smoothedCalls := smoothedCalls p + 1\<rparr>) s1
           in (MaybeLogStats nowStats s2, c\<lparr>sc_transforms := Some out\<rparr>))"

definition note_unknown :: "int \<Rightarrow> Skel \<Rightarrow> Skel" where
  "note_unknown nowStats s =
     (let s1 = s\<lparr>g_unknownHandleCalls := g_unknownHandleCalls s + 1\<rparr>;
          s2 = (if g_firstUnknownHandleLogged s1 then s1
                else skel_say FirstUnknownLine (s1\<lparr>g_firstUnknownHandleLogged := True\<rparr>))
      in MaybeLogStats nowStats s2)"

definition DetourPublicUpdateSkeletonComponent :: "Trig \<Rightarrow> int \<Rightarrow> int \<Rightarrow> SkelCall \<Rightarrow> Skel \<Rightarrow> Skel \<times> SkelCall" where
  "DetourPublicUpdateSkeletonComponent M nowDeep nowStats c s =
     (case (g_driver s, sc_transforms c) of
        (Some d, Some inp) \<Rightarrow>
          if sc_count c \<noteq> 31 then (s\<lparr>g_invalidTransformCalls := g_invalidTransformCalls s + 1\<rparr>, c)
          else let cfg = GetFingerSmoothingConfig d
               in (case g_handleToHandedness s (sc_component c) of
                     None \<Rightarrow> (note_unknown nowStats s, c)
                   | Some h \<Rightarrow> smooth_known_hand M nowStats cfg h c inp (note_frame nowDeep h s))
      | (_, b) \<Rightarrow>
          (if b = None \<or> sc_count c \<noteq> 31 then s\<lparr>g_invalidTransformCalls := g_invalidTransformCalls s + 1\<rparr> else s, c))"

text \<open>\<open>result\<close> and \<open>handle\<close> are what the original \<open>CreateSkeletonComponent\<close> returned and stored
  (\<open>None\<close> for a null pointer).\<close>

definition skeleton_hand :: "string \<Rightarrow> nat option" where
  "skeleton_hand path =
     (if str_contains ''/left'' path then Some 0 else if str_contains ''/right'' path then Some 1 else None)"

definition DetourPublicCreateSkeletonComponent :: "int \<Rightarrow> u64 option \<Rightarrow> string option \<Rightarrow> Skel \<Rightarrow> Skel" where
  "DetourPublicCreateSkeletonComponent result handle path s0 =
     (let s = (if g_firstCreateSkeletonLogged s0 then s0 else skel_say FirstCreateLine (s0\<lparr>g_firstCreateSkeletonLogged := True\<rparr>))
      in case (handle, path) of
           (Some hnd, Some p) \<Rightarrow>
             if result = 0 \<and> hnd \<noteq> 0
             then (case skeleton_hand p of
                     None \<Rightarrow> s
                   | Some h \<Rightarrow> s\<lparr>g_handleToHandedness := (g_handleToHandedness s)(hnd \<mapsto> h),
                       g_handState := (g_handState s)[h := (g_handState s ! h)\<lparr>hs_initialized := False\<rparr>],
                       g_verboseCallsRemaining := (g_verboseCallsRemaining s)[h := kVerboseFirstCalls]\<rparr>)
             else s
         | _ \<Rightarrow> s)"

section \<open>Start and end of the subsystem\<close>

definition zero_hand :: HandState where
  "zero_hand = \<lparr>hs_initialized = False, hs_previous = replicate kBones zero_bone\<rparr>"

definition zero_hand_stats :: PerHandStats where
  "zero_hand_stats = \<lparr>totalCalls = 0, smoothedCalls = 0, passthroughCalls = 0, firstCallLogged = False\<rparr>"

definition Skel_new :: Skel where
  "Skel_new = \<lparr>g_driver = None, g_handState = replicate 2 zero_hand, g_handleToHandedness = Map.empty,
     g_stats = replicate 2 zero_hand_stats, g_unknownHandleCalls = 0, g_invalidTransformCalls = 0,
     g_lastStatsLogQpc = 0, g_lastDeepStateLogQpc = 0, g_qpcFreq = 0,
     g_verboseCallsRemaining = replicate 2 kVerboseFirstCalls, g_firstUnknownHandleLogged = False,
     g_firstCreateSkeletonLogged = False, skel_log = []\<rparr>"

definition skeletal_Init :: "DriverConfigs \<Rightarrow> int \<Rightarrow> Skel \<Rightarrow> Skel" where
  "skeletal_Init driver freq s = s\<lparr>g_driver := Some driver, g_qpcFreq := freq, g_lastStatsLogQpc := 0,
     g_lastDeepStateLogQpc := 0, g_unknownHandleCalls := 0, g_invalidTransformCalls := 0,
     g_firstUnknownHandleLogged := False, g_firstCreateSkeletonLogged := False,
     g_stats := replicate 2 zero_hand_stats, g_verboseCallsRemaining := replicate 2 kVerboseFirstCalls,
     g_handleToHandedness := Map.empty, g_handState := replicate 2 zero_hand\<rparr>"

text \<open>\<open>Shutdown\<close> moves the deep-dump stamp far enough back for a last dump. The product
  \<open>60.0 * freq\<close> is truncated to an integer.\<close>

definition trunc_fp :: "double \<Rightarrow> int" where
  "trunc_fp x = (case x of Fin r \<Rightarrow> if 0 \<le> r then \<lfloor>r\<rfloor> else \<lceil>r\<rceil> | _ \<Rightarrow> 0)"

definition skeletal_Shutdown :: "int \<Rightarrow> int \<Rightarrow> int \<Rightarrow> Skel \<Rightarrow> Skel" where
  "skeletal_Shutdown nowStats nowOld nowDeep s =
     (let s1 = MaybeLogStats nowStats s;
          fakeOld = nowOld - (trunc_fp (kDeepStateLogIntervalSec * of_integer (g_qpcFreq s1)) + 1);
          s2 = MaybeLogDeepState nowDeep (s1\<lparr>g_lastDeepStateLogQpc := fakeOld\<rparr>)
      in s2\<lparr>g_handleToHandedness := Map.empty,
            g_handState := map (\<lambda>h. h\<lparr>hs_initialized := False\<rparr>) (g_handState s2)\<rparr>)"

text \<open>Installation: \<open>readable p n\<close> is \<open>IsReadableMemoryRange\<close>, \<open>load p\<close> the pointer stored at \<open>p\<close>, and
  the registry the set of names in \<open>IHook::hooks\<close>. The result is the new registry with the hooks
  patched by this call, as vtable slot and target.\<close>

definition skel_create_hook :: string where
  "skel_create_hook = ''IVRDriverInput::CreateSkeletonComponent''"

definition skel_update_hook :: string where
  "skel_update_hook = ''IVRDriverInput::UpdateSkeletonComponent''"

definition TryInstallPublicHooks ::
  "(int \<Rightarrow> nat \<Rightarrow> bool) \<Rightarrow> (int \<Rightarrow> int) \<Rightarrow> int \<Rightarrow> string set \<Rightarrow> string set \<times> (nat \<times> int) list" where
  "TryInstallPublicHooks readable load iface hooks =
     (let createAlready = skel_create_hook \<in> hooks; updateAlready = skel_update_hook \<in> hooks;
          vtable = load iface; slot = (\<lambda>k. load (vtable + 8 * int k))
      in if iface = 0 \<or> createAlready \<and> updateAlready \<or> \<not> readable iface 8 \<or> \<not> readable vtable (8 * 7)
            \<or> 0x10000 < \<bar>slot 6 - slot 0\<bar>
         then (hooks, [])
         else ((if createAlready then {} else {skel_create_hook}) \<union> (if updateAlready then {} else {skel_update_hook}) \<union> hooks,
               (if createAlready then [] else [(5, slot 5)]) @ (if updateAlready then [] else [(6, slot 6)])))"

text \<open>The configuration the provider holds changes under the module.\<close>

datatype skel_event =
    SkInit DriverConfigs int
  | SkShutdown int int int
  | SkCreate int "u64 option" "string option"
  | SkUpdate int int SkelCall
  | SkConfig FingerSmoothingConfig

fun skel_step :: "Trig \<Rightarrow> skel_event \<Rightarrow> Skel \<Rightarrow> Skel \<times> SkelCall list" where
  "skel_step M (SkInit d f) s = (skeletal_Init d f s, [])"
| "skel_step M (SkShutdown a b c) s = (skeletal_Shutdown a b c s, [])"
| "skel_step M (SkCreate r h p) s = (DetourPublicCreateSkeletonComponent r h p s, [])"
| "skel_step M (SkUpdate nd ns c) s = (let (s', c') = DetourPublicUpdateSkeletonComponent M nd ns c s in (s', [c']))"
| "skel_step M (SkConfig cfg) s = (s\<lparr>g_driver := map_option (SetFingerSmoothingConfig cfg) (g_driver s)\<rparr>, [])"

fun skel_run :: "Trig \<Rightarrow> skel_event list \<Rightarrow> Skel \<Rightarrow> Skel \<times> SkelCall list" where
  "skel_run M [] s = (s, [])"
| "skel_run M (e # es) s = (let (s1, out) = skel_step M e s; (s2, outs) = skel_run M es s1 in (s2, out @ outs))"

section \<open>Coordinates\<close>

text \<open>A coordinate the skeleton can carry: a value of the type, far from overflow, inside an interval.\<close>

definition coord_in :: "rat \<times> rat \<Rightarrow> float32 \<Rightarrow> bool" where
  "coord_in b v = (case v of Fin x \<Rightarrow> rnd 24 x = x \<and> fst b \<le> x \<and> x \<le> snd b | _ \<Rightarrow> False)"

definition box_ok :: "rat \<times> rat \<Rightarrow> bool" where
  "box_ok b \<longleftrightarrow> - (2 ^ 100) \<le> fst b \<and> snd b \<le> 2 ^ 100"

lemma Lerpf_coord:
  assumes "coord_in b p" "coord_in b v" "box_ok b" "a = Fin t" "0 \<le> t" "t \<le> 255 / 256"
  shows "coord_in b (Lerpf p v a)"
proof -
  obtain m x where p: "p = Fin m" "rnd 24 m = m" "fst b \<le> m" "m \<le> snd b"
    and v: "v = Fin x" "rnd 24 x = x" "fst b \<le> x" "x \<le> snd b"
    using assms(1,2) by (auto simp: coord_in_def split: fp.splits)
  let ?d = "rnd 24 (x - m)" and ?e = "rnd 24 (rnd 24 (x - m) * t)"
  obtain K :: rat where K: "K = 2 ^ 100" by simp
  have mx: "\<bar>m\<bar> \<le> K" "\<bar>x\<bar> \<le> K" using p v assms(3) by (auto simp: box_ok_def K)
  have xm: "\<bar>x - m\<bar> \<le> K + K" by (rule order_trans [OF abs_triangle_ineq4]) (rule add_mono [OF mx(2,1)])
  have "\<bar>?d * t\<bar> \<le> \<bar>?d\<bar>" using assms(5,6) by (simp add: abs_mult mult_left_le)
  then have dt: "\<bar>?d * t\<bar> \<le> 2 * (K + K)" using rnd_abs_bound [OF xm, of 24] by (rule order_trans)
  have s: "\<bar>m + ?e\<bar> \<le> K + 2 * (2 * (K + K))"
    by (rule order_trans [OF abs_triangle_ineq]) (rule add_mono [OF mx(1) rnd_abs_bound [OF dt]])
  have "K + K \<le> 2 ^ 120" "2 * (K + K) \<le> 2 ^ 120" "K + 2 * (2 * (K + K)) \<le> 2 ^ 120" by (simp_all add: K)
  then have "fround (x - m) = (Fin ?d :: float32)" "fround (?d * t) = (Fin ?e :: float32)"
    "fround (m + ?e) = (Fin (rnd 24 (m + ?e)) :: float32)"
    using xm dt s by (meson fround_moderate_24 order_trans)+
  then have "Lerpf p v a = Fin (rnd 24 (m + ?e))"
    by (simp add: Lerpf_def p(1) v(1) assms(4) minus_fp_def)
  then show ?thesis using lerp_step [of 24, OF _ v(2) p(2) assms(5)] assms(6) p v by (auto simp: coord_in_def rnd_idem_any)
qed

lemma SmoothnessToAlpha_0: "SmoothnessToAlpha 0 = 1"
  by code_simp

lemma alpha_nonzero:
  assumes "s \<noteq> 0"
  shows "\<exists>t. SmoothnessToAlpha s = Fin t \<and> 1 / 32 \<le> t \<and> t \<le> 255 / 256"
proof -
  have s: "1 \<le> uint s" "uint s \<le> 255" using assms uint_lt2p [of s] uint_ge_0 [of s] by (auto simp: int_one_le_iff_zero_less order_le_less unsigned_eq_0_iff)
  have ex: "fround (of_int i) = (Fin (of_int i) :: float32)" if "0 \<le> i" "i \<le> 255" for i
    using that by (intro fround_of_int) simp_all
  obtain i where i: "uint s = i" by simp
  define u where "u = min i 100"
  have u: "1 \<le> u" "u \<le> 100" using s by (auto simp: u_def i)
  have c100: "lit 100 = (Fin 100 :: float32)" using ex [of 100] by (simp add: lit_def)
  have exact: "fround (1/128) = (Fin (1/128) :: float32)" "fround 1 = (Fin 1 :: float32)" "fround (1/2) = (Fin (1/2) :: float32)"
    "fround (31/32) = (Fin (31/32) :: float32)" "fround (1/256) = (Fin (1/256) :: float32)"
    "fround (1/32) = (Fin (1/32) :: float32)" "fround (255/256) = (Fin (255/256) :: float32)" by code_simp+
  obtain q where q: "fround (of_int u / 100) = (Fin q :: float32)" "1/128 \<le> q" "q \<le> 1"
    using fround_between [OF exact(1,2), of "of_int u / 100"] u by (auto simp: field_simps)
  obtain c where c: "lit (95/100) = (Fin c :: float32)" "1/2 \<le> c" "c \<le> 31/32"
    using fround_between [OF exact(3,4), of "95/100"] by (auto simp: lit_def)
  have "1/128 * (1/2) \<le> q * c" "q * c \<le> 1 * (31/32)" using q c by (intro mult_mono; simp)+
  then obtain r where r: "fround (q * c) = (Fin r :: float32)" "1/256 \<le> r" "r \<le> 31/32"
    using fround_between [OF exact(5,4), of "q * c"] by auto
  obtain t where t: "fround (1 - r) = (Fin t :: float32)" "1/32 \<le> t" "t \<le> 255/256"
    using fround_between [OF exact(6,7), of "1 - r"] r by auto
  have "SmoothnessToAlpha s = 1 - (Fin (of_int u) / lit 100) * lit (95/100)"
    using s ex [of i] by (auto simp: SmoothnessToAlpha_def of_integer_def u_def c100 min_def zero_fp_def i)
  also have "\<dots> = Fin t" unfolding c(1) using q r t by (simp add: c100 one_fp_def minus_fp_def)
  finally show ?thesis using t by blast
qed

lemma alpha_range: "\<not> 1 \<le> SmoothnessToAlpha s \<Longrightarrow> \<exists>t. SmoothnessToAlpha s = Fin t \<and> 1 / 32 \<le> t \<and> t \<le> 255 / 256"
  using alpha_nonzero [of s] SmoothnessToAlpha_0 by (cases "s = 0") (auto simp: one_fp_def)


section \<open>Invariants\<close>

definition bone_typed :: "VRBoneTransform \<Rightarrow> bool" where
  "bone_typed b \<longleftrightarrow> length (bone_position b) = 4"

definition hand_typed :: "HandState \<Rightarrow> bool" where
  "hand_typed h \<longleftrightarrow> length (hs_previous h) = kBones \<and> list_all bone_typed (hs_previous h)"

text \<open>The arrays have the sizes of the source, every mapped handle names one of the two hands, and every
  frame seen on a hand was counted as smoothed or as passed through.\<close>

definition skel_ok :: "Skel \<Rightarrow> bool" where
  "skel_ok s \<longleftrightarrow> length (g_handState s) = 2 \<and> list_all hand_typed (g_handState s)
     \<and> ran (g_handleToHandedness s) \<subseteq> {0, 1} \<and> length (g_verboseCallsRemaining s) = 2
     \<and> length (g_stats s) = 2 \<and> list_all (\<lambda>p. totalCalls p = smoothedCalls p + passthroughCalls p) (g_stats s)"

definition call_ok :: "SkelCall \<Rightarrow> bool" where
  "call_ok c = (case sc_transforms c of None \<Rightarrow> True | Some bs \<Rightarrow> length bs = unat (sc_count c) \<and> list_all bone_typed bs)"

fun skel_event_ok :: "skel_event \<Rightarrow> bool" where
  "skel_event_ok (SkUpdate nd ns c) = call_ok c"
| "skel_event_ok _ = True"

lemma kBones_eq [simp]: "kBones = 31"
  by (simp add: kBones_def)

lemma skel_say_keeps [simp]:
  "g_handState (skel_say l s) = g_handState s" "g_handleToHandedness (skel_say l s) = g_handleToHandedness s"
  "g_stats (skel_say l s) = g_stats s" "g_verboseCallsRemaining (skel_say l s) = g_verboseCallsRemaining s"
  "g_driver (skel_say l s) = g_driver s"
  by (simp_all add: skel_say_def)

lemma MaybeLog_keeps [simp]:
  "g_handState (MaybeLogStats now s) = g_handState s" "g_handleToHandedness (MaybeLogStats now s) = g_handleToHandedness s"
  "g_stats (MaybeLogStats now s) = g_stats s" "g_verboseCallsRemaining (MaybeLogStats now s) = g_verboseCallsRemaining s"
  "g_driver (MaybeLogStats now s) = g_driver s"
  "g_handState (MaybeLogDeepState now s) = g_handState s" "g_handleToHandedness (MaybeLogDeepState now s) = g_handleToHandedness s"
  "g_stats (MaybeLogDeepState now s) = g_stats s" "g_verboseCallsRemaining (MaybeLogDeepState now s) = g_verboseCallsRemaining s"
  "g_driver (MaybeLogDeepState now s) = g_driver s"
  by (simp_all add: MaybeLogStats_def MaybeLogDeepState_def)

lemma upd_skel_stats_keeps [simp]:
  "g_handState (upd_skel_stats h f s) = g_handState s" "g_handleToHandedness (upd_skel_stats h f s) = g_handleToHandedness s"
  "g_stats (upd_skel_stats h f s) = (g_stats s)[h := f (g_stats s ! h)]"
  "g_verboseCallsRemaining (upd_skel_stats h f s) = g_verboseCallsRemaining s" "g_driver (upd_skel_stats h f s) = g_driver s"
  by (simp_all add: upd_skel_stats_def)

lemma note_frame_keeps [simp]:
  "g_handState (note_frame now h s) = g_handState s" "g_handleToHandedness (note_frame now h s) = g_handleToHandedness s"
  "g_driver (note_frame now h s) = g_driver s"
  "length (g_verboseCallsRemaining (note_frame now h s)) = length (g_verboseCallsRemaining s)"
  by (simp_all add: note_frame_def Let_def)

lemma logged_same: "firstCallLogged p \<Longrightarrow> p\<lparr>totalCalls := n, firstCallLogged := True\<rparr> = p\<lparr>totalCalls := n\<rparr>"
  by (cases p) simp

lemma note_frame_stats:
  "h < length (g_stats s) \<Longrightarrow> g_stats (note_frame now h s) =
     (g_stats s)[h := (g_stats s ! h)\<lparr>totalCalls := totalCalls (g_stats s ! h) + 1, firstCallLogged := True\<rparr>]"
  by (simp add: note_frame_def Let_def logged_same)

lemma note_unknown_keeps [simp]:
  "g_handState (note_unknown now s) = g_handState s" "g_handleToHandedness (note_unknown now s) = g_handleToHandedness s"
  "g_stats (note_unknown now s) = g_stats s" "g_verboseCallsRemaining (note_unknown now s) = g_verboseCallsRemaining s"
  "g_driver (note_unknown now s) = g_driver s"
  by (simp_all add: note_unknown_def Let_def)

lemma FingerIndexForBone_range: "FingerIndexForBone i = Some f \<Longrightarrow> f < 5 \<and> 2 \<le> i \<and> i \<le> 25"
  by (simp add: FingerIndexForBone_def split: if_splits)

lemma list_all_update: "list_all P xs \<Longrightarrow> P x \<Longrightarrow> list_all P (xs[i := x])"
  by (auto simp: list_all_iff dest: set_list_updateD)

lemma smooth_frame_typed:
  assumes "hand_typed st" "length inp = 31" "list_all bone_typed inp"
  shows "hand_typed (fst (smooth_frame M cfg h inp st)) \<and> length (snd (smooth_frame M cfg h inp st)) = 31
    \<and> list_all bone_typed (snd (smooth_frame M cfg h inp st))"
proof -
  have "bone_typed (bone_out M cfg h (hs_previous st) inp i)" if "i < 31" for i
    using that assms(2,3) by (auto simp: bone_out_def bone_typed_def smooth_bone_def Let_def list_all_length split: option.splits)
  then show ?thesis using assms by (auto simp: smooth_frame_def hand_typed_def Let_def list_all_length)
qed

lemma skel_hand_range: "skel_ok s \<Longrightarrow> g_handleToHandedness s c = Some h \<Longrightarrow> h < 2"
  by (auto simp: skel_ok_def ran_def)

lemma update_skeleton_ok:
  assumes "skel_ok s" "call_ok c" "DetourPublicUpdateSkeletonComponent M nd ns c s = (s', c')"
  shows "skel_ok s' \<and> call_ok c' \<and> sc_component c' = sc_component c \<and> sc_motionRange c' = sc_motionRange c \<and> sc_count c' = sc_count c"
proof (cases "\<exists>d inp h. g_driver s = Some d \<and> sc_transforms c = Some inp \<and> sc_count c = 31 \<and> g_handleToHandedness s (sc_component c) = Some h")
  case False
  then show ?thesis using assms
    by (auto simp: DetourPublicUpdateSkeletonComponent_def skel_ok_def split: option.splits if_splits prod.splits)
next
  case True
  then obtain d inp h where k: "g_driver s = Some d" "sc_transforms c = Some inp" "sc_count c = 31"
    "g_handleToHandedness s (sc_component c) = Some h" by blast
  have h: "h < 2" by (rule skel_hand_range [OF assms(1) k(4)])
  let ?cfg = "GetFingerSmoothingConfig d" and ?n = "note_frame nd h s"
  have e: "smooth_known_hand M ns ?cfg h c inp ?n = (s', c')"
    using assms(3) k by (simp add: DetourPublicUpdateSkeletonComponent_def Let_def)
  have inp: "length inp = 31" "list_all bone_typed inp" using assms(2) k by (auto simp: call_ok_def)
  have st: "hand_typed (g_handState s ! h)" using assms(1) h by (auto simp: skel_ok_def list_all_length)
  note f = smooth_frame_typed [OF st inp, of M ?cfg h]
  have len: "h < length (g_stats s)" and bal: "totalCalls (g_stats s ! h) = smoothedCalls (g_stats s ! h) + passthroughCalls (g_stats s ! h)"
    using assms(1) h by (auto simp: skel_ok_def list_all_length)
  show ?thesis
  proof (cases "anySmoothing ?cfg h")
    case False
    then show ?thesis using e assms(1,2) len bal
      by (auto simp: smooth_known_hand_def note_frame_stats skel_ok_def intro!: list_all_update)
  next
    case True
    then show ?thesis using e f assms(1,2) len bal k(3)
      by (auto simp: smooth_known_hand_def note_frame_stats skel_ok_def call_ok_def Let_def
          intro!: list_all_update split: prod.splits)
  qed
qed

lemma create_skeleton_ok: "skel_ok s \<Longrightarrow> skel_ok (DetourPublicCreateSkeletonComponent r hnd p s)"
  by (auto simp: DetourPublicCreateSkeletonComponent_def skeleton_hand_def skel_ok_def Let_def ran_def hand_typed_def list_all_length
      nth_list_update split: option.splits if_splits)

lemma skel_hands_new: "list_all hand_typed (replicate 2 zero_hand)"
  by (simp add: zero_hand_def hand_typed_def bone_typed_def zero_bone_def list_all_length)

lemma skel_step_ok:
  assumes "skel_ok s" "skel_event_ok e" "skel_step M e s = (s', out)"
  shows "skel_ok s' \<and> list_all call_ok out"
proof (cases e)
  case (SkUpdate nd ns c)
  then show ?thesis using assms update_skeleton_ok [of s c M nd ns] by (auto split: prod.splits)
next
  case (SkCreate r h p)
  then show ?thesis using assms create_skeleton_ok [of s r h p] by auto
next
  case (SkShutdown a b c)
  then show ?thesis using assms by (auto simp: skeletal_Shutdown_def skel_ok_def Let_def list_all_length hand_typed_def)
next
  case (SkInit d f)
  then show ?thesis using assms skel_hands_new
    by (auto simp: skeletal_Init_def skel_ok_def zero_hand_stats_def list_all_length)
qed (use assms in \<open>auto simp: skel_ok_def\<close>)

lemma skel_run_ok:
  "skel_ok s \<Longrightarrow> list_all skel_event_ok es \<Longrightarrow> skel_run M es s = (s', out) \<Longrightarrow> skel_ok s' \<and> list_all call_ok out"
proof (induction es arbitrary: s out)
  case (Cons e es)
  then show ?case using skel_step_ok [of s e M] by (fastforce split: prod.splits)
qed simp

lemma skel_ok_new: "skel_ok Skel_new"
  using skel_hands_new by (simp add: Skel_new_def skel_ok_def zero_hand_stats_def list_all_length)


section \<open>The envelope of the raw frames\<close>

definition bones_in :: "(nat \<Rightarrow> nat \<Rightarrow> rat \<times> rat) \<Rightarrow> VRBoneTransform list \<Rightarrow> bool" where
  "bones_in B bs \<longleftrightarrow> (\<forall>i < 31. \<forall>k < 3. coord_in (B i k) (bone_position (bs ! i) ! k))"

definition call_in :: "(nat \<Rightarrow> nat \<Rightarrow> rat \<times> rat) \<Rightarrow> SkelCall \<Rightarrow> bool" where
  "call_in B c = (case sc_transforms c of None \<Rightarrow> True | Some bs \<Rightarrow> sc_count c = 31 \<longrightarrow> bones_in B bs)"

fun skel_event_in :: "(nat \<Rightarrow> nat \<Rightarrow> rat \<times> rat) \<Rightarrow> skel_event \<Rightarrow> bool" where
  "skel_event_in B (SkUpdate nd ns c) = call_in B c"
| "skel_event_in B _ = True"

definition skel_in :: "(nat \<Rightarrow> nat \<Rightarrow> rat \<times> rat) \<Rightarrow> Skel \<Rightarrow> bool" where
  "skel_in B s \<longleftrightarrow> list_all (\<lambda>h. hs_initialized h \<longrightarrow> bones_in B (hs_previous h)) (g_handState s)"

lemma smooth_bone_in:
  assumes "\<forall>k < 3. coord_in (b k) (bone_position p ! k)" "\<forall>k < 3. coord_in (b k) (bone_position v ! k)"
    "\<forall>k. box_ok (b k)" "\<not> 1 \<le> SmoothnessToAlpha s" "k < 3"
  shows "coord_in (b k) (bone_position (smooth_bone M p v (SmoothnessToAlpha s)) ! k)"
proof -
  obtain t where t: "SmoothnessToAlpha s = Fin t" "1 / 32 \<le> t" "t \<le> 255 / 256" using alpha_range [OF assms(4)] by blast
  have c: "coord_in (b j) (Lerpf (bone_position p ! j) (bone_position v ! j) (SmoothnessToAlpha s))" if "j < 3" for j
    by (rule Lerpf_coord [OF _ _ _ t(1)]) (use assms(1-3) t that in auto)
  have "k = 0 \<or> k = 1 \<or> k = 2" using assms(5) by linarith
  then show ?thesis using c by (auto simp: smooth_bone_def)
qed

lemma smooth_frame_in:
  assumes "hs_initialized st \<longrightarrow> bones_in B (hs_previous st)" "bones_in B inp" "length inp = 31" "\<forall>i k. box_ok (B i k)"
  shows "bones_in B (hs_previous (fst (smooth_frame M cfg h inp st))) \<and> bones_in B (snd (smooth_frame M cfg h inp st))"
proof (cases "hs_initialized st")
  case True
  have "coord_in (B i k) (bone_position (bone_out M cfg h (hs_previous st) inp i) ! k)" if "i < 31" "k < 3" for i k
    using that assms True smooth_bone_in [of "B i" "hs_previous st ! i" "inp ! i"]
    by (auto simp: bone_out_def bones_in_def Let_def split: option.splits)
  then show ?thesis using True by (simp add: smooth_frame_def Let_def bones_in_def)
qed (use assms in \<open>simp add: smooth_frame_def\<close>)

lemma update_skeleton_in:
  assumes "skel_ok s" "call_ok c" "skel_in B s" "call_in B c" "\<forall>i k. box_ok (B i k)"
    "DetourPublicUpdateSkeletonComponent M nd ns c s = (s', c')"
  shows "skel_in B s' \<and> call_in B c'"
proof (cases "\<exists>d inp h. g_driver s = Some d \<and> sc_transforms c = Some inp \<and> sc_count c = 31 \<and> g_handleToHandedness s (sc_component c) = Some h")
  case False
  then show ?thesis using assms
    by (auto simp: DetourPublicUpdateSkeletonComponent_def skel_in_def split: option.splits if_splits prod.splits)
next
  case True
  then obtain d inp h where k: "g_driver s = Some d" "sc_transforms c = Some inp" "sc_count c = 31"
    "g_handleToHandedness s (sc_component c) = Some h" by blast
  have h: "h < length (g_handState s)" using skel_hand_range [OF assms(1) k(4)] assms(1) by (simp add: skel_ok_def)
  have "hs_initialized (g_handState s ! h) \<longrightarrow> bones_in B (hs_previous (g_handState s ! h))" "bones_in B inp" "length inp = 31"
    using assms(2-4) h k by (auto simp: skel_in_def list_all_length call_in_def call_ok_def)
  note f = smooth_frame_in [OF this assms(5), of M "GetFingerSmoothingConfig d" h]
  show ?thesis using assms(3,4,6) f k
    by (auto simp: DetourPublicUpdateSkeletonComponent_def smooth_known_hand_def skel_in_def call_in_def Let_def
        intro!: list_all_update split: prod.splits if_splits)
qed

lemma skel_step_in:
  assumes "skel_ok s" "skel_in B s" "skel_event_ok e" "skel_event_in B e" "\<forall>i k. box_ok (B i k)" "skel_step M e s = (s', out)"
  shows "skel_in B s' \<and> list_all (call_in B) out"
proof (cases e)
  case (SkUpdate nd ns c)
  then show ?thesis using assms update_skeleton_in [of s c B M nd ns] by (auto split: prod.splits)
next
  case (SkCreate r h p)
  then show ?thesis using assms(2,6)
    by (auto simp: DetourPublicCreateSkeletonComponent_def skel_in_def Let_def intro!: list_all_update split: option.splits)
next
  case (SkShutdown a b c)
  then show ?thesis using assms(6) by (auto simp: skeletal_Shutdown_def skel_in_def Let_def list_all_length)
next
  case (SkInit d f)
  then show ?thesis using assms(6) by (auto simp: skeletal_Init_def skel_in_def zero_hand_def list_all_length)
qed (use assms in \<open>auto simp: skel_in_def\<close>)

lemma skel_run_in:
  assumes "\<forall>i k. box_ok (B i k)"
  shows "skel_ok s \<Longrightarrow> skel_in B s \<Longrightarrow> list_all skel_event_ok es \<Longrightarrow> list_all (skel_event_in B) es \<Longrightarrow>
    skel_run M es s = (s', out) \<Longrightarrow> list_all (call_in B) out"
proof (induction es arbitrary: s out)
  case (Cons e es)
  obtain s1 o1 where s1: "skel_step M e s = (s1, o1)" by fastforce
  obtain o2 where o2: "skel_run M es s1 = (s', o2)" "out = o1 @ o2" using Cons.prems(5) s1 by (auto split: prod.splits)
  have "skel_ok s1" "skel_in B s1" "list_all (call_in B) o1"
    using skel_step_ok [OF _ _ s1] skel_step_in [OF _ _ _ _ assms s1] Cons.prems by auto
  then show ?case using Cons.IH [of s1 o2] Cons.prems(3,4) o2 by simp
qed simp

section \<open>Properties\<close>

definition demo_trig :: Trig where
  "demo_trig = \<lparr>acosf = (\<lambda>_. 0), sinf = (\<lambda>_. 0), cosf = (\<lambda>_. 1)\<rparr>"

definition demo_bone :: "rat \<Rightarrow> VRBoneTransform" where
  "demo_bone x = \<lparr>bone_position = [Fin x, Fin 0, Fin 0, Fin 1], bone_orientation = \<lparr>qf_w = 1, qf_x = 0, qf_y = 0, qf_z = 0\<rparr>\<rparr>"

definition demo_call :: "rat \<Rightarrow> SkelCall" where
  "demo_call x = \<lparr>sc_component = 7, sc_motionRange = 0, sc_transforms = Some (replicate 31 (demo_bone x)), sc_count = 31\<rparr>"

definition demo_finger_cfg :: "bool \<Rightarrow> byte \<Rightarrow> FingerSmoothingConfig" where
  "demo_finger_cfg b n = \<lparr>fs_master_enabled = b, fs_smoothness = n, fs_finger_mask = 0x03FF, fs_per_finger_smoothness = replicate 10 0\<rparr>"

definition demo_skel_events :: "bool \<Rightarrow> byte \<Rightarrow> skel_event list" where
  "demo_skel_events b n = [SkInit DriverConfigs_new 10000000, SkConfig (demo_finger_cfg b n),
     SkCreate 0 (Some 7) (Some ''/skeleton/hand/left''), SkUpdate 1 2 (demo_call 0)]"

text \<open>C22. The skeletal hook works on arrays of the sizes of the source whatever SteamVR and the clients do:
  two hands of 31 bones with four coordinates each, handles mapped to one of the two hands, so that no
  index of the detours leaves its array, and every call goes on to the original function with an array of
  the count it announces. The counters balance: a frame on a known hand is smoothed or passed through.\<close>

theorem skeletal_state_typed:
  assumes "list_all skel_event_ok es" "skel_run M es Skel_new = (s, out)"
  shows "skel_ok s \<and> list_all call_ok out"
  by (rule skel_run_ok [OF skel_ok_new assms])

theorem skeletal_state_typed_witness:
  "skel_ok (fst (skel_run demo_trig (demo_skel_events True 50) Skel_new))"
proof -
  have "list_all skel_event_ok (demo_skel_events True 50)"
    by (simp add: demo_skel_events_def call_ok_def demo_call_def demo_bone_def bone_typed_def list_all_iff)
  from skeletal_state_typed [OF this] show ?thesis by (metis prod.collapse)
qed

text \<open>C21. Smoothing never overshoots. Whatever sequence of skeleton creations, configuration changes and
  frames the hook sees, every position coordinate it forwards lies in the interval that holds the raw
  coordinates received for that bone, in exact single-precision arithmetic with all rounding errors.\<close>

theorem skeletal_within_envelope:
  assumes "list_all skel_event_ok es" "list_all (skel_event_in B) es" "\<forall>i k. box_ok (B i k)"
    "skel_run M es Skel_new = (s, out)"
  shows "list_all (call_in B) out"
proof -
  have "skel_in B Skel_new" by (simp add: skel_in_def Skel_new_def zero_hand_def list_all_length)
  then show ?thesis using skel_run_in [OF assms(3) skel_ok_new] assms(1,2,4) by blast
qed

theorem skeletal_within_envelope_witness:
  "list_all (call_in (\<lambda>_ _. (0, 1))) (snd (skel_run demo_trig (demo_skel_events True 50 @ [SkUpdate 3 4 (demo_call 1)]) Skel_new))"
proof -
  let ?es = "demo_skel_events True 50 @ [SkUpdate 3 4 (demo_call 1)]"
  have r: "rnd 24 1 = 1" by code_simp
  have "list_all skel_event_ok ?es" "list_all (skel_event_in (\<lambda>_ _. (0, 1))) ?es"
    by (simp_all add: demo_skel_events_def call_ok_def call_in_def bones_in_def coord_in_def demo_call_def demo_bone_def
        bone_typed_def list_all_iff r numeral_3_eq_3 less_Suc_eq)
  from skeletal_within_envelope [OF this] show ?thesis by (simp add: box_ok_def) (metis prod.collapse)
qed


lemma bone_out_selected:
  assumes "bone_out M cfg h prev inp i \<noteq> inp ! i"
  shows "\<exists>f < 5. FingerIndexForBone i = Some f \<and> drop_bit (h * 5 + f) (fs_finger_mask cfg) AND 1 \<noteq> 0
    \<and> finger_strength cfg (h * 5) f \<noteq> 0"
proof -
  obtain f where f: "FingerIndexForBone i = Some f" "drop_bit (h * 5 + f) (fs_finger_mask cfg) AND 1 \<noteq> 0"
    "\<not> 1 \<le> SmoothnessToAlpha (finger_strength cfg (h * 5) f)"
    using assms by (auto simp: bone_out_def Let_def split: option.splits if_splits)
  have "finger_strength cfg (h * 5) f \<noteq> 0"
  proof
    assume "finger_strength cfg (h * 5) f = 0"
    then show False using f(3) SmoothnessToAlpha_0 by (simp add: one_fp_def)
  qed
  then show ?thesis using f FingerIndexForBone_range [OF f(1)] by blast
qed

text \<open>The detour changes nothing but what the settings select: a call it does not recognise is forwarded
  as it came, and in a recognised one a bone differs from the raw bone only when it belongs to a finger
  whose mask bit is set and whose strength is not zero, on a hand that has had a frame since it was
  created. The other hand's state is not touched.\<close>

theorem skeletal_smooths_only_selected:
  assumes "skel_ok s" "call_ok c" "DetourPublicUpdateSkeletonComponent M nd ns c s = (s', c')" "c' \<noteq> c"
  shows "\<exists>d inp out h. g_driver s = Some d \<and> g_handleToHandedness s (sc_component c) = Some h
    \<and> c = c\<lparr>sc_transforms := Some inp\<rparr> \<and> c' = c\<lparr>sc_transforms := Some out\<rparr> \<and> sc_count c = 31
    \<and> hs_initialized (g_handState s ! h) \<and> g_handState s' ! (1 - h) = g_handState s ! (1 - h)
    \<and> (\<forall>i < 31. out ! i \<noteq> inp ! i \<longrightarrow>
        (\<exists>f < 5. FingerIndexForBone i = Some f \<and> drop_bit (h * 5 + f) (fs_finger_mask (GetFingerSmoothingConfig d)) AND 1 \<noteq> 0
          \<and> finger_strength (GetFingerSmoothingConfig d) (h * 5) f \<noteq> 0))"
proof -
  obtain d inp h where k: "g_driver s = Some d" "sc_transforms c = Some inp" "sc_count c = 31"
    "g_handleToHandedness s (sc_component c) = Some h"
    using assms(3,4) by (auto simp: DetourPublicUpdateSkeletonComponent_def split: option.splits if_splits prod.splits)
  let ?cfg = "GetFingerSmoothingConfig d" and ?st = "g_handState s ! h"
  have e: "smooth_known_hand M ns ?cfg h c inp (note_frame nd h s) = (s', c')"
    using assms(3) k by (simp add: DetourPublicUpdateSkeletonComponent_def Let_def)
  have h: "h < 2" by (rule skel_hand_range [OF assms(1) k(4)])
  have len: "length inp = 31" using assms(2) k by (simp add: call_ok_def)
  have same: "c = c\<lparr>sc_transforms := Some inp\<rparr>" using k(2) by simp
  have c': "c' = c\<lparr>sc_transforms := Some (snd (smooth_frame M ?cfg h inp ?st))\<rparr>"
    and s': "g_handState s' = (g_handState s)[h := fst (smooth_frame M ?cfg h inp ?st)]"
    using e assms(4) by (auto simp: smooth_known_hand_def Let_def split: prod.splits if_splits)
  have init: "hs_initialized ?st" using c' assms(4) len same by (auto simp: smooth_frame_def split: if_splits)
  then have "snd (smooth_frame M ?cfg h inp ?st) ! i = bone_out M ?cfg h (hs_previous ?st) inp i" if "i < 31" for i
    using that by (simp add: smooth_frame_def Let_def)
  then have "\<forall>i < 31. snd (smooth_frame M ?cfg h inp ?st) ! i \<noteq> inp ! i \<longrightarrow>
      (\<exists>f < 5. FingerIndexForBone i = Some f \<and> drop_bit (h * 5 + f) (fs_finger_mask ?cfg) AND 1 \<noteq> 0 \<and> finger_strength ?cfg (h * 5) f \<noteq> 0)"
    using bone_out_selected by metis
  moreover have "g_handState s' ! (1 - h) = g_handState s ! (1 - h)" using s' h by (auto simp: less_2_cases_iff)
  ultimately show ?thesis using k same c' init by blast
qed

lemma fingers_set [simp]:
  "length (fs_per_finger_smoothness cfg) = 10 \<Longrightarrow> GetFingerSmoothingConfig (SetFingerSmoothingConfig cfg d) = cfg"
  by (simp add: GetFingerSmoothingConfig_def read_fingers_def SetFingerSmoothingConfig_def
      store_finger_header_def store_finger_low_def unpack_mixed)

lemma bone_out_settings:
  assumes "fs_finger_mask a = fs_finger_mask b" "fs_smoothness a = fs_smoothness b"
    "fs_per_finger_smoothness a = fs_per_finger_smoothness b"
  shows "bone_out M a = bone_out M b" "finger_strength a = finger_strength b"
proof -
  show f: "finger_strength a = finger_strength b" by (intro ext) (simp only: finger_strength_def assms)
  show "bone_out M a = bone_out M b" by (intro ext) (simp only: bone_out_def f assms)
qed

definition demo_skel_state :: "bool \<Rightarrow> byte \<Rightarrow> Skel" where
  "demo_skel_state b n = Skel_new\<lparr>g_driver := Some (SetFingerSmoothingConfig (demo_finger_cfg b n) DriverConfigs_new),
     g_handleToHandedness := [7 \<mapsto> 0], g_handState := [\<lparr>hs_initialized = True, hs_previous = replicate 31 (demo_bone 0)\<rparr>, zero_hand]\<rparr>"

lemma demo_skel_simps:
  "sc_transforms (demo_call 1) = Some (replicate 31 (demo_bone 1))" "sc_count (demo_call 1) = 31" "sc_component (demo_call 1) = 7"
  "g_driver (demo_skel_state b n) = Some (SetFingerSmoothingConfig (demo_finger_cfg b n) DriverConfigs_new)"
  "g_handleToHandedness (demo_skel_state b n) = [7 \<mapsto> 0]" "length (fs_per_finger_smoothness (demo_finger_cfg b n)) = 10"
  "g_handState (demo_skel_state b n) ! 0 = \<lparr>hs_initialized = True, hs_previous = replicate 31 (demo_bone 0)\<rparr>"
  by (simp_all add: demo_call_def demo_skel_state_def demo_finger_cfg_def)

text \<open>A frame of the demo, smoothed at full strength: the first thumb bone moves a twentieth of the way.\<close>

lemma demo_bone_moves: "Lerpf (Fin 0) (Fin 1) (SmoothnessToAlpha 100) \<noteq> Fin 1" "\<not> 1 \<le> SmoothnessToAlpha 100"
proof -
  obtain t where t: "SmoothnessToAlpha 100 = Fin t" "1 / 32 \<le> t" "t \<le> 255 / 256" using alpha_nonzero [of 100] by auto
  have ex: "fround (1/32) = (Fin (1/32) :: float32)" "fround (255/256) = (Fin (255/256) :: float32)" "fround 1 = (Fin 1 :: float32)"
    by code_simp+
  obtain r where r: "fround t = (Fin r :: float32)" "1/32 \<le> r" "r \<le> 255/256" using fround_between [OF ex(1,2) t(2,3)] by blast
  then obtain u where "fround r = (Fin u :: float32)" "u \<le> 255/256" using fround_between [OF ex(1,2) r(2,3)] by blast
  then show "Lerpf (Fin 0) (Fin 1) (SmoothnessToAlpha 100) \<noteq> Fin 1"
    by (simp add: Lerpf_def t(1) minus_fp_def ex(3) r(1))
  show "\<not> 1 \<le> SmoothnessToAlpha 100" using t by (simp add: one_fp_def)
qed

lemma demo_frame:
  "snd (DetourPublicUpdateSkeletonComponent M nd ns (demo_call 1) (demo_skel_state b 100)) \<noteq> demo_call 1"
proof -
  let ?cfg = "demo_finger_cfg b 100"
  have any: "anySmoothing ?cfg 0" unfolding anySmoothing_def by (rule bexI [of _ 0]) (simp_all add: finger_strength_def demo_finger_cfg_def)
  have fs: "finger_strength ?cfg 0 0 = 100" by (simp add: finger_strength_def demo_finger_cfg_def)
  have mask: "drop_bit 0 (fs_finger_mask ?cfg) AND 1 \<noteq> 0" by (simp add: demo_finger_cfg_def)
  have fi: "FingerIndexForBone 2 = Some 0" by (simp add: FingerIndexForBone_def)
  have "bone_position (bone_out M ?cfg 0 (replicate 31 (demo_bone 0)) (replicate 31 (demo_bone 1)) 2) ! 0
      = Lerpf (Fin 0) (Fin 1) (SmoothnessToAlpha 100)"
    using mask demo_bone_moves(2) by (simp add: bone_out_def fi fs Let_def smooth_bone_def demo_bone_def)
  then have ne: "bone_out M ?cfg 0 (replicate 31 (demo_bone 0)) (replicate 31 (demo_bone 1)) 2 \<noteq> demo_bone 1"
    using demo_bone_moves(1) by (auto simp: demo_bone_def)
  have "map (bone_out M ?cfg 0 (replicate 31 (demo_bone 0)) (replicate 31 (demo_bone 1))) [0..<31] \<noteq> replicate 31 (demo_bone 1)"
  proof
    assume "map (bone_out M ?cfg 0 (replicate 31 (demo_bone 0)) (replicate 31 (demo_bone 1))) [0..<31] = replicate 31 (demo_bone 1)"
    from arg_cong [OF this, of "\<lambda>xs. xs ! 2"] ne show False by (simp add: numeral_2_eq_2)
  qed
  then show ?thesis using any
    by (simp add: DetourPublicUpdateSkeletonComponent_def smooth_known_hand_def demo_skel_simps Let_def smooth_frame_def demo_call_def)
qed

theorem skeletal_smooths_only_selected_witness:
  "\<exists>h. g_handleToHandedness (demo_skel_state True 100) 7 = Some h \<and> hs_initialized (g_handState (demo_skel_state True 100) ! h)"
proof -
  let ?s = "demo_skel_state True 100" and ?r = "DetourPublicUpdateSkeletonComponent demo_trig 0 0 (demo_call 1) (demo_skel_state True 100)"
  have ok: "skel_ok ?s" "call_ok (demo_call 1)" using skel_hands_new
    by (simp_all add: demo_skel_state_def Skel_new_def skel_ok_def hand_typed_def zero_hand_stats_def list_all_iff
        bone_typed_def demo_bone_def demo_call_def call_ok_def)
  from skeletal_smooths_only_selected [OF ok, of demo_trig 0 0 "fst ?r" "snd ?r"] demo_frame [of demo_trig 0 0 True]
  show ?thesis by (auto simp: demo_skel_simps)
qed

text \<open>The master switch of the finger settings is never read: the detour forwards the same bones with the
  switch off as with it on, and a frame sent while it is off is smoothed.\<close>

theorem finger_master_switch_ignored:
  assumes "length (fs_per_finger_smoothness cfg) = 10"
  shows "snd (DetourPublicUpdateSkeletonComponent M nd ns c
      (s\<lparr>g_driver := Some (SetFingerSmoothingConfig (cfg\<lparr>fs_master_enabled := False\<rparr>) d)\<rparr>)) =
    snd (DetourPublicUpdateSkeletonComponent M nd ns c
      (s\<lparr>g_driver := Some (SetFingerSmoothingConfig (cfg\<lparr>fs_master_enabled := True\<rparr>) d)\<rparr>))
    \<and> snd (DetourPublicUpdateSkeletonComponent M nd ns (demo_call 1) (demo_skel_state False 100)) \<noteq> demo_call 1"
proof -
  let ?off = "cfg\<lparr>fs_master_enabled := False\<rparr>" and ?on = "cfg\<lparr>fs_master_enabled := True\<rparr>"
  note eq = bone_out_settings [of ?off ?on]
  have fr: "smooth_frame M ?off h inp st = smooth_frame M ?on h inp st" and any: "anySmoothing ?off h = anySmoothing ?on h" for h inp st
    using eq by (simp_all add: smooth_frame_def anySmoothing_def)
  have k: "snd (smooth_known_hand M ns ?off h c inp s1) = snd (smooth_known_hand M ns ?on h c inp s2)"
    if "g_handState s1 = g_handState s2" for h inp s1 s2
    using that by (simp add: smooth_known_hand_def fr any Let_def split: prod.split)
  have "snd (DetourPublicUpdateSkeletonComponent M nd ns c (s\<lparr>g_driver := Some (SetFingerSmoothingConfig ?off d)\<rparr>)) =
      snd (DetourPublicUpdateSkeletonComponent M nd ns c (s\<lparr>g_driver := Some (SetFingerSmoothingConfig ?on d)\<rparr>))"
    using assms by (auto simp: DetourPublicUpdateSkeletonComponent_def Let_def intro!: k split: option.split)
  then show ?thesis using demo_frame by blast
qed

theorem finger_master_switch_ignored_witness:
  "snd (DetourPublicUpdateSkeletonComponent demo_trig 0 0 (demo_call 1) (demo_skel_state False 100)) \<noteq> demo_call 1"
  using finger_master_switch_ignored [of "demo_finger_cfg True 100" demo_trig 0 0 "demo_call 1"] by (simp add: demo_finger_cfg_def)

text \<open>Frames that arrive while no finger is to be smoothed leave the stored frame of the hand as it was, so
  when smoothing is turned on again the first frame is blended with the pose from before it was turned off.\<close>

theorem toggle_resumes_from_stale_frame:
  assumes "g_driver s = Some d" "\<forall>h \<in> ran (g_handleToHandedness s). \<not> anySmoothing (GetFingerSmoothingConfig d) h" "list_all (\<lambda>e. \<exists>nd ns c. e = SkUpdate nd ns c) es"
    "skel_run M es s = (s', out)"
  shows "g_handState s' = g_handState s \<and> g_driver s' = Some d"
  using assms
proof (induction es arbitrary: s out)
  case (Cons e es)
  obtain nd ns c where e: "e = SkUpdate nd ns c" using Cons.prems(3) by auto
  obtain s1 c1 where s1: "DetourPublicUpdateSkeletonComponent M nd ns c s = (s1, c1)" by fastforce
  have keep: "g_handState s1 = g_handState s" "g_driver s1 = g_driver s" "g_handleToHandedness s1 = g_handleToHandedness s"
    using s1 Cons.prems(1,2)
    by (auto simp: DetourPublicUpdateSkeletonComponent_def smooth_known_hand_def Let_def ran_def split: option.splits if_splits)
  obtain o2 where "skel_run M es s1 = (s', o2)" using Cons.prems(4) e s1 by (auto split: prod.splits)
  from Cons.IH [OF _ _ _ this] Cons.prems(1-3) keep show ?case by simp
qed simp

theorem toggle_resumes_from_stale_frame_witness:
  "g_handState (fst (skel_run demo_trig [SkUpdate 0 0 (demo_call 1)] (demo_skel_state True 0))) ! 0
     = \<lparr>hs_initialized = True, hs_previous = replicate 31 (demo_bone 0)\<rparr>"
proof -
  have "finger_strength (demo_finger_cfg True 0) 0 f = 0" if "f < 5" for f using that by (simp add: finger_strength_def demo_finger_cfg_def)
  then have no: "\<not> anySmoothing (demo_finger_cfg True 0) 0" by (auto simp: anySmoothing_def)
  obtain s' out where r: "skel_run demo_trig [SkUpdate 0 0 (demo_call 1)] (demo_skel_state True 0) = (s', out)" by fastforce
  from toggle_resumes_from_stale_frame [OF demo_skel_simps(4) _ _ r] no show ?thesis
    by (simp only: r fst_conv) (simp add: demo_skel_simps)
qed

lemma fp_neg_neg: "- (- a) = (a :: 'p::len fp)"
  by (cases a) auto

lemma fp_neg_times: "a * (- b) = - (a * b :: 'p::len fp)"
  by (cases a; cases b) (auto simp: fround_uminus)

lemma fp_neg_plus: "- a + - b = - (a + b :: 'p::len fp)"
  by (cases a; cases b) (auto simp: fround_uminus [symmetric])

text \<open>A quaternion and its negative stand for the same rotation, and the smoothing treats them alike: whenever the
  incoming and the previous orientation are not orthogonal, negating the incoming one changes nothing.\<close>

theorem slerp_double_cover:
  assumes "quat_dot a b \<noteq> 0" "\<not> isnan (quat_dot a b)"
  shows "SlerpQuat M a (quat_neg b) t = SlerpQuat M a b t"
proof -
  have dot: "quat_dot a (quat_neg b) = - quat_dot a b"
    by (simp add: quat_dot_def quat_neg_def fp_neg_times fp_neg_plus)
  have neg: "quat_neg (quat_neg b) = b"
    by (cases b) (simp add: quat_neg_def fp_neg_neg)
  show ?thesis using assms
    by (cases "quat_dot a b") (auto simp: SlerpQuat_def Let_def dot neg zero_fp_def)
qed

theorem slerp_double_cover_witness:
  "SlerpQuat demo_trig (bone_orientation (demo_bone 0)) (quat_neg (bone_orientation (demo_bone 0))) 1
     = SlerpQuat demo_trig (bone_orientation (demo_bone 0)) (bone_orientation (demo_bone 0)) 1"
proof -
  have "quat_dot (bone_orientation (demo_bone 0)) (bone_orientation (demo_bone 0)) = Fin 1" by code_simp
  then show ?thesis using slerp_double_cover [of "bone_orientation (demo_bone 0)" "bone_orientation (demo_bone 0)" demo_trig 1]
    by (simp add: zero_fp_def)
qed

end
