(* ===== verification/PoseShmem.thy ===== *)
theory PoseShmem
  imports Protocol ShmemSegment Seqlock
begin

text \<open>
  \<open>protocol::DriverPoseShmem\<close>: the ring of 65536 driver poses with its monotone index, the
  overlay's cursor over it, the last good pose per device, and the telemetry counters. The
  ring is a function from slot numbers; only slots below \<open>BUFFERED_SAMPLES\<close> are used. The
  pointer \<open>pData\<close> is an option, absent when the segment is not mapped.
\<close>

section \<open>Data\<close>

record AugmentedPose =
  sample_time :: u64
  deviceId :: u32
  aug_pose :: DriverPose_t

datatype TelemetryField =
  TELEMETRY_FALLBACK_APPLY | TELEMETRY_PER_ID_APPLY | TELEMETRY_QUASH_APPLY | TELEMETRY_OTHER

record Telemetry =
  fallback_apply_count :: u64
  per_id_apply_count :: u64
  quash_apply_count :: u64

definition BUFFERED_SAMPLES :: nat where
  "BUFFERED_SAMPLES = 64 * 1024"

definition POSE_SHMEM_MAGIC :: u32 where
  "POSE_SHMEM_MAGIC = 0xCA11B8A7"

definition POSE_SHMEM_VERSION :: u32 where
  "POSE_SHMEM_VERSION = 1"

record PoseShmemData =
  ps_magic :: u32
  ps_version :: u32
  ps_telemetry :: Telemetry
  ps_index :: u64
  ps_poses :: "nat \<Rightarrow> AugmentedPose"

record PoseReader =
  cursor :: u64
  lastPose :: "nat \<Rightarrow> AugmentedPose"

section \<open>Life cycle\<close>

definition DriverPoseShmem_Create ::
    "bool \<Rightarrow> bool \<Rightarrow> PoseShmemData \<Rightarrow> shm_client \<Rightarrow> (shm_client \<times> PoseShmemData) \<times> bool" where
  "DriverPoseShmem_Create f m d c = (let (c1, ok) = shm_Create f m c
     in ((c1, if ok then d\<lparr>ps_magic := POSE_SHMEM_MAGIC, ps_version := POSE_SHMEM_VERSION\<rparr> else d), ok))"

definition DriverPoseShmem_Open ::
    "bool \<Rightarrow> bool \<Rightarrow> u32 \<times> u32 \<Rightarrow> shm_client \<Rightarrow> shm_client \<times> shmem_error option" where
  "DriverPoseShmem_Open = pose_shm_Open POSE_SHMEM_MAGIC POSE_SHMEM_VERSION"

interpretation pose_seg: shm_class DriverPoseShmem_Open POSE_SHMEM_MAGIC POSE_SHMEM_VERSION
  unfolding DriverPoseShmem_Open_def by (rule pose_shm_Open_class)

section \<open>Reading and writing poses\<close>

text \<open>The copy loop: \<open>while (cursor < cur_index) { cb(poses[cursor % N]); cursor++; }\<close>.\<close>

function read_poses_loop :: "(nat \<Rightarrow> AugmentedPose) \<Rightarrow> u64 \<Rightarrow> u64 \<Rightarrow> AugmentedPose list" where
  "read_poses_loop ps cur c =
     (if c < cur then ps (unat c mod BUFFERED_SAMPLES) # read_poses_loop ps cur (c + 1) else [])"
  by pat_completeness auto
termination
proof (relation "measure (\<lambda>(ps, cur, c). unat cur - unat c)")
  fix ps :: "nat \<Rightarrow> AugmentedPose" and cur c :: u64
  assume "c < cur"
  then have "unat (c + 1) = unat c + 1" "unat c < unat cur"
    by (simp_all add: unat_inc word_less_nat_alt)
  then show "((ps, cur, c + 1), ps, cur, c) \<in> measure (\<lambda>(ps, cur, c). unat cur - unat c)" by simp
qed simp

declare read_poses_loop.simps [simp del]

text \<open>The delivered poses are the calls of the callback, in order.\<close>

definition ReadNewPoses :: "PoseShmemData option \<Rightarrow> PoseReader \<Rightarrow> shmem_error + PoseReader \<times> AugmentedPose list" where
  "ReadNewPoses pData rd = (case pData of
       None \<Rightarrow> Inl NotOpen
     | Some d \<Rightarrow>
        let cur = ps_index d; half = (of_nat (BUFFERED_SAMPLES div 2) :: u64);
            c = (if cur < cursor rd \<or> cur - cursor rd > half
                 then (if cur < half then cur else cur - half) else cursor rd)
        in Inr (rd\<lparr>cursor := if c < cur then cur else c\<rparr>, read_poses_loop (ps_poses d) cur c))"

definition running_ok :: "AugmentedPose \<Rightarrow> bool" where
  "running_ok p \<longleftrightarrow> poseIsValid (aug_pose p) \<and> pose_result (aug_pose p) = TrackingResult_Running_OK"

definition note_pose :: "AugmentedPose \<Rightarrow> (nat \<Rightarrow> AugmentedPose) \<Rightarrow> nat \<Rightarrow> AugmentedPose" where
  "note_pose p lp = (if running_ok p then lp(unat (deviceId p) := p) else lp)"

text \<open>\<open>GetPose\<close> returns the pose and its time, or nothing for an index out of range; the
  \<open>int\<close> index is its 32-bit pattern.\<close>

definition GetPose :: "u32 \<Rightarrow> PoseShmemData option \<Rightarrow> PoseReader \<Rightarrow>
    shmem_error + PoseReader \<times> (DriverPose_t \<times> u64) option" where
  "GetPose index pData rd = (case ReadNewPoses pData rd of
       Inl e \<Rightarrow> Inl e
     | Inr (rd1, l) \<Rightarrow>
        let rd2 = rd1\<lparr>lastPose := fold note_pose l (lastPose rd1)\<rparr>
        in if 0 \<le> sint index \<and> unat index < k_unMaxTrackedDeviceCount
           then Inr (rd2, Some (aug_pose (lastPose rd2 (unat index)), sample_time (lastPose rd2 (unat index))))
           else Inr (rd2, None))"

text \<open>\<open>SetPose\<close>, with the performance counter as an input. The comparison with the unsigned
  device count is unsigned.\<close>

definition SetPose :: "u64 \<Rightarrow> u32 \<Rightarrow> DriverPose_t \<Rightarrow> PoseShmemData option \<Rightarrow> PoseShmemData option" where
  "SetPose now index pose pData = (if unat index \<ge> k_unMaxTrackedDeviceCount then pData
     else case pData of None \<Rightarrow> None | Some d \<Rightarrow>
       let aug = \<lparr>sample_time = now, deviceId = index, aug_pose = pose\<rparr>; cur = ps_index d + 1
       in Some (d\<lparr>ps_poses := (ps_poses d)(unat cur mod BUFFERED_SAMPLES := aug), ps_index := cur\<rparr>))"

section \<open>Telemetry\<close>

definition IncrementTelemetry :: "TelemetryField \<Rightarrow> PoseShmemData option \<Rightarrow> PoseShmemData option" where
  "IncrementTelemetry field pData = (case pData of None \<Rightarrow> None | Some d \<Rightarrow>
     let t = ps_telemetry d in Some (d\<lparr>ps_telemetry := (case field of
        TELEMETRY_FALLBACK_APPLY \<Rightarrow> t\<lparr>fallback_apply_count := fallback_apply_count t + 1\<rparr>
      | TELEMETRY_PER_ID_APPLY \<Rightarrow> t\<lparr>per_id_apply_count := per_id_apply_count t + 1\<rparr>
      | TELEMETRY_QUASH_APPLY \<Rightarrow> t\<lparr>quash_apply_count := quash_apply_count t + 1\<rparr>
      | TELEMETRY_OTHER \<Rightarrow> t)\<rparr>))"

definition GetTelemetry :: "PoseShmemData option \<Rightarrow> (u64 \<times> u64 \<times> u64) option" where
  "GetTelemetry pData = map_option (\<lambda>d. (fallback_apply_count (ps_telemetry d),
     per_id_apply_count (ps_telemetry d), quash_apply_count (ps_telemetry d))) pData"

section \<open>The ring as a history of poses\<close>

text \<open>\<open>ring_entry z h k\<close> is what slot \<open>k mod N\<close> holds while it is inside the window: pose
  number \<open>k\<close> of the history, counted from 1, and the initial content \<open>z\<close> for number 0.\<close>

definition ring_entry :: "AugmentedPose \<Rightarrow> AugmentedPose list \<Rightarrow> nat \<Rightarrow> AugmentedPose" where
  "ring_entry z h k = (z # h) ! k"

definition ring_ok :: "AugmentedPose \<Rightarrow> AugmentedPose list \<Rightarrow> PoseShmemData \<Rightarrow> bool" where
  "ring_ok z h d \<longleftrightarrow> length h < 2 ^ 64 \<and> ps_index d = of_nat (length h) \<and>
     (\<forall>k \<le> length h. length h < k + BUFFERED_SAMPLES \<longrightarrow>
        ps_poses d (k mod BUFFERED_SAMPLES) = ring_entry z h k)"

lemma BUFFERED_SAMPLES_pos [simp]: "0 < BUFFERED_SAMPLES"
  by (simp add: BUFFERED_SAMPLES_def)

lemma SetPose_ring_ok:
  assumes "ring_ok z h d" "unat i < k_unMaxTrackedDeviceCount" "length h + 1 < 2 ^ 64"
  shows "\<exists>d'. SetPose t i p (Some d) = Some d' \<and>
    ring_ok z (h @ [\<lparr>sample_time = t, deviceId = i, aug_pose = p\<rparr>]) d'"
proof -
  let ?a = "\<lparr>sample_time = t, deviceId = i, aug_pose = p\<rparr>" and ?n = "length h + 1"
  let ?d = "d\<lparr>ps_poses := (ps_poses d)(?n mod BUFFERED_SAMPLES := ?a), ps_index := of_nat ?n\<rparr>"
  have cur: "ps_index d + 1 = of_nat ?n" using assms(1) by (simp add: ring_ok_def)
  have s: "SetPose t i p (Some d) = Some ?d"
    using assms(2,3) unat_of_nat_u64 [of ?n] cur by (simp add: SetPose_def Let_def add.commute)
  have "ps_poses ?d (k mod BUFFERED_SAMPLES) = ring_entry z (h @ [?a]) k"
    if "k \<le> ?n" "?n < k + BUFFERED_SAMPLES" for k
  proof (cases "k = ?n")
    case True
    then show ?thesis by (simp add: ring_entry_def nth_append)
  next
    case False
    then have "?n mod BUFFERED_SAMPLES \<noteq> k mod BUFFERED_SAMPLES"
      using that by (intro mod_neq_window) auto
    then show ?thesis
      using assms(1) that False by (auto simp: ring_ok_def ring_entry_def nth_Cons nth_append split: nat.splits)
  qed
  then have "ring_ok z (h @ [?a]) ?d" using assms(3) by (simp add: ring_ok_def)
  with s show ?thesis by blast
qed

lemma read_poses_loop_map:
  assumes "c \<le> n" "n < 2 ^ 64"
  shows "read_poses_loop ps (of_nat n) (of_nat c) = map (\<lambda>k. ps (k mod BUFFERED_SAMPLES)) [c..<n]"
  using assms(1)
proof (induction "n - c" arbitrary: c)
  case 0
  then show ?case by (simp add: read_poses_loop.simps)
next
  case (Suc m)
  then have c: "c < n" by simp
  have lt: "(of_nat c :: u64) < of_nat n" using c assms(2) by (simp add: of_nat_less_u64)
  have "read_poses_loop ps (of_nat n) (of_nat (Suc c)) = map (\<lambda>k. ps (k mod BUFFERED_SAMPLES)) [Suc c..<n]"
    using Suc by (intro Suc.hyps(1)) auto
  moreover have "unat (of_nat c :: u64) = c" using c assms(2) by (intro unat_of_nat_u64) simp
  ultimately show ?case
    using c lt by (subst read_poses_loop.simps) (simp add: upt_conv_Cons add.commute)
qed

text \<open>Where a read starts: at the cursor, or half a ring back when the reader has fallen too far
  behind or the index went backwards (a new driver session).\<close>

definition read_start :: "nat \<Rightarrow> nat \<Rightarrow> nat" where
  "read_start n c = (if n < c \<or> n - c > BUFFERED_SAMPLES div 2
     then (if n < BUFFERED_SAMPLES div 2 then n else n - BUFFERED_SAMPLES div 2) else c)"

lemma ReadNewPoses_ring:
  assumes ok: "ring_ok z h d" and c: "cursor rd = of_nat c" "c < 2 ^ 64"
  shows "ReadNewPoses (Some d) rd = Inr (rd\<lparr>cursor := of_nat (length h)\<rparr>,
    map (ring_entry z h) [read_start (length h) c..<length h])"
proof -
  let ?n = "length h" and ?half = "BUFFERED_SAMPLES div 2"
  let ?s = "read_start ?n c"
  have n: "?n < 2 ^ 64" "ps_index d = of_nat ?n" using ok by (simp_all add: ring_ok_def)
  have half: "?half = 32768" by (simp add: BUFFERED_SAMPLES_def)
  have cmp: "(of_nat ?n < (of_nat c :: u64)) = (?n < c)" "(of_nat ?n < (of_nat ?half :: u64)) = (?n < ?half)"
    using n c half of_nat_less_u64 [of ?n c] of_nat_less_u64 [of ?n ?half] by simp_all
  have gap: "(of_nat ?half < of_nat ?n - (of_nat c :: u64)) = (?half < ?n - c)" if "\<not> ?n < c"
    using that n c of_nat_diff_u64 [of c ?n] of_nat_less_u64 [of ?half "?n - c"] half by simp
  have start: "(if of_nat ?n < (of_nat c :: u64) \<or> of_nat ?half < of_nat ?n - (of_nat c :: u64)
      then (if of_nat ?n < (of_nat ?half :: u64) then of_nat ?n else of_nat ?n - of_nat ?half)
      else of_nat c) = (of_nat ?s :: u64)"
    using cmp gap of_nat_diff_u64 [of ?half ?n] unfolding read_start_def by auto
  have s: "?s \<le> ?n" "?n < ?s + BUFFERED_SAMPLES"
    by (auto simp: read_start_def BUFFERED_SAMPLES_def)
  have body: "map (\<lambda>k. ps_poses d (k mod BUFFERED_SAMPLES)) [?s..<?n] = map (ring_entry z h) [?s..<?n]"
    using ok s by (auto simp: ring_ok_def)
  have fin: "(if (of_nat ?s :: u64) < of_nat ?n then of_nat ?n else of_nat ?s) = (of_nat ?n :: u64)"
    using s n of_nat_less_u64 [of ?s ?n] by (cases "?s = ?n") auto
  show ?thesis
    unfolding ReadNewPoses_def option.case n(2) c(1) Let_def start fin
    using read_poses_loop_map [OF s(1) n(1)] body by simp
qed

text \<open>A driver publishing batches of poses and an overlay reading after each batch.\<close>

type_synonym pose_update = "u64 \<times> u32 \<times> DriverPose_t"

definition publish_pose :: "pose_update \<Rightarrow> PoseShmemData option \<Rightarrow> PoseShmemData option" where
  "publish_pose u = (case u of (t, i, p) \<Rightarrow> SetPose t i p)"

definition augment :: "pose_update \<Rightarrow> AugmentedPose" where
  "augment u = (case u of (t, i, p) \<Rightarrow> \<lparr>sample_time = t, deviceId = i, aug_pose = p\<rparr>)"

fun run_batches :: "pose_update list list \<Rightarrow> PoseShmemData option \<Rightarrow> PoseReader \<Rightarrow> AugmentedPose list" where
  "run_batches [] pd rd = []"
| "run_batches (b # bs) pd rd = (let pd1 = fold publish_pose b pd in
     case ReadNewPoses pd1 rd of Inl e \<Rightarrow> [] | Inr (rd1, l) \<Rightarrow> l @ run_batches bs pd1 rd1)"

definition valid_update :: "pose_update \<Rightarrow> bool" where
  "valid_update u \<longleftrightarrow> unat (fst (snd u)) < k_unMaxTrackedDeviceCount"

lemma publish_batch_ring_ok:
  assumes "ring_ok z h d" "list_all valid_update b" "length h + length b < 2 ^ 64"
  shows "\<exists>d'. fold publish_pose b (Some d) = Some d' \<and> ring_ok z (h @ map augment b) d'"
  using assms
proof (induction b arbitrary: h d)
  case (Cons u b)
  obtain t i p where u: "u = (t, i, p)" by (cases u)
  obtain d' where d': "SetPose t i p (Some d) = Some d'" "ring_ok z (h @ [augment u]) d'"
    using SetPose_ring_ok [of z h d i t p] Cons.prems by (auto simp: u augment_def valid_update_def)
  show ?case using Cons.IH [OF d'(2)] Cons.prems d'(1) by (auto simp: publish_pose_def u)
qed simp

lemma map_ring_entry_append:
  "n \<le> length h \<Longrightarrow> map (ring_entry z (h @ h')) [c..<n] = map (ring_entry z h) [c..<n]"
  by (auto simp: ring_entry_def nth_Cons nth_append split: nat.splits)

lemma run_batches_ring:
  assumes "ring_ok z h d" "cursor rd = of_nat (length h)"
    "list_all (\<lambda>b. list_all valid_update b \<and> length b \<le> BUFFERED_SAMPLES div 2) bs"
    "length h + length (concat bs) < 2 ^ 64"
  shows "run_batches bs (Some d) rd =
    map (ring_entry z (h @ map augment (concat bs))) [length h..<length h + length (concat bs)]"
  using assms
proof (induction bs arbitrary: h d rd)
  case (Cons b bs)
  have lens: "length h + length b < 2 ^ 64" "length h < 2 ^ 64" using Cons.prems(4) by simp_all
  obtain d' where d': "fold publish_pose b (Some d) = Some d'" "ring_ok z (h @ map augment b) d'"
    using publish_batch_ring_ok [OF Cons.prems(1) _ lens(1)] Cons.prems(3) by auto
  let ?h = "h @ map augment b"
  have st: "read_start (length ?h) (length h) = length h"
    using Cons.prems(3) by (simp add: read_start_def)
  have rd: "ReadNewPoses (Some d') rd = Inr (rd\<lparr>cursor := of_nat (length ?h)\<rparr>,
      map (ring_entry z ?h) [length h..<length ?h])"
    using ReadNewPoses_ring [OF d'(2) Cons.prems(2) lens(2)] unfolding st .
  have "run_batches bs (Some d') (rd\<lparr>cursor := of_nat (length ?h)\<rparr>) =
      map (ring_entry z (?h @ map augment (concat bs))) [length ?h..<length ?h + length (concat bs)]"
    using Cons.prems by (intro Cons.IH [OF d'(2)]) auto
  moreover have "[length h..<length h + length (concat (b # bs))] =
      [length h..<length ?h] @ [length ?h..<length ?h + length (concat bs)]"
    using upt_add_eq_append [of "length h" "length ?h" "length (concat bs)"] by (simp add: add.assoc)
  ultimately show ?case
    using rd map_ring_entry_append [of "length ?h" ?h z "map augment (concat bs)" "length h"]
    by (simp add: d'(1))
qed simp

definition fresh_shmem :: "AugmentedPose \<Rightarrow> PoseShmemData" where
  "fresh_shmem z = \<lparr>ps_magic = POSE_SHMEM_MAGIC, ps_version = POSE_SHMEM_VERSION,
     ps_telemetry = \<lparr>fallback_apply_count = 0, per_id_apply_count = 0, quash_apply_count = 0\<rparr>,
     ps_index = 0, ps_poses = (\<lambda>_. z)\<rparr>"

definition PoseReader_new :: "AugmentedPose \<Rightarrow> PoseReader" where
  "PoseReader_new z = \<lparr>cursor = 0, lastPose = (\<lambda>_. z)\<rparr>"

lemma ring_ok_fresh: "ring_ok z [] (fresh_shmem z)"
  by (simp add: ring_ok_def fresh_shmem_def ring_entry_def)

lemma map_nth_upt_butlast: "map ((!) (z # h)) [0..<length h] = butlast (z # h)"
proof -
  have "map ((!) (z # h)) [0..<length h] = take (length h) (map ((!) (z # h)) [0..<length (z # h)])"
    by (simp add: take_map)
  then show ?thesis by (simp only: map_nth butlast_conv_take) simp
qed

definition newest_for :: "nat \<Rightarrow> AugmentedPose \<Rightarrow> AugmentedPose list \<Rightarrow> AugmentedPose" where
  "newest_for k old l = last (old # filter (\<lambda>p. running_ok p \<and> unat (deviceId p) = k) l)"

lemma fold_note_pose: "fold note_pose l lp k = newest_for k (lp k) l"
  by (induction l rule: rev_induct) (auto simp: note_pose_def newest_for_def)

lemma sint_nonneg_small: "unat (i :: u32) < 64 \<Longrightarrow> 0 \<le> sint i"
proof -
  assume "unat i < 64"
  then have "uint i < 2 ^ 31" by (simp add: nat_less_iff flip: nat_uint_eq)
  then have "signed_take_bit 31 (uint i) = uint i"
    by (intro signed_take_bit_int_eq_self order_trans [OF _ uint_ge_0]) simp_all
  then show ?thesis by (simp add: sint_uint)
qed

section \<open>Properties\<close>

text \<open>Exactly-once delivery. When at most half a ring of poses is published between two reads,
  the overlay's callback sees every pose once, in the order of publication, from a fresh segment
  on: first the initial content of slot 0, then all poses published before each read except the
  newest, which every read leaves for the next one.\<close>

theorem pose_ring_exactly_once:
  assumes "list_all (\<lambda>b. list_all valid_update b \<and> length b \<le> BUFFERED_SAMPLES div 2) bs"
    "length (concat bs) < 2 ^ 64"
  shows "run_batches bs (Some (fresh_shmem z)) (PoseReader_new z) =
    butlast (z # map augment (concat bs))"
proof -
  have "run_batches bs (Some (fresh_shmem z)) (PoseReader_new z) =
      map (ring_entry z (map augment (concat bs))) [0..<length (concat bs)]"
    using run_batches_ring [OF ring_ok_fresh, of "PoseReader_new z" bs z] assms
    by (simp add: PoseReader_new_def)
  also have "\<dots> = map ((!) (z # map augment (concat bs))) [0..<length (map augment (concat bs))]"
    by (simp add: ring_entry_def)
  finally show ?thesis using map_nth_upt_butlast [of z "map augment (concat bs)"] by simp
qed

definition idle_pose :: DriverPose_t where
  "idle_pose = (let q = \<lparr>qw = 1, qx = 0, qy = 0, qz = 0\<rparr>; v = (0, 0, 0) in
     \<lparr>poseTimeOffset = 0, qWorldFromDriverRotation = q, vecWorldFromDriverTranslation = v,
      qDriverFromHeadRotation = q, vecDriverFromHeadTranslation = v, vecPosition = v, vecVelocity = v,
      vecAcceleration = v, qRotation = q, vecAngularVelocity = v, vecAngularAcceleration = v,
      pose_result = TrackingResult_Running_OK, poseIsValid = True, willDriftInYaw = False,
      shouldApplyHeadModel = False, deviceIsConnected = True\<rparr>)"

definition zero_aug :: AugmentedPose where
  "zero_aug = \<lparr>sample_time = 0, deviceId = 0, aug_pose = idle_pose\<lparr>poseIsValid := False\<rparr>\<rparr>"

theorem pose_ring_exactly_once_witness:
  "run_batches [[(10, 1, idle_pose), (11, 2, idle_pose)], [(12, 1, idle_pose)]]
     (Some (fresh_shmem zero_aug)) (PoseReader_new zero_aug) = [zero_aug, augment (10, 1, idle_pose), augment (11, 2, idle_pose)]"
  using pose_ring_exactly_once [of "[[(10, 1, idle_pose), (11, 2, idle_pose)], [(12, 1, idle_pose)]]" zero_aug]
  by (simp add: valid_update_def BUFFERED_SAMPLES_def k_unMaxTrackedDeviceCount_def)

text \<open>A slow reader. Whatever the cursor was, after \<open>n\<close> poses were published a read
  delivers at most half a ring, always the poses just before the newest and none that has been
  overwritten, and leaves the cursor at the writer's index. A cursor ahead of the index (a
  restarted driver) is brought back.\<close>

theorem pose_ring_resync:
  assumes "ring_ok z h d" "cursor rd = of_nat c" "c < 2 ^ 64"
  shows "\<exists>k. k \<le> length h \<and> length h - k \<le> BUFFERED_SAMPLES div 2 \<and>
    (c \<le> length h \<and> length h - c \<le> BUFFERED_SAMPLES div 2 \<longrightarrow> k = c) \<and>
    ReadNewPoses (Some d) rd =
      Inr (rd\<lparr>cursor := of_nat (length h)\<rparr>, drop k (butlast (z # h)))"
proof (intro exI conjI)
  let ?k = "read_start (length h) c"
  show "?k \<le> length h" "length h - ?k \<le> BUFFERED_SAMPLES div 2"
    "c \<le> length h \<and> length h - c \<le> BUFFERED_SAMPLES div 2 \<longrightarrow> ?k = c"
    by (auto simp: read_start_def)
  have "drop ?k (butlast (z # h)) = map (ring_entry z h) [?k..<length h]"
    unfolding map_nth_upt_butlast [symmetric] by (simp add: drop_map ring_entry_def)
  then show "ReadNewPoses (Some d) rd =
      Inr (rd\<lparr>cursor := of_nat (length h)\<rparr>, drop ?k (butlast (z # h)))"
    using ReadNewPoses_ring [OF assms] by simp
qed

theorem pose_ring_resync_witness:
  "\<exists>l. ReadNewPoses (Some (fresh_shmem zero_aug)) (PoseReader_new zero_aug \<lparr>cursor := 70000\<rparr>) =
     Inr (PoseReader_new zero_aug \<lparr>cursor := 0\<rparr>, l)"
  using pose_ring_resync [OF ring_ok_fresh [of zero_aug], of "PoseReader_new zero_aug \<lparr>cursor := 70000\<rparr>" 70000]
  by auto

text \<open>Last good pose. \<open>GetPose\<close> answers for exactly the indices of existing devices, with
  the newest delivered pose of that device that was valid and tracking, and with the previous
  one when there is none; every published pose carries a device index inside the table.\<close>

theorem get_pose_newest:
  assumes "ring_ok z h d" "cursor rd = of_nat c" "c < 2 ^ 64"
  shows "\<exists>rd' l. ReadNewPoses (Some d) rd = Inr (rd', l) \<and>
    GetPose i (Some d) rd = Inr (rd'\<lparr>lastPose := \<lambda>k. newest_for k (lastPose rd k) l\<rparr>,
      if unat i < k_unMaxTrackedDeviceCount
      then (let p = newest_for (unat i) (lastPose rd (unat i)) l in Some (aug_pose p, sample_time p))
      else None)"
proof -
  obtain l where l: "ReadNewPoses (Some d) rd = Inr (rd\<lparr>cursor := of_nat (length h)\<rparr>, l)"
    using ReadNewPoses_ring [OF assms] by simp
  have f: "fold note_pose l (lastPose rd) = (\<lambda>k. newest_for k (lastPose rd k) l)"
    by (rule ext) (rule fold_note_pose)
  have "0 \<le> sint i" if "unat i < k_unMaxTrackedDeviceCount"
    using that sint_nonneg_small by (simp add: k_unMaxTrackedDeviceCount_def)
  then show ?thesis unfolding l by (auto simp: GetPose_def l f Let_def)
qed

theorem get_pose_newest_witness:
  "map_option fst (snd (projr (GetPose 1 (fold publish_pose [(10, 1, idle_pose), (12, 1, idle_pose\<lparr>vecPosition := (1, 0, 0)\<rparr>)]
      (Some (fresh_shmem zero_aug))) (PoseReader_new zero_aug)))) = Some idle_pose"
proof -
  let ?b = "[(10, 1, idle_pose), (12, 1, idle_pose\<lparr>vecPosition := (1, 0, 0)\<rparr>)]"
  obtain d where d: "fold publish_pose ?b (Some (fresh_shmem zero_aug)) = Some d" "ring_ok zero_aug (map augment ?b) d"
    using publish_batch_ring_ok [OF ring_ok_fresh, of ?b zero_aug]
    by (auto simp: valid_update_def k_unMaxTrackedDeviceCount_def)
  have c: "cursor (PoseReader_new zero_aug) = of_nat 0" by (simp add: PoseReader_new_def)
  have l: "ReadNewPoses (Some d) (PoseReader_new zero_aug) = Inr (PoseReader_new zero_aug \<lparr>cursor := 2\<rparr>, [zero_aug, augment (10, 1, idle_pose)])"
    using pose_ring_resync [OF d(2) c] by (auto simp: BUFFERED_SAMPLES_def)
  have n: "newest_for 1 old [zero_aug, augment (10, 1, idle_pose)] = augment (10, 1, idle_pose)" for old
    by (simp add: newest_for_def running_ok_def augment_def zero_aug_def idle_pose_def Let_def)
  show ?thesis unfolding d(1)
    using get_pose_newest [OF d(2) c, of 1] l n
    by (auto simp: d(1) k_unMaxTrackedDeviceCount_def augment_def Let_def)
qed

end
