(* ===== verification/PoseTransform.thy ===== *)
theory PoseTransform
  imports PoseShmem
begin

text \<open>
  The pose path of \<open>core/src/driver/ServerTrackedDeviceProvider.cpp\<close>: the per-device transforms,
  the tracking-system fallbacks, pose-prediction suppression and the pose-update hook, with
  \<open>core/src/common/IsometryTransform.h\<close> and \<open>core/src/common/MotionGate.h\<close>.

  Eigen is not part of the repository: its vector and quaternion operations are the fields of
  \<open>Eigen\<close>, an argument of every operation that computes with them. The answer of OpenVR's
  property store is an argument too, and so is what the other threads do while the hook has
  released the state mutex. The performance counter is an input, one reading per call.
\<close>

section \<open>Isometries\<close>

type_synonym Vector3d = HmdVector3d_t
type_synonym Quaterniond = HmdQuaternion_t

record Eigen =
  v_add :: "Vector3d \<Rightarrow> Vector3d \<Rightarrow> Vector3d"
  v_sub :: "Vector3d \<Rightarrow> Vector3d \<Rightarrow> Vector3d"
  v_scale :: "Vector3d \<Rightarrow> double \<Rightarrow> Vector3d"
  v_norm :: "Vector3d \<Rightarrow> double"
  q_mul :: "Quaterniond \<Rightarrow> Quaterniond \<Rightarrow> Quaterniond"
  q_rot :: "Quaterniond \<Rightarrow> Vector3d \<Rightarrow> Vector3d"
  q_normalized :: "Quaterniond \<Rightarrow> Quaterniond"
  q_slerp :: "Quaterniond \<Rightarrow> double \<Rightarrow> Quaterniond \<Rightarrow> Quaterniond"
  q_angularDistance :: "Quaterniond \<Rightarrow> Quaterniond \<Rightarrow> double"
  eigen_pi :: double

definition v_zero :: Vector3d where
  "v_zero = (0, 0, 0)"

definition q_identity :: Quaterniond where
  "q_identity = \<lparr>qw = 1, qx = 0, qy = 0, qz = 0\<rparr>"

record IsoTransform =
  rotation :: Quaterniond
  translation :: Vector3d

definition iso_identity :: IsoTransform where
  "iso_identity = \<lparr>rotation = q_identity, translation = v_zero\<rparr>"

definition iso_mult :: "Eigen \<Rightarrow> IsoTransform \<Rightarrow> IsoTransform \<Rightarrow> IsoTransform" where
  "iso_mult E a b = \<lparr>rotation = q_normalized E (q_mul E (rotation a) (rotation b)),
     translation = v_add E (translation a) (q_rot E (rotation a) (translation b))\<rparr>"

definition iso_apply :: "Eigen \<Rightarrow> IsoTransform \<Rightarrow> Vector3d \<Rightarrow> Vector3d" where
  "iso_apply E a p = v_add E (translation a) (q_rot E (rotation a) p)"

definition pretranslate :: "Eigen \<Rightarrow> Vector3d \<Rightarrow> IsoTransform \<Rightarrow> IsoTransform" where
  "pretranslate E t a = a\<lparr>translation := v_add E (translation a) t\<rparr>"

definition interpolateAround :: "Eigen \<Rightarrow> double \<Rightarrow> IsoTransform \<Rightarrow> Vector3d \<Rightarrow> IsoTransform \<Rightarrow> IsoTransform" where
  "interpolateAround E lerp target localPoint a =
     (let initialPos = iso_apply E a localPoint;
          finalPos = v_add E (v_scale E initialPos (1 - lerp)) (v_scale E (iso_apply E target localPoint) lerp);
          newRotation = q_normalized E (q_slerp E (rotation a) lerp (rotation target))
      in \<lparr>rotation = newRotation, translation = v_sub E finalPos (q_rot E newRotation localPoint)\<rparr>)"

section \<open>The motion gate\<close>

datatype Regime = RegimeTiny | RegimeNormal | RegimeLarge

definition kTinyMaxPosMm :: double where "kTinyMaxPosMm = lit 1"
definition kTinyMaxRotDeg :: double where "kTinyMaxRotDeg = lit (5 / 100)"
definition kLargeMinPosMm :: double where "kLargeMinPosMm = lit 5"
definition kLargeMinRotDeg :: double where "kLargeMinRotDeg = lit (1 / 2)"
definition kTinyStillFloor :: double where "kTinyStillFloor = lit (1 / 10)"
definition kNormalStillFloor :: double where "kNormalStillFloor = lit (1 / 2)"
definition kLargeStillFloor :: double where "kLargeStillFloor = lit (9 / 10)"

definition ClassifyCorrection :: "double \<Rightarrow> double \<Rightarrow> Regime" where
  "ClassifyCorrection posDeltaMm rotDeltaDeg =
     (if kLargeMinPosMm < posDeltaMm \<or> kLargeMinRotDeg < rotDeltaDeg then RegimeLarge
      else if posDeltaMm \<le> kTinyMaxPosMm \<and> rotDeltaDeg \<le> kTinyMaxRotDeg then RegimeTiny
      else RegimeNormal)"

fun StillFloor :: "Regime \<Rightarrow> double" where
  "StillFloor RegimeTiny = kTinyStillFloor"
| "StillFloor RegimeNormal = kNormalStillFloor"
| "StillFloor RegimeLarge = kLargeStillFloor"

definition ShouldBlendCycle :: "bool \<Rightarrow> bool \<Rightarrow> bool \<Rightarrow> bool" where
  "ShouldBlendCycle inContinuousState isFreshlyAdopted snapThisCycle \<longleftrightarrow>
     inContinuousState \<and> \<not> isFreshlyAdopted \<and> \<not> snapThisCycle"

section \<open>State\<close>

datatype DeltaSize = TINY | SMALL | LARGE

text \<open>\<open>std::max\<close> on the enumeration, whose values are declared in increasing order.\<close>

fun delta_rank :: "DeltaSize \<Rightarrow> nat" where
  "delta_rank TINY = 0" | "delta_rank SMALL = 1" | "delta_rank LARGE = 2"

definition delta_max :: "DeltaSize \<Rightarrow> DeltaSize \<Rightarrow> DeltaSize" where
  "delta_max a b = (if delta_rank a < delta_rank b then b else a)"

record DeviceTransform =
  dt_enabled :: bool
  quash :: bool
  prevQuash :: bool
  dt_transform :: IsoTransform
  targetTransform :: IsoTransform
  dt_scale :: double
  lastPoll :: int
  currentRate :: DeltaSize
  fallbackActive :: bool
  predictionSmoothness :: byte
  smartEnabled :: bool
  smartMotionEma :: double
  recalibrateOnMovement :: bool
  lastBlendWorldPos :: Vector3d
  lastBlendWorldRot :: Quaterniond
  blendMotionInitialized :: bool

definition DeviceTransform_new :: DeviceTransform where
  "DeviceTransform_new = \<lparr>dt_enabled = False, quash = False, prevQuash = False,
     dt_transform = iso_identity, targetTransform = iso_identity, dt_scale = 1, lastPoll = 0,
     currentRate = TINY, fallbackActive = False, predictionSmoothness = 0, smartEnabled = False,
     smartMotionEma = 0, recalibrateOnMovement = False, lastBlendWorldPos = v_zero,
     lastBlendWorldRot = q_identity, blendMotionInitialized = False\<rparr>"

record FallbackTransform =
  fb_enabled :: bool
  fb_transform :: IsoTransform
  fb_scale :: double
  fb_predictionSmoothness :: byte
  fb_recalibrateOnMovement :: bool

definition FallbackTransform_new :: FallbackTransform where
  "FallbackTransform_new = \<lparr>fb_enabled = False, fb_transform = iso_identity, fb_scale = 1,
     fb_predictionSmoothness = 0, fb_recalibrateOnMovement = False\<rparr>"

text \<open>The name buffer is all of its \<open>MaxTrackingSystemNameLen\<close> characters.\<close>

record FallbackSlot =
  system_name :: string
  slot_tf :: FallbackTransform
  occupied :: bool

definition FallbackSlot_new :: FallbackSlot where
  "FallbackSlot_new = \<lparr>system_name = replicate MaxTrackingSystemNameLen (CHR 0x00),
     slot_tf = FallbackTransform_new, occupied = False\<rparr>"

datatype LookupState = NotTried | Cached | Failed

definition MaxFallbackSlots :: nat where
  "MaxFallbackSlots = 8"

text \<open>The part of the provider the state mutex guards, the pose segment, the counter frequency,
  the alignment speeds and the debug offset.\<close>

record PoseState =
  transforms :: "DeviceTransform list"
  deviceSystem :: "string list"
  lookupState :: "LookupState list"
  lastLookupAttempt :: "int list"
  systemFallbacks :: "FallbackSlot list"
  qpcFreq :: int
  alignmentSpeedParams :: AlignmentSpeedParams
  debugTransform :: Vector3d
  debugRotation :: Quaterniond
  shmem :: "PoseShmemData option"

definition upd_dev :: "nat \<Rightarrow> (DeviceTransform \<Rightarrow> DeviceTransform) \<Rightarrow> PoseState \<Rightarrow> PoseState" where
  "upd_dev i f s = s\<lparr>transforms := (transforms s)[i := f (transforms s ! i)]\<rparr>"

definition upd_slot :: "nat \<Rightarrow> (FallbackTransform \<Rightarrow> FallbackTransform) \<Rightarrow> PoseState \<Rightarrow> PoseState" where
  "upd_slot i f s = s\<lparr>systemFallbacks := (systemFallbacks s)
     [i := (systemFallbacks s ! i)\<lparr>slot_tf := f (slot_tf (systemFallbacks s ! i))\<rparr>]\<rparr>"

text \<open>What construction and the calibration block of \<open>Init\<close> leave: the literals with an
  \<open>f\<close> suffix are single precision, widened by the double operand.\<close>

definition flt :: "rat \<Rightarrow> double" where
  "flt r = fp_cast (lit r :: float32)"

definition init_alignmentSpeedParams :: "Eigen \<Rightarrow> AlignmentSpeedParams" where
  "init_alignmentSpeedParams E = \<lparr>
     thr_trans_tiny = flt (1 / 10) / lit 1000, thr_trans_small = flt 1 / lit 1000,
     thr_trans_large = flt 20 / lit 1000,
     thr_rot_tiny = flt (1 / 10) * (eigen_pi E / flt 180), thr_rot_small = flt 1 * (eigen_pi E / flt 180),
     thr_rot_large = flt 5 * (eigen_pi E / flt 180),
     align_speed_tiny = flt (5 / 100), align_speed_small = flt (2 / 10), align_speed_large = flt 2\<rparr>"

definition PoseState_new :: "Eigen \<Rightarrow> int \<Rightarrow> PoseShmemData option \<Rightarrow> PoseState" where
  "PoseState_new E freq d = \<lparr>
     transforms = replicate k_unMaxTrackedDeviceCount DeviceTransform_new,
     deviceSystem = replicate k_unMaxTrackedDeviceCount [],
     lookupState = replicate k_unMaxTrackedDeviceCount NotTried,
     lastLookupAttempt = replicate k_unMaxTrackedDeviceCount 0,
     systemFallbacks = replicate MaxFallbackSlots FallbackSlot_new,
     qpcFreq = freq, alignmentSpeedParams = init_alignmentSpeedParams E,
     debugTransform = v_zero, debugRotation = q_identity, shmem = d\<rparr>"

section \<open>Smart smoothing\<close>

definition kSmartLinearStill :: double where "kSmartLinearStill = lit (5 / 100)"
definition kSmartLinearMoving :: double where "kSmartLinearMoving = lit (6 / 10)"
definition kSmartAngularStill :: double where "kSmartAngularStill = lit (1 / 10)"
definition kSmartAngularMoving :: double where "kSmartAngularMoving = lit 2"
definition kSmartEmaAlpha :: double where "kSmartEmaAlpha = lit (15 / 100)"

definition vec_finite :: "Vector3d \<Rightarrow> bool" where
  "vec_finite v = (case v of (x, y, z) \<Rightarrow> isfinite x \<and> isfinite y \<and> isfinite z)"

definition vec_length :: "Vector3d \<Rightarrow> double" where
  "vec_length v = (case v of (x, y, z) \<Rightarrow> fp_sqrt (x * x + y * y + z * z))"

definition ComputeSmartMotionRamp :: "DriverPose_t \<Rightarrow> double" where
  "ComputeSmartMotionRamp pose =
     (if \<not> vec_finite (vecVelocity pose) \<or> \<not> vec_finite (vecAngularVelocity pose) then 0
      else let linear = vec_length (vecVelocity pose);
               angular = vec_length (vecAngularVelocity pose);
               posRamp = std_clamp ((linear - kSmartLinearStill) / (kSmartLinearMoving - kSmartLinearStill)) 0 1;
               rotRamp = std_clamp ((angular - kSmartAngularStill) / (kSmartAngularMoving - kSmartAngularStill)) 0 1
           in std_max posRamp rotRamp)"

section \<open>Blending towards the target\<close>

definition toIsoWorldTransform :: "DriverPose_t \<Rightarrow> IsoTransform" where
  "toIsoWorldTransform pose =
     \<lparr>rotation = qWorldFromDriverRotation pose, translation = vecWorldFromDriverTranslation pose\<rparr>"

definition toIsoPose :: "Eigen \<Rightarrow> DriverPose_t \<Rightarrow> IsoTransform" where
  "toIsoPose E pose = iso_mult E (toIsoWorldTransform pose)
     \<lparr>rotation = qRotation pose, translation = vecPosition pose\<rparr>"

definition delta_level :: "double \<Rightarrow> double \<Rightarrow> double \<Rightarrow> DeltaSize" where
  "delta_level large small d = (if large < d then LARGE else if small < d then SMALL else TINY)"

definition GetTransformDeltaSize :: "Eigen \<Rightarrow> AlignmentSpeedParams \<Rightarrow> DeltaSize \<Rightarrow> IsoTransform \<Rightarrow>
    IsoTransform \<Rightarrow> IsoTransform \<Rightarrow> DeltaSize" where
  "GetTransformDeltaSize E p prior_delta deviceWorldPose src target =
     (let src_pose = iso_mult E src deviceWorldPose; target_pose = iso_mult E target deviceWorldPose;
          trans_delta = v_norm E (v_sub E (translation src_pose) (translation target_pose));
          rot_delta = q_angularDistance E (rotation src_pose) (rotation target_pose);
          trans_level = delta_level (thr_trans_large p) (thr_trans_small p) trans_delta;
          rot_level = delta_level (thr_rot_large p) (thr_rot_small p) rot_delta
      in if trans_level = TINY \<and> rot_level = TINY then TINY
         else delta_max prior_delta (delta_max trans_level rot_level))"

fun GetTransformRate :: "AlignmentSpeedParams \<Rightarrow> DeltaSize \<Rightarrow> double" where
  "GetTransformRate p TINY = align_speed_tiny p"
| "GetTransformRate p SMALL = align_speed_small p"
| "GetTransformRate p LARGE = align_speed_large p"

definition kPosFullScale :: double where "kPosFullScale = lit (5 / 1000)"
definition kRotFullScale :: double where "kRotFullScale = lit (175 / 10000)"

definition m_pi :: double where
  "m_pi = lit (314159265358979323846 / 10 ^ 20)"

text \<open>The gate of a device that moved since the previous frame: how much it moved, or the floor
  of the regime of the pending correction, whichever is higher.\<close>

definition effectiveGate :: "Eigen \<Rightarrow> DeviceTransform \<Rightarrow> IsoTransform \<Rightarrow> double" where
  "effectiveGate E device wp =
     (let devPosDelta = v_norm E (v_sub E (translation wp) (lastBlendWorldPos device));
          devRotDelta = q_angularDistance E (rotation wp) (lastBlendWorldRot device);
          motionGate = std_min 1 (std_max (devPosDelta / kPosFullScale) (devRotDelta / kRotFullScale));
          correctionPosMm = v_norm E (v_sub E (translation (targetTransform device))
            (translation (dt_transform device))) * lit 1000;
          correctionRotDeg = q_angularDistance E (rotation (targetTransform device))
            (rotation (dt_transform device)) * lit 180 / m_pi;
          regimeFloor = StillFloor (ClassifyCorrection correctionPosMm correctionRotDeg)
      in std_max motionGate regimeFloor)"

definition clamp_lerp :: "double \<Rightarrow> double" where
  "clamp_lerp l = (let l1 = (if 1 < l then 1 else l) in if l1 < 0 \<or> isnan l1 then 0 else l1)"

text \<open>The blend factor of one call, and the device after it, less the new \<open>transform\<close>.\<close>

definition blend_motion :: "Eigen \<Rightarrow> IsoTransform \<Rightarrow> double \<times> DeviceTransform \<Rightarrow> double \<times> DeviceTransform" where
  "blend_motion E wp ld = (case ld of (lerp, device) \<Rightarrow>
     if recalibrateOnMovement device then
       (if \<not> blendMotionInitialized device
        then (0, device\<lparr>lastBlendWorldPos := translation wp, lastBlendWorldRot := rotation wp,
                blendMotionInitialized := True\<rparr>)
        else (lerp * effectiveGate E device wp,
              device\<lparr>lastBlendWorldPos := translation wp, lastBlendWorldRot := rotation wp\<rparr>))
     else if blendMotionInitialized device then (lerp, device\<lparr>blendMotionInitialized := False\<rparr>)
     else (lerp, device))"

definition BlendTransform :: "Eigen \<Rightarrow> int \<Rightarrow> AlignmentSpeedParams \<Rightarrow> int \<Rightarrow> IsoTransform \<Rightarrow>
    DeviceTransform \<Rightarrow> DeviceTransform" where
  "BlendTransform E freq p timestamp wp device =
     (let lerp0 = of_integer (timestamp - lastPoll device) / of_integer freq * GetTransformRate p (currentRate device);
          (lerp1, d1) = blend_motion E wp (lerp0, device\<lparr>lastPoll := timestamp\<rparr>)
      in d1\<lparr>dt_transform := interpolateAround E (clamp_lerp lerp1) (targetTransform d1) (translation wp)
              (dt_transform d1)\<rparr>)"

definition ApplyTransform :: "Eigen \<Rightarrow> DeviceTransform \<Rightarrow> DriverPose_t \<Rightarrow> DriverPose_t" where
  "ApplyTransform E device pose =
     (let w = iso_mult E (dt_transform device) (toIsoWorldTransform pose)
      in pose\<lparr>vecWorldFromDriverTranslation := translation w, qWorldFromDriverRotation := rotation w\<rparr>)"

definition quat_mult :: "HmdQuaternion_t \<Rightarrow> HmdQuaternion_t \<Rightarrow> HmdQuaternion_t" where
  "quat_mult l r = \<lparr>
     qw = qw l * qw r - qx l * qx r - qy l * qy r - qz l * qz r,
     qx = qw l * qx r + qx l * qw r + qy l * qz r - qz l * qy r,
     qy = qw l * qy r + qy l * qw r + qz l * qx r - qx l * qz r,
     qz = qw l * qz r + qz l * qw r + qx l * qy r - qy l * qx r\<rparr>"

definition quaternionRotateVector :: "HmdQuaternion_t \<Rightarrow> HmdVector3d_t \<Rightarrow> HmdVector3d_t" where
  "quaternionRotateVector q v = (case v of (x, y, z) \<Rightarrow>
     let vectorQuat = \<lparr>qw = 0, qx = x, qy = y, qz = z\<rparr>;
         conjugate = \<lparr>qw = qw q, qx = - qx q, qy = - qy q, qz = - qz q\<rparr>;
         r = quat_mult (quat_mult q vectorQuat) conjugate
     in (qx r, qy r, qz r))"

section \<open>Messages of the overlays\<close>

text \<open>\<open>SetDeviceTransform\<close>, with the counter reading taken at its end.\<close>

definition set_device_system :: "nat \<Rightarrow> string \<Rightarrow> PoseState \<Rightarrow> PoseState" where
  "set_device_system i sys s = s\<lparr>deviceSystem := (deviceSystem s)[i := sys],
     lookupState := (lookupState s)[i := if length sys > 0 then Cached else NotTried]\<rparr>"

definition push_translation :: "SetDeviceTransform \<Rightarrow> DeviceTransform \<Rightarrow> DeviceTransform" where
  "push_translation m tf = (if sdt_updateTranslation m then
       let tf1 = tf\<lparr>targetTransform := (targetTransform tf)\<lparr>translation := sdt_translation m\<rparr>\<rparr>
       in if sdt_lerp m then tf1
          else tf1\<lparr>dt_transform := (dt_transform tf1)\<lparr>translation := sdt_translation m\<rparr>\<rparr>
     else tf)"

definition push_rotation :: "SetDeviceTransform \<Rightarrow> DeviceTransform \<Rightarrow> DeviceTransform" where
  "push_rotation m tf = (if sdt_updateRotation m then
       let tf1 = tf\<lparr>targetTransform := (targetTransform tf)\<lparr>rotation := sdt_rotation m\<rparr>\<rparr>
       in if sdt_lerp m then tf1
          else tf1\<lparr>dt_transform := (dt_transform tf1)\<lparr>rotation := sdt_rotation m\<rparr>\<rparr>
     else tf)"

definition set_motion_gate :: "bool \<Rightarrow> DeviceTransform \<Rightarrow> DeviceTransform" where
  "set_motion_gate on tf = (if recalibrateOnMovement tf \<and> \<not> on then tf\<lparr>blendMotionInitialized := False\<rparr> else tf)
     \<lparr>recalibrateOnMovement := on\<rparr>"

definition push_scale_quash :: "SetDeviceTransform \<Rightarrow> DeviceTransform \<Rightarrow> DeviceTransform" where
  "push_scale_quash m tf =
     (if sdt_updateScale m then tf\<lparr>dt_scale := sdt_scale m\<rparr> else tf)\<lparr>quash := sdt_quash m\<rparr>"

definition snap_on_transition :: "bool \<Rightarrow> DeviceTransform \<Rightarrow> DeviceTransform" where
  "snap_on_transition wasEnabled tf =
     (let tf1 = (if \<not> wasEnabled \<and> dt_enabled tf then tf\<lparr>dt_transform := targetTransform tf\<rparr> else tf)
      in if wasEnabled \<and> \<not> dt_enabled tf1 then tf1\<lparr>targetTransform := dt_transform tf1\<rparr> else tf1)"

definition apply_set_transform :: "int \<Rightarrow> SetDeviceTransform \<Rightarrow> DeviceTransform \<Rightarrow> DeviceTransform" where
  "apply_set_transform now m tf =
     (let tf1 = set_motion_gate (sdt_recalibrateOnMovement m) (tf\<lparr>dt_enabled := sdt_enabled m, fallbackActive := False\<rparr>);
          tf2 = push_scale_quash m (push_rotation m (push_translation m tf1));
          tf3 = snap_on_transition (dt_enabled tf) tf2
      in tf3\<lparr>lastPoll := now, currentRate := TINY\<rparr>)"

definition Provider_SetDeviceTransform :: "int \<Rightarrow> SetDeviceTransform \<Rightarrow> PoseState \<Rightarrow> PoseState" where
  "Provider_SetDeviceTransform now m s = (if unat (sdt_openVRID m) \<ge> k_unMaxTrackedDeviceCount then s
     else let i = unat (sdt_openVRID m)
          in upd_dev i (apply_set_transform now m) (set_device_system i (sdt_target_system m) s))"

definition apply_set_prediction :: "SetDevicePrediction \<Rightarrow> DeviceTransform \<Rightarrow> DeviceTransform" where
  "apply_set_prediction cfg tf =
     (let oldSmart = smartEnabled tf; newSmart = (sdp_smart_enabled cfg \<noteq> 0);
          tf1 = tf\<lparr>predictionSmoothness := sdp_predictionSmoothness cfg, smartEnabled := newSmart\<rparr>
      in if newSmart \<and> \<not> oldSmart then tf1\<lparr>smartMotionEma := 0\<rparr> else tf1)"

definition Provider_SetDevicePrediction :: "SetDevicePrediction \<Rightarrow> PoseState \<Rightarrow> PoseState" where
  "Provider_SetDevicePrediction cfg s = (if unat (sdp_openVRID cfg) \<ge> k_unMaxTrackedDeviceCount then s
     else upd_dev (unat (sdp_openVRID cfg)) (apply_set_prediction cfg) s)"

section \<open>Tracking-system fallbacks\<close>

text \<open>A slot holds a name when the buffer starts with it and the next character, if there is one,
  is NUL. A slot is returned by its index.\<close>

definition slot_matches :: "string \<Rightarrow> FallbackSlot \<Rightarrow> bool" where
  "slot_matches name sl \<longleftrightarrow> occupied sl \<and> take (length name) (system_name sl) = name \<and>
     (length name = MaxTrackingSystemNameLen \<or> system_name sl ! length name = CHR 0x00)"

definition FindFallbackSlot :: "string \<Rightarrow> PoseState \<Rightarrow> nat option" where
  "FindFallbackSlot name s = (if length name = 0 \<or> length name > MaxTrackingSystemNameLen then None
     else find_index (slot_matches name) (systemFallbacks s))"

definition claim_slot :: "string \<Rightarrow> FallbackSlot" where
  "claim_slot name = \<lparr>system_name = name @ replicate (MaxTrackingSystemNameLen - length name) (CHR 0x00),
     slot_tf = FallbackTransform_new, occupied = True\<rparr>"

definition AcquireFallbackSlot :: "string \<Rightarrow> PoseState \<Rightarrow> PoseState \<times> nat option" where
  "AcquireFallbackSlot name s = (if length name = 0 \<or> length name > MaxTrackingSystemNameLen then (s, None)
     else case FindFallbackSlot name s of
       Some i \<Rightarrow> (s, Some i)
     | None \<Rightarrow> (case find_index (\<lambda>sl. \<not> occupied sl) (systemFallbacks s) of
         None \<Rightarrow> (s, None)
       | Some i \<Rightarrow> (s\<lparr>systemFallbacks := (systemFallbacks s)[i := claim_slot name]\<rparr>, Some i)))"

definition drop_follower :: "int \<Rightarrow> DeviceTransform \<Rightarrow> DeviceTransform" where
  "drop_follower now tf = tf\<lparr>fallbackActive := False, targetTransform := dt_transform tf,
     currentRate := TINY, lastPoll := now\<rparr>"

definition drop_followers :: "(nat \<Rightarrow> int) \<Rightarrow> string \<Rightarrow> PoseState \<Rightarrow> PoseState" where
  "drop_followers now name s = s\<lparr>transforms := map (\<lambda>id.
     let tf = transforms s ! id
     in if fallbackActive tf \<and> deviceSystem s ! id = name then drop_follower (now id) tf else tf)
     [0..<k_unMaxTrackedDeviceCount]\<rparr>"

definition fallback_of :: "SetTrackingSystemFallback \<Rightarrow> FallbackTransform \<Rightarrow> FallbackTransform" where
  "fallback_of m tf = tf\<lparr>fb_enabled := True,
     fb_transform := \<lparr>rotation = stf_rotation m, translation = stf_translation m\<rparr>,
     fb_scale := stf_scale m, fb_recalibrateOnMovement := stf_recalibrateOnMovement m\<rparr>"

text \<open>\<open>SetTrackingSystemFallback\<close>; the counter is read once per device dropped.\<close>

definition Provider_SetTrackingSystemFallback :: "(nat \<Rightarrow> int) \<Rightarrow> SetTrackingSystemFallback \<Rightarrow> PoseState \<Rightarrow> PoseState" where
  "Provider_SetTrackingSystemFallback now m s =
     (let name = stf_system_name m in
      if length name = 0 then s
      else if \<not> stf_enabled m then
        drop_followers now name (case FindFallbackSlot name s of
          None \<Rightarrow> s | Some i \<Rightarrow> upd_slot i (\<lambda>tf. tf\<lparr>fb_enabled := False\<rparr>) s)
      else case AcquireFallbackSlot name s of
        (s1, None) \<Rightarrow> s1
      | (s1, Some i) \<Rightarrow> upd_slot i (fallback_of m) s1)"

definition HandleSetAlignmentSpeedParams :: "AlignmentSpeedParams \<Rightarrow> PoseState \<Rightarrow> PoseState" where
  "HandleSetAlignmentSpeedParams p s = s\<lparr>alignmentSpeedParams := p\<rparr>"

text \<open>\<open>HandleApplyRandomOffset\<close>, the three draws of the generator an input.\<close>

definition HandleApplyRandomOffset :: "Eigen \<Rightarrow> Vector3d \<Rightarrow> PoseState \<Rightarrow> PoseState" where
  "HandleApplyRandomOffset E init s =
     s\<lparr>debugTransform := v_scale E init (flt (1 / 4)), debugRotation := q_identity\<rparr>"

section \<open>The pose-update hook\<close>

text \<open>What the hook asks of its surroundings: the counter readings in the order it takes them, the
  property store's answer for a device's tracking system (\<open>None\<close> when the store, the container or
  the property is missing), and what other threads do to the state while the mutex is released.\<close>

record PoseEnv =
  t_sample :: u64
  t_check :: int
  t_failed :: int
  t_poll :: int
  t_blend :: int
  TrackingSystemName :: "u32 \<Rightarrow> string option"
  while_unlocked :: "PoseState \<Rightarrow> PoseState"

definition apply_debug :: "Eigen \<Rightarrow> PoseState \<Rightarrow> u32 \<Rightarrow> DriverPose_t \<Rightarrow> DriverPose_t" where
  "apply_debug E s openVRID pose = (if openVRID > 0 then
     pose\<lparr>qRotation := q_mul E (qRotation pose) (debugRotation s),
          vecPosition := v_add E (vecPosition pose) (debugTransform s)\<rparr> else pose)"

definition vec_times :: "double \<Rightarrow> Vector3d \<Rightarrow> Vector3d" where
  "vec_times f v = (case v of (x, y, z) \<Rightarrow> (x * f, y * f, z * f))"

definition scale_motion :: "double \<Rightarrow> DriverPose_t \<Rightarrow> DriverPose_t" where
  "scale_motion f pose = pose\<lparr>
     vecVelocity := vec_times f (vecVelocity pose), vecAcceleration := vec_times f (vecAcceleration pose),
     vecAngularVelocity := vec_times f (vecAngularVelocity pose),
     vecAngularAcceleration := vec_times f (vecAngularAcceleration pose),
     poseTimeOffset := poseTimeOffset pose * f\<rparr>"

definition effective_smoothness :: "nat \<Rightarrow> PoseState \<Rightarrow> byte" where
  "effective_smoothness i s =
     (let tf = transforms s ! i; sys = deviceSystem s ! i in
      if predictionSmoothness tf = 0 \<and> \<not> dt_enabled tf \<and> sys \<noteq> [] then
        (case FindFallbackSlot sys s of
           None \<Rightarrow> predictionSmoothness tf
         | Some j \<Rightarrow> let fb = slot_tf (systemFallbacks s ! j)
             in if fb_enabled fb \<and> fb_predictionSmoothness fb > 0 then fb_predictionSmoothness fb
                else predictionSmoothness tf)
      else predictionSmoothness tf)"

text \<open>The factor for a strength above zero, and the motion estimate after the call.\<close>

definition prediction_factor :: "byte \<Rightarrow> DriverPose_t \<Rightarrow> DeviceTransform \<Rightarrow> double \<times> DeviceTransform" where
  "prediction_factor smoothness pose tf =
     (let sm = (if smoothness > 100 then 100 else smoothness);
          factor = 1 - of_integer (uint sm) / lit 100
      in if smartEnabled tf then
           (let ema = (1 - kSmartEmaAlpha) * smartMotionEma tf + kSmartEmaAlpha * ComputeSmartMotionRamp pose
            in (factor + (1 - factor) * ema, tf\<lparr>smartMotionEma := ema\<rparr>))
         else (factor, tf))"

definition suppress_prediction :: "nat \<Rightarrow> DriverPose_t \<Rightarrow> PoseState \<Rightarrow> PoseState \<times> DriverPose_t" where
  "suppress_prediction i pose s = (let smoothness = effective_smoothness i s in
     if smoothness > 0 then
       (case prediction_factor smoothness pose (transforms s ! i) of (f, tf) \<Rightarrow>
          (upd_dev i (\<lambda>_. tf) s, scale_motion f pose))
     else (s, pose))"

definition telemetry :: "TelemetryField \<Rightarrow> PoseState \<Rightarrow> PoseState" where
  "telemetry f s = s\<lparr>shmem := IncrementTelemetry f (shmem s)\<rparr>"

text \<open>Scaling the position, blending and applying, shared by the per-device path and the fallback
  path: \<open>tf\<close> is the slot the caller has prepared.\<close>

definition blend_and_apply :: "Eigen \<Rightarrow> PoseEnv \<Rightarrow> PoseState \<Rightarrow> DeviceTransform \<Rightarrow> DriverPose_t \<Rightarrow>
    DeviceTransform \<times> DriverPose_t" where
  "blend_and_apply E env s tf pose =
     (let pose1 = pose\<lparr>vecPosition := vec_times (dt_scale tf) (vecPosition pose)\<rparr>;
          wp = toIsoPose E pose1;
          tf1 = tf\<lparr>currentRate := GetTransformDeltaSize E (alignmentSpeedParams s) (currentRate tf) wp
                    (dt_transform tf) (targetTransform tf)\<rparr>;
          tf2 = BlendTransform E (qpcFreq s) (alignmentSpeedParams s) (t_blend env) wp tf1
      in (tf2, ApplyTransform E tf2 pose1))"

text \<open>The lazy tracking-system query of a device with no transform.\<close>

definition shouldTry :: "PoseEnv \<Rightarrow> nat \<Rightarrow> PoseState \<Rightarrow> bool" where
  "shouldTry env i s \<longleftrightarrow> deviceSystem s ! i = [] \<and> lookupState s ! i \<noteq> Cached \<and>
     \<not> (lookupState s ! i = Failed \<and> qpcFreq s > 0 \<and> t_check env - lastLookupAttempt s ! i < qpcFreq s)"

definition note_query :: "PoseEnv \<Rightarrow> nat \<Rightarrow> string option \<Rightarrow> PoseState \<Rightarrow> PoseState" where
  "note_query env i answer s = (if lookupState s ! i \<noteq> Cached then
     (case answer of
        Some sys \<Rightarrow> if sys \<noteq> [] then s\<lparr>deviceSystem := (deviceSystem s)[i := sys],
              lookupState := (lookupState s)[i := Cached]\<rparr>
            else s\<lparr>lookupState := (lookupState s)[i := Failed],
              lastLookupAttempt := (lastLookupAttempt s)[i := t_failed env]\<rparr>
      | None \<Rightarrow> s\<lparr>lookupState := (lookupState s)[i := Failed],
            lastLookupAttempt := (lastLookupAttempt s)[i := t_failed env]\<rparr>)
     else s)"

definition lazy_lookup :: "PoseEnv \<Rightarrow> u32 \<Rightarrow> PoseState \<Rightarrow> PoseState" where
  "lazy_lookup env openVRID s = (if shouldTry env (unat openVRID) s
     then note_query env (unat openVRID) (TrackingSystemName env openVRID) (while_unlocked env s) else s)"

definition follow_fallback :: "PoseEnv \<Rightarrow> FallbackTransform \<Rightarrow> DeviceTransform \<Rightarrow> DeviceTransform" where
  "follow_fallback env fb tf =
     (let tf1 = tf\<lparr>targetTransform := fb_transform fb, dt_scale := fb_scale fb\<rparr>;
          tf2 = set_motion_gate (fb_recalibrateOnMovement fb) tf1
      in if fallbackActive tf2 then tf2
         else tf2\<lparr>dt_transform := fb_transform fb, fallbackActive := True, currentRate := TINY,
                lastPoll := t_poll env\<rparr>)"

definition active_fallback :: "nat \<Rightarrow> PoseState \<Rightarrow> FallbackTransform option" where
  "active_fallback i s = (case FindFallbackSlot (deviceSystem s ! i) s of
       None \<Rightarrow> None
     | Some j \<Rightarrow> let fb = slot_tf (systemFallbacks s ! j) in if fb_enabled fb then Some fb else None)"

definition fallback_path :: "Eigen \<Rightarrow> PoseEnv \<Rightarrow> u32 \<Rightarrow> DriverPose_t \<Rightarrow> PoseState \<Rightarrow> PoseState \<times> DriverPose_t" where
  "fallback_path E env openVRID pose s0 =
     (let i = unat openVRID; s = lazy_lookup env openVRID s0; tf = transforms s ! i in
      if deviceSystem s ! i = [] then (s, pose)
      else case active_fallback i s of
        Some fb \<Rightarrow> (case blend_and_apply E env s (follow_fallback env fb tf) pose of (tf1, pose1) \<Rightarrow>
            (telemetry TELEMETRY_FALLBACK_APPLY (upd_dev i (\<lambda>_. tf1) s), pose1))
      | None \<Rightarrow> (if fallbackActive tf then upd_dev i (drop_follower (t_poll env)) s else s, pose))"

definition quash_path :: "PoseEnv \<Rightarrow> bool \<Rightarrow> DriverPose_t \<Rightarrow> PoseState \<Rightarrow> PoseState \<times> DriverPose_t" where
  "quash_path env quashTransition pose s =
     (let s1 = telemetry TELEMETRY_QUASH_APPLY s
      in (if quashTransition then while_unlocked env s1 else s1,
          pose\<lparr>poseIsValid := False, deviceIsConnected := False\<rparr>))"

definition enabled_path :: "Eigen \<Rightarrow> PoseEnv \<Rightarrow> nat \<Rightarrow> DriverPose_t \<Rightarrow> PoseState \<Rightarrow> PoseState \<times> DriverPose_t" where
  "enabled_path E env i pose s = (case blend_and_apply E env s (transforms s ! i) pose of (tf1, pose1) \<Rightarrow>
     (telemetry TELEMETRY_PER_ID_APPLY (upd_dev i (\<lambda>_. tf1) s), pose1))"

text \<open>The hook has no check on the device index: an index past the arrays is undefined behaviour,
  \<open>None\<close> here.\<close>

definition HandleDevicePoseUpdated :: "Eigen \<Rightarrow> PoseEnv \<Rightarrow> u32 \<Rightarrow> DriverPose_t \<Rightarrow> PoseState \<Rightarrow>
    (PoseState \<times> DriverPose_t) option" where
  "HandleDevicePoseUpdated E env openVRID pose0 s0 =
     (let i = unat openVRID in
      if i \<ge> k_unMaxTrackedDeviceCount then None
      else case suppress_prediction i (apply_debug E s0 openVRID pose0) s0 of (s1, pose) \<Rightarrow>
        let s2 = s1\<lparr>shmem := SetPose (t_sample env) openVRID pose (shmem s1)\<rparr>;
            tf = transforms s2 ! i;
            s3 = upd_dev i (\<lambda>t. t\<lparr>prevQuash := quash t\<rparr>) s2
        in Some (if quash tf then quash_path env (\<not> prevQuash tf) pose s3
                 else if dt_enabled tf then enabled_path E env i pose s3
                 else fallback_path E env openVRID pose s3))"

end
