(* ===== verification/CalibrationFilters.thy ===== *)
theory CalibrationFilters
  imports PoseTransform CalibrationDecisions FloatSteps
begin

text \<open>
  The numeric filters of the calibration overlay (\<open>modules/calibration/src/overlay/\<close>): the Kalman filter
  on the published transform (\<open>BlendFilter.h\<close>), the chi-square re-anchor detector
  (\<open>ReanchorChiSquareDetector.h\<close>), the rest-locked yaw machine (\<open>RestLockedYaw.h\<close>), the ring of recovery
  jumps (\<open>RecoveryDeltaBuffer.h\<close>), the tilt diagnostic (\<open>TiltDiagnostic.h\<close>) and the latency estimator
  (\<open>LatencyEstimator.h\<close>). The functions of \<open><cmath>\<close> and the Eigen operations are the fields of
  \<open>CalMath\<close>; the rest is computed with the double-precision arithmetic of the prelude.
\<close>

record CalMath = Eigen +
  m_sin :: "double \<Rightarrow> double"
  m_cos :: "double \<Rightarrow> double"
  m_acos :: "double \<Rightarrow> double"
  m_exp :: "double \<Rightarrow> double"
  m_atan2 :: "double \<Rightarrow> double \<Rightarrow> double"
  v_div :: "Vector3d \<Rightarrow> double \<Rightarrow> Vector3d"
  v_dot :: "Vector3d \<Rightarrow> Vector3d \<Rightarrow> double"
  v_normalized :: "Vector3d \<Rightarrow> Vector3d"
  q_conjugate :: "Quaterniond \<Rightarrow> Quaterniond"
  q_dot :: "Quaterniond \<Rightarrow> Quaterniond \<Rightarrow> double"

definition pi_lit :: double where
  "pi_lit = lit 3.14159265358979323846"

section \<open>The filter on the published transform\<close>

definition kSigmaYawPerSec :: double where "kSigmaYawPerSec = lit 0.0000291"
definition kSigmaPosPerSec :: double where "kSigmaPosPerSec = lit 0.0000167"
definition kSigmaYawMeas :: double where "kSigmaYawMeas = lit 0.5 * pi_lit / lit 180"
definition kSigmaPosMeas :: double where "kSigmaPosMeas = lit 0.005"
definition kDivergenceYawRad :: double where "kDivergenceYawRad = lit 0.5"
definition kDivergencePosM :: double where "kDivergencePosM = lit 0.3"
definition kInitialPyaw :: double where "kInitialPyaw = lit 0.1"
definition kInitialPpos :: double where "kInitialPpos = lit 0.04"

record BlendState =
  bf_initialized :: bool
  bf_yaw :: double
  bf_tx :: double
  bf_ty :: double
  bf_tz :: double
  bf_Pyaw :: double
  bf_Px :: double
  bf_Py :: double
  bf_Pz :: double

definition BlendState_new :: BlendState where
  "BlendState_new = \<lparr>bf_initialized = False, bf_yaw = 0, bf_tx = 0, bf_ty = 0, bf_tz = 0,
     bf_Pyaw = kInitialPyaw, bf_Px = kInitialPpos, bf_Py = kInitialPpos, bf_Pz = kInitialPpos\<rparr>"

text \<open>Gain, updated estimate and updated variance of one scalar component.\<close>

definition kalman_gain :: "double \<Rightarrow> double \<Rightarrow> double" where
  "kalman_gain P_pred R = P_pred / (P_pred + R)"

definition kalman_state :: "double \<Rightarrow> double \<Rightarrow> double \<Rightarrow> double" where
  "kalman_state x K y = x + K * y"

definition kalman_var :: "double \<Rightarrow> double \<Rightarrow> double" where
  "kalman_var K P_pred = (1 - K) * P_pred"

definition nonneg_dt :: "double \<Rightarrow> double" where
  "nonneg_dt dt = (if dt < 0 then 0 else dt)"

definition blend_Update ::
  "CalMath \<Rightarrow> double \<Rightarrow> double \<Rightarrow> double \<Rightarrow> double \<Rightarrow> BlendState \<Rightarrow> double \<times> double \<times> double \<times> double \<Rightarrow> double
    \<Rightarrow> BlendState \<times> double \<times> double" where
  "blend_Update M processSigmaYaw processSigmaPos measSigmaYaw measSigmaPos st meas dt0 =
     (case meas of (measYaw, measTx, measTy, measTz) \<Rightarrow>
       if \<not> bf_initialized st
       then (BlendState_new\<lparr>bf_initialized := True, bf_yaw := measYaw, bf_tx := measTx, bf_ty := measTy, bf_tz := measTz\<rparr>, 0, 0)
       else let dt = nonneg_dt dt0;
                dQyaw = processSigmaYaw * processSigmaYaw * dt; dQpos = processSigmaPos * processSigmaPos * dt;
                Pyaw_pred = bf_Pyaw st + dQyaw; Px_pred = bf_Px st + dQpos; Py_pred = bf_Py st + dQpos; Pz_pred = bf_Pz st + dQpos;
                yYawRaw = measYaw - bf_yaw st; yYaw = m_atan2 M (m_sin M yYawRaw) (m_cos M yYawRaw);
                yX = measTx - bf_tx st; yY = measTy - bf_ty st; yZ = measTz - bf_tz st;
                Ryaw = measSigmaYaw * measSigmaYaw; Rpos = measSigmaPos * measSigmaPos;
                Kyaw = kalman_gain Pyaw_pred Ryaw; Kx = kalman_gain Px_pred Rpos;
                Ky = kalman_gain Py_pred Rpos; Kz = kalman_gain Pz_pred Rpos
            in (st\<lparr>bf_yaw := kalman_state (bf_yaw st) Kyaw yYaw, bf_tx := kalman_state (bf_tx st) Kx yX,
                   bf_ty := kalman_state (bf_ty st) Ky yY, bf_tz := kalman_state (bf_tz st) Kz yZ,
                   bf_Pyaw := kalman_var Kyaw Pyaw_pred, bf_Px := kalman_var Kx Px_pred,
                   bf_Py := kalman_var Ky Py_pred, bf_Pz := kalman_var Kz Pz_pred\<rparr>,
                \<bar>yYaw\<bar>, fp_sqrt (yX * yX + yY * yY + yZ * yZ)))"

text \<open>The call without the optional arguments.\<close>

definition blend_Update_default :: "CalMath \<Rightarrow> BlendState \<Rightarrow> double \<times> double \<times> double \<times> double \<Rightarrow> double \<Rightarrow> BlendState \<times> double \<times> double" where
  "blend_Update_default M = blend_Update M kSigmaYawPerSec kSigmaPosPerSec kSigmaYawMeas kSigmaPosMeas"

definition IsDivergent :: "double \<Rightarrow> double \<Rightarrow> bool" where
  "IsDivergent yawInnov posInnov \<longleftrightarrow> kDivergenceYawRad < yawInnov \<or> kDivergencePosM < posInnov"

definition blend_Reset :: "BlendState \<Rightarrow> BlendState" where
  "blend_Reset st = BlendState_new"

section \<open>The chi-square re-anchor detector\<close>

definition kChiSquare6DoF_p1e4 :: double where "kChiSquare6DoF_p1e4 = lit 27.8563"
definition kVelocityWindowSec :: double where "kVelocityWindowSec = lit 0.2"
definition kVarianceWindowSec :: double where "kVarianceWindowSec = lit 5"
definition kFreezeWindowSec :: double where "kFreezeWindowSec = lit 0.5"
definition kHistoryCapacity :: nat where "kHistoryCapacity = 32"
definition kVarianceFloor :: double where "kVarianceFloor = lit 0.00000001"

record PoseSample =
  ps_trans :: Vector3d
  ps_rot :: Quaterniond
  ps_timestamp :: double

record ReanchorState =
  ra_history :: "PoseSample list"
  ra_historyCount :: nat
  residualVariance :: "double list"
  varianceCount :: nat
  freezeUntil :: double
  ra_lastFireTime :: double
  lastChiSquared :: double

definition PoseSample_new :: PoseSample where
  "PoseSample_new = \<lparr>ps_trans = v_zero, ps_rot = q_identity, ps_timestamp = 0\<rparr>"

definition ReanchorState_new :: ReanchorState where
  "ReanchorState_new = \<lparr>ra_history = replicate kHistoryCapacity PoseSample_new, ra_historyCount = 0,
     residualVariance = replicate 6 kVarianceFloor, varianceCount = 0, freezeUntil = lit (-1000000000),
     ra_lastFireTime = lit (-1000000000), lastChiSquared = 0\<rparr>"

definition PushPose :: "Vector3d \<Rightarrow> Quaterniond \<Rightarrow> double \<Rightarrow> ReanchorState \<Rightarrow> ReanchorState" where
  "PushPose tr rot now s = s\<lparr>
     ra_history := (ra_history s)[ra_historyCount s mod kHistoryCapacity := \<lparr>ps_trans = tr, ps_rot = rot, ps_timestamp = now\<rparr>],
     ra_historyCount := ra_historyCount s + 1\<rparr>"

definition live_history :: "ReanchorState \<Rightarrow> PoseSample list" where
  "live_history s = take (min (ra_historyCount s) kHistoryCapacity) (ra_history s)"

text \<open>The two scans over the live samples: the oldest inside the window, the latest at all. Both keep the
  first of two samples with the same stamp.\<close>

definition earliest_in_window :: "double \<Rightarrow> PoseSample list \<Rightarrow> PoseSample option" where
  "earliest_in_window now ps = fold (\<lambda>p acc.
     if now - ps_timestamp p \<le> kVelocityWindowSec \<and> (case acc of None \<Rightarrow> True | Some e \<Rightarrow> ps_timestamp p < ps_timestamp e)
     then Some p else acc) ps None"

definition latest_sample :: "PoseSample list \<Rightarrow> PoseSample" where
  "latest_sample ps = fold (\<lambda>p acc. if ps_timestamp acc < ps_timestamp p then p else acc) ps
     \<lparr>ps_trans = v_zero, ps_rot = q_identity, ps_timestamp = lit (-1000000000)\<rparr>"

definition EstimateLinearVelocity :: "CalMath \<Rightarrow> ReanchorState \<Rightarrow> double \<Rightarrow> Vector3d" where
  "EstimateLinearVelocity M s now =
     (let live = live_history s
      in if length live < 2 then v_zero
         else case earliest_in_window now live of
                None \<Rightarrow> v_zero
              | Some e \<Rightarrow>
                  let l = latest_sample live; dt = ps_timestamp l - ps_timestamp e
                  in if dt \<le> lit 0.000001 then v_zero
                     else v_div M (v_sub M (ps_trans l) (ps_trans e)) dt)"

definition PredictTranslation :: "CalMath \<Rightarrow> ReanchorState \<Rightarrow> double \<Rightarrow> Vector3d" where
  "PredictTranslation M s now =
     (let live = live_history s
      in if live = [] then v_zero
         else let l = latest_sample live; v = EstimateLinearVelocity M s (ps_timestamp l);
                  dt = std_max 0 (now - ps_timestamp l)
              in v_add M (ps_trans l) (v_scale M v dt))"

definition update_variance :: "double \<Rightarrow> double \<Rightarrow> double \<Rightarrow> double" where
  "update_variance alpha r v =
     (let w = (1 - alpha) * v + alpha * (r * r) in if w < kVarianceFloor then kVarianceFloor else w)"

definition UpdateResidualVariance :: "double list \<Rightarrow> double \<Rightarrow> ReanchorState \<Rightarrow> ReanchorState" where
  "UpdateResidualVariance resid dt s =
     (let alpha = (if 0 < dt \<and> dt < kVarianceWindowSec then dt / kVarianceWindowSec else lit 0.05)
      in s\<lparr>residualVariance := map2 (update_variance alpha) resid (residualVariance s), varianceCount := varianceCount s + 1\<rparr>)"

definition MahalanobisSquared :: "double list \<Rightarrow> double list \<Rightarrow> double" where
  "MahalanobisSquared resid variance =
     fold (\<lambda>(r, v) acc. acc + (r * r) / std_max v kVarianceFloor) (zip resid variance) 0"

fun vec_list :: "Vector3d \<Rightarrow> double list" where
  "vec_list (x, y, z) = [x, y, z]"

definition reanchor_residual :: "CalMath \<Rightarrow> ReanchorState \<Rightarrow> Vector3d \<Rightarrow> Quaterniond \<Rightarrow> double \<Rightarrow> double list" where
  "reanchor_residual M s observedTrans observedRot now =
     (let transResid = v_sub M observedTrans (PredictTranslation M s now);
          rotDelta = q_mul M observedRot (q_conjugate M (ps_rot (latest_sample (live_history s))))
      in vec_list transResid @ [qx rotDelta, qy rotDelta, qz rotDelta])"

definition TickAndCheckCandidate ::
  "CalMath \<Rightarrow> Vector3d \<Rightarrow> Quaterniond \<Rightarrow> double \<Rightarrow> double \<Rightarrow> ReanchorState \<Rightarrow> ReanchorState \<times> bool" where
  "TickAndCheckCandidate M observedTrans observedRot now dt s =
     (if length (live_history s) < 4 then (PushPose observedTrans observedRot now s, False)
      else let resid = reanchor_residual M s observedTrans observedRot now;
               chi = MahalanobisSquared resid (residualVariance s);
               s1 = s\<lparr>lastChiSquared := chi\<rparr>
           in if 20 \<le> varianceCount s1 \<and> kChiSquare6DoF_p1e4 < chi
              then (PushPose observedTrans observedRot now (s1\<lparr>freezeUntil := now + kFreezeWindowSec, ra_lastFireTime := now\<rparr>), True)
              else (UpdateResidualVariance resid dt (PushPose observedTrans observedRot now s1), False))"

definition IsFrozen :: "ReanchorState \<Rightarrow> double \<Rightarrow> bool" where
  "IsFrozen s now \<longleftrightarrow> now < freezeUntil s"

section \<open>Rest-locked yaw\<close>

record RateCaps =
  lighthouse_deg_per_sec :: double
  quest_deg_per_sec :: double
  slimevr_deg_per_sec :: double
  unknown_deg_per_sec :: double
  global_ceiling_deg_per_sec :: double

definition RateCaps_default :: RateCaps where
  "RateCaps_default = \<lparr>lighthouse_deg_per_sec = lit 0.05, quest_deg_per_sec = lit 0.15, slimevr_deg_per_sec = lit 0.3,
     unknown_deg_per_sec = lit 0.15, global_ceiling_deg_per_sec = lit 0.5\<rparr>"

datatype TrackingSystemClass = TSUnknown | TSLighthouse | TSQuest | TSSlimeVR

definition kRestEnterDegPerSec :: double where "kRestEnterDegPerSec = lit 120"
definition kRestEnterSec :: double where "kRestEnterSec = lit 1"

datatype RestPhase = Moving | RecentlyAtRest | AtRest

record RestState =
  rs_phase :: RestPhase
  rs_lastRot :: Quaterniond
  phaseEnteredAt :: double
  lockedRot :: Quaterniond
  haveLock :: bool
  rs_initialized :: bool

definition RestState_new :: RestState where
  "RestState_new = \<lparr>rs_phase = Moving, rs_lastRot = q_identity, phaseEnteredAt = 0, lockedRot = q_identity,
     haveLock = False, rs_initialized = False\<rparr>"

definition angular_speed :: "CalMath \<Rightarrow> Quaterniond \<Rightarrow> Quaterniond \<Rightarrow> double \<Rightarrow> double" where
  "angular_speed M lastRot newRot dt_sec =
     (let dotProd = std_clamp \<bar>q_dot M lastRot newRot\<bar> 0 1;
          angleDeg = (lit 2 * m_acos M dotProd) * (lit 180 / pi_lit)
      in angleDeg / std_max dt_sec (lit 0.0001))"

definition UpdatePhase :: "CalMath \<Rightarrow> RestState \<Rightarrow> Quaterniond \<Rightarrow> double \<Rightarrow> double \<Rightarrow> RestState" where
  "UpdatePhase M prior newRot now dt_sec =
     (if \<not> rs_initialized prior
      then prior\<lparr>rs_phase := Moving, rs_lastRot := newRot, phaseEnteredAt := now, haveLock := False, rs_initialized := True\<rparr>
      else let s = prior\<lparr>rs_lastRot := newRot\<rparr>
           in if kRestEnterDegPerSec < angular_speed M (rs_lastRot prior) newRot dt_sec
              then s\<lparr>rs_phase := Moving, phaseEnteredAt := now, haveLock := False\<rparr>
              else case rs_phase s of
                     Moving \<Rightarrow> s\<lparr>rs_phase := RecentlyAtRest, phaseEnteredAt := now\<rparr>
                   | RecentlyAtRest \<Rightarrow>
                       if kRestEnterSec \<le> now - phaseEnteredAt s
                       then s\<lparr>rs_phase := AtRest, lockedRot := newRot, haveLock := True\<rparr> else s
                   | AtRest \<Rightarrow> s)"

definition rest_ResetState :: "RestState \<Rightarrow> RestState" where
  "rest_ResetState s = RestState_new"

definition SignedYawDeltaRad :: "CalMath \<Rightarrow> Quaterniond \<Rightarrow> Quaterniond \<Rightarrow> double" where
  "SignedYawDeltaRad M fromQ toQ =
     (let delta = q_mul M toQ (q_conjugate M fromQ)
      in m_atan2 M (lit 2 * (qw delta * qy delta + qz delta * qx delta))
           (1 - lit 2 * (qx delta * qx delta + qy delta * qy delta)))"

definition yaw_cap_rad :: "double \<Rightarrow> double \<Rightarrow> double" where
  "yaw_cap_rad capDegPerSec dtSec = capDegPerSec * (pi_lit / lit 180) * dtSec"

definition ApplyBoundedYawStep :: "double \<Rightarrow> double \<Rightarrow> double \<Rightarrow> double" where
  "ApplyBoundedYawStep meanYawErrRad dtSec capDegPerSec =
     (let capRad = yaw_cap_rad capDegPerSec dtSec
      in if capRad < meanYawErrRad then capRad else if meanYawErrRad < - capRad then - capRad else meanYawErrRad)"

definition CapForClass :: "TrackingSystemClass \<Rightarrow> RateCaps \<Rightarrow> double" where
  "CapForClass c caps = std_min
     (case c of TSLighthouse \<Rightarrow> lighthouse_deg_per_sec caps | TSQuest \<Rightarrow> quest_deg_per_sec caps
        | TSSlimeVR \<Rightarrow> slimevr_deg_per_sec caps | TSUnknown \<Rightarrow> unknown_deg_per_sec caps) (global_ceiling_deg_per_sec caps)"

record YawContribution =
  yawErrRad :: double
  yc_weight :: double
  yc_cls :: TrackingSystemClass

fun ClassWeight :: "TrackingSystemClass \<Rightarrow> double" where
  "ClassWeight TSLighthouse = 1"
| "ClassWeight TSQuest = lit 0.6"
| "ClassWeight TSSlimeVR = lit 0.3"
| "ClassWeight TSUnknown = lit 0.5"

definition AgeWeight :: "CalMath \<Rightarrow> double \<Rightarrow> double" where
  "AgeWeight M secondsSinceLock = (if secondsSinceLock \<le> 0 then 1 else m_exp M (- secondsSinceLock / lit 120))"

definition QualityWeight :: "double \<Rightarrow> double" where
  "QualityWeight sigmaYawRad = 1 / (1 + sigmaYawRad * sigmaYawRad)"

definition FuseYawContributionsRad :: "CalMath \<Rightarrow> YawContribution list \<Rightarrow> double" where
  "FuseYawContributionsRad M xs =
     (let (sumSin, sumCos, weightTotal) = fold (\<lambda>x (a, b, c).
            (a + yc_weight x * m_sin M (yawErrRad x), b + yc_weight x * m_cos M (yawErrRad x), c + yc_weight x)) xs (0, 0, 0)
      in if weightTotal \<le> 0 then 0 else m_atan2 M sumSin sumCos)"

section \<open>Recovery jumps\<close>

definition kBufferSize :: nat where "kBufferSize = 6"
definition kMinEvents :: nat where "kMinEvents = 3"
definition kAmount :: double where "kAmount = lit 0.1"
definition kConsistencyCosine :: double where "kConsistencyCosine = lit 0.7"
definition kHalfLifeSec :: double where "kHalfLifeSec = lit 300"

record RecoveryEvent =
  rv_direction :: Vector3d
  rv_magnitude :: double
  rv_timestamp :: double

record RecoveryBuffer =
  rv_events :: "RecoveryEvent list"
  rv_count :: nat

definition RecoveryBuffer_new :: RecoveryBuffer where
  "RecoveryBuffer_new = \<lparr>rv_events = replicate kBufferSize \<lparr>rv_direction = v_zero, rv_magnitude = 0, rv_timestamp = 0\<rparr>, rv_count = 0\<rparr>"

definition recovery_event :: "CalMath \<Rightarrow> Vector3d \<Rightarrow> double \<Rightarrow> RecoveryEvent" where
  "recovery_event M deltaVec now =
     (let mag = v_norm M deltaVec
      in \<lparr>rv_direction = (if lit 0.000000001 < mag then v_div M deltaVec mag else v_zero), rv_magnitude = mag, rv_timestamp = now\<rparr>)"

definition recovery_Push :: "CalMath \<Rightarrow> Vector3d \<Rightarrow> double \<Rightarrow> RecoveryBuffer \<Rightarrow> RecoveryBuffer" where
  "recovery_Push M deltaVec now b = b\<lparr>
     rv_events := (rv_events b)[rv_count b mod kBufferSize := recovery_event M deltaVec now], rv_count := rv_count b + 1\<rparr>"

definition recovery_Clear :: "RecoveryBuffer \<Rightarrow> RecoveryBuffer" where
  "recovery_Clear b = RecoveryBuffer_new"

definition LiveCount :: "RecoveryBuffer \<Rightarrow> nat" where
  "LiveCount b = min (rv_count b) kBufferSize"

definition recency_weight :: "CalMath \<Rightarrow> double \<Rightarrow> RecoveryEvent \<Rightarrow> double" where
  "recency_weight M now ev = m_exp M (- std_max 0 (now - rv_timestamp ev) / kHalfLifeSec)"

definition PredictNext :: "CalMath \<Rightarrow> RecoveryBuffer \<Rightarrow> double \<Rightarrow> (Vector3d \<times> double) option" where
  "PredictNext M b now =
     (let n = LiveCount b; evs = take n (rv_events b)
      in if n < kMinEvents then None
         else let (weightedSum, weightedMag, weightTotal) = fold (\<lambda>ev (s, m, t).
                    let w = recency_weight M now ev
                    in (v_add M s (v_scale M (v_scale M (rv_direction ev) w) (rv_magnitude ev)), m + w * rv_magnitude ev, t + w)) evs (v_zero, 0, 0)
              in if weightTotal \<le> 0 \<or> weightedMag \<le> 0 then None
                 else let meanMag = weightedMag / weightTotal; centroid = v_div M weightedSum weightTotal;
                          centroidNorm = v_norm M centroid
                      in if centroidNorm < lit 0.000000001 then None
                         else let meanDir = v_div M centroid centroidNorm;
                                  cosWeighted = fold (\<lambda>ev c. c + recency_weight M now ev * v_dot M (rv_direction ev) meanDir) evs 0
                              in if cosWeighted / weightTotal < kConsistencyCosine then None else Some (meanDir, meanMag))"

definition ComputePerTickNudge :: "CalMath \<Rightarrow> RecoveryBuffer \<Rightarrow> double \<Rightarrow> double \<Rightarrow> double \<Rightarrow> Vector3d" where
  "ComputePerTickNudge M b now dt capMps =
     (case PredictNext M b now of
        None \<Rightarrow> v_zero
      | Some (dir, mag) \<Rightarrow>
          if dt \<le> 0 then v_zero
          else let step = v_scale M dir (kAmount * mag); maxStep = capMps * dt
               in if maxStep < v_norm M step then v_scale M (v_normalized M step) maxStep else step)"

section \<open>Tilt diagnostic\<close>

definition kSustainedTiltThresholdDeg :: double where "kSustainedTiltThresholdDeg = lit 1"
definition kHysteresisFraction :: double where "kHysteresisFraction = lit 0.5"
definition kSustainedWindowSeconds :: double where "kSustainedWindowSeconds = lit 60"
definition kMinSamplesForDecision :: nat where "kMinSamplesForDecision = 30"

record TiltDecision =
  sustainedDisagreement :: bool
  medianDeg :: double

definition MedianOverWindow :: "(double \<times> double) list \<Rightarrow> double \<Rightarrow> double" where
  "MedianOverWindow window now_s =
     (let cutoff = now_s - kSustainedWindowSeconds; inWindow = map snd (filter (\<lambda>s. cutoff \<le> fst s) window)
      in if length inWindow < kMinSamplesForDecision then - 1 else sort_fp inWindow ! (length inWindow div 2))"

definition EvaluateTilt :: "(double \<times> double) list \<Rightarrow> double \<Rightarrow> bool \<Rightarrow> TiltDecision" where
  "EvaluateTilt window now_s wasAlarmed =
     (let m = MedianOverWindow window now_s
      in \<lparr>sustainedDisagreement =
           (if m < 0 then wasAlarmed
            else if wasAlarmed then kSustainedTiltThresholdDeg * kHysteresisFraction \<le> m
            else kSustainedTiltThresholdDeg < m), medianDeg = m\<rparr>)"

section \<open>Latency\<close>

definition kMinRmsSpeed :: double where "kMinRmsSpeed = lit 0.1"

definition ParabolicSubsamplePeak :: "double list \<Rightarrow> int \<Rightarrow> double" where
  "ParabolicSubsamplePeak C bestIdx =
     (if bestIdx \<le> 0 \<or> int (length C) - 1 \<le> bestIdx then 0
      else let y0 = C ! nat (bestIdx - 1); y1 = C ! nat bestIdx; y2 = C ! nat (bestIdx + 1);
               denom = y0 - lit 2 * y1 + y2
           in if \<bar>denom\<bar> \<le> lit 0.000000000001 then 0
              else let frac = lit 0.5 * (y0 - y2) / denom
                   in if \<not> isfinite frac \<or> 1 < \<bar>frac\<bar> then 0 else frac)"

definition sum_fp :: "double list \<Rightarrow> double" where
  "sum_fp xs = fold (\<lambda>x acc. acc + x) xs 0"

definition PrepareSeries :: "double list \<Rightarrow> double list \<Rightarrow> (double list \<times> double list) option" where
  "PrepareSeries ref tgt =
     (let N = length ref; n = of_integer (int N)
      in if N < 4 \<or> length tgt \<noteq> N then None
         else let refRms = fp_sqrt (sum_fp (map (\<lambda>x. x * x) ref) / n); tgtRms = fp_sqrt (sum_fp (map (\<lambda>x. x * x) tgt) / n)
              in if refRms < kMinRmsSpeed \<or> tgtRms < kMinRmsSpeed then None
                 else let refMean = sum_fp ref / n; tgtMean = sum_fp tgt / n
                      in Some (map (\<lambda>x. x - refMean) ref, map (\<lambda>x. x - tgtMean) tgt))"

text \<open>The search for the largest correlation: the index of the first strict maximum, or \<open>-1\<close>.\<close>

definition best_index :: "double list \<Rightarrow> int" where
  "best_index C = fst (fold (\<lambda>(i, v) (b, bv). if bv < v then (i, v) else (b, bv)) (zip (map int [0..<length C]) C) (- 1, FInf True))"

definition lag_of_peak :: "double list \<Rightarrow> nat \<Rightarrow> double" where
  "lag_of_peak C maxTau =
     (let bestIdx = best_index C
      in if bestIdx \<le> 0 \<or> int (length C) - 1 \<le> bestIdx then of_integer (bestIdx - int maxTau)
         else of_integer (bestIdx - int maxTau) + ParabolicSubsamplePeak C bestIdx)"

definition cross_correlation :: "double list \<Rightarrow> double list \<Rightarrow> int \<Rightarrow> double" where
  "cross_correlation r t tau =
     (let N = int (length r)
      in sum_fp (map (\<lambda>k. r ! nat k * t ! nat (k + tau)) [max 0 (- tau)..min N (N - tau) - 1]))"

definition taus :: "nat \<Rightarrow> int list" where
  "taus maxTau = [- int maxTau..int maxTau]"

definition EstimateLagTimeDomain :: "double list \<Rightarrow> double list \<Rightarrow> nat \<Rightarrow> double option" where
  "EstimateLagTimeDomain ref tgt maxTau =
     (if length ref < 2 * maxTau + 4 then None
      else case PrepareSeries ref tgt of
             None \<Rightarrow> None
           | Some (r, t) \<Rightarrow> Some (lag_of_peak (map (cross_correlation r t) (taus maxTau)) maxTau))"

definition dft :: "CalMath \<Rightarrow> double list \<Rightarrow> nat \<Rightarrow> double \<times> double" where
  "dft M x k =
     (let N = length x; w = - lit 2 * pi_lit / of_integer (int N);
          th = (\<lambda>n. w * of_integer (int k) * of_integer (int n))
      in (sum_fp (map (\<lambda>n. x ! n * m_cos M (th n)) [0..<N]), sum_fp (map (\<lambda>n. x ! n * m_sin M (th n)) [0..<N])))"

definition phat :: "double \<times> double \<Rightarrow> double \<times> double \<Rightarrow> double \<times> double" where
  "phat X Y = (case (X, Y) of ((xRe, xIm), (yRe, yIm)) \<Rightarrow>
     let pr = xRe * yRe + xIm * yIm; pim = xRe * yIm - xIm * yRe;
         mag = fp_sqrt (pr * pr + pim * pim); inv = 1 / std_max mag (lit 0.000000000001)
     in (pr * inv, pim * inv))"

definition idft_at :: "CalMath \<Rightarrow> (double \<times> double) list \<Rightarrow> int \<Rightarrow> double" where
  "idft_at M P tau =
     (let N = length P; n = tau mod int N; w = lit 2 * pi_lit / of_integer (int N);
          th = (\<lambda>k. w * of_integer (int k) * of_integer n)
      in sum_fp (map (\<lambda>k. fst (P ! k) * m_cos M (th k) - snd (P ! k) * m_sin M (th k)) [0..<N]) * (1 / of_integer (int N)))"

definition EstimateLagGccPhat :: "CalMath \<Rightarrow> double list \<Rightarrow> double list \<Rightarrow> nat \<Rightarrow> double option" where
  "EstimateLagGccPhat M ref tgt maxTau =
     (if length ref < 2 * maxTau + 4 then None
      else case PrepareSeries ref tgt of
             None \<Rightarrow> None
           | Some (r, t) \<Rightarrow>
               let P = map (\<lambda>k. phat (dft M r k) (dft M t k)) [0..<length r]
               in Some (lag_of_peak (map (idft_at M P) (taus maxTau)) maxTau))"

definition EstimateLatencyLagSamples :: "CalMath \<Rightarrow> bool \<Rightarrow> double list \<Rightarrow> double list \<Rightarrow> nat \<Rightarrow> double option" where
  "EstimateLatencyLagSamples M useGccPhat ref tgt maxTau =
     (if useGccPhat then EstimateLagGccPhat M ref tgt maxTau else EstimateLagTimeDomain ref tgt maxTau)"

section \<open>Rounding in the filter\<close>

lemma fround_dyadic:
  assumes "0 \<le> m" "m < 2 ^ 53" "k \<le> 100"
  shows "fround (of_int m / 2 ^ k) = (Fin (of_int m / 2 ^ k) :: double)"
proof -
  let ?x = "of_int m / 2 ^ k :: rat"
  have x: "?x = of_int m * 2 powi (- int k)" by (simp add: power_int_minus divide_inverse)
  have "rnd 53 ?x = ?x"
  proof (cases "m = 0")
    case False
    then have pos: "0 < ?x" using assms(1) by simp
    have "?x < 2 powi (53 - int k)" using assms(2) by (simp add: power_int_diff divide_strict_right_mono)
    then have "(2::rat) powi ilog2 ?x < 2 powi (53 - int k)" using ilog2_bounds(1) [OF pos] by linarith
    then have "ilog2 ?x < 53 - int k" by (simp only: pow2_less_iff)
    then have "fp_qexp 53 ?x \<le> - int k" using pos assms(1,3) by (simp add: fp_qexp_def fp_qmin_def fp_emax_def)
    from rnd_exact [OF x this] show ?thesis .
  qed simp
  moreover have "\<bar>?x\<bar> \<le> 2 ^ 1000"
  proof -
    have "?x \<le> of_int m" using assms(1) mult_left_mono [of 1 "2 ^ k" "of_int m :: rat"] by (simp add: divide_le_eq)
    also have "\<dots> \<le> of_int (2 ^ 53)" using assms(2) by (simp only: of_int_le_iff)
    also have "\<dots> \<le> (2 ^ 1000 :: rat)" by simp
    finally show ?thesis using assms(1) by simp
  qed
  ultimately show ?thesis using fround_moderate [of ?x] by simp
qed

lemma exact_dyadics:
  "fround 0 = (Fin 0 :: double)" "fround 1 = (Fin 1 :: double)" "fround (1/8) = (Fin (1/8) :: double)" "fround (1/4) = (Fin (1/4) :: double)"
  "fround (1/2) = (Fin (1/2) :: double)" "fround (65535/65536) = (Fin (65535/65536) :: double)" "fround (1/65536) = (Fin (1/65536) :: double)"
  using fround_dyadic [of 1 0] fround_dyadic [of 1 3] fround_dyadic [of 1 2] fround_dyadic [of 1 1] fround_dyadic [of 65535 16] fround_dyadic [of 1 16]
  by simp_all

lemma spacing_rel:
  assumes "1 / 65536 \<le> y" shows "2 powi fp_qexp 53 y \<le> y / 2 ^ 52"
proof -
  have y: "0 < y" using assms by linarith
  have "(2::rat) powi -16 \<le> y" using assms by (simp add: power_int_def power_one_over)
  moreover have "y < 2 powi (ilog2 y + 1)" using ilog2_bounds(2) [OF y] by simp
  ultimately have "(2::rat) powi -16 < 2 powi (ilog2 y + 1)" by linarith
  then have "-16 < ilog2 y + 1" by (simp only: pow2_less_iff)
  then have "fp_qexp 53 y = ilog2 y - 52" using y by (simp add: fp_qexp_def fp_qmin_def fp_emax_def)
  then have "2 powi fp_qexp 53 y * 2 ^ 52 = (2::rat) powi ilog2 y" using pow2_split [of "ilog2 y" "ilog2 y - 52"] by (simp add: power_int_def)
  then show ?thesis using ilog2_bounds(1) [OF y] by (simp add: field_simps)
qed

lemma rnd_close:
  assumes "1 / 65536 \<le> y"
  shows "rnd 53 y \<le> y + y / 2 ^ 53" "y - y / 2 ^ 53 \<le> rnd 53 y"
proof -
  have y: "y \<noteq> 0" using assms by auto
  show "rnd 53 y \<le> y + y / 2 ^ 53" using rnd_error [OF y, of 53] spacing_rel [OF assms] by simp
  show "y - y / 2 ^ 53 \<le> rnd 53 y"
    using rnd_error [of "- y" 53] y spacing_rel [OF assms] by (simp add: rnd_minus fp_qexp_def)
qed

text \<open>One component of the filter: with a prior variance of at most an eighth, a process noise of at most
  an eighth and a measurement noise of the order the code uses, the gain stays clearly below 1 and the
  variance comes back to at most an eighth.\<close>

lemma gain_arith:
  assumes "0 \<le> P" "P \<le> 1/4" "1/65536 \<le> r" "P + r - (P + r) / 2 ^ 53 \<le> s"
  shows "P \<le> 65535 / 65536 * (s :: rat)"
  using assms by (simp add: field_simps)

lemma half_arith:
  assumes "1/8 < P" "r \<le> 1/8192" "s \<le> P + r + (P + r) / 2 ^ 53"
  shows "s \<le> 2 * (P :: rat)"
  using assms by (simp add: field_simps)

lemma kalman_component:
  assumes "fin_in 0 (1/8) P" "fin_in 0 (1/8) dQ" "R = Fin r" "1/65536 \<le> r" "r \<le> 1/8192"
  shows "(\<exists>k. kalman_gain (P + dQ) R = Fin k \<and> 0 \<le> k \<and> k \<le> 65535/65536)
    \<and> fin_in 0 (1/8) (kalman_var (kalman_gain (P + dQ) R) (P + dQ))"
proof -
  obtain a b where a: "P = Fin a" "0 \<le> a" "a \<le> 1/8" and b: "dQ = Fin b" "0 \<le> b" "b \<le> 1/8"
    using assms(1,2) by (auto elim!: fin_inE)
  obtain p where p: "P + dQ = Fin p" "0 \<le> p" "p \<le> 1/4"
    using fround_between [OF exact_dyadics(1,4), of "a + b"] a b by auto
  have pr: "1/65536 \<le> p + r" using p assms(4) by linarith
  obtain s where s: "fround (p + r) = (Fin s :: double)" "s \<le> 1/2" "0 \<le> s"
    using fround_between [OF exact_dyadics(1,5), of "p + r"] p assms(4,5) by auto
  have sv: "s = rnd 53 (p + r)" using s(1) by (auto simp: fround_def Let_def split: if_splits)
  have up: "p \<le> 65535/65536 * s" using gain_arith [OF p(2,3) assms(4)] rnd_close(2) [OF pr] by (simp add: sv)
  have spos: "0 < s" using rnd_close(2) [OF pr] pr by (simp add: sv field_simps)
  have q: "0 \<le> p / s" "p / s \<le> 65535/65536" using up spos p by (simp_all add: divide_le_eq)
  obtain k where k: "fround (p / s) = (Fin k :: double)" "0 \<le> k" "k \<le> 65535/65536"
    using fround_between [OF exact_dyadics(1,6) q] by blast
  have K: "kalman_gain (P + dQ) R = Fin k" using spos k(1) by (simp add: kalman_gain_def p(1) assms(3) s(1))
  obtain c where c: "fround (1 - k) = (Fin c :: double)" "0 \<le> c" "c \<le> 1"
    using fround_between [OF exact_dyadics(1,2), of "1 - k"] k by auto
  have "c * p \<le> 1/8"
  proof (cases "p \<le> 1/8")
    case True
    then show ?thesis using c p mult_mono [of c 1 p "1/8"] by simp
  next
    case False
    have "s \<le> 2 * p" using half_arith [of p r s] False assms(5) rnd_close(1) [OF pr] by (simp add: sv)
    then have "1/2 \<le> p / s" using spos by (simp add: le_divide_eq)
    then have "1/2 \<le> k" using fround_between [OF exact_dyadics(5,6), of "p / s"] q k(1) by auto
    then have "c \<le> 1/2" using fround_between [OF exact_dyadics(1,5), of "1 - k"] k c(1) by auto
    then show ?thesis using c p mult_mono [of c "1/2" p "1/4"] by simp
  qed
  then have "fin_in 0 (1/8) (fround (c * p))" using c p by (intro fround_fin_in [OF exact_dyadics(1,3)]) simp_all
  then show ?thesis using K k p c by (simp add: kalman_var_def one_fp_def minus_fp_def)
qed


lemma fround_in_dyadic:
  assumes "lo = of_int m / 2 ^ j" "hi = of_int n / 2 ^ k" "0 \<le> m" "m < 2 ^ 53" "0 \<le> n" "n < 2 ^ 53" "j \<le> 100" "k \<le> 100" "lo \<le> x" "x \<le> hi"
  obtains r where "fround x = (Fin r :: double)" "lo \<le> r" "r \<le> hi"
  using fround_between [of lo hi x] fround_dyadic [of m j] fround_dyadic [of n k] assms by auto

lemma measurement_noise:
  "\<exists>r. kSigmaPosMeas * kSigmaPosMeas = Fin r \<and> 1/65536 \<le> r \<and> r \<le> 1/8192"
  "\<exists>r. kSigmaYawMeas * kSigmaYawMeas = Fin r \<and> 1/65536 \<le> r \<and> r \<le> 1/8192"
proof -
  obtain a where a: "kSigmaPosMeas = Fin a" "1/256 \<le> a" "a \<le> 3/512"
    unfolding kSigmaPosMeas_def lit_def by (rule fround_in_dyadic [of "1/256" 1 8 "3/512" 3 9 "0.005"]) simp_all
  have "1/256 * (1/256) \<le> a * a" "a * a \<le> 3/512 * (3/512)" using a by (intro mult_mono; simp)+
  then obtain r where "fround (a * a) = (Fin r :: double)" "1/65536 \<le> r" "r \<le> 1/8192"
    by (elim fround_in_dyadic [of "1/65536" 1 16 "1/8192" 1 13 "a * a", rotated -1]) simp_all
  then show "\<exists>r. kSigmaPosMeas * kSigmaPosMeas = Fin r \<and> 1/65536 \<le> r \<and> r \<le> 1/8192" unfolding a(1) times_fp.simps by blast
  obtain b where b: "pi_lit = Fin b" "3 \<le> b" "b \<le> 13/4"
    unfolding pi_lit_def lit_def by (rule fround_in_dyadic [of 3 3 0 "13/4" 13 2 "3.14159265358979323846"]) simp_all
  have half: "lit 0.5 = (Fin (1/2) :: double)" using fround_dyadic [of 1 1] by (simp add: lit_def)
  have c180: "lit 180 = (Fin 180 :: double)" using fround_dyadic [of 180 0] by (simp add: lit_def)
  obtain c where c: "fround (1/2 * b) = (Fin c :: double)" "3/2 \<le> c" "c \<le> 13/8"
    using b by (elim fround_in_dyadic [of "3/2" 3 1 "13/8" 13 3 "1/2 * b", rotated -1]) simp_all
  obtain d where d: "fround (c / 180) = (Fin d :: double)" "1/128 \<le> d" "d \<le> 5/512"
    using c by (elim fround_in_dyadic [of "1/128" 1 7 "5/512" 5 9 "c / 180", rotated -1]) simp_all
  have y: "kSigmaYawMeas = Fin d" unfolding kSigmaYawMeas_def half b(1) c180 times_fp.simps c(1) by (simp add: d(1))
  have "1/128 * (1/128) \<le> d * d" "d * d \<le> 5/512 * (5/512)" using d by (intro mult_mono; simp)+
  then obtain r where "fround (d * d) = (Fin r :: double)" "1/65536 \<le> r" "r \<le> 1/8192"
    by (elim fround_in_dyadic [of "1/65536" 1 16 "1/8192" 1 13 "d * d", rotated -1]) simp_all
  then show "\<exists>r. kSigmaYawMeas * kSigmaYawMeas = Fin r \<and> 1/65536 \<le> r \<and> r \<le> 1/8192" unfolding y times_fp.simps by blast
qed

lemma process_noise:
  assumes "0 \<le> s" "s \<le> 1/32768" "0 \<le> d" "d \<le> 2 ^ 26"
  shows "fin_in 0 (1/8) (lit s * lit s * (Fin d :: double))"
proof -
  obtain a where a: "fround s = (Fin a :: double)" "0 \<le> a" "a \<le> 1/32768"
    using assms by (elim fround_in_dyadic [of 0 0 0 "1/32768" 1 15 s, rotated -1]) simp_all
  have "a * a \<le> 1/32768 * (1/32768)" using a by (intro mult_mono) simp_all
  then obtain b where b: "fround (a * a) = (Fin b :: double)" "0 \<le> b" "b \<le> 1/2^30"
    using a by (elim fround_in_dyadic [of 0 0 0 "1/2^30" 1 30 "a * a", rotated -1]) simp_all
  have "b * d \<le> 1/2^30 * 2^26" using b assms by (intro mult_mono) simp_all
  then have "fin_in 0 (1/8) (fround (b * d))" using b assms exact_dyadics by (intro fround_fin_in) simp_all
  then show ?thesis by (simp add: lit_def a(1) b(1))
qed

definition var_ok :: "BlendState \<Rightarrow> bool" where
  "var_ok st \<longleftrightarrow> fin_in 0 (1/8) (bf_Pyaw st) \<and> fin_in 0 (1/8) (bf_Px st) \<and> fin_in 0 (1/8) (bf_Py st) \<and> fin_in 0 (1/8) (bf_Pz st)"

definition pos_in :: "(nat \<Rightarrow> rat \<times> rat) \<Rightarrow> double \<times> double \<times> double \<Rightarrow> bool" where
  "pos_in B v = (case v of (x, y, z) \<Rightarrow> fin_in (fst (B 0)) (snd (B 0)) x \<and> fin_in (fst (B 1)) (snd (B 1)) y \<and> fin_in (fst (B 2)) (snd (B 2)) z)"

definition blend_ok :: "(nat \<Rightarrow> rat \<times> rat) \<Rightarrow> BlendState \<Rightarrow> bool" where
  "blend_ok B st \<longleftrightarrow> var_ok st \<and> (bf_initialized st \<longrightarrow> pos_in B (bf_tx st, bf_ty st, bf_tz st))"

definition moderate_box :: "(nat \<Rightarrow> rat \<times> rat) \<Rightarrow> bool" where
  "moderate_box B \<longleftrightarrow> (\<forall>k. - (2 ^ 900) \<le> fst (B k) \<and> snd (B k) \<le> 2 ^ 900)"

lemma var_ok_new: "var_ok BlendState_new"
  using fround_fin_in [OF exact_dyadics(1,3), of "0.1"] fround_fin_in [OF exact_dyadics(1,3), of "0.04"]
  by (simp add: var_ok_def BlendState_new_def kInitialPyaw_def kInitialPpos_def lit_def)

lemma blend_Update_dt: "blend_Update_default M st m (Fin d) = blend_Update_default M st m (Fin (max d 0))"
proof -
  have "nonneg_dt (Fin d) = nonneg_dt (Fin (max d 0))" by (simp add: nonneg_dt_def zero_fp_def max_def)
  then show ?thesis by (simp only: blend_Update_default_def blend_Update_def)
qed

lemma blend_Update_ok:
  assumes "blend_ok B st" "pos_in B (mx, my, mz)" "moderate_box B" "d \<le> 2 ^ 26"
    "blend_Update_default M st (yaw, mx, my, mz) (Fin d) = (st', a, b)"
  shows "blend_ok B st' \<and> bf_initialized st'"
proof (cases "bf_initialized st")
  case False
  then show ?thesis using assms(2,5) var_ok_new
    by (auto simp: blend_Update_default_def blend_Update_def blend_ok_def var_ok_def)
next
  case True
  obtain e where e: "e = max d 0" "0 \<le> e" "e \<le> 2 ^ 26" using assms(4) by simp
  define dt :: double where "dt = Fin e"
  have dt: "nonneg_dt dt = dt" by (simp add: nonneg_dt_def dt_def zero_fp_def e)
  have u: "blend_Update_default M st (yaw, mx, my, mz) dt = (st', a, b)"
    using assms(5) blend_Update_dt [of M st _ d] by (simp add: dt_def e(1))
  obtain rp ry where rp: "kSigmaPosMeas * kSigmaPosMeas = Fin rp" "1/65536 \<le> rp" "rp \<le> 1/8192"
    and ry: "kSigmaYawMeas * kSigmaYawMeas = Fin ry" "1/65536 \<le> ry" "ry \<le> 1/8192"
    using measurement_noise by blast
  have np: "fin_in 0 (1/8) (kSigmaPosPerSec * kSigmaPosPerSec * dt)" "fin_in 0 (1/8) (kSigmaYawPerSec * kSigmaYawPerSec * dt)"
    unfolding dt_def kSigmaPosPerSec_def kSigmaYawPerSec_def by (rule process_noise; use e in simp)+
  note comp = kalman_component [OF _ np(1) rp] kalman_component [OF _ np(2) ry]
  have step: "fin_in lo hi (kalman_state x (kalman_gain (P + kSigmaPosPerSec * kSigmaPosPerSec * dt) (kSigmaPosMeas * kSigmaPosMeas)) (v - x))"
    if "fin_in 0 (1/8) P" "fin_in lo hi x" "fin_in lo hi v" "- (2 ^ 900) \<le> lo" "hi \<le> 2 ^ 900" for P x v lo hi
    using comp(1) [OF that(1)] gain_step [OF that(2-5)] unfolding kalman_state_def rp(1) by fastforce
  have v: "fin_in 0 (1/8) (bf_Pyaw st)" "fin_in 0 (1/8) (bf_Px st)" "fin_in 0 (1/8) (bf_Py st)" "fin_in 0 (1/8) (bf_Pz st)"
    and x: "pos_in B (bf_tx st, bf_ty st, bf_tz st)" using assms(1) True by (auto simp: blend_ok_def var_ok_def)
  have "var_ok st'" using True u dt comp(2) [OF v(1)] comp(1) [OF v(2)] comp(1) [OF v(3)] comp(1) [OF v(4)]
    by (auto simp: blend_Update_default_def blend_Update_def Let_def var_ok_def rp(1) ry(1))
  moreover have "pos_in B (bf_tx st', bf_ty st', bf_tz st')" "bf_initialized st'"
    using True assms(2,3) u dt v x
    by (auto simp: blend_Update_default_def blend_Update_def Let_def pos_in_def moderate_box_def intro!: step)
  ultimately show ?thesis by (simp add: blend_ok_def)
qed

fun blend_run :: "CalMath \<Rightarrow> ((double \<times> double \<times> double \<times> double) \<times> double) list \<Rightarrow> BlendState \<Rightarrow> BlendState" where
  "blend_run M [] st = st"
| "blend_run M ((m, dt) # ms) st = blend_run M ms (fst (blend_Update_default M st m dt))"

definition accept_ok :: "(nat \<Rightarrow> rat \<times> rat) \<Rightarrow> (double \<times> double \<times> double \<times> double) \<times> double \<Rightarrow> bool" where
  "accept_ok B e = (case e of ((yaw, t), dt) \<Rightarrow> pos_in B t \<and> (\<exists>d \<le> 2 ^ 26. dt = Fin d))"

lemma blend_run_ok:
  assumes "moderate_box B"
  shows "blend_ok B st \<Longrightarrow> list_all (accept_ok B) ms \<Longrightarrow> blend_ok B (blend_run M ms st) \<and> (ms \<noteq> [] \<longrightarrow> bf_initialized (blend_run M ms st))"
proof (induction ms arbitrary: st)
  case (Cons e ms)
  obtain yaw mx my mz dt where e: "e = ((yaw, mx, my, mz), dt)" by (cases e) auto
  obtain d where d: "d \<le> 2 ^ 26" "dt = Fin d" "pos_in B (mx, my, mz)" using Cons.prems(2) by (auto simp: e accept_ok_def)
  obtain st' a b where u: "blend_Update_default M st (yaw, mx, my, mz) (Fin d) = (st', a, b)" by (cases "blend_Update_default M st (yaw, mx, my, mz) (Fin d)")
  from blend_Update_ok [OF Cons.prems(1) d(3) assms d(1) u] Cons.IH [of st'] Cons.prems(2) show ?case
    by (cases ms) (auto simp: e d(2) u)
qed simp


section \<open>Runs of the re-anchor detector\<close>

type_synonym hmd_tick = "Vector3d \<times> Quaterniond \<times> double \<times> double"

text \<open>A sequence of observed poses, each with its time and the time since the last; the result lists the
  positions and times of the ticks that raised a candidate.\<close>

fun reanchor_run :: "CalMath \<Rightarrow> nat \<Rightarrow> hmd_tick list \<Rightarrow> ReanchorState \<Rightarrow> ReanchorState \<times> (nat \<times> double) list" where
  "reanchor_run M n [] s = (s, [])"
| "reanchor_run M n ((tr, rot, now, dt) # es) s =
     (let (s1, f) = TickAndCheckCandidate M tr rot now dt s; (s2, fs) = reanchor_run M (Suc n) es s1
      in (s2, if f then (n, now) # fs else fs))"

definition reanchor_ok :: "nat \<Rightarrow> ReanchorState \<Rightarrow> bool" where
  "reanchor_ok n s \<longleftrightarrow> length (ra_history s) = kHistoryCapacity \<and> length (residualVariance s) = 6 \<and> ra_historyCount s = n
     \<and> varianceCount s + 4 \<le> max n 4"

lemma length_live: "reanchor_ok n s \<Longrightarrow> length (live_history s) = min n 32"
  by (simp add: reanchor_ok_def live_history_def kHistoryCapacity_def)

lemma length_residual: "length (reanchor_residual M s tr rot now) = 6"
  by (cases "v_sub M tr (PredictTranslation M s now)") (simp add: reanchor_residual_def Let_def)

lemma reanchor_tick_ok:
  assumes "reanchor_ok n s" "TickAndCheckCandidate M tr rot now dt s = (s', f)"
  shows "reanchor_ok (Suc n) s' \<and> (f \<longrightarrow> 24 \<le> n \<and> freezeUntil s' = now + kFreezeWindowSec \<and> residualVariance s' = residualVariance s)
    \<and> (\<not> f \<longrightarrow> freezeUntil s' = freezeUntil s)"
  using assms length_live [OF assms(1)]
  by (auto simp: TickAndCheckCandidate_def Let_def PushPose_def UpdateResidualVariance_def reanchor_ok_def length_residual
      split: if_splits)

lemma reanchor_run_fires:
  "reanchor_ok n s \<Longrightarrow> reanchor_run M n es s = (s', fs) \<Longrightarrow>
    reanchor_ok (n + length es) s' \<and> (\<forall>(i, t) \<in> set fs. 24 \<le> i \<and> i < n + length es) \<and>
    (if fs = [] then freezeUntil s' = freezeUntil s else freezeUntil s' = snd (last fs) + kFreezeWindowSec)"
proof (induction es arbitrary: n s fs)
  case (Cons e es)
  obtain tr rot now dt where e: "e = (tr, rot, now, dt)" by (cases e) auto
  obtain s1 f where t: "TickAndCheckCandidate M tr rot now dt s = (s1, f)" by fastforce
  obtain fs' where r: "reanchor_run M (Suc n) es s1 = (s', fs')" and fs: "fs = (if f then (n, now) # fs' else fs')"
    using Cons.prems(2) by (auto simp: e t split: prod.splits)
  note tick = reanchor_tick_ok [OF Cons.prems(1) t]
  note ih = Cons.IH [OF conjunct1 [OF tick] r]
  show ?case using tick ih by (cases f) (auto simp: fs)
qed simp

lemma reanchor_ok_new: "reanchor_ok 0 ReanchorState_new"
  by (simp add: reanchor_ok_def ReanchorState_new_def)

text \<open>A residual that is not a number poisons the variance of its component, and then no later residual
  can raise a candidate.\<close>

lemma fp_nan_absorb [simp]:
  "FNaN + a = (FNaN :: 'p::len fp)" "a + FNaN = (FNaN :: 'p fp)" "FNaN * a = (FNaN :: 'p fp)" "a * FNaN = (FNaN :: 'p fp)"
  "FNaN / a = (FNaN :: 'p fp)" "a / FNaN = (FNaN :: 'p fp)" "FNaN - a = (FNaN :: 'p fp)" "a - FNaN = (FNaN :: 'p fp)"
  "\<not> FNaN < a" "\<not> a < (FNaN :: 'p fp)" "\<not> FNaN \<le> a" "\<not> a \<le> (FNaN :: 'p fp)" "- FNaN = (FNaN :: 'p fp)"
  by (cases a; simp add: minus_fp_def)+

lemma fold_sum_nan: "fold (\<lambda>x acc. acc + g x) xs FNaN = (FNaN :: double)"
  by (induction xs) simp_all

lemma sum_nan: "x \<in> set xs \<Longrightarrow> g x = FNaN \<Longrightarrow> fold (\<lambda>x acc. acc + g x) xs a = (FNaN :: double)"
  by (induction xs arbitrary: a) (auto simp: fold_sum_nan)

lemma Mahalanobis_nan:
  assumes "(r, v) \<in> set (zip resid var)" "r = FNaN \<or> v = FNaN"
  shows "MahalanobisSquared resid var = FNaN"
proof -
  have "(\<lambda>(r, v). r * r / std_max v kVarianceFloor) (r, v) = FNaN" using assms(2) by (auto simp: std_max_def)
  from sum_nan [of "(r, v)" "zip resid var" "\<lambda>(r, v). r * r / std_max v kVarianceFloor", OF assms(1) this]
  show ?thesis by (simp add: MahalanobisSquared_def case_prod_unfold)
qed

definition blinded :: "nat \<Rightarrow> ReanchorState \<Rightarrow> bool" where
  "blinded i s \<longleftrightarrow> i < 6 \<and> length (residualVariance s) = 6 \<and> residualVariance s ! i = FNaN"

lemma blinded_tick:
  assumes "blinded i s"
  shows "snd (TickAndCheckCandidate M tr rot now dt s) = False \<and> blinded i (fst (TickAndCheckCandidate M tr rot now dt s))"
proof -
  let ?r = "reanchor_residual M s tr rot now"
  have "(?r ! i, FNaN) \<in> set (zip ?r (residualVariance s))"
    using assms by (auto simp: blinded_def in_set_zip length_residual)
  then have "MahalanobisSquared ?r (residualVariance s) = FNaN" by (rule Mahalanobis_nan) simp
  then show ?thesis using assms
    by (auto simp: TickAndCheckCandidate_def Let_def PushPose_def UpdateResidualVariance_def blinded_def length_residual update_variance_def)
qed

section \<open>Runs of the rest machine\<close>

fun rest_run :: "CalMath \<Rightarrow> (Quaterniond \<times> double \<times> double) list \<Rightarrow> RestState \<Rightarrow> RestState" where
  "rest_run M [] s = s"
| "rest_run M ((rot, now, dt) # es) s = rest_run M es (UpdatePhase M s rot now dt)"

lemma rest_run_append: "rest_run M (xs @ ys) s = rest_run M ys (rest_run M xs s)"
  by (induction xs arbitrary: s) auto

text \<open>A stretch of ticks that never turns faster than the threshold, seen from the rotation before it.\<close>

fun still :: "CalMath \<Rightarrow> Quaterniond \<Rightarrow> (Quaterniond \<times> double \<times> double) list \<Rightarrow> bool" where
  "still M q [] = True"
| "still M q ((rot, now, dt) # es) \<longleftrightarrow> \<not> kRestEnterDegPerSec < angular_speed M q rot dt \<and> still M rot es"

definition last_rot :: "Quaterniond \<Rightarrow> (Quaterniond \<times> double \<times> double) list \<Rightarrow> Quaterniond" where
  "last_rot q es = (if es = [] then q else fst (last es))"

lemma still_snoc: "still M q (es @ [(rot, now, dt)]) \<longleftrightarrow> still M q es \<and> \<not> kRestEnterDegPerSec < angular_speed M (last_rot q es) rot dt"
proof (induction es arbitrary: q)
  case (Cons e es)
  then show ?case by (cases e) (auto simp: last_rot_def)
qed (simp add: last_rot_def)

text \<open>What the phases record about the ticks so far: in the settling phase the ticks since \<open>phaseEnteredAt\<close>
  were still; in the rest phase the lock was taken after a second of stillness and no tick since was fast.\<close>

definition rest_inv :: "CalMath \<Rightarrow> (Quaterniond \<times> double \<times> double) list \<Rightarrow> RestState \<Rightarrow> bool" where
  "rest_inv M es s \<longleftrightarrow>
     (rs_initialized s \<longleftrightarrow> es \<noteq> []) \<and> (es \<noteq> [] \<longrightarrow> rs_lastRot s = fst (last es)) \<and> (haveLock s \<longleftrightarrow> rs_phase s = AtRest) \<and>
     (rs_phase s = RecentlyAtRest \<longrightarrow> (\<exists>pre q t d mid. es = pre @ (q, t, d) # mid \<and> still M q mid \<and> phaseEnteredAt s = t)) \<and>
     (rs_phase s = AtRest \<longrightarrow> (\<exists>pre q t d mid q' t' d' post. es = pre @ (q, t, d) # mid @ (q', t', d') # post
        \<and> still M q (mid @ (q', t', d') # post) \<and> kRestEnterSec \<le> t' - t \<and> lockedRot s = q'))"

lemma rest_inv_step:
  assumes "rest_inv M es s"
  shows "rest_inv M (es @ [(rot, now, dt)]) (UpdatePhase M s rot now dt)"
proof (cases "rs_initialized s \<and> \<not> kRestEnterDegPerSec < angular_speed M (rs_lastRot s) rot dt")
  case False
  then show ?thesis using assms by (auto simp: rest_inv_def UpdatePhase_def)
next
  case True
  then have ne: "es \<noteq> []" and lr: "rs_lastRot s = fst (last es)" using assms by (auto simp: rest_inv_def)
  have slow: "\<not> kRestEnterDegPerSec < angular_speed M (fst (last es)) rot dt" using True lr by simp
  show ?thesis
  proof (cases "rs_phase s")
    case Moving
    then have "\<exists>pre q t d mid. es @ [(rot, now, dt)] = pre @ (q, t, d) # mid \<and> still M q mid \<and> now = t"
      by (intro exI [of _ es] exI [of _ rot] exI [of _ now] exI [of _ dt] exI [of _ "[]"]) simp
    then show ?thesis using True Moving assms by (auto simp: rest_inv_def UpdatePhase_def Let_def)
  next
    case RecentlyAtRest
    then have "\<exists>pre q t d mid. es = pre @ (q, t, d) # mid \<and> still M q mid \<and> phaseEnteredAt s = t"
      using assms by (simp add: rest_inv_def)
    then obtain pre q t d mid where e: "es = pre @ (q, t, d) # mid" "still M q mid" "phaseEnteredAt s = t" by blast
    have "fst (last es) = last_rot q mid" by (simp add: e last_rot_def)
    then have st: "still M q (mid @ [(rot, now, dt)])" using e(2) slow by (simp add: still_snoc)
    show ?thesis
    proof (cases "kRestEnterSec \<le> now - phaseEnteredAt s")
      case lock: True
      have "es @ [(rot, now, dt)] = pre @ (q, t, d) # mid @ (rot, now, dt) # []" by (simp add: e)
      then show ?thesis using True RecentlyAtRest assms lock st e(3)
        by (fastforce simp: rest_inv_def UpdatePhase_def Let_def)
    next
      case wait: False
      have "es @ [(rot, now, dt)] = pre @ (q, t, d) # (mid @ [(rot, now, dt)])" by (simp add: e)
      then show ?thesis using True RecentlyAtRest assms wait st e(3)
        by (fastforce simp: rest_inv_def UpdatePhase_def Let_def)
    qed
  next
    case AtRest
    then have "\<exists>pre q t d mid q' t' d' post. es = pre @ (q, t, d) # mid @ (q', t', d') # post
        \<and> still M q (mid @ (q', t', d') # post) \<and> kRestEnterSec \<le> t' - t \<and> lockedRot s = q'"
      using assms by (simp add: rest_inv_def)
    then obtain pre q t d mid q' t' d' post where e: "es = pre @ (q, t, d) # mid @ (q', t', d') # post"
      "still M q (mid @ (q', t', d') # post)" "kRestEnterSec \<le> t' - t" "lockedRot s = q'" by blast
    have "fst (last es) = last_rot q (mid @ (q', t', d') # post)" by (simp add: e last_rot_def)
    then have "still M q ((mid @ (q', t', d') # post) @ [(rot, now, dt)])" using e(2) slow by (simp add: still_snoc del: append_assoc)
    moreover have "es @ [(rot, now, dt)] = pre @ (q, t, d) # mid @ (q', t', d') # (post @ [(rot, now, dt)])" by (simp add: e)
    ultimately show ?thesis using True AtRest assms e(3,4)
      by (fastforce simp: rest_inv_def UpdatePhase_def Let_def)
  qed
qed

lemma rest_inv_run: "rest_inv M (xs @ es) (rest_run M es s)" if "rest_inv M xs s" for xs es s
  using that
proof (induction es arbitrary: xs s)
  case (Cons e es)
  obtain rot now dt where e: "e = (rot, now, dt)" by (cases e) auto
  from Cons.IH [OF rest_inv_step [OF Cons.prems, of rot now dt]] show ?case by (simp add: e)
qed simp

lemma rest_inv_new: "rest_inv M [] RestState_new"
  by (simp add: rest_inv_def RestState_new_def)


section \<open>Range of the estimated lag\<close>

lemma best_index_fold:
  "fst (fold (\<lambda>(i, v) (b, bv). if bv < v then (i, v) else (b, bv)) xs (b, bv)) \<in> insert b (fst ` set xs)"
  by (induction xs arbitrary: b bv) (auto, (fastforce split: if_splits)+)

lemma best_index_range: "best_index C = - 1 \<or> 0 \<le> best_index C \<and> best_index C < int (length C)"
proof -
  have "best_index C \<in> insert (- 1) (fst ` set (zip (map int [0..<length C]) C))"
    unfolding best_index_def by (rule best_index_fold)
  also have "fst ` set (zip (map int [0..<length C]) C) = int ` {0..<length C}" by (simp flip: list.set_map)
  finally show ?thesis by auto
qed

lemma Parabolic_range: "\<exists>f. ParabolicSubsamplePeak C i = Fin f \<and> \<bar>f\<bar> \<le> 1"
proof (cases "ParabolicSubsamplePeak C i = 0")
  case False
  obtain v where v: "ParabolicSubsamplePeak C i = v" "isfinite v" "\<not> 1 < \<bar>v\<bar>"
    using False by (auto simp: ParabolicSubsamplePeak_def Let_def split: if_splits)
  then show ?thesis by (cases v) (auto simp: one_fp_def)
qed (simp add: zero_fp_def)

lemma small_int: "\<bar>i\<bar> \<le> 2 ^ 40 \<Longrightarrow> fround (of_int i) = (Fin (of_int i) :: double)"
  by (rule fround_of_int) (simp_all add: fp_emax_def)

lemma lag_of_peak_range:
  assumes "length C = 2 * maxTau + 1" "maxTau \<le> 2 ^ 30"
  shows "if best_index C = - 1 then lag_of_peak C maxTau = Fin (- of_nat maxTau - 1)
    else \<exists>x. lag_of_peak C maxTau = Fin x \<and> - of_nat maxTau \<le> x \<and> x \<le> of_nat maxTau"
proof -
  let ?i = "best_index C - int maxTau"
  have m: "int maxTau \<le> 2 ^ 30" using assms(2) by (simp add: nat_le_iff)
  have i: "\<bar>?i\<bar> \<le> 2 ^ 40" using best_index_range [of C] assms(1) m by auto
  have n: "of_integer ?i = (Fin (of_int ?i) :: double)" unfolding of_integer_def by (rule small_int [OF i])
  show ?thesis
  proof (cases "best_index C \<le> 0 \<or> int (length C) - 1 \<le> best_index C")
    case True
    then have "lag_of_peak C maxTau = Fin (of_int ?i)" using n by (simp add: lag_of_peak_def Let_def)
    then show ?thesis using True best_index_range [of C] assms(1) by auto
  next
    case False
    obtain f where f: "ParabolicSubsamplePeak C (best_index C) = Fin f" "\<bar>f\<bar> \<le> 1" using Parabolic_range by blast
    have ex: "fround (of_int (- int maxTau)) = (Fin (of_int (- int maxTau)) :: double)"
      "fround (of_int (int maxTau)) = (Fin (of_int (int maxTau)) :: double)" using m by (intro small_int; simp)+
    have "1 - int maxTau \<le> ?i" "?i \<le> int maxTau - 1" using False assms(1) by auto
    then have "of_int (1 - int maxTau) \<le> (of_int ?i :: rat)" "(of_int ?i :: rat) \<le> of_int (int maxTau - 1)" by (simp_all only: of_int_le_iff)
    then have "of_int (- int maxTau) \<le> of_int ?i + f" "of_int ?i + f \<le> of_int (int maxTau)" using f(2) by (auto simp: abs_le_iff)
    from fround_between [OF ex this] show ?thesis using False n f(1) by (auto simp: lag_of_peak_def Let_def)
  qed
qed

lemma length_taus: "length (taus maxTau) = 2 * maxTau + 1"
  by (simp add: taus_def)

lemma fold_nan_keeps:
  "list_all (\<lambda>p. snd p = FNaN) xs \<Longrightarrow> fold (\<lambda>(i, v) (b, bv). if bv < v then (i, v) else (b, bv)) xs (b, bv :: double) = (b, bv)"
  by (induction xs) auto

lemma best_index_nan:
  assumes "set C \<subseteq> {FNaN}" shows "best_index C = - 1"
proof -
  have "list_all (\<lambda>p. snd p = FNaN) (zip (map int [0..<length C]) C)"
    using assms by (auto simp: list_all_iff dest!: set_zip_rightD)
  then show ?thesis by (simp add: best_index_def fold_nan_keeps)
qed

lemma sum_fp_nan: "FNaN \<in> set xs \<Longrightarrow> sum_fp xs = FNaN"
  using sum_nan [of FNaN xs "\<lambda>x. x" 0] by (simp add: sum_fp_def)

lemma PrepareSeries_nan:
  assumes "FNaN \<in> set ref" "PrepareSeries ref tgt = Some (r, t)"
  shows "r = replicate (length ref) FNaN \<and> length t = length ref"
proof -
  have "r = map (\<lambda>x. x - sum_fp ref / of_integer (int (length ref))) ref" "length t = length ref"
    using assms(2) by (auto simp: PrepareSeries_def Let_def split: if_splits)
  moreover have "sum_fp ref = FNaN" by (rule sum_fp_nan [OF assms(1)])
  ultimately show ?thesis by (simp add: map_replicate_const)
qed

lemma cross_nan:
  assumes "tau \<in> set (taus maxTau)" "2 * maxTau + 4 \<le> n"
  shows "cross_correlation (replicate n FNaN) t tau = FNaN"
proof -
  let ?ks = "[max 0 (- tau)..min (int n) (int n - tau) - 1]"
  have k: "max 0 (- tau) \<in> set ?ks" using assms by (auto simp: taus_def)
  moreover have "nat (max 0 (- tau)) < n" using assms by (auto simp: taus_def)
  ultimately have "FNaN \<in> set (map (\<lambda>k. replicate n FNaN ! nat k * t ! nat (k + tau)) ?ks)"
    by (auto simp: image_iff intro!: bexI [of _ "max 0 (- tau)"])
  from sum_fp_nan [OF this] show ?thesis by (simp add: cross_correlation_def)
qed

section \<open>Properties\<close>

definition demo_cal_math :: CalMath where
  "demo_cal_math = \<lparr>v_add = (\<lambda>a b. a), v_sub = (\<lambda>a b. a), v_scale = (\<lambda>a s. a), v_norm = (\<lambda>a. 0), q_mul = (\<lambda>a b. a),
     q_rot = (\<lambda>q v. v), q_normalized = (\<lambda>q. q), q_slerp = (\<lambda>q t r. q), q_angularDistance = (\<lambda>q r. 0), eigen_pi = 0,
     m_sin = (\<lambda>x. 0), m_cos = (\<lambda>x. 1), m_acos = (\<lambda>x. 0), m_exp = (\<lambda>x. 1), m_atan2 = (\<lambda>y x. 0), v_div = (\<lambda>v s. v),
     v_dot = (\<lambda>v w. 0), v_normalized = (\<lambda>v. v), q_conjugate = (\<lambda>q. q), q_dot = (\<lambda>q r. 1)\<rparr>"



text \<open>The chi-square detector never raises a candidate among the first 24 poses, whatever they are: four fill the
  history and twenty the variance. The freeze window always ends half a second after the last candidate.\<close>

theorem reanchor_candidates_justified:
  "case reanchor_run M 0 es ReanchorState_new of (s, fs) \<Rightarrow>
     list_all (\<lambda>(i, t). 24 \<le> i \<and> i < length es) fs \<and>
     (if fs = [] then freezeUntil s = freezeUntil ReanchorState_new else freezeUntil s = snd (last fs) + kFreezeWindowSec)"
  using reanchor_run_fires [OF reanchor_ok_new, of M es] by (auto simp: list_all_iff split: prod.splits)

text \<open>A variance that is not a number blinds the detector for good: once one component of the variance is not a
  number, which a single pose that is not a number makes it, no later pose raises a candidate.\<close>

theorem nan_pose_blinds_reanchor:
  assumes "blinded i s"
  shows "snd (reanchor_run M n es s) = []"
  using assms
proof (induction es arbitrary: n s)
  case (Cons e es)
  obtain tr rot now dt where e: "e = (tr, rot, now, dt)" by (cases e) auto
  obtain s1 f where t: "TickAndCheckCandidate M tr rot now dt s = (s1, f)" by fastforce
  from blinded_tick [OF Cons.prems, of M tr rot now dt] have "\<not> f" "blinded i s1" by (simp_all add: t)
  then show ?case using Cons.IH [of s1 "Suc n"] by (simp add: e t split: prod.splits)
qed simp

theorem nan_pose_blinds_reanchor_witness:
  "snd (reanchor_run demo_cal_math 0 [(v_zero, q_identity, 0, 0)] (ReanchorState_new\<lparr>residualVariance := FNaN # replicate 5 kVarianceFloor\<rparr>)) = []"
  by (rule nan_pose_blinds_reanchor [of 0]) (simp add: blinded_def)

text \<open>A rest lock is always earned: when a tracker is locked after a sequence of ticks, there is a tick from which it
  never turned faster than the threshold, and the lock holds the rotation of a tick at least a second after it.\<close>

theorem rest_lock_justified:
  assumes "haveLock (rest_run M es RestState_new)"
  shows "\<exists>pre q t d mid q' t' d' post. es = pre @ (q, t, d) # mid @ (q', t', d') # post
    \<and> still M q (mid @ (q', t', d') # post) \<and> kRestEnterSec \<le> t' - t \<and> lockedRot (rest_run M es RestState_new) = q'"
  using rest_inv_run [OF rest_inv_new, of M es] assms by (simp add: rest_inv_def)

lemma no_turn: "\<not> kRestEnterDegPerSec < angular_speed demo_cal_math q r dt"
proof -
  have "\<not> kRestEnterDegPerSec < (Fin 0 * x) / y" for x y :: double
    using fround_dyadic [of 120 0] by (cases x; cases y) (auto simp: kRestEnterDegPerSec_def lit_def)
  then show ?thesis by (simp add: angular_speed_def demo_cal_math_def Let_def zero_fp_def lit_def fround_def)
qed

theorem rest_lock_justified_witness:
  "lockedRot (rest_run demo_cal_math [(q_identity, 0, 0), (q_identity, 0, 0), (q_identity, Fin 1, 0)] RestState_new) = q_identity"
proof -
  let ?es = "[(q_identity, 0, 0), (q_identity, 0, 0), (q_identity, Fin 1, 0)]"
  have "kRestEnterSec \<le> Fin 1 - 0" using fround_dyadic [of 1 0] by (simp add: kRestEnterSec_def lit_def zero_fp_def minus_fp_def)
  then have "haveLock (rest_run demo_cal_math ?es RestState_new)"
    using no_turn by (simp add: UpdatePhase_def RestState_new_def Let_def)
  from rest_lock_justified [OF this] show ?thesis by (auto simp: Cons_eq_append_conv)
qed

text \<open>The estimated lag, by either method, is a finite number between the two ends of the search range, except
  in one case: when no correlation compares, it is one sample below the range.\<close>

theorem latency_lag_range:
  assumes "EstimateLatencyLagSamples M useGccPhat ref tgt maxTau = Some lag" "maxTau \<le> 2 ^ 30"
  shows "(\<exists>x. lag = Fin x \<and> - of_nat maxTau \<le> x \<and> x \<le> of_nat maxTau) \<or> lag = Fin (- of_nat maxTau - 1)"
proof -
  obtain C where "lag = lag_of_peak C maxTau" "length C = 2 * maxTau + 1"
    using assms(1) by (auto simp: EstimateLatencyLagSamples_def EstimateLagGccPhat_def EstimateLagTimeDomain_def Let_def length_taus
        split: if_splits option.splits)
  then show ?thesis using lag_of_peak_range [of C maxTau] assms(2) by (auto split: if_splits)
qed

text \<open>One speed that is not a number passes the energy gate and sends the lag out of the range: the estimator reports
  success with a lag of one sample below the lowest lag it searches.\<close>

theorem nan_speed_escapes_range:
  assumes "FNaN \<in> set ref" "EstimateLagTimeDomain ref tgt maxTau = Some lag" "maxTau \<le> 2 ^ 30"
  shows "lag = Fin (- of_nat maxTau - 1)"
proof -
  obtain r t where p: "PrepareSeries ref tgt = Some (r, t)" and n: "2 * maxTau + 4 \<le> length ref"
    and l: "lag = lag_of_peak (map (cross_correlation r t) (taus maxTau)) maxTau"
    using assms(2) by (auto simp: EstimateLagTimeDomain_def split: if_splits option.splits)
  have "r = replicate (length ref) FNaN" using PrepareSeries_nan [OF assms(1) p] by simp
  then have "set (map (cross_correlation r t) (taus maxTau)) \<subseteq> {FNaN}" using cross_nan n by auto
  from best_index_nan [OF this] lag_of_peak_range [of "map (cross_correlation r t) (taus maxTau)" maxTau] assms(3)
  show ?thesis by (simp add: l length_taus)
qed

lemma demo_lag: "EstimateLagTimeDomain [FNaN, 1, 1, 1] [FNaN, 1, 1, 1] 0 \<noteq> None"
proof -
  have "sum_fp [FNaN, 1, 1, 1] = FNaN" "sum_fp (map (\<lambda>x. x * x) [FNaN, 1, 1, 1]) = FNaN" by (rule sum_fp_nan; simp)+
  then show ?thesis by (simp add: EstimateLagTimeDomain_def PrepareSeries_def Let_def)
qed

theorem nan_speed_escapes_range_witness:
  "EstimateLagTimeDomain [FNaN, 1, 1, 1] [FNaN, 1, 1, 1] 0 = Some (Fin (- 1))"
proof -
  obtain lag where l: "EstimateLagTimeDomain [FNaN, 1, 1, 1] [FNaN, 1, 1, 1] 0 = Some lag" using demo_lag by blast
  from nan_speed_escapes_range [OF _ this] l show ?thesis by simp
qed

theorem latency_lag_range_witness:
  "\<exists>x. EstimateLatencyLagSamples demo_cal_math False [FNaN, 1, 1, 1] [FNaN, 1, 1, 1] 0 = Some (Fin x) \<and> \<bar>x\<bar> \<le> 1"
proof -
  obtain lag where l: "EstimateLatencyLagSamples demo_cal_math False [FNaN, 1, 1, 1] [FNaN, 1, 1, 1] 0 = Some lag"
    using demo_lag by (auto simp: EstimateLatencyLagSamples_def)
  from latency_lag_range [OF this] show ?thesis by (auto simp: l)
qed

end
