(* ===== verification/RobustSolve.thy ===== *)
theory RobustSolve
  imports CalibrationFilters
begin

text \<open>
  The translation solvers of the calibration (\<open>TranslationSolveDirect.cpp\<close>), with the robust scale they use
  (\<open>RobustScale.h\<close>) and the angle of a rotation matrix (\<open>RotationMatrix3.h\<close>). The matrix products and
  factorisations of Eigen are the fields of \<open>SolverMath\<close>; coefficient-wise operations, weights, scales and
  the reweighting loop are computed. \<open>std::nth_element\<close> is the order statistic of the sorted list.
\<close>

section \<open>Matrices, poses and samples\<close>

datatype Matrix3d = Mat3 (row0: Vector3d) (row1: Vector3d) (row2: Vector3d)

record AffineCompact3d =
  aff_linear :: Matrix3d
  aff_translation :: Vector3d

text \<open>The singular value decomposition of a 3x3 matrix: \<open>U\<close>, the singular values in decreasing order, \<open>V\<close>.
  A least-squares system is the list of its rows, each with its constant. \<open>eig4\<close> returns the eigenvalues in
  ascending order and the eigenvector of the largest.\<close>

record MatrixOps =
  m3_mul :: "Matrix3d \<Rightarrow> Matrix3d \<Rightarrow> Matrix3d"
  m3_vec :: "Matrix3d \<Rightarrow> Vector3d \<Rightarrow> Vector3d"
  m3_inverse :: "Matrix3d \<Rightarrow> Matrix3d"
  m3_det :: "Matrix3d \<Rightarrow> double"
  m3_qr_solve :: "Matrix3d \<Rightarrow> Vector3d \<Rightarrow> Vector3d"
  m3_jacobi_svd :: "Matrix3d \<Rightarrow> Matrix3d \<times> Vector3d \<times> Matrix3d"
  m3_bdc_svd :: "Matrix3d \<Rightarrow> Matrix3d \<times> Vector3d \<times> Matrix3d"
  m3_of_quat :: "Quaterniond \<Rightarrow> Matrix3d"
  q_of_m3 :: "Matrix3d \<Rightarrow> Quaterniond"
  q_angle_axis :: "double \<Rightarrow> Vector3d \<Rightarrow> Quaterniond"
  m3_angle_axis :: "double \<Rightarrow> Vector3d \<Rightarrow> Matrix3d"
  m3_eulerAngles210 :: "Matrix3d \<Rightarrow> Vector3d"

record FitOps =
  v_squaredNorm :: "Vector3d \<Rightarrow> double"
  cross_covariance :: "Vector3d list \<Rightarrow> Vector3d list \<Rightarrow> Matrix3d"
  ls_qr_solve :: "(Vector3d \<times> double) list \<Rightarrow> Vector3d"
  ls_svd_solve :: "(Vector3d \<times> double) list \<Rightarrow> Vector3d"
  quat_gram :: "Quaterniond list \<Rightarrow> double list list"
  eig4 :: "double list list \<Rightarrow> double list \<times> double list"

record AffineOps =
  aff_rotation :: "AffineCompact3d \<Rightarrow> Matrix3d"
  aff_apply :: "AffineCompact3d \<Rightarrow> Vector3d \<Rightarrow> Vector3d"
  aff_mul :: "AffineCompact3d \<Rightarrow> AffineCompact3d \<Rightarrow> AffineCompact3d"
  aff_inverse :: "AffineCompact3d \<Rightarrow> AffineCompact3d"

record SolverMath = CalMath +
  mat :: MatrixOps
  fit :: FitOps
  aff :: AffineOps

fun vx :: "Vector3d \<Rightarrow> double" where "vx (x, y, z) = x"
fun vy :: "Vector3d \<Rightarrow> double" where "vy (x, y, z) = y"
fun vz :: "Vector3d \<Rightarrow> double" where "vz (x, y, z) = z"

fun m3_transpose :: "Matrix3d \<Rightarrow> Matrix3d" where
  "m3_transpose (Mat3 (a, b, c) (d, e, f) (g, h, i)) = Mat3 (a, d, g) (b, e, h) (c, f, i)"

definition m3_zero :: Matrix3d where
  "m3_zero = Mat3 v_zero v_zero v_zero"

definition m3_identity :: Matrix3d where
  "m3_identity = Mat3 (1, 0, 0) (0, 1, 0) (0, 0, 1)"

fun m3_add :: "SolverMath \<Rightarrow> Matrix3d \<Rightarrow> Matrix3d \<Rightarrow> Matrix3d" where
  "m3_add M (Mat3 a b c) (Mat3 d e f) = Mat3 (v_add M a d) (v_add M b e) (v_add M c f)"

fun m3_sub :: "SolverMath \<Rightarrow> Matrix3d \<Rightarrow> Matrix3d \<Rightarrow> Matrix3d" where
  "m3_sub M (Mat3 a b c) (Mat3 d e f) = Mat3 (v_sub M a d) (v_sub M b e) (v_sub M c f)"

fun m3_scale :: "SolverMath \<Rightarrow> double \<Rightarrow> Matrix3d \<Rightarrow> Matrix3d" where
  "m3_scale M w (Mat3 a b c) = Mat3 (v_scale M a w) (v_scale M b w) (v_scale M c w)"

fun m3_div :: "SolverMath \<Rightarrow> Matrix3d \<Rightarrow> double \<Rightarrow> Matrix3d" where
  "m3_div M (Mat3 a b c) w = Mat3 (v_div M a w) (v_div M b w) (v_div M c w)"

fun v_allFinite :: "Vector3d \<Rightarrow> bool" where
  "v_allFinite (x, y, z) \<longleftrightarrow> isfinite x \<and> isfinite y \<and> isfinite z"

fun v_maxAbs :: "Vector3d \<Rightarrow> double" where
  "v_maxAbs (x, y, z) = std_max (std_max \<bar>x\<bar> \<bar>y\<bar>) \<bar>z\<bar>"

record CPose =
  cp_rot :: Matrix3d
  cp_trans :: Vector3d

record Sample =
  s_ref :: CPose
  s_target :: CPose
  s_valid :: bool
  s_timestamp :: double
  s_refSpeed :: double
  s_targetSpeed :: double
  s_pairedMotionValid :: bool

section \<open>Angles of rotations\<close>

fun AxisFromRotationMatrix3 :: "Matrix3d \<Rightarrow> Vector3d" where
  "AxisFromRotationMatrix3 (Mat3 (r00, r01, r02) (r10, r11, r12) (r20, r21, r22)) = (r21 - r12, r02 - r20, r10 - r01)"

fun AngleFromRotationMatrix3 :: "SolverMath \<Rightarrow> Matrix3d \<Rightarrow> double" where
  "AngleFromRotationMatrix3 M (Mat3 (r00, r01, r02) (r10, r11, r12) (r20, r21, r22)) =
     (let c = (r00 + r11 + r22 - 1) * lit 0.5 in m_acos M (std_clamp c (- 1) 1))"

section \<open>Robust scale\<close>

definition kQnConsistency :: double where "kQnConsistency = lit 2.2219"
definition kTukeyTune :: double where "kTukeyTune = lit 4.685"
definition kQnInputCap :: nat where "kQnInputCap = 500"

text \<open>At most \<open>kQnInputCap\<close> of the values, at equal strides.\<close>

definition qn_sample :: "double list \<Rightarrow> double list" where
  "qn_sample xs =
     (if length xs \<le> kQnInputCap then xs
      else let stride = of_integer (int (length xs)) / of_integer (int kQnInputCap)
           in map (\<lambda>i. xs ! min (nat (cast_int (of_integer (int i) * stride))) (length xs - 1)) [0..<kQnInputCap])"

fun pair_distances :: "double list \<Rightarrow> double list" where
  "pair_distances [] = []"
| "pair_distances (x # xs) = map (\<lambda>y. \<bar>x - y\<bar>) xs @ pair_distances xs"

definition Qn :: "double list \<Rightarrow> double" where
  "Qn xs =
     (if length xs < 2 then 0
      else let ys = qn_sample xs; n = length ys; pairs = pair_distances ys; numPairs = n * (n - 1) div 2;
               h = n div 2 + 1; k = h * (h - 1) div 2;
               idx = (if 0 < k \<and> k - 1 < numPairs then k - 1 else numPairs - 1)
           in sort_fp pairs ! idx * kQnConsistency)"

section \<open>Reweighting\<close>

definition kMaxIters :: nat where "kMaxIters = 5"
definition kWeightChangeThreshold :: double where "kWeightChangeThreshold = lit 0.01"
definition kMadFloor :: double where "kMadFloor = lit 0.001"
definition kCauchyTune :: double where "kCauchyTune = lit 1.345"
definition kVelocityKappa :: double where "kVelocityKappa = lit 2"
definition kVelocityRefMps :: double where "kVelocityRefMps = lit 0.3"

definition mad_scale :: "double list \<Rightarrow> double list \<Rightarrow> double" where
  "mad_scale absResid resid =
     (let median = sort_fp absResid ! (length absResid div 2);
          devs = map (\<lambda>r. \<bar>r - median\<bar>) resid
      in sort_fp devs ! (length devs div 2))"

definition floor_scale :: "double \<Rightarrow> double" where
  "floor_scale scale = (if kMadFloor < scale then scale else kMadFloor)"

definition row_threshold :: "bool \<Rightarrow> double \<Rightarrow> double \<Rightarrow> double" where
  "row_threshold velocityAware c0 speed =
     (if velocityAware
      then let v = std_max 0 speed; vScale = 1 + kVelocityKappa * v / kVelocityRefMps; c = c0 / vScale
           in if lit 0.000000001 < c then c else lit 0.000000001
      else c0)"

definition row_weight :: "bool \<Rightarrow> double \<Rightarrow> double \<Rightarrow> double" where
  "row_weight tukey c r = (if tukey then TukeyWeight r c else let rOverC = r / c in 1 / (1 + rOverC * rOverC))"

definition weight_change :: "double list \<Rightarrow> double list \<Rightarrow> double" where
  "weight_change prev cur =
     fold (\<lambda>(p, w) m. let rel = \<bar>w - p\<bar> / std_max \<bar>p\<bar> (lit 0.000000001) in if m < rel then rel else m) (zip prev cur) 0"

record DirectOptions =
  do_useTukeyBiweight :: bool
  do_useVelocityAwareWeighting :: bool

text \<open>The weights of the next pass: \<open>absResid\<close> is what the median is taken of.\<close>

definition irls_weights :: "DirectOptions \<Rightarrow> double list \<Rightarrow> double list \<Rightarrow> double list \<Rightarrow> double list" where
  "irls_weights opts absResid resid speeds =
     (let scale = floor_scale (if do_useTukeyBiweight opts then Qn resid else mad_scale absResid resid);
          c0 = (if do_useTukeyBiweight opts then kTukeyTune else kCauchyTune) * scale
      in map (\<lambda>(r, v). row_weight (do_useTukeyBiweight opts) (row_threshold (do_useVelocityAwareWeighting opts) c0 v) r)
           (zip resid speeds))"

section \<open>The direct solver\<close>

record DirectResult =
  dr_translation :: Vector3d
  dr_offset :: Vector3d
  dr_residualRms :: double
  dr_conditionRatio :: double
  dr_iterations :: nat

definition DirectResult_new :: DirectResult where
  "DirectResult_new = \<lparr>dr_translation = v_zero, dr_offset = v_zero, dr_residualRms = 0, dr_conditionRatio = 0, dr_iterations = 0\<rparr>"

definition kMaxSampleTranslationM :: double where "kMaxSampleTranslationM = lit 5"

definition sample_oversize :: "Sample \<Rightarrow> bool" where
  "sample_oversize s \<longleftrightarrow> \<not> v_allFinite (cp_trans (s_ref s)) \<or> \<not> v_allFinite (cp_trans (s_target s))
     \<or> \<not> isfinite (s_refSpeed s) \<or> \<not> isfinite (s_targetSpeed s)
     \<or> kMaxSampleTranslationM < v_maxAbs (cp_trans (s_ref s)) \<or> kMaxSampleTranslationM < v_maxAbs (cp_trans (s_target s))"

definition sum_vec :: "SolverMath \<Rightarrow> Vector3d list \<Rightarrow> Vector3d" where
  "sum_vec M xs = fold (\<lambda>x acc. v_add M acc x) xs v_zero"

definition sum_mat :: "SolverMath \<Rightarrow> Matrix3d list \<Rightarrow> Matrix3d" where
  "sum_mat M xs = fold (\<lambda>x acc. m3_add M acc x) xs m3_zero"

definition weighted_rotations :: "SolverMath \<Rightarrow> Sample list \<Rightarrow> double list \<Rightarrow> Matrix3d" where
  "weighted_rotations M samples ws = sum_mat M (map (\<lambda>(s, w). m3_scale M w (cp_rot (s_ref s))) (zip samples ws))"

definition direct_solve :: "SolverMath \<Rightarrow> Sample list \<Rightarrow> Vector3d list \<Rightarrow> double list \<Rightarrow> Vector3d \<times> Vector3d" where
  "direct_solve M samples b ws =
     (let W = sum_fp ws; R = weighted_rotations M samples ws;
          sum_b = sum_vec M (map (\<lambda>(x, w). v_scale M x w) (zip b ws));
          sum_AT_b = sum_vec M (map (\<lambda>((s, x), w). v_scale M (m3_vec (mat M) (m3_transpose (cp_rot (s_ref s))) x) w) (zip (zip samples b) ws));
          schur = m3_sub M (m3_scale M (W * W) m3_identity) (m3_mul (mat M) R (m3_transpose R));
          rhs = v_sub M (v_scale M sum_b W) (m3_vec (mat M) R sum_AT_b);
          c = m3_qr_solve (mat M) schur rhs
      in (c, v_div M (v_sub M (m3_vec (mat M) (m3_transpose R) c) sum_AT_b) W))"

definition direct_residuals :: "SolverMath \<Rightarrow> Sample list \<Rightarrow> Vector3d list \<Rightarrow> Vector3d \<times> Vector3d \<Rightarrow> double list" where
  "direct_residuals M samples b cS =
     map (\<lambda>(s, x). let A = m3_transpose (cp_rot (s_ref s))
                    in v_norm M (v_sub M (v_sub M (m3_vec (mat M) A (fst cS)) (snd cS)) (m3_vec (mat M) A x))) (zip samples b)"

fun direct_loop ::
  "SolverMath \<Rightarrow> DirectOptions \<Rightarrow> Sample list \<Rightarrow> Vector3d list \<Rightarrow> nat \<Rightarrow> nat \<Rightarrow> double list \<Rightarrow> DirectResult \<Rightarrow> double list \<times> DirectResult" where
  "direct_loop M opts samples b 0 iter ws r = (ws, r)"
| "direct_loop M opts samples b (Suc n) iter ws r =
     (let cS = direct_solve M samples b ws;
          resid = direct_residuals M samples b cS;
          rms = fp_sqrt (sum_fp (map (\<lambda>x. x * x) resid) / of_integer (int (length samples)));
          ws' = irls_weights opts resid resid (map (\<lambda>s. std_max (s_refSpeed s) (s_targetSpeed s)) samples);
          r' = r\<lparr>dr_translation := fst cS, dr_offset := snd cS, dr_residualRms := rms, dr_iterations := Suc iter\<rparr>
      in if 0 < iter \<and> weight_change ws ws' < kWeightChangeThreshold then (ws', r')
         else direct_loop M opts samples b n (Suc iter) ws' r')"

definition direct_condition :: "SolverMath \<Rightarrow> Sample list \<Rightarrow> double list \<Rightarrow> double" where
  "direct_condition M samples ws =
     (let W = sum_fp ws; R = weighted_rotations M samples ws
      in if 0 < W
         then let N = m3_div M R W;
                  sv = fst (snd (m3_jacobi_svd (mat M) (m3_sub M m3_identity (m3_mul (mat M) N (m3_transpose N)))))
              in if 0 < vx sv then fp_sqrt (vz sv / vx sv) else 0
         else 0)"

definition SolveDirect :: "SolverMath \<Rightarrow> Sample list \<Rightarrow> Matrix3d \<Rightarrow> DirectOptions \<Rightarrow> DirectResult" where
  "SolveDirect M samples C_R opts =
     (if length samples < 2 then DirectResult_new
      else if list_ex sample_oversize samples then DirectResult_new
      else let b = map (\<lambda>s. v_sub M (cp_trans (s_ref s)) (m3_vec (mat M) C_R (cp_trans (s_target s)))) samples;
               (ws, r) = direct_loop M opts samples b kMaxIters 0 (replicate (length samples) 1) DirectResult_new
           in r\<lparr>dr_conditionRatio := direct_condition M samples ws\<rparr>)"

section \<open>The pairwise systems\<close>

text \<open>The two blocks of rows a pair of samples gives (the reference and the target orientation).\<close>

definition rotated_sample :: "SolverMath \<Rightarrow> Matrix3d \<Rightarrow> Sample \<Rightarrow> Sample" where
  "rotated_sample M R s = s\<lparr>s_target := \<lparr>cp_rot = m3_mul (mat M) R (cp_rot (s_target s)), cp_trans = m3_vec (mat M) R (cp_trans (s_target s))\<rparr>\<rparr>"

definition pair_block :: "SolverMath \<Rightarrow> (Sample \<Rightarrow> CPose) \<Rightarrow> Sample \<Rightarrow> Sample \<Rightarrow> Vector3d \<times> Matrix3d" where
  "pair_block M side si sj =
     (let Qi = m3_transpose (cp_rot (side si)); Qj = m3_transpose (cp_rot (side sj));
          d = (\<lambda>s. v_sub M (cp_trans (s_ref s)) (cp_trans (s_target s)))
      in (v_sub M (m3_vec (mat M) Qj (d sj)) (m3_vec (mat M) Qi (d si)), m3_sub M Qj Qi))"

text \<open>All pairs \<open>(i, j)\<close> with \<open>j < i\<close>, in the order of the two loops.\<close>

definition lower_pairs :: "'a list \<Rightarrow> ('a \<times> 'a) list" where
  "lower_pairs xs = concat (map (\<lambda>i. map (\<lambda>j. (xs ! i, xs ! j)) [0..<i]) [0..<length xs])"

fun block_rows :: "Vector3d \<times> Matrix3d \<Rightarrow> (Vector3d \<times> double) list" where
  "block_rows ((c0, c1, c2), Mat3 r0 r1 r2) = [(r0, c0), (r1, c1), (r2, c2)]"

definition pairwise_blocks :: "SolverMath \<Rightarrow> Sample list \<Rightarrow> Matrix3d \<Rightarrow> (Vector3d \<times> Matrix3d) list" where
  "pairwise_blocks M samples C_R =
     concat (map (\<lambda>(si, sj). [pair_block M s_ref si sj, pair_block M s_target si sj])
       (lower_pairs (map (rotated_sample M C_R) samples)))"

definition CalibrateTranslationUpstream :: "SolverMath \<Rightarrow> Sample list \<Rightarrow> Matrix3d \<Rightarrow> DirectResult" where
  "CalibrateTranslationUpstream M samples C_R =
     (let blocks = pairwise_blocks M samples C_R
      in if blocks = [] then DirectResult_new
         else DirectResult_new\<lparr>dr_translation := ls_svd_solve (fit M) (concat (map block_rows blocks)),
                dr_conditionRatio := 1, dr_iterations := 1\<rparr>)"
section \<open>The scale estimator\<close>

lemma length_pair_distances: "length (pair_distances xs) = length xs * (length xs - 1) div 2"
proof (induction xs)
  case (Cons x xs)
  then show ?case by (cases xs) (simp_all add: field_simps)
qed simp

lemma pair_distances_in: "d \<in> set (pair_distances xs) \<Longrightarrow> \<exists>x \<in> set xs. \<exists>y \<in> set xs. d = \<bar>x - y\<bar>"
  by (induction xs) auto

lemma length_qn_sample: "length (qn_sample xs) = min (length xs) kQnInputCap"
  by (simp add: qn_sample_def Let_def min_def)

lemma set_qn_sample: "xs \<noteq> [] \<Longrightarrow> set (qn_sample xs) \<subseteq> set xs"
  by (auto simp: qn_sample_def Let_def intro!: nth_mem)

lemma sort_fp_nth_in: "i < length xs \<Longrightarrow> sort_fp xs ! i \<in> set xs"
  using nth_mem [of i "sort_fp xs"] by (simp add: length_sort_fp set_sort_fp)

lemma Qn_pair:
  assumes "2 \<le> length xs"
  shows "\<exists>x \<in> set xs. \<exists>y \<in> set xs. Qn xs = \<bar>x - y\<bar> * kQnConsistency"
proof -
  let ?ys = "qn_sample xs" and ?n = "length (qn_sample xs)"
  define h where "h = ?n div 2 + 1"
  define idx where "idx = (if 0 < h * (h - 1) div 2 \<and> h * (h - 1) div 2 - 1 < ?n * (?n - 1) div 2
    then h * (h - 1) div 2 - 1 else ?n * (?n - 1) div 2 - 1)"
  have n: "2 \<le> ?n" using assms by (simp add: length_qn_sample kQnInputCap_def)
  then have "2 * 1 div 2 \<le> ?n * (?n - 1) div 2" by (intro div_le_mono mult_le_mono) auto
  then have "idx < length (pair_distances ?ys)" by (simp add: idx_def length_pair_distances)
  from pair_distances_in [OF sort_fp_nth_in [OF this]] set_qn_sample [of xs] assms
  obtain x y where "x \<in> set xs" "y \<in> set xs" "sort_fp (pair_distances ?ys) ! idx = \<bar>x - y\<bar>" by fastforce
  moreover have "Qn xs = sort_fp (pair_distances ?ys) ! idx * kQnConsistency"
    using assms unfolding Qn_def Let_def idx_def h_def by simp
  ultimately show ?thesis by auto
qed

section \<open>Weights\<close>

text \<open>A weight is either not a number or between 0 and 1.\<close>

definition weight_ok :: "double \<Rightarrow> bool" where
  "weight_ok w \<longleftrightarrow> isnan w \<or> in01 w"

lemma cauchy_ok: "weight_ok (1 / (1 + q * q))"
proof (cases q)
  case (Fin x)
  have "0 \<le> x * x" by simp
  then have "Fin 0 \<le> (fround (x * x) :: double)" using fround_mono [of 0 "x * x"] by simp
  then have s: "Fin 1 \<le> 1 + q * q"
  proof (cases "fround (x * x) :: double")
    case (Fin y)
    then have "0 \<le> y" using \<open>Fin 0 \<le> _\<close> by simp
    then have "(fround 1 :: double) \<le> fround (1 + y)" by (intro fround_mono) simp
    then show ?thesis using \<open>q = Fin x\<close> Fin by (simp add: one_fp_def fround_1)
  qed (use \<open>q = Fin x\<close> in \<open>auto simp: one_fp_def\<close>)
  show ?thesis
  proof (cases "1 + q * q")
    case (Fin y)
    then have "1 \<le> y" using s by simp
    then have "in01 (fround (1 / y) :: double)" by (intro fround_in01) simp_all
    then show ?thesis using Fin \<open>1 \<le> y\<close> by (simp add: weight_ok_def one_fp_def)
  next
    case (FInf b)
    then show ?thesis by (simp add: weight_ok_def one_fp_def)
  qed (simp add: weight_ok_def one_fp_def)
qed (simp_all add: weight_ok_def one_fp_def)

lemma tukey_ok: "weight_ok (TukeyWeight r c)"
proof (cases "isnan r \<or> isnan (r / c)")
  case True
  then show ?thesis by (cases r; cases c) (auto simp: TukeyWeight_def weight_ok_def Let_def minus_fp_def in01_def zero_fp_def one_fp_def)
next
  case False
  show ?thesis
  proof (cases c)
    case (FInf b)
    then show ?thesis using False
      by (cases r) (auto simp: TukeyWeight_def weight_ok_def Let_def minus_fp_def in01_def zero_fp_def one_fp_def fround_1)
  next
    case (Fin y)
    then show ?thesis using tukey_weight_unit [of r c] False by (simp add: weight_ok_def)
  qed (simp add: TukeyWeight_def weight_ok_def zero_fp_def)
qed

lemma row_weight_ok: "weight_ok (row_weight tukey c r)"
  using cauchy_ok tukey_ok by (simp add: row_weight_def Let_def)

lemma irls_weights_ok: "list_all weight_ok (irls_weights opts absResid resid speeds)"
  by (auto simp: irls_weights_def Let_def list_all_iff row_weight_ok)

lemma length_irls_weights: "length resid = length speeds \<Longrightarrow> length (irls_weights opts absResid resid speeds) = length resid"
  by (simp add: irls_weights_def Let_def)

lemma positive_sum_weights:
  assumes "list_all weight_ok ws" "0 < sum_fp ws"
  shows "list_all in01 ws"
proof -
  have "FNaN \<notin> set ws"
  proof
    assume "FNaN \<in> set ws"
    then have "sum_fp ws = FNaN" by (rule sum_fp_nan)
    then show False using assms(2) by (simp add: zero_fp_def)
  qed
  moreover have "isnan w \<longleftrightarrow> w = FNaN" for w :: double by (cases w) auto
  ultimately show ?thesis using assms(1) by (auto simp: list_all_iff weight_ok_def)
qed

lemma direct_loop_weights:
  assumes "direct_loop M opts samples b n iter ws r = (ws', r')" "length b = length samples"
    and "length ws = length samples" "list_all weight_ok ws"
  shows "length ws' = length samples \<and> list_all weight_ok ws'
    \<and> (0 < n \<longrightarrow> iter < dr_iterations r' \<and> dr_iterations r' \<le> iter + n)"
  using assms
proof (induction n arbitrary: iter ws r)
  case (Suc n)
  define cS where "cS = direct_solve M samples b ws"
  define resid where "resid = direct_residuals M samples b cS"
  define v where "v = map (\<lambda>s. std_max (s_refSpeed s) (s_targetSpeed s)) samples"
  define w1 where "w1 = irls_weights opts resid resid v"
  define r1 where "r1 = r\<lparr>dr_translation := fst cS, dr_offset := snd cS,
    dr_residualRms := fp_sqrt (sum_fp (map (\<lambda>x. x * x) resid) / of_integer (int (length samples))), dr_iterations := Suc iter\<rparr>"
  have w1: "length w1 = length samples" "list_all weight_ok w1"
    using Suc.prems(2) irls_weights_ok by (simp_all add: w1_def v_def resid_def direct_residuals_def length_irls_weights)
  have eq: "direct_loop M opts samples b (Suc n) iter ws r =
    (if 0 < iter \<and> weight_change ws w1 < kWeightChangeThreshold then (w1, r1)
     else direct_loop M opts samples b n (Suc iter) w1 r1)"
    by (simp add: Let_def cS_def resid_def w1_def v_def r1_def)
  show ?case
  proof (cases "0 < iter \<and> weight_change ws w1 < kWeightChangeThreshold")
    case True
    then show ?thesis using Suc.prems(1) eq w1 by (auto simp: r1_def)
  next
    case False
    then have rest: "direct_loop M opts samples b n (Suc iter) w1 r1 = (ws', r')" using Suc.prems(1) eq by auto
    show ?thesis using Suc.IH [OF rest Suc.prems(2) w1] rest by (cases n) (auto simp: r1_def)
  qed
qed simp

section \<open>Properties of the solvers\<close>


text \<open>The scale estimate behind Tukey's weights never reads outside its list of pairs, also when the input is thinned to
  500 values: it is the distance of two of the residuals it was given, times the consistency factor.\<close>

theorem qn_is_pair_distance:
  assumes "2 \<le> length xs"
  shows "(\<exists>x \<in> set xs. \<exists>y \<in> set xs. Qn xs = \<bar>x - y\<bar> * kQnConsistency) \<and> length (qn_sample xs) \<le> kQnInputCap"
  using Qn_pair [OF assms] by (simp add: length_qn_sample)

theorem qn_is_pair_distance_witness:
  "\<exists>x \<in> {Fin 1, Fin 3}. \<exists>y \<in> {Fin 1, Fin 3}. Qn [Fin 1, Fin 3] = \<bar>x - y\<bar> * kQnConsistency"
  using qn_is_pair_distance [of "[Fin 1, Fin 3]"] by simp

end
