(* ===== verification/CalibrationCalc.thy ===== *)
theory CalibrationCalc
  imports RobustSolve
begin

text \<open>
  The sample engine of the calibration (\<open>CalibrationCalc.cpp\<close>): outlier detection, the rotation and translation fits,
  validation against the noise of the samples, and the two entry points \<open>ComputeOneshot\<close> and \<open>ComputeIncremental\<close>
  with their gates, the blend of accepted candidates and the stuck-loop watchdog. Factorisations are Eigen's
  (\<open>SolverMath\<close>); the state is the record \<open>Calc\<close>, with the mutable members of the class. The metrics and the log
  are not part of the state.
\<close>

section \<open>State\<close>

datatype RejectReason = RejectNone | RmsTooHigh

record Calc =
  c_enableStaticRecalibration :: bool
  c_lockRelativePosition :: bool
  c_options :: DirectOptions
  c_useBlendFilter :: bool
  m_posOffset :: Vector3d
  m_axisVariance :: double
  m_rotationConditionRatio :: double
  m_consecutiveRejections :: int
  m_lastSuccessfulIncrementalTime :: double
  m_lastSampleTime :: double
  m_watchdogResets :: int
  m_rejectReasonTag :: string
  m_healthyHoldAnnotated :: bool
  m_isValid :: bool
  m_estimatedTransformation :: AffineCompact3d
  m_relativePosCalibrated :: bool
  m_translationConditionRatio :: double
  m_residualPitchRollDeg :: double
  m_so3KabschResult :: Matrix3d
  m_so3KabschValid :: bool
  m_lastRejectReason :: RejectReason
  m_lastRejectRms :: double
  m_lastRejectRmsThreshold :: double
  m_refToTargetPose :: AffineCompact3d
  m_blendFilter :: BlendState
  m_blendFilterLastUpdateTime :: double
  m_samples :: "Sample list"
  m_rotationFrozen :: "Sample list"

definition aff_identity :: AffineCompact3d where
  "aff_identity = \<lparr>aff_linear = m3_identity, aff_translation = v_zero\<rparr>"

text \<open>The constructor leaves the estimate uninitialised: \<open>junk\<close> is what happens to be there.\<close>

definition Calc_new :: "AffineCompact3d \<Rightarrow> Vector3d \<Rightarrow> Calc" where
  "Calc_new junk junkOffset = \<lparr>c_enableStaticRecalibration = True, c_lockRelativePosition = False,
     c_options = \<lparr>do_useTukeyBiweight = False, do_useVelocityAwareWeighting = False\<rparr>, c_useBlendFilter = False,
     m_posOffset = junkOffset, m_axisVariance = 0, m_rotationConditionRatio = 0, m_consecutiveRejections = 0,
     m_lastSuccessfulIncrementalTime = 0, m_lastSampleTime = 0, m_watchdogResets = 0, m_rejectReasonTag = [],
     m_healthyHoldAnnotated = False, m_isValid = False, m_estimatedTransformation = junk, m_relativePosCalibrated = False,
     m_translationConditionRatio = 0, m_residualPitchRollDeg = 0, m_so3KabschResult = m3_identity, m_so3KabschValid = False,
     m_lastRejectReason = RejectNone, m_lastRejectRms = 0, m_lastRejectRmsThreshold = 0, m_refToTargetPose = aff_identity,
     m_blendFilter = BlendState_new, m_blendFilterLastUpdateTime = 0, m_samples = [], m_rotationFrozen = []\<rparr>"

section \<open>The sample buffer\<close>

definition PushSample :: "Sample \<Rightarrow> Calc \<Rightarrow> Calc" where
  "PushSample sample s =
     (if \<not> v_allFinite (cp_trans (s_ref sample)) \<or> \<not> v_allFinite (cp_trans (s_target sample))
         \<or> lit 5 < v_maxAbs (cp_trans (s_ref sample)) \<or> lit 5 < v_maxAbs (cp_trans (s_target sample)) then s
      else let s1 = s\<lparr>m_samples := m_samples s @ [sample]\<rparr>
           in if s_valid sample \<and> m_lastSampleTime s1 < s_timestamp sample then s1\<lparr>m_lastSampleTime := s_timestamp sample\<rparr> else s1)"

definition calc_Clear :: "Calc \<Rightarrow> Calc" where
  "calc_Clear s = s\<lparr>m_estimatedTransformation := aff_identity, m_isValid := False, m_samples := [], m_rotationFrozen := [],
     m_axisVariance := 0, m_refToTargetPose := aff_identity, m_relativePosCalibrated := False, m_rotationConditionRatio := 0,
     m_consecutiveRejections := 0, m_blendFilter := blend_Reset (m_blendFilter s), m_blendFilterLastUpdateTime := 0\<rparr>"

definition FreezeRotationPhaseSamples :: "Calc \<Rightarrow> Calc" where
  "FreezeRotationPhaseSamples s = s\<lparr>m_rotationFrozen := m_samples s, m_samples := []\<rparr>"

definition ShiftSample :: "Calc \<Rightarrow> Calc" where
  "ShiftSample s = s\<lparr>m_samples := tl (m_samples s)\<rparr>"

definition setRelativeTransformation :: "AffineCompact3d \<Rightarrow> bool \<Rightarrow> Calc \<Rightarrow> Calc" where
  "setRelativeTransformation transform calibrated s = s\<lparr>m_refToTargetPose := transform, m_relativePosCalibrated := calibrated\<rparr>"

section \<open>Rotation fit\<close>

text \<open>The axes of the rotation between two samples, when both turned far enough.\<close>

definition DeltaRotationSamples :: "SolverMath \<Rightarrow> Sample \<Rightarrow> Sample \<Rightarrow> (Vector3d \<times> Vector3d) option" where
  "DeltaRotationSamples M s1 s2 =
     (let dref = m3_mul (mat M) (cp_rot (s_ref s1)) (m3_transpose (cp_rot (s_ref s2)));
          dtarget = m3_mul (mat M) (cp_rot (s_target s1)) (m3_transpose (cp_rot (s_target s2)));
          r = AxisFromRotationMatrix3 dref; t = AxisFromRotationMatrix3 dtarget
      in if lit 0.4 < AngleFromRotationMatrix3 M dref \<and> lit 0.4 < AngleFromRotationMatrix3 M dtarget
            \<and> lit 0.01 < v_norm M r \<and> lit 0.01 < v_norm M t
         then Some (v_normalized M r, v_normalized M t) else None)"

definition centred :: "SolverMath \<Rightarrow> Vector3d list \<Rightarrow> Vector3d list" where
  "centred M xs = (let c = v_div M (sum_vec M xs) (of_integer (int (length xs))) in map (\<lambda>x. v_sub M x c) xs)"

text \<open>The Kabsch fit, transposed; the decomposition routine is the argument.\<close>

definition kabsch :: "SolverMath \<Rightarrow> (Matrix3d \<Rightarrow> Matrix3d \<times> Vector3d \<times> Matrix3d) \<Rightarrow> (Vector3d \<times> Vector3d) list \<Rightarrow> Matrix3d \<times> Vector3d" where
  "kabsch M svd deltas =
     (case svd (cross_covariance (fit M) (centred M (map fst deltas)) (centred M (map snd deltas))) of (U, sv, V) \<Rightarrow>
        let i = (if m3_det (mat M) (m3_mul (mat M) U (m3_transpose V)) < 0 then Mat3 (1, 0, 0) (0, 1, 0) (0, 0, - 1) else m3_identity)
        in (m3_transpose (m3_mul (mat M) (m3_mul (mat M) V i) (m3_transpose U)), sv))"

definition residual_tilt :: "SolverMath \<Rightarrow> Matrix3d \<Rightarrow> double" where
  "residual_tilt M rot = m_acos M (std_max (- 1) (std_min 1 (vy (row1 rot)))) * lit 180 / eigen_pi M"

fun quat_coeffs :: "Quaterniond \<Rightarrow> double list" where
  "quat_coeffs q = [qw q, qx q, qy q, qz q]"

fun quat_of_coeffs :: "double list \<Rightarrow> Quaterniond" where
  "quat_of_coeffs [w, x, y, z] = \<lparr>qw = w, qx = x, qy = y, qz = z\<rparr>"
| "quat_of_coeffs _ = q_identity"

definition outer_sum :: "double list list \<Rightarrow> double list list" where
  "outer_sum vs = fold (\<lambda>v acc. map2 (\<lambda>a row. map2 (\<lambda>b m. m + a * b) v row) v acc) vs (replicate 4 (replicate 4 0))"

text \<open>The loop that separates outliers from the mean extrinsic rotation, at most four passes.\<close>

fun outlier_loop :: "SolverMath \<Rightarrow> Quaterniond list \<Rightarrow> nat \<Rightarrow> bool list \<Rightarrow> bool list" where
  "outlier_loop M qs 0 valids = valids"
| "outlier_loop M qs (Suc n) valids =
     (if \<not> list_ex (\<lambda>b. b) valids then valids
      else let m = outer_sum (map (quat_coeffs \<circ> fst) (filter snd (zip qs valids)));
               quatExt = q_normalized M (quat_of_coeffs (snd (eig4 (fit M) m)));
               now = map (\<lambda>q. lit 0.99 \<le> \<bar>qw q * qw quatExt + v_dot M (qx q, qy q, qz q) (qx quatExt, qy quatExt, qz quatExt)\<bar>) qs
           in if now = valids then valids else outlier_loop M qs n now)"

definition every_fifth :: "'a list \<Rightarrow> 'a list" where
  "every_fifth xs = map ((!) xs) (filter (\<lambda>i. i mod 5 = 0) [0..<length xs])"

definition rotation_deltas :: "SolverMath \<Rightarrow> Sample list \<Rightarrow> (Vector3d \<times> Vector3d) list" where
  "rotation_deltas M samples = List.map_filter (\<lambda>(si, sj). DeltaRotationSamples M si sj) (lower_pairs samples)"

definition DetectOutliers :: "SolverMath \<Rightarrow> Calc \<Rightarrow> Calc \<times> bool list" where
  "DetectOutliers M s =
     (let deltas = rotation_deltas M (every_fifth (m_samples s))
      in if deltas = []
         then (s\<lparr>m_so3KabschResult := m3_identity, m_so3KabschValid := False, m_residualPitchRollDeg := 0\<rparr>,
               replicate (length (m_samples s)) True)
         else let rot = fst (kabsch M (m3_bdc_svd (mat M)) deltas);
                  qs = map (\<lambda>x. q_normalized M (q_of_m3 (mat M) (m3_mul (mat M) (m3_mul (mat M) (m3_transpose (cp_rot (s_ref x))) rot) (cp_rot (s_target x))))) (m_samples s)
              in (s\<lparr>m_so3KabschResult := rot, m_so3KabschValid := True, m_residualPitchRollDeg := residual_tilt M rot\<rparr>,
                  outlier_loop M qs 4 (replicate (length (m_samples s)) True)))"

text \<open>All pairs, without those that touch an outlier when outliers are to be ignored.\<close>

definition filtered_deltas :: "SolverMath \<Rightarrow> bool \<Rightarrow> Sample list \<Rightarrow> bool list \<Rightarrow> (Vector3d \<times> Vector3d) list" where
  "filtered_deltas M ignoreOutliers samples valids =
     List.map_filter (\<lambda>((si, vi), (sj, vj)). if ignoreOutliers \<and> (\<not> vi \<or> \<not> vj) then None else DeltaRotationSamples M si sj)
       (lower_pairs (zip samples valids))"

definition CalibrateRotation :: "SolverMath \<Rightarrow> bool \<Rightarrow> Calc \<Rightarrow> Calc \<times> Vector3d" where
  "CalibrateRotation M ignoreOutliers s =
     (let (s1, valids) = DetectOutliers M s; deltas = filtered_deltas M ignoreOutliers (m_samples s1) valids
      in if deltas = [] then (s1\<lparr>m_rotationConditionRatio := 0\<rparr>, v_zero)
         else let (R, sv) = kabsch M (m3_jacobi_svd (mat M)) deltas;
                  q = q_of_m3 (mat M) R;
                  twistY = q_normalized M \<lparr>qw = qw q, qx = 0, qy = qy q, qz = 0\<rparr>;
                  yaw = lit 2 * m_atan2 M (qy twistY) (qw twistY)
              in (s1\<lparr>m_rotationConditionRatio := (if 0 < vx sv then vz sv / vx sv else 0),
                     m_so3KabschResult := R, m_so3KabschValid := True, m_residualPitchRollDeg := residual_tilt M R\<rparr>,
                  (0, yaw * lit 180 / eigen_pi M, 0)))"

section \<open>Translation fit\<close>

text \<open>The reweighted pairwise system. A block has three rows; \<open>rows\<close> are the weighted rows of the last pass.\<close>

definition weighted_rows :: "SolverMath \<Rightarrow> (Vector3d \<times> Matrix3d) list \<Rightarrow> double list \<Rightarrow> (Vector3d \<times> double) list" where
  "weighted_rows M blocks ws =
     concat (map (\<lambda>(blk, w). let sw = fp_sqrt (std_max 0 w) in map (\<lambda>(row, c). (v_scale M row sw, c * sw)) (block_rows blk)) (zip blocks ws))"

definition block_residual :: "SolverMath \<Rightarrow> Vector3d \<Rightarrow> Vector3d \<times> Matrix3d \<Rightarrow> double" where
  "block_residual M tr blk = fp_sqrt (sum_fp (map (\<lambda>(row, c). let r = v_dot M row tr - c in r * r) (block_rows blk)))"

fun legacy_loop :: "SolverMath \<Rightarrow> DirectOptions \<Rightarrow> (Vector3d \<times> Matrix3d) list \<Rightarrow> double list \<Rightarrow> nat \<Rightarrow> nat \<Rightarrow> double list \<Rightarrow> Vector3d \<times> (Vector3d \<times> double) list
    \<Rightarrow> Vector3d \<times> (Vector3d \<times> double) list" where
  "legacy_loop M opts blocks speeds 0 iter ws r = r"
| "legacy_loop M opts blocks speeds (Suc n) iter ws r =
     (let rows = weighted_rows M blocks ws;
          tr = ls_qr_solve (fit M) rows;
          perPair = map (block_residual M tr) blocks;
          ws' = irls_weights opts (map (\<lambda>x. \<bar>x\<bar>) perPair) perPair speeds
      in if 0 < iter \<and> weight_change ws ws' < kWeightChangeThreshold then (tr, rows)
         else legacy_loop M opts blocks speeds n (Suc iter) ws' (tr, rows))"

definition pair_speed :: "Sample \<Rightarrow> Sample \<Rightarrow> double" where
  "pair_speed si sj = std_max (std_max (s_refSpeed si) (s_targetSpeed si)) (std_max (s_refSpeed sj) (s_targetSpeed sj))"

definition CalibrateTranslationLegacyPairwise :: "SolverMath \<Rightarrow> Matrix3d \<Rightarrow> Calc \<Rightarrow> Calc \<times> Vector3d" where
  "CalibrateTranslationLegacyPairwise M R s =
     (let blocks = pairwise_blocks M (m_samples s) R;
          speeds = concat (map (\<lambda>(si, sj). replicate 2 (pair_speed si sj)) (lower_pairs (m_samples s)))
      in if blocks = [] then (s\<lparr>m_translationConditionRatio := 0\<rparr>, v_zero)
         else let (tr, rows) = legacy_loop M (c_options s) blocks speeds kMaxIters 0 (replicate (length blocks) 1) (v_zero, []);
                  sv = fst (snd (m3_jacobi_svd (mat M) (cross_covariance (fit M) (map fst rows) (map fst rows))))
              in (s\<lparr>m_translationConditionRatio := (if 0 < vx sv then fp_sqrt (vz sv / vx sv) else 0)\<rparr>, tr))"

text \<open>The two switches of the context that select the mathematics.\<close>

record MathMode =
  useUpstreamMath :: bool
  useLegacyMath :: bool

definition CalibrateTranslation :: "SolverMath \<Rightarrow> MathMode \<Rightarrow> Matrix3d \<Rightarrow> Calc \<Rightarrow> Calc \<times> Vector3d" where
  "CalibrateTranslation M md R s =
     (if useUpstreamMath md
      then let r = CalibrateTranslationUpstream M (m_samples s) R in (s\<lparr>m_translationConditionRatio := dr_conditionRatio r\<rparr>, dr_translation r)
      else if useLegacyMath md then CalibrateTranslationLegacyPairwise M R s
      else let r = SolveDirect M (m_samples s) R (c_options s) in (s\<lparr>m_translationConditionRatio := dr_conditionRatio r\<rparr>, dr_translation r))"

fun VRRotationQuat :: "SolverMath \<Rightarrow> Vector3d \<Rightarrow> Quaterniond" where
  "VRRotationQuat M (ez, ey, ex) =
     (let rad = (\<lambda>d. d * eigen_pi M / lit 180)
      in q_mul M (q_mul M (q_angle_axis (mat M) (rad ez) (0, 0, 1)) (q_angle_axis (mat M) (rad ey) (0, 1, 0)))
           (q_angle_axis (mat M) (rad ex) (1, 0, 0)))"

definition ComputeCalibration :: "SolverMath \<Rightarrow> MathMode \<Rightarrow> bool \<Rightarrow> Calc \<Rightarrow> Calc \<times> AffineCompact3d" where
  "ComputeCalibration M md ignoreOutliers s =
     (let (s1, euler) = CalibrateRotation M ignoreOutliers s;
          R = m3_of_quat (mat M) (VRRotationQuat M euler);
          (s2, t) = CalibrateTranslation M md R s1
      in (s2, \<lparr>aff_linear = R, aff_translation = t\<rparr>))"

section \<open>Measures of the buffer\<close>

abbreviation valid_samples :: "Calc \<Rightarrow> Sample list" where
  "valid_samples s \<equiv> filter s_valid (m_samples s)"

definition RetargetingErrorRMS :: "SolverMath \<Rightarrow> Vector3d \<Rightarrow> AffineCompact3d \<Rightarrow> Calc \<Rightarrow> double" where
  "RetargetingErrorRMS M hmdToTargetPos calibration s =
     (let errs = map (\<lambda>x. v_squaredNorm (fit M) (v_sub M (aff_apply (aff M) calibration (cp_trans (s_target x)))
                    (v_add M (m3_vec (mat M) (cp_rot (s_ref x)) hmdToTargetPos) (cp_trans (s_ref x))))) (valid_samples s)
      in if errs = [] then FInf False else fp_sqrt (sum_fp errs / of_integer (int (length errs))))"

fun triples :: "'a list \<Rightarrow> ('a \<times> 'a \<times> 'a) list" where
  "triples (a # b # c # xs) = (a, b, c) # triples (b # c # xs)"
| "triples _ = []"

definition SampleNoiseStdMagnitude :: "SolverMath \<Rightarrow> (Sample \<Rightarrow> CPose) \<Rightarrow> Sample list \<Rightarrow> double" where
  "SampleNoiseStdMagnitude M side samples =
     (let sq = map (\<lambda>(a, b, c). v_squaredNorm (fit M) (v_add M (v_sub M (cp_trans (side c)) (v_scale M (cp_trans (side b)) (lit 2))) (cp_trans (side a))))
                 (filter (\<lambda>(a, b, c). s_valid a \<and> s_valid b \<and> s_valid c) (triples samples))
      in if sq = [] then 0 else fp_sqrt (sum_fp sq / of_integer (int (length sq)) / lit 6))"

definition ReferenceJitter :: "SolverMath \<Rightarrow> Calc \<Rightarrow> double" where
  "ReferenceJitter M s = SampleNoiseStdMagnitude M s_ref (m_samples s)"

definition TargetJitter :: "SolverMath \<Rightarrow> Calc \<Rightarrow> double" where
  "TargetJitter M s = SampleNoiseStdMagnitude M s_target (m_samples s)"

text \<open>The extent of the usable target positions along one axis.\<close>

definition usable_targets :: "Calc \<Rightarrow> Vector3d list" where
  "usable_targets s = map (cp_trans \<circ> s_target) (filter (\<lambda>x. s_valid x \<and> s_pairedMotionValid x) (m_samples s))"

definition axis_range :: "(Vector3d \<Rightarrow> double) \<Rightarrow> Vector3d list \<Rightarrow> double" where
  "axis_range ax ps = fold (\<lambda>p m. std_max m (ax p)) ps (FInf True) - fold (\<lambda>p m. std_min m (ax p)) ps (FInf False)"

definition kDesiredAxisRange :: double where "kDesiredAxisRange = lit 0.2"

definition TranslationDiversity :: "Calc \<Rightarrow> double" where
  "TranslationDiversity s =
     (let ps = usable_targets s
      in if length (m_samples s) < 2 \<or> length ps < 2 then 0
         else let minAxis = std_min (std_min (axis_range vx ps) (axis_range vy ps)) (axis_range vz ps)
              in std_min (std_max (minAxis / kDesiredAxisRange) 0) 1)"

definition TranslationAxisRangesCm :: "Calc \<Rightarrow> Vector3d" where
  "TranslationAxisRangesCm s =
     (let ps = usable_targets s
      in if length (m_samples s) < 2 \<or> length ps < 2 then v_zero
         else (axis_range vx ps * lit 100, axis_range vy ps * lit 100, axis_range vz ps * lit 100))"

definition RotationDiversity :: "SolverMath \<Rightarrow> Calc \<Rightarrow> double" where
  "RotationDiversity M s =
     (if length (m_samples s) < 2 then 0
      else let qs = map (\<lambda>x. q_of_m3 (mat M) (cp_rot (s_target x))) (filter (\<lambda>x. s_valid x \<and> s_pairedMotionValid x) (m_samples s));
               maxAngle = (case qs of [] \<Rightarrow> 0
                           | q0 # rest \<Rightarrow> fold (\<lambda>q m. let a = q_angularDistance M q0 q in if m < a then a else m) rest 0)
           in std_min (std_max (maxAngle / (eigen_pi M / lit 2)) 0) 1)"

definition ComputeRefToTargetOffset :: "SolverMath \<Rightarrow> AffineCompact3d \<Rightarrow> Calc \<Rightarrow> Vector3d" where
  "ComputeRefToTargetOffset M calibration s =
     (let ds = map (\<lambda>x. m3_vec (mat M) (m3_inverse (mat M) (cp_rot (s_ref x)))
                    (v_sub M (aff_apply (aff M) calibration (cp_trans (s_target x))) (cp_trans (s_ref x)))) (valid_samples s)
      in if ds = [] then v_zero else v_div M (sum_vec M ds) (of_integer (int (length ds))))"

text \<open>The eigenvalues of the covariance of the target quaternions, in ascending order.\<close>

definition mean4 :: "double list list \<Rightarrow> double list" where
  "mean4 pts = map (\<lambda>c. c / of_integer (int (length pts))) (fold (\<lambda>p acc. map2 (+) acc p) pts (replicate 4 0))"

definition ComputeAxisVariance :: "SolverMath \<Rightarrow> Calc \<Rightarrow> double list" where
  "ComputeAxisVariance M s =
     (let pts = map (\<lambda>x. quat_coeffs (q_of_m3 (mat M) (cp_rot (s_target x)))) (valid_samples s)
      in if pts = [] then replicate 4 0
         else let cov = outer_sum (map (\<lambda>p. map2 (-) p (mean4 pts)) pts)
              in fst (eig4 (fit M) (map (map (\<lambda>c. c / of_integer (int (length pts)))) cov)))"

section \<open>Validation\<close>

definition rms_gate :: "SolverMath \<Rightarrow> Calc \<Rightarrow> double" where
  "rms_gate M s = (let jRef = ReferenceJitter M s; jTgt = TargetJitter M s in std_max (lit 0.005) (lit 3 * fp_sqrt (jRef * jRef + jTgt * jTgt)))"

definition rms_of :: "SolverMath \<Rightarrow> Calc \<Rightarrow> AffineCompact3d \<Rightarrow> double" where
  "rms_of M s calibration = RetargetingErrorRMS M (ComputeRefToTargetOffset M calibration s) calibration s"

definition ValidateCalibration :: "SolverMath \<Rightarrow> AffineCompact3d \<Rightarrow> Calc \<Rightarrow> Calc \<times> bool \<times> double \<times> Vector3d" where
  "ValidateCalibration M calibration s =
     (let posOffset = ComputeRefToTargetOffset M calibration s; rmsError = rms_of M s calibration; rmsThreshold = rms_gate M s;
          tooHigh = rmsThreshold < rmsError
      in (s\<lparr>m_lastRejectRms := rmsError, m_lastRejectRmsThreshold := rmsThreshold,
            m_lastRejectReason := (if tooHigh then RmsTooHigh else RejectNone)\<rparr>, \<not> tooHigh, rmsError, posOffset))"

section \<open>The relative pose\<close>

definition to_affine :: "CPose \<Rightarrow> AffineCompact3d" where
  "to_affine p = \<lparr>aff_linear = cp_rot p, aff_translation = cp_trans p\<rparr>"

definition average_poses :: "SolverMath \<Rightarrow> AffineCompact3d list \<Rightarrow> AffineCompact3d" where
  "average_poses M poses =
     (let v = quat_of_coeffs (snd (eig4 (fit M) (quat_gram (fit M) (map (\<lambda>p. q_of_m3 (mat M) (aff_rotation (aff M) p)) poses))));
          avgQ = q_normalized M (q_normalized M v);
          accum = sum_vec M (map aff_translation poses)
      in \<lparr>aff_linear = m3_of_quat (mat M) avgQ, aff_translation = v_scale M accum (1 / of_integer (int (length poses)))\<rparr>)"

definition EstimateRefToTargetPose :: "SolverMath \<Rightarrow> AffineCompact3d \<Rightarrow> Calc \<Rightarrow> AffineCompact3d" where
  "EstimateRefToTargetPose M calibration s =
     average_poses M (map (\<lambda>x. aff_mul (aff M) (aff_mul (aff M) (aff_inverse (aff M) (to_affine (s_ref x))) calibration) (to_affine (s_target x)))
       (valid_samples s))"

definition CalibrateByRelPose :: "SolverMath \<Rightarrow> Calc \<Rightarrow> AffineCompact3d" where
  "CalibrateByRelPose M s =
     average_poses M (map (\<lambda>x. aff_mul (aff M) (aff_mul (aff M) (to_affine (s_ref x)) (m_refToTargetPose s)) (aff_inverse (aff M) (to_affine (s_target x))))
       (valid_samples s))"

section \<open>One-shot calibration\<close>

definition AxisVarianceThreshold :: double where "AxisVarianceThreshold = lit 0.001"

text \<open>The frozen rotation samples are in front of the live ones during the solve and taken out again at the end.
  A candidate that fails validation is applied all the same; the prior calibration, if any, is validated once more for
  the warning in the log.\<close>

definition oneshot_solve :: "SolverMath \<Rightarrow> MathMode \<Rightarrow> bool \<Rightarrow> Calc \<Rightarrow> Calc \<times> bool" where
  "oneshot_solve M md ignoreOutliers s =
     (if length (m_samples s) < 6 then (s, False)
      else let (s1, calibration) = ComputeCalibration M md ignoreOutliers s
           in if m_rotationConditionRatio s1 = 0 then (s1, False)
              else let (s2, valid, _) = ValidateCalibration M calibration s1;
                       s3 = (if \<not> valid \<and> m_isValid s2 then fst (ValidateCalibration M (m_estimatedTransformation s2) s2) else s2)
                   in (s3\<lparr>m_estimatedTransformation := calibration, m_isValid := True\<rparr>, True))"

definition ComputeOneshot :: "SolverMath \<Rightarrow> MathMode \<Rightarrow> bool \<Rightarrow> Calc \<Rightarrow> Calc \<times> bool" where
  "ComputeOneshot M md ignoreOutliers s =
     (let (s1, ok) = oneshot_solve M md ignoreOutliers (s\<lparr>m_samples := m_rotationFrozen s @ m_samples s\<rparr>)
      in (s1\<lparr>m_samples := drop (length (m_rotationFrozen s)) (m_samples s1)\<rparr>, ok))"

section \<open>Incremental calibration\<close>

text \<open>The locked relative pose, tried first.\<close>

definition lock_stage :: "SolverMath \<Rightarrow> Calc \<Rightarrow> Calc \<times> bool" where
  "lock_stage M s =
     (if c_lockRelativePosition s
      then let byRelPose = CalibrateByRelPose M s; (s1, ok, _) = ValidateCalibration M byRelPose s
           in if ok then (s1\<lparr>m_isValid := True, m_estimatedTransformation := byRelPose\<rparr>, True) else (s1, False)
      else (s, False))"

definition prior_stage :: "SolverMath \<Rightarrow> Calc \<Rightarrow> Calc \<times> double" where
  "prior_stage M s =
     (if m_isValid s then let (s1, ok, e, _) = ValidateCalibration M (m_estimatedTransformation s) s in (s1, e)
      else (s, FInf False))"

text \<open>The candidate from the relative pose: \<open>RelStop\<close> is an early return, \<open>RelUse\<close> takes it, \<open>RelPass\<close> goes on.
  The error is infinite when static recalibration is off.\<close>

datatype RelOutcome = RelStop | RelUse | RelPass

definition relpose_stage :: "SolverMath \<Rightarrow> double \<Rightarrow> double \<Rightarrow> double \<Rightarrow> Calc \<Rightarrow> Calc \<times> RelOutcome \<times> double" where
  "relpose_stage M threshold relPoseMaxError priorError s =
     (if c_enableStaticRecalibration s
      then let (s1, ok, e, _) = ValidateCalibration M (CalibrateByRelPose M s) s
           in if ok \<and> (e < lit 0.01 \<or> m_relativePosCalibrated s1 \<and> e < lit 0.025)
              then (s1, if priorError \<le> e * threshold then RelStop else if relPoseMaxError < e then RelStop else RelUse, e)
              else (s1, RelPass, e)
      else (s, RelPass, FInf False))"

definition RotationConditionMin :: double where "RotationConditionMin = lit 0.05"
definition kRejectionFloor :: double where "kRejectionFloor = lit 0.005"

record Candidate =
  cd_valid :: bool
  cd_rapid :: bool
  cd_error :: double
  cd_variance :: double
  cd_calibration :: AffineCompact3d

text \<open>The full solve with its guards, and the comparison with the calibration in use.\<close>

definition guarded_solve :: "SolverMath \<Rightarrow> MathMode \<Rightarrow> bool \<Rightarrow> Calc \<Rightarrow> Calc \<times> Candidate" where
  "guarded_solve M md ignoreOutliers s =
     (let (s1, calibration) = ComputeCalibration M md ignoreOutliers s;
          newVariance = ComputeAxisVariance M s1 ! 1;
          c = \<lparr>cd_valid = False, cd_rapid = True, cd_error = FInf False, cd_variance = newVariance, cd_calibration = calibration\<rparr>
      in if newVariance < AxisVarianceThreshold \<and> newVariance < m_axisVariance s1
         then (s1\<lparr>m_rejectReasonTag := ''axis_variance_low''\<rparr>, c\<lparr>cd_rapid := False\<rparr>)
         else if m_rotationConditionRatio s1 < RotationConditionMin
         then (s1\<lparr>m_rejectReasonTag := (if m_rotationConditionRatio s1 = 0 then ''rotation_no_deltas'' else ''rotation_planar'')\<rparr>, c)
         else if m_translationConditionRatio s1 < RotationConditionMin
         then (s1\<lparr>m_rejectReasonTag := (if m_translationConditionRatio s1 = 0 then ''translation_no_deltas'' else ''translation_planar'')\<rparr>, c)
         else let (s2, ok, e, off) = ValidateCalibration M calibration s1; s3 = s2\<lparr>m_posOffset := off\<rparr>
              in (if ok then s3 else s3\<lparr>m_rejectReasonTag := ''validate_failed''\<rparr>, c\<lparr>cd_valid := ok, cd_error := e\<rparr>))"

definition prior_check :: "double \<Rightarrow> double \<Rightarrow> Calc \<times> Candidate \<Rightarrow> Calc \<times> Candidate" where
  "prior_check threshold priorError sc =
     (case sc of (s, c) \<Rightarrow>
        if m_isValid s \<and> isfinite (cd_error c) \<and> std_max priorError kRejectionFloor < cd_error c * threshold
        then (s\<lparr>m_rejectReasonTag := ''below_floor_or_worse''\<rparr>, c\<lparr>cd_valid := False, cd_rapid := False\<rparr>)
        else (s, c))"

text \<open>The blend of an accepted candidate.\<close>

definition swing_twist_yaw :: "SolverMath \<Rightarrow> AffineCompact3d \<Rightarrow> double" where
  "swing_twist_yaw M calibration =
     (let q = q_of_m3 (mat M) (aff_rotation (aff M) calibration); n = fp_sqrt (qw q * qw q + qy q * qy q)
      in if lit 0.000000000001 < n then lit 2 * m_atan2 M (qy q / n) (qw q / n) else 0)"

definition measurement :: "SolverMath \<Rightarrow> AffineCompact3d \<Rightarrow> double \<times> double \<times> double \<times> double" where
  "measurement M calibration = (let t = aff_translation calibration in (swing_twist_yaw M calibration, vx t, vy t, vz t))"

definition ema_blend :: "SolverMath \<Rightarrow> AffineCompact3d \<Rightarrow> AffineCompact3d \<Rightarrow> AffineCompact3d" where
  "ema_blend M prior new =
     (let alpha = lit 0.3;
          q = q_slerp M (q_of_m3 (mat M) (aff_rotation (aff M) prior)) alpha (q_of_m3 (mat M) (aff_rotation (aff M) new))
      in \<lparr>aff_linear = m3_of_quat (mat M) q,
          aff_translation = v_add M (v_scale M (aff_translation prior) (1 - alpha)) (v_scale M (aff_translation new) alpha)\<rparr>)"

definition publish_blended :: "SolverMath \<Rightarrow> AffineCompact3d \<Rightarrow> Calc \<Rightarrow> Calc" where
  "publish_blended M calibration s =
     (if c_useBlendFilter s
      then let now = m_lastSampleTime s; dt = std_max 0 (now - m_blendFilterLastUpdateTime s);
               (bf, yawInnov, posInnov) = blend_Update_default (CalMath.truncate M) (m_blendFilter s) (measurement M calibration) dt;
               s1 = s\<lparr>m_blendFilterLastUpdateTime := now, m_blendFilter := bf\<rparr>
           in if IsDivergent yawInnov posInnov
              then s1\<lparr>m_blendFilter := blend_Reset bf, m_estimatedTransformation := ema_blend M (m_estimatedTransformation s1) calibration\<rparr>
              else s1\<lparr>m_estimatedTransformation :=
                     \<lparr>aff_linear = m3_angle_axis (mat M) (bf_yaw bf) (0, 1, 0), aff_translation = (bf_tx bf, bf_ty bf, bf_tz bf)\<rparr>\<rparr>
      else s\<lparr>m_estimatedTransformation := ema_blend M (m_estimatedTransformation s) calibration\<rparr>)"

definition publish_snap :: "SolverMath \<Rightarrow> bool \<Rightarrow> AffineCompact3d \<Rightarrow> Calc \<Rightarrow> Calc" where
  "publish_snap M usingRelPose calibration s =
     (let s1 = s\<lparr>m_estimatedTransformation := calibration\<rparr>
      in if c_useBlendFilter s1 \<and> \<not> usingRelPose
         then s1\<lparr>m_blendFilter := fst (blend_Update_default (CalMath.truncate M) (blend_Reset (m_blendFilter s1)) (measurement M calibration) 0),
                 m_blendFilterLastUpdateTime := m_lastSampleTime s1\<rparr>
         else s1)"

definition accept_candidate :: "SolverMath \<Rightarrow> bool \<Rightarrow> Candidate \<Rightarrow> Calc \<Rightarrow> Calc" where
  "accept_candidate M usingRelPose c s =
     (let s1 = s\<lparr>m_relativePosCalibrated := (m_relativePosCalibrated s \<or> cd_error c < lit 0.005)\<rparr>;
          s2 = (if m_isValid s1 \<and> \<not> usingRelPose then publish_blended M (cd_calibration c) s1
                else publish_snap M usingRelPose (cd_calibration c) s1);
          s3 = s2\<lparr>m_isValid := True, m_axisVariance := cd_variance c\<rparr>;
          s4 = (if usingRelPose then s3 else s3\<lparr>m_refToTargetPose := EstimateRefToTargetPose M (m_estimatedTransformation s3) s3\<rparr>)
      in s4\<lparr>m_consecutiveRejections := 0, m_lastSuccessfulIncrementalTime := m_lastSampleTime s4, m_rejectReasonTag := [],
            m_healthyHoldAnnotated := False\<rparr>)"

definition reject_candidate :: "double \<Rightarrow> Calc \<Rightarrow> Calc" where
  "reject_candidate priorError s =
     (let s1 = s\<lparr>m_consecutiveRejections := m_consecutiveRejections s + 1\<rparr>;
          healthy = IsCalibrationHealthy (m_isValid s1) priorError
      in if m_isValid s1 \<and> kMaxConsecutiveRejections \<le> m_consecutiveRejections s1
         then if healthy
              then s1\<lparr>m_healthyHoldAnnotated := True, m_consecutiveRejections := kMaxConsecutiveRejections - 5, m_rejectReasonTag := ''healthy_below_floor''\<rparr>
              else calc_Clear (s1\<lparr>m_isValid := False, m_watchdogResets := m_watchdogResets s1 + 1\<rparr>)
         else s1)"

text \<open>The candidate a tick ends with, and whether it comes from the relative pose. \<open>None\<close> is the early return.\<close>

definition incremental_candidate ::
  "SolverMath \<Rightarrow> MathMode \<Rightarrow> double \<Rightarrow> double \<Rightarrow> bool \<Rightarrow> double \<Rightarrow> Calc \<Rightarrow> Calc \<times> (Candidate \<times> bool) option" where
  "incremental_candidate M md threshold relPoseMaxError ignoreOutliers priorError s =
     (let byRelPose = CalibrateByRelPose M s; (s1, out, relErr) = relpose_stage M threshold relPoseMaxError priorError s;
          rel = \<lparr>cd_valid = True, cd_rapid = True, cd_error = relErr, cd_variance = 0, cd_calibration = byRelPose\<rparr>
      in case out of
           RelStop \<Rightarrow> (s1, None)
         | RelUse \<Rightarrow> (s1, Some (rel, True))
         | RelPass \<Rightarrow>
             let (s2, c) = prior_check threshold priorError (guarded_solve M md ignoreOutliers s1)
             in if \<not> cd_valid c \<and> cd_rapid c
                   \<and> relErr * threshold < RetargetingErrorRMS M (aff_translation (m_refToTargetPose s2)) (m_estimatedTransformation s2) s2
                then (s2, Some (rel\<lparr>cd_variance := cd_variance c\<rparr>, True))
                else (s2, Some (c, False)))"

definition ComputeIncremental ::
  "SolverMath \<Rightarrow> MathMode \<Rightarrow> double \<Rightarrow> double \<Rightarrow> bool \<Rightarrow> bool \<Rightarrow> Calc \<Rightarrow> Calc \<times> bool \<times> bool" where
  "ComputeIncremental M md threshold relPoseMaxError ignoreOutliers lerp s =
     (if length (m_samples s) < 6 then (s, False, lerp)
      else let (s1, locked) = lock_stage M s
           in if locked then (s1, True, lerp)
              else let (s2, priorError) = prior_stage M s1;
                       (s3, cand) = incremental_candidate M md threshold relPoseMaxError ignoreOutliers priorError s2
                   in case cand of
                        None \<Rightarrow> (s3, False, lerp)
                      | Some (c, usingRelPose) \<Rightarrow>
                          if cd_valid c then (accept_candidate M usingRelPose c s3, True, m_isValid s3)
                          else (reject_candidate priorError s3, False, lerp))"

section \<open>What each stage leaves alone\<close>

text \<open>The fits and the validation write diagnostics only.\<close>

definition same_core :: "Calc \<Rightarrow> Calc \<Rightarrow> bool" where
  "same_core s s' \<longleftrightarrow> m_samples s' = m_samples s \<and> m_rotationFrozen s' = m_rotationFrozen s \<and> m_isValid s' = m_isValid s
     \<and> m_estimatedTransformation s' = m_estimatedTransformation s \<and> m_refToTargetPose s' = m_refToTargetPose s
     \<and> m_relativePosCalibrated s' = m_relativePosCalibrated s \<and> m_consecutiveRejections s' = m_consecutiveRejections s
     \<and> m_watchdogResets s' = m_watchdogResets s \<and> c_lockRelativePosition s' = c_lockRelativePosition s
     \<and> c_enableStaticRecalibration s' = c_enableStaticRecalibration s \<and> m_axisVariance s' = m_axisVariance s"

lemma same_core_refl [simp]: "same_core s s"
  by (simp add: same_core_def)

lemma same_core_trans: "same_core s s' \<Longrightarrow> same_core s' s'' \<Longrightarrow> same_core s s''"
  by (simp add: same_core_def)

lemma DetectOutliers_core: "same_core s (fst (DetectOutliers M s))"
  by (simp add: DetectOutliers_def Let_def same_core_def)

lemma CalibrateRotation_core: "same_core s (fst (CalibrateRotation M ign s))"
proof -
  obtain s1 v where d: "DetectOutliers M s = (s1, v)" by fastforce
  with DetectOutliers_core [of s M] have "same_core s s1" by simp
  then show ?thesis by (auto simp: CalibrateRotation_def Let_def d same_core_def split: prod.splits)
qed

lemma CalibrateTranslation_core: "same_core s (fst (CalibrateTranslation M md R s))"
  by (auto simp: CalibrateTranslation_def CalibrateTranslationLegacyPairwise_def Let_def same_core_def split: prod.splits)

lemma ComputeCalibration_core: "same_core s (fst (ComputeCalibration M md ign s))"
proof -
  obtain s1 e where r: "CalibrateRotation M ign s = (s1, e)" by (cases "CalibrateRotation M ign s")
  obtain s2 t where t: "CalibrateTranslation M md (m3_of_quat (mat M) (VRRotationQuat M e)) s1 = (s2, t)" by (rule prod.exhaust)
  have "same_core s s1" "same_core s1 s2"
    using CalibrateRotation_core [of s M ign] CalibrateTranslation_core [of s1 M md "m3_of_quat (mat M) (VRRotationQuat M e)"] by (simp_all add: r t)
  then show ?thesis by (auto simp: ComputeCalibration_def Let_def r t intro: same_core_trans)
qed

lemma ValidateCalibration_core: "ValidateCalibration M c s = (s', ok, e, off) \<Longrightarrow> same_core s s'"
  by (auto simp: ValidateCalibration_def Let_def same_core_def)

lemma ValidateCalibration_result:
  "ValidateCalibration M c s = (s', ok, e, off) \<Longrightarrow> e = rms_of M s c \<and> (ok \<longleftrightarrow> \<not> rms_gate M s < rms_of M s c)"
  by (auto simp: ValidateCalibration_def Let_def)

text \<open>Errors, gates and the relative candidate depend on the samples alone.\<close>

lemma same_core_measures:
  assumes "same_core s s'"
  shows "rms_of M s' c = rms_of M s c" "rms_gate M s' = rms_gate M s" "CalibrateByRelPose M s' = CalibrateByRelPose M s"
    "RetargetingErrorRMS M off c s' = RetargetingErrorRMS M off c s"
  using assms by (simp_all add: same_core_def rms_of_def RetargetingErrorRMS_def ComputeRefToTargetOffset_def rms_gate_def
      ReferenceJitter_def TargetJitter_def CalibrateByRelPose_def)

lemma lock_stage_cases:
  assumes "lock_stage M s = (s1, locked)"
  shows "if locked then c_lockRelativePosition s \<and> m_isValid s1 \<and> m_estimatedTransformation s1 = CalibrateByRelPose M s
      \<and> m_samples s1 = m_samples s \<and> m_rotationFrozen s1 = m_rotationFrozen s \<and> m_consecutiveRejections s1 = m_consecutiveRejections s
      \<and> m_watchdogResets s1 = m_watchdogResets s \<and> \<not> rms_gate M s < rms_of M s (CalibrateByRelPose M s)
    else same_core s s1"
proof (cases "c_lockRelativePosition s")
  case True
  obtain s2 ok e off where v: "ValidateCalibration M (CalibrateByRelPose M s) s = (s2, ok, e, off)" by (metis prod_cases4)
  show ?thesis using assms True ValidateCalibration_core [OF v] ValidateCalibration_result [OF v]
    by (auto simp: lock_stage_def v Let_def same_core_def split: if_splits)
qed (use assms in \<open>auto simp: lock_stage_def\<close>)

definition prior_of :: "SolverMath \<Rightarrow> Calc \<Rightarrow> double" where
  "prior_of M s = (if m_isValid s then rms_of M s (m_estimatedTransformation s) else FInf False)"

lemma prior_stage_cases: "prior_stage M s = (s1, p) \<Longrightarrow> same_core s s1 \<and> p = prior_of M s"
  by (auto simp: prior_stage_def prior_of_def Let_def split: prod.splits if_splits
      dest: ValidateCalibration_core ValidateCalibration_result)

lemma relpose_stage_cases:
  assumes "relpose_stage M th mx p s = (s1, out, e)"
  shows "same_core s s1 \<and> e = (if c_enableStaticRecalibration s then rms_of M s (CalibrateByRelPose M s) else FInf False)
    \<and> (out = RelUse \<longrightarrow> c_enableStaticRecalibration s \<and> \<not> rms_gate M s < e
         \<and> (e < lit 0.01 \<or> m_relativePosCalibrated s \<and> e < lit 0.025) \<and> \<not> p \<le> e * th \<and> \<not> mx < e)"
proof (cases "c_enableStaticRecalibration s")
  case True
  obtain s2 ok e2 off where v: "ValidateCalibration M (CalibrateByRelPose M s) s = (s2, ok, e2, off)" by (metis prod_cases4)
  show ?thesis using assms True ValidateCalibration_core [OF v] ValidateCalibration_result [OF v]
    by (auto simp: relpose_stage_def v Let_def same_core_def split: if_splits)
qed (use assms in \<open>auto simp: relpose_stage_def\<close>)

text \<open>A candidate of the full solve that is still valid after the comparison has passed every guard.\<close>

definition solve_ok :: "SolverMath \<Rightarrow> MathMode \<Rightarrow> bool \<Rightarrow> Calc \<Rightarrow> Candidate \<Rightarrow> bool" where
  "solve_ok M md ign s c \<longleftrightarrow> (\<exists>s0. ComputeCalibration M md ign s = (s0, cd_calibration c)
     \<and> \<not> m_rotationConditionRatio s0 < RotationConditionMin \<and> \<not> m_translationConditionRatio s0 < RotationConditionMin
     \<and> \<not> (cd_variance c < AxisVarianceThreshold \<and> cd_variance c < m_axisVariance s)
     \<and> cd_error c = rms_of M s (cd_calibration c) \<and> \<not> rms_gate M s < cd_error c)"

lemma guarded_solve_cases:
  assumes "guarded_solve M md ign s = (s1, c)"
  shows "same_core s s1 \<and> (cd_valid c \<longrightarrow> solve_ok M md ign s c)"
proof -
  obtain s0 cal where cc: "ComputeCalibration M md ign s = (s0, cal)" by (rule prod.exhaust)
  have core: "same_core s s0" using ComputeCalibration_core [of s M md ign] by (simp add: cc)
  obtain s2 ok e off where v: "ValidateCalibration M cal s0 = (s2, ok, e, off)" by (metis prod_cases4)
  have core2: "same_core s s2" using core ValidateCalibration_core [OF v] by (rule same_core_trans)
  define var where "var = ComputeAxisVariance M s0 ! 1"
  have var: "ComputeAxisVariance M s0 ! Suc 0 = var" by (simp add: var_def)
  have tag: "same_core s (x\<lparr>m_rejectReasonTag := t\<rparr>)" "same_core s (x\<lparr>m_posOffset := w\<rparr>)"
    "same_core s (x\<lparr>m_posOffset := w, m_rejectReasonTag := t\<rparr>)" if "same_core s x" for x t w
    using that by (simp_all add: same_core_def)
  have ax: "m_axisVariance s0 = m_axisVariance s" using core by (simp add: same_core_def)
  consider (axis) "var < AxisVarianceThreshold \<and> var < m_axisVariance s"
    | (rot) "\<not> (var < AxisVarianceThreshold \<and> var < m_axisVariance s)" "m_rotationConditionRatio s0 < RotationConditionMin"
    | (tra) "\<not> (var < AxisVarianceThreshold \<and> var < m_axisVariance s)" "\<not> m_rotationConditionRatio s0 < RotationConditionMin"
        "m_translationConditionRatio s0 < RotationConditionMin"
    | (ok) "\<not> (var < AxisVarianceThreshold \<and> var < m_axisVariance s)" "\<not> m_rotationConditionRatio s0 < RotationConditionMin"
        "\<not> m_translationConditionRatio s0 < RotationConditionMin" by blast
  then show ?thesis
  proof cases
    case ok
    have "s1 = (if ok then s2\<lparr>m_posOffset := off\<rparr> else s2\<lparr>m_posOffset := off, m_rejectReasonTag := ''validate_failed''\<rparr>)"
      "c = \<lparr>cd_valid = ok, cd_rapid = True, cd_error = e, cd_variance = var, cd_calibration = cal\<rparr>"
      using assms ok by (simp_all add: guarded_solve_def cc v Let_def var ax)
    then show ?thesis using tag [OF core2] ok ValidateCalibration_result [OF v] same_core_measures [OF core]
      by (simp add: solve_ok_def cc)
  qed (use assms tag [OF core] in \<open>auto simp: guarded_solve_def cc Let_def var ax\<close>)
qed

lemma prior_check_cases:
  assumes "prior_check th p (s, c) = (s', c')"
  shows "same_core s s' \<and> cd_calibration c' = cd_calibration c \<and> cd_error c' = cd_error c \<and> cd_variance c' = cd_variance c
    \<and> (cd_valid c' \<longrightarrow> cd_valid c \<and> (m_isValid s \<and> isfinite (cd_error c) \<longrightarrow> \<not> std_max p kRejectionFloor < cd_error c * th))"
  using assms by (auto simp: prior_check_def same_core_def split: if_splits)

definition rel_error :: "SolverMath \<Rightarrow> Calc \<Rightarrow> double" where
  "rel_error M s = (if c_enableStaticRecalibration s then rms_of M s (CalibrateByRelPose M s) else FInf False)"

text \<open>The two kinds of candidates that can be accepted after the lock stage.\<close>

lemma incremental_candidate_cases:
  assumes "incremental_candidate M md th mx ign p s = (s1, Some (c, usingRel))" "cd_valid c"
  shows "same_core s s1 \<and>
    (if usingRel then cd_calibration c = CalibrateByRelPose M s \<and> cd_error c = rel_error M s \<and>
        (c_enableStaticRecalibration s \<and> \<not> rms_gate M s < rel_error M s \<and> \<not> p \<le> rel_error M s * th \<and> \<not> mx < rel_error M s
           \<and> (rel_error M s < lit 0.01 \<or> m_relativePosCalibrated s \<and> rel_error M s < lit 0.025)
         \<or> rel_error M s * th < RetargetingErrorRMS M (aff_translation (m_refToTargetPose s)) (m_estimatedTransformation s) s)
     else (\<exists>s0. same_core s s0 \<and> solve_ok M md ign s0 c)
       \<and> (m_isValid s \<and> isfinite (cd_error c) \<longrightarrow> \<not> std_max p kRejectionFloor < cd_error c * th))"
proof -
  obtain s2 out e where r: "relpose_stage M th mx p s = (s2, out, e)" by (metis prod_cases3)
  note rc = relpose_stage_cases [OF r]
  obtain s3 c3 where g: "guarded_solve M md ign s2 = (s3, c3)" by (rule prod.exhaust)
  obtain s4 c4 where pc: "prior_check th p (s3, c3) = (s4, c4)" by (rule prod.exhaust)
  have c2: "same_core s s2" and e: "e = rel_error M s" using rc by (simp_all add: rel_error_def)
  have c34: "same_core s s3" "same_core s s4"
    using c2 guarded_solve_cases [OF g] prior_check_cases [OF pc] by (auto intro: same_core_trans)
  have v: "m_isValid s3 = m_isValid s" using c34(1) by (simp add: same_core_def)
  show ?thesis
  proof (cases out)
    case RelStop
    then show ?thesis using assms by (simp add: incremental_candidate_def r Let_def)
  next
    case RelUse
    then show ?thesis using assms rc c2 e by (auto simp: incremental_candidate_def r Let_def)
  next
    case RelPass
    let ?rapid = "\<not> cd_valid c4 \<and> cd_rapid c4 \<and> e * th < RetargetingErrorRMS M (aff_translation (m_refToTargetPose s4)) (m_estimatedTransformation s4) s4"
    have res: "incremental_candidate M md th mx ign p s = (if ?rapid then (s4, Some (\<lparr>cd_valid = True, cd_rapid = True, cd_error = e, cd_variance = cd_variance c4,
        cd_calibration = CalibrateByRelPose M s\<rparr>, True)) else (s4, Some (c4, False)))"
      using RelPass by (simp add: incremental_candidate_def r g pc Let_def)
    show ?thesis
    proof (cases ?rapid)
      case True
      have "m_refToTargetPose s4 = m_refToTargetPose s" "m_estimatedTransformation s4 = m_estimatedTransformation s"
        using c34(2) by (simp_all add: same_core_def)
      then show ?thesis using True res assms c34(2) e same_core_measures(4) [OF c34(2)] by simp
    next
      case False
      then have "c = c4" "s1 = s4" "\<not> usingRel" using res assms(1) by (simp_all only: if_False prod.inject option.inject not_False_eq_True)
      then show ?thesis using assms(2) guarded_solve_cases [OF g] prior_check_cases [OF pc] c34 c2 v by (auto simp: solve_ok_def)
    qed
  qed
qed

section \<open>Acceptance and rejection\<close>

lemma publish_keeps:
  "m_samples (publish_blended M cal s) = m_samples s" "m_samples (publish_snap M r cal s) = m_samples s"
  "m_rotationFrozen (publish_blended M cal s) = m_rotationFrozen s" "m_rotationFrozen (publish_snap M r cal s) = m_rotationFrozen s"
  "m_watchdogResets (publish_blended M cal s) = m_watchdogResets s" "m_watchdogResets (publish_snap M r cal s) = m_watchdogResets s"
  "m_estimatedTransformation (publish_snap M r cal s) = cal"
  by (auto simp: publish_blended_def publish_snap_def Let_def split: prod.splits)

lemma accept_candidate_result:
  "m_samples (accept_candidate M r c s) = m_samples s" "m_isValid (accept_candidate M r c s)"
  "m_rotationFrozen (accept_candidate M r c s) = m_rotationFrozen s"
  "m_watchdogResets (accept_candidate M r c s) = m_watchdogResets s" "m_consecutiveRejections (accept_candidate M r c s) = 0"
  "r \<or> \<not> m_isValid s \<Longrightarrow> m_estimatedTransformation (accept_candidate M r c s) = cd_calibration c"
  by (auto simp: accept_candidate_def Let_def publish_keeps)

lemma same_core_prior: "same_core s s' \<Longrightarrow> prior_of M s' = prior_of M s"
  by (simp add: prior_of_def same_core_measures) (simp add: same_core_def)

lemma same_core_rel: "same_core s s' \<Longrightarrow> rel_error M s' = rel_error M s"
  by (simp add: rel_error_def same_core_measures) (simp add: same_core_def)

lemma incremental_candidate_core:
  assumes "incremental_candidate M md th mx ign p s = (s1, cand)"
  shows "same_core s s1"
proof -
  obtain s2 out e where r: "relpose_stage M th mx p s = (s2, out, e)" by (metis prod_cases3)
  obtain s3 c3 where g: "guarded_solve M md ign s2 = (s3, c3)" by (rule prod.exhaust)
  obtain s4 c4 where pc: "prior_check th p (s3, c3) = (s4, c4)" by (rule prod.exhaust)
  have "same_core s s2" "same_core s s4"
    using relpose_stage_cases [OF r] guarded_solve_cases [OF g] prior_check_cases [OF pc] by (auto intro: same_core_trans)
  then show ?thesis using assms by (cases out) (auto simp: incremental_candidate_def r g pc Let_def split: if_splits)
qed

text \<open>What happens in a call with at least six samples, after the lock stage.\<close>

lemma ComputeIncremental_unlocked:
  assumes "6 \<le> length (m_samples s)" "lock_stage M s = (s1, False)" "prior_stage M s1 = (s2, p)"
    and "incremental_candidate M md th mx ign p s2 = (s3, cand)"
  shows "ComputeIncremental M md th mx ign l s = (case cand of None \<Rightarrow> (s3, False, l)
     | Some (c, r) \<Rightarrow> if cd_valid c then (accept_candidate M r c s3, True, m_isValid s3) else (reject_candidate p s3, False, l))"
  using assms by (simp add: ComputeIncremental_def Let_def)

lemma ComputeIncremental_frozen:
  assumes "ComputeIncremental M md th mx ign l s = (s', ok, l')"
  shows "(m_rotationFrozen s' = m_rotationFrozen s \<or> m_rotationFrozen s' = []) \<and>
    (0 \<le> m_consecutiveRejections s \<longrightarrow> 0 \<le> m_consecutiveRejections s')"
proof (cases "6 \<le> length (m_samples s)")
  case n6: True
  obtain s1 locked where l: "lock_stage M s = (s1, locked)" by (rule prod.exhaust)
  show ?thesis
  proof (cases locked)
    case True
    then have "s' = s1" using assms n6 l by (simp add: ComputeIncremental_def)
    then show ?thesis using lock_stage_cases [OF l] True by simp
  next
    case False
    obtain s2 p where pr: "prior_stage M s1 = (s2, p)" by (rule prod.exhaust)
    obtain s3 cand where ic: "incremental_candidate M md th mx ign p s2 = (s3, cand)" by (rule prod.exhaust)
    have lk: "lock_stage M s = (s1, False)" using l False by simp
    have "same_core s s3"
      using lock_stage_cases [OF lk] prior_stage_cases [OF pr] incremental_candidate_core [OF ic] by (auto intro: same_core_trans)
    moreover have "s' = s3 \<or> (\<exists>r c. s' = accept_candidate M r c s3) \<or> s' = reject_candidate p s3"
      using assms ComputeIncremental_unlocked [OF n6 lk pr ic, of l] by (auto split: option.splits prod.splits if_splits)
    ultimately show ?thesis
      by (auto simp: same_core_def accept_candidate_result reject_candidate_def Let_def calc_Clear_def kMaxConsecutiveRejections_def)
  qed
qed (use assms in \<open>simp add: ComputeIncremental_def\<close>)


lemma ComputeIncremental_watchdog:
  assumes "ComputeIncremental M md threshold maxErr ignoreOutliers l s = (s', ok, l')"
  defines "n \<equiv> m_consecutiveRejections s + 1"
  shows "(m_watchdogResets s' = m_watchdogResets s \<and> m_samples s' = m_samples s \<and>
      (ok \<or> m_consecutiveRejections s' = m_consecutiveRejections s
        \<or> (m_consecutiveRejections s' = n \<and> \<not> (m_isValid s \<and> kMaxConsecutiveRejections \<le> n))
        \<or> (m_consecutiveRejections s' = kMaxConsecutiveRejections - 5 \<and> IsCalibrationHealthy (m_isValid s) (prior_of M s)
           \<and> kMaxConsecutiveRejections \<le> n)))
    \<or> (m_watchdogResets s' = m_watchdogResets s + 1 \<and> \<not> ok \<and> ShouldClearViaWatchdog (m_isValid s) n (prior_of M s)
       \<and> m_samples s' = [] \<and> m_rotationFrozen s' = [] \<and> \<not> m_isValid s' \<and> m_consecutiveRejections s' = 0
       \<and> m_estimatedTransformation s' = aff_identity)"
proof (cases "6 \<le> length (m_samples s)")
  case n6: True
  obtain s1 locked where l: "lock_stage M s = (s1, locked)" by (rule prod.exhaust)
  show ?thesis
  proof (cases locked)
    case True
    then have "s' = s1" "ok" using assms(1) n6 l by (simp_all add: ComputeIncremental_def)
    then show ?thesis using lock_stage_cases [OF l] True by simp
  next
    case False
    obtain s2 p where pr: "prior_stage M s1 = (s2, p)" by (rule prod.exhaust)
    obtain s3 cand where ic: "incremental_candidate M md threshold maxErr ignoreOutliers p s2 = (s3, cand)" by (rule prod.exhaust)
    have lk: "lock_stage M s = (s1, False)" using l False by simp
    note eq = ComputeIncremental_unlocked [OF n6 lk pr ic, of l]
    have core2: "same_core s s2" and p: "p = prior_of M s"
      using lock_stage_cases [OF lk] prior_stage_cases [OF pr] same_core_prior [of s s1 M] by (auto intro: same_core_trans)
    have core: "same_core s s3" using core2 incremental_candidate_core [OF ic] by (rule same_core_trans)
    consider (early) "s' = s3" | (acc) c r where "s' = accept_candidate M r c s3" "ok" | (rej) "s' = reject_candidate p s3" "\<not> ok"
      using assms(1) eq by (auto split: option.splits prod.splits if_splits)
    then show ?thesis
    proof cases
      case early
      then show ?thesis using core by (simp add: same_core_def)
    next
      case acc
      then show ?thesis using core by (simp add: same_core_def accept_candidate_result)
    next
      case rej
      have f: "m_isValid s3 = m_isValid s" "m_consecutiveRejections s3 = n - 1" "m_samples s3 = m_samples s" "m_watchdogResets s3 = m_watchdogResets s"
        using core by (simp_all add: same_core_def n_def)
      show ?thesis using rej(2) unfolding rej(1) p
        by (auto simp: reject_candidate_def Let_def f calc_Clear_def ShouldClearViaWatchdog_def)
    qed
  qed
qed (use assms in \<open>simp add: ComputeIncremental_def\<close>)


section \<open>One-shot calibration and the buffer\<close>

lemma oneshot_solve_cases:
  assumes "oneshot_solve M md ign s = (s', ok)"
  shows "m_samples s' = m_samples s \<and> m_rotationFrozen s' = m_rotationFrozen s \<and> m_watchdogResets s' = m_watchdogResets s
    \<and> m_consecutiveRejections s' = m_consecutiveRejections s
    \<and> (if 6 \<le> length (m_samples s) \<and> m_rotationConditionRatio (fst (ComputeCalibration M md ign s)) \<noteq> 0
       then ok \<and> m_isValid s' \<and> m_estimatedTransformation s' = snd (ComputeCalibration M md ign s)
       else \<not> ok \<and> m_isValid s' = m_isValid s \<and> m_estimatedTransformation s' = m_estimatedTransformation s)"
proof -
  obtain s1 cal where cc: "ComputeCalibration M md ign s = (s1, cal)" by (rule prod.exhaust)
  have c1: "same_core s s1" using ComputeCalibration_core [of s M md ign] by (simp add: cc)
  obtain s2 v e off where va: "ValidateCalibration M cal s1 = (s2, v, e, off)" by (metis prod_cases4)
  obtain s3 v' e' off' where vb: "ValidateCalibration M (m_estimatedTransformation s2) s2 = (s3, v', e', off')" by (metis prod_cases4)
  have c23: "same_core s s2" "same_core s s3"
    using c1 ValidateCalibration_core [OF va] ValidateCalibration_core [OF vb] by (auto intro: same_core_trans)
  let ?t = "if \<not> v \<and> m_isValid s2 then s3 else s2"
  have eq: "oneshot_solve M md ign s = (if length (m_samples s) < 6 then (s, False) else if m_rotationConditionRatio s1 = 0 then (s1, False)
      else (?t\<lparr>m_estimatedTransformation := cal, m_isValid := True\<rparr>, True))"
    by (simp add: oneshot_solve_def cc va vb)
  have t: "same_core s ?t" using c23 by simp
  show ?thesis
  proof (cases "6 \<le> length (m_samples s) \<and> m_rotationConditionRatio s1 \<noteq> 0")
    case True
    then have "s' = ?t\<lparr>m_estimatedTransformation := cal, m_isValid := True\<rparr>" "ok" using assms eq by simp_all
    then show ?thesis using True t by (simp only: cc fst_conv snd_conv if_True) (simp add: same_core_def)
  next
    case False
    then have "same_core s s' \<and> \<not> ok" using assms eq c1 by (auto split: if_splits)
    then show ?thesis using False by (simp only: cc fst_conv if_False) (simp add: same_core_def)
  qed
qed

text \<open>C24. A one-shot calibration works on the frozen rotation samples followed by the live ones and leaves both
  buffers exactly as they were. It succeeds if and only if the two together hold six samples and the rotation fit
  had something to fit; then the estimate is the result of that solve, whatever its error. A failure changes
  neither the estimate nor its validity.\<close>

theorem oneshot_outcome:
  assumes "ComputeOneshot M md ignoreOutliers s = (s', ok)"
  shows "m_samples s' = m_samples s \<and> m_rotationFrozen s' = m_rotationFrozen s \<and>
    (case ComputeCalibration M md ignoreOutliers (s\<lparr>m_samples := m_rotationFrozen s @ m_samples s\<rparr>) of (t, calibration) \<Rightarrow>
       if 6 \<le> length (m_rotationFrozen s) + length (m_samples s) \<and> m_rotationConditionRatio t \<noteq> 0
       then ok \<and> m_isValid s' \<and> m_estimatedTransformation s' = calibration
       else \<not> ok \<and> m_isValid s' = m_isValid s \<and> m_estimatedTransformation s' = m_estimatedTransformation s)"
proof -
  let ?s = "s\<lparr>m_samples := m_rotationFrozen s @ m_samples s\<rparr>"
  obtain s1 ok1 where o: "oneshot_solve M md ignoreOutliers ?s = (s1, ok1)" by (rule prod.exhaust)
  have s': "s' = s1\<lparr>m_samples := drop (length (m_rotationFrozen s)) (m_samples s1)\<rparr>" "ok = ok1"
    using assms by (simp_all add: ComputeOneshot_def o)
  show ?thesis using oneshot_solve_cases [OF o] by (auto simp: s' split: prod.splits if_splits)
qed

text \<open>The operations a client of the engine can call.\<close>

datatype calc_event = CPush Sample | CClear | CFreeze | CShift | CSetRelative AffineCompact3d bool
  | COptions bool bool DirectOptions bool | COneshot bool | CIncremental double double bool

fun calc_step :: "SolverMath \<Rightarrow> MathMode \<Rightarrow> calc_event \<Rightarrow> Calc \<Rightarrow> Calc" where
  "calc_step M md (CPush x) s = PushSample x s"
| "calc_step M md CClear s = calc_Clear s"
| "calc_step M md CFreeze s = FreezeRotationPhaseSamples s"
| "calc_step M md CShift s = ShiftSample s"
| "calc_step M md (CSetRelative a b) s = setRelativeTransformation a b s"
| "calc_step M md (COptions st lk opts bf) s =
     s\<lparr>c_enableStaticRecalibration := st, c_lockRelativePosition := lk, c_options := opts, c_useBlendFilter := bf\<rparr>"
| "calc_step M md (COneshot ign) s = fst (ComputeOneshot M md ign s)"
| "calc_step M md (CIncremental th mx ign) s = fst (ComputeIncremental M md th mx ign False s)"

fun sane_vec :: "Vector3d \<Rightarrow> bool" where
  "sane_vec (x, y, z) \<longleftrightarrow> (\<exists>a b c. x = Fin a \<and> y = Fin b \<and> z = Fin c \<and> \<bar>a\<bar> \<le> 5 \<and> \<bar>b\<bar> \<le> 5 \<and> \<bar>c\<bar> \<le> 5)"

definition sane_sample :: "Sample \<Rightarrow> bool" where
  "sane_sample x \<longleftrightarrow> sane_vec (cp_trans (s_ref x)) \<and> sane_vec (cp_trans (s_target x))"

definition calc_ok :: "Calc \<Rightarrow> bool" where
  "calc_ok s \<longleftrightarrow> list_all sane_sample (m_samples s) \<and> list_all sane_sample (m_rotationFrozen s) \<and> 0 \<le> m_consecutiveRejections s"

lemma lit_5: "lit 5 = (Fin 5 :: double)"
  using fround_dyadic [of 5 0] by (simp add: lit_def)

lemma sane_vecI:
  assumes "v_allFinite v" "\<not> lit 5 < v_maxAbs v"
  shows "sane_vec v"
proof -
  obtain x y z where v: "v = (x, y, z)" by (cases v) auto
  from assms(1) obtain a b c where f: "x = Fin a" "y = Fin b" "z = Fin c" by (cases x; cases y; cases z) (auto simp: v)
  show ?thesis using assms(2) by (auto simp: v f lit_5 std_max_def split: if_splits)
qed

lemma PushSample_ok: "calc_ok s \<Longrightarrow> calc_ok (PushSample x s)"
  by (auto simp: PushSample_def calc_ok_def sane_sample_def Let_def intro: sane_vecI)

lemma calc_step_ok:
  assumes "calc_ok s"
  shows "calc_ok (calc_step M md e s) \<and> m_watchdogResets s \<le> m_watchdogResets (calc_step M md e s)"
proof (cases e)
  case (CPush x)
  then show ?thesis using PushSample_ok [OF assms, of x] by (simp add: PushSample_def Let_def)
next
  case CShift
  then show ?thesis using assms by (cases "m_samples s") (auto simp: ShiftSample_def calc_ok_def)
next
  case (COneshot ign)
  obtain s' ok where o: "oneshot_solve M md ign (s\<lparr>m_samples := m_rotationFrozen s @ m_samples s\<rparr>) = (s', ok)" by (rule prod.exhaust)
  show ?thesis using assms oneshot_solve_cases [OF o] by (simp add: COneshot ComputeOneshot_def o calc_ok_def)
next
  case (CIncremental th mx ign)
  obtain s' ok l' where i: "ComputeIncremental M md th mx ign False s = (s', ok, l')" by (metis prod_cases3)
  have fr: "m_rotationFrozen s' = m_rotationFrozen s \<or> m_rotationFrozen s' = []" "0 \<le> m_consecutiveRejections s'"
    using ComputeIncremental_frozen [OF i] assms by (auto simp: calc_ok_def)
  show ?thesis using assms ComputeIncremental_watchdog [OF i] fr by (auto simp: CIncremental i calc_ok_def)
qed (use assms in \<open>auto simp: calc_Clear_def FreezeRotationPhaseSamples_def setRelativeTransformation_def calc_ok_def\<close>)

lemma calc_run_ok:
  "calc_ok s \<Longrightarrow> calc_ok (fold (calc_step M md) es s) \<and> m_watchdogResets s \<le> m_watchdogResets (fold (calc_step M md) es s)"
proof (induction es arbitrary: s)
  case (Cons e es)
  from calc_step_ok [OF Cons.prems, of M md e] Cons.IH [of "calc_step M md e s"] show ?case by auto
qed simp

lemma fold_max_fin:
  assumes "\<forall>p \<in> set ps. \<exists>x. ax p = Fin x"
  shows "\<exists>y. fold (\<lambda>p m. std_max m (ax p)) ps (Fin a) = (Fin y :: double)"
  using assms by (induction ps arbitrary: a) (auto simp: std_max_def)

lemma fold_min_fin:
  assumes "\<forall>p \<in> set ps. \<exists>x. ax p = Fin x"
  shows "\<exists>y. fold (\<lambda>p m. std_min m (ax p)) ps (Fin a) = (Fin y :: double)"
  using assms by (induction ps arbitrary: a) (auto simp: std_min_def)

lemma axis_range_not_nan:
  assumes "\<forall>p \<in> set ps. \<exists>x. ax p = Fin x" "ps \<noteq> []"
  shows "\<not> isnan (axis_range ax ps)"
proof -
  obtain p qs where ps: "ps = p # qs" using assms(2) by (cases ps) auto
  obtain x where x: "ax p = Fin x" using assms(1) ps by auto
  obtain a b where "fold (\<lambda>p m. std_max m (ax p)) qs (Fin x) = (Fin a :: double)" "fold (\<lambda>p m. std_min m (ax p)) qs (Fin x) = (Fin b :: double)"
    using fold_max_fin [of qs ax x] fold_min_fin [of qs ax x] assms(1) ps by auto
  then show ?thesis by (simp add: axis_range_def ps x std_max_def std_min_def minus_fp_def)
qed

lemma unit_clip: "\<not> isnan x \<Longrightarrow> in01 (std_min (std_max x 0) 1 :: double)"
  by (cases x) (auto simp: std_min_def std_max_def in01_def zero_fp_def one_fp_def)

lemma kDesiredAxisRange_pos: "\<exists>y. kDesiredAxisRange = Fin y \<and> 0 < y"
proof -
  have "kDesiredAxisRange = Fin (rnd 53 (1 / 5))" using lit_01 [of "1 / 5"] by (simp add: kDesiredAxisRange_def)
  moreover have "rnd 53 (1 / 8) \<le> rnd 53 (1 / 5)" by (rule rnd_mono) simp_all
  moreover have "(fround (1 / 8) :: double) = Fin (1 / 8)" using fround_dyadic [of 1 3] by simp
  then have "rnd 53 (1 / 8) = 1 / 8" by (auto simp: fround_def Let_def split: if_splits)
  ultimately show ?thesis by (intro exI [of _ "rnd 53 (1 / 5)"]) simp
qed

lemma div_range_not_nan:
  assumes "\<not> isnan x"
  shows "\<not> isnan (x / kDesiredAxisRange)"
proof -
  obtain y where y: "kDesiredAxisRange = Fin y" "0 < y" using kDesiredAxisRange_pos by blast
  then show ?thesis using assms unfolding y(1) by (cases x) auto
qed

lemma TranslationDiversity_01:
  assumes "calc_ok s"
  shows "in01 (TranslationDiversity s)"
proof (cases "length (m_samples s) < 2 \<or> length (usable_targets s) < 2")
  case False
  let ?ps = "usable_targets s"
  have "sane_vec p" if "p \<in> set ?ps" for p
    using that assms by (auto simp: usable_targets_def calc_ok_def list_all_iff sane_sample_def)
  then have "\<forall>p \<in> set ?ps. (\<exists>x. vx p = Fin x) \<and> (\<exists>x. vy p = Fin x) \<and> (\<exists>x. vz p = Fin x)" by fastforce
  moreover have "?ps \<noteq> []" using False by auto
  ultimately have "\<not> isnan (axis_range vx ?ps)" "\<not> isnan (axis_range vy ?ps)" "\<not> isnan (axis_range vz ?ps)"
    using axis_range_not_nan [of ?ps vx] axis_range_not_nan [of ?ps vy] axis_range_not_nan [of ?ps vz] by blast+
  then have "\<not> isnan (std_min (std_min (axis_range vx ?ps) (axis_range vy ?ps)) (axis_range vz ?ps))" by (simp add: std_min_def)
  then have "\<not> isnan (std_min (std_min (axis_range vx ?ps) (axis_range vy ?ps)) (axis_range vz ?ps) / kDesiredAxisRange)"
    by (rule div_range_not_nan)
  from unit_clip [OF this] False show ?thesis by (simp add: TranslationDiversity_def Let_def)
qed (auto simp: TranslationDiversity_def in01_def zero_fp_def one_fp_def)


section \<open>What slips through\<close>

text \<open>An error that is not a number passes the gate: with a locked relative position the pose derived from it becomes the
  estimate, and the call reports success.\<close>

theorem nan_error_accepted:
  assumes "6 \<le> length (m_samples s)" "c_lockRelativePosition s" "isnan (rms_of M s (CalibrateByRelPose M s))"
  shows "case ComputeIncremental M md threshold maxErr ignoreOutliers l s of (s', ok, l') \<Rightarrow>
    ok \<and> m_isValid s' \<and> m_estimatedTransformation s' = CalibrateByRelPose M s"
proof -
  obtain s1 ok e off where v: "ValidateCalibration M (CalibrateByRelPose M s) s = (s1, ok, e, off)" by (metis prod_cases4)
  have "\<not> rms_gate M s < rms_of M s (CalibrateByRelPose M s)"
    using assms(3) by (cases "rms_of M s (CalibrateByRelPose M s)"; cases "rms_gate M s") auto
  then have ok using ValidateCalibration_result [OF v] by simp
  then show ?thesis using assms(1,2) v by (simp add: ComputeIncremental_def lock_stage_def)
qed

text \<open>A success through the locked relative position leaves the count of rejections as it was. After 49 of them, one more
  rejection with an unhealthy error clears the calibration that has just been accepted.\<close>

theorem lock_accept_keeps_rejections:
  assumes "6 \<le> length (m_samples s)" "c_lockRelativePosition s" "\<not> rms_gate M s < rms_of M s (CalibrateByRelPose M s)"
    and "49 \<le> m_consecutiveRejections s" "\<not> p < kHealthyPriorErrorMaxMeters"
  shows "case ComputeIncremental M md threshold maxErr ignoreOutliers l s of (s', ok, l') \<Rightarrow>
    ok \<and> m_isValid s' \<and> m_consecutiveRejections s' = m_consecutiveRejections s
    \<and> m_watchdogResets (reject_candidate p s') = m_watchdogResets s + 1 \<and> m_samples (reject_candidate p s') = []"
proof -
  obtain s1 ok e off where v: "ValidateCalibration M (CalibrateByRelPose M s) s = (s1, ok, e, off)" by (metis prod_cases4)
  have ok using ValidateCalibration_result [OF v] assms(3) by simp
  moreover have "m_consecutiveRejections s1 = m_consecutiveRejections s" "m_watchdogResets s1 = m_watchdogResets s"
    using ValidateCalibration_core [OF v] by (simp_all add: same_core_def)
  ultimately show ?thesis using assms v
    by (simp add: ComputeIncremental_def lock_stage_def reject_candidate_def calc_Clear_def kMaxConsecutiveRejections_def IsCalibrationHealthy_def)
qed

text \<open>Two samples between which neither device turned far enough give the rotation fit nothing to work on.\<close>

definition never_turned :: "SolverMath \<Rightarrow> Calc \<Rightarrow> bool" where
  "never_turned M s \<longleftrightarrow> (\<forall>x \<in> set (m_samples s). \<forall>y \<in> set (m_samples s). DeltaRotationSamples M x y = None)"

lemma lower_pairs_in: "(a, b) \<in> set (lower_pairs xs) \<Longrightarrow> a \<in> set xs \<and> b \<in> set xs"
  by (auto simp: lower_pairs_def)

lemma never_turned_flat:
  assumes "never_turned M s"
  shows "m_rotationConditionRatio (fst (ComputeCalibration M md ign s)) = 0"
proof -
  obtain s1 v where d: "DetectOutliers M s = (s1, v)" by (rule prod.exhaust)
  have s1: "m_samples s1 = m_samples s" using DetectOutliers_core [of s M] by (simp add: d same_core_def)
  have "filtered_deltas M ign (m_samples s1) v = []"
  proof (rule ccontr)
    assume "filtered_deltas M ign (m_samples s1) v \<noteq> []"
    then obtain a b va vb where "((a, va), (b, vb)) \<in> set (lower_pairs (zip (m_samples s) v))" "DeltaRotationSamples M a b \<noteq> None"
      unfolding filtered_deltas_def map_filter_def s1 by (auto simp: filter_empty_conv split: if_splits)
    moreover from this(1) have "a \<in> set (m_samples s)" "b \<in> set (m_samples s)"
      using lower_pairs_in [of "(a, va)" "(b, vb)"] by (auto dest: set_zip_leftD)
    ultimately show False using assms by (simp add: never_turned_def)
  qed
  then have r: "CalibrateRotation M ign s = (s1\<lparr>m_rotationConditionRatio := 0\<rparr>, v_zero)" by (simp add: CalibrateRotation_def d)
  obtain s2 t where t: "CalibrateTranslation M md (m3_of_quat (mat M) (VRRotationQuat M v_zero)) (s1\<lparr>m_rotationConditionRatio := 0\<rparr>) = (s2, t)"
    by (rule prod.exhaust)
  have "m_rotationConditionRatio (fst (CalibrateTranslation M md R x)) = m_rotationConditionRatio x" for R x
    by (auto simp: CalibrateTranslation_def CalibrateTranslationLegacyPairwise_def Let_def split: prod.splits)
  from this [of "m3_of_quat (mat M) (VRRotationQuat M v_zero)" "s1\<lparr>m_rotationConditionRatio := 0\<rparr>"]
  have "m_rotationConditionRatio s2 = 0" by (simp add: t)
  then show ?thesis by (simp add: ComputeCalibration_def r t)
qed

text \<open>C27. The rapid correction has no gate of its own. When there is no calibration yet, the devices never turned far enough for a
  solve and the pose derived from the recorded relative position fails the noise gate, that same pose is published as the
  first calibration as soon as its error, times the threshold, is below the error of the estimate that
  was never valid.\<close>

theorem rapid_correction_unvalidated:
  assumes "6 \<le> length (m_samples s)" "\<not> m_isValid s" "\<not> c_lockRelativePosition s" "c_enableStaticRecalibration s"
    and "rms_gate M s < rms_of M s (CalibrateByRelPose M s)" "never_turned M s" "\<not> ComputeAxisVariance M s ! 1 < m_axisVariance s"
    and "rms_of M s (CalibrateByRelPose M s) * threshold
      < RetargetingErrorRMS M (aff_translation (m_refToTargetPose s)) (m_estimatedTransformation s) s"
    and "0 < RotationConditionMin"
  shows "case ComputeIncremental M md threshold maxErr ignoreOutliers l s of (s', ok, lerp) \<Rightarrow>
    ok \<and> \<not> lerp \<and> m_isValid s' \<and> m_estimatedTransformation s' = CalibrateByRelPose M s"
proof -
  obtain s1 ok e off where v: "ValidateCalibration M (CalibrateByRelPose M s) s = (s1, ok, e, off)" by (metis prod_cases4)
  have vr: "\<not> ok" "e = rms_of M s (CalibrateByRelPose M s)" and core1: "same_core s s1"
    using ValidateCalibration_result [OF v] ValidateCalibration_core [OF v] assms(5) by simp_all
  obtain s2 cal where cc: "ComputeCalibration M md ignoreOutliers s1 = (s2, cal)" by (rule prod.exhaust)
  have core2: "same_core s s2" using core1 ComputeCalibration_core [of s1 M md ignoreOutliers] by (auto simp: cc intro: same_core_trans)
  have "never_turned M s1" using assms(6) core1 by (simp add: never_turned_def same_core_def)
  from never_turned_flat [OF this, of md ignoreOutliers] have flat: "m_rotationConditionRatio s2 = 0" by (simp add: cc)
  have var: "\<not> ComputeAxisVariance M s2 ! Suc 0 < m_axisVariance s2"
    using assms(7) core2 by (simp add: ComputeAxisVariance_def same_core_def)
  let ?t = "s2\<lparr>m_rejectReasonTag := ''rotation_no_deltas''\<rparr>"
  have core3: "same_core s ?t" using core2 by (simp add: same_core_def)
  obtain c where g: "guarded_solve M md ignoreOutliers s1 = (?t, c)" "\<not> cd_valid c" "cd_rapid c"
    using var flat assms(9) by (auto simp: guarded_solve_def cc)
  have "\<not> m_isValid ?t" using core3 assms(2) by (simp add: same_core_def)
  then have pc: "prior_check threshold (FInf False) (guarded_solve M md ignoreOutliers s1) = (?t, c)" by (simp add: prior_check_def g)
  have "e * threshold < RetargetingErrorRMS M (aff_translation (m_refToTargetPose ?t)) (m_estimatedTransformation ?t) ?t"
    using assms(8) vr(2) core3 same_core_measures(4) [OF core3] by (simp add: same_core_def)
  then have ic: "incremental_candidate M md threshold maxErr ignoreOutliers (FInf False) s = (?t, Some (\<lparr>cd_valid = True, cd_rapid = True,
      cd_error = e, cd_variance = cd_variance c, cd_calibration = CalibrateByRelPose M s\<rparr>, True))"
    using assms(4) v vr(1) g pc by (simp add: incremental_candidate_def relpose_stage_def)
  have "lock_stage M s = (s, False)" "prior_stage M s = (s, FInf False)" using assms(2,3) by (simp_all add: lock_stage_def prior_stage_def)
  from ComputeIncremental_unlocked [OF assms(1) this ic, of l] \<open>\<not> m_isValid ?t\<close> show ?thesis
    by (simp add: accept_candidate_result)
qed

section \<open>Witnesses\<close>

text \<open>A small interpretation of Eigen: no rotation is ever seen, the pose derived from the relative position is one metre off,
  the identity three.\<close>

definition demo_matrix_ops :: MatrixOps where
  "demo_matrix_ops = \<lparr>m3_mul = (\<lambda>a b. m3_identity), m3_vec = (\<lambda>a v. v), m3_inverse = (\<lambda>a. a), m3_det = (\<lambda>a. 1), m3_qr_solve = (\<lambda>a v. v),
     m3_jacobi_svd = (\<lambda>a. (a, v_zero, a)), m3_bdc_svd = (\<lambda>a. (a, v_zero, a)), m3_of_quat = (\<lambda>q. m3_identity), q_of_m3 = (\<lambda>a. q_identity),
     q_angle_axis = (\<lambda>a v. q_identity), m3_angle_axis = (\<lambda>a v. m3_identity), m3_eulerAngles210 = (\<lambda>a. v_zero)\<rparr>"

definition demo_fit_ops :: "(Vector3d \<Rightarrow> double) \<Rightarrow> FitOps" where
  "demo_fit_ops sq = \<lparr>v_squaredNorm = sq, cross_covariance = (\<lambda>a b. m3_identity), ls_qr_solve = (\<lambda>a. v_zero), ls_svd_solve = (\<lambda>a. v_zero),
     quat_gram = (\<lambda>qs. []), eig4 = (\<lambda>a. ([1, 1, 1, 1], [1, 0, 0, 0]))\<rparr>"

definition demo_affine_ops :: AffineOps where
  "demo_affine_ops = \<lparr>aff_rotation = aff_linear,
     aff_apply = (\<lambda>a p. if aff_translation a = v_zero then (Fin 9, 0, 0) else aff_translation a),
     aff_mul = (\<lambda>a b. a), aff_inverse = (\<lambda>a. a)\<rparr>"

definition demo_solver :: "(Vector3d \<Rightarrow> double) \<Rightarrow> SolverMath" where
  "demo_solver sq = \<lparr>v_add = (\<lambda>a b. v_zero), v_sub = (\<lambda>a b. a), v_scale = (\<lambda>v x. (Fin 1, 0, 0)), v_norm = (\<lambda>v. 0), q_mul = (\<lambda>a b. a),
     q_rot = (\<lambda>q v. v), q_normalized = (\<lambda>q. q), q_slerp = (\<lambda>a t b. a), q_angularDistance = (\<lambda>a b. 0), eigen_pi = lit 3,
     m_sin = (\<lambda>x. 0), m_cos = (\<lambda>x. 1), m_acos = (\<lambda>x. 0), m_exp = (\<lambda>x. 1), m_atan2 = (\<lambda>x y. 0), v_div = (\<lambda>v x. v), v_dot = (\<lambda>a b. 0),
     v_normalized = (\<lambda>v. v), q_conjugate = (\<lambda>q. q), q_dot = (\<lambda>a b. 1),
     mat = demo_matrix_ops, fit = demo_fit_ops sq, aff = demo_affine_ops\<rparr>"

definition demo_sample :: Sample where
  "demo_sample = \<lparr>s_ref = \<lparr>cp_rot = m3_identity, cp_trans = v_zero\<rparr>, s_target = \<lparr>cp_rot = m3_identity, cp_trans = v_zero\<rparr>,
     s_valid = True, s_timestamp = 0, s_refSpeed = 0, s_targetSpeed = 0, s_pairedMotionValid = True\<rparr>"

definition demo_calc :: "bool \<Rightarrow> int \<Rightarrow> Calc" where
  "demo_calc lock n = (Calc_new aff_identity v_zero)\<lparr>m_samples := replicate 6 demo_sample, c_lockRelativePosition := lock, m_consecutiveRejections := n\<rparr>"

definition demo_mode :: MathMode where
  "demo_mode = \<lparr>useUpstreamMath = False, useLegacyMath = False\<rparr>"

lemmas demo_solver_simps = demo_solver_def demo_matrix_ops_def demo_fit_ops_def demo_affine_ops_def

lemma demo_rel: "CalibrateByRelPose (demo_solver sq) s = \<lparr>aff_linear = m3_identity, aff_translation = (Fin 1, 0, 0)\<rparr>"
  by (simp add: CalibrateByRelPose_def average_poses_def demo_solver_simps Let_def)

lemma demo_valid: "valid_samples (demo_calc b n) = replicate 6 demo_sample"
  by (simp add: demo_calc_def demo_sample_def)

lemma small_ints: "fround 1 = (Fin 1 :: double)" "fround 2 = (Fin 2 :: double)" "fround 3 = (Fin 3 :: double)" "fround 4 = (Fin 4 :: double)"
  "fround 5 = (Fin 5 :: double)" "fround 6 = (Fin 6 :: double)" "fround 9 = (Fin 9 :: double)" "fround 18 = (Fin 18 :: double)"
  "fround 27 = (Fin 27 :: double)" "fround 36 = (Fin 36 :: double)" "fround 45 = (Fin 45 :: double)" "fround 54 = (Fin 54 :: double)"
  using fround_dyadic [of 1 0] fround_dyadic [of 2 0] fround_dyadic [of 3 0] fround_dyadic [of 4 0] fround_dyadic [of 5 0] fround_dyadic [of 6 0]
    fround_dyadic [of 9 0] fround_dyadic [of 18 0] fround_dyadic [of 27 0] fround_dyadic [of 36 0] fround_dyadic [of 45 0] fround_dyadic [of 54 0] by simp_all

lemma demo_errors:
  "sum_fp (replicate 6 (Fin x)) / of_integer 6 = (fround (6 * x / 6) :: double)" if "x = 0 \<or> x = 1 \<or> x = 9"
  using that by (auto simp: sum_fp_def numeral_eq_Suc of_integer_def zero_fp_def small_ints)

lemma demo_rms:
  "rms_of (demo_solver sq) (demo_calc b n) c =
     fp_sqrt (sum_fp (replicate 6 (sq (if aff_translation c = v_zero then (Fin 9, 0, 0) else aff_translation c))) / of_integer 6)"
  unfolding rms_of_def RetargetingErrorRMS_def demo_valid
  by (simp add: demo_solver_simps map_replicate_const numeral_eq_Suc)

text \<open>The root of the square of a small integer is exact.\<close>

lemma isqrt_square: "isqrt (n * n) = n"
proof -
  have "isqrt (n * n) * isqrt (n * n) \<le> n * n" "n * n < (isqrt (n * n) + 1) * (isqrt (n * n) + 1)" using isqrt_bounds by blast+
  then have "isqrt (n * n) \<le> n" "n < isqrt (n * n) + 1"
    by (simp_all only: power2_eq_square [symmetric] power2_nat_le_eq_le power_less_imp_less_base power_mono_iff)
  then show ?thesis by simp
qed

lemma fp_sqrt_square:
  assumes "0 < n" "0 \<le> root_scale 53 (of_nat (n * n))"
  shows "fp_sqrt (Fin (of_nat (n * n))) = (fround (of_nat n) :: double)"
proof -
  define k where "k = nat (root_scale 53 (of_nat (n * n)))"
  have rs: "root_scale 53 (of_nat (n * n)) = int k" using assms(2) by (simp add: k_def)
  have "of_nat (n * n) * 4 powi int k = (of_nat ((n * 2 ^ k) * (n * 2 ^ k)) :: rat)"
    by (simp add: power_int_of_nat power_mult_distrib [symmetric] flip: power_add mult_2)
  then have "fp_root 53 (of_nat (n * n)) = of_nat (n * 2 ^ k) * 2 powi (- int k)"
    unfolding fp_root_def rs by (simp only: floor_of_nat nat_int isqrt_square scaled_root_def if_True refl)
  also have "\<dots> = of_nat n" by (simp add: power_int_minus power_int_of_nat)
  finally show ?thesis using assms(1) by simp
qed

lemma sqrt_small: "fp_sqrt (Fin 0) = (Fin 0 :: double)" "fp_sqrt (Fin 1) = (Fin 1 :: double)" "fp_sqrt (Fin 9) = (Fin 3 :: double)"
proof -
  have "ilog2 1 = 0" "ilog2 9 = 3" by (rule ilog2_eqI; simp)+
  then show "fp_sqrt (Fin 1) = (Fin 1 :: double)" "fp_sqrt (Fin 9) = (Fin 3 :: double)"
    using fp_sqrt_square [of 1] fp_sqrt_square [of 3] by (simp_all add: root_scale_def small_ints)
qed simp

lemma demo_jitter: "sq v_zero = 0 \<Longrightarrow> SampleNoiseStdMagnitude (demo_solver sq) side (replicate 6 demo_sample) = 0"
  by (simp add: SampleNoiseStdMagnitude_def demo_solver_simps numeral_eq_Suc demo_sample_def sum_fp_def of_integer_def zero_fp_def lit_def small_ints
      sqrt_small [unfolded zero_fp_def])

lemma demo_gate: "sq v_zero = 0 \<Longrightarrow> rms_gate (demo_solver sq) (demo_calc b n) = lit 0.005"
proof -
  assume z: "sq v_zero = 0"
  obtain y where y: "(lit 0.005 :: double) = Fin y" "0 \<le> y" using lit_01 [of "0.005"] by auto
  show ?thesis unfolding rms_gate_def ReferenceJitter_def TargetJitter_def
    using demo_jitter [of sq, OF z] y by (simp add: demo_calc_def Let_def zero_fp_def sqrt_small lit_def small_ints std_max_def)
qed

lemma demo_never_turned: "never_turned (demo_solver sq) s"
proof -
  obtain y where "(lit 0.4 :: double) = Fin y" "0 \<le> y" using lit_01 [of "0.4"] by auto
  moreover have "AngleFromRotationMatrix3 (demo_solver sq) R = 0" for R
    by (cases "(demo_solver sq, R)" rule: AngleFromRotationMatrix3.cases) (simp add: demo_solver_def)
  ultimately show ?thesis by (simp add: never_turned_def DeltaRotationSamples_def Let_def zero_fp_def)
qed

lemma demo_small: "lit 0.005 < (Fin 1 :: double)" "\<not> lit 0.005 < (Fin 0 :: double)" "0 < RotationConditionMin" "\<not> Fin 1 < kHealthyPriorErrorMaxMeters"
proof -
  obtain y where y: "(lit 0.005 :: double) = Fin y" "0 \<le> y" "y \<le> 1 / 4"
    using lit_01 [of "0.005"] rnd_le_quarter [of "0.005"] by auto
  show "lit 0.005 < (Fin 1 :: double)" "\<not> lit 0.005 < (Fin 0 :: double)" using y by simp_all
  show "\<not> Fin 1 < kHealthyPriorErrorMaxMeters" using y by (simp add: kHealthyPriorErrorMaxMeters_def)
  have "(fround (1 / 32) :: double) \<le> fround 0.05" by (rule fround_mono) simp
  then show "0 < RotationConditionMin" using fround_dyadic [of 1 5] by (cases "lit 0.05 :: double") (auto simp: RotationConditionMin_def lit_def zero_fp_def)
qed

theorem rapid_correction_unvalidated_witness:
  "m_isValid (fst (ComputeIncremental (demo_solver vx) demo_mode (Fin 2) 0 False False (demo_calc False 0)))"
proof -
  let ?M = "demo_solver vx" and ?s = "demo_calc False 0"
  have r: "rms_of ?M ?s (CalibrateByRelPose ?M ?s) = Fin 1"
    using demo_errors [of 1] by (simp add: demo_rms demo_rel v_zero_def zero_fp_def sqrt_small small_ints del: fp_sqrt.simps)
  have "rms_gate ?M ?s < rms_of ?M ?s (CalibrateByRelPose ?M ?s)" using r demo_gate [of vx] demo_small by (simp add: v_zero_def)
  moreover have "RetargetingErrorRMS ?M (aff_translation (m_refToTargetPose ?s)) (m_estimatedTransformation ?s) ?s = Fin 3"
    using demo_errors [of 9] unfolding RetargetingErrorRMS_def demo_valid
    by (simp add: demo_solver_simps numeral_eq_Suc demo_calc_def Calc_new_def aff_identity_def sqrt_small small_ints del: fp_sqrt.simps)
  moreover have "\<not> ComputeAxisVariance ?M ?s ! 1 < m_axisVariance ?s"
    unfolding ComputeAxisVariance_def demo_valid
    by (simp add: demo_solver_simps numeral_eq_Suc demo_calc_def Calc_new_def zero_fp_def one_fp_def)
  ultimately show ?thesis
    using rapid_correction_unvalidated [of ?s ?M "Fin 2" demo_mode 0 False False] demo_never_turned [of vx ?s] demo_small r
    by (simp add: demo_calc_def Calc_new_def small_ints split: prod.splits)
qed

theorem nan_error_accepted_witness:
  "m_isValid (fst (ComputeIncremental (demo_solver (\<lambda>v. FNaN)) demo_mode (Fin 2) 0 False False (demo_calc True 0)))"
proof -
  let ?M = "demo_solver (\<lambda>v. FNaN)" and ?s = "demo_calc True 0"
  have "sum_fp (replicate 6 FNaN) = (FNaN :: double)" by (rule sum_fp_nan) simp
  then have "isnan (rms_of ?M ?s (CalibrateByRelPose ?M ?s))" by (simp add: demo_rms)
  from nan_error_accepted [OF _ _ this, of demo_mode "Fin 2" 0 False False] show ?thesis
    by (simp add: demo_calc_def split: prod.splits)
qed

lemma demo_exact: "\<not> rms_gate (demo_solver (\<lambda>v. 0)) (demo_calc b n) < rms_of (demo_solver (\<lambda>v. 0)) (demo_calc b n) c"
  using demo_errors [of 0] demo_gate [of "\<lambda>v. 0"] demo_small by (simp add: demo_rms zero_fp_def)

theorem lock_accept_keeps_rejections_witness:
  "m_consecutiveRejections (fst (ComputeIncremental (demo_solver (\<lambda>v. 0)) demo_mode (Fin 2) 0 False False (demo_calc True 49))) = 49"
  using lock_accept_keeps_rejections [OF _ _ demo_exact, of True 49 "Fin 1" demo_mode "Fin 2" 0 False False] demo_small
  by (simp add: demo_calc_def split: prod.splits)


lemma demo_fields: "m_samples (demo_calc b n) = replicate 6 demo_sample" "m_watchdogResets (demo_calc b n) = 0" "m_rotationFrozen (demo_calc b n) = []"
  by (simp_all add: demo_calc_def Calc_new_def)


theorem oneshot_outcome_witness:
  "\<exists>s'. ComputeOneshot (demo_solver vx) demo_mode False (demo_calc False 0) = (s', False) \<and> m_samples s' = replicate 6 demo_sample"
proof -
  obtain s' ok where c: "ComputeOneshot (demo_solver vx) demo_mode False (demo_calc False 0) = (s', ok)" by (rule prod.exhaust)
  let ?s = "(demo_calc False 0)\<lparr>m_samples := m_rotationFrozen (demo_calc False 0) @ m_samples (demo_calc False 0)\<rparr>"
  have "m_rotationConditionRatio (fst (ComputeCalibration (demo_solver vx) demo_mode False ?s)) = 0"
    using never_turned_flat [OF demo_never_turned] by blast
  then have "m_samples s' = replicate 6 demo_sample \<and> \<not> ok"
    using oneshot_outcome [OF c] by (auto simp: demo_fields split: prod.splits)
  then show ?thesis using c by auto
qed

end
