(* ===== verification/PosePath.thy ===== *)
theory PosePath
  imports PoseTransform
begin

text \<open>
  What the pose path of the driver guarantees: the shape of the state every message and every
  hook call keeps, the table of tracking-system fallbacks as a map, the split of ownership
  between the two overlays that write a device's slot, and what one pose update does to the
  pose it is given.
\<close>

section \<open>Updating one device\<close>

lemma upd_dev_simps [simp]:
  "deviceSystem (upd_dev i f s) = deviceSystem s" "lookupState (upd_dev i f s) = lookupState s"
  "lastLookupAttempt (upd_dev i f s) = lastLookupAttempt s"
  "systemFallbacks (upd_dev i f s) = systemFallbacks s" "qpcFreq (upd_dev i f s) = qpcFreq s"
  "alignmentSpeedParams (upd_dev i f s) = alignmentSpeedParams s"
  "debugTransform (upd_dev i f s) = debugTransform s" "debugRotation (upd_dev i f s) = debugRotation s"
  "shmem (upd_dev i f s) = shmem s" "length (transforms (upd_dev i f s)) = length (transforms s)"
  by (simp_all add: upd_dev_def)

lemma transforms_upd_dev [simp]:
  "i < length (transforms s) \<Longrightarrow> transforms (upd_dev i f s) ! j = (if j = i then f (transforms s ! i) else transforms s ! j)"
  by (simp add: upd_dev_def nth_list_update)

lemma upd_slot_simps [simp]:
  "transforms (upd_slot i f s) = transforms s" "deviceSystem (upd_slot i f s) = deviceSystem s"
  "lookupState (upd_slot i f s) = lookupState s" "lastLookupAttempt (upd_slot i f s) = lastLookupAttempt s"
  "qpcFreq (upd_slot i f s) = qpcFreq s" "shmem (upd_slot i f s) = shmem s"
  "length (systemFallbacks (upd_slot i f s)) = length (systemFallbacks s)"
  by (simp_all add: upd_slot_def)

lemma telemetry_simps [simp]:
  "transforms (telemetry f s) = transforms s" "deviceSystem (telemetry f s) = deviceSystem s"
  "lookupState (telemetry f s) = lookupState s" "lastLookupAttempt (telemetry f s) = lastLookupAttempt s"
  "systemFallbacks (telemetry f s) = systemFallbacks s" "qpcFreq (telemetry f s) = qpcFreq s"
  "alignmentSpeedParams (telemetry f s) = alignmentSpeedParams s"
  by (simp_all add: telemetry_def)

section \<open>The invariant\<close>

text \<open>The arrays have their declared sizes; a device's motion estimate is in the unit interval; its
  tracking system is known exactly when the lookup state says so; occupied fallback slots hold
  NUL-padded, non-empty, pairwise different names.\<close>

definition name_ok :: "string \<Rightarrow> bool" where
  "name_ok n \<longleftrightarrow> nul_free n \<and> 0 < length n \<and> length n \<le> MaxTrackingSystemNameLen"

definition padded :: "string \<Rightarrow> string" where
  "padded n = n @ replicate (MaxTrackingSystemNameLen - length n) (CHR 0x00)"

definition slot_ok :: "FallbackSlot \<Rightarrow> bool" where
  "slot_ok sl \<longleftrightarrow> (occupied sl \<longrightarrow> (\<exists>n. name_ok n \<and> system_name sl = padded n))"

definition slots_ok :: "FallbackSlot list \<Rightarrow> bool" where
  "slots_ok sls \<longleftrightarrow> length sls = MaxFallbackSlots \<and> (\<forall>sl \<in> set sls. slot_ok sl) \<and>
     (\<forall>i < length sls. \<forall>j < length sls. occupied (sls ! i) \<longrightarrow> occupied (sls ! j) \<longrightarrow>
        system_name (sls ! i) = system_name (sls ! j) \<longrightarrow> i = j)"

definition devs_ok :: "DeviceTransform list \<Rightarrow> bool" where
  "devs_ok ts \<longleftrightarrow> length ts = k_unMaxTrackedDeviceCount \<and> (\<forall>t \<in> set ts. in01 (smartMotionEma t))"

definition lookup_ok :: "string list \<Rightarrow> LookupState list \<Rightarrow> bool" where
  "lookup_ok sys ls \<longleftrightarrow> length sys = k_unMaxTrackedDeviceCount \<and> length ls = k_unMaxTrackedDeviceCount \<and>
     (\<forall>i < k_unMaxTrackedDeviceCount. ls ! i = Cached \<longleftrightarrow> sys ! i \<noteq> [])"

definition pose_inv :: "PoseState \<Rightarrow> bool" where
  "pose_inv s \<longleftrightarrow> devs_ok (transforms s) \<and> lookup_ok (deviceSystem s) (lookupState s) \<and>
     length (lastLookupAttempt s) = k_unMaxTrackedDeviceCount \<and> slots_ok (systemFallbacks s)"

lemma pose_inv_new: "pose_inv (PoseState_new E freq d)"
  by (auto simp: pose_inv_def PoseState_new_def devs_ok_def lookup_ok_def slots_ok_def slot_ok_def
      DeviceTransform_new_def FallbackSlot_new_def zero_fp_def)

lemma devs_ok_update: "devs_ok ts \<Longrightarrow> in01 (smartMotionEma t) \<Longrightarrow> devs_ok (ts[i := t])"
  by (auto simp: devs_ok_def dest: set_list_updateD)

lemma devs_ok_nth: "devs_ok ts \<Longrightarrow> i < k_unMaxTrackedDeviceCount \<Longrightarrow> in01 (smartMotionEma (ts ! i))"
  by (simp add: devs_ok_def)

lemma pose_inv_upd_dev [inv_intros]:
  assumes "pose_inv s" "i < k_unMaxTrackedDeviceCount"
    "in01 (smartMotionEma (transforms s ! i)) \<Longrightarrow> in01 (smartMotionEma (f (transforms s ! i)))"
  shows "pose_inv (upd_dev i f s)"
  using assms devs_ok_nth [of "transforms s" i]
  by (auto simp: pose_inv_def upd_dev_def intro!: devs_ok_update)

lemma pose_inv_shmem [simp]: "pose_inv (s\<lparr>shmem := d\<rparr>) = pose_inv s" "pose_inv (telemetry f s) = pose_inv s"
  by (simp_all add: pose_inv_def telemetry_def)

section \<open>Messages keep the invariant\<close>

lemma push_keeps [simp]:
  "smartMotionEma (push_translation m tf) = smartMotionEma tf" "smartMotionEma (push_rotation m tf) = smartMotionEma tf"
  "smartMotionEma (set_motion_gate b tf) = smartMotionEma tf" "smartMotionEma (push_scale_quash m tf) = smartMotionEma tf"
  "smartMotionEma (snap_on_transition b tf) = smartMotionEma tf"
  "dt_enabled (push_translation m tf) = dt_enabled tf" "dt_enabled (push_rotation m tf) = dt_enabled tf"
  "dt_enabled (set_motion_gate b tf) = dt_enabled tf" "dt_enabled (push_scale_quash m tf) = dt_enabled tf"
  "dt_enabled (snap_on_transition b tf) = dt_enabled tf"
  by (simp_all add: push_translation_def push_rotation_def set_motion_gate_def push_scale_quash_def
      snap_on_transition_def Let_def)

lemma smartMotionEma_set_transform [simp]: "smartMotionEma (apply_set_transform now m tf) = smartMotionEma tf"
  by (simp add: apply_set_transform_def Let_def)

lemma Provider_SetDeviceTransform_inv: "pose_inv s \<Longrightarrow> pose_inv (Provider_SetDeviceTransform now m s)"
  unfolding Provider_SetDeviceTransform_def Let_def
  by (auto simp: set_device_system_def lookup_ok_def nth_list_update pose_inv_def upd_dev_def
      intro!: devs_ok_update devs_ok_nth)

lemma Provider_SetDevicePrediction_inv: "pose_inv s \<Longrightarrow> pose_inv (Provider_SetDevicePrediction cfg s)"
  by (auto simp: Provider_SetDevicePrediction_def apply_set_prediction_def Let_def zero_fp_def intro!: pose_inv_upd_dev)

section \<open>The fallback table as a map\<close>

lemma length_padded [simp]: "name_ok n \<Longrightarrow> length (padded n) = MaxTrackingSystemNameLen"
  by (simp add: padded_def name_ok_def)

lemma takeWhile_padded: "name_ok n \<Longrightarrow> takeWhile (\<lambda>c. c \<noteq> CHR 0x00) (padded n) = n"
  by (simp add: padded_def name_ok_def nul_free_def takeWhile_append2)

lemma padded_inj: "name_ok a \<Longrightarrow> name_ok b \<Longrightarrow> padded a = padded b \<longleftrightarrow> a = b"
  by (metis takeWhile_padded)

lemma padded_prefix:
  assumes "name_ok n" "name_ok k" "take (length n) (padded k) = n"
    "length n = MaxTrackingSystemNameLen \<or> padded k ! length n = CHR 0x00"
  shows "n = k"
proof (cases "length n < length k")
  case True
  then have "length n \<noteq> MaxTrackingSystemNameLen" "padded k ! length n = k ! length n"
    using assms(2) by (simp_all add: name_ok_def padded_def nth_append)
  then show ?thesis using assms(2,4) True by (auto simp: name_ok_def nul_free_def)
next
  case False
  have "\<not> length k < length n"
  proof
    assume l: "length k < length n"
    have "padded k ! length k = n ! length k"
      using arg_cong [OF assms(3), of "\<lambda>x. x ! length k"] l by simp
    moreover have "padded k ! length k = CHR 0x00"
      using l assms(1) by (simp add: padded_def nth_append name_ok_def)
    ultimately have "CHR 0x00 \<in> set n" using l nth_mem [of "length k" n] by metis
    then show False using assms(1) by (auto simp: name_ok_def nul_free_def)
  qed
  then have "length k = length n" using False by linarith
  then show ?thesis using assms(3) by (simp add: padded_def)
qed

lemma slot_matches_iff:
  assumes "slot_ok sl" "name_ok n"
  shows "slot_matches n sl \<longleftrightarrow> occupied sl \<and> system_name sl = padded n"
proof
  assume "slot_matches n sl"
  then show "occupied sl \<and> system_name sl = padded n"
    using assms padded_prefix by (fastforce simp: slot_matches_def slot_ok_def)
next
  assume "occupied sl \<and> system_name sl = padded n"
  moreover have "length n = MaxTrackingSystemNameLen \<or> padded n ! length n = CHR 0x00"
    using assms(2) by (cases "length n = MaxTrackingSystemNameLen") (simp_all add: padded_def nth_append name_ok_def)
  moreover have "take (length n) (padded n) = n" by (simp add: padded_def)
  ultimately show "slot_matches n sl" by (simp add: slot_matches_def)
qed

definition slot_holds :: "FallbackSlot list \<Rightarrow> string \<Rightarrow> nat \<Rightarrow> bool" where
  "slot_holds sls n j \<longleftrightarrow> j < length sls \<and> occupied (sls ! j) \<and> system_name (sls ! j) = padded n"

lemma slot_holds_unique: "slots_ok sls \<Longrightarrow> slot_holds sls n i \<Longrightarrow> slot_holds sls n j \<Longrightarrow> i = j"
  by (simp add: slots_ok_def slot_holds_def)

lemma FindFallbackSlot_iff:
  assumes "slots_ok (systemFallbacks s)" "name_ok n"
  shows "FindFallbackSlot n s = Some j \<longleftrightarrow> slot_holds (systemFallbacks s) n j"
proof -
  let ?sls = "systemFallbacks s"
  have m: "slot_matches n (?sls ! i) \<longleftrightarrow> slot_holds ?sls n i" if "i < length ?sls" for i
    using that assms by (simp add: slot_matches_iff slots_ok_def slot_holds_def)
  have f: "FindFallbackSlot n s = find_index (slot_matches n) ?sls"
    using assms(2) by (simp add: FindFallbackSlot_def name_ok_def)
  show ?thesis
  proof
    assume "FindFallbackSlot n s = Some j"
    then show "slot_holds ?sls n j" using find_index_SomeD f m by metis
  next
    assume h: "slot_holds ?sls n j"
    then have "j < length ?sls" by (simp add: slot_holds_def)
    then show "FindFallbackSlot n s = Some j"
      unfolding f using m h slot_holds_unique [OF assms(1)] by (intro find_index_unique) auto
  qed
qed

definition fb_map :: "PoseState \<Rightarrow> string \<Rightarrow> FallbackTransform option" where
  "fb_map s n = (if name_ok n then map_option (\<lambda>j. slot_tf (systemFallbacks s ! j)) (FindFallbackSlot n s) else None)"

lemma fb_map_iff:
  assumes "slots_ok (systemFallbacks s)"
  shows "fb_map s n = Some tf \<longleftrightarrow>
    name_ok n \<and> (\<exists>j. slot_holds (systemFallbacks s) n j \<and> slot_tf (systemFallbacks s ! j) = tf)"
  using FindFallbackSlot_iff [OF assms, of n] by (auto simp: fb_map_def)

lemma fb_map_eqI:
  assumes "slots_ok (systemFallbacks s)"
    "\<And>n tf. name_ok n \<Longrightarrow> (\<exists>j. slot_holds (systemFallbacks s) n j \<and> slot_tf (systemFallbacks s ! j) = tf) \<longleftrightarrow> f n = Some tf"
    "\<And>n. \<not> name_ok n \<Longrightarrow> f n = None"
  shows "fb_map s = f"
proof
  fix n
  have "fb_map s n = Some tf \<longleftrightarrow> f n = Some tf" for tf
    using fb_map_iff [OF assms(1), of n tf] assms(2) [of n tf] assms(3) [of n] by (cases "name_ok n") auto
  then show "fb_map s n = f n" by (metis option.exhaust)
qed

lemma upd_slot_nth [simp]:
  assumes "j < length (systemFallbacks s)"
  shows "occupied (systemFallbacks (upd_slot i f s) ! j) = occupied (systemFallbacks s ! j)"
    "system_name (systemFallbacks (upd_slot i f s) ! j) = system_name (systemFallbacks s ! j)"
  using assms by (cases "i = j"; simp add: upd_slot_def)+

lemma slots_ok_upd_slot: "slots_ok (systemFallbacks s) \<Longrightarrow> slots_ok (systemFallbacks (upd_slot i f s))"
  by (simp add: slots_ok_def slot_ok_def all_set_conv_all_nth)

lemma slot_holds_upd_slot: "slot_holds (systemFallbacks (upd_slot i f s)) n j \<longleftrightarrow> slot_holds (systemFallbacks s) n j"
  by (auto simp: slot_holds_def)

lemma slot_tf_upd_slot:
  "i < length (systemFallbacks s) \<Longrightarrow> slot_tf (systemFallbacks (upd_slot i f s) ! j) =
     (if j = i then f (slot_tf (systemFallbacks s ! i)) else slot_tf (systemFallbacks s ! j))"
  by (simp add: upd_slot_def nth_list_update)

lemma fb_map_upd_slot:
  assumes "slots_ok (systemFallbacks s)" "name_ok k" "FindFallbackSlot k s = Some i"
  shows "fb_map (upd_slot i f s) = (fb_map s)(k \<mapsto> f (slot_tf (systemFallbacks s ! i)))"
proof (rule fb_map_eqI [OF slots_ok_upd_slot [OF assms(1)]])
  have i: "slot_holds (systemFallbacks s) k i" using assms FindFallbackSlot_iff by simp
  then have il: "i < length (systemFallbacks s)" by (simp add: slot_holds_def)
  fix n tf assume n: "name_ok n"
  let ?u = "upd_slot i f s"
  have u: "slot_holds (systemFallbacks s) k j \<longleftrightarrow> j = i" for j
    using i slot_holds_unique [OF assms(1) i] by blast
  have o: "slot_tf (systemFallbacks ?u ! j) = slot_tf (systemFallbacks s ! j)"
    if "slot_holds (systemFallbacks s) n j" "n \<noteq> k" for j
    using that i n assms(2) by (auto simp: slot_tf_upd_slot [OF il] slot_holds_def padded_inj)
  show "(\<exists>j. slot_holds (systemFallbacks ?u) n j \<and> slot_tf (systemFallbacks ?u ! j) = tf) \<longleftrightarrow>
      ((fb_map s)(k \<mapsto> f (slot_tf (systemFallbacks s ! i)))) n = Some tf"
  proof (cases "n = k")
    case True
    then show ?thesis by (simp add: slot_holds_upd_slot u slot_tf_upd_slot [OF il])
  next
    case False
    then show ?thesis using n o by (simp add: slot_holds_upd_slot fb_map_iff [OF assms(1)] cong: conj_cong)
  qed
qed (use assms(2) in \<open>auto simp: fb_map_def\<close>)

section \<open>Claiming a slot\<close>

lemma claim_slot_padded: "system_name (claim_slot n) = padded n" "occupied (claim_slot n)"
  "slot_tf (claim_slot n) = FallbackTransform_new"
  by (simp_all add: claim_slot_def padded_def)

lemma slot_holds_claim:
  assumes "i < length sls" "\<not> occupied (sls ! i)" "name_ok k" "name_ok n"
  shows "slot_holds (sls[i := claim_slot k]) n j \<longleftrightarrow> (if j = i then n = k else slot_holds sls n j)"
  using assms padded_inj by (auto simp: slot_holds_def nth_list_update claim_slot_padded)

lemma slots_ok_claim:
  assumes "slots_ok sls" "i < length sls" "\<not> occupied (sls ! i)" "name_ok k" "\<And>j. \<not> slot_holds sls k j"
  shows "slots_ok (sls[i := claim_slot k])"
  unfolding slots_ok_def
proof (intro conjI ballI allI impI)
  show "length (sls[i := claim_slot k]) = MaxFallbackSlots" using assms(1) by (simp add: slots_ok_def)
  show "slot_ok sl" if "sl \<in> set (sls[i := claim_slot k])" for sl
    using set_list_updateD [OF that] assms(1,4) by (auto simp: slots_ok_def slot_ok_def claim_slot_padded)
  have new: "False" if "j < length sls" "j \<noteq> i" "occupied (sls ! j)" "system_name (sls ! j) = padded k" for j
    using that assms(5) by (auto simp: slot_holds_def)
  show "a = b" if "a < length (sls[i := claim_slot k])" "b < length (sls[i := claim_slot k])"
    "occupied (sls[i := claim_slot k] ! a)" "occupied (sls[i := claim_slot k] ! b)"
    "system_name (sls[i := claim_slot k] ! a) = system_name (sls[i := claim_slot k] ! b)" for a b
    using that assms(1,2) new [of a] new [of b]
    by (auto simp: nth_list_update claim_slot_padded slots_ok_def split: if_splits)
qed

text \<open>The number of names in the table is the number of occupied slots.\<close>

lemma card_dom_fb_map:
  assumes "slots_ok (systemFallbacks s)"
  shows "card (dom (fb_map s)) = card {j. j < MaxFallbackSlots \<and> occupied (systemFallbacks s ! j)}"
proof (rule bij_betw_same_card [where f = "\<lambda>n. the (FindFallbackSlot n s)"], rule bij_betwI')
  let ?h = "slot_holds (systemFallbacks s)"
  have len: "length (systemFallbacks s) = MaxFallbackSlots" using assms by (simp add: slots_ok_def)
  have D: "\<exists>j. FindFallbackSlot n s = Some j \<and> ?h n j \<and> name_ok n" if "n \<in> dom (fb_map s)" for n
    using that FindFallbackSlot_iff [OF assms, of n] by (auto simp: fb_map_def split: if_splits)
  show "the (FindFallbackSlot x s) = the (FindFallbackSlot y s) \<longleftrightarrow> x = y"
    if "x \<in> dom (fb_map s)" "y \<in> dom (fb_map s)" for x y
    using D [OF that(1)] D [OF that(2)] by (auto simp: slot_holds_def padded_inj)
  show "the (FindFallbackSlot x s) \<in> {j. j < MaxFallbackSlots \<and> occupied (systemFallbacks s ! j)}"
    if "x \<in> dom (fb_map s)" for x using D [OF that] len by (auto simp: slot_holds_def)
  show "\<exists>x \<in> dom (fb_map s). y = the (FindFallbackSlot x s)"
    if y: "y \<in> {j. j < MaxFallbackSlots \<and> occupied (systemFallbacks s ! j)}" for y
  proof -
    have "slot_ok (systemFallbacks s ! y)" using y assms len by (auto simp: slots_ok_def)
    then obtain n where n: "name_ok n" "?h n y" using y len by (auto simp: slot_ok_def slot_holds_def)
    then have "FindFallbackSlot n s = Some y" using FindFallbackSlot_iff [OF assms] by blast
    then show ?thesis using n(1) by (intro bexI [of _ n]) (auto simp: fb_map_def)
  qed
qed

section \<open>Setting a fallback\<close>

text \<open>The contract of the table: a map from names to fallbacks that never holds more than
  \<open>MaxFallbackSlots\<close> names. A name stays in it once it is in, disabled or not.\<close>

definition spec_set_fallback :: "SetTrackingSystemFallback \<Rightarrow> (string \<rightharpoonup> FallbackTransform) \<Rightarrow> string \<rightharpoonup> FallbackTransform" where
  "spec_set_fallback m M = (let k = stf_system_name m in
     if \<not> stf_enabled m then M(k := map_option (\<lambda>tf. tf\<lparr>fb_enabled := False\<rparr>) (M k))
     else if k \<in> dom M \<or> card (dom M) < MaxFallbackSlots
     then M(k \<mapsto> fallback_of m (case M k of None \<Rightarrow> FallbackTransform_new | Some tf \<Rightarrow> tf)) else M)"

lemma fb_map_cong: "systemFallbacks s = systemFallbacks s' \<Longrightarrow> fb_map s = fb_map s'"
  by (simp add: fb_map_def fun_eq_iff FindFallbackSlot_def)

lemma drop_followers_simps [simp]:
  "systemFallbacks (drop_followers now n s) = systemFallbacks s" "deviceSystem (drop_followers now n s) = deviceSystem s"
  "lookupState (drop_followers now n s) = lookupState s"
  "lastLookupAttempt (drop_followers now n s) = lastLookupAttempt s"
  by (simp_all add: drop_followers_def)

lemma transforms_drop_followers:
  "i < k_unMaxTrackedDeviceCount \<Longrightarrow> transforms (drop_followers now n s) ! i =
     (if fallbackActive (transforms s ! i) \<and> deviceSystem s ! i = n
      then drop_follower (now i) (transforms s ! i) else transforms s ! i)"
  by (simp add: drop_followers_def Let_def)

lemma drop_follower_ema [simp]: "smartMotionEma (drop_follower now tf) = smartMotionEma tf"
  by (simp add: drop_follower_def)

lemma drop_followers_inv: "pose_inv s \<Longrightarrow> pose_inv (drop_followers now n s)"
  by (auto simp: pose_inv_def devs_ok_def drop_followers_def Let_def)

lemma upd_slot_inv: "pose_inv s \<Longrightarrow> pose_inv (upd_slot i f s)"
  by (simp add: pose_inv_def slots_ok_upd_slot)

lemma FindFallbackSlot_None:
  assumes "slots_ok (systemFallbacks s)" "name_ok k" "FindFallbackSlot k s = None"
  shows "\<not> slot_holds (systemFallbacks s) k j"
  using assms FindFallbackSlot_iff [OF assms(1,2), of j] by simp

text \<open>A free slot, and the table with a name claimed there.\<close>

lemma claim_free:
  assumes "pose_inv s" "name_ok k" "FindFallbackSlot k s = None"
    "find_index (\<lambda>sl. \<not> occupied sl) (systemFallbacks s) = Some i"
  defines "s1 \<equiv> s\<lparr>systemFallbacks := (systemFallbacks s)[i := claim_slot k]\<rparr>"
  shows "pose_inv s1" "FindFallbackSlot k s1 = Some i" "slot_tf (systemFallbacks s1 ! i) = FallbackTransform_new"
    "fb_map s1 = (fb_map s)(k \<mapsto> FallbackTransform_new)" "card (dom (fb_map s)) < MaxFallbackSlots"
proof -
  let ?sls = "systemFallbacks s"
  have ok: "slots_ok ?sls" using assms(1) by (simp add: pose_inv_def)
  have i: "i < length ?sls" "\<not> occupied (?sls ! i)" using find_index_SomeD [OF assms(4)] by auto
  have no: "\<not> slot_holds ?sls k j" for j using FindFallbackSlot_None [OF ok assms(2,3)] .
  have ok1: "slots_ok (systemFallbacks s1)" using slots_ok_claim [OF ok i assms(2) no] by (simp add: s1_def)
  then show "pose_inv s1" using assms(1) by (simp add: pose_inv_def s1_def)
  have h: "slot_holds (systemFallbacks s1) n j \<longleftrightarrow> (if j = i then n = k else slot_holds ?sls n j)"
    if "name_ok n" for n j using slot_holds_claim [OF i assms(2) that] by (simp add: s1_def)
  show "FindFallbackSlot k s1 = Some i" using FindFallbackSlot_iff [OF ok1 assms(2)] h [OF assms(2)] by simp
  show tf: "slot_tf (systemFallbacks s1 ! i) = FallbackTransform_new" using i by (simp add: s1_def claim_slot_padded)
  have free: "\<not> slot_holds ?sls n i" for n using i by (simp add: slot_holds_def)
  show "fb_map s1 = (fb_map s)(k \<mapsto> FallbackTransform_new)"
  proof (rule fb_map_eqI [OF ok1])
    fix n t assume n: "name_ok n"
    show "(\<exists>j. slot_holds (systemFallbacks s1) n j \<and> slot_tf (systemFallbacks s1 ! j) = t) \<longleftrightarrow>
        ((fb_map s)(k \<mapsto> FallbackTransform_new)) n = Some t"
    proof (cases "n = k")
      case True
      then have "slot_holds (systemFallbacks s1) n j \<longleftrightarrow> j = i" for j using h [OF n, of j] no by simp
      then show ?thesis using True tf by simp
    next
      case False
      have "slot_holds (systemFallbacks s1) n j \<longleftrightarrow> slot_holds ?sls n j" for j
        using h [OF n, of j] False free by (cases "j = i") auto
      moreover have "slot_holds ?sls n j \<Longrightarrow> systemFallbacks s1 ! j = ?sls ! j" for j
        using free by (cases "j = i") (auto simp: s1_def)
      ultimately show ?thesis using False n by (simp add: fb_map_iff [OF ok] cong: conj_cong)
    qed
  qed (use assms(2) in \<open>auto simp: fb_map_def\<close>)
  have "{j. j < MaxFallbackSlots \<and> occupied (?sls ! j)} \<subset> {..<MaxFallbackSlots}"
    using i ok by (auto simp: slots_ok_def)
  then have "card {j. j < MaxFallbackSlots \<and> occupied (?sls ! j)} < card {..<MaxFallbackSlots}"
    by (intro psubset_card_mono) simp_all
  then show "card (dom (fb_map s)) < MaxFallbackSlots" by (simp add: card_dom_fb_map [OF ok])
qed

lemma table_full:
  assumes "slots_ok (systemFallbacks s)" "find_index (\<lambda>sl. \<not> occupied sl) (systemFallbacks s) = None"
  shows "card (dom (fb_map s)) = MaxFallbackSlots"
proof -
  have "{j. j < MaxFallbackSlots \<and> occupied (systemFallbacks s ! j)} = {..<MaxFallbackSlots}"
    using assms by (auto simp: slots_ok_def)
  then show ?thesis by (simp add: card_dom_fb_map [OF assms(1)])
qed

lemma fb_map_find:
  "name_ok k \<Longrightarrow> fb_map s k = map_option (\<lambda>j. slot_tf (systemFallbacks s ! j)) (FindFallbackSlot k s)"
  by (simp add: fb_map_def)

lemma Provider_SetTrackingSystemFallback_spec:
  assumes "pose_inv s" "name_ok (stf_system_name m)"
  shows "pose_inv (Provider_SetTrackingSystemFallback now m s) \<and>
    fb_map (Provider_SetTrackingSystemFallback now m s) = spec_set_fallback m (fb_map s)"
proof -
  let ?k = "stf_system_name m"
  have ok: "slots_ok (systemFallbacks s)" using assms(1) by (simp add: pose_inv_def)
  have k: "?k \<noteq> []" "length ?k \<le> MaxTrackingSystemNameLen" using assms(2) by (auto simp: name_ok_def)
  note find = fb_map_find [OF assms(2), of s]
  show ?thesis
  proof (cases "FindFallbackSlot ?k s")
    case None
    then have M: "fb_map s ?k = None" using find by simp
    show ?thesis
    proof (cases "find_index (\<lambda>sl. \<not> occupied sl) (systemFallbacks s)")
      case full: None
      have "card (dom (fb_map s)) = MaxFallbackSlots" by (rule table_full [OF ok full])
      moreover have "fb_map (drop_followers now ?k s) = fb_map s" by (rule fb_map_cong) simp
      ultimately show ?thesis using None M k full assms(1) drop_followers_inv [OF assms(1)]
        by (auto simp: Provider_SetTrackingSystemFallback_def spec_set_fallback_def AcquireFallbackSlot_def Let_def
            simp del: find_index_None_iff)
    next
      case (Some i)
      note c = claim_free [OF assms None Some]
      have ok1: "slots_ok (systemFallbacks (s\<lparr>systemFallbacks := (systemFallbacks s)[i := claim_slot ?k]\<rparr>))"
        using c(1) by (simp add: pose_inv_def)
      have "fb_map (drop_followers now ?k s) = fb_map s" by (rule fb_map_cong) simp
      then show ?thesis using None M Some k c drop_followers_inv [OF assms(1)] upd_slot_inv [OF c(1)]
          fb_map_upd_slot [OF ok1 assms(2) c(2), of "fallback_of m"]
        by (auto simp: Provider_SetTrackingSystemFallback_def spec_set_fallback_def AcquireFallbackSlot_def Let_def
            simp del: find_index_None_iff)
    qed
  next
    case (Some i)
    then have M: "fb_map s ?k = Some (slot_tf (systemFallbacks s ! i))" using find by simp
    note u = fb_map_upd_slot [OF ok assms(2) Some]
    have d: "fb_map (drop_followers now ?k s') = fb_map s'" for s' by (rule fb_map_cong) simp
    show ?thesis using Some M k u [of "fallback_of m"] u [of "\<lambda>tf. tf\<lparr>fb_enabled := False\<rparr>"] d
        upd_slot_inv [OF assms(1)] drop_followers_inv
      by (auto simp: Provider_SetTrackingSystemFallback_def spec_set_fallback_def AcquireFallbackSlot_def Let_def
            simp del: find_index_None_iff)
  qed
qed

section \<open>Prediction suppression\<close>

lemma vec_length_nonneg: "vec_finite v \<Longrightarrow> 0 \<le> vec_length v"
  by (auto simp: vec_finite_def vec_length_def intro!: fp_sqrt_nonneg fp_add_nonneg fp_square_nonneg split: prod.splits)

text \<open>The quotient of the ramp is a number: the speed is not NaN and the span is positive.\<close>

lemma ramp_not_nan:
  assumes "0 \<le> v" "isfinite still" "pos_fin w"
  shows "\<not> isnan ((v - still) / w :: double)"
  using assms by (cases v; cases still; cases "fround (case v of Fin a \<Rightarrow> a - (case still of Fin b \<Rightarrow> b) | _ \<Rightarrow> 0) :: double")
    (auto simp: minus_fp_def zero_fp_def pos_fin_def)

lemma smart_spans:
  "isfinite kSmartLinearStill" "pos_fin (kSmartLinearMoving - kSmartLinearStill)"
  "isfinite kSmartAngularStill" "pos_fin (kSmartAngularMoving - kSmartAngularStill)"
proof -
  have two: "(lit 2 :: double) = Fin 2" using fround_of_int [of 2, where 'p = 53] by (simp add: lit_def)
  note l = lit_01 [of "5 / 100"] lit_01 [of "6 / 10"] lit_01 [of "1 / 10"] rnd_le_quarter [of "5 / 100"]
    rnd_ge_half [of "6 / 10"] rnd_le_quarter [of "1 / 10"]
  show "isfinite kSmartLinearStill" "isfinite kSmartAngularStill"
    using l by (simp_all add: kSmartLinearStill_def kSmartAngularStill_def)
  show "pos_fin (kSmartLinearMoving - kSmartLinearStill)" "pos_fin (kSmartAngularMoving - kSmartAngularStill)"
    unfolding kSmartLinearStill_def kSmartLinearMoving_def kSmartAngularStill_def kSmartAngularMoving_def two minus_fp_def
    using l by (simp_all add: fround_pos)
qed

lemma ComputeSmartMotionRamp_in01: "in01 (ComputeSmartMotionRamp pose)"
proof (cases "vec_finite (vecVelocity pose) \<and> vec_finite (vecAngularVelocity pose)")
  case True
  then show ?thesis unfolding ComputeSmartMotionRamp_def Let_def
    using ramp_not_nan [OF vec_length_nonneg smart_spans(1,2)] ramp_not_nan [OF vec_length_nonneg smart_spans(3,4)]
    by (simp add: std_max_in01 clamp_in01)
qed (auto simp: ComputeSmartMotionRamp_def zero_fp_def)

lemma kSmartEmaAlpha_01: "in01 kSmartEmaAlpha" "fp_rep kSmartEmaAlpha"
  using lit_01 [of "15 / 100"] lit_rep [of "15 / 100"] by (simp_all add: kSmartEmaAlpha_def)

lemma base_factor_in01:
  assumes "sm \<le> (100 :: byte)"
  shows "in01 (1 - of_integer (uint sm) / lit 100 :: double)"
proof (rule in01_compl)
  have s: "0 \<le> uint sm" "uint sm \<le> 100" using assms by (simp_all add: word_le_def)
  have h: "(lit 100 :: double) = Fin 100" using fround_of_int [of 100, where 'p = 53] by (simp add: lit_def)
  define n where "n = uint sm"
  have "(of_integer n :: double) = Fin (of_int n)"
    using fround_of_int [of n, where 'p = 53] s by (simp add: of_integer_def n_def)
  moreover have "in01 (fround (of_int n / 100) :: double)" using s by (intro fround_in01) (simp_all add: n_def [symmetric])
  ultimately show "in01 (of_integer (uint sm) / lit 100 :: double)" by (simp add: h n_def [symmetric])
qed

lemma prediction_factor_in01:
  assumes "in01 (smartMotionEma tf)" "prediction_factor sm pose tf = (f, tf')"
  shows "in01 f \<and> in01 (smartMotionEma tf') \<and> (\<exists>e. tf' = tf\<lparr>smartMotionEma := e\<rparr>)"
proof -
  have b: "in01 (1 - of_integer (uint (if sm > 100 then 100 else sm)) / lit 100 :: double)"
    by (rule base_factor_in01) (simp add: not_less)
  have e: "in01 ((1 - kSmartEmaAlpha) * smartMotionEma tf + kSmartEmaAlpha * ComputeSmartMotionRamp pose)"
    using assms(1) by (intro in01_convex kSmartEmaAlpha_01 ComputeSmartMotionRamp_in01)
  show ?thesis
  proof (cases "smartEnabled tf")
    case True
    then show ?thesis using assms(2) b e in01_lift [OF b e] by (auto simp: prediction_factor_def Let_def)
  next
    case False
    then have "tf' = tf\<lparr>smartMotionEma := smartMotionEma tf\<rparr>" using assms(2) by (simp add: prediction_factor_def Let_def)
    then show ?thesis using assms b False
      by (auto simp: prediction_factor_def Let_def intro!: exI [of _ "smartMotionEma tf"])
  qed
qed

lemma clamp_lerp_in01: "in01 (clamp_lerp l)"
  by (cases l) (auto simp: clamp_lerp_def Let_def in01_def zero_fp_def one_fp_def)

section \<open>The hook keeps the invariant\<close>

text \<open>Other threads only run the provider's own operations while the mutex is free, so what they do
  keeps the invariant.\<close>

definition unlocked_ok :: "PoseEnv \<Rightarrow> bool" where
  "unlocked_ok env \<longleftrightarrow> (\<forall>t. pose_inv t \<longrightarrow> pose_inv (while_unlocked env t))"

lemma blend_motion_keeps:
  "smartMotionEma (snd (blend_motion E wp (l, d))) = smartMotionEma d"
  "targetTransform (snd (blend_motion E wp (l, d))) = targetTransform d"
  "dt_transform (snd (blend_motion E wp (l, d))) = dt_transform d"
  "dt_enabled (snd (blend_motion E wp (l, d))) = dt_enabled d"
  "fallbackActive (snd (blend_motion E wp (l, d))) = fallbackActive d"
  "quash (snd (blend_motion E wp (l, d))) = quash d"
  by (simp_all add: blend_motion_def)

lemma BlendTransform_keeps [simp]:
  "smartMotionEma (BlendTransform E fr p t wp d) = smartMotionEma d"
  "targetTransform (BlendTransform E fr p t wp d) = targetTransform d"
  "dt_enabled (BlendTransform E fr p t wp d) = dt_enabled d"
  "fallbackActive (BlendTransform E fr p t wp d) = fallbackActive d"
  "quash (BlendTransform E fr p t wp d) = quash d"
  using blend_motion_keeps [of E wp _ "d\<lparr>lastPoll := t\<rparr>"]
  by (simp_all add: BlendTransform_def Let_def case_prod_beta)

lemma blend_and_apply_keeps:
  "blend_and_apply E env s tf pose = (tf', pose') \<Longrightarrow> smartMotionEma tf' = smartMotionEma tf \<and>
     targetTransform tf' = targetTransform tf \<and> dt_enabled tf' = dt_enabled tf \<and>
     fallbackActive tf' = fallbackActive tf \<and> quash tf' = quash tf"
  by (auto simp: blend_and_apply_def Let_def)

lemma follow_fallback_simps [simp]:
  "smartMotionEma (follow_fallback env fb tf) = smartMotionEma tf"
  "targetTransform (follow_fallback env fb tf) = fb_transform fb"
  "fallbackActive (follow_fallback env fb tf)" "dt_enabled (follow_fallback env fb tf) = dt_enabled tf"
  "quash (follow_fallback env fb tf) = quash tf"
  by (simp_all add: follow_fallback_def set_motion_gate_def Let_def)

lemma note_query_inv:
  "pose_inv s \<Longrightarrow> i < k_unMaxTrackedDeviceCount \<Longrightarrow> pose_inv (note_query env i a s)"
  by (auto simp: note_query_def pose_inv_def lookup_ok_def nth_list_update split: option.splits)

lemma lazy_lookup_inv:
  "pose_inv s \<Longrightarrow> unlocked_ok env \<Longrightarrow> unat v < k_unMaxTrackedDeviceCount \<Longrightarrow> pose_inv (lazy_lookup env v s)"
  by (simp add: lazy_lookup_def unlocked_ok_def note_query_inv)

lemma fallback_path_inv:
  assumes "pose_inv s" "unlocked_ok env" "unat v < k_unMaxTrackedDeviceCount"
  shows "pose_inv (fst (fallback_path E env v pose s))"
proof -
  let ?s = "lazy_lookup env v s" and ?i = "unat v"
  have inv: "pose_inv ?s" using lazy_lookup_inv assms by blast
  have upd: "pose_inv (upd_dev ?i (\<lambda>_. tf) ?s)"
    if "smartMotionEma tf = smartMotionEma (transforms ?s ! ?i)" for tf
    using that inv assms(3) by (intro pose_inv_upd_dev) simp_all
  have drop: "pose_inv (upd_dev ?i (drop_follower n) ?s)" for n
    using inv assms(3) by (intro pose_inv_upd_dev) simp_all
  show ?thesis using inv upd drop
    by (auto simp: fallback_path_def Let_def split: option.splits prod.splits dest!: blend_and_apply_keeps)
qed

lemma suppress_prediction_inv:
  assumes "pose_inv s" "i < k_unMaxTrackedDeviceCount"
  shows "pose_inv (fst (suppress_prediction i pose s))"
proof -
  have e: "in01 (smartMotionEma (transforms s ! i))" using assms by (auto simp: pose_inv_def devs_ok_nth)
  show ?thesis using assms prediction_factor_in01 [OF e]
    by (auto simp: suppress_prediction_def Let_def split: prod.splits intro!: pose_inv_upd_dev)
qed

lemma enabled_path_inv:
  "pose_inv s \<Longrightarrow> i < k_unMaxTrackedDeviceCount \<Longrightarrow> pose_inv (fst (enabled_path E env i pose s))"
  by (auto simp: enabled_path_def split: prod.splits dest!: blend_and_apply_keeps intro!: pose_inv_upd_dev)

lemma quash_path_inv: "pose_inv s \<Longrightarrow> unlocked_ok env \<Longrightarrow> pose_inv (fst (quash_path env b pose s))"
  by (simp add: quash_path_def Let_def unlocked_ok_def)

lemma HandleDevicePoseUpdated_inv:
  assumes "pose_inv s" "unlocked_ok env" "unat v < k_unMaxTrackedDeviceCount"
  shows "\<exists>s' pose'. HandleDevicePoseUpdated E env v pose s = Some (s', pose') \<and> pose_inv s'"
proof -
  let ?i = "unat v"
  obtain s1 p1 where sp: "suppress_prediction ?i (apply_debug E s v pose) s = (s1, p1)" by fastforce
  have "pose_inv s1" using suppress_prediction_inv [OF assms(1,3)] sp by (metis fst_conv)
  then have s3: "pose_inv (upd_dev ?i (\<lambda>t. t\<lparr>prevQuash := quash t\<rparr>)
      (s1\<lparr>shmem := SetPose (t_sample env) v p1 (shmem s1)\<rparr>))" (is "pose_inv ?s3")
    using assms(3) by (intro pose_inv_upd_dev) simp_all
  have "\<exists>r. HandleDevicePoseUpdated E env v pose s = Some r \<and> pose_inv (fst r)"
    using assms(3) s3 quash_path_inv [OF s3 assms(2)] enabled_path_inv [OF s3 assms(3)] fallback_path_inv [OF s3 assms(2,3)]
    by (simp add: HandleDevicePoseUpdated_def Let_def sp not_le)
  then show ?thesis by fastforce
qed

section \<open>Reachable states\<close>

text \<open>Every message of an overlay and every call of the hook, in any order. A name on the wire is a
  NUL-terminated string of a field of \<open>MaxTrackingSystemNameLen\<close> characters.\<close>

definition wire_name :: "string \<Rightarrow> bool" where
  "wire_name n \<longleftrightarrow> nul_free n \<and> length n \<le> MaxTrackingSystemNameLen"

inductive pose_reach :: "Eigen \<Rightarrow> PoseState \<Rightarrow> bool" for E where
  Reach_new: "pose_reach E (PoseState_new E freq d)"
| Reach_transform: "pose_reach E s \<Longrightarrow> pose_reach E (Provider_SetDeviceTransform now m s)"
| Reach_prediction: "pose_reach E s \<Longrightarrow> pose_reach E (Provider_SetDevicePrediction cfg s)"
| Reach_fallback: "pose_reach E s \<Longrightarrow> wire_name (stf_system_name fb) \<Longrightarrow>
    pose_reach E (Provider_SetTrackingSystemFallback nows fb s)"
| Reach_params: "pose_reach E s \<Longrightarrow> pose_reach E (HandleSetAlignmentSpeedParams p s)"
| Reach_offset: "pose_reach E s \<Longrightarrow> pose_reach E (HandleApplyRandomOffset E v s)"
| Reach_hook: "pose_reach E s \<Longrightarrow> unlocked_ok env \<Longrightarrow>
    HandleDevicePoseUpdated E env i pose s = Some (s', pose') \<Longrightarrow> pose_reach E s'"

lemma pose_inv_settings [simp]:
  "pose_inv (HandleSetAlignmentSpeedParams p s) = pose_inv s" "pose_inv (HandleApplyRandomOffset E v s) = pose_inv s"
  by (simp_all add: HandleSetAlignmentSpeedParams_def HandleApplyRandomOffset_def pose_inv_def)

lemma pose_reach_inv: "pose_reach E s \<Longrightarrow> pose_inv s"
proof (induction rule: pose_reach.induct)
  case (Reach_fallback s fb nows)
  then show ?case
    by (cases "stf_system_name fb = []")
      (auto simp: Provider_SetTrackingSystemFallback_def name_ok_def wire_name_def dest: Provider_SetTrackingSystemFallback_spec)
next
  case (Reach_hook s env i pose s' pose')
  then have "unat i < k_unMaxTrackedDeviceCount"
    by (auto simp: HandleDevicePoseUpdated_def Let_def split: if_splits)
  then show ?case using HandleDevicePoseUpdated_inv [of s env i E pose] Reach_hook by auto
qed (simp_all add: pose_inv_new Provider_SetDeviceTransform_inv Provider_SetDevicePrediction_inv)

section \<open>The motion gate\<close>

lemma StillFloor_bounds: "kTinyStillFloor \<le> StillFloor r \<and> in01 (StillFloor r)"
  using rnd_mono [of "1 / 10" "1 / 2" 53] rnd_mono [of "1 / 10" "9 / 10" 53]
    lit_01 [of "1 / 10"] lit_01 [of "1 / 2"] lit_01 [of "9 / 10"]
  by (cases r) (simp_all add: kTinyStillFloor_def kNormalStillFloor_def kLargeStillFloor_def)

lemma std_min_1: "\<not> isnan (std_min 1 b :: double) \<and> std_min 1 b \<le> (1 :: double)"
  by (cases b) (simp_all add: std_min_def one_fp_def)

lemma effectiveGate_bounds: "kTinyStillFloor \<le> effectiveGate E d wp" "effectiveGate E d wp \<le> 1"
proof -
  have m: "a \<le> std_max b c" "std_max b c \<le> 1" if "\<not> isnan b" "b \<le> 1" "a \<le> c" "in01 c" for a b c :: double
    using that by (cases a; cases b; cases c; auto simp: std_max_def in01_def zero_fp_def one_fp_def)+
  show "kTinyStillFloor \<le> effectiveGate E d wp" "effectiveGate E d wp \<le> 1"
    unfolding effectiveGate_def Let_def using std_min_1 StillFloor_bounds by (auto intro!: m)
qed

section \<open>What the hook does to the pose\<close>

definition motion_of :: "DriverPose_t \<Rightarrow> double list" where
  "motion_of pose = (case (vecVelocity pose, vecAcceleration pose, vecAngularVelocity pose, vecAngularAcceleration pose) of
     ((a, b, c), (d, e, f), (g, h, i), (j, k, l)) \<Rightarrow> [a, b, c, d, e, f, g, h, i, j, k, l, poseTimeOffset pose])"

lemma motion_of_scale: "motion_of (scale_motion f pose) = map (\<lambda>x. x * f) (motion_of pose)"
  by (simp add: motion_of_def scale_motion_def vec_times_def split: prod.splits)

lemma motion_of_debug [simp]: "motion_of (apply_debug E s v pose) = motion_of pose"
  by (simp add: motion_of_def apply_debug_def)

lemma motion_of_blend: "motion_of (snd (blend_and_apply E env s tf pose)) = motion_of pose"
  by (simp add: blend_and_apply_def ApplyTransform_def Let_def motion_of_def)

lemma motion_of_flags [simp]: "motion_of (pose\<lparr>poseIsValid := a, deviceIsConnected := b\<rparr>) = motion_of pose"
  by (simp add: motion_of_def)

lemma motion_of_quash: "motion_of (snd (quash_path env b pose s)) = motion_of pose"
  by (simp add: quash_path_def Let_def)

lemma motion_of_enabled: "motion_of (snd (enabled_path E env i pose s)) = motion_of pose"
  by (simp add: enabled_path_def case_prod_beta motion_of_blend)

lemma motion_of_fallback: "motion_of (snd (fallback_path E env v pose s)) = motion_of pose"
  by (simp add: fallback_path_def Let_def case_prod_beta motion_of_blend split: option.split)

lemmas motion_of_paths = motion_of_quash motion_of_enabled motion_of_fallback

lemma motion_of_hook:
  assumes "HandleDevicePoseUpdated E env v pose s = Some (s', pose')"
  shows "motion_of pose' = motion_of (snd (suppress_prediction (unat v) (apply_debug E s v pose) s))"
proof -
  obtain s1 p1 where sp: "suppress_prediction (unat v) (apply_debug E s v pose) s = (s1, p1)" by fastforce
  have "pose' = snd (the (HandleDevicePoseUpdated E env v pose s))" "unat v < k_unMaxTrackedDeviceCount"
    using assms by (auto simp: HandleDevicePoseUpdated_def Let_def split: if_splits)
  then show ?thesis by (simp add: HandleDevicePoseUpdated_def Let_def sp motion_of_paths not_le)
qed

lemma factor_zero:
  assumes "100 \<le> sm" "\<not> smartEnabled tf"
  shows "fst (prediction_factor sm pose tf) = 0"
proof -
  have h: "(lit 100 :: double) = Fin 100" "(of_integer 100 :: double) = Fin 100" "fround 1 = (Fin 1 :: double)"
    using fround_of_int [of 100, where 'p = 53] fround_1 by (simp_all add: lit_def of_integer_def)
  have "(if sm > 100 then 100 else sm) = (100 :: byte)" using assms(1) by auto
  then show ?thesis using assms(2)
    by (simp add: prediction_factor_def Let_def h minus_fp_def one_fp_def zero_fp_def)
qed

section \<open>Two overlays, one slot\<close>

text \<open>The three fields the smoothing overlay owns, written together.\<close>

definition own_prediction :: "byte \<Rightarrow> bool \<Rightarrow> double \<Rightarrow> DeviceTransform \<Rightarrow> DeviceTransform" where
  "own_prediction a b c tf = tf\<lparr>predictionSmoothness := a, smartEnabled := b, smartMotionEma := c\<rparr>"

lemma apply_set_prediction_own: "apply_set_prediction cfg tf =
  own_prediction (sdp_predictionSmoothness cfg) (sdp_smart_enabled cfg \<noteq> 0)
    (if sdp_smart_enabled cfg \<noteq> 0 \<and> \<not> smartEnabled tf then 0 else smartMotionEma tf) tf"
  by (simp add: apply_set_prediction_def own_prediction_def Let_def)

lemma own_prediction_push:
  "push_translation m (own_prediction a b c tf) = own_prediction a b c (push_translation m tf)"
  "push_rotation m (own_prediction a b c tf) = own_prediction a b c (push_rotation m tf)"
  "set_motion_gate g (own_prediction a b c tf) = own_prediction a b c (set_motion_gate g tf)"
  "push_scale_quash m (own_prediction a b c tf) = own_prediction a b c (push_scale_quash m tf)"
  "snap_on_transition w (own_prediction a b c tf) = own_prediction a b c (snap_on_transition w tf)"
  "dt_enabled (own_prediction a b c tf) = dt_enabled tf"
  "(own_prediction a b c tf)\<lparr>dt_enabled := e, fallbackActive := f\<rparr> = own_prediction a b c (tf\<lparr>dt_enabled := e, fallbackActive := f\<rparr>)"
  "(own_prediction a b c tf)\<lparr>lastPoll := t, currentRate := r\<rparr> = own_prediction a b c (tf\<lparr>lastPoll := t, currentRate := r\<rparr>)"
  by (simp_all add: push_translation_def push_rotation_def set_motion_gate_def push_scale_quash_def
      snap_on_transition_def own_prediction_def Let_def)

lemma smartEnabled_set_transform [simp]: "smartEnabled (apply_set_transform now m tf) = smartEnabled tf"
  by (simp add: apply_set_transform_def push_translation_def push_rotation_def set_motion_gate_def
      push_scale_quash_def snap_on_transition_def Let_def)

lemma set_transform_prediction_commute:
  "apply_set_prediction cfg (apply_set_transform now m tf) = apply_set_transform now m (apply_set_prediction cfg tf)"
  by (simp add: apply_set_prediction_own) (simp add: apply_set_transform_def Let_def own_prediction_push)

lemma upd_dev_same: "i < length (transforms s) \<Longrightarrow> upd_dev i f (upd_dev i g s) = upd_dev i (f \<circ> g) s"
  by (simp add: upd_dev_def)

lemma upd_dev_other: "i \<noteq> j \<Longrightarrow> upd_dev i f (upd_dev j g s) = upd_dev j g (upd_dev i f s)"
  by (simp add: upd_dev_def list_update_swap)

lemma upd_dev_set_system: "upd_dev i f (set_device_system j sys s) = set_device_system j sys (upd_dev i f s)"
  by (simp add: upd_dev_def set_device_system_def)

lemma transforms_set_system [simp]: "transforms (set_device_system i sys s) = transforms s"
  by (simp add: set_device_system_def)

lemma transform_of_set_transform:
  "dt_enabled tf \<noteq> sdt_enabled m \<Longrightarrow> dt_transform (apply_set_transform now m tf) = targetTransform (apply_set_transform now m tf)"
  by (auto simp: apply_set_transform_def Let_def snap_on_transition_def)

section \<open>Following a fallback\<close>

lemma active_fallback_map:
  assumes "name_ok (deviceSystem s ! i)"
  shows "active_fallback i s = (case fb_map s (deviceSystem s ! i) of
     None \<Rightarrow> None | Some fb \<Rightarrow> if fb_enabled fb then Some fb else None)"
  using assms by (simp add: active_fallback_def fb_map_find Let_def split: option.split)

text \<open>The state the hook hands to the path it chooses, when prediction is not suppressed.\<close>

definition hook_entry :: "PoseEnv \<Rightarrow> u32 \<Rightarrow> DriverPose_t \<Rightarrow> PoseState \<Rightarrow> PoseState" where
  "hook_entry env v pose s = upd_dev (unat v) (\<lambda>t. t\<lparr>prevQuash := quash t\<rparr>)
     (s\<lparr>shmem := SetPose (t_sample env) v pose (shmem s)\<rparr>)"

lemma hook_unsuppressed:
  assumes "unat v < k_unMaxTrackedDeviceCount" "effective_smoothness (unat v) s = 0"
    "p = apply_debug E s v pose"
  shows "HandleDevicePoseUpdated E env v pose s = Some
    (if quash (transforms s ! unat v) then quash_path env (\<not> prevQuash (transforms s ! unat v)) p (hook_entry env v p s)
     else if dt_enabled (transforms s ! unat v) then enabled_path E env (unat v) p (hook_entry env v p s)
     else fallback_path E env v p (hook_entry env v p s))"
  using assms by (simp add: HandleDevicePoseUpdated_def Let_def suppress_prediction_def hook_entry_def)

lemma hook_entry_simps [simp]:
  "deviceSystem (hook_entry env v p s) = deviceSystem s" "lookupState (hook_entry env v p s) = lookupState s"
  "lastLookupAttempt (hook_entry env v p s) = lastLookupAttempt s" "qpcFreq (hook_entry env v p s) = qpcFreq s"
  "systemFallbacks (hook_entry env v p s) = systemFallbacks s"
  "length (transforms (hook_entry env v p s)) = length (transforms s)"
  "shmem (hook_entry env v p s) = SetPose (t_sample env) v p (shmem s)"
  by (simp_all add: hook_entry_def)

lemma hook_entry_inv: "pose_inv s \<Longrightarrow> unat v < k_unMaxTrackedDeviceCount \<Longrightarrow> pose_inv (hook_entry env v p s)"
  unfolding hook_entry_def by (intro pose_inv_upd_dev) simp_all

lemma fallback_path_follow:
  assumes "pose_inv s" "unat v < k_unMaxTrackedDeviceCount" "s1 = lazy_lookup env v s"
    "length (transforms s1) = k_unMaxTrackedDeviceCount"
    "name_ok (deviceSystem s1 ! unat v)" "fb_map s1 (deviceSystem s1 ! unat v) = Some fb" "fb_enabled fb"
  shows "\<exists>tf'. fst (fallback_path E env v p s) = telemetry TELEMETRY_FALLBACK_APPLY (upd_dev (unat v) (\<lambda>_. tf') s1) \<and>
    fallbackActive tf' \<and> targetTransform tf' = fb_transform fb \<and> dt_enabled tf' = dt_enabled (transforms s1 ! unat v)"
proof -
  let ?i = "unat v"
  obtain tf' p' where b: "blend_and_apply E env s1 (follow_fallback env fb (transforms s1 ! ?i)) p = (tf', p')" by fastforce
  have "deviceSystem s1 ! ?i \<noteq> []" using assms(5) by (auto simp: name_ok_def)
  then have "fst (fallback_path E env v p s) = telemetry TELEMETRY_FALLBACK_APPLY (upd_dev ?i (\<lambda>_. tf') s1)"
    unfolding fallback_path_def Let_def assms(3) [symmetric]
    using assms(5-7) by (simp add: active_fallback_map b)
  then show ?thesis using blend_and_apply_keeps [OF b] by auto
qed

section \<open>Concrete data for the witnesses\<close>

definition demo_eigen :: Eigen where
  "demo_eigen = \<lparr>
     v_add = (\<lambda>(a, b, c) (x, y, z). (a + x, b + y, c + z)), v_sub = (\<lambda>(a, b, c) (x, y, z). (a - x, b - y, c - z)),
     v_scale = (\<lambda>v k. vec_times k v), v_norm = vec_length, q_mul = quat_mult, q_rot = quaternionRotateVector,
     q_normalized = (\<lambda>q. q), q_slerp = (\<lambda>a t b. if t < lit (1 / 2) then a else b),
     q_angularDistance = (\<lambda>a b. if a = b then 0 else 1), eigen_pi = m_pi\<rparr>"

definition demo_pose :: DriverPose_t where
  "demo_pose = \<lparr>poseTimeOffset = 0, qWorldFromDriverRotation = q_identity, vecWorldFromDriverTranslation = v_zero,
     qDriverFromHeadRotation = q_identity, vecDriverFromHeadTranslation = v_zero, vecPosition = v_zero,
     vecVelocity = (1, 0, 0), vecAcceleration = v_zero, qRotation = q_identity, vecAngularVelocity = v_zero,
     vecAngularAcceleration = v_zero, pose_result = TrackingResult_Running_OK, poseIsValid = True,
     willDriftInYaw = False, shouldApplyHeadModel = False, deviceIsConnected = True\<rparr>"

definition demo_pose_env :: "(PoseState \<Rightarrow> PoseState) \<Rightarrow> PoseEnv" where
  "demo_pose_env others = \<lparr>t_sample = 5, t_check = 5, t_failed = 5, t_poll = 6, t_blend = 7,
     TrackingSystemName = (\<lambda>v. Some ''lighthouse''), while_unlocked = others\<rparr>"

definition demo_state :: PoseState where
  "demo_state = PoseState_new demo_eigen 10000000 None"

definition demo_fallback :: SetTrackingSystemFallback where
  "demo_fallback = \<lparr>stf_system_name = ''lighthouse'', stf_enabled = True, stf_translation = (1, 1, 0),
     stf_rotation = q_identity, stf_scale = 1, stf_predictionSmoothness = 0, stf_recalibrateOnMovement = True\<rparr>"

definition demo_push :: SetDeviceTransform where
  "demo_push = \<lparr>sdt_openVRID = 3, sdt_enabled = True, sdt_updateTranslation = True, sdt_updateRotation = True,
     sdt_updateScale = False, sdt_translation = (0, 0, 1), sdt_rotation = q_identity, sdt_scale = 1,
     sdt_lerp = True, sdt_quash = False, sdt_target_system = ''lighthouse'', sdt_predictionSmoothness = 0,
     sdt_recalibrateOnMovement = False\<rparr>"

definition demo_prediction :: SetDevicePrediction where
  "demo_prediction = \<lparr>sdp_openVRID = 3, sdp_predictionSmoothness = 100, sdp_smart_enabled = 0\<rparr>"

definition demo_followed :: PoseState where
  "demo_followed = Provider_SetTrackingSystemFallback (\<lambda>_. 0) demo_fallback demo_state"

lemma demo_reach: "pose_reach demo_eigen demo_state"
  unfolding demo_state_def by (rule Reach_new)

lemma demo_name: "name_ok ''lighthouse''" "wire_name ''lighthouse''"
  by (simp_all add: name_ok_def wire_name_def MaxTrackingSystemNameLen_def)

lemma demo_followed_reach: "pose_reach demo_eigen demo_followed"
  unfolding demo_followed_def by (rule Reach_fallback [OF demo_reach]) (simp add: demo_fallback_def demo_name)

lemma fb_map_new: "fb_map (PoseState_new E f d) = Map.empty"
proof
  fix n
  have "find_index (slot_matches n) (replicate MaxFallbackSlots FallbackSlot_new) = None"
    by (simp add: slot_matches_def FallbackSlot_new_def)
  then show "fb_map (PoseState_new E f d) n = None"
    by (simp add: fb_map_def FindFallbackSlot_def PoseState_new_def)
qed

lemma demo_followed_map: "fb_map demo_followed ''lighthouse'' = Some (fallback_of demo_fallback FallbackTransform_new)"
  using Provider_SetTrackingSystemFallback_spec [of demo_state demo_fallback "\<lambda>_. 0"] pose_reach_inv [OF demo_reach] demo_name
  by (simp add: demo_followed_def spec_set_fallback_def demo_fallback_def demo_state_def fb_map_new MaxFallbackSlots_def)

lemma demo_followed_dev:
  "transforms demo_followed = replicate 64 DeviceTransform_new" "deviceSystem demo_followed = replicate 64 []"
  "lookupState demo_followed = replicate 64 NotTried"
proof -
  have "AcquireFallbackSlot ''lighthouse'' demo_state =
      (demo_state\<lparr>systemFallbacks := (systemFallbacks demo_state)[0 := claim_slot ''lighthouse'']\<rparr>, Some 0)"
    by (simp add: AcquireFallbackSlot_def FindFallbackSlot_def demo_state_def PoseState_new_def MaxTrackingSystemNameLen_def
        MaxFallbackSlots_def slot_matches_def FallbackSlot_new_def numeral_eq_Suc)
  then show "transforms demo_followed = replicate 64 DeviceTransform_new" "deviceSystem demo_followed = replicate 64 []"
    "lookupState demo_followed = replicate 64 NotTried"
    by (simp_all add: demo_followed_def Provider_SetTrackingSystemFallback_def demo_fallback_def Let_def)
       (simp_all add: demo_state_def PoseState_new_def k_unMaxTrackedDeviceCount_def)
qed

section \<open>Properties\<close>

text \<open>C1. Every state the driver reaches from construction by any sequence of overlay messages and pose
  updates is well formed, and in it a pose update for any valid device returns and leaves a
  well-formed state, whatever other threads do while the hook has released the mutex.\<close>

theorem pose_state_invariant:
  assumes "pose_reach E s" "unlocked_ok env" "unat v < k_unMaxTrackedDeviceCount"
  shows "pose_inv s \<and> (\<exists>s' pose'. HandleDevicePoseUpdated E env v pose s = Some (s', pose') \<and> pose_inv s')"
  using pose_reach_inv [OF assms(1)] HandleDevicePoseUpdated_inv assms(2,3) by blast

theorem pose_state_invariant_witness:
  "pose_inv (Provider_SetDevicePrediction demo_prediction demo_followed) \<and>
   (\<exists>s' pose'. HandleDevicePoseUpdated demo_eigen (demo_pose_env (\<lambda>t. t)) 3 demo_pose
      (Provider_SetDevicePrediction demo_prediction demo_followed) = Some (s', pose') \<and> pose_inv s')"
  by (rule pose_state_invariant [OF Reach_prediction [OF demo_followed_reach]])
    (simp_all add: unlocked_ok_def demo_pose_env_def k_unMaxTrackedDeviceCount_def)

text \<open>C8. Prediction suppression never amplifies: the velocities, accelerations and the time offset of the
  pose handed on are those of the incoming pose when the strength is zero, and otherwise are all
  multiplied by one factor between 0 and 1, which is 0 when the strength is 100 or more and smart
  smoothing is off. A finite component of the pose never grows in magnitude.\<close>

theorem prediction_never_amplifies:
  assumes "pose_reach E s" "HandleDevicePoseUpdated E env v pose s = Some (s', pose')"
  shows "if effective_smoothness (unat v) s = 0 then motion_of pose' = motion_of pose
    else \<exists>f. in01 f \<and> motion_of pose' = map (\<lambda>x. x * f) (motion_of pose) \<and>
       (100 \<le> effective_smoothness (unat v) s \<and> \<not> smartEnabled (transforms s ! unat v) \<longrightarrow> f = 0) \<and>
       (\<forall>x \<in> set (motion_of pose). isfinite x \<and> fp_rep x \<longrightarrow> \<bar>x * f\<bar> \<le> \<bar>x\<bar>)"
proof -
  let ?i = "unat v" and ?p = "apply_debug E s v pose" and ?sm = "effective_smoothness (unat v) s"
  note m = motion_of_hook [OF assms(2)]
  have "?i < k_unMaxTrackedDeviceCount"
    using assms(2) by (auto simp: HandleDevicePoseUpdated_def Let_def split: if_splits)
  then have e: "in01 (smartMotionEma (transforms s ! ?i))"
    using pose_reach_inv [OF assms(1)] by (auto simp: pose_inv_def devs_ok_nth)
  have zero: "motion_of pose' = motion_of pose" if "?sm = 0" using m that by (simp add: suppress_prediction_def)
  obtain f tf where f: "prediction_factor ?sm ?p (transforms s ! ?i) = (f, tf)" by fastforce
  have "f = 0" if "100 \<le> ?sm" "\<not> smartEnabled (transforms s ! ?i)" using factor_zero [OF that, of ?p] f by simp
  moreover have "motion_of pose' = map (\<lambda>x. x * f) (motion_of pose)" if "?sm \<noteq> 0"
    using m that by (simp add: suppress_prediction_def Let_def f motion_of_scale word_gt_0)
  moreover have "in01 f" using prediction_factor_in01 [OF e f] by simp
  ultimately have "\<exists>f. in01 f \<and> motion_of pose' = map (\<lambda>x. x * f) (motion_of pose) \<and>
       (100 \<le> ?sm \<and> \<not> smartEnabled (transforms s ! ?i) \<longrightarrow> f = 0) \<and>
       (\<forall>x \<in> set (motion_of pose). isfinite x \<and> fp_rep x \<longrightarrow> \<bar>x * f\<bar> \<le> \<bar>x\<bar>)" if "?sm \<noteq> 0"
    using that fp_scale_le by blast
  then show ?thesis using zero by simp
qed

theorem prediction_never_amplifies_witness:
  "\<exists>s' pose' f. HandleDevicePoseUpdated demo_eigen (demo_pose_env (\<lambda>t. t)) 3 demo_pose
      (Provider_SetDevicePrediction demo_prediction demo_followed) = Some (s', pose') \<and>
     motion_of pose' = map (\<lambda>x. x * f) (motion_of demo_pose) \<and> f = 0"
proof -
  let ?s = "Provider_SetDevicePrediction demo_prediction demo_followed"
  have r: "pose_reach demo_eigen ?s" by (rule Reach_prediction [OF demo_followed_reach])
  have tf: "transforms ?s ! 3 = DeviceTransform_new\<lparr>predictionSmoothness := 100\<rparr>"
    by (simp add: Provider_SetDevicePrediction_def demo_prediction_def k_unMaxTrackedDeviceCount_def demo_followed_dev
        apply_set_prediction_def DeviceTransform_new_def)
  then have e: "effective_smoothness 3 ?s = 100" "\<not> smartEnabled (transforms ?s ! 3)"
    by (simp_all add: effective_smoothness_def Let_def DeviceTransform_new_def)
  obtain s' p' where h: "HandleDevicePoseUpdated demo_eigen (demo_pose_env (\<lambda>t. t)) 3 demo_pose ?s = Some (s', p')"
    using HandleDevicePoseUpdated_inv [OF pose_reach_inv [OF r], of "demo_pose_env (\<lambda>t. t)" 3 demo_eigen demo_pose]
    by (auto simp: unlocked_ok_def demo_pose_env_def k_unMaxTrackedDeviceCount_def)
  from prediction_never_amplifies [OF r h] e show ?thesis using h by auto
qed

text \<open>The two overlays do not clobber each other: a calibration push and a prediction push commute,
  whichever devices they name, so neither undoes what the other wrote.\<close>

theorem overlay_pushes_commute:
  assumes "pose_reach E s"
  shows "Provider_SetDevicePrediction cfg (Provider_SetDeviceTransform now m s) = Provider_SetDeviceTransform now m (Provider_SetDevicePrediction cfg s)"
proof -
  have len: "length (transforms s) = k_unMaxTrackedDeviceCount"
    using pose_reach_inv [OF assms] by (simp add: pose_inv_def devs_ok_def)
  have c: "apply_set_prediction cfg \<circ> apply_set_transform now m = apply_set_transform now m \<circ> apply_set_prediction cfg"
    by (simp add: fun_eq_iff set_transform_prediction_commute)
  show ?thesis
    using len c by (cases "unat (sdp_openVRID cfg) = unat (sdt_openVRID m)")
      (auto simp: Provider_SetDevicePrediction_def Provider_SetDeviceTransform_def Let_def upd_dev_set_system [symmetric]
        upd_dev_same upd_dev_other not_le)
qed

theorem overlay_pushes_commute_witness:
  "Provider_SetDevicePrediction demo_prediction (Provider_SetDeviceTransform 4 demo_push demo_followed) =
   Provider_SetDeviceTransform 4 demo_push (Provider_SetDevicePrediction demo_prediction demo_followed)"
  by (rule overlay_pushes_commute [OF demo_followed_reach])

text \<open>C10. The eight fallback slots are a map from tracking-system names to fallbacks: setting one
  replaces or adds that name's entry and no other, disabling one keeps its name with the entry
  switched off, and a new name is refused exactly when eight names are already known.\<close>

theorem fallback_table_refines_map:
  assumes "pose_reach E s" "name_ok (stf_system_name m)"
  shows "fb_map (Provider_SetTrackingSystemFallback now m s) = spec_set_fallback m (fb_map s) \<and>
    card (dom (fb_map s)) \<le> MaxFallbackSlots"
proof -
  have inv: "pose_inv s" by (rule pose_reach_inv [OF assms(1)])
  have "card {j. j < MaxFallbackSlots \<and> occupied (systemFallbacks s ! j)} \<le> card {..<MaxFallbackSlots}"
    by (rule card_mono) auto
  then show ?thesis using inv Provider_SetTrackingSystemFallback_spec [OF inv assms(2)]
    by (simp add: card_dom_fb_map pose_inv_def)
qed

theorem fallback_table_refines_map_witness:
  "fb_map (Provider_SetTrackingSystemFallback (\<lambda>_. 9) (demo_fallback\<lparr>stf_enabled := False\<rparr>) demo_followed) ''lighthouse'' =
     Some ((fallback_of demo_fallback FallbackTransform_new)\<lparr>fb_enabled := False\<rparr>)"
proof -
  let ?m = "demo_fallback\<lparr>stf_enabled := False\<rparr>"
  have "name_ok (stf_system_name ?m)" by (simp add: demo_fallback_def demo_name)
  from fallback_table_refines_map [OF demo_followed_reach this, of "\<lambda>_. 9"] show ?thesis
    using demo_followed_map by (simp add: spec_set_fallback_def demo_fallback_def Let_def)
qed

text \<open>A tracker that appears after the last overlay scan inherits its tracking system's fallback on its
  first pose update: the property store is asked once, the answer is cached, and the device follows
  the fallback from the fallback's own transform, with the telemetry counter raised.\<close>

theorem first_pose_inherits_fallback:
  assumes "pose_reach E s" "unat v < k_unMaxTrackedDeviceCount" "\<forall>t. while_unlocked env t = t"
    "deviceSystem s ! unat v = []" "lookupState s ! unat v = NotTried"
    "\<not> dt_enabled (transforms s ! unat v)" "\<not> quash (transforms s ! unat v)"
    "predictionSmoothness (transforms s ! unat v) = 0"
    "TrackingSystemName env v = Some sys" "name_ok sys" "fb_map s sys = Some fb" "fb_enabled fb"
  shows "\<exists>s' pose'. HandleDevicePoseUpdated E env v pose s = Some (s', pose') \<and>
    deviceSystem s' ! unat v = sys \<and> lookupState s' ! unat v = Cached \<and>
    fallbackActive (transforms s' ! unat v) \<and> targetTransform (transforms s' ! unat v) = fb_transform fb \<and>
    shmem s' = IncrementTelemetry TELEMETRY_FALLBACK_APPLY
      (SetPose (t_sample env) v (apply_debug E s v pose) (shmem s))"
proof -
  let ?i = "unat v"
  define p where "p = apply_debug E s v pose"
  define s3 where "s3 = hook_entry env v p s"
  define s1 where "s1 = lazy_lookup env v s3"
  have inv: "pose_inv s" by (rule pose_reach_inv [OF assms(1)])
  then have lens: "length (deviceSystem s) = k_unMaxTrackedDeviceCount"
    "length (lookupState s) = k_unMaxTrackedDeviceCount" "length (transforms s) = k_unMaxTrackedDeviceCount"
    by (simp_all add: pose_inv_def lookup_ok_def devs_ok_def)
  have s1: "s1 = s3\<lparr>deviceSystem := (deviceSystem s)[?i := sys], lookupState := (lookupState s)[?i := Cached]\<rparr>"
    using assms(3,4,5,9,10) by (simp add: s1_def s3_def lazy_lookup_def shouldTry_def note_query_def name_ok_def)
  have sys: "deviceSystem s1 ! ?i = sys" using assms(2) lens by (simp add: s1)
  have fbm: "fb_map s1 = fb_map s" by (rule fb_map_cong) (simp add: s1 s3_def)
  have "pose_inv s3" using inv assms(2) by (simp add: s3_def hook_entry_inv)
  then obtain tf' where tf: "fst (fallback_path E env v p s3) = telemetry TELEMETRY_FALLBACK_APPLY (upd_dev ?i (\<lambda>_. tf') s1)"
    "fallbackActive tf'" "targetTransform tf' = fb_transform fb"
    using fallback_path_follow [OF _ assms(2) s1_def, of fb E p] sys fbm assms(10-12) lens
    by (auto simp: s1 s3_def)
  have "effective_smoothness ?i s = 0" using assms(4,8) by (simp add: effective_smoothness_def Let_def)
  then have "HandleDevicePoseUpdated E env v pose s = Some (fallback_path E env v p s3)"
    using hook_unsuppressed [OF assms(2) _ p_def] assms(6,7) by (simp add: s3_def)
  moreover obtain s' p' where r: "fallback_path E env v p s3 = (s', p')" by fastforce
  moreover have "s' = telemetry TELEMETRY_FALLBACK_APPLY (upd_dev ?i (\<lambda>_. tf') s1)" using tf(1) r by simp
  ultimately show ?thesis using tf sys assms(2) lens
    by (simp add: s1 s3_def) (simp add: telemetry_def p_def)
qed

theorem first_pose_inherits_fallback_witness:
  "\<exists>s' pose'. HandleDevicePoseUpdated demo_eigen (demo_pose_env (\<lambda>t. t)) 3 demo_pose demo_followed = Some (s', pose') \<and>
     deviceSystem s' ! 3 = ''lighthouse'' \<and> fallbackActive (transforms s' ! 3)"
proof -
  have "fb_enabled (fallback_of demo_fallback FallbackTransform_new)" by (simp add: fallback_of_def)
  from first_pose_inherits_fallback [OF demo_followed_reach, of 3 "demo_pose_env (\<lambda>t. t)", OF _ _ _ _ _ _ _ _ demo_name(1) demo_followed_map this,
      of demo_pose]
  show ?thesis by (auto simp: demo_followed_dev demo_pose_env_def k_unMaxTrackedDeviceCount_def DeviceTransform_new_def)
qed

text \<open>The window in which the hook has released the mutex to ask the property store is not safe: when
  the calibration overlay enables the device in that window with a transform of its own, the hook
  goes on down the fallback path and replaces the overlay's target by the fallback's, leaving the
  device enabled with the wrong target.\<close>

theorem lookup_window_clobbers_overlay:
  assumes "pose_reach E s" "unat v < k_unMaxTrackedDeviceCount"
    "\<forall>t. while_unlocked env t = Provider_SetDeviceTransform now m t" "sdt_openVRID m = v" "sdt_enabled m"
    "sdt_target_system m = sys" "name_ok sys" "fb_map s sys = Some fb" "fb_enabled fb"
    "deviceSystem s ! unat v = []" "lookupState s ! unat v = NotTried"
    "\<not> dt_enabled (transforms s ! unat v)" "\<not> quash (transforms s ! unat v)"
    "predictionSmoothness (transforms s ! unat v) = 0"
  shows "\<exists>s' pose'. HandleDevicePoseUpdated E env v pose s = Some (s', pose') \<and>
    dt_enabled (transforms s' ! unat v) \<and> targetTransform (transforms s' ! unat v) = fb_transform fb"
proof -
  let ?i = "unat v"
  define p where "p = apply_debug E s v pose"
  define s3 where "s3 = hook_entry env v p s"
  define s1 where "s1 = lazy_lookup env v s3"
  have inv: "pose_inv s" by (rule pose_reach_inv [OF assms(1)])
  then have lens: "length (deviceSystem s) = k_unMaxTrackedDeviceCount"
    "length (lookupState s) = k_unMaxTrackedDeviceCount" "length (transforms s) = k_unMaxTrackedDeviceCount"
    by (simp_all add: pose_inv_def lookup_ok_def devs_ok_def)
  have s1: "s1 = Provider_SetDeviceTransform now m s3"
    using assms(2-4,6,7,10,11) lens by (simp add: s1_def s3_def lazy_lookup_def shouldTry_def note_query_def
        name_ok_def Provider_SetDeviceTransform_def Let_def set_device_system_def)
  have sys: "deviceSystem s1 ! ?i = sys" "systemFallbacks s1 = systemFallbacks s" "length (transforms s1) = k_unMaxTrackedDeviceCount"
    "dt_enabled (transforms s1 ! ?i)"
    using assms(2,4-6) lens by (simp_all add: s1 s3_def Provider_SetDeviceTransform_def Let_def set_device_system_def
        apply_set_transform_def not_le)
  have fbm: "fb_map s1 = fb_map s" by (rule fb_map_cong) (rule sys)
  have "pose_inv s3" using inv assms(2) by (simp add: s3_def hook_entry_inv)
  then obtain tf' where tf: "fst (fallback_path E env v p s3) = telemetry TELEMETRY_FALLBACK_APPLY (upd_dev ?i (\<lambda>_. tf') s1)"
    "targetTransform tf' = fb_transform fb" "dt_enabled tf'"
    using fallback_path_follow [OF _ assms(2) s1_def, of fb E p] sys fbm assms(7-9) by auto
  have "effective_smoothness ?i s = 0" using assms(10,14) by (simp add: effective_smoothness_def Let_def)
  then have "HandleDevicePoseUpdated E env v pose s = Some (fallback_path E env v p s3)"
    using hook_unsuppressed [OF assms(2) _ p_def] assms(12,13) by (simp add: s3_def)
  moreover obtain s' p' where r: "fallback_path E env v p s3 = (s', p')" by fastforce
  moreover have "s' = telemetry TELEMETRY_FALLBACK_APPLY (upd_dev ?i (\<lambda>_. tf') s1)" using tf(1) r by simp
  ultimately show ?thesis using tf sys(3) assms(2) by simp
qed

theorem lookup_window_clobbers_overlay_witness:
  "\<exists>s' pose'. HandleDevicePoseUpdated demo_eigen (demo_pose_env (Provider_SetDeviceTransform 4 demo_push)) 3 demo_pose demo_followed =
       Some (s', pose') \<and> dt_enabled (transforms s' ! 3) \<and>
     translation (targetTransform (transforms s' ! 3)) = (1, 1, 0) \<and> sdt_translation demo_push = (0, 0, 1)"
proof -
  let ?fb = "fallback_of demo_fallback FallbackTransform_new"
  have e: "fb_enabled ?fb" "translation (fb_transform ?fb) = (1, 1, 0)" by (simp_all add: fallback_of_def demo_fallback_def)
  from lookup_window_clobbers_overlay [OF demo_followed_reach, of 3 "demo_pose_env (Provider_SetDeviceTransform 4 demo_push)" 4 demo_push
      "''lighthouse''", OF _ _ _ _ _ demo_name(1) demo_followed_map e(1), of demo_pose]
  obtain s' pose' where "HandleDevicePoseUpdated demo_eigen (demo_pose_env (Provider_SetDeviceTransform 4 demo_push)) 3 demo_pose demo_followed =
       Some (s', pose')" "dt_enabled (transforms s' ! 3)" "targetTransform (transforms s' ! 3) = fb_transform ?fb"
    by (auto simp: demo_followed_dev demo_pose_env_def demo_push_def k_unMaxTrackedDeviceCount_def DeviceTransform_new_def)
  then show ?thesis using e(2) by (auto simp: demo_push_def)
qed

text \<open>A blend step moves the active transform towards the target by a factor between 0 and 1; the first
  step after the motion gate is switched on does not move it; and the gate of a later step never
  falls below the floor of the smallest regime, so a still device keeps converging.\<close>

theorem blend_step_bounded:
  "\<exists>l. in01 l \<and> dt_transform (BlendTransform E fr p t wp d) =
       interpolateAround E l (targetTransform d) (translation wp) (dt_transform d) \<and>
     targetTransform (BlendTransform E fr p t wp d) = targetTransform d \<and>
     (recalibrateOnMovement d \<and> \<not> blendMotionInitialized d \<longrightarrow> l = 0) \<and>
     kTinyStillFloor \<le> effectiveGate E d wp \<and> effectiveGate E d wp \<le> 1"
proof -
  define d0 where "d0 = d\<lparr>lastPoll := t\<rparr>"
  define l0 where "l0 = of_integer (t - lastPoll d) / of_integer fr * GetTransformRate p (currentRate d)"
  obtain l d1 where b: "blend_motion E wp (l0, d0) = (l, d1)" by fastforce
  have k: "targetTransform d1 = targetTransform d" "dt_transform d1 = dt_transform d"
    using blend_motion_keeps(2,3) [of E wp l0 d0] by (simp_all only: b snd_conv) (simp_all add: d0_def)
  have z: "clamp_lerp l = 0" if "recalibrateOnMovement d \<and> \<not> blendMotionInitialized d"
    using b that by (auto simp: blend_motion_def d0_def clamp_lerp_def Let_def zero_fp_def one_fp_def)
  have "dt_transform (BlendTransform E fr p t wp d) =
      interpolateAround E (clamp_lerp l) (targetTransform d) (translation wp) (dt_transform d)"
    using b k by (simp add: BlendTransform_def Let_def l0_def d0_def)
  then show ?thesis using clamp_lerp_in01 z effectiveGate_bounds BlendTransform_keeps(2) by blast
qed

theorem blend_step_bounded_witness:
  "\<exists>l. dt_transform (BlendTransform demo_eigen 10 (init_alignmentSpeedParams demo_eigen) 7 iso_identity
       (DeviceTransform_new\<lparr>recalibrateOnMovement := True\<rparr>)) =
     interpolateAround demo_eigen l iso_identity v_zero iso_identity \<and> l = 0"
  using blend_step_bounded [of demo_eigen 10 "init_alignmentSpeedParams demo_eigen" 7 iso_identity
      "DeviceTransform_new\<lparr>recalibrateOnMovement := True\<rparr>"]
  by (auto simp: DeviceTransform_new_def iso_identity_def)

end
