(* ===== verification/DriverHost.thy ===== *)
theory DriverHost
  imports PosePath DriverConfig OscRouter
begin

text \<open>
  The driver as a host of feature modules: feature flags
  (\<open>core/src/driver/FeatureFlags.h\<close>, \<open>.cpp\<close>), the module interface (\<open>DriverModule.h\<close>), start-up, shutdown and
  request routing (\<open>ServerTrackedDeviceProvider.cpp\<close>), the named-pipe server of each feature
  (\<open>IPCServer.h\<close>, \<open>.cpp\<close>), and the calibration, smoothing and input-health modules as
  clients of the provider.

  A module is a record of its virtual methods over the state \<open>'s\<close> that the modules share. Windows
  calls (module path, file attributes, pipes, hook injection) are inputs.
\<close>

unbundle bit_operations_syntax

section \<open>Feature flags\<close>

definition kFeatureCalibration :: u32 where "kFeatureCalibration = 1"
definition kFeatureSmoothing :: u32 where "kFeatureSmoothing = 2"
definition kFeatureInputHealth :: u32 where "kFeatureInputHealth = 4"
definition kFeatureFaceTracking :: u32 where "kFeatureFaceTracking = 8"
definition kFeatureOscRouter :: u32 where "kFeatureOscRouter = 16"
definition kFeatureCaptions :: u32 where "kFeatureCaptions = 32"

lemmas feature_masks = kFeatureCalibration_def kFeatureSmoothing_def kFeatureInputHealth_def
  kFeatureFaceTracking_def kFeatureOscRouter_def kFeatureCaptions_def

definition MAX_PATH :: nat where "MAX_PATH = 260"

text \<open>\<open>path.find_last_of (L"\\/")\<close> and the cut there: \<open>None\<close> when there is no separator.\<close>

definition is_sep :: "char \<Rightarrow> bool" where
  "is_sep c \<longleftrightarrow> c = CHR 0x5C \<or> c = CHR ''/''"

definition pop_segment :: "string \<Rightarrow> string option" where
  "pop_segment path = (case dropWhile (\<lambda>c. \<not> is_sep c) (rev path) of [] \<Rightarrow> None | _ # r \<Rightarrow> Some (rev r))"

text \<open>\<open>modulePath\<close> is the answer of \<open>GetModuleFileNameW\<close>: \<open>None\<close> when the module or its name cannot
  be had. A name that fills the buffer is refused.\<close>

definition GetResourcesDir :: "string option \<Rightarrow> string option" where
  "GetResourcesDir modulePath = (case modulePath of None \<Rightarrow> None | Some path \<Rightarrow>
     if length path = 0 \<or> length path \<ge> MAX_PATH then None
     else map_option (\<lambda>p. p @ (CHR 0x5C # ''resources''))
       (Option.bind (Option.bind (pop_segment path) pop_segment) pop_segment))"

text \<open>\<open>isFile\<close> stands for \<open>GetFileAttributesW\<close>: the path exists and is not a directory.\<close>

definition FlagFileExists :: "(string \<Rightarrow> bool) \<Rightarrow> string \<Rightarrow> string \<Rightarrow> bool" where
  "FlagFileExists isFile dir flag = isFile (dir @ (CHR 0x5C # flag))"

definition flag_if :: "bool \<Rightarrow> u32 \<Rightarrow> u32 \<Rightarrow> u32" where
  "flag_if b fm flags = (if b then flags OR fm else flags)"

definition DetectFeatureFlags :: "string option \<Rightarrow> (string \<Rightarrow> bool) \<Rightarrow> u32" where
  "DetectFeatureFlags modulePath isFile = (case GetResourcesDir modulePath of None \<Rightarrow> 0 | Some dir \<Rightarrow>
     let has = FlagFileExists isFile dir
     in flag_if (has ''enable_captions.flag'' \<or> has ''enable_translator.flag'') kFeatureCaptions
       (flag_if (has ''enable_oscrouter.flag'') kFeatureOscRouter
       (flag_if (has ''enable_facetracking.flag'') kFeatureFaceTracking
       (flag_if (has ''enable_inputhealth.flag'') kFeatureInputHealth
       (flag_if (has ''enable_smoothing.flag'') kFeatureSmoothing
       (flag_if (has ''enable_calibration.flag'') kFeatureCalibration 0))))))"

section \<open>Modules\<close>

text \<open>\<open>HandleRequest\<close> returns \<open>None\<close> for \<open>false\<close>; the modules change nothing in that case.\<close>

record 's DriverModule =
  mod_Name :: string
  FeatureMask :: u32
  mod_Init :: "'s \<Rightarrow> 's \<times> bool"
  mod_Shutdown :: "'s \<Rightarrow> 's"
  mod_HandleRequest :: "Request \<Rightarrow> 's \<Rightarrow> ('s \<times> Response) option"

record 's Driver =
  featureFlags :: u32
  activeModules :: "'s DriverModule list"
  pipeServers :: "u32 list"
  poseShmemOpen :: bool
  hooksInstalled :: bool
  drv :: 's

definition activateModule :: "'s DriverModule \<Rightarrow> 's Driver \<Rightarrow> 's Driver" where
  "activateModule m d = (if featureFlags d AND FeatureMask m = 0 then d
     else case mod_Init m (drv d) of (s, ok) \<Rightarrow>
       if ok then d\<lparr>drv := s, activeModules := activeModules d @ [m]\<rparr> else d\<lparr>drv := s\<rparr>)"

definition start_server :: "u32 \<Rightarrow> 's Driver \<Rightarrow> 's Driver" where
  "start_server fm d = (if featureFlags d AND fm \<noteq> 0 then d\<lparr>pipeServers := pipeServers d @ [fm]\<rparr> else d)"

definition server_order :: "u32 list" where
  "server_order = [kFeatureCalibration, kFeatureSmoothing, kFeatureInputHealth, kFeatureFaceTracking,
     kFeatureOscRouter, kFeatureCaptions]"

definition stop_servers :: "'s Driver \<Rightarrow> 's Driver" where
  "stop_servers d = d\<lparr>pipeServers := []\<rparr>"

text \<open>\<open>Init\<close> on the modules the build contains, router first; \<open>True\<close> is \<open>VRInitError_None\<close>. The pose
  segment is created only with the calibration flag, and a failure there is not fatal.\<close>

definition Driver_Init :: "u32 \<Rightarrow> bool \<Rightarrow> bool \<Rightarrow> 's DriverModule list \<Rightarrow> 's Driver \<Rightarrow> 's Driver \<times> bool" where
  "Driver_Init flags shmemOk hooksOk modules d =
     (let d1 = fold activateModule modules (d\<lparr>featureFlags := flags, activeModules := []\<rparr>);
          d2 = (if flags AND kFeatureCalibration \<noteq> 0 then d1\<lparr>poseShmemOpen := shmemOk\<rparr> else d1);
          d3 = fold start_server server_order d2
      in if hooksOk then (d3\<lparr>hooksInstalled := True\<rparr>, True)
         else ((stop_servers d3)\<lparr>poseShmemOpen := False\<rparr>, False))"

definition Driver_Cleanup :: "'s Driver \<Rightarrow> 's Driver" where
  "Driver_Cleanup d =
     (let d1 = d\<lparr>hooksInstalled := False\<rparr>;
          d2 = d1\<lparr>drv := foldr mod_Shutdown (activeModules d1) (drv d1), activeModules := []\<rparr>
      in (stop_servers d2)\<lparr>poseShmemOpen := False\<rparr>)"

section \<open>Routing a request\<close>

fun ask_modules :: "u32 \<Rightarrow> Request \<Rightarrow> 's DriverModule list \<Rightarrow> 's \<Rightarrow> ('s \<times> Response) option" where
  "ask_modules fm r [] s = None"
| "ask_modules fm r (m # ms) s =
     (if FeatureMask m AND fm = 0 then ask_modules fm r ms s
      else case mod_HandleRequest m r s of None \<Rightarrow> ask_modules fm r ms s | Some a \<Rightarrow> Some a)"

definition HandleIpcRequest :: "u32 \<Rightarrow> Request \<Rightarrow> 's Driver \<Rightarrow> ('s Driver \<times> Response) option" where
  "HandleIpcRequest fm r d = (if r = RequestHandshake then Some (d, ResponseHandshake Version)
     else map_option (\<lambda>(s, a). (d\<lparr>drv := s\<rparr>, a)) (ask_modules fm r (activeModules d) (drv d)))"

definition IPCServer_HandleRequest :: "u32 \<Rightarrow> Request \<Rightarrow> 's Driver \<Rightarrow> 's Driver \<times> Response" where
  "IPCServer_HandleRequest fm r d = (case HandleIpcRequest fm r d of
     Some a \<Rightarrow> a | None \<Rightarrow> (d, ResponseInvalid))"

section \<open>The pipe server\<close>

text \<open>A pipe instance has one overlapped operation outstanding: a read of a request or a write of the
  response it holds. Instances are keyed by their address. \<open>sizeof Request\<close> is an argument: only its
  comparison with the number of bytes read matters.\<close>

datatype PipePhase = ReadPending | WritePending Response

record IPCServer =
  ipc_pipes :: "nat \<rightharpoonup> PipePhase"
  ipc_mask :: u32

definition ClosePipeInstance :: "nat \<Rightarrow> IPCServer \<Rightarrow> IPCServer" where
  "ClosePipeInstance p sv = sv\<lparr>ipc_pipes := (ipc_pipes sv)(p := None)\<rparr>"

text \<open>\<open>wrote\<close> is the result of \<open>WriteFileEx\<close>; the request dispatched, if any, is returned.\<close>

definition CompletedReadCallback :: "nat \<Rightarrow> bool \<Rightarrow> nat \<Rightarrow> nat \<Rightarrow> Request \<Rightarrow> nat \<Rightarrow> IPCServer \<times> 's Driver \<Rightarrow>
    (IPCServer \<times> 's Driver) \<times> Request option" where
  "CompletedReadCallback sizeofRequest wrote err bytesRead request p st = (case st of (sv, d) \<Rightarrow>
     if err = 0 \<and> bytesRead = sizeofRequest then
       (case IPCServer_HandleRequest (ipc_mask sv) request d of (d1, response) \<Rightarrow>
         ((if wrote then sv\<lparr>ipc_pipes := (ipc_pipes sv)(p \<mapsto> WritePending response)\<rparr>
           else ClosePipeInstance p sv, d1), Some request))
     else ((ClosePipeInstance p sv, d), None))"

definition CompletedWriteCallback :: "nat \<Rightarrow> bool \<Rightarrow> nat \<Rightarrow> nat \<Rightarrow> nat \<Rightarrow> IPCServer \<Rightarrow> IPCServer" where
  "CompletedWriteCallback sizeofResponse reading err bytesWritten p sv =
     (if err = 0 \<and> bytesWritten = sizeofResponse \<and> reading
      then sv\<lparr>ipc_pipes := (ipc_pipes sv)(p \<mapsto> ReadPending)\<rparr> else ClosePipeInstance p sv)"

text \<open>A client that connects gets a fresh instance, which starts as if a response had just been
  written.\<close>

definition accept_client :: "nat \<Rightarrow> bool \<Rightarrow> nat \<Rightarrow> IPCServer \<Rightarrow> IPCServer" where
  "accept_client sizeofResponse reading p sv =
     CompletedWriteCallback sizeofResponse reading 0 sizeofResponse p sv"

definition thread_guard :: "IPCServer \<Rightarrow> IPCServer" where
  "thread_guard sv = sv\<lparr>ipc_pipes := Map.empty\<rparr>"

section \<open>The provider's own modules\<close>

record ProviderState =
  pv_pose :: PoseState
  pv_cfg :: DriverConfigs
  pv_calibration :: bool
  pv_smoothing :: bool
  pv_inputhealth :: bool

text \<open>What the calibration handlers read beside the request: the counter and the random draws.\<close>

record RequestEnv =
  re_now :: int
  re_nows :: "nat \<Rightarrow> int"
  re_draw :: Vector3d

fun calibration_HandleRequest :: "Eigen \<Rightarrow> RequestEnv \<Rightarrow> Request \<Rightarrow> ProviderState \<Rightarrow> (ProviderState \<times> Response) option" where
  "calibration_HandleRequest E env r s = (if \<not> pv_calibration s then None else case r of
       RequestSetDeviceTransform m \<Rightarrow>
         Some (s\<lparr>pv_pose := Provider_SetDeviceTransform (re_now env) m (pv_pose s)\<rparr>, ResponseSuccess)
     | RequestDebugOffset \<Rightarrow>
         Some (s\<lparr>pv_pose := HandleApplyRandomOffset E (re_draw env) (pv_pose s)\<rparr>, ResponseSuccess)
     | RequestSetAlignmentSpeedParams p \<Rightarrow>
         Some (s\<lparr>pv_pose := HandleSetAlignmentSpeedParams p (pv_pose s)\<rparr>, ResponseSuccess)
     | RequestSetTrackingSystemFallback m \<Rightarrow>
         Some (s\<lparr>pv_pose := Provider_SetTrackingSystemFallback (re_nows env) m (pv_pose s)\<rparr>, ResponseSuccess)
     | _ \<Rightarrow> None)"

fun smoothing_HandleRequest :: "Request \<Rightarrow> ProviderState \<Rightarrow> (ProviderState \<times> Response) option" where
  "smoothing_HandleRequest r s = (if \<not> pv_smoothing s then None else case r of
       RequestSetFingerSmoothing c \<Rightarrow> Some (s\<lparr>pv_cfg := SetFingerSmoothingConfig c (pv_cfg s)\<rparr>, ResponseSuccess)
     | RequestSetDevicePrediction c \<Rightarrow>
         Some (s\<lparr>pv_pose := Provider_SetDevicePrediction c (pv_pose s)\<rparr>, ResponseSuccess)
     | _ \<Rightarrow> None)"

text \<open>Of a reset request, the clearing of the learned corrections; the component statistics it also clears
  are not part of this state (\<open>ApplyResetRequest\<close> of the theory \<open>InputHealth\<close> has both).\<close>

fun inputhealth_HandleRequest :: "Request \<Rightarrow> ProviderState \<Rightarrow> (ProviderState \<times> Response) option" where
  "inputhealth_HandleRequest r s = (if \<not> pv_inputhealth s then None else case r of
       RequestSetInputHealthConfig c \<Rightarrow> Some (s\<lparr>pv_cfg := SetInputHealthConfig c (pv_cfg s)\<rparr>, ResponseSuccess)
     | RequestResetInputHealthStats q \<Rightarrow> Some (if ihr_reset_curves q \<noteq> 0
         then s\<lparr>pv_cfg := ClearInputHealthCompensation (ihr_device_serial_hash q) (pv_cfg s)\<rparr> else s, ResponseSuccess)
     | RequestSetInputHealthCompensation e \<Rightarrow>
         Some (s\<lparr>pv_cfg := SetInputHealthCompensation e (pv_cfg s)\<rparr>, ResponseSuccess)
     | _ \<Rightarrow> None)"

definition calibration_module :: "Eigen \<Rightarrow> RequestEnv \<Rightarrow> ProviderState DriverModule" where
  "calibration_module E env = \<lparr>mod_Name = ''Space Calibrator'', FeatureMask = kFeatureCalibration,
     mod_Init = (\<lambda>s. (s\<lparr>pv_calibration := True\<rparr>, True)), mod_Shutdown = (\<lambda>s. s\<lparr>pv_calibration := False\<rparr>),
     mod_HandleRequest = calibration_HandleRequest E env\<rparr>"

definition smoothing_module :: "ProviderState DriverModule" where
  "smoothing_module = \<lparr>mod_Name = ''Smoothing'', FeatureMask = kFeatureSmoothing,
     mod_Init = (\<lambda>s. (s\<lparr>pv_smoothing := True\<rparr>, True)), mod_Shutdown = (\<lambda>s. s\<lparr>pv_smoothing := False\<rparr>),
     mod_HandleRequest = smoothing_HandleRequest\<rparr>"

definition inputhealth_module :: "ProviderState DriverModule" where
  "inputhealth_module = \<lparr>mod_Name = ''Input Health'', FeatureMask = kFeatureInputHealth,
     mod_Init = (\<lambda>s. (s\<lparr>pv_inputhealth := True\<rparr>, True)), mod_Shutdown = (\<lambda>s. s\<lparr>pv_inputhealth := False\<rparr>),
     mod_HandleRequest = inputhealth_HandleRequest\<rparr>"

definition provider_modules :: "Eigen \<Rightarrow> RequestEnv \<Rightarrow> ProviderState DriverModule list" where
  "provider_modules E env = [calibration_module E env, smoothing_module, inputhealth_module]"

section \<open>A server and its clients\<close>

text \<open>The events of the server thread, in any order the completions arrive. A completion arrives only for
  the operation an instance has outstanding, and a new instance has a new address. The log is the
  requests dispatched, oldest first, each with its client and the response prepared for it.\<close>

inductive ipc_run :: "nat \<Rightarrow> nat \<Rightarrow> 's Driver \<Rightarrow> u32 \<Rightarrow> IPCServer \<Rightarrow> 's Driver \<Rightarrow> (nat \<times> Request \<times> Response) list \<Rightarrow> bool"
  for szq szr d0 fm where
  Ipc_start: "ipc_run szq szr d0 fm \<lparr>ipc_pipes = Map.empty, ipc_mask = fm\<rparr> d0 []"
| Ipc_connect: "ipc_run szq szr d0 fm sv d lg \<Longrightarrow> ipc_pipes sv p = None \<Longrightarrow>
    ipc_run szq szr d0 fm (accept_client szr reading p sv) d lg"
| Ipc_read: "ipc_run szq szr d0 fm sv d lg \<Longrightarrow> ipc_pipes sv p = Some ReadPending \<Longrightarrow>
    CompletedReadCallback szq wrote err n r p (sv, d) = ((sv', d'), None) \<Longrightarrow> ipc_run szq szr d0 fm sv' d' lg"
| Ipc_dispatch: "ipc_run szq szr d0 fm sv d lg \<Longrightarrow> ipc_pipes sv p = Some ReadPending \<Longrightarrow>
    CompletedReadCallback szq wrote err n r p (sv, d) = ((sv', d'), Some r') \<Longrightarrow>
    ipc_run szq szr d0 fm sv' d' (lg @ [(p, r', snd (IPCServer_HandleRequest fm r' d))])"
| Ipc_write: "ipc_run szq szr d0 fm sv d lg \<Longrightarrow> ipc_pipes sv p = Some (WritePending a) \<Longrightarrow>
    ipc_run szq szr d0 fm (CompletedWriteCallback szr reading err n p sv) d lg"
| Ipc_stop: "ipc_run szq szr d0 fm sv d lg \<Longrightarrow> ipc_run szq szr d0 fm (thread_guard sv) d lg"

text \<open>The specification: requests handled one after the other.\<close>

fun run_requests :: "u32 \<Rightarrow> Request list \<Rightarrow> 's Driver \<Rightarrow> 's Driver \<times> Response list" where
  "run_requests fm [] d = (d, [])"
| "run_requests fm (r # rs) d = (let (d1, a) = IPCServer_HandleRequest fm r d; (d2, as) = run_requests fm rs d1
     in (d2, a # as))"

lemma run_requests_snoc:
  "run_requests fm (rs @ [r]) d = (let (d1, as) = run_requests fm rs d; (d2, a) = IPCServer_HandleRequest fm r d1
     in (d2, as @ [a]))"
  by (induction rs arbitrary: d) (auto simp: Let_def split: prod.splits)

definition last_answer :: "(nat \<times> Request \<times> Response) list \<Rightarrow> nat \<Rightarrow> Response option" where
  "last_answer lg p = (case rev (filter (\<lambda>e. fst e = p) lg) of [] \<Rightarrow> None | e # _ \<Rightarrow> Some (snd (snd e)))"

lemma last_answer_snoc [simp]: "last_answer (lg @ [(q, r, a)]) p = (if q = p then Some a else last_answer lg p)"
  by (simp add: last_answer_def)

definition ipc_inv :: "'s Driver \<Rightarrow> u32 \<Rightarrow> IPCServer \<Rightarrow> 's Driver \<Rightarrow> (nat \<times> Request \<times> Response) list \<Rightarrow> bool" where
  "ipc_inv d0 fm sv d lg \<longleftrightarrow> ipc_mask sv = fm \<and>
     run_requests fm (map (fst \<circ> snd) lg) d0 = (d, map (snd \<circ> snd) lg) \<and>
     (\<forall>p a. ipc_pipes sv p = Some (WritePending a) \<longrightarrow> last_answer lg p = Some a)"

lemma ipc_inv_close: "ipc_inv d0 fm sv d lg \<Longrightarrow> ipc_inv d0 fm (ClosePipeInstance p sv) d lg"
  by (simp add: ipc_inv_def ClosePipeInstance_def)

lemma ipc_inv_write: "ipc_inv d0 fm sv d lg \<Longrightarrow> ipc_inv d0 fm (CompletedWriteCallback szr reading err n p sv) d lg"
  by (auto simp: CompletedWriteCallback_def ipc_inv_close) (simp add: ipc_inv_def)

lemma ipc_inv_start: "ipc_inv d0 fm \<lparr>ipc_pipes = Map.empty, ipc_mask = fm\<rparr> d0 []"
  by (simp add: ipc_inv_def)

lemma ipc_inv_stop: "ipc_inv d0 fm sv d lg \<Longrightarrow> ipc_inv d0 fm (thread_guard sv) d lg"
  by (simp add: ipc_inv_def thread_guard_def)

lemma ipc_inv_dispatch:
  assumes "ipc_inv d0 fm sv d lg" "CompletedReadCallback szq wrote err n r p (sv, d) = ((sv', d'), Some r')"
  shows "ipc_inv d0 fm sv' d' (lg @ [(p, r', snd (IPCServer_HandleRequest fm r' d))])"
proof -
  obtain d1 a where h: "IPCServer_HandleRequest fm r d = (d1, a)" by fastforce
  have m: "ipc_mask sv = fm" using assms(1) by (simp add: ipc_inv_def)
  have r: "r' = r" "d' = d1" "ipc_mask sv' = fm" "ipc_pipes sv' = (ipc_pipes sv)(p := (if wrote then Some (WritePending a) else None))"
    using assms(2) m by (auto simp: CompletedReadCallback_def h ClosePipeInstance_def split: if_splits)
  show ?thesis using assms(1) r h
    by (auto simp: ipc_inv_def run_requests_snoc Let_def split: if_splits)
qed

lemma ipc_run_inv: "ipc_run szq szr d0 fm sv d lg \<Longrightarrow> ipc_inv d0 fm sv d lg"
proof (induction rule: ipc_run.induct)
  case (Ipc_read sv d lg p wrote err n r sv' d')
  then have "sv' = ClosePipeInstance p sv" "d' = d"
    by (auto simp: CompletedReadCallback_def split: if_splits prod.splits)
  then show ?case using Ipc_read.IH ipc_inv_close by simp
next
  case (Ipc_dispatch sv d lg p wrote err n r sv' d' r')
  then show ?case using ipc_inv_dispatch by blast
qed (simp_all add: accept_client_def ipc_inv_write ipc_inv_start ipc_inv_stop)

lemma dispatched_complete:
  "CompletedReadCallback szq wrote err n r p st = (st', Some r') \<Longrightarrow> err = 0 \<and> n = szq \<and> r' = r"
  by (auto simp: CompletedReadCallback_def split: prod.splits if_splits)

section \<open>Ownership of the provider's state\<close>

declare calibration_HandleRequest.simps [simp del] smoothing_HandleRequest.simps [simp del]
  inputhealth_HandleRequest.simps [simp del]

lemmas handler_simps = calibration_HandleRequest.simps smoothing_HandleRequest.simps inputhealth_HandleRequest.simps

lemmas feature_simps = calibration_module_def smoothing_module_def inputhealth_module_def feature_masks

text \<open>The pose state with the smoothing overlay's fields blanked.\<close>

definition without_prediction :: "PoseState \<Rightarrow> PoseState" where
  "without_prediction s = s\<lparr>transforms := map (own_prediction 0 False 0) (transforms s)\<rparr>"

lemma without_prediction_set: "without_prediction (Provider_SetDevicePrediction c s) = without_prediction s"
proof -
  have "own_prediction 0 False 0 (apply_set_prediction c tf) = own_prediction 0 False 0 tf" for tf
    by (simp add: apply_set_prediction_own) (simp add: own_prediction_def)
  then have "map (own_prediction 0 False 0) (ts[i := apply_set_prediction c (ts ! i)]) = map (own_prediction 0 False 0) ts" for ts i
    by (cases "i < length ts") (simp_all add: map_update list_update_same_conv list_update_beyond)
  then show ?thesis by (simp add: Provider_SetDevicePrediction_def without_prediction_def upd_dev_def)
qed

lemma set_fingers_comp [simp]: "inputHealthComp (SetFingerSmoothingConfig c d) = inputHealthComp d"
  "inputHealthCfgPacked (SetFingerSmoothingConfig c d) = inputHealthCfgPacked d"
  by (simp_all add: SetFingerSmoothingConfig_def store_finger_low_def store_finger_header_def)

lemma ih_keeps_fingers [simp]:
  "GetFingerSmoothingConfig (SetInputHealthConfig c d) = GetFingerSmoothingConfig d"
  "GetFingerSmoothingConfig (SetInputHealthCompensation e d) = GetFingerSmoothingConfig d"
  "GetFingerSmoothingConfig (ClearInputHealthCompensation h d) = GetFingerSmoothingConfig d"
  by (simp_all add: GetFingerSmoothingConfig_def read_fingers_def SetInputHealthConfig_def SetInputHealthCompensation_def
      ClearInputHealthCompensation_def Let_def)

lemma ask_modules_SomeD:
  "ask_modules fm r ms s = Some a \<Longrightarrow> \<exists>m \<in> set ms. FeatureMask m AND fm \<noteq> 0 \<and> mod_HandleRequest m r s = Some a"
  by (induction ms) (auto split: if_splits option.splits)

lemma ask_provider:
  assumes "set ms \<subseteq> set (provider_modules E env)" "ask_modules fm r ms s = Some a"
  shows "fm AND 1 \<noteq> 0 \<and> calibration_HandleRequest E env r s = Some a \<or>
    fm AND 2 \<noteq> 0 \<and> smoothing_HandleRequest r s = Some a \<or> fm AND 4 \<noteq> 0 \<and> inputhealth_HandleRequest r s = Some a"
proof -
  obtain m where m: "m \<in> set ms" "FeatureMask m AND fm \<noteq> 0" "mod_HandleRequest m r s = Some a"
    using ask_modules_SomeD [OF assms(2)] by blast
  then have "m = calibration_module E env \<or> m = smoothing_module \<or> m = inputhealth_module"
    using assms(1) by (auto simp: provider_modules_def)
  then show ?thesis using m(2,3) by (auto simp: feature_simps and.commute)
qed

lemma calibration_owns: "calibration_HandleRequest E env r s = Some (s', a) \<Longrightarrow> pv_cfg s' = pv_cfg s"
  by (auto simp: handler_simps split: Request.splits if_splits)

lemma smoothing_owns:
  "smoothing_HandleRequest r s = Some (s', a) \<Longrightarrow> without_prediction (pv_pose s') = without_prediction (pv_pose s) \<and>
     GetInputHealthConfig (pv_cfg s') = GetInputHealthConfig (pv_cfg s) \<and> comp_map (pv_cfg s') = comp_map (pv_cfg s)"
  by (auto simp: handler_simps without_prediction_set GetInputHealthConfig_def comp_map_def split: Request.splits if_splits)

lemma inputhealth_owns:
  "inputhealth_HandleRequest r s = Some (s', a) \<Longrightarrow> pv_pose s' = pv_pose s \<and>
     GetFingerSmoothingConfig (pv_cfg s') = GetFingerSmoothingConfig (pv_cfg s)"
  by (auto simp: handler_simps split: Request.splits if_splits)

section \<open>Start and stop\<close>

lemma activate_provider:
  "activeModules (fold activateModule (provider_modules E env) (d\<lparr>featureFlags := flags, activeModules := []\<rparr>)) =
     filter (\<lambda>m. flags AND FeatureMask m \<noteq> 0) (provider_modules E env)"
  "pipeServers (fold activateModule (provider_modules E env) (d\<lparr>featureFlags := flags, activeModules := []\<rparr>)) = pipeServers d"
  "featureFlags (fold activateModule (provider_modules E env) (d\<lparr>featureFlags := flags, activeModules := []\<rparr>)) = flags"
  by (auto simp: provider_modules_def activateModule_def feature_simps)

lemma fold_start_server:
  "pipeServers (fold start_server ms d) = pipeServers d @ filter (\<lambda>fm. featureFlags d AND fm \<noteq> 0) ms \<and>
   activeModules (fold start_server ms d) = activeModules d \<and> featureFlags (fold start_server ms d) = featureFlags d \<and>
   drv (fold start_server ms d) = drv d \<and> poseShmemOpen (fold start_server ms d) = poseShmemOpen d"
proof (induction ms arbitrary: d)
  case (Cons fm ms)
  then show ?case using Cons.IH [of "start_server fm d"] by (simp add: start_server_def)
qed simp

lemma and_or_bit: "(x OR y) AND (m :: u32) \<noteq> 0 \<longleftrightarrow> x AND m \<noteq> 0 \<or> y AND m \<noteq> 0"
proof -
  have "(x OR y) AND m = x AND m OR y AND m" by (rule bit.conj_disj_distrib2)
  then show ?thesis by (metis or.left_neutral or_eq_0_iff)
qed

lemma flag_if_and: "flag_if b k f AND m \<noteq> 0 \<longleftrightarrow> (b \<and> k AND m \<noteq> 0) \<or> f AND m \<noteq> 0"
  by (auto simp: flag_if_def and_or_bit)

section \<open>Properties\<close>


definition demo_driver :: "ProviderState Driver" where
  "demo_driver = \<lparr>featureFlags = 2, activeModules = [smoothing_module], pipeServers = [2], poseShmemOpen = False,
     hooksInstalled = True, drv = \<lparr>pv_pose = demo_state, pv_cfg = DriverConfigs_new, pv_calibration = False,
       pv_smoothing = True, pv_inputhealth = False\<rparr>\<rparr>"

definition demo_request_env :: RequestEnv where
  "demo_request_env = \<lparr>re_now = 0, re_nows = (\<lambda>_. 0), re_draw = v_zero\<rparr>"


text \<open>A request changes only what the pipe it came in on owns: a handshake is answered on every pipe
  and changes nothing; a refused request changes nothing; a request on the calibration pipe leaves
  the finger and input-health settings alone, one on the smoothing pipe leaves every transform,
  fallback and input-health setting alone, one on the input-health pipe leaves the whole pose state
  and the finger settings alone.\<close>

theorem request_ownership:
  assumes "set (activeModules d) \<subseteq> set (provider_modules E env)" "IPCServer_HandleRequest fm r d = (d', a)"
  shows "activeModules d' = activeModules d \<and>
    (r = RequestHandshake \<longrightarrow> d' = d \<and> a = ResponseHandshake Version) \<and>
    (a = ResponseInvalid \<longrightarrow> d' = d) \<and>
    (fm = kFeatureCalibration \<longrightarrow> pv_cfg (drv d') = pv_cfg (drv d)) \<and>
    (fm = kFeatureSmoothing \<longrightarrow> without_prediction (pv_pose (drv d')) = without_prediction (pv_pose (drv d)) \<and>
       GetInputHealthConfig (pv_cfg (drv d')) = GetInputHealthConfig (pv_cfg (drv d)) \<and>
       comp_map (pv_cfg (drv d')) = comp_map (pv_cfg (drv d))) \<and>
    (fm = kFeatureInputHealth \<longrightarrow> pv_pose (drv d') = pv_pose (drv d) \<and>
       GetFingerSmoothingConfig (pv_cfg (drv d')) = GetFingerSmoothingConfig (pv_cfg (drv d)))"
proof (cases "r = RequestHandshake \<or> ask_modules fm r (activeModules d) (drv d) = None")
  case True
  then show ?thesis using assms(2)
    by (auto simp: IPCServer_HandleRequest_def HandleIpcRequest_def split: if_splits)
next
  case False
  then obtain s' where s': "ask_modules fm r (activeModules d) (drv d) = Some (s', a)" "d' = d\<lparr>drv := s'\<rparr>"
    using assms(2) by (auto simp: IPCServer_HandleRequest_def HandleIpcRequest_def)
  note ask = ask_provider [OF assms(1) s'(1)]
  have "a \<noteq> ResponseInvalid" using ask by (auto simp: handler_simps split: Request.splits if_splits)
  then show ?thesis using False s'(2) ask calibration_owns [of E env r "drv d" s' a]
      smoothing_owns [of r "drv d" s' a] inputhealth_owns [of r "drv d" s' a]
    by (auto simp: feature_masks)
qed

theorem request_ownership_witness:
  "snd (IPCServer_HandleRequest kFeatureSmoothing (RequestSetDevicePrediction demo_prediction) demo_driver) = ResponseSuccess \<and>
   without_prediction (pv_pose (drv (fst (IPCServer_HandleRequest kFeatureSmoothing
     (RequestSetDevicePrediction demo_prediction) demo_driver)))) = without_prediction demo_state"
proof -
  let ?r = "RequestSetDevicePrediction demo_prediction"
  obtain d' a where h: "IPCServer_HandleRequest kFeatureSmoothing ?r demo_driver = (d', a)" by fastforce
  have "set (activeModules demo_driver) \<subseteq> set (provider_modules demo_eigen demo_request_env)"
    by (simp add: demo_driver_def provider_modules_def)
  from request_ownership [OF this h] h show ?thesis
    by (auto simp: demo_driver_def IPCServer_HandleRequest_def HandleIpcRequest_def feature_simps handler_simps)
qed

text \<open>Start-up runs exactly the compiled-in modules whose feature flag is set, in order, and exactly the
  pipe servers of the set flags; clean-up leaves no module, server, segment or hook, and every module
  has let go of the provider. When hook injection fails, \<open>Init\<close> stops the servers and closes the
  segment but leaves the modules active.\<close>

theorem driver_lifecycle:
  fixes d :: "ProviderState Driver"
  assumes "pipeServers d = []" "Driver_Init flags shmemOk hooksOk (provider_modules E env) d = (d1, ok)"
    "\<not> pv_calibration (drv d)" "\<not> pv_smoothing (drv d)" "\<not> pv_inputhealth (drv d)"
  shows "ok = hooksOk \<and> activeModules d1 = filter (\<lambda>m. flags AND FeatureMask m \<noteq> 0) (provider_modules E env) \<and>
    pipeServers d1 = (if hooksOk then filter (\<lambda>fm. flags AND fm \<noteq> 0) server_order else []) \<and>
    (\<not> hooksOk \<longrightarrow> \<not> poseShmemOpen d1) \<and>
    activeModules (Driver_Cleanup d1) = [] \<and> pipeServers (Driver_Cleanup d1) = [] \<and>
    \<not> poseShmemOpen (Driver_Cleanup d1) \<and> \<not> hooksInstalled (Driver_Cleanup d1) \<and>
    \<not> pv_calibration (drv (Driver_Cleanup d1)) \<and> \<not> pv_smoothing (drv (Driver_Cleanup d1)) \<and>
    \<not> pv_inputhealth (drv (Driver_Cleanup d1))"
proof -
  let ?a = "fold activateModule (provider_modules E env) (d\<lparr>featureFlags := flags, activeModules := []\<rparr>)"
  let ?on = "filter (\<lambda>m. flags AND FeatureMask m \<noteq> 0) (provider_modules E env)"
  have d1: "d1 = fst (Driver_Init flags shmemOk hooksOk (provider_modules E env) d)" "ok = hooksOk"
    using assms(2) by (auto simp: Driver_Init_def Let_def split: if_splits)
  have act: "activeModules d1 = ?on" "drv d1 = drv ?a"
    "pipeServers d1 = (if hooksOk then filter (\<lambda>fm. flags AND fm \<noteq> 0) server_order else [])"
    "\<not> hooksOk \<longrightarrow> \<not> poseShmemOpen d1"
    using activate_provider [of E env flags d] assms(1)
    by (simp_all add: d1(1) Driver_Init_def Let_def stop_servers_def fold_start_server)
  have "\<not> pv_calibration (foldr mod_Shutdown ?on (drv ?a)) \<and> \<not> pv_smoothing (foldr mod_Shutdown ?on (drv ?a)) \<and>
      \<not> pv_inputhealth (foldr mod_Shutdown ?on (drv ?a))"
    using assms(3-5) by (cases "flags AND 1 = 0"; cases "flags AND 2 = 0"; cases "flags AND 4 = 0")
      (simp_all add: provider_modules_def activateModule_def feature_simps)
  then show ?thesis using act d1(2) by (simp add: Driver_Cleanup_def Let_def stop_servers_def)
qed

theorem driver_lifecycle_witness:
  "\<exists>d1. Driver_Init 3 True False (provider_modules demo_eigen demo_request_env)
       (demo_driver\<lparr>pipeServers := [], drv := (drv demo_driver)\<lparr>pv_smoothing := False\<rparr>\<rparr>) = (d1, False) \<and>
     activeModules d1 = [calibration_module demo_eigen demo_request_env, smoothing_module] \<and> pipeServers d1 = [] \<and>
     activeModules (Driver_Cleanup d1) = []"
proof -
  let ?d = "demo_driver\<lparr>pipeServers := [], drv := (drv demo_driver)\<lparr>pv_smoothing := False\<rparr>\<rparr>"
  obtain d1 ok where i: "Driver_Init 3 True False (provider_modules demo_eigen demo_request_env) ?d = (d1, ok)" by fastforce
  from driver_lifecycle [OF _ i] show ?thesis
    using i by (auto simp: demo_driver_def provider_modules_def feature_simps)
qed

text \<open>A feature is on exactly when its marker file is in the resources directory three levels above
  the driver's library (captions also under the old marker name), and no feature is on when that
  directory cannot be determined.\<close>

theorem feature_flags_exact:
  "(GetResourcesDir mp = None \<longrightarrow> DetectFeatureFlags mp isFile = 0) \<and>
   (\<forall>dir. GetResourcesDir mp = Some dir \<longrightarrow>
     (let on = (\<lambda>fm. DetectFeatureFlags mp isFile AND fm \<noteq> 0); has = (\<lambda>f. isFile (dir @ (CHR 0x5C # f))) in
      on kFeatureCalibration = has ''enable_calibration.flag'' \<and> on kFeatureSmoothing = has ''enable_smoothing.flag'' \<and>
      on kFeatureInputHealth = has ''enable_inputhealth.flag'' \<and> on kFeatureFaceTracking = has ''enable_facetracking.flag'' \<and>
      on kFeatureOscRouter = has ''enable_oscrouter.flag'' \<and>
      on kFeatureCaptions = (has ''enable_captions.flag'' \<or> has ''enable_translator.flag'')))"
  by (auto simp: DetectFeatureFlags_def Let_def flag_if_and FlagFileExists_def feature_masks)

theorem feature_flags_exact_witness:
  "DetectFeatureFlags (Some ''C:/drv/bin/win64/driver_wkopenvr.dll'')
     (\<lambda>f. f = ''C:/drv'' @ (CHR 0x5C # ''resources'') @ (CHR 0x5C # ''enable_translator.flag'')) AND kFeatureCaptions \<noteq> 0"
proof -
  have "GetResourcesDir (Some ''C:/drv/bin/win64/driver_wkopenvr.dll'') = Some (''C:/drv'' @ (CHR 0x5C # ''resources''))"
    by (simp add: GetResourcesDir_def MAX_PATH_def pop_segment_def is_sep_def)
  then show ?thesis
    using feature_flags_exact [of "Some ''C:/drv/bin/win64/driver_wkopenvr.dll''"
      "\<lambda>f. f = ''C:/drv'' @ (CHR 0x5C # ''resources'') @ (CHR 0x5C # ''enable_translator.flag'')"] by (simp add: Let_def)
qed

end
