(* ===== verification/ProfilePublish.thy ===== *)
theory ProfilePublish
  imports CalibrationCalc DriverHost
begin

text \<open>
  How the calibration overlay gets a profile to the driver (\<open>Calibration.cpp\<close>): the caches of what was last sent,
  \<open>SendDeviceTransformIfChanged\<close>, \<open>SendFallbackIfChanged\<close> and \<open>ScanAndApplyProfile\<close>. A call of
  \<open>Driver.SendBlocking\<close> can throw, which ends the scan where it is; \<open>up n\<close> says whether the \<open>n\<close>-th call returns.
  The delivered requests are kept in order in \<open>ps_sent\<close>. The answers of OpenVR are the record \<open>ScanEnv\<close>. The
  log of adopted and lost trackers is left out. \<open>SolverMath\<close> is Eigen.
\<close>

section \<open>The profile\<close>

record StandbyDevice =
  sd_trackingSystem :: string
  sd_model :: string
  sd_serial :: string

record AdditionalCalibration =
  ax_targetTrackingSystem :: string
  ax_targetStandby :: StandbyDevice
  ax_referenceID :: int
  ax_targetID :: int
  ax_calibratedRotation :: Vector3d
  ax_calibratedTranslation :: Vector3d
  ax_calibratedScale :: double
  ax_lockMode :: int
  ax_refToTargetPose :: AffineCompact3d
  ax_relativePosCalibrated :: bool
  ax_autoLockHistory :: "AffineCompact3d list"
  ax_autoLockEffectivelyLocked :: bool
  ax_lockRelativePosition :: bool
  ax_calc :: Calc
  ax_valid :: bool
  ax_enabled :: bool

record Chaperone =
  ch_valid :: bool
  ch_autoApply :: bool
  ch_geometry :: "HmdVector3d_t list list"
  ch_standingCenter :: "float32 list list"
  ch_playSpaceSize :: "float32 \<times> float32"

text \<open>The part of \<open>CalibrationContext\<close> that a scan reads.\<close>

record CalProfile =
  cx_state :: CalibrationState
  cx_targetID :: int
  cx_targetTrackingSystem :: string
  cx_referenceTrackingSystem :: string
  cx_calibratedRotation :: Vector3d
  cx_calibratedTranslation :: Vector3d
  cx_calibratedScale :: double
  cx_enabled :: bool
  cx_validProfile :: bool
  cx_quashTargetInContinuous :: bool
  cx_recalibrateOnMovement :: bool
  cx_alignmentSpeedParams :: AlignmentSpeedParams
  cx_additionalCalibrations :: "AdditionalCalibration list"
  cx_chaperone :: Chaperone

section \<open>What was sent\<close>

text \<open>\<open>None\<close> in \<open>g_lastApplied\<close> is a cache entry that is not valid.\<close>

record PublishState =
  g_lastApplied :: "SetDeviceTransform option list"
  g_lastSeenSerial :: "string list"
  g_lastTargetSystem :: string
  g_lastEnabled :: bool
  g_lastAlignmentSpeed :: AlignmentSpeedParams
  g_alignmentSpeedSent :: bool
  g_lastFallback :: SetTrackingSystemFallback
  g_lastFallbackSent :: bool
  g_lastFallbacksBySystem :: "string \<rightharpoonup> SetTrackingSystemFallback"
  g_snapNextProfileApply :: bool
  ps_attempts :: nat
  ps_sent :: "Request list"

definition q_of_vec4 :: "double \<Rightarrow> double \<Rightarrow> double \<Rightarrow> double \<Rightarrow> HmdQuaternion_t" where
  "q_of_vec4 w x y z = \<lparr>qw = w, qx = x, qy = y, qz = z\<rparr>"

definition SetTrackingSystemFallback_zero :: SetTrackingSystemFallback where
  "SetTrackingSystemFallback_zero = \<lparr>stf_system_name = [], stf_enabled = False, stf_translation = (0, 0, 0),
     stf_rotation = q_of_vec4 0 0 0 0, stf_scale = 0, stf_predictionSmoothness = 0, stf_recalibrateOnMovement = False\<rparr>"

definition AlignmentSpeedParams_zero :: AlignmentSpeedParams where
  "AlignmentSpeedParams_zero = \<lparr>thr_trans_tiny = 0, thr_trans_small = 0, thr_trans_large = 0, thr_rot_tiny = 0, thr_rot_small = 0,
     thr_rot_large = 0, align_speed_tiny = 0, align_speed_small = 0, align_speed_large = 0\<rparr>"

definition PublishState_new :: PublishState where
  "PublishState_new = \<lparr>g_lastApplied = replicate k_unMaxTrackedDeviceCount None, g_lastSeenSerial = replicate k_unMaxTrackedDeviceCount [],
     g_lastTargetSystem = [], g_lastEnabled = False, g_lastAlignmentSpeed = AlignmentSpeedParams_zero, g_alignmentSpeedSent = False,
     g_lastFallback = SetTrackingSystemFallback_zero, g_lastFallbackSent = False, g_lastFallbacksBySystem = Map.empty,
     g_snapNextProfileApply = False, ps_attempts = 0, ps_sent = []\<rparr>"

definition SendBlocking :: "(nat \<Rightarrow> bool) \<Rightarrow> Request \<Rightarrow> PublishState \<Rightarrow> PublishState \<times> bool" where
  "SendBlocking up r s =
     (let s1 = s\<lparr>ps_attempts := ps_attempts s + 1\<rparr>
      in if up (ps_attempts s) then (s1\<lparr>ps_sent := ps_sent s @ [r]\<rparr>, True) else (s1, False))"

text \<open>The code after a call that may throw.\<close>

definition and_then :: "PublishState \<times> bool \<Rightarrow> (PublishState \<Rightarrow> PublishState \<times> bool) \<Rightarrow> PublishState \<times> bool" where
  "and_then r f = (case r of (s, ok) \<Rightarrow> if ok then f s else (s, False))"

text \<open>The comparison of doubles: a value that is not a number equals nothing.\<close>

definition fp_eq :: "double \<Rightarrow> double \<Rightarrow> bool" where
  "fp_eq a b \<longleftrightarrow> a = b \<and> \<not> isnan a"

fun vec_eq :: "HmdVector3d_t \<Rightarrow> HmdVector3d_t \<Rightarrow> bool" where
  "vec_eq (a, b, c) (x, y, z) \<longleftrightarrow> fp_eq a x \<and> fp_eq b y \<and> fp_eq c z"

definition quat_eq :: "HmdQuaternion_t \<Rightarrow> HmdQuaternion_t \<Rightarrow> bool" where
  "quat_eq a b \<longleftrightarrow> fp_eq (qw a) (qw b) \<and> fp_eq (qx a) (qx b) \<and> fp_eq (qy a) (qy b) \<and> fp_eq (qz a) (qz b)"

definition TransformPayloadEqual :: "SetDeviceTransform \<Rightarrow> SetDeviceTransform \<Rightarrow> bool" where
  "TransformPayloadEqual a b \<longleftrightarrow>
     sdt_openVRID a = sdt_openVRID b \<and> sdt_enabled a = sdt_enabled b \<and> sdt_updateTranslation a = sdt_updateTranslation b
     \<and> sdt_updateRotation a = sdt_updateRotation b \<and> sdt_updateScale a = sdt_updateScale b \<and> sdt_lerp a = sdt_lerp b
     \<and> sdt_quash a = sdt_quash b \<and> sdt_predictionSmoothness a = sdt_predictionSmoothness b
     \<and> sdt_recalibrateOnMovement a = sdt_recalibrateOnMovement b \<and> fp_eq (sdt_scale a) (sdt_scale b)
     \<and> vec_eq (sdt_translation a) (sdt_translation b) \<and> quat_eq (sdt_rotation a) (sdt_rotation b)
     \<and> sdt_target_system a = sdt_target_system b"

definition FallbackPayloadEqual :: "SetTrackingSystemFallback \<Rightarrow> SetTrackingSystemFallback \<Rightarrow> bool" where
  "FallbackPayloadEqual a b \<longleftrightarrow>
     stf_system_name a = stf_system_name b \<and> stf_enabled a = stf_enabled b \<and> stf_predictionSmoothness a = stf_predictionSmoothness b
     \<and> stf_recalibrateOnMovement a = stf_recalibrateOnMovement b \<and> fp_eq (stf_scale a) (stf_scale b)
     \<and> vec_eq (stf_translation a) (stf_translation b) \<and> quat_eq (stf_rotation a) (stf_rotation b)"

definition SetTargetSystemField :: "string \<Rightarrow> SetDeviceTransform \<Rightarrow> SetDeviceTransform" where
  "SetTargetSystemField system p = p\<lparr>sdt_target_system := strncpy_field MaxTrackingSystemNameLen system\<rparr>"

definition SendDeviceTransformIfChanged :: "(nat \<Rightarrow> bool) \<Rightarrow> nat \<Rightarrow> SetDeviceTransform \<Rightarrow> PublishState \<Rightarrow> PublishState \<times> bool" where
  "SendDeviceTransformIfChanged up i p s =
     (if k_unMaxTrackedDeviceCount \<le> i then (s, True)
      else case g_lastApplied s ! i of
        Some q \<Rightarrow> if TransformPayloadEqual q p then (s, True)
                  else and_then (SendBlocking up (RequestSetDeviceTransform p) s) (\<lambda>s. (s\<lparr>g_lastApplied := (g_lastApplied s)[i := Some p]\<rparr>, True))
      | None \<Rightarrow> and_then (SendBlocking up (RequestSetDeviceTransform p) s) (\<lambda>s. (s\<lparr>g_lastApplied := (g_lastApplied s)[i := Some p]\<rparr>, True)))"

fun vec_scaled :: "HmdVector3d_t \<Rightarrow> double \<Rightarrow> HmdVector3d_t" where
  "vec_scaled (x, y, z) f = (x * f, y * f, z * f)"

definition fallback_payload :: "string \<Rightarrow> bool \<Rightarrow> Vector3d \<Rightarrow> Quaterniond \<Rightarrow> double \<Rightarrow> byte \<Rightarrow> bool \<Rightarrow> SetTrackingSystemFallback" where
  "fallback_payload name en translationCm rot scale smoothness recal =
     \<lparr>stf_system_name = strncpy_field MaxTrackingSystemNameLen name, stf_enabled = en, stf_translation = vec_scaled translationCm (lit 0.01),
      stf_rotation = rot, stf_scale = scale, stf_predictionSmoothness = smoothness, stf_recalibrateOnMovement = recal\<rparr>"

definition SendFallbackIfChanged ::
  "(nat \<Rightarrow> bool) \<Rightarrow> string \<Rightarrow> bool \<Rightarrow> Vector3d \<Rightarrow> Quaterniond \<Rightarrow> double \<Rightarrow> byte \<Rightarrow> bool \<Rightarrow> PublishState \<Rightarrow> PublishState \<times> bool" where
  "SendFallbackIfChanged up name en translationCm rot scale smoothness recal s =
     (let p = fallback_payload name en translationCm rot scale smoothness recal;
          go = and_then (SendBlocking up (RequestSetTrackingSystemFallback p) s)
                 (\<lambda>s. (s\<lparr>g_lastFallbacksBySystem := (g_lastFallbacksBySystem s)(name \<mapsto> p), g_lastFallback := p, g_lastFallbackSent := True\<rparr>, True))
      in case g_lastFallbacksBySystem s name of
           Some q \<Rightarrow> if FallbackPayloadEqual q p then (s, True) else go
         | None \<Rightarrow> go)"

definition InvalidateTransformCacheForId :: "nat \<Rightarrow> PublishState \<Rightarrow> PublishState" where
  "InvalidateTransformCacheForId i s =
     (if k_unMaxTrackedDeviceCount \<le> i then s
      else s\<lparr>g_lastApplied := (g_lastApplied s)[i := None], g_lastSeenSerial := (g_lastSeenSerial s)[i := []]\<rparr>)"

definition InvalidateAllTransformCaches :: "PublishState \<Rightarrow> PublishState" where
  "InvalidateAllTransformCaches s = s\<lparr>g_lastApplied := map (\<lambda>_. None) (g_lastApplied s), g_lastSeenSerial := map (\<lambda>_. []) (g_lastSeenSerial s),
     g_alignmentSpeedSent := False, g_lastFallbackSent := False\<rparr>"

definition transform_payload :: "nat \<Rightarrow> bool \<Rightarrow> HmdVector3d_t \<Rightarrow> HmdQuaternion_t \<Rightarrow> double \<Rightarrow> SetDeviceTransform" where
  "transform_payload i en t r scale = \<lparr>sdt_openVRID = of_nat i, sdt_enabled = en, sdt_updateTranslation = True, sdt_updateRotation = True,
     sdt_updateScale = True, sdt_translation = t, sdt_rotation = r, sdt_scale = scale, sdt_lerp = False, sdt_quash = False,
     sdt_target_system = [], sdt_predictionSmoothness = 0, sdt_recalibrateOnMovement = False\<rparr>"

definition disable_payload :: "nat \<Rightarrow> string \<Rightarrow> SetDeviceTransform" where
  "disable_payload i system = SetTargetSystemField system (transform_payload i False (0, 0, 0) (q_of_vec4 1 0 0 0) 1)"

definition ResetAndDisableOffsets :: "(nat \<Rightarrow> bool) \<Rightarrow> nat \<Rightarrow> string \<Rightarrow> PublishState \<Rightarrow> PublishState \<times> bool" where
  "ResetAndDisableOffsets up i system = SendDeviceTransformIfChanged up i (disable_payload i system)"

section \<open>The scan\<close>

datatype TrackedDeviceClass = TrackedDeviceClass_Invalid | TrackedDeviceClass_HMD | TrackedDeviceClass_Controller
  | TrackedDeviceClass_GenericTracker | TrackedDeviceClass_TrackingReference | TrackedDeviceClass_DisplayRedirect

text \<open>The answers of OpenVR; \<open>None\<close> is a property error. The last two are what the buffer holds after the call.\<close>

record ScanEnv =
  env_class :: "nat \<Rightarrow> TrackedDeviceClass"
  env_serial :: "nat \<Rightarrow> string option"
  env_trackingSystem :: "nat \<Rightarrow> string option"
  env_eyeToHeadLeft :: "float32 list list"
  env_renderModel :: "nat \<Rightarrow> string"
  env_dongle :: "nat \<Rightarrow> string"
  env_quadCount :: nat

definition isCrystalHmd :: "float32 list list \<Rightarrow> bool" where
  "isCrystalHmd m \<longleftrightarrow> m ! 0 ! 0 = 1 \<and> m ! 0 ! 1 = 0 \<and> m ! 0 ! 2 = 0
     \<and> m ! 1 ! 0 = 0 \<and> m ! 1 ! 1 = 1 \<and> m ! 1 ! 2 = 0 \<and> m ! 1 ! 3 = 0
     \<and> m ! 2 ! 0 = 0 \<and> m ! 2 ! 1 = 0 \<and> m ! 2 ! 2 = 1 \<and> m ! 2 ! 3 = 0"

definition hmd_system :: "ScanEnv \<Rightarrow> string \<Rightarrow> string" where
  "hmd_system env sys = (if sys = ''aapvr'' \<and> isCrystalHmd (env_eyeToHeadLeft env) then ''Pimax Crystal HMD'' else sys)"

definition device_system :: "ScanEnv \<Rightarrow> nat \<Rightarrow> string \<Rightarrow> string" where
  "device_system env i sys =
     (if env_class env i = TrackedDeviceClass_Controller \<and> sys = ''oculus'' \<and> str_contains ''{aapvr}'' (env_renderModel env i)
         \<and> str_contains ''crystal'' (env_renderModel env i) \<and> str_contains ''lighthouse'' (env_dongle env i)
      then ''Pimax Crystal Controllers'' else sys)"

text \<open>The target system or the validity of the profile has changed: a fallback that was sent for the old system is
  disabled, and the caches are emptied.\<close>

definition disable_fallback :: "string \<Rightarrow> SetTrackingSystemFallback" where
  "disable_fallback name = SetTrackingSystemFallback_zero\<lparr>stf_system_name := strncpy_field MaxTrackingSystemNameLen name,
     stf_rotation := q_of_vec4 1 0 0 0, stf_scale := 1\<rparr>"

definition scan_target_changed :: "(nat \<Rightarrow> bool) \<Rightarrow> 'a CalProfile_scheme \<Rightarrow> PublishState \<Rightarrow> PublishState \<times> bool" where
  "scan_target_changed up ctx s =
     (let changed = (cx_targetTrackingSystem ctx \<noteq> g_lastTargetSystem s)
      in if changed \<or> cx_validProfile ctx \<noteq> g_lastEnabled s
         then and_then
                (if changed \<and> g_lastTargetSystem s \<noteq> [] \<and> g_lastFallbackSent s \<and> stf_enabled (g_lastFallback s)
                 then SendBlocking up (RequestSetTrackingSystemFallback (disable_fallback (g_lastTargetSystem s))) s else (s, True))
                (\<lambda>s. ((InvalidateAllTransformCaches s)\<lparr>g_lastTargetSystem := cx_targetTrackingSystem ctx, g_lastEnabled := cx_validProfile ctx\<rparr>, True))
         else (s, True))"

definition scan_alignment :: "(nat \<Rightarrow> bool) \<Rightarrow> 'a CalProfile_scheme \<Rightarrow> PublishState \<Rightarrow> PublishState \<times> bool" where
  "scan_alignment up ctx s =
     (if \<not> g_alignmentSpeedSent s \<or> g_lastAlignmentSpeed s \<noteq> cx_alignmentSpeedParams ctx
      then and_then (SendBlocking up (RequestSetAlignmentSpeedParams (cx_alignmentSpeedParams ctx)) s)
             (\<lambda>s. (s\<lparr>g_lastAlignmentSpeed := cx_alignmentSpeedParams ctx, g_alignmentSpeedSent := True\<rparr>, True))
      else (s, True))"

definition scan_primary_fallback :: "SolverMath \<Rightarrow> (nat \<Rightarrow> bool) \<Rightarrow> 'a CalProfile_scheme \<Rightarrow> PublishState \<Rightarrow> PublishState \<times> bool" where
  "scan_primary_fallback M up ctx s =
     (if cx_validProfile ctx \<and> cx_targetTrackingSystem ctx \<noteq> []
      then SendFallbackIfChanged up (cx_targetTrackingSystem ctx) True (cx_calibratedTranslation ctx) (VRRotationQuat M (cx_calibratedRotation ctx))
             (cx_calibratedScale ctx) 0 (cx_recalibrateOnMovement ctx) s
      else (s, True))"

definition scan_extra_fallback :: "SolverMath \<Rightarrow> (nat \<Rightarrow> bool) \<Rightarrow> 'a CalProfile_scheme \<Rightarrow> AdditionalCalibration \<Rightarrow> PublishState \<Rightarrow> PublishState \<times> bool" where
  "scan_extra_fallback M up ctx x s =
     (if ax_enabled x \<and> ax_valid x \<and> ax_targetTrackingSystem x \<noteq> [] \<and> ax_targetTrackingSystem x \<noteq> cx_targetTrackingSystem ctx
      then SendFallbackIfChanged up (ax_targetTrackingSystem x) True (ax_calibratedTranslation x) (VRRotationQuat M (ax_calibratedRotation x))
             (ax_calibratedScale x) 0 (cx_recalibrateOnMovement ctx) s
      else (s, True))"

fun scan_extras :: "SolverMath \<Rightarrow> (nat \<Rightarrow> bool) \<Rightarrow> 'a CalProfile_scheme \<Rightarrow> AdditionalCalibration list \<Rightarrow> PublishState \<Rightarrow> PublishState \<times> bool" where
  "scan_extras M up ctx [] s = (s, True)"
| "scan_extras M up ctx (x # xs) s = and_then (scan_extra_fallback M up ctx x s) (scan_extras M up ctx xs)"

text \<open>A device whose serial number differs from the last one seen under the index.\<close>

definition scan_serial :: "(nat \<Rightarrow> bool) \<Rightarrow> ScanEnv \<Rightarrow> nat \<Rightarrow> PublishState \<Rightarrow> PublishState \<times> bool" where
  "scan_serial up env i s =
     (let serial = (case env_serial env i of Some x \<Rightarrow> x | None \<Rightarrow> [])
      in if g_lastSeenSerial s ! i \<noteq> serial
         then and_then (if g_lastSeenSerial s ! i \<noteq> [] then ResetAndDisableOffsets up i [] (s\<lparr>g_lastApplied := (g_lastApplied s)[i := None]\<rparr>) else (s, True))
                (\<lambda>s. (s\<lparr>g_lastSeenSerial := (g_lastSeenSerial s)[i := serial]\<rparr>, True))
         else (s, True))"

text \<open>The payload for a device of the target system.\<close>

definition enabled_payload :: "SolverMath \<Rightarrow> 'a CalProfile_scheme \<Rightarrow> nat \<Rightarrow> bool \<Rightarrow> SetDeviceTransform" where
  "enabled_payload M ctx i lerp =
     (SetTargetSystemField (cx_targetTrackingSystem ctx)
        (transform_payload i True (vec_scaled (cx_calibratedTranslation ctx) (lit 0.01)) (VRRotationQuat M (cx_calibratedRotation ctx)) (cx_calibratedScale ctx)))
     \<lparr>sdt_lerp := lerp, sdt_quash := cx_state ctx = CalContinuous \<and> int i = cx_targetID ctx \<and> cx_quashTargetInContinuous ctx,
      sdt_recalibrateOnMovement := cx_recalibrateOnMovement ctx\<rparr>"

definition freshly_adopted :: "nat \<Rightarrow> PublishState \<Rightarrow> bool" where
  "freshly_adopted i s = (case g_lastApplied s ! i of None \<Rightarrow> True | Some p \<Rightarrow> \<not> sdt_enabled p)"

text \<open>What the scan decides for a device: \<open>en\<close> is the state of \<open>ctx.enabled\<close> when the device is reached. The
  headset is always disabled, and turns \<open>ctx.enabled\<close> off when it is of another tracking system.\<close>

definition scan_decision :: "SolverMath \<Rightarrow> ScanEnv \<Rightarrow> 'a CalProfile_scheme \<Rightarrow> bool \<Rightarrow> bool \<Rightarrow> nat \<Rightarrow> PublishState \<Rightarrow> SetDeviceTransform \<times> bool" where
  "scan_decision M env ctx en snap i s =
     (if \<not> en then (disable_payload i [], en)
      else case env_trackingSystem env i of
        None \<Rightarrow> (disable_payload i [], en)
      | Some sys \<Rightarrow>
          if i = 0 then let sys1 = hmd_system env sys in (disable_payload i sys1, sys1 = cx_referenceTrackingSystem ctx)
          else let sys1 = device_system env i sys
               in if sys1 \<noteq> cx_targetTrackingSystem ctx then (disable_payload i sys1, en)
                  else (enabled_payload M ctx i (ShouldBlendCycle (cx_state ctx = CalContinuous) (freshly_adopted i s) snap), en))"

definition scan_device ::
  "SolverMath \<Rightarrow> (nat \<Rightarrow> bool) \<Rightarrow> ScanEnv \<Rightarrow> 'a CalProfile_scheme \<Rightarrow> bool \<Rightarrow> nat \<Rightarrow> PublishState \<Rightarrow> bool \<Rightarrow> PublishState \<times> bool \<times> bool" where
  "scan_device M up env ctx snap i s en =
     (if env_class env i = TrackedDeviceClass_Invalid
      then (if g_lastSeenSerial s ! i \<noteq> [] \<or> g_lastApplied s ! i \<noteq> None then InvalidateTransformCacheForId i s else s, True, en)
      else case scan_serial up env i s of (s1, ok) \<Rightarrow>
             if \<not> ok then (s1, False, en)
             else case scan_decision M env ctx en snap i s1 of (p, en1) \<Rightarrow>
                    case SendDeviceTransformIfChanged up i p s1 of (s2, ok2) \<Rightarrow> (s2, ok2, en1))"

fun scan_devices ::
  "SolverMath \<Rightarrow> (nat \<Rightarrow> bool) \<Rightarrow> ScanEnv \<Rightarrow> 'a CalProfile_scheme \<Rightarrow> bool \<Rightarrow> nat list \<Rightarrow> PublishState \<Rightarrow> bool \<Rightarrow> PublishState \<times> bool \<times> bool" where
  "scan_devices M up env ctx snap [] s en = (s, True, en)"
| "scan_devices M up env ctx snap (i # is) s en =
     (case scan_device M up env ctx snap i s en of (s1, ok, en1) \<Rightarrow>
        if ok then scan_devices M up env ctx snap is s1 en1 else (s1, False, en1))"

definition scan_prepare :: "SolverMath \<Rightarrow> (nat \<Rightarrow> bool) \<Rightarrow> 'a CalProfile_scheme \<Rightarrow> PublishState \<Rightarrow> PublishState \<times> bool" where
  "scan_prepare M up ctx s =
     and_then (and_then (and_then (scan_target_changed up ctx s) (scan_alignment up ctx)) (scan_primary_fallback M up ctx))
       (scan_extras M up ctx (cx_additionalCalibrations ctx))"

text \<open>The result is the state, whether the scan ran to its end, the new \<open>ctx.enabled\<close>, and whether the chaperone was applied.\<close>

definition ScanAndApplyProfile ::
  "SolverMath \<Rightarrow> (nat \<Rightarrow> bool) \<Rightarrow> ScanEnv \<Rightarrow> 'a CalProfile_scheme \<Rightarrow> PublishState \<Rightarrow> PublishState \<times> bool \<times> bool \<times> bool" where
  "ScanAndApplyProfile M up env ctx s =
     (let snap = g_snapNextProfileApply s in
      case scan_prepare M up ctx s of (s1, ok) \<Rightarrow>
        if \<not> ok then (s1, False, cx_validProfile ctx, False)
        else case scan_devices M up env ctx snap [0..<k_unMaxTrackedDeviceCount] s1 (cx_validProfile ctx) of (s2, ok2, en) \<Rightarrow>
          if \<not> ok2 then (s2, False, en, False)
          else (if snap then s2\<lparr>g_snapNextProfileApply := False\<rparr> else s2, True, en,
                en \<and> ch_valid (cx_chaperone ctx) \<and> ch_autoApply (cx_chaperone ctx) \<and> env_quadCount env \<noteq> length (ch_geometry (cx_chaperone ctx))))"

section \<open>What the driver was told last\<close>

fun transform_for :: "nat \<Rightarrow> Request \<Rightarrow> SetDeviceTransform option" where
  "transform_for i (RequestSetDeviceTransform p) = (if unat (sdt_openVRID p) = i then Some p else None)"
| "transform_for i _ = None"

definition last_transform :: "nat \<Rightarrow> Request list \<Rightarrow> SetDeviceTransform option" where
  "last_transform i rs = fold (\<lambda>r acc. case transform_for i r of Some p \<Rightarrow> Some p | None \<Rightarrow> acc) rs None"

fun fallback_for :: "string \<Rightarrow> Request \<Rightarrow> SetTrackingSystemFallback option" where
  "fallback_for name (RequestSetTrackingSystemFallback p) = (if stf_system_name p = name then Some p else None)"
| "fallback_for name _ = None"

definition last_fallback :: "string \<Rightarrow> Request list \<Rightarrow> SetTrackingSystemFallback option" where
  "last_fallback name rs = fold (\<lambda>r acc. case fallback_for name r of Some p \<Rightarrow> Some p | None \<Rightarrow> acc) rs None"

lemma last_transform_simps [simp]:
  "last_transform i [] = None"
  "last_transform i (rs @ [r]) = (case transform_for i r of Some p \<Rightarrow> Some p | None \<Rightarrow> last_transform i rs)"
  by (simp_all add: last_transform_def split: option.split)

lemma last_fallback_simps [simp]:
  "last_fallback n [] = None"
  "last_fallback n (rs @ [r]) = (case fallback_for n r of Some p \<Rightarrow> Some p | None \<Rightarrow> last_fallback n rs)"
  by (simp_all add: last_fallback_def split: option.split)

text \<open>A valid cache entry is the last transform the driver was given for the device.\<close>

definition pub_inv :: "PublishState \<Rightarrow> bool" where
  "pub_inv s \<longleftrightarrow> length (g_lastApplied s) = k_unMaxTrackedDeviceCount \<and> length (g_lastSeenSerial s) = k_unMaxTrackedDeviceCount
     \<and> (\<forall>i < k_unMaxTrackedDeviceCount. \<forall>p. g_lastApplied s ! i = Some p \<longrightarrow> last_transform i (ps_sent s) = Some p)"

lemma pub_inv_new: "pub_inv PublishState_new"
  by (simp add: pub_inv_def PublishState_new_def)

lemma nth_update_None: "xs[i := None] ! j = Some p \<Longrightarrow> j < length xs \<Longrightarrow> xs ! j = Some p"
  by (cases "i = j") auto

lemma pub_inv_drop: "pub_inv s \<Longrightarrow> pub_inv (s\<lparr>g_lastApplied := (g_lastApplied s)[i := None]\<rparr>)"
  unfolding pub_inv_def by (auto dest: nth_update_None)

lemma and_then_cases:
  assumes "and_then r f = (s', ok)"
  obtains s where "r = (s, True)" "f s = (s', ok)" | "r = (s', False)" "\<not> ok"
  using assms by (cases r) (auto simp: and_then_def split: if_splits)

lemma SendBlocking_cases:
  assumes "SendBlocking up r s = (s', ok)"
  shows "s' = (if ok then s\<lparr>ps_attempts := ps_attempts s + 1, ps_sent := ps_sent s @ [r]\<rparr> else s\<lparr>ps_attempts := ps_attempts s + 1\<rparr>)"
  using assms by (auto simp: SendBlocking_def Let_def split: if_splits)

lemma vec_eq_iff: "vec_eq u v \<Longrightarrow> u = v"
  by (cases u; cases v) (auto simp: fp_eq_def)

lemma TransformPayloadEqualD: "TransformPayloadEqual a b \<Longrightarrow> a = b"
  by (rule SetDeviceTransform.equality) (auto simp: TransformPayloadEqual_def fp_eq_def quat_eq_def dest: vec_eq_iff)

lemma FallbackPayloadEqualD: "FallbackPayloadEqual a b \<Longrightarrow> a = b"
  by (rule SetTrackingSystemFallback.equality) (auto simp: FallbackPayloadEqual_def fp_eq_def quat_eq_def dest: vec_eq_iff)

lemma unat_device: "i < k_unMaxTrackedDeviceCount \<Longrightarrow> unat (of_nat i :: u32) = i"
  by (rule unat_of_nat_u32) (simp add: k_unMaxTrackedDeviceCount_def)

lemma payload_id [simp]:
  "sdt_openVRID (disable_payload i sys) = of_nat i" "sdt_openVRID (enabled_payload M ctx i l) = of_nat i"
  "\<not> sdt_enabled (disable_payload i sys)" "sdt_enabled (enabled_payload M ctx i l)"
  by (simp_all add: disable_payload_def enabled_payload_def SetTargetSystemField_def transform_payload_def)

text \<open>Sending a transform: whether or not it was in the cache, afterwards it is what the driver was told.\<close>

lemma SendDeviceTransformIfChanged_spec:
  assumes inv: "pub_inv s" and i: "i < k_unMaxTrackedDeviceCount" and p: "sdt_openVRID p = of_nat i"
    and "SendDeviceTransformIfChanged up i p s = (s', ok)"
  shows "pub_inv s'" "g_lastSeenSerial s' = g_lastSeenSerial s" "g_snapNextProfileApply s' = g_snapNextProfileApply s"
    "ok \<Longrightarrow> last_transform i (ps_sent s') = Some p" "ok \<Longrightarrow> g_lastApplied s' = (g_lastApplied s)[i := Some p]"
    "j \<noteq> i \<Longrightarrow> last_transform j (ps_sent s') = last_transform j (ps_sent s)"
    "g_lastFallbacksBySystem s' = g_lastFallbacksBySystem s" "last_fallback n (ps_sent s') = last_fallback n (ps_sent s)"
proof -
  consider (same) "g_lastApplied s ! i = Some p" "s' = s" ok
    | (sent) "ok" "s' = s\<lparr>ps_attempts := ps_attempts s + 1, ps_sent := ps_sent s @ [RequestSetDeviceTransform p], g_lastApplied := (g_lastApplied s)[i := Some p]\<rparr>"
    | (fail) "\<not> ok" "s' = s\<lparr>ps_attempts := ps_attempts s + 1\<rparr>"
    using assms(4) i
    by (fastforce simp: SendDeviceTransformIfChanged_def split: option.splits if_splits elim!: and_then_cases dest: SendBlocking_cases TransformPayloadEqualD)
  note c = this
  have u: "unat (sdt_openVRID p) = i" using p i by (simp add: unat_device)
  have len: "length (g_lastApplied s) = k_unMaxTrackedDeviceCount" using inv by (simp add: pub_inv_def)
  show "pub_inv s'" using c by cases (use inv u in \<open>auto simp: pub_inv_def nth_list_update split: if_splits\<close>)
  have "g_lastSeenSerial s' = g_lastSeenSerial s \<and> g_snapNextProfileApply s' = g_snapNextProfileApply s
    \<and> g_lastFallbacksBySystem s' = g_lastFallbacksBySystem s \<and> last_fallback n (ps_sent s') = last_fallback n (ps_sent s)"
    using c by cases simp_all
  then show "g_lastSeenSerial s' = g_lastSeenSerial s" "g_snapNextProfileApply s' = g_snapNextProfileApply s"
    "g_lastFallbacksBySystem s' = g_lastFallbacksBySystem s" "last_fallback n (ps_sent s') = last_fallback n (ps_sent s)" by simp_all
  show "ok \<Longrightarrow> last_transform i (ps_sent s') = Some p" using c by cases (use inv i u in \<open>auto simp: pub_inv_def\<close>)
  show "ok \<Longrightarrow> g_lastApplied s' = (g_lastApplied s)[i := Some p]" using c by cases (use len i in \<open>auto intro: list_update_same_conv [THEN iffD2, symmetric]\<close>)
  show "j \<noteq> i \<Longrightarrow> last_transform j (ps_sent s') = last_transform j (ps_sent s)" using c by cases (use u in simp_all)
qed

section \<open>A scan keeps the caches true\<close>

text \<open>The stages before the devices send no transforms.\<close>

definition quiet :: "PublishState \<Rightarrow> PublishState \<Rightarrow> bool" where
  "quiet s s' \<longleftrightarrow> g_snapNextProfileApply s' = g_snapNextProfileApply s \<and> (\<forall>i. last_transform i (ps_sent s') = last_transform i (ps_sent s))
     \<and> (pub_inv s \<longrightarrow> pub_inv s')"

lemma quiet_refl [simp]: "quiet s s"
  by (simp add: quiet_def)

lemma quiet_trans: "quiet s s' \<Longrightarrow> quiet s' s'' \<Longrightarrow> quiet s s''"
  by (simp add: quiet_def)

lemma scan_target_changed_quiet: "scan_target_changed up ctx s = (s', ok) \<Longrightarrow> quiet s s'"
  by (auto simp: scan_target_changed_def Let_def InvalidateAllTransformCaches_def quiet_def pub_inv_def
      split: if_splits elim!: and_then_cases dest!: SendBlocking_cases)

lemma scan_alignment_quiet: "scan_alignment up ctx s = (s', ok) \<Longrightarrow> quiet s s'"
  by (auto simp: scan_alignment_def quiet_def pub_inv_def split: if_splits elim!: and_then_cases dest!: SendBlocking_cases)

lemma SendFallbackIfChanged_quiet: "SendFallbackIfChanged up n en t r c sm rc s = (s', ok) \<Longrightarrow> quiet s s'"
  by (auto simp: SendFallbackIfChanged_def Let_def quiet_def pub_inv_def split: if_splits option.splits elim!: and_then_cases dest!: SendBlocking_cases)

lemma scan_extras_quiet: "scan_extras M up ctx xs s = (s', ok) \<Longrightarrow> quiet s s'"
proof (induction xs arbitrary: s)
  case (Cons x xs)
  have q: "scan_extra_fallback M up ctx x s = (t, b) \<Longrightarrow> quiet s t" for t b
    by (auto simp: scan_extra_fallback_def split: if_splits dest: SendFallbackIfChanged_quiet)
  from Cons.prems show ?case by (auto elim!: and_then_cases dest: q Cons.IH intro: quiet_trans)
qed simp

lemma scan_prepare_quiet: "scan_prepare M up ctx s = (s', ok) \<Longrightarrow> quiet s s'"
proof -
  have f: "scan_primary_fallback M up ctx s = (t, b) \<Longrightarrow> quiet s t" for s t b
    by (auto simp: scan_primary_fallback_def split: if_splits dest: SendFallbackIfChanged_quiet)
  show "scan_prepare M up ctx s = (s', ok) \<Longrightarrow> quiet s s'"
    unfolding scan_prepare_def
    by (auto elim!: and_then_cases dest!: scan_target_changed_quiet scan_alignment_quiet f scan_extras_quiet intro: quiet_trans)
qed

text \<open>One device.\<close>

lemma scan_serial_spec:
  assumes "pub_inv s" "i < k_unMaxTrackedDeviceCount" "scan_serial up env i s = (s', ok)"
  shows "pub_inv s' \<and> g_snapNextProfileApply s' = g_snapNextProfileApply s \<and> (\<forall>j. j \<noteq> i \<longrightarrow> last_transform j (ps_sent s') = last_transform j (ps_sent s))"
proof (cases "g_lastSeenSerial s ! i \<noteq> (case env_serial env i of Some x \<Rightarrow> x | None \<Rightarrow> []) \<and> g_lastSeenSerial s ! i \<noteq> []")
  case True
  let ?s = "s\<lparr>g_lastApplied := (g_lastApplied s)[i := None]\<rparr>"
  have inv: "pub_inv ?s" by (rule pub_inv_drop [OF assms(1)])
  obtain t b where r: "ResetAndDisableOffsets up i [] ?s = (t, b)" by (rule prod.exhaust)
  note sp = SendDeviceTransformIfChanged_spec [OF inv assms(2) _ r [unfolded ResetAndDisableOffsets_def], simplified]
  have "s' = (if b then t\<lparr>g_lastSeenSerial := (g_lastSeenSerial t)[i := (case env_serial env i of Some x \<Rightarrow> x | None \<Rightarrow> [])]\<rparr> else t)"
    using assms(3) True by (auto simp: scan_serial_def Let_def r and_then_def)
  then show ?thesis using sp(1,3,6) by (auto simp: pub_inv_def)
next
  case False
  then show ?thesis using assms(1,3) by (auto simp: scan_serial_def Let_def and_then_def pub_inv_def split: if_splits)
qed

lemma scan_decision_id: "scan_decision M env ctx en snap i s = (p, en') \<Longrightarrow> sdt_openVRID p = of_nat i"
  by (auto simp: scan_decision_def Let_def split: if_splits option.splits)

lemma scan_device_spec:
  assumes "pub_inv s" "i < k_unMaxTrackedDeviceCount" "scan_device M up env ctx snap i s en = (s', ok, en')"
  shows "pub_inv s' \<and> g_snapNextProfileApply s' = g_snapNextProfileApply s \<and> (\<forall>j. j \<noteq> i \<longrightarrow> last_transform j (ps_sent s') = last_transform j (ps_sent s))
    \<and> (ok \<and> env_class env i \<noteq> TrackedDeviceClass_Invalid \<longrightarrow>
         (\<exists>t. last_transform i (ps_sent s') = Some (fst (scan_decision M env ctx en snap i t)) \<and> en' = snd (scan_decision M env ctx en snap i t)))
    \<and> (env_class env i = TrackedDeviceClass_Invalid \<longrightarrow> en' = en)"
proof (cases "env_class env i = TrackedDeviceClass_Invalid")
  case True
  then show ?thesis using assms by (auto simp: scan_device_def InvalidateTransformCacheForId_def pub_inv_def nth_list_update split: if_splits)
next
  case False
  obtain s1 ok1 where r: "scan_serial up env i s = (s1, ok1)" by (rule prod.exhaust)
  note s1 = scan_serial_spec [OF assms(1,2) r]
  obtain p e1 where d: "scan_decision M env ctx en snap i s1 = (p, e1)" by (rule prod.exhaust)
  obtain s2 ok2 where t: "SendDeviceTransformIfChanged up i p s1 = (s2, ok2)" by (rule prod.exhaust)
  from s1 have inv1: "pub_inv s1" by simp
  note sp = SendDeviceTransformIfChanged_spec [OF inv1 assms(2) scan_decision_id [OF d] t]
  show ?thesis
  proof (cases ok1)
    case ok: True
    have e: "s' = s2" "ok = ok2" "en' = e1" using assms(3) False ok by (simp_all add: scan_device_def r d t)
    show ?thesis using False s1 sp(1,3,4,6) unfolding e by (auto intro!: exI [of _ s1] simp: d)
  next
    case no: False
    have "s' = s1" "\<not> ok" using assms(3) False no by (simp_all add: scan_device_def r)
    then show ?thesis using False s1 by simp
  qed
qed

text \<open>Whether the profile is applied once the headset has been looked at.\<close>

definition profile_on :: "ScanEnv \<Rightarrow> 'a CalProfile_scheme \<Rightarrow> bool" where
  "profile_on env ctx \<longleftrightarrow> cx_validProfile ctx \<and>
     (env_class env 0 = TrackedDeviceClass_Invalid \<or>
      (case env_trackingSystem env 0 of None \<Rightarrow> True | Some sys \<Rightarrow> hmd_system env sys = cx_referenceTrackingSystem ctx))"

text \<open>The transform a device is to have: the calibrated one if the profile applies and the device is of the target
  system, and otherwise none.\<close>

definition wanted :: "SolverMath \<Rightarrow> ScanEnv \<Rightarrow> 'a CalProfile_scheme \<Rightarrow> nat \<Rightarrow> bool \<Rightarrow> SetDeviceTransform" where
  "wanted M env ctx i lerp =
     (if \<not> (if i = 0 then cx_validProfile ctx else profile_on env ctx) then disable_payload i []
      else case env_trackingSystem env i of
        None \<Rightarrow> disable_payload i []
      | Some sys \<Rightarrow>
          if i = 0 then disable_payload i (hmd_system env sys)
          else if device_system env i sys = cx_targetTrackingSystem ctx then enabled_payload M ctx i lerp
          else disable_payload i (device_system env i sys))"

definition en_at :: "ScanEnv \<Rightarrow> 'a CalProfile_scheme \<Rightarrow> nat \<Rightarrow> bool" where
  "en_at env ctx i = (if i = 0 then cx_validProfile ctx else profile_on env ctx)"

lemma scan_decision_en:
  assumes "en = en_at env ctx i" "env_class env i \<noteq> TrackedDeviceClass_Invalid"
  shows "snd (scan_decision M env ctx en snap i t) = en_at env ctx (Suc i)"
  using assms by (cases "i = 0") (auto simp: scan_decision_def en_at_def profile_on_def Let_def split: option.splits)

lemma scan_decision_wanted:
  assumes "en = en_at env ctx i"
  shows "fst (scan_decision M env ctx en snap i t) =
    wanted M env ctx i (ShouldBlendCycle (cx_state ctx = CalContinuous) (freshly_adopted i t) snap)"
  using assms by (auto simp: scan_decision_def wanted_def en_at_def Let_def split: option.splits)

lemma scan_device_en:
  assumes "pub_inv s" "i < k_unMaxTrackedDeviceCount" "scan_device M up env ctx snap i s en = (s', True, en')" "en = en_at env ctx i"
  shows "en' = en_at env ctx (Suc i)"
proof (cases "env_class env i = TrackedDeviceClass_Invalid")
  case True
  then have "en' = en" using scan_device_spec [OF assms(1-3)] by simp
  then show ?thesis using assms(4) True by (auto simp: en_at_def profile_on_def)
next
  case False
  then show ?thesis using scan_device_spec [OF assms(1-3)] scan_decision_en [OF assms(4) False] by auto
qed

text \<open>After the devices from \<open>k\<close> on have been scanned.\<close>

lemma scan_devices_spec:
  assumes "pub_inv s" "scan_devices M up env ctx snap is s en = (s', ok, en')" "is = [k..<k_unMaxTrackedDeviceCount]" "en = en_at env ctx k"
    "k \<le> k_unMaxTrackedDeviceCount"
  shows "pub_inv s' \<and> g_snapNextProfileApply s' = g_snapNextProfileApply s \<and> (\<forall>j < k. last_transform j (ps_sent s') = last_transform j (ps_sent s))
    \<and> (ok \<longrightarrow> en' = en_at env ctx k_unMaxTrackedDeviceCount \<and>
        (\<forall>i \<in> set is. env_class env i \<noteq> TrackedDeviceClass_Invalid \<longrightarrow>
          (\<exists>t. last_transform i (ps_sent s') = Some (wanted M env ctx i (ShouldBlendCycle (cx_state ctx = CalContinuous) (freshly_adopted i t) snap)))))"
  using assms
proof (induction "is" arbitrary: s en k)
  case (Cons i "is")
  from Cons.prems(3) [symmetric] have k: "i = k" "k < k_unMaxTrackedDeviceCount" "is = [Suc k..<k_unMaxTrackedDeviceCount]"
    by (auto simp: upt_eq_Cons_conv)
  obtain s1 ok1 en1 where d: "scan_device M up env ctx snap k s en = (s1, ok1, en1)" by (metis prod_cases3)
  note sp = scan_device_spec [OF Cons.prems(1) k(2) d]
  show ?case
  proof (cases ok1)
    case False
    then show ?thesis using sp Cons.prems(2) by (auto simp: k(1) d)
  next
    case True
    have r: "scan_devices M up env ctx snap is s1 en1 = (s', ok, en')" using Cons.prems(2) True by (simp add: k(1) d)
    have e1: "en1 = en_at env ctx (Suc k)" by (rule scan_device_en [OF Cons.prems(1) k(2) d [unfolded eqTrueI [OF True]] Cons.prems(4)])
    have inv1: "pub_inv s1" using sp by simp
    note ih = Cons.IH [OF inv1 r k(3) e1]
    have here: "\<exists>t. last_transform k (ps_sent s1) = Some (wanted M env ctx k (ShouldBlendCycle (cx_state ctx = CalContinuous) (freshly_adopted k t) snap))"
      if "env_class env k \<noteq> TrackedDeviceClass_Invalid"
      using sp True that scan_decision_wanted [OF Cons.prems(4)] by auto
    show ?thesis using ih sp here k(2) unfolding k(1) by auto
  qed
next
  case Nil
  from Nil.prems(3) [symmetric] Nil.prems(5) have "k = k_unMaxTrackedDeviceCount" by auto
  then show ?case using Nil.prems by simp
qed

lemma ScanAndApplyProfile_spec:
  assumes "pub_inv s" "ScanAndApplyProfile M up env ctx s = (s', ok, en, ch)"
  shows "pub_inv s' \<and> (ok \<longrightarrow> en = profile_on env ctx \<and> \<not> g_snapNextProfileApply s'
    \<and> (\<forall>i < k_unMaxTrackedDeviceCount. env_class env i \<noteq> TrackedDeviceClass_Invalid \<longrightarrow>
        (\<exists>t. last_transform i (ps_sent s') = Some (wanted M env ctx i
               (ShouldBlendCycle (cx_state ctx = CalContinuous) (freshly_adopted i t) (g_snapNextProfileApply s))))))"
proof -
  obtain s1 ok1 where p: "scan_prepare M up ctx s = (s1, ok1)" by (rule prod.exhaust)
  have q: "quiet s s1" by (rule scan_prepare_quiet [OF p])
  then have inv: "pub_inv s1" using assms(1) by (simp add: quiet_def)
  let ?snap = "g_snapNextProfileApply s"
  obtain s2 ok2 en2 where d: "scan_devices M up env ctx ?snap [0..<k_unMaxTrackedDeviceCount] s1 (cx_validProfile ctx) = (s2, ok2, en2)"
    by (metis prod_cases3)
  note sp = scan_devices_spec [OF inv d refl, of, simplified en_at_def, simplified]
  have k: "k_unMaxTrackedDeviceCount \<noteq> 0" by (simp add: k_unMaxTrackedDeviceCount_def)
  have snap2: "g_snapNextProfileApply s2 = ?snap" using sp q by (simp add: quiet_def)
  have clear: "pub_inv (s2\<lparr>g_snapNextProfileApply := b\<rparr>)" for b using sp by (simp add: pub_inv_def)
  show ?thesis
  proof (cases "ok1 \<and> ok2")
    case True
    then have "s' = (if ?snap then s2\<lparr>g_snapNextProfileApply := False\<rparr> else s2)" "en = en2"
      using assms(2) by (simp_all add: ScanAndApplyProfile_def p d)
    then have s': "ps_sent s' = ps_sent s2" "\<not> g_snapNextProfileApply s'" "pub_inv s'" using snap2 sp clear by (auto split: if_splits)
    have "en = profile_on env ctx" using \<open>en = en2\<close> sp True k by simp
    moreover have "\<exists>t. last_transform i (ps_sent s2) = Some (wanted M env ctx i (ShouldBlendCycle (cx_state ctx = CalContinuous) (freshly_adopted i t) ?snap))"
      if "i < k_unMaxTrackedDeviceCount" "env_class env i \<noteq> TrackedDeviceClass_Invalid" for i
      using sp True that by simp
    ultimately show ?thesis using s' by auto
  next
    case False
    then have "(s' = s1 \<or> s' = s2) \<and> \<not> ok" using assms(2) by (cases ok1) (auto simp: ScanAndApplyProfile_def p d)
    then show ?thesis using inv sp by auto
  qed
qed

text \<open>The states the overlay can reach: scans, finished or not, with any profile, devices and failures, a forced snap, and the
  clearing of the caches after a universe shift.\<close>

inductive pub_reach :: "PublishState \<Rightarrow> bool" where
  Pub_new: "pub_reach PublishState_new"
| Pub_scan: "pub_reach s \<Longrightarrow> pub_reach (fst (ScanAndApplyProfile M up env (ctx :: CalProfile) s))"
| Pub_snap: "pub_reach s \<Longrightarrow> pub_reach (s\<lparr>g_snapNextProfileApply := True\<rparr>)"
| Pub_shift: "pub_reach s \<Longrightarrow> pub_reach (InvalidateAllTransformCaches s)"

lemma pub_reach_inv: "pub_reach s \<Longrightarrow> pub_inv s"
proof (induction rule: pub_reach.induct)
  case (Pub_scan s M up env ctx)
  obtain s' ok en ch where "ScanAndApplyProfile M up env ctx s = (s', ok, en, ch)" by (metis prod_cases4)
  with ScanAndApplyProfile_spec [OF Pub_scan.IH this] show ?case by simp
qed (simp_all add: pub_inv_new, simp_all add: pub_inv_def InvalidateAllTransformCaches_def)

section \<open>The driver at the other end\<close>

text \<open>The driver handles the requests one by one; an unknown request leaves its state alone.\<close>

definition driver_gets :: "Eigen \<Rightarrow> RequestEnv \<times> Request \<Rightarrow> ProviderState \<Rightarrow> ProviderState" where
  "driver_gets E er s = (case calibration_HandleRequest E (fst er) (snd er) s of Some (s', _) \<Rightarrow> s' | None \<Rightarrow> s)"

text \<open>A device slot of a driver that was given \<open>m\<close> last for it.\<close>

definition slot_shows :: "SetDeviceTransform option \<Rightarrow> DeviceTransform \<Rightarrow> string \<Rightarrow> bool" where
  "slot_shows m tf sys = (case m of
       None \<Rightarrow> \<not> dt_enabled tf \<and> sys = []
     | Some p \<Rightarrow> dt_enabled tf = sdt_enabled p \<and> sys = sdt_target_system p \<and> quash tf = sdt_quash p
         \<and> (sdt_enabled p \<and> sdt_updateTranslation p \<and> sdt_updateRotation p \<and> sdt_updateScale p \<longrightarrow>
              targetTransform tf = \<lparr>rotation = sdt_rotation p, translation = sdt_translation p\<rparr> \<and> dt_scale tf = sdt_scale p
              \<and> recalibrateOnMovement tf = sdt_recalibrateOnMovement p))"

lemma apply_set_transform_shows: "slot_shows (Some p) (apply_set_transform now p tf) (sdt_target_system p)"
  by (simp add: slot_shows_def apply_set_transform_def snap_on_transition_def push_scale_quash_def push_rotation_def push_translation_def
      set_motion_gate_def Let_def)

lemma apply_set_transform_fallback: "\<not> fallbackActive (apply_set_transform now p tf)"
  by (simp add: apply_set_transform_def snap_on_transition_def push_scale_quash_def push_rotation_def push_translation_def
      set_motion_gate_def Let_def)

definition synced :: "PoseState \<Rightarrow> Request list \<Rightarrow> bool" where
  "synced d rs \<longleftrightarrow> length (transforms d) = k_unMaxTrackedDeviceCount \<and> length (deviceSystem d) = k_unMaxTrackedDeviceCount
     \<and> (\<forall>i < k_unMaxTrackedDeviceCount. \<not> fallbackActive (transforms d ! i) \<and> slot_shows (last_transform i rs) (transforms d ! i) (deviceSystem d ! i))"

lemma synced_new: "synced (PoseState_new E freq sh) []"
  by (simp add: synced_def PoseState_new_def slot_shows_def DeviceTransform_new_def)

lemma synced_transform:
  assumes "synced d rs"
  shows "synced (Provider_SetDeviceTransform now p d) (rs @ [RequestSetDeviceTransform p])"
  using assms
  by (auto simp: synced_def Provider_SetDeviceTransform_def Let_def upd_dev_def set_device_system_def nth_list_update
      apply_set_transform_shows apply_set_transform_fallback)

lemma synced_other:
  assumes "synced d rs" "\<And>i. transform_for i r = None" "length (transforms d') = length (transforms d)" "deviceSystem d' = deviceSystem d"
    and "\<And>i. i < k_unMaxTrackedDeviceCount \<Longrightarrow> transforms d' ! i = transforms d ! i"
  shows "synced d' (rs @ [r])"
  using assms by (simp add: synced_def)

lemma synced_fallback:
  assumes "synced d rs"
  shows "synced (Provider_SetTrackingSystemFallback nows p d) (rs @ [RequestSetTrackingSystemFallback p])"
proof (rule synced_other [OF assms])
  have nf: "\<not> fallbackActive (transforms d ! i)" if "i < k_unMaxTrackedDeviceCount" for i using assms that by (simp add: synced_def)
  have len: "length (transforms d) = k_unMaxTrackedDeviceCount" using assms by (simp add: synced_def)
  let ?d = "Provider_SetTrackingSystemFallback nows p d"
  show "length (transforms ?d) = length (transforms d)" using len
    by (auto simp: Provider_SetTrackingSystemFallback_def Let_def drop_followers_def upd_slot_def AcquireFallbackSlot_def split: option.splits)
  show "deviceSystem ?d = deviceSystem d"
    by (auto simp: Provider_SetTrackingSystemFallback_def Let_def drop_followers_def upd_slot_def AcquireFallbackSlot_def split: option.splits)
  show "transforms ?d ! i = transforms d ! i" if "i < k_unMaxTrackedDeviceCount" for i
    using nf that
    by (auto simp: Provider_SetTrackingSystemFallback_def Let_def drop_followers_def upd_slot_def AcquireFallbackSlot_def split: option.splits)
qed simp

lemma driver_gets_synced:
  assumes "synced (pv_pose s) rs" "pv_calibration s"
  shows "synced (pv_pose (driver_gets E (env, r) s)) (rs @ [r]) \<and> pv_calibration (driver_gets E (env, r) s)"
proof (cases "(\<exists>p. r = RequestSetDeviceTransform p) \<or> (\<exists>p. r = RequestSetTrackingSystemFallback p)")
  case True
  then show ?thesis using assms by (auto simp: driver_gets_def handler_simps synced_transform synced_fallback)
next
  case False
  have "synced (pv_pose (driver_gets E (env, r) s)) (rs @ [r])"
    by (rule synced_other [OF assms(1)]) (use False assms(2) in \<open>cases r; auto simp: driver_gets_def handler_simps HandleApplyRandomOffset_def HandleSetAlignmentSpeedParams_def\<close>)+
  moreover have "pv_calibration (driver_gets E (env, r) s)" using assms(2) by (cases r) (auto simp: driver_gets_def handler_simps)
  ultimately show ?thesis by simp
qed

lemma driver_log_synced:
  "pv_pose s = PoseState_new E0 freq sh \<Longrightarrow> pv_calibration s \<Longrightarrow>
   synced (pv_pose (fold (driver_gets E) lg s)) (map snd lg) \<and> pv_calibration (fold (driver_gets E) lg s)"
proof (induction lg rule: rev_induct)
  case (snoc x xs)
  obtain env r where x: "x = (env, r)" by fastforce
  from snoc have ih: "synced (pv_pose (fold (driver_gets E) xs s)) (map snd xs)" "pv_calibration (fold (driver_gets E) xs s)" by simp_all
  from driver_gets_synced [OF ih] show ?case by (simp add: x)
qed (simp add: synced_new)

section \<open>Properties\<close>


section \<open>What a repeated scan does\<close>

text \<open>The part of the state that the scan of the devices leaves alone.\<close>

definition head_of :: "PublishState \<Rightarrow> (string \<times> bool \<times> AlignmentSpeedParams \<times> bool) \<times> (SetTrackingSystemFallback \<times> bool \<times> (string \<rightharpoonup> SetTrackingSystemFallback)) \<times> bool
    \<times> (string \<Rightarrow> SetTrackingSystemFallback option)" where
  "head_of s = ((g_lastTargetSystem s, g_lastEnabled s, g_lastAlignmentSpeed s, g_alignmentSpeedSent s),
     (g_lastFallback s, g_lastFallbackSent s, g_lastFallbacksBySystem s), g_snapNextProfileApply s, (\<lambda>n. last_fallback n (ps_sent s)))"

lemma SendDeviceTransformIfChanged_head: "SendDeviceTransformIfChanged up i p s = (s', ok) \<Longrightarrow> head_of s' = head_of s"
  by (auto simp: SendDeviceTransformIfChanged_def head_of_def fun_eq_iff split: if_splits option.splits elim!: and_then_cases dest!: SendBlocking_cases)

lemma scan_serial_head: "scan_serial up env i s = (s', ok) \<Longrightarrow> head_of s' = head_of s"
proof -
  have h: "head_of (t\<lparr>g_lastApplied := a\<rparr>) = head_of t" "head_of (t\<lparr>g_lastSeenSerial := b\<rparr>) = head_of t" for t a b
    by (simp_all add: head_of_def)
  show "scan_serial up env i s = (s', ok) \<Longrightarrow> head_of s' = head_of s"
    by (auto simp: scan_serial_def Let_def ResetAndDisableOffsets_def h split: if_splits elim!: and_then_cases dest!: SendDeviceTransformIfChanged_head)
qed

lemma scan_device_head:
  assumes "scan_device M up env ctx snap i s en = (s', ok, en')"
  shows "head_of s' = head_of s"
proof -
  have h: "head_of (InvalidateTransformCacheForId i t) = head_of t" for t by (simp add: InvalidateTransformCacheForId_def head_of_def)
  show ?thesis using assms by (auto simp: scan_device_def h split: if_splits prod.splits dest!: scan_serial_head SendDeviceTransformIfChanged_head)
qed

lemma scan_devices_head: "scan_devices M up env ctx snap is s en = (s', ok, en') \<Longrightarrow> head_of s' = head_of s"
  by (induction "is" arbitrary: s en) (auto split: prod.splits if_splits dest!: scan_device_head)

text \<open>A device that has been dealt with outside continuous mode.\<close>

definition serial_now :: "ScanEnv \<Rightarrow> nat \<Rightarrow> string" where
  "serial_now env i = (case env_serial env i of Some x \<Rightarrow> x | None \<Rightarrow> [])"

definition device_done :: "SolverMath \<Rightarrow> ScanEnv \<Rightarrow> 'a CalProfile_scheme \<Rightarrow> nat \<Rightarrow> PublishState \<Rightarrow> bool" where
  "device_done M env ctx i s \<longleftrightarrow>
     (if env_class env i = TrackedDeviceClass_Invalid then g_lastApplied s ! i = None \<and> g_lastSeenSerial s ! i = []
      else g_lastApplied s ! i = Some (wanted M env ctx i False) \<and> g_lastSeenSerial s ! i = serial_now env i)"

lemma scan_serial_done:
  assumes "pub_inv s" "i < k_unMaxTrackedDeviceCount" "scan_serial up env i s = (s', True)"
  shows "g_lastSeenSerial s' = (g_lastSeenSerial s)[i := serial_now env i]" "j \<noteq> i \<Longrightarrow> g_lastApplied s' ! j = g_lastApplied s ! j"
proof -
  let ?t = "s\<lparr>g_lastApplied := (g_lastApplied s)[i := None]\<rparr>"
  have len: "length (g_lastSeenSerial s) = k_unMaxTrackedDeviceCount" using assms(1) by (simp add: pub_inv_def)
  have r: "g_lastSeenSerial u = g_lastSeenSerial s \<and> g_lastApplied u = (g_lastApplied ?t)[i := Some (disable_payload i [])]"
    if "ResetAndDisableOffsets up i [] ?t = (u, True)" for u
    using SendDeviceTransformIfChanged_spec(2,5) [OF pub_inv_drop [OF assms(1)] assms(2) _ that [unfolded ResetAndDisableOffsets_def]] by simp
  have "g_lastSeenSerial s' = (g_lastSeenSerial s)[i := serial_now env i] \<and> (j \<noteq> i \<longrightarrow> g_lastApplied s' ! j = g_lastApplied s ! j)"
    using assms(2,3) len
    by (auto simp: scan_serial_def Let_def serial_now_def [symmetric] list_update_id split: if_splits elim!: and_then_cases dest!: r intro: list_update_same_conv [THEN iffD2, symmetric])
  then show "g_lastSeenSerial s' = (g_lastSeenSerial s)[i := serial_now env i]" "j \<noteq> i \<Longrightarrow> g_lastApplied s' ! j = g_lastApplied s ! j" by auto
qed

lemma scan_device_done:
  assumes "pub_inv s" "i < k_unMaxTrackedDeviceCount" "scan_device M up env ctx snap i s en = (s', True, en')" "en = en_at env ctx i" "cx_state ctx \<noteq> CalContinuous"
  shows "device_done M env ctx i s'" "j \<noteq> i \<Longrightarrow> device_done M env ctx j s' = device_done M env ctx j s"
proof -
  have len: "length (g_lastSeenSerial s) = k_unMaxTrackedDeviceCount" "length (g_lastApplied s) = k_unMaxTrackedDeviceCount"
    using assms(1) by (simp_all add: pub_inv_def)
  have "device_done M env ctx i s' \<and> (j \<noteq> i \<longrightarrow> g_lastSeenSerial s' ! j = g_lastSeenSerial s ! j \<and> g_lastApplied s' ! j = g_lastApplied s ! j)"
  proof (cases "env_class env i = TrackedDeviceClass_Invalid")
    case True
    then show ?thesis using assms(2,3) len
      by (auto simp: scan_device_def InvalidateTransformCacheForId_def device_done_def split: if_splits)
  next
    case False
    obtain s1 ok1 where r: "scan_serial up env i s = (s1, ok1)" by (rule prod.exhaust)
    obtain p e1 where d: "scan_decision M env ctx en snap i s1 = (p, e1)" by (rule prod.exhaust)
    obtain s2 ok2 where t: "SendDeviceTransformIfChanged up i p s1 = (s2, ok2)" by (rule prod.exhaust)
    have ok: "ok1" "ok2" "s' = s2" using assms(3) False by (auto simp: scan_device_def r d t split: if_splits)
    have inv1: "pub_inv s1" using scan_serial_spec [OF assms(1,2) r] by simp
    note sp = SendDeviceTransformIfChanged_spec(2,5) [OF inv1 assms(2) scan_decision_id [OF d] t]
    have p: "p = wanted M env ctx i False"
      using scan_decision_wanted [OF assms(4), of M snap s1] assms(5) by (simp add: d ShouldBlendCycle_def)
    have "length (g_lastApplied s1) = k_unMaxTrackedDeviceCount" using inv1 by (simp add: pub_inv_def)
    then show ?thesis using False sp ok assms(2) len scan_serial_done [OF assms(1,2) r [unfolded eqTrueI [OF ok(1)]]]
      by (simp add: device_done_def p)
  qed
  then show "device_done M env ctx i s'" "j \<noteq> i \<Longrightarrow> device_done M env ctx j s' = device_done M env ctx j s"
    by (auto simp: device_done_def)
qed

lemma scan_devices_done:
  assumes "pub_inv s" "scan_devices M up env ctx snap is s en = (s', True, en')" "is = [k..<k_unMaxTrackedDeviceCount]" "en = en_at env ctx k"
    "cx_state ctx \<noteq> CalContinuous"
  shows "(\<forall>i \<in> set is. device_done M env ctx i s') \<and> (\<forall>j < k. device_done M env ctx j s' = device_done M env ctx j s)"
  using assms
proof (induction "is" arbitrary: s en k)
  case (Cons i "is")
  from Cons.prems(3) [symmetric] have k: "i = k" "k < k_unMaxTrackedDeviceCount" "is = [Suc k..<k_unMaxTrackedDeviceCount]"
    by (auto simp: upt_eq_Cons_conv)
  obtain s1 en1 where d: "scan_device M up env ctx snap k s en = (s1, True, en1)"
    and r: "scan_devices M up env ctx snap is s1 en1 = (s', True, en')"
    using Cons.prems(2) by (auto simp: k(1) split: prod.splits if_splits)
  have inv1: "pub_inv s1" using scan_device_spec [OF Cons.prems(1) k(2) d] by simp
  note ih = Cons.IH [OF inv1 r k(3) scan_device_en [OF Cons.prems(1) k(2) d Cons.prems(4)] Cons.prems(5)]
  note here = scan_device_done [OF Cons.prems(1) k(2) d Cons.prems(4,5)]
  show ?case using ih here unfolding k(1) by (auto simp: less_Suc_eq)
qed simp

text \<open>Values that compare equal to themselves.\<close>

definition profile_numbers :: "SolverMath \<Rightarrow> 'a CalProfile_scheme \<Rightarrow> bool" where
  "profile_numbers M ctx \<longleftrightarrow> vec_eq (vec_scaled (cx_calibratedTranslation ctx) (lit 0.01)) (vec_scaled (cx_calibratedTranslation ctx) (lit 0.01))
     \<and> quat_eq (VRRotationQuat M (cx_calibratedRotation ctx)) (VRRotationQuat M (cx_calibratedRotation ctx))
     \<and> fp_eq (cx_calibratedScale ctx) (cx_calibratedScale ctx)"

lemma disable_same: "TransformPayloadEqual (disable_payload i sys) (disable_payload i sys)"
  by (simp add: TransformPayloadEqual_def disable_payload_def SetTargetSystemField_def transform_payload_def fp_eq_def quat_eq_def q_of_vec4_def
      zero_fp_def one_fp_def)

lemma enabled_same: "profile_numbers M ctx \<Longrightarrow> TransformPayloadEqual (enabled_payload M ctx i l) (enabled_payload M ctx i l)"
  by (simp add: profile_numbers_def TransformPayloadEqual_def enabled_payload_def SetTargetSystemField_def transform_payload_def)

lemma wanted_same: "profile_numbers M ctx \<Longrightarrow> TransformPayloadEqual (wanted M env ctx i l) (wanted M env ctx i l)"
  by (auto simp: wanted_def disable_same enabled_same split: option.splits)

lemma scan_device_silent:
  assumes "device_done M env ctx i s" "i < k_unMaxTrackedDeviceCount" "en = en_at env ctx i" "cx_state ctx \<noteq> CalContinuous" "profile_numbers M ctx"
  shows "scan_device M up env ctx snap i s en = (s, True, en_at env ctx (Suc i))"
proof (cases "env_class env i = TrackedDeviceClass_Invalid")
  case True
  then show ?thesis using assms(1,3) by (auto simp: device_done_def scan_device_def en_at_def profile_on_def)
next
  case False
  have a: "g_lastApplied s ! i = Some (wanted M env ctx i False)" and ser: "scan_serial up env i s = (s, True)"
    using assms(1) False by (simp_all add: device_done_def scan_serial_def Let_def serial_now_def)
  have "scan_decision M env ctx en snap i s = (wanted M env ctx i False, en_at env ctx (Suc i))"
    using scan_decision_wanted [OF assms(3), of M snap s] scan_decision_en [OF assms(3) False, of M snap s] assms(4)
    by (simp add: prod_eq_iff ShouldBlendCycle_def)
  then show ?thesis using False assms(2) a wanted_same [OF assms(5), of env i False] by (simp add: scan_device_def ser SendDeviceTransformIfChanged_def)
qed

lemma scan_devices_silent:
  assumes "\<forall>i \<in> set is. device_done M env ctx i s" "is = [k..<k_unMaxTrackedDeviceCount]" "k \<le> k_unMaxTrackedDeviceCount" "en = en_at env ctx k"
    "cx_state ctx \<noteq> CalContinuous" "profile_numbers M ctx"
  shows "scan_devices M up env ctx snap is s en = (s, True, en_at env ctx k_unMaxTrackedDeviceCount)"
  using assms
proof (induction "is" arbitrary: en k)
  case Nil
  from Nil.prems(2) [symmetric] Nil.prems(3) have "k = k_unMaxTrackedDeviceCount" by auto
  then show ?case using Nil.prems by simp
next
  case (Cons i "is")
  from Cons.prems(2) [symmetric] have k: "i = k" "k < k_unMaxTrackedDeviceCount" "is = [Suc k..<k_unMaxTrackedDeviceCount]"
    by (auto simp: upt_eq_Cons_conv)
  have "device_done M env ctx k s" using Cons.prems(1) by (simp add: k(1))
  from scan_device_silent [OF this k(2) Cons.prems(4-6)] Cons.IH [OF _ k(3) _ refl Cons.prems(5,6)] Cons.prems(1) k(2)
  show ?case by (simp add: k(1))
qed

text \<open>The stages before the devices, without additional calibrations.\<close>

definition primary_payload :: "SolverMath \<Rightarrow> 'a CalProfile_scheme \<Rightarrow> SetTrackingSystemFallback" where
  "primary_payload M ctx = fallback_payload (cx_targetTrackingSystem ctx) True (cx_calibratedTranslation ctx) (VRRotationQuat M (cx_calibratedRotation ctx))
     (cx_calibratedScale ctx) 0 (cx_recalibrateOnMovement ctx)"

definition head_done :: "SolverMath \<Rightarrow> 'a CalProfile_scheme \<Rightarrow> PublishState \<Rightarrow> bool" where
  "head_done M ctx s \<longleftrightarrow> g_lastTargetSystem s = cx_targetTrackingSystem ctx \<and> g_lastEnabled s = cx_validProfile ctx
     \<and> g_alignmentSpeedSent s \<and> g_lastAlignmentSpeed s = cx_alignmentSpeedParams ctx
     \<and> (cx_validProfile ctx \<and> cx_targetTrackingSystem ctx \<noteq> [] \<longrightarrow> g_lastFallbacksBySystem s (cx_targetTrackingSystem ctx) = Some (primary_payload M ctx))"

lemma head_done_head: "head_of s' = head_of s \<Longrightarrow> head_done M ctx s' = head_done M ctx s"
  by (simp add: head_of_def head_done_def)

lemma primary_same: "profile_numbers M ctx \<Longrightarrow> FallbackPayloadEqual (primary_payload M ctx) (primary_payload M ctx)"
  by (simp add: profile_numbers_def FallbackPayloadEqual_def primary_payload_def fallback_payload_def)

lemma scan_prepare_silent:
  assumes "head_done M ctx s" "cx_additionalCalibrations ctx = []" "profile_numbers M ctx"
  shows "scan_prepare M up ctx s = (s, True)"
  using assms primary_same [OF assms(3)]
  by (auto simp: scan_prepare_def head_done_def scan_target_changed_def scan_alignment_def scan_primary_fallback_def SendFallbackIfChanged_def
      primary_payload_def and_then_def Let_def)

lemma SendFallbackIfChanged_cases:
  assumes "SendFallbackIfChanged up n en t r c sm rc s = (s', True)"
  shows "s' = s \<and> g_lastFallbacksBySystem s n = Some (fallback_payload n en t r c sm rc)
    \<or> s' = s\<lparr>ps_attempts := ps_attempts s + 1, ps_sent := ps_sent s @ [RequestSetTrackingSystemFallback (fallback_payload n en t r c sm rc)],
        g_lastFallbacksBySystem := (g_lastFallbacksBySystem s)(n \<mapsto> fallback_payload n en t r c sm rc),
        g_lastFallback := fallback_payload n en t r c sm rc, g_lastFallbackSent := True\<rparr>"
  using assms
  by (auto simp: SendFallbackIfChanged_def Let_def split: option.splits if_splits elim!: and_then_cases dest!: SendBlocking_cases FallbackPayloadEqualD)

lemma scan_prepare_done:
  assumes "scan_prepare M up ctx s = (s', True)" "cx_additionalCalibrations ctx = []"
  shows "head_done M ctx s'"
proof -
  obtain s1 s2 where t: "scan_target_changed up ctx s = (s1, True)" "scan_alignment up ctx s1 = (s2, True)" "scan_primary_fallback M up ctx s2 = (s', True)"
    using assms by (auto simp: scan_prepare_def elim!: and_then_cases)
  have a: "g_lastTargetSystem s1 = cx_targetTrackingSystem ctx \<and> g_lastEnabled s1 = cx_validProfile ctx"
    using t(1) by (auto simp: scan_target_changed_def Let_def split: if_splits elim!: and_then_cases)
  have b: "g_lastTargetSystem s2 = cx_targetTrackingSystem ctx \<and> g_lastEnabled s2 = cx_validProfile ctx
      \<and> g_alignmentSpeedSent s2 \<and> g_lastAlignmentSpeed s2 = cx_alignmentSpeedParams ctx"
    using t(2) a by (auto simp: scan_alignment_def split: if_splits elim!: and_then_cases dest!: SendBlocking_cases)
  show ?thesis using t(3) b
    by (auto simp: scan_primary_fallback_def head_done_def primary_payload_def split: if_splits dest!: SendFallbackIfChanged_cases)
qed

lemma ScanAndApplyProfile_stages:
  assumes "ScanAndApplyProfile M up env ctx s = (s', True, en, ch)"
  obtains s1 s2 where "scan_prepare M up ctx s = (s1, True)"
    "scan_devices M up env ctx (g_snapNextProfileApply s) [0..<k_unMaxTrackedDeviceCount] s1 (en_at env ctx 0) = (s2, True, en)"
    "s' = (if g_snapNextProfileApply s then s2\<lparr>g_snapNextProfileApply := False\<rparr> else s2)"
  using assms by (auto simp: ScanAndApplyProfile_def en_at_def Let_def split: prod.splits if_splits)


section \<open>Fallbacks\<close>

definition fallback_view :: "PublishState \<Rightarrow> (SetTrackingSystemFallback \<times> bool \<times> (string \<rightharpoonup> SetTrackingSystemFallback)) \<times> (string \<Rightarrow> SetTrackingSystemFallback option)" where
  "fallback_view s = ((g_lastFallback s, g_lastFallbackSent s, g_lastFallbacksBySystem s), (\<lambda>n. last_fallback n (ps_sent s)))"

lemma scan_alignment_view: "scan_alignment up ctx s = (s', ok) \<Longrightarrow> fallback_view s' = fallback_view s"
  by (auto simp: scan_alignment_def fallback_view_def fun_eq_iff split: if_splits elim!: and_then_cases dest!: SendBlocking_cases)

text \<open>A complete scan with a valid profile for a named system and no additional calibrations, in two steps: the change of the target
  system, then the fallback of the target.\<close>

lemma scan_fallbacks:
  assumes "ScanAndApplyProfile M up env ctx s = (s', True, en, ch)" "cx_additionalCalibrations ctx = []" "cx_validProfile ctx"
    "cx_targetTrackingSystem ctx \<noteq> []"
  obtains t where "scan_target_changed up ctx s = (t, True)" "g_lastTargetSystem s' = cx_targetTrackingSystem ctx"
    "(\<exists>q. g_lastFallbacksBySystem t (cx_targetTrackingSystem ctx) = Some q \<and> FallbackPayloadEqual q (primary_payload M ctx)) \<Longrightarrow> fallback_view s' = fallback_view t"
    "g_lastFallbacksBySystem t (cx_targetTrackingSystem ctx) = None \<or> fallback_view s' \<noteq> fallback_view t \<Longrightarrow>
       fallback_view s' = ((primary_payload M ctx, True, (g_lastFallbacksBySystem t)(cx_targetTrackingSystem ctx \<mapsto> primary_payload M ctx)),
         (\<lambda>n. if n = stf_system_name (primary_payload M ctx) then Some (primary_payload M ctx) else last_fallback n (ps_sent t)))"
proof -
  obtain s1 s2 where st: "scan_prepare M up ctx s = (s1, True)"
    "scan_devices M up env ctx (g_snapNextProfileApply s) [0..<k_unMaxTrackedDeviceCount] s1 (en_at env ctx 0) = (s2, True, en)"
    "s' = (if g_snapNextProfileApply s then s2\<lparr>g_snapNextProfileApply := False\<rparr> else s2)"
    using ScanAndApplyProfile_stages [OF assms(1)] by metis
  obtain t u where t: "scan_target_changed up ctx s = (t, True)" "scan_alignment up ctx t = (u, True)" "scan_primary_fallback M up ctx u = (s1, True)"
    using st(1) assms(2) by (auto simp: scan_prepare_def elim!: and_then_cases)
  have h: "head_of s2 = head_of s1" by (rule scan_devices_head [OF st(2)])
  then have v: "fallback_view s' = fallback_view s1" by (simp add: st(3) head_of_def fallback_view_def)
  have "g_lastTargetSystem s' = g_lastTargetSystem s1" using h by (simp add: st(3) head_of_def)
  then have ts: "g_lastTargetSystem s' = cx_targetTrackingSystem ctx" using scan_prepare_done [OF st(1) assms(2)] by (simp add: head_done_def)
  have vu: "fallback_view u = fallback_view t" by (rule scan_alignment_view [OF t(2)])
  then have bs: "g_lastFallbacksBySystem u = g_lastFallbacksBySystem t" and lf: "\<And>n. last_fallback n (ps_sent u) = last_fallback n (ps_sent t)"
    by (simp_all add: fallback_view_def fun_eq_iff)
  have s1: "SendFallbackIfChanged up (cx_targetTrackingSystem ctx) True (cx_calibratedTranslation ctx) (VRRotationQuat M (cx_calibratedRotation ctx))
      (cx_calibratedScale ctx) 0 (cx_recalibrateOnMovement ctx) u = (s1, True)"
    using t(3) assms(3,4) by (simp add: scan_primary_fallback_def)
  show ?thesis
  proof (rule that [OF t(1) ts])
    assume "\<exists>q. g_lastFallbacksBySystem t (cx_targetTrackingSystem ctx) = Some q \<and> FallbackPayloadEqual q (primary_payload M ctx)"
    then have "s1 = u" using s1 by (auto simp: SendFallbackIfChanged_def primary_payload_def bs Let_def)
    then show "fallback_view s' = fallback_view t" using v vu by simp
  next
    assume "g_lastFallbacksBySystem t (cx_targetTrackingSystem ctx) = None \<or> fallback_view s' \<noteq> fallback_view t"
    then have "s1 \<noteq> u \<or> g_lastFallbacksBySystem u (cx_targetTrackingSystem ctx) = None" using v vu by (auto simp: bs)
    then have e: "s1 = u\<lparr>ps_attempts := ps_attempts u + 1, ps_sent := ps_sent u @ [RequestSetTrackingSystemFallback (primary_payload M ctx)],
        g_lastFallbacksBySystem := (g_lastFallbacksBySystem u)(cx_targetTrackingSystem ctx \<mapsto> primary_payload M ctx),
        g_lastFallback := primary_payload M ctx, g_lastFallbackSent := True\<rparr>"
      using SendFallbackIfChanged_cases [OF s1, folded primary_payload_def] by (auto simp only: option.distinct)
    show "fallback_view s' = ((primary_payload M ctx, True, (g_lastFallbacksBySystem t)(cx_targetTrackingSystem ctx \<mapsto> primary_payload M ctx)),
         (\<lambda>n. if n = stf_system_name (primary_payload M ctx) then Some (primary_payload M ctx) else last_fallback n (ps_sent t)))"
      unfolding v by (simp add: e fallback_view_def bs lf fun_eq_iff)
  qed
qed

lemma primary_name [simp]: "stf_system_name (primary_payload M ctx) = strncpy_field MaxTrackingSystemNameLen (cx_targetTrackingSystem ctx)"
  "stf_enabled (primary_payload M ctx)"
  by (simp_all add: primary_payload_def fallback_payload_def)

lemma scan_target_changed_view:
  assumes "scan_target_changed up ctx s = (t, True)"
  shows "g_lastFallbacksBySystem t = g_lastFallbacksBySystem s"
    "last_fallback n (ps_sent t) =
      (if cx_targetTrackingSystem ctx \<noteq> g_lastTargetSystem s \<and> g_lastTargetSystem s \<noteq> [] \<and> g_lastFallbackSent s \<and> stf_enabled (g_lastFallback s)
          \<and> n = strncpy_field MaxTrackingSystemNameLen (g_lastTargetSystem s)
       then Some (disable_fallback (g_lastTargetSystem s)) else last_fallback n (ps_sent s))"
  using assms
  by (auto simp: scan_target_changed_def Let_def InvalidateAllTransformCaches_def disable_fallback_def SetTrackingSystemFallback_zero_def
      split: if_splits elim!: and_then_cases dest!: SendBlocking_cases)

text \<open>C33. Switching the target system back and forth loses the fallback. The first scan publishes the fallback of one system, the second one, for
  another system, disables it, and the third one, for the first system again, takes it for published, because
  the cache by system was not told: the last thing the driver heard about the system is that its fallback is off.
  A device of that system that connects is not moved into place until a scan finds it.\<close>

theorem fallback_lost_after_switch:
  assumes "ScanAndApplyProfile M up env a s = (s1, True, en1, ch1)" "ScanAndApplyProfile M up env b s1 = (s2, True, en2, ch2)"
    "ScanAndApplyProfile M up env a s2 = (s3, True, en3, ch3)"
    and "g_lastFallbacksBySystem s (cx_targetTrackingSystem a) = None"
    and "cx_validProfile a" "cx_validProfile b" "cx_additionalCalibrations a = []" "cx_additionalCalibrations b = []" "profile_numbers M a"
    and "cx_targetTrackingSystem a \<noteq> []" "cx_targetTrackingSystem b \<noteq> []"
    and "strncpy_field MaxTrackingSystemNameLen (cx_targetTrackingSystem a) \<noteq> strncpy_field MaxTrackingSystemNameLen (cx_targetTrackingSystem b)"
  shows "last_fallback (strncpy_field MaxTrackingSystemNameLen (cx_targetTrackingSystem a)) (ps_sent s3) = Some (disable_fallback (cx_targetTrackingSystem a))
    \<and> \<not> stf_enabled (disable_fallback (cx_targetTrackingSystem a))"
proof -
  let ?A = "cx_targetTrackingSystem a" and ?f = "strncpy_field MaxTrackingSystemNameLen"
  have ne: "?A \<noteq> cx_targetTrackingSystem b" using assms(12) by auto
  obtain t where t: "scan_target_changed up a s = (t, True)" "g_lastTargetSystem s1 = ?A"
    "g_lastFallbacksBySystem t ?A = None \<or> fallback_view s1 \<noteq> fallback_view t \<Longrightarrow>
       fallback_view s1 = ((primary_payload M a, True, (g_lastFallbacksBySystem t)(?A \<mapsto> primary_payload M a)),
         (\<lambda>n. if n = ?f ?A then Some (primary_payload M a) else last_fallback n (ps_sent t)))"
    by (rule scan_fallbacks [OF assms(1,7,5,10)]) simp
  have v1: "g_lastFallback s1 = primary_payload M a" "g_lastFallbackSent s1" "g_lastFallbacksBySystem s1 ?A = Some (primary_payload M a)"
    using t(3) scan_target_changed_view(1) [OF t(1)] assms(4) by (simp_all add: fallback_view_def)
  obtain u where u: "scan_target_changed up b s1 = (u, True)" "g_lastTargetSystem s2 = cx_targetTrackingSystem b"
    "g_lastFallbacksBySystem u (cx_targetTrackingSystem b) = None \<or> fallback_view s2 \<noteq> fallback_view u \<Longrightarrow>
       fallback_view s2 = ((primary_payload M b, True, (g_lastFallbacksBySystem u)(cx_targetTrackingSystem b \<mapsto> primary_payload M b)),
         (\<lambda>n. if n = ?f (cx_targetTrackingSystem b) then Some (primary_payload M b) else last_fallback n (ps_sent u)))"
    by (rule scan_fallbacks [OF assms(2,8,6,11)]) simp
  have "last_fallback (?f ?A) (ps_sent u) = Some (disable_fallback ?A)" "g_lastFallbacksBySystem u ?A = Some (primary_payload M a)"
    using scan_target_changed_view [OF u(1)] v1 t(2) ne assms(10) by simp_all
  then have v2: "last_fallback (?f ?A) (ps_sent s2) = Some (disable_fallback ?A)" "g_lastFallbacksBySystem s2 ?A = Some (primary_payload M a)"
    using u(3) ne assms(12) by (cases "fallback_view s2 = fallback_view u"; simp add: fallback_view_def fun_eq_iff)+
  obtain w where w: "scan_target_changed up a s2 = (w, True)"
    "(\<exists>q. g_lastFallbacksBySystem w ?A = Some q \<and> FallbackPayloadEqual q (primary_payload M a)) \<Longrightarrow> fallback_view s3 = fallback_view w"
    by (rule scan_fallbacks [OF assms(3,7,5,10)]) simp
  have "fallback_view s3 = fallback_view w"
    using w(2) scan_target_changed_view(1) [OF w(1)] v2(2) primary_same [OF assms(9)] by simp
  then have "last_fallback (?f ?A) (ps_sent s3) = last_fallback (?f ?A) (ps_sent w)" by (simp add: fallback_view_def fun_eq_iff)
  also have "\<dots> = Some (disable_fallback ?A)" using scan_target_changed_view(2) [OF w(1)] v2(1) u(2) assms(12) by simp
  finally show ?thesis by (simp add: disable_fallback_def SetTrackingSystemFallback_zero_def)
qed

text \<open>A headset of another tracking system switches the profile off device by device, but its fallback was sent as enabled just before and
  is not taken back: after the scan no device has a transform of its own, and every device of the target system still gets
  the offset of the profile through the fallback.\<close>

theorem foreign_headset_keeps_fallback:
  assumes "pub_reach s" "ScanAndApplyProfile M up env ctx s = (s', True, en, ch)"
    and "cx_validProfile ctx" "cx_targetTrackingSystem ctx \<noteq> []" "cx_additionalCalibrations ctx = []"
    and "g_lastFallbacksBySystem s (cx_targetTrackingSystem ctx) = None"
    and "env_class env 0 \<noteq> TrackedDeviceClass_Invalid" "env_trackingSystem env 0 = Some sys" "hmd_system env sys \<noteq> cx_referenceTrackingSystem ctx"
  shows "\<not> en \<and> last_fallback (strncpy_field MaxTrackingSystemNameLen (cx_targetTrackingSystem ctx)) (ps_sent s') = Some (primary_payload M ctx)
    \<and> stf_enabled (primary_payload M ctx)
    \<and> (\<forall>i < k_unMaxTrackedDeviceCount. env_class env i \<noteq> TrackedDeviceClass_Invalid \<longrightarrow>
         (\<exists>p. last_transform i (ps_sent s') = Some p \<and> \<not> sdt_enabled p))"
proof -
  have off: "\<not> profile_on env ctx" using assms(7-9) by (simp add: profile_on_def)
  note sp = ScanAndApplyProfile_spec [OF pub_reach_inv [OF assms(1)] assms(2)]
  have "\<not> sdt_enabled (wanted M env ctx i l)" for i l using off by (auto simp: wanted_def split: option.splits)
  then have dev: "\<forall>i < k_unMaxTrackedDeviceCount. env_class env i \<noteq> TrackedDeviceClass_Invalid \<longrightarrow>
         (\<exists>p. last_transform i (ps_sent s') = Some p \<and> \<not> sdt_enabled p)"
    using sp by blast
  obtain t where t: "scan_target_changed up ctx s = (t, True)"
    "g_lastFallbacksBySystem t (cx_targetTrackingSystem ctx) = None \<or> fallback_view s' \<noteq> fallback_view t \<Longrightarrow>
       fallback_view s' = ((primary_payload M ctx, True, (g_lastFallbacksBySystem t)(cx_targetTrackingSystem ctx \<mapsto> primary_payload M ctx)),
         (\<lambda>n. if n = stf_system_name (primary_payload M ctx) then Some (primary_payload M ctx) else last_fallback n (ps_sent t)))"
    by (rule scan_fallbacks [OF assms(2,5,3,4)]) blast
  have "last_fallback (strncpy_field MaxTrackingSystemNameLen (cx_targetTrackingSystem ctx)) (ps_sent s') = Some (primary_payload M ctx)"
    using t(2) scan_target_changed_view(1) [OF t(1)] assms(6) by (simp add: fallback_view_def fun_eq_iff)
  then show ?thesis using dev off sp by simp
qed

section \<open>Scans that complete, and examples\<close>

text \<open>A scan fails only through a failed call.\<close>

lemma SendBlocking_up: "(\<And>n. up n) \<Longrightarrow> snd (SendBlocking up r s)"
  by (simp add: SendBlocking_def Let_def)

lemma and_then_up: "snd r \<Longrightarrow> (\<And>s. snd (f s)) \<Longrightarrow> snd (and_then r f)"
  by (cases r) (simp add: and_then_def)

lemma scan_stages_up:
  assumes "\<And>n. up n"
  shows "snd (SendDeviceTransformIfChanged up i p s)" "snd (scan_prepare M up ctx s)" "snd (scan_serial up env i s)"
proof -
  note b = SendBlocking_up [of up, OF assms]
  show d: "snd (SendDeviceTransformIfChanged up i p s)" for i p s
    by (auto simp: SendDeviceTransformIfChanged_def intro!: and_then_up b split: option.splits)
  have f: "snd (SendFallbackIfChanged up n en t r c sm rc s)" for n en t r c sm rc s
    by (auto simp: SendFallbackIfChanged_def Let_def intro!: and_then_up b split: option.splits)
  have x: "snd (scan_extras M up ctx xs s)" for xs s
    by (induction xs arbitrary: s) (auto simp: scan_extra_fallback_def f intro!: and_then_up)
  have t: "snd (scan_target_changed up ctx s)" "snd (scan_alignment up ctx s)" "snd (scan_primary_fallback M up ctx s)" for s
    by (auto simp: scan_target_changed_def scan_alignment_def scan_primary_fallback_def Let_def f b intro!: and_then_up)
  show "snd (scan_prepare M up ctx s)" by (simp add: scan_prepare_def and_then_up t x)
  show "snd (scan_serial up env i s)"
    by (auto simp: scan_serial_def Let_def ResetAndDisableOffsets_def d intro!: and_then_up)
qed

lemma scan_completes:
  assumes "\<And>n. up n"
  shows "\<exists>s' en ch. ScanAndApplyProfile M up env ctx s = (s', True, en, ch)"
proof -
  have dev: "fst (snd (scan_device M up env ctx snap i s en))" for snap i s en
    using scan_stages_up(1) [of up, OF assms] scan_stages_up(3) [of up, OF assms]
    by (auto simp: scan_device_def split: prod.splits) (metis snd_conv)+
  have devs: "fst (snd (scan_devices M up env ctx snap is s en))" for snap "is" s en
  proof (induction "is" arbitrary: s en)
    case (Cons i "is")
    then show ?case using dev [of snap i s en] by (auto split: prod.splits)
  qed simp
  obtain s1 where p: "scan_prepare M up ctx s = (s1, True)" using scan_stages_up(2) [of up M ctx s, OF assms] by (metis prod.collapse eq_snd_iff)
  let ?r = "scan_devices M up env ctx (g_snapNextProfileApply s) [0..<k_unMaxTrackedDeviceCount] s1 (cx_validProfile ctx)"
  obtain s2 ok2 en2 where r: "?r = (s2, ok2, en2)" by (metis prod_cases3)
  have ok2 using devs [of "g_snapNextProfileApply s" _ s1 "cx_validProfile ctx"] r by (metis fst_conv snd_conv)
  then show ?thesis by (simp add: ScanAndApplyProfile_def p r)
qed

definition demo_scan_env :: ScanEnv where
  "demo_scan_env = \<lparr>env_class = (\<lambda>i. if i = 0 then TrackedDeviceClass_HMD else if i = 1 then TrackedDeviceClass_GenericTracker else TrackedDeviceClass_Invalid),
     env_serial = (\<lambda>i. Some ''LHR''), env_trackingSystem = (\<lambda>i. Some (if i = 0 then ''oculus'' else ''lighthouse'')),
     env_eyeToHeadLeft = [], env_renderModel = (\<lambda>i. []), env_dongle = (\<lambda>i. []), env_quadCount = 0\<rparr>"

definition demo_profile :: CalProfile where
  "demo_profile = \<lparr>cx_state = CalNone, cx_targetID = 1, cx_targetTrackingSystem = ''lighthouse'', cx_referenceTrackingSystem = ''oculus'',
     cx_calibratedRotation = (0, 0, 0), cx_calibratedTranslation = (0, 0, 0), cx_calibratedScale = 1, cx_enabled = False, cx_validProfile = True,
     cx_quashTargetInContinuous = True, cx_recalibrateOnMovement = True, cx_alignmentSpeedParams = AlignmentSpeedParams_zero,
     cx_additionalCalibrations = [], cx_chaperone = \<lparr>ch_valid = False, ch_autoApply = True, ch_geometry = [], ch_standingCenter = [], ch_playSpaceSize = (0, 0)\<rparr>\<rparr>"

abbreviation always :: "nat \<Rightarrow> bool" where "always \<equiv> \<lambda>n. True"

lemma demo_rotation: "VRRotationQuat (demo_solver sq) v = q_identity"
  by (cases v) (simp add: demo_solver_def demo_matrix_ops_def Let_def)

lemma zero_cm: "(0 :: double) * lit 0.01 = 0"
proof -
  have "(lit 0.01 :: double) = Fin (rnd 53 (1 / 100))" using lit_01 [of "1 / 100"] by simp
  then show ?thesis by (simp add: zero_fp_def)
qed

lemma demo_numbers: "profile_numbers (demo_solver sq) demo_profile"
proof -
  have "cx_calibratedTranslation demo_profile = (0, 0, 0)" "cx_calibratedScale demo_profile = 1" by (simp_all add: demo_profile_def)
  then show ?thesis unfolding profile_numbers_def demo_rotation
    by (simp only: vec_scaled.simps zero_cm) (simp add: fp_eq_def quat_eq_def q_identity_def zero_fp_def one_fp_def)
qed

lemma demo_on: "profile_on demo_scan_env demo_profile"
  by (simp add: profile_on_def demo_scan_env_def demo_profile_def hmd_system_def)

definition demo_provider :: ProviderState where
  "demo_provider = \<lparr>pv_pose = PoseState_new demo_eigen 1000 None, pv_cfg = DriverConfigs_new, pv_calibration = True, pv_smoothing = False, pv_inputhealth = False\<rparr>"



theorem fallback_lost_after_switch_witness:
  "\<exists>s3. last_fallback ''lighthouse'' (ps_sent s3) = Some (disable_fallback ''lighthouse'')
     \<and> (\<exists>s2 en ch. ScanAndApplyProfile (demo_solver (\<lambda>v. 0)) always demo_scan_env demo_profile s2 = (s3, True, en, ch))"
proof -
  let ?M = "demo_solver (\<lambda>v. 0)" and ?b = "demo_profile\<lparr>cx_targetTrackingSystem := ''slimevr''\<rparr>"
  obtain s1 en1 ch1 where r1: "ScanAndApplyProfile ?M always demo_scan_env demo_profile PublishState_new = (s1, True, en1, ch1)"
    using scan_completes [of always] by blast
  obtain s2 en2 ch2 where r2: "ScanAndApplyProfile ?M always demo_scan_env ?b s1 = (s2, True, en2, ch2)"
    using scan_completes [of always] by blast
  obtain s3 en3 ch3 where r3: "ScanAndApplyProfile ?M always demo_scan_env demo_profile s2 = (s3, True, en3, ch3)"
    using scan_completes [of always] by blast
  from fallback_lost_after_switch [OF r1 r2 r3 _ _ _ _ _ demo_numbers] r3 show ?thesis
    by (auto simp: demo_profile_def PublishState_new_def strncpy_field_def MaxTrackingSystemNameLen_def)
qed

theorem foreign_headset_keeps_fallback_witness:
  "case ScanAndApplyProfile (demo_solver (\<lambda>v. 0)) always demo_scan_env (demo_profile\<lparr>cx_referenceTrackingSystem := ''holographic''\<rparr>) PublishState_new of (s', ok, en, ch) \<Rightarrow>
     ok \<and> \<not> en \<and> last_fallback ''lighthouse'' (ps_sent s') \<noteq> None"
proof -
  let ?c = "demo_profile\<lparr>cx_referenceTrackingSystem := ''holographic''\<rparr>"
  obtain s' en ch where r: "ScanAndApplyProfile (demo_solver (\<lambda>v. 0)) always demo_scan_env ?c PublishState_new = (s', True, en, ch)"
    using scan_completes [of always] by blast
  from foreign_headset_keeps_fallback [OF Pub_new r, of "''oculus''"]
  have "\<not> en \<and> last_fallback ''lighthouse'' (ps_sent s') \<noteq> None"
    by (simp add: demo_profile_def demo_scan_env_def PublishState_new_def hmd_system_def strncpy_field_def MaxTrackingSystemNameLen_def)
  then show ?thesis by (simp add: r)
qed

end
