(* ===== verification/CalibrationSession.thy ===== *)
theory CalibrationSession
  imports ProfilePublish HostSupervisor
begin

text \<open>
  The state of the calibration overlay (\<open>Calibration.h\<close>, \<open>Calibration.cpp\<close>, \<open>VRState.cpp\<close>) and the operations that a
  tick is made of: the list of devices, the choice of the two anchors, the auto-lock detector, the resolved speed,
  the collection of a sample, and starting, ending and wiping a calibration. \<open>CalibrationContext\<close> extends the
  profile of \<open>ProfilePublish\<close>; its settings, which only the user changes, are a record of their own, as are the groups of
  fields that one block of the code uses. The messages and the log are left out. \<open>SaveProfile\<close> is the list \<open>ss_saves\<close> of what was saved.
\<close>

section \<open>State\<close>

datatype Speed = FAST | SLOW | VERY_SLOW | AUTO

datatype LockMode = LockOff | LockOn | LockAuto

record CalSettings =
  st_ignoreOutliers :: bool
  st_jitterThreshold :: float32
  st_requireTriggerPressToApply :: bool
  st_baseStationDriftCorrectionEnabled :: bool
  st_continuousCalibrationThreshold :: float32
  st_maxRelativeErrorThreshold :: float32
  st_continuousCalibrationOffset :: Vector3d
  st_targetLatencyOffsetMs :: double
  st_latencyAutoDetect :: bool
  st_useGccPhatLatency :: bool
  st_useCusumGeometryShift :: bool
  st_useVelocityAwareWeighting :: bool
  st_useTukeyBiweight :: bool
  st_mode :: MathMode
  st_useBlendFilter :: bool
  st_restLockedYawEnabled :: bool
  st_predictiveRecoveryEnabled :: bool
  st_reanchorChiSquareEnabled :: bool
  st_enableStaticRecalibration :: bool
  st_lockRelativePositionMode :: LockMode
  st_calibrationPaused :: bool
  st_calibrationSpeed :: Speed

record PairTrack =
  pairedMotionPosSeeded :: bool
  pairedMotionPrevRefPos :: Vector3d
  pairedMotionPrevTgtPos :: Vector3d
  pairedMotionMismatchCount :: int

record LatencyTrack =
  refSpeedHistory :: "double list"
  targetSpeedHistory :: "double list"
  speedSampleTimes :: "double list"
  timeLastLatencyEstimate :: double
  estimatedLatencyOffsetMs :: double

record LockTrack =
  lockRelativePosition :: bool
  autoLockHistory :: "AffineCompact3d list"
  autoLockEffectivelyLocked :: bool

record TiltTrack =
  tiltDiagnosticWindow :: "(double \<times> double) list"
  tiltSustainedAlarmed :: bool
  tiltLastAnnotatedMedian :: double

record TickTimes =
  timeLastTick :: double
  timeLastScan :: double
  timeLastAssign :: double
  wantedUpdateInterval :: double

record HmdTrack =
  hmdPrev :: "float32 \<times> float32 \<times> float32"
  consecutiveHmdStalls :: int

record CalibrationContext = CalProfile +
  cc_referenceID :: int
  cc_targetStandby :: StandbyDevice
  cc_referenceStandby :: StandbyDevice
  cc_controllerIDs :: "int list"
  cc_settings :: CalSettings
  cc_pair :: PairTrack
  cc_latency :: LatencyTrack
  cc_lock :: LockTrack
  cc_tilt :: TiltTrack
  cc_times :: TickTimes
  cc_hmd :: HmdTrack
  cc_wasWaitingForTriggers :: bool
  cc_hasAppliedCalibrationResult :: bool
  cc_refToTargetPose :: AffineCompact3d
  cc_relativePosCalibrated :: bool
  cc_devicePoses :: "DriverPose_t list"
  cc_devicePoseSampleTimes :: "u64 list"

record SpeedCache =
  s_lastResolved :: Speed
  s_pendingResolved :: Speed
  s_pendingTicks :: int

record MetricsState =
  mx_error_currentCal :: "(double \<times> double) list"
  mx_jitterRef :: double
  mx_jitterTarget :: double

record AutoRecoverySnapshot =
  ar_valid :: bool
  ar_refToTargetPose :: AffineCompact3d
  ar_relativePosCalibrated :: bool
  ar_hasAppliedCalibrationResult :: bool

record RelocDetector =
  rl_havePrevHmd :: bool
  rl_prevHmd :: AffineCompact3d
  rl_hmdTrackingSystem :: string
  rl_prevBodyTrans :: "nat \<rightharpoonup> Vector3d"
  rl_lastFireTime :: double
  rl_lastFireDelta :: Vector3d
  rl_lastFireRotRad :: double
  rl_lastAutoRecoverTime :: double
  rl_lastHmdInvalidTime :: double
  rl_snapshot :: AutoRecoverySnapshot
  rl_bannerDismissed :: bool

record DriftState =
  baseStationCache :: "string \<rightharpoonup> string \<times> AffineCompact3d"
  lastBaseStationShiftAcceptedTime :: double
  g_relocDetector :: RelocDetector
  g_restStates :: "nat \<rightharpoonup> RestState"
  g_restLockedYawLastTickTime :: double
  g_recoveryDeltaBuffer :: RecoveryBuffer
  g_predictiveRecoveryLastTickTime :: double
  g_reanchorChiState :: ReanchorState
  g_reanchorChiLastTickTime :: double

record Session =
  ss_ctx :: CalibrationContext
  ss_calc :: Calc
  ss_gate :: anchor_gate
  ss_shift :: shift_watch
  ss_speed :: SpeedCache
  ss_metrics :: MetricsState
  ss_drift :: DriftState
  ss_pub :: PublishState
  ss_saves :: "CalProfile list"

abbreviation upd_ctx :: "(CalibrationContext \<Rightarrow> CalibrationContext) \<Rightarrow> Session \<Rightarrow> Session" where
  "upd_ctx f s \<equiv> s\<lparr>ss_ctx := f (ss_ctx s)\<rparr>"

abbreviation upd_calc :: "(Calc \<Rightarrow> Calc) \<Rightarrow> Session \<Rightarrow> Session" where
  "upd_calc f s \<equiv> s\<lparr>ss_calc := f (ss_calc s)\<rparr>"

abbreviation set_state :: "CalibrationState \<Rightarrow> Session \<Rightarrow> Session" where
  "set_state st s \<equiv> s\<lparr>ss_ctx := (ss_ctx s)\<lparr>cx_state := st\<rparr>\<rparr>"

abbreviation settings :: "Session \<Rightarrow> CalSettings" where
  "settings s \<equiv> cc_settings (ss_ctx s)"

abbreviation state_of :: "Session \<Rightarrow> CalibrationState" where
  "state_of s \<equiv> cx_state (ss_ctx s)"

section \<open>The list of devices\<close>

text \<open>\<open>ve_model\<close> and \<open>ve_serial\<close> are what the buffer holds after the call, whose error the code ignores.\<close>

datatype ControllerRole = RoleLeftHand | RoleRightHand | RoleOther

record VREnv =
  ve_scan :: ScanEnv
  ve_model :: "nat \<Rightarrow> string"
  ve_serial :: "nat \<Rightarrow> string"
  ve_role :: "nat \<Rightarrow> ControllerRole"

record VRDevice =
  vd_id :: nat
  vd_class :: TrackedDeviceClass
  vd_model :: string
  vd_serial :: string
  vd_trackingSystem :: string
  vd_role :: ControllerRole

definition EqualsNoCase :: "string \<Rightarrow> string \<Rightarrow> bool" where
  "EqualsNoCase a b \<longleftrightarrow> map lower_ascii a = map lower_ascii b"

definition ContainsNoCase :: "string \<Rightarrow> string \<Rightarrow> bool" where
  "ContainsNoCase hay needle \<longleftrightarrow> needle = [] \<or> str_contains (map lower_ascii needle) (map lower_ascii hay)"

definition IsFaceTrackingSink :: "string \<Rightarrow> string \<Rightarrow> bool" where
  "IsFaceTrackingSink serial model \<longleftrightarrow>
     EqualsNoCase serial ''OpenVRPair-FaceTracking-Sink'' \<or> EqualsNoCase serial ''WKOpenVR-FaceTracking-Sink''
     \<or> (ContainsNoCase serial ''openvrpair'' \<or> ContainsNoCase serial ''wkopenvr'' \<or> ContainsNoCase model ''openvrpair'' \<or> ContainsNoCase model ''wkopenvr'')
       \<and> (ContainsNoCase serial ''facetracking-sink'' \<or> ContainsNoCase model ''facetracking-sink'')"

definition ShouldShowInCalibrationDeviceList :: "TrackedDeviceClass \<Rightarrow> string \<Rightarrow> string \<Rightarrow> bool" where
  "ShouldShowInCalibrationDeviceList cls serial model \<longleftrightarrow>
     cls \<in> {TrackedDeviceClass_HMD, TrackedDeviceClass_Controller, TrackedDeviceClass_GenericTracker} \<and> \<not> IsFaceTrackingSink serial model"

definition vr_device :: "VREnv \<Rightarrow> nat \<Rightarrow> VRDevice option" where
  "vr_device env i =
     (let sc = ve_scan env; cls = env_class sc i in
      if cls = TrackedDeviceClass_Invalid \<or> cls = TrackedDeviceClass_TrackingReference then None
      else case env_trackingSystem sc i of
        None \<Rightarrow> None
      | Some sys \<Rightarrow>
          let system = (if cls = TrackedDeviceClass_HMD then hmd_system sc sys else device_system sc i sys)
          in if ShouldShowInCalibrationDeviceList cls (ve_serial env i) (ve_model env i)
             then Some \<lparr>vd_id = i, vd_class = cls, vd_model = ve_model env i, vd_serial = ve_serial env i, vd_trackingSystem = system, vd_role = ve_role env i\<rparr>
             else None)"

definition VRState_Load :: "VREnv \<Rightarrow> VRDevice list" where
  "VRState_Load env = List.map_filter (vr_device env) [0..<k_unMaxTrackedDeviceCount]"

definition device_matches :: "StandbyDevice \<Rightarrow> VRDevice \<Rightarrow> bool" where
  "device_matches d v \<longleftrightarrow>
     (let matches = (if vd_model v = sd_model d then 1 else 0) + (if vd_serial v = sd_serial d then 1 else (0 :: nat))
      in vd_trackingSystem v = sd_trackingSystem d
         \<and> (matches = 2 \<and> vd_class v \<noteq> TrackedDeviceClass_HMD \<or> 1 \<le> matches \<and> vd_class v = TrackedDeviceClass_HMD))"

definition FindDevice :: "StandbyDevice \<Rightarrow> VRDevice list \<Rightarrow> int" where
  "FindDevice d vs = (case find (device_matches d) vs of Some v \<Rightarrow> int (vd_id v) | None \<Rightarrow> - 1)"

definition MAX_CONTROLLERS :: nat where "MAX_CONTROLLERS = 8"

definition controller_slot :: "string \<Rightarrow> VRDevice list \<Rightarrow> nat \<Rightarrow> int" where
  "controller_slot target vs i =
     (if i < length vs \<and> vd_trackingSystem (vs ! i) = target \<and> vd_class (vs ! i) = TrackedDeviceClass_Controller
         \<and> vd_role (vs ! i) \<in> {RoleLeftHand, RoleRightHand} then int (vd_id (vs ! i)) else - 1)"

definition AssignTargets :: "VREnv \<Rightarrow> Session \<Rightarrow> Session \<times> bool" where
  "AssignTargets env s =
     (let vs = VRState_Load env; c = ss_ctx s;
          r = (if cc_referenceID c < 0 then FindDevice (cc_referenceStandby c) vs else cc_referenceID c);
          t = (if cx_targetID c < 0 then FindDevice (cc_targetStandby c) vs else cx_targetID c)
      in (s\<lparr>ss_ctx := c\<lparr>cc_referenceID := r, cx_targetID := t,
             cc_controllerIDs := map (controller_slot (cx_targetTrackingSystem c) vs) [0..<MAX_CONTROLLERS]\<rparr>\<rparr>, 0 \<le> r \<and> 0 \<le> t))"

section \<open>The auto-lock detector\<close>

definition kAutoLockHistoryMax :: nat where "kAutoLockHistoryMax = 30"

definition last_of :: "nat \<Rightarrow> 'a list \<Rightarrow> 'a list" where
  "last_of n xs = drop (length xs - n) xs"

definition history_spread :: "SolverMath \<Rightarrow> AffineCompact3d list \<Rightarrow> double" where
  "history_spread M h =
     (let n = of_integer (int (length h)); meanT = v_div M (sum_vec M (map aff_translation h)) n;
          var = fold (\<lambda>a acc. acc + v_squaredNorm (fit M) (v_sub M (aff_translation a) meanT)) h 0 / n
      in fp_sqrt var)"

definition history_turn :: "SolverMath \<Rightarrow> AffineCompact3d list \<Rightarrow> double" where
  "history_turn M h =
     (let medianQ = q_of_m3 (mat M) (aff_rotation (aff M) (h ! (length h div 2)))
      in fold (\<lambda>a acc. let ang = q_angularDistance M medianQ (q_of_m3 (mat M) (aff_rotation (aff M) a)) in if acc < ang then ang else acc) h 0)"

definition rigid_history :: "SolverMath \<Rightarrow> AffineCompact3d list \<Rightarrow> bool" where
  "rigid_history M h \<longleftrightarrow> history_spread M h < lit 0.005 \<and> history_turn M h < 1 * eigen_pi M / lit 180"

definition rel_pose :: "SolverMath \<Rightarrow> CPose \<Rightarrow> CPose \<Rightarrow> AffineCompact3d" where
  "rel_pose M r t = aff_mul (aff M) (aff_inverse (aff M) (to_affine r)) (to_affine t)"

definition UpdateAutoLockDetector :: "SolverMath \<Rightarrow> CPose \<Rightarrow> CPose \<Rightarrow> LockTrack \<Rightarrow> LockTrack" where
  "UpdateAutoLockDetector M r t lk =
     (let h = last_of kAutoLockHistoryMax (autoLockHistory lk @ [rel_pose M r t])
      in lk\<lparr>autoLockHistory := h, autoLockEffectivelyLocked := (if length h < kAutoLockHistoryMax then False else rigid_history M h)\<rparr>)"

fun resolve_lock :: "LockMode \<Rightarrow> bool \<Rightarrow> bool" where
  "resolve_lock LockOff locked = False"
| "resolve_lock LockOn locked = True"
| "resolve_lock LockAuto locked = locked"

definition ResolveLockMode :: "Session \<Rightarrow> Session" where
  "ResolveLockMode s = upd_ctx (\<lambda>c. c\<lparr>cc_lock := (cc_lock c)\<lparr>lockRelativePosition :=
     resolve_lock (st_lockRelativePositionMode (cc_settings c)) (autoLockEffectivelyLocked (cc_lock c))\<rparr>\<rparr>) s"

section \<open>The resolved speed\<close>

definition speed_candidate :: "double \<Rightarrow> Speed" where
  "speed_candidate j = (if j \<le> 0 \<or> j < lit 0.005 then FAST else if j < lit 0.01 then SLOW else VERY_SLOW)"

definition speed_step :: "Speed \<Rightarrow> SpeedCache \<Rightarrow> SpeedCache" where
  "speed_step c k =
     (if c = s_lastResolved k then k\<lparr>s_pendingResolved := c, s_pendingTicks := 0\<rparr>
      else if c = s_pendingResolved k
      then (if 5 \<le> s_pendingTicks k + 1 then k\<lparr>s_lastResolved := c, s_pendingTicks := 0\<rparr> else k\<lparr>s_pendingTicks := s_pendingTicks k + 1\<rparr>)
      else k\<lparr>s_pendingResolved := c, s_pendingTicks := 1\<rparr>)"

definition ResolvedCalibrationSpeed :: "Session \<Rightarrow> SpeedCache \<Rightarrow> SpeedCache \<times> Speed" where
  "ResolvedCalibrationSpeed s k =
     (if st_calibrationSpeed (settings s) \<noteq> AUTO then (k, st_calibrationSpeed (settings s))
      else if state_of s \<noteq> CalContinuous \<and> state_of s \<noteq> CalContinuousStandby then (k, FAST)
      else let k' = speed_step (speed_candidate (std_max (mx_jitterRef (ss_metrics s)) (mx_jitterTarget (ss_metrics s)))) k
           in (k', s_lastResolved k'))"

fun sample_target :: "Speed \<Rightarrow> nat" where
  "sample_target FAST = 30"
| "sample_target SLOW = 100"
| "sample_target VERY_SLOW = 200"
| "sample_target AUTO = 30"

definition SampleCount :: "Session \<Rightarrow> Session \<times> nat" where
  "SampleCount s = (case ResolvedCalibrationSpeed s (ss_speed s) of (k, sp) \<Rightarrow> (s\<lparr>ss_speed := k\<rparr>, sample_target sp))"
section \<open>Collecting a sample\<close>

definition vec_plus :: "Vector3d \<Rightarrow> Vector3d \<Rightarrow> Vector3d" where
  "vec_plus a b = (case (a, b) of ((x, y, z), (u, v, w)) \<Rightarrow> (x + u, y + v, z + w))"

definition ConvertPose :: "SolverMath \<Rightarrow> DriverPose_t \<Rightarrow> CPose" where
  "ConvertPose M p =
     (let w = qWorldFromDriverRotation p;
          driverRot = q_normalized M (q_mul M w (qRotation p));
          driverPos = v_add M (vecWorldFromDriverTranslation p) (q_rot M w (vecPosition p));
          xform = \<lparr>aff_linear = m3_of_quat (mat M) driverRot, aff_translation = driverPos\<rparr>
      in \<lparr>cp_rot = aff_rotation (aff M) xform, cp_trans = aff_translation xform\<rparr>)"

definition axis_sane :: "double \<Rightarrow> double \<Rightarrow> bool" where
  "axis_sane v w \<longleftrightarrow> isfinite v \<and> isfinite w \<and> \<not> lit 50 < \<bar>v\<bar> \<and> \<not> lit 50 < \<bar>w\<bar>"

definition ExtrapolateReferencePose :: "SolverMath \<Rightarrow> double \<Rightarrow> DriverPose_t \<Rightarrow> DriverPose_t" where
  "ExtrapolateReferencePose M dt p =
     (if dt = 0 then p
      else case (vecVelocity p, vecAngularVelocity p) of ((v1, v2, v3), (w1, w2, w3)) \<Rightarrow>
        if \<not> axis_sane v1 w1 \<or> \<not> axis_sane v2 w2 \<or> \<not> axis_sane v3 w3 then p
        else let p1 = p\<lparr>vecPosition := vec_plus (vecPosition p) (v1 * dt, v2 * dt, v3 * dt)\<rparr>;
                 angSpeed = fp_sqrt (w1 * w1 + w2 * w2 + w3 * w3);
                 half = angSpeed * dt * lit 0.5; sn = m_sin M half
             in if lit (1 / 10 ^ 9) < angSpeed
                then p1\<lparr>qRotation := quat_mult (q_of_vec4 (m_cos M half) (w1 / angSpeed * sn) (w2 / angSpeed * sn) (w3 / angSpeed * sn)) (qRotation p1)\<rparr>
                else p1)"

definition GetActiveLatencyOffsetMs :: "CalibrationContext \<Rightarrow> double" where
  "GetActiveLatencyOffsetMs c =
     (if useUpstreamMath (st_mode (cc_settings c)) then 0
      else if st_latencyAutoDetect (cc_settings c) then estimatedLatencyOffsetMs (cc_latency c) else st_targetLatencyOffsetMs (cc_settings c))"

definition speedFromVel :: "Vector3d \<Rightarrow> double" where
  "speedFromVel v = (case v of (x, y, z) \<Rightarrow> let s = fp_sqrt (x * x + y * y + z * z) in if isfinite s then s else 0)"

definition tracking_ok :: "DriverPose_t \<Rightarrow> bool" where
  "tracking_ok p \<longleftrightarrow> poseIsValid p \<and> pose_result p = TrackingResult_Running_OK"

abbreviation device_pose :: "CalibrationContext \<Rightarrow> int \<Rightarrow> DriverPose_t" where
  "device_pose c i \<equiv> cc_devicePoses c ! nat i"

abbreviation pose_time :: "CalibrationContext \<Rightarrow> int \<Rightarrow> u64" where
  "pose_time c i \<equiv> cc_devicePoseSampleTimes c ! nat i"

text \<open>The reference pose with the tracker offset of continuous mode and the latency compensation. \<open>freq\<close> is the frequency of the performance
  counter. A pose whose velocity is not plausible is left as it is.\<close>

definition aligned_reference :: "SolverMath \<Rightarrow> int \<Rightarrow> CalibrationContext \<Rightarrow> DriverPose_t" where
  "aligned_reference M freq c =
     (let r = device_pose c (cc_referenceID c);
          r1 = (if cx_state c = CalContinuous \<or> cx_state c = CalContinuousStandby
                then r\<lparr>vecPosition := vec_plus (vecPosition r) (st_continuousCalibrationOffset (cc_settings c))\<rparr> else r);
          offsetMs = GetActiveLatencyOffsetMs c; rt = pose_time c (cc_referenceID c); tt = pose_time c (cx_targetID c)
      in if offsetMs \<noteq> 0 \<and> rt \<noteq> 0 \<and> tt \<noteq> 0
         then ExtrapolateReferencePose M (of_integer (sint (tt - rt)) / of_integer freq - offsetMs / lit 1000) r1
         else r1)"

definition kLatencyHistoryCapacity :: nat where "kLatencyHistoryCapacity = 100"

definition note_speeds :: "double \<Rightarrow> double \<Rightarrow> double \<Rightarrow> LatencyTrack \<Rightarrow> LatencyTrack" where
  "note_speeds r t now l = l\<lparr>refSpeedHistory := last_of kLatencyHistoryCapacity (refSpeedHistory l @ [r]),
     targetSpeedHistory := last_of kLatencyHistoryCapacity (targetSpeedHistory l @ [t]),
     speedSampleTimes := last_of kLatencyHistoryCapacity (speedSampleTimes l @ [now])\<rparr>"

definition paired_motion :: "SolverMath \<Rightarrow> Vector3d \<Rightarrow> Vector3d \<Rightarrow> PairTrack \<Rightarrow> PairTrack \<times> bool" where
  "paired_motion M r t p =
     (if \<not> pairedMotionPosSeeded p then (p\<lparr>pairedMotionPrevRefPos := r, pairedMotionPrevTgtPos := t, pairedMotionPosSeeded := True\<rparr>, True)
      else let refMoved = (lit 0.002 < v_norm M (v_sub M r (pairedMotionPrevRefPos p)));
               tgtMoved = (lit 0.002 < v_norm M (v_sub M t (pairedMotionPrevTgtPos p)));
               n = pairedMotionMismatchCount p;
               n' = (if refMoved \<noteq> tgtMoved then min (n + 1) 30 else if 0 < n then n - 1 else n)
           in (p\<lparr>pairedMotionMismatchCount := n', pairedMotionPrevRefPos := r, pairedMotionPrevTgtPos := t\<rparr>, refMoved = tgtMoved))"

text \<open>The two readings of the clock and the counter frequency, for one sample.\<close>

record SampleEnv =
  se_now :: double
  se_stamp :: double
  se_freq :: int

definition collected_sample :: "SolverMath \<Rightarrow> SampleEnv \<Rightarrow> CalibrationContext \<Rightarrow> Sample" where
  "collected_sample M e c =
     (let r = ConvertPose M (aligned_reference M (se_freq e) c); t = ConvertPose M (device_pose c (cx_targetID c))
      in \<lparr>s_ref = r, s_target = t, s_valid = True, s_timestamp = se_stamp e,
          s_refSpeed = speedFromVel (vecVelocity (device_pose c (cc_referenceID c))), s_targetSpeed = speedFromVel (vecVelocity (device_pose c (cx_targetID c))),
          s_pairedMotionValid = snd (paired_motion M (cp_trans r) (cp_trans t) (cc_pair c))\<rparr>)"

definition note_sample :: "SolverMath \<Rightarrow> SampleEnv \<Rightarrow> Sample \<Rightarrow> CalibrationContext \<Rightarrow> CalibrationContext" where
  "note_sample M e x c = c\<lparr>cc_latency := note_speeds (s_refSpeed x) (s_targetSpeed x) (se_now e) (cc_latency c),
     cc_pair := fst (paired_motion M (cp_trans (s_ref x)) (cp_trans (s_target x)) (cc_pair c)),
     cc_lock := UpdateAutoLockDetector M (s_ref x) (s_target x) (cc_lock c)\<rparr>"

definition note_jitter :: "SolverMath \<Rightarrow> Session \<Rightarrow> Session" where
  "note_jitter M s =
     (if 2 \<le> length (m_samples (ss_calc s))
      then s\<lparr>ss_metrics := (ss_metrics s)\<lparr>mx_jitterRef := ReferenceJitter M (ss_calc s), mx_jitterTarget := TargetJitter M (ss_calc s)\<rparr>\<rparr>
      else s)"

definition CollectSample :: "SolverMath \<Rightarrow> SampleEnv \<Rightarrow> Session \<Rightarrow> Session \<times> bool" where
  "CollectSample M e s =
     (let c = ss_ctx s in
      if \<not> tracking_ok (device_pose c (cc_referenceID c)) \<or> \<not> tracking_ok (device_pose c (cx_targetID c))
      then (if cx_state c \<noteq> CalContinuous then set_state CalNone s else s, False)
      else let x = collected_sample M e c
           in (note_jitter M (s\<lparr>ss_ctx := note_sample M e x c, ss_calc := PushSample x (ss_calc s)\<rparr>), True))"

section \<open>Starting, ending and wiping a calibration\<close>

definition StartCalibration :: "VREnv \<Rightarrow> Session \<Rightarrow> Session" where
  "StartCalibration env s =
     (let s1 = fst (AssignTargets env (upd_ctx (\<lambda>c. c\<lparr>cc_hasAppliedCalibrationResult := False\<rparr>) s))
      in s1\<lparr>ss_ctx := (ss_ctx s1)\<lparr>cx_state := CalBegin, cc_times := (cc_times (ss_ctx s1))\<lparr>wantedUpdateInterval := 0\<rparr>,
              cc_pair := \<lparr>pairedMotionPosSeeded = False, pairedMotionPrevRefPos = v_zero, pairedMotionPrevTgtPos = v_zero, pairedMotionMismatchCount = 0\<rparr>\<rparr>,
            ss_calc := calc_Clear (ss_calc s1)\<rparr>)"

definition StartContinuousCalibration :: "VREnv \<Rightarrow> Session \<Rightarrow> Session" where
  "StartContinuousCalibration env s =
     (let s1 = StartCalibration env (fst (AssignTargets env (upd_ctx (\<lambda>c. c\<lparr>cc_hasAppliedCalibrationResult := False\<rparr>) s))); c = ss_ctx s1
      in s1\<lparr>ss_ctx := c\<lparr>cx_state := CalContinuous\<rparr>,
            ss_calc := (setRelativeTransformation (cc_refToTargetPose c) (cc_relativePosCalibrated c) (ss_calc s1))
                         \<lparr>c_lockRelativePosition := lockRelativePosition (cc_lock c)\<rparr>,
            ss_gate := anchor_gate_new\<rparr>)"

definition SaveProfile :: "Session \<Rightarrow> Session" where
  "SaveProfile s = s\<lparr>ss_saves := ss_saves s @ [CalProfile.truncate (ss_ctx s)]\<rparr>"

definition EndContinuousCalibration :: "Session \<Rightarrow> Session" where
  "EndContinuousCalibration s = SaveProfile (upd_ctx (\<lambda>c. c\<lparr>cx_state := CalNone, cc_relativePosCalibrated := False\<rparr>) s)"

definition RecoverFromWedgedCalibration :: "VREnv \<Rightarrow> Session \<Rightarrow> Session" where
  "RecoverFromWedgedCalibration env s =
     StartContinuousCalibration env (s\<lparr>ss_calc := calc_Clear (ss_calc s),
       ss_ctx := (ss_ctx s)\<lparr>cc_refToTargetPose := aff_identity, cc_relativePosCalibrated := False, cc_hasAppliedCalibrationResult := False,
         cx_calibratedTranslation := v_zero, cx_calibratedRotation := v_zero\<rparr>,
       ss_pub := (ss_pub s)\<lparr>g_snapNextProfileApply := True\<rparr>\<rparr>)"

abbreviation upd_reloc :: "(RelocDetector \<Rightarrow> RelocDetector) \<Rightarrow> Session \<Rightarrow> Session" where
  "upd_reloc f s \<equiv> s\<lparr>ss_drift := (ss_drift s)\<lparr>g_relocDetector := f (g_relocDetector (ss_drift s))\<rparr>\<rparr>"

definition UndoLastAutoRecovery :: "Session \<Rightarrow> Session \<times> bool" where
  "UndoLastAutoRecovery s =
     (let d = g_relocDetector (ss_drift s); n = rl_snapshot d in
      if \<not> ar_valid n then (s, False)
      else (upd_reloc (\<lambda>d. d\<lparr>rl_snapshot := n\<lparr>ar_valid := False\<rparr>, rl_bannerDismissed := True\<rparr>)
             (upd_ctx (\<lambda>c. c\<lparr>cc_refToTargetPose := ar_refToTargetPose n, cc_relativePosCalibrated := ar_relativePosCalibrated n,
                cc_hasAppliedCalibrationResult := ar_hasAppliedCalibrationResult n\<rparr>) s), True))"

definition DismissAutoRecoveryBanner :: "Session \<Rightarrow> Session" where
  "DismissAutoRecoveryBanner s = upd_reloc (\<lambda>d. d\<lparr>rl_bannerDismissed := True\<rparr>) s"

definition LastAutoRecoveryActive :: "double \<Rightarrow> Session \<Rightarrow> bool" where
  "LastAutoRecoveryActive now s =
     (let d = g_relocDetector (ss_drift s)
      in ar_valid (rl_snapshot d) \<and> \<not> rl_bannerDismissed d \<and> \<not> rl_lastAutoRecoverTime d \<le> lit (- (10 ^ 8)) \<and> \<not> lit 60 < now - rl_lastAutoRecoverTime d)"

section \<open>Clearing the profile and the play space\<close>

text \<open>\<open>Eigen::Vector3d()\<close> leaves its coefficients uninitialised: the rotation and the translation of a cleared context are
  whatever the memory held, the arguments \<open>r\<close> and \<open>t\<close>.\<close>

definition Context_Clear :: "Vector3d \<Rightarrow> Vector3d \<Rightarrow> CalibrationContext \<Rightarrow> CalibrationContext" where
  "Context_Clear r t c = c\<lparr>
     cx_chaperone := (cx_chaperone c)\<lparr>ch_geometry := [], ch_standingCenter := replicate 3 (replicate 4 0), ch_playSpaceSize := (0, 0), ch_valid := False\<rparr>,
     cx_calibratedRotation := r, cx_calibratedTranslation := t, cx_calibratedScale := 1, cx_referenceTrackingSystem := [], cx_targetTrackingSystem := [],
     cx_enabled := False, cx_validProfile := False, cc_refToTargetPose := aff_identity,
     cc_settings := (cc_settings c)\<lparr>st_targetLatencyOffsetMs := 0, st_latencyAutoDetect := False, st_calibrationPaused := False,
       st_continuousCalibrationOffset := v_zero\<rparr>,
     cc_latency := \<lparr>refSpeedHistory = [], targetSpeedHistory = [], speedSampleTimes = [], timeLastLatencyEstimate = 0, estimatedLatencyOffsetMs = 0\<rparr>,
     cx_recalibrateOnMovement := True, cc_lock := \<lparr>lockRelativePosition = False, autoLockHistory = [], autoLockEffectivelyLocked = False\<rparr>,
     cc_relativePosCalibrated := False\<rparr>"

text \<open>The bounds as SteamVR reports them. With no quad the code takes the address of element 0 of an empty vector: \<open>None\<close>.\<close>

definition LoadChaperoneBounds :: "HmdVector3d_t list list \<Rightarrow> float32 list list \<Rightarrow> float32 \<times> float32 \<Rightarrow> CalibrationContext \<Rightarrow> CalibrationContext option" where
  "LoadChaperoneBounds quads centre playArea c =
     (if quads = [] then None
      else Some (c\<lparr>cx_chaperone := (cx_chaperone c)\<lparr>ch_geometry := quads, ch_standingCenter := centre, ch_playSpaceSize := playArea, ch_valid := True\<rparr>\<rparr>))"

text \<open>The new standing zero pose: its translation is moved by the headset's position in the standing universe, turned into the raw one.
  The height is not touched. \<open>None\<close> is the failure: no chaperone interface, or no valid headset pose.\<close>

definition RecenterPlayspaceToCurrentHmd :: "bool \<Rightarrow> (float32 \<times> float32) option \<Rightarrow> float32 list list \<Rightarrow> float32 list list option" where
  "RecenterPlayspaceToCurrentHmd up hmd szp =
     (if \<not> up then None
      else map_option (\<lambda>(x, z).
        let dx = szp ! 0 ! 0 * x + szp ! 0 ! 2 * z; dz = szp ! 2 ! 0 * x + szp ! 2 ! 2 * z
        in szp[0 := (szp ! 0)[3 := szp ! 0 ! 3 + dx], 2 := (szp ! 2)[3 := szp ! 2 ! 3 + dz]]) hmd)"

lemma recenter_keeps_floor:
  assumes "RecenterPlayspaceToCurrentHmd up hmd szp = Some szp'" "length szp = 3"
  shows "szp' ! 1 = szp ! 1" "j < 3 \<Longrightarrow> i < 3 \<Longrightarrow> szp' ! i ! j = szp ! i ! j"
  using assms by (auto simp: RecenterPlayspaceToCurrentHmd_def nth_list_update Let_def split: if_splits)

end
