(* ===== verification/CalibrationDrift.thy ===== *)
theory CalibrationDrift
  imports CalibrationSession "HOL-Library.List_Lexorder" "HOL-Library.Char_ord"
begin

text \<open>
  The drift detectors and corrections that a calibration tick runs (\<open>Calibration.cpp\<close>): the shift of the tracking universe seen in the
  base stations, the relocalisation of the headset with its automatic recovery, the rest-locked yaw correction, the re-anchor
  test and the predictive correction. They share the state record \<open>DriftState\<close>. The diagnostics of the log are left out.
\<close>

section \<open>Shifts of the universe\<close>

record Observation =
  ob_serial :: string
  ob_system :: string
  ob_pose :: AffineCompact3d

definition pose_live :: "DriverPose_t \<Rightarrow> bool" where
  "pose_live p \<longleftrightarrow> poseIsValid p \<and> DriverPose_t.deviceIsConnected p \<and> pose_result p = TrackingResult_Running_OK"

abbreviation world_pose :: "SolverMath \<Rightarrow> CalibrationContext \<Rightarrow> nat \<Rightarrow> AffineCompact3d" where
  "world_pose M c i \<equiv> to_affine (ConvertPose M (cc_devicePoses c ! i))"

definition observe_station :: "SolverMath \<Rightarrow> ScanEnv \<Rightarrow> CalibrationContext \<Rightarrow> nat \<Rightarrow> Observation option" where
  "observe_station M env c i =
     (if env_class env i \<noteq> TrackedDeviceClass_TrackingReference \<or> \<not> pose_live (cc_devicePoses c ! i) then None
      else case (env_serial env i, env_trackingSystem env i) of
        (Some serial, Some system) \<Rightarrow> Some \<lparr>ob_serial = serial, ob_system = system, ob_pose = world_pose M c i\<rparr>
      | _ \<Rightarrow> None)"

definition base_stations :: "SolverMath \<Rightarrow> ScanEnv \<Rightarrow> CalibrationContext \<Rightarrow> Observation list" where
  "base_stations M env c = List.map_filter (observe_station M env c) [0..<k_unMaxTrackedDeviceCount]"

definition RigidDeltaAngleRad :: "SolverMath \<Rightarrow> AffineCompact3d \<Rightarrow> double" where
  "RigidDeltaAngleRad M d = lit 2 * m_acos M (std_min 1 \<bar>qw (q_of_m3 (mat M) (aff_linear d))\<bar>)"

definition moved_by :: "SolverMath \<Rightarrow> AffineCompact3d \<Rightarrow> double \<Rightarrow> double \<Rightarrow> bool" where
  "moved_by M d m rad \<longleftrightarrow> m < v_norm M (aff_translation d) \<or> rad < RigidDeltaAngleRad M d"

definition deg :: "SolverMath \<Rightarrow> rat \<Rightarrow> double" where
  "deg M x = lit x * eigen_pi M / lit 180"

definition any_significant :: "SolverMath \<Rightarrow> AffineCompact3d list \<Rightarrow> bool" where
  "any_significant M ds \<longleftrightarrow> list_ex (\<lambda>d. moved_by M d (lit 0.001) (deg M 0.05)) ds"

definition shift_consensus :: "SolverMath \<Rightarrow> AffineCompact3d list \<Rightarrow> bool" where
  "shift_consensus M ds =
     (if 2 \<le> length ds
      then list_all (\<lambda>d. \<not> moved_by M (aff_mul (aff M) d (aff_inverse (aff M) (ds ! 0))) (lit 0.005) (deg M 0.5)) (tl ds)
      else \<not> (v_norm M (aff_translation (ds ! 0)) < lit 0.1 \<and> RigidDeltaAngleRad M (ds ! 0) < deg M 5))"

definition station_delta :: "SolverMath \<Rightarrow> (string \<rightharpoonup> string \<times> AffineCompact3d) \<Rightarrow> string \<Rightarrow> Observation \<Rightarrow> AffineCompact3d option" where
  "station_delta M cache system ob =
     (case cache (ob_serial ob) of
        None \<Rightarrow> None
      | Some (sys, pose) \<Rightarrow> if sys \<noteq> system then None else Some (aff_mul (aff M) (ob_pose ob) (aff_inverse (aff M) pose)))"

definition applyDelta :: "SolverMath \<Rightarrow> AffineCompact3d \<Rightarrow> bool \<Rightarrow> Vector3d \<times> Vector3d \<Rightarrow> Vector3d \<times> Vector3d" where
  "applyDelta M D refSide = (\<lambda>(transCm, rotDeg).
     let cal = \<lparr>aff_linear = m3_of_quat (mat M) (VRRotationQuat M rotDeg), aff_translation = v_scale M transCm (lit 0.01)\<rparr>;
         newCal = (if refSide then aff_mul (aff M) D cal else aff_mul (aff M) cal (aff_inverse (aff M) D))
     in (v_scale M (aff_translation newCal) (lit 100),
         v_div M (v_scale M (m3_eulerAngles210 (mat M) (aff_linear newCal)) (lit 180)) (eigen_pi M)))"

definition shift_primary :: "SolverMath \<Rightarrow> AffineCompact3d \<Rightarrow> string \<Rightarrow> CalibrationContext \<Rightarrow> CalibrationContext" where
  "shift_primary M D system c =
     (let go = (\<lambda>side. case applyDelta M D side (cx_calibratedTranslation c, cx_calibratedRotation c) of (t, r) \<Rightarrow>
                  c\<lparr>cx_calibratedTranslation := t, cx_calibratedRotation := r\<rparr>)
      in if system = cx_referenceTrackingSystem c then go True else if system = cx_targetTrackingSystem c then go False else c)"

definition shift_extra :: "SolverMath \<Rightarrow> AffineCompact3d \<Rightarrow> string \<Rightarrow> bool \<Rightarrow> AdditionalCalibration \<Rightarrow> AdditionalCalibration" where
  "shift_extra M D system primaryRefShift x =
     (let go = (\<lambda>side. case applyDelta M D side (ax_calibratedTranslation x, ax_calibratedRotation x) of (t, r) \<Rightarrow>
                  x\<lparr>ax_calibratedTranslation := t, ax_calibratedRotation := r\<rparr>)
      in if \<not> ax_valid x then x else if primaryRefShift then go True else if ax_targetTrackingSystem x = system then go False else x)"

definition ApplyUniverseShiftToCalibrations :: "SolverMath \<Rightarrow> AffineCompact3d \<Rightarrow> string \<Rightarrow> Session \<Rightarrow> Session" where
  "ApplyUniverseShiftToCalibrations M D system s =
     (let c = shift_primary M D system (ss_ctx s)
      in s\<lparr>ss_ctx := c\<lparr>cx_additionalCalibrations := map (shift_extra M D system (system = cx_referenceTrackingSystem c)) (cx_additionalCalibrations c)\<rparr>,
           ss_pub := InvalidateAllTransformCaches (ss_pub s)\<rparr>)"

definition system_matters :: "CalibrationContext \<Rightarrow> string \<Rightarrow> bool" where
  "system_matters c system \<longleftrightarrow> system = cx_referenceTrackingSystem c \<or> system = cx_targetTrackingSystem c
     \<or> list_ex (\<lambda>x. ax_valid x \<and> ax_targetTrackingSystem x = system) (cx_additionalCalibrations c)"

definition check_system :: "SolverMath \<Rightarrow> double \<Rightarrow> bool \<Rightarrow> Observation list \<Rightarrow> string \<Rightarrow> Session \<Rightarrow> Session" where
  "check_system M now throttled current system s =
     (let ds = List.map_filter (station_delta M (baseStationCache (ss_drift s)) system) (filter (\<lambda>ob. ob_system ob = system) current)
      in if system_matters (ss_ctx s) system \<and> \<not> throttled \<and> ds \<noteq> [] \<and> any_significant M ds \<and> shift_consensus M ds
         then let s1 = ApplyUniverseShiftToCalibrations M (ds ! 0) system s
              in s1\<lparr>ss_drift := (ss_drift s1)\<lparr>lastBaseStationShiftAcceptedTime := now\<rparr>\<rparr>
         else s)"

definition cache_of :: "Observation list \<Rightarrow> string \<rightharpoonup> string \<times> AffineCompact3d" where
  "cache_of obs = fold (\<lambda>ob m. m(ob_serial ob \<mapsto> (ob_system ob, ob_pose ob))) obs Map.empty"

text \<open>The systems are visited in the order of the map of the code, which is that of their names.\<close>

definition TickBaseStationDrift :: "SolverMath \<Rightarrow> ScanEnv \<Rightarrow> double \<Rightarrow> Session \<Rightarrow> Session" where
  "TickBaseStationDrift M env now s =
     (if \<not> st_baseStationDriftCorrectionEnabled (settings s) \<or> \<not> cx_validProfile (ss_ctx s) \<or> \<not> cx_enabled (ss_ctx s) then s
      else let throttled = (now - lastBaseStationShiftAcceptedTime (ss_drift s) < lit 5);
               current = base_stations M env (ss_ctx s);
               s1 = fold (check_system M now throttled current) (sort (remdups (map ob_system current))) s
           in s1\<lparr>ss_drift := (ss_drift s1)\<lparr>baseStationCache := cache_of current\<rparr>\<rparr>)"

section \<open>Relocalisation of the headset\<close>

definition kRelocHmdJumpM :: double where "kRelocHmdJumpM = lit 0.05"
definition kRelocBodyMaxDeltaM :: double where "kRelocBodyMaxDeltaM = lit 0.05"
definition kRelocBaseStableM :: double where "kRelocBaseStableM = lit 0.001"
definition kRelocThrottleSec :: double where "kRelocThrottleSec = lit 5"
definition kRelocMinBaseStations :: nat where "kRelocMinBaseStations = 2"
definition kRelocAutoRecoverThresholdM :: double where "kRelocAutoRecoverThresholdM = lit 0.3"
definition kRelocAutoRecoverStartupSec :: double where "kRelocAutoRecoverStartupSec = lit 30"
definition kRelocAutoRecoverThrottleSec :: double where "kRelocAutoRecoverThrottleSec = lit 30"
definition kRelocAutoRecoverPostStallSec :: double where "kRelocAutoRecoverPostStallSec = lit 10"

definition station_ids :: "ScanEnv \<Rightarrow> CalibrationContext \<Rightarrow> nat list" where
  "station_ids env c = filter (\<lambda>i. env_class env i = TrackedDeviceClass_TrackingReference \<and> pose_live (cc_devicePoses c ! i)) [0..<k_unMaxTrackedDeviceCount]"

definition station_move :: "SolverMath \<Rightarrow> ScanEnv \<Rightarrow> Session \<Rightarrow> nat \<Rightarrow> double option" where
  "station_move M env s i =
     (case env_serial env i of
        None \<Rightarrow> None
      | Some serial \<Rightarrow> map_option (\<lambda>(sys, pose). v_norm M (v_sub M (aff_translation (world_pose M (ss_ctx s) i)) (aff_translation pose)))
                        (baseStationCache (ss_drift s) serial))"

definition max_of :: "double list \<Rightarrow> double" where
  "max_of ds = fold (\<lambda>d m. if m < d then d else m) ds 0"

definition bsMaxDelta :: "SolverMath \<Rightarrow> ScanEnv \<Rightarrow> Session \<Rightarrow> double" where
  "bsMaxDelta M env s = max_of (List.map_filter (station_move M env s) (station_ids env (ss_ctx s)))"

text \<open>Trackers and controllers of a system other than the headset's, and how far they moved since the last tick.\<close>

definition body_ids :: "ScanEnv \<Rightarrow> string \<Rightarrow> CalibrationContext \<Rightarrow> nat list" where
  "body_ids env hmdSystem c = filter (\<lambda>i. env_class env i \<in> {TrackedDeviceClass_GenericTracker, TrackedDeviceClass_Controller}
     \<and> pose_live (cc_devicePoses c ! i) \<and> (case env_trackingSystem env i of Some sys \<Rightarrow> sys \<noteq> hmdSystem | None \<Rightarrow> False)) [0..<k_unMaxTrackedDeviceCount]"

definition bodyMaxDelta :: "SolverMath \<Rightarrow> CalibrationContext \<Rightarrow> (nat \<rightharpoonup> Vector3d) \<Rightarrow> nat list \<Rightarrow> double" where
  "bodyMaxDelta M c prev is =
     max_of (List.map_filter (\<lambda>i. map_option (\<lambda>p. v_norm M (v_sub M (aff_translation (world_pose M c i)) p)) (prev i)) is)"

definition currentBodyTrans :: "SolverMath \<Rightarrow> CalibrationContext \<Rightarrow> nat list \<Rightarrow> nat \<rightharpoonup> Vector3d" where
  "currentBodyTrans M c is = fold (\<lambda>i m. m(i \<mapsto> aff_translation (world_pose M c i))) is Map.empty"

definition hmd_turn :: "SolverMath \<Rightarrow> AffineCompact3d \<Rightarrow> AffineCompact3d \<Rightarrow> double" where
  "hmd_turn M new old =
     (let rotDelta = q_normalized M (q_mul M (q_of_m3 (mat M) (aff_linear new)) (q_conjugate M (q_of_m3 (mat M) (aff_linear old))))
      in lit 2 * m_acos M (std_min 1 \<bar>qw rotDelta\<bar>))"

definition reloc_fires :: "SolverMath \<Rightarrow> ScanEnv \<Rightarrow> double \<Rightarrow> AffineCompact3d \<Rightarrow> nat list \<Rightarrow> Session \<Rightarrow> bool" where
  "reloc_fires M env now hmd bodies s =
     (let d = g_relocDetector (ss_drift s)
      in rl_havePrevHmd d \<and> kRelocMinBaseStations \<le> length (station_ids env (ss_ctx s)) \<and> \<not> now - rl_lastFireTime d < kRelocThrottleSec
         \<and> kRelocHmdJumpM < v_norm M (v_sub M (aff_translation hmd) (aff_translation (rl_prevHmd d)))
         \<and> bodyMaxDelta M (ss_ctx s) (rl_prevBodyTrans d) bodies < kRelocBodyMaxDeltaM
         \<and> bsMaxDelta M env s < kRelocBaseStableM)"

definition recover_allowed :: "SolverMath \<Rightarrow> double \<Rightarrow> AffineCompact3d \<Rightarrow> Session \<Rightarrow> bool" where
  "recover_allowed M now hmd s =
     (let d = g_relocDetector (ss_drift s);
          jump = (if rl_havePrevHmd d then v_norm M (v_sub M (aff_translation hmd) (aff_translation (rl_prevHmd d))) else 0)
      in kRelocAutoRecoverThresholdM \<le> jump \<and> (state_of s = CalContinuous \<or> state_of s = CalContinuousStandby)
         \<and> kRelocAutoRecoverStartupSec \<le> now \<and> kRelocAutoRecoverThrottleSec \<le> now - rl_lastAutoRecoverTime d
         \<and> \<not> now - rl_lastHmdInvalidTime d < kRelocAutoRecoverPostStallSec)"

definition auto_recover :: "SolverMath \<Rightarrow> VREnv \<Rightarrow> double \<Rightarrow> AffineCompact3d \<Rightarrow> Session \<Rightarrow> Session" where
  "auto_recover M env now hmd s =
     (let c = ss_ctx s; d = g_relocDetector (ss_drift s);
          s1 = s\<lparr>ss_drift := (ss_drift s)\<lparr>
                 g_relocDetector := d\<lparr>rl_snapshot := \<lparr>ar_valid = True, ar_refToTargetPose = cc_refToTargetPose c,
                   ar_relativePosCalibrated = cc_relativePosCalibrated c, ar_hasAppliedCalibrationResult = cc_hasAppliedCalibrationResult c\<rparr>,
                   rl_bannerDismissed := False\<rparr>,
                 g_recoveryDeltaBuffer := recovery_Push (CalMath.truncate M) (v_sub M (aff_translation hmd) (aff_translation (rl_prevHmd d))) now
                   (g_recoveryDeltaBuffer (ss_drift s))\<rparr>\<rparr>
      in upd_reloc (\<lambda>d. d\<lparr>rl_lastAutoRecoverTime := now\<rparr>) (RecoverFromWedgedCalibration env s1))"

definition reloc_remember :: "AffineCompact3d \<Rightarrow> (nat \<rightharpoonup> Vector3d) \<Rightarrow> Session \<Rightarrow> Session" where
  "reloc_remember hmd bodies s = upd_reloc (\<lambda>d. d\<lparr>rl_prevHmd := hmd, rl_havePrevHmd := True, rl_prevBodyTrans := bodies\<rparr>) s"

text \<open>The part of the detector that runs with a valid headset pose and a known tracking system of the headset.\<close>

definition reloc_check :: "SolverMath \<Rightarrow> VREnv \<Rightarrow> double \<Rightarrow> Session \<Rightarrow> Session" where
  "reloc_check M env now s =
     (let c = ss_ctx s; d = g_relocDetector (ss_drift s); hmd = world_pose M c 0;
          bodies = body_ids (ve_scan env) (rl_hmdTrackingSystem d) c;
          fired = reloc_fires M (ve_scan env) now hmd bodies s;
          s1 = (if fired then upd_reloc (\<lambda>d. d\<lparr>rl_lastFireTime := now, rl_lastFireDelta := v_sub M (aff_translation hmd) (aff_translation (rl_prevHmd d)),
                  rl_lastFireRotRad := hmd_turn M hmd (rl_prevHmd d)\<rparr>) s else s);
          s2 = (if fired \<and> recover_allowed M now hmd s1 then auto_recover M env now hmd s1 else s1)
      in reloc_remember hmd (currentBodyTrans M c bodies) s2)"

definition TickHmdRelocalizationDetector :: "SolverMath \<Rightarrow> VREnv \<Rightarrow> double \<Rightarrow> Session \<Rightarrow> Session" where
  "TickHmdRelocalizationDetector M env now s =
     (if state_of s \<in> {CalBegin, CalRotation, CalTranslation}
      then upd_reloc (\<lambda>d. d\<lparr>rl_havePrevHmd := False, rl_prevBodyTrans := Map.empty\<rparr>) s
      else if \<not> pose_live (cc_devicePoses (ss_ctx s) ! 0)
      then upd_reloc (\<lambda>d. d\<lparr>rl_havePrevHmd := False, rl_prevBodyTrans := Map.empty, rl_lastHmdInvalidTime := now\<rparr>) s
      else if rl_hmdTrackingSystem (g_relocDetector (ss_drift s)) \<noteq> [] then reloc_check M env now s
      else case env_trackingSystem (ve_scan env) 0 of
        None \<Rightarrow> s
      | Some sys \<Rightarrow> reloc_check M env now (upd_reloc (\<lambda>d. d\<lparr>rl_hmdTrackingSystem := sys\<rparr>) s))"

section \<open>Rest-locked yaw\<close>

definition ClassifyTrackingSystem :: "string \<Rightarrow> TrackingSystemClass" where
  "ClassifyTrackingSystem name =
     (let lower = map lower_ascii name in
      if name = [] then TSUnknown
      else if str_contains ''lighthouse'' lower then TSLighthouse
      else if str_contains ''oculus'' lower \<or> str_contains ''quest'' lower then TSQuest
      else if str_contains ''slime'' lower then TSSlimeVR else TSUnknown)"

definition WorldRotationFromPose :: "SolverMath \<Rightarrow> DriverPose_t \<Rightarrow> Quaterniond" where
  "WorldRotationFromPose M p = q_mul M (qWorldFromDriverRotation p) (qRotation p)"

type_synonym rest_walk = "(nat \<rightharpoonup> RestState) \<times> YawContribution list \<times> nat list"

definition rest_contribution :: "SolverMath \<Rightarrow> string \<Rightarrow> Quaterniond \<Rightarrow> double \<Rightarrow> RestState \<Rightarrow> YawContribution" where
  "rest_contribution M system worldRot now rest =
     (let cls = ClassifyTrackingSystem system
      in \<lparr>yawErrRad = - SignedYawDeltaRad (CalMath.truncate M) (lockedRot rest) worldRot,
          yc_weight = ClassWeight cls * AgeWeight (CalMath.truncate M) (std_max 0 (now - phaseEnteredAt rest)) * QualityWeight 0, yc_cls = cls\<rparr>)"

definition considerDevice :: "SolverMath \<Rightarrow> CalibrationContext \<Rightarrow> double \<Rightarrow> double \<Rightarrow> nat \<Rightarrow> string \<Rightarrow> rest_walk \<Rightarrow> rest_walk" where
  "considerDevice M c now dt i system = (\<lambda>(m, cs, seen).
     let tp = cc_devicePoses c ! i in
     if \<not> pose_live tp then (m(i := None), cs, seen)
     else let worldRot = WorldRotationFromPose M tp;
              old = (case m i of Some r \<Rightarrow> r | None \<Rightarrow> RestState_new);
              rest = UpdatePhase (CalMath.truncate M) old worldRot now dt
          in if rs_phase rest = AtRest \<and> haveLock rest
             then let rest' = (if haveLock old then rest else rest\<lparr>phaseEnteredAt := now\<rparr>)
                  in (m(i \<mapsto> rest'), cs @ [rest_contribution M system worldRot now rest'], seen @ [i])
             else (m(i \<mapsto> rest), cs, seen))"

definition device_index :: "int \<Rightarrow> bool" where
  "device_index i \<longleftrightarrow> 0 \<le> i \<and> i < int k_unMaxTrackedDeviceCount"

definition consider_extra :: "SolverMath \<Rightarrow> CalibrationContext \<Rightarrow> double \<Rightarrow> double \<Rightarrow> AdditionalCalibration \<Rightarrow> rest_walk \<Rightarrow> rest_walk" where
  "consider_extra M c now dt x w =
     (if \<not> ax_enabled x \<or> \<not> ax_valid x \<or> \<not> device_index (ax_targetID x) \<or> nat (ax_targetID x) \<in> set (snd (snd w)) then w
      else considerDevice M c now dt (nat (ax_targetID x)) (ax_targetTrackingSystem x) w)"

definition rest_walk_all :: "SolverMath \<Rightarrow> CalibrationContext \<Rightarrow> double \<Rightarrow> double \<Rightarrow> (nat \<rightharpoonup> RestState) \<Rightarrow> rest_walk" where
  "rest_walk_all M c now dt m =
     fold (consider_extra M c now dt) (cx_additionalCalibrations c)
       (if device_index (cx_targetID c) then considerDevice M c now dt (nat (cx_targetID c)) (cx_targetTrackingSystem c) (m, [], []) else (m, [], []))"

definition pool_cap :: "YawContribution list \<Rightarrow> double" where
  "pool_cap cs = fold (\<lambda>x cap. let k = CapForClass (yc_cls x) RateCaps_default in if k < cap then k else cap) cs (global_ceiling_deg_per_sec RateCaps_default)"

fun add_yaw :: "double \<Rightarrow> Vector3d \<Rightarrow> Vector3d" where
  "add_yaw d (z, y, x) = (z, y + d, x)"

definition TickRestLockedYaw :: "SolverMath \<Rightarrow> double \<Rightarrow> Session \<Rightarrow> Session" where
  "TickRestLockedYaw M now s =
     (let c = ss_ctx s; d = ss_drift s in
      if \<not> st_restLockedYawEnabled (settings s) \<or> useUpstreamMath (st_mode (settings s)) \<or> state_of s \<in> {CalContinuous, CalBegin, CalRotation, CalTranslation}
      then s\<lparr>ss_drift := d\<lparr>g_restStates := Map.empty, g_restLockedYawLastTickTime := - 1\<rparr>\<rparr>
      else if \<not> cx_validProfile c then s
      else let dt = (if 0 < g_restLockedYawLastTickTime d then now - g_restLockedYawLastTickTime d else 0);
               (m, cs, seen) = rest_walk_all M c now dt (g_restStates d);
               s1 = s\<lparr>ss_drift := d\<lparr>g_restStates := m, g_restLockedYawLastTickTime := now\<rparr>\<rparr>
           in if cs = [] \<or> dt \<le> 0 then s1
              else let step = ApplyBoundedYawStep (FuseYawContributionsRad (CalMath.truncate M) cs) dt (pool_cap cs) * (lit 180 / eigen_pi M)
                   in upd_ctx (\<lambda>c. c\<lparr>cx_calibratedRotation := add_yaw step (cx_calibratedRotation c)\<rparr>) s1)"

section \<open>Re-anchoring and predictive correction\<close>

definition TickReanchorChiSquare :: "SolverMath \<Rightarrow> double \<Rightarrow> Session \<Rightarrow> Session \<times> bool" where
  "TickReanchorChiSquare M now s =
     (let d = ss_drift s in
      if \<not> st_reanchorChiSquareEnabled (settings s)
      then (s\<lparr>ss_drift := d\<lparr>g_reanchorChiState := ReanchorState_new, g_reanchorChiLastTickTime := - 1\<rparr>\<rparr>, False)
      else let dt = (if 0 < g_reanchorChiLastTickTime d then now - g_reanchorChiLastTickTime d else 0);
               d1 = d\<lparr>g_reanchorChiLastTickTime := now\<rparr>; p = cc_devicePoses (ss_ctx s) ! 0
           in if \<not> pose_live p then (s\<lparr>ss_drift := d1\<rparr>, False)
              else let w = qWorldFromDriverRotation p;
                       worldT = v_add M (vecWorldFromDriverTranslation p) (q_rot M w (vecPosition p));
                       worldR = q_normalized M (q_mul M w (qRotation p));
                       r = fst (TickAndCheckCandidate (CalMath.truncate M) worldT worldR now dt (g_reanchorChiState d1))
                   in (s\<lparr>ss_drift := d1\<lparr>g_reanchorChiState := r\<rparr>\<rparr>, IsFrozen r now))"

definition kPredictiveRateCapMps :: double where "kPredictiveRateCapMps = lit 0.001"

definition TickPredictiveRecovery :: "SolverMath \<Rightarrow> double \<Rightarrow> Session \<Rightarrow> Session" where
  "TickPredictiveRecovery M now s =
     (let d = ss_drift s in
      if \<not> st_predictiveRecoveryEnabled (settings s)
      then s\<lparr>ss_drift := d\<lparr>g_recoveryDeltaBuffer := recovery_Clear (g_recoveryDeltaBuffer d), g_predictiveRecoveryLastTickTime := - 1\<rparr>\<rparr>
      else if \<not> cx_validProfile (ss_ctx s) \<or> state_of s \<in> {CalBegin, CalRotation, CalTranslation} then s
      else let dt = (if 0 < g_predictiveRecoveryLastTickTime d then now - g_predictiveRecoveryLastTickTime d else 0);
               step = ComputePerTickNudge (CalMath.truncate M) (g_recoveryDeltaBuffer d) now dt kPredictiveRateCapMps;
               s1 = s\<lparr>ss_drift := d\<lparr>g_predictiveRecoveryLastTickTime := now\<rparr>\<rparr>
           in if v_norm M step \<le> 0 then s1
              else upd_ctx (\<lambda>c. c\<lparr>cx_calibratedTranslation := v_sub M (cx_calibratedTranslation c) (v_scale M step (lit 100))\<rparr>) s1)"

text \<open>The detectors in the order of a tick: a candidate of the re-anchor test suspends the two corrections.\<close>

definition drift_ticks :: "SolverMath \<Rightarrow> VREnv \<Rightarrow> double \<Rightarrow> Session \<Rightarrow> Session" where
  "drift_ticks M env now s =
     (case TickReanchorChiSquare M now (TickHmdRelocalizationDetector M env now s) of (s1, frozen) \<Rightarrow>
        if frozen then s1 else TickPredictiveRecovery M now (TickRestLockedYaw M now s1))"

end
