(* ===== verification/CalibrationTick.thy ===== *)
theory CalibrationTick
  imports CalibrationDrift
begin

text \<open>
  \<open>CalibrationTick\<close> of the overlay (\<open>Calibration.cpp\<close>), block by block in the order of the code. A block ends with \<open>Go\<close>, with \<open>Stop\<close>
  (a return of the function; the first one, while OpenVR is not running, is left out) or with \<open>Thrown\<close> (a call of the driver failed, or the pose segment is closed). Readings of clocks, of the pose
  segment and of OpenVR are the record \<open>TickEnv\<close>; \<open>te_bits\<close> is the bit pattern of a double and \<open>te_trace\<close> Eigen's trace.
\<close>

section \<open>Flow\<close>

datatype Flow = Go | Stop | Thrown

record TickEnv =
  te_vr :: VREnv
  te_up :: "nat \<Rightarrow> bool"
  te_sample :: SampleEnv
  te_newPoses :: "AugmentedPose list option"
  te_stamp :: "nat \<Rightarrow> double"
  te_extraNow :: "nat \<Rightarrow> double"
  te_triggers :: "int \<Rightarrow> bool"
  te_bits :: "double \<Rightarrow> u64"
  te_trace :: "Matrix3d \<Rightarrow> double"

type_synonym block = "Session \<times> Flow"

definition tick_then :: "block \<Rightarrow> (Session \<Rightarrow> block) \<Rightarrow> block" where
  "tick_then r f = (case r of (s, fl) \<Rightarrow> if fl = Go then f s else (s, fl))"

abbreviation upd_times :: "(TickTimes \<Rightarrow> TickTimes) \<Rightarrow> Session \<Rightarrow> Session" where
  "upd_times f s \<equiv> s\<lparr>ss_ctx := (ss_ctx s)\<lparr>cc_times := f (cc_times (ss_ctx s))\<rparr>\<rparr>"

definition run_scan :: "SolverMath \<Rightarrow> TickEnv \<Rightarrow> Session \<Rightarrow> block" where
  "run_scan M e s =
     (case ScanAndApplyProfile M (te_up e) (ve_scan (te_vr e)) (ss_ctx s) (ss_pub s) of (p, ok, en, ch) \<Rightarrow>
        (s\<lparr>ss_pub := p, ss_ctx := (ss_ctx s)\<lparr>cx_enabled := en\<rparr>\<rparr>, if ok then Go else Thrown))"

section \<open>Before the state machine\<close>

definition id_ok :: "int \<Rightarrow> bool" where
  "id_ok i \<longleftrightarrow> i = - 1 \<or> device_index i"

definition open_block :: "double \<Rightarrow> Session \<Rightarrow> block" where
  "open_block time s =
     (if time - timeLastTick (cc_times (ss_ctx s)) < lit 0.05 then (s, Stop)
      else let s1 = ResolveLockMode s
           in if \<not> id_ok (cc_referenceID (ss_ctx s1)) \<or> \<not> id_ok (cx_targetID (ss_ctx s1)) then (s1, Stop) else (s1, Go))"

definition reassign_block :: "TickEnv \<Rightarrow> double \<Rightarrow> Session \<Rightarrow> Session" where
  "reassign_block e time s =
     (if (state_of s = CalContinuous \<or> state_of s = CalContinuousStandby) \<and> st_requireTriggerPressToApply (settings s)
         \<and> lit 10 < time - timeLastAssign (cc_times (ss_ctx s))
      then fst (AssignTargets (te_vr e) (upd_times (\<lambda>t. t\<lparr>timeLastAssign := time\<rparr>) s)) else s)"

definition geometry_block :: "Session \<Rightarrow> Session" where
  "geometry_block s =
     (case shift_tick (m_isValid (ss_calc s)) (st_useCusumGeometryShift (settings s)) (mx_error_currentCal (ss_metrics s)) (ss_shift s) of (w, fire) \<Rightarrow>
        let s1 = s\<lparr>ss_shift := w\<rparr>
        in if fire then s1\<lparr>ss_calc := calc_Clear (ss_calc s), ss_ctx := (ss_ctx s)\<lparr>cx_state := CalContinuousStandby, cc_relativePosCalibrated := False\<rparr>\<rparr> else s1)"

definition latency_sample :: "SolverMath \<Rightarrow> CalSettings \<Rightarrow> LatencyTrack \<Rightarrow> double option" where
  "latency_sample M st l =
     (case EstimateLatencyLagSamples (CalMath.truncate M) (st_useGccPhatLatency st) (refSpeedHistory l) (targetSpeedHistory l) 10 of
        None \<Rightarrow> None
      | Some lag \<Rightarrow>
          let dur = last (speedSampleTimes l) - List.hd (speedSampleTimes l); intervals = length (speedSampleTimes l) - 1
          in if lit 0.001 < dur \<and> 0 < intervals
             then let lagMs = lag * lit 1000 / (of_integer (int intervals) / dur) in if isfinite lagMs \<and> \<bar>lagMs\<bar> \<le> lit 200 then Some lagMs else None
             else None)"

definition latency_block :: "SolverMath \<Rightarrow> double \<Rightarrow> Session \<Rightarrow> Session" where
  "latency_block M time s =
     (let l = cc_latency (ss_ctx s) in
      if \<not> useUpstreamMath (st_mode (settings s)) \<and> 1 < time - timeLastLatencyEstimate l
         \<and> kLatencyHistoryCapacity \<le> length (refSpeedHistory l) \<and> kLatencyHistoryCapacity \<le> length (targetSpeedHistory l)
         \<and> kLatencyHistoryCapacity \<le> length (speedSampleTimes l)
      then let l1 = l\<lparr>timeLastLatencyEstimate := time\<rparr>
           in upd_ctx (\<lambda>c. c\<lparr>cc_latency := (case latency_sample M (settings s) l1 of
                None \<Rightarrow> l1
              | Some lagMs \<Rightarrow> l1\<lparr>estimatedLatencyOffsetMs := lit 0.7 * estimatedLatencyOffsetMs l1 + lit 0.3 * lagMs\<rparr>)\<rparr>) s
      else s)"

definition ingest_pose :: "AugmentedPose \<Rightarrow> CalibrationContext \<Rightarrow> CalibrationContext" where
  "ingest_pose a c =
     (let i = sint (deviceId a) in
      if device_index i then c\<lparr>cc_devicePoses := (cc_devicePoses c)[nat i := aug_pose a], cc_devicePoseSampleTimes := (cc_devicePoseSampleTimes c)[nat i := sample_time a]\<rparr>
      else c)"

definition ingest_block :: "TickEnv \<Rightarrow> double \<Rightarrow> Session \<Rightarrow> block" where
  "ingest_block e time s =
     (let s1 = upd_times (\<lambda>t. t\<lparr>timeLastTick := time\<rparr>) s
      in case te_newPoses e of None \<Rightarrow> (s1, Thrown) | Some ps \<Rightarrow> (upd_ctx (fold ingest_pose ps) s1, Go))"

text \<open>The previous position is kept in single precision and compared in double precision.\<close>

definition hmd_stalled :: "CalibrationContext \<Rightarrow> bool" where
  "hmd_stalled c \<longleftrightarrow>
     (case (vecPosition (cc_devicePoses c ! 0), hmdPrev (cc_hmd c)) of ((x, y, z), (px, py, pz)) \<Rightarrow>
        (x = 0 \<and> y = 0 \<and> z = 0) \<or> (fp_eq (fp_cast px) x \<and> fp_eq (fp_cast py) y \<and> fp_eq (fp_cast pz) z))"

definition stall_block :: "Session \<Rightarrow> block" where
  "stall_block s =
     (let c = ss_ctx s in
      if hmd_stalled c then (s\<lparr>ss_ctx := c\<lparr>cc_hmd := (cc_hmd c)\<lparr>consecutiveHmdStalls := consecutiveHmdStalls (cc_hmd c) + 1\<rparr>\<rparr>\<rparr>, Stop)
      else case vecPosition (cc_devicePoses c ! 0) of (x, y, z) \<Rightarrow>
        (s\<lparr>ss_ctx := c\<lparr>cc_hmd := \<lparr>hmdPrev = (fp_cast x, fp_cast y, fp_cast z), consecutiveHmdStalls = 0\<rparr>\<rparr>\<rparr>, Go))"

definition timed_scan :: "SolverMath \<Rightarrow> TickEnv \<Rightarrow> double \<Rightarrow> double \<Rightarrow> Session \<Rightarrow> block" where
  "timed_scan M e time interval s =
     (if interval \<le> time - timeLastScan (cc_times (ss_ctx s))
      then tick_then (run_scan M e s) (\<lambda>s. (upd_times (\<lambda>t. t\<lparr>timeLastScan := time\<rparr>) s, Go)) else (s, Go))"

definition scan_block :: "SolverMath \<Rightarrow> TickEnv \<Rightarrow> double \<Rightarrow> Session \<Rightarrow> block" where
  "scan_block M e time s =
     (if state_of s \<in> {CalNone, CalContinuousStandby, CalContinuous} then timed_scan M e time 1 s else (s, Go))"

section \<open>The state machine\<close>

definition standby_block :: "TickEnv \<Rightarrow> Session \<Rightarrow> block" where
  "standby_block e s =
     (if state_of s = CalContinuousStandby
      then (case AssignTargets (te_vr e) s of (s1, found) \<Rightarrow>
              if found then (StartContinuousCalibration (te_vr e) s1, Go) else (upd_times (\<lambda>t. t\<lparr>wantedUpdateInterval := lit 0.5\<rparr>) s1, Stop))
      else (s, Go))"

definition idle_block :: "SolverMath \<Rightarrow> TickEnv \<Rightarrow> double \<Rightarrow> Session \<Rightarrow> block" where
  "idle_block M e time s =
     (if state_of s = CalNone
      then (upd_times (\<lambda>t. t\<lparr>wantedUpdateInterval := 1\<rparr>) (TickBaseStationDrift M (ve_scan (te_vr e)) time s), Stop)
      else if state_of s = CalEditing
      then tick_then (timed_scan M e time (lit 0.1) (upd_times (\<lambda>t. t\<lparr>wantedUpdateInterval := lit 0.1\<rparr>) s)) (\<lambda>s. (s, Stop))
      else (s, Go))"

definition anchors_assigned :: "CalibrationContext \<Rightarrow> bool" where
  "anchors_assigned c \<longleftrightarrow> \<not> (cc_referenceID c = - 1 \<or> int k_unMaxTrackedDeviceCount \<le> cc_referenceID c)
     \<and> \<not> (cx_targetID c = - 1 \<or> int k_unMaxTrackedDeviceCount \<le> cx_targetID c)"

definition pose_valid_simple :: "CalibrationContext \<Rightarrow> int \<Rightarrow> bool" where
  "pose_valid_simple c i \<longleftrightarrow> device_index i \<and> tracking_ok (device_pose c i)"

definition begin_ok :: "SolverMath \<Rightarrow> Session \<Rightarrow> bool" where
  "begin_ok M s \<longleftrightarrow> pose_valid_simple (ss_ctx s) (cc_referenceID (ss_ctx s)) \<and> pose_valid_simple (ss_ctx s) (cx_targetID (ss_ctx s))
     \<and> \<not> fp_cast (st_jitterThreshold (settings s)) < ReferenceJitter M (ss_calc s) \<and> \<not> fp_cast (st_jitterThreshold (settings s)) < TargetJitter M (ss_calc s)"

definition abort_block :: "bool \<Rightarrow> Session \<Rightarrow> block" where
  "abort_block ok s = (if ok then (s, Go) else if state_of s \<noteq> CalContinuous then (set_state CalNone s, Stop) else (s, Stop))"

definition begin_block :: "SolverMath \<Rightarrow> TickEnv \<Rightarrow> Session \<Rightarrow> block" where
  "begin_block M e s =
     (let ok = anchors_assigned (ss_ctx s) in
      if state_of s \<noteq> CalBegin then abort_block ok s
      else tick_then (run_scan M e s) (\<lambda>s1.
        if ok \<and> begin_ok M s1 then (upd_times (\<lambda>t. t\<lparr>wantedUpdateInterval := 0\<rparr>) (set_state CalRotation s1), Stop)
        else abort_block False s1))"

definition liveness_inputs :: "TickEnv \<Rightarrow> double \<Rightarrow> CalibrationContext \<Rightarrow> int \<Rightarrow> TrackerLivenessInputs option" where
  "liveness_inputs e time c i =
     (if i < 0 \<or> i = 0 then None
      else let p = device_pose c i in
        case (vecPosition p, vecVelocity (cc_devicePoses c ! 0)) of ((x, y, z), (v1, v2, v3)) \<Rightarrow>
          Some \<lparr>posHash = HashPositionLow64 (te_bits e x) (te_bits e y) (te_bits e z), TrackerLivenessInputs.deviceIsConnected = DriverPose_t.deviceIsConnected p,
                hmdSpeedMps = fp_sqrt (v1 * v1 + v2 * v2 + v3 * v3), lastEmaUpdateSec = timeLastLatencyEstimate (cc_latency c), tick_now = time\<rparr>)"

definition gate_block :: "TickEnv \<Rightarrow> double \<Rightarrow> Session \<Rightarrow> block" where
  "gate_block e time s =
     (if state_of s \<noteq> CalContinuous then (s, Go)
      else case gate_tick (liveness_inputs e time (ss_ctx s) (cc_referenceID (ss_ctx s))) (liveness_inputs e time (ss_ctx s) (cx_targetID (ss_ctx s))) (ss_gate s) of
        (g, GateSkip) \<Rightarrow> (upd_times (\<lambda>t. t\<lparr>wantedUpdateInterval := lit 0.5\<rparr>) (s\<lparr>ss_gate := g\<rparr>), Stop)
      | (g, GateRestart) \<Rightarrow> (StartContinuousCalibration (te_vr e) (s\<lparr>ss_gate := g\<rparr>), Stop)
      | (g, GateCollect) \<Rightarrow> (s\<lparr>ss_gate := g\<rparr>, Go))"

section \<open>Samples\<close>

definition collect_block :: "SolverMath \<Rightarrow> TickEnv \<Rightarrow> Session \<Rightarrow> block" where
  "collect_block M e s = (case CollectSample M (te_sample e) s of (s1, ok) \<Rightarrow> (s1, if ok then Go else Stop))"

text \<open>The target count is asked for again in every round of the loop.\<close>

function trim_samples :: "Session \<Rightarrow> Calc \<Rightarrow> Session \<times> Calc" where
  "trim_samples s k = (case SampleCount s of (s1, n) \<Rightarrow> if n < length (m_samples k) then trim_samples s1 (ShiftSample k) else (s1, k))"
  by pat_completeness auto

termination
  by (relation "measure (\<lambda>(s, k). length (m_samples k))") (auto simp: ShiftSample_def)

declare trim_samples.simps [simp del]

definition count_block :: "Session \<Rightarrow> block" where
  "count_block s =
     (case SampleCount (fst (SampleCount s)) of (s1, n) \<Rightarrow>
        if length (m_samples (ss_calc s1)) < n then (s1, Stop)
        else case trim_samples s1 (ss_calc s1) of (s2, k) \<Rightarrow> (s2\<lparr>ss_calc := k\<rparr>, Go))"

definition phase_block :: "SolverMath \<Rightarrow> Session \<Rightarrow> block" where
  "phase_block M s =
     (if state_of s = CalRotation
      then (if RotationDiversity M (ss_calc s) < lit 0.7 then (upd_calc ShiftSample s, Stop)
            else (set_state CalTranslation (upd_calc FreezeRotationPhaseSamples s), Stop))
      else if state_of s = CalTranslation \<and> TranslationDiversity (ss_calc s) < lit 0.55 then (upd_calc ShiftSample s, Stop)
      else (s, Go))"

definition trigger_block :: "TickEnv \<Rightarrow> Session \<Rightarrow> block" where
  "trigger_block e s =
     (let c = ss_ctx s in
      if state_of s = CalContinuous \<and> st_requireTriggerPressToApply (settings s) \<and> cc_hasAppliedCalibrationResult c
      then (if list_all (\<lambda>i. 0 \<le> i \<longrightarrow> te_triggers e i) (cc_controllerIDs c) then (s\<lparr>ss_ctx := c\<lparr>cc_wasWaitingForTriggers := False\<rparr>\<rparr>, Go)
            else (s\<lparr>ss_ctx := c\<lparr>cc_wasWaitingForTriggers := True\<rparr>\<rparr>, Stop))
      else (s, Go))"

section \<open>Solving\<close>

text \<open>The time series of the metrics: what is older than 30 seconds, or beyond 4096 points, is dropped.\<close>

fun ts_trim :: "double \<Rightarrow> (double \<times> 'a) list \<Rightarrow> (double \<times> 'a) list" where
  "ts_trim cutoff [] = []"
| "ts_trim cutoff (x # xs) = (if fst x < cutoff \<or> 4096 < length (x # xs) then ts_trim cutoff xs else x # xs)"

definition ts_push :: "double \<Rightarrow> 'a \<Rightarrow> (double \<times> 'a) list \<Rightarrow> (double \<times> 'a) list" where
  "ts_push now x xs = ts_trim (now - lit 30) (xs @ [(now, x)])"

text \<open>What \<open>ComputeIncremental\<close> adds to \<open>error_currentCal\<close>: the error of the present calibration, when its validation succeeds.\<close>

definition pushed_error :: "SolverMath \<Rightarrow> Calc \<Rightarrow> double option" where
  "pushed_error M k =
     (if length (m_samples k) < 6 then None
      else let (k1, locked) = lock_stage M k
           in if locked \<or> \<not> m_isValid k1 then None
              else case ValidateCalibration M (m_estimatedTransformation k1) k1 of (_, ok, err, _) \<Rightarrow> if ok then Some (err * lit 1000) else None)"

definition note_error :: "SolverMath \<Rightarrow> double \<Rightarrow> Calc \<Rightarrow> Session \<Rightarrow> Session" where
  "note_error M now k s =
     (case pushed_error M k of None \<Rightarrow> s
      | Some x \<Rightarrow> s\<lparr>ss_metrics := (ss_metrics s)\<lparr>mx_error_currentCal := ts_push now x (mx_error_currentCal (ss_metrics s))\<rparr>\<rparr>)"

definition incremental :: "SolverMath \<Rightarrow> CalSettings \<Rightarrow> Calc \<Rightarrow> Calc \<times> bool" where
  "incremental M st k =
     (case ComputeIncremental M (st_mode st) (fp_cast (st_continuousCalibrationThreshold st)) (fp_cast (st_maxRelativeErrorThreshold st)) (st_ignoreOutliers st) False k of
        (k1, ok, lerp) \<Rightarrow> (k1, ok))"

definition EulerRotation :: "SolverMath \<Rightarrow> Calc \<Rightarrow> Vector3d" where
  "EulerRotation M k = v_div M (v_scale M (m3_eulerAngles210 (mat M) (aff_rotation (aff M) (m_estimatedTransformation k))) (lit 180)) (eigen_pi M)"

definition set_options :: "CalSettings \<Rightarrow> Calc \<Rightarrow> Calc" where
  "set_options st k =
     (let fork = (\<not> useUpstreamMath (st_mode st))
      in k\<lparr>c_options := \<lparr>do_useTukeyBiweight = (st_useTukeyBiweight st \<and> fork), do_useVelocityAwareWeighting = (st_useVelocityAwareWeighting st \<and> fork)\<rparr>,
           c_useBlendFilter := (st_useBlendFilter st \<and> fork)\<rparr>)"

definition tilt_update :: "double \<Rightarrow> double \<Rightarrow> TiltTrack \<Rightarrow> TiltTrack" where
  "tilt_update time tiltDeg t =
     (if \<not> isfinite tiltDeg \<or> tiltDeg < 0 then t
      else let w = dropWhile (\<lambda>x. fst x < time - kSustainedWindowSeconds) (tiltDiagnosticWindow t @ [(time, tiltDeg)]);
               d = EvaluateTilt w time (tiltSustainedAlarmed t); t1 = t\<lparr>tiltDiagnosticWindow := w\<rparr>
           in if sustainedDisagreement d \<noteq> tiltSustainedAlarmed t
              then t1\<lparr>tiltSustainedAlarmed := sustainedDisagreement d, tiltLastAnnotatedMedian := medianDeg d\<rparr> else t1)"

definition primary_solve :: "SolverMath \<Rightarrow> TickEnv \<Rightarrow> double \<Rightarrow> Session \<Rightarrow> Session" where
  "primary_solve M e time s =
     (let st = settings s;
          k = (ss_calc s)\<lparr>c_enableStaticRecalibration := st_enableStaticRecalibration st, c_lockRelativePosition := lockRelativePosition (cc_lock (ss_ctx s))\<rparr>
      in if st_calibrationPaused st then s\<lparr>ss_calc := k\<rparr>
         else let k1 = fst (incremental M st k)
              in upd_ctx (\<lambda>c. c\<lparr>cc_tilt := tilt_update time (m_residualPitchRollDeg k1) (cc_tilt c)\<rparr>) (note_error M (te_stamp e 0) k (s\<lparr>ss_calc := k1\<rparr>)))"

definition extra_sample :: "SolverMath \<Rightarrow> double \<Rightarrow> DriverPose_t \<Rightarrow> DriverPose_t \<Rightarrow> Sample" where
  "extra_sample M now r t = \<lparr>s_ref = ConvertPose M r, s_target = ConvertPose M t, s_valid = True, s_timestamp = now,
     s_refSpeed = speedFromVel (vecVelocity r), s_targetSpeed = speedFromVel (vecVelocity t), s_pairedMotionValid = True\<rparr>"

definition extra_lock :: "SolverMath \<Rightarrow> Sample \<Rightarrow> AdditionalCalibration \<Rightarrow> AdditionalCalibration" where
  "extra_lock M x a =
     (let h = last_of 30 (ax_autoLockHistory a @ [rel_pose M (s_ref x) (s_target x)]);
          locked = (if 30 \<le> length h then rigid_history M h else ax_autoLockEffectivelyLocked a)
      in a\<lparr>ax_autoLockHistory := h, ax_autoLockEffectivelyLocked := locked,
           ax_lockRelativePosition := (if ax_lockMode a = 0 then False else if ax_lockMode a = 1 then True else locked)\<rparr>)"

definition extra_publish :: "SolverMath \<Rightarrow> Calc \<times> bool \<Rightarrow> AdditionalCalibration \<Rightarrow> AdditionalCalibration" where
  "extra_publish M r a =
     (case r of (k, ok) \<Rightarrow>
        let a1 = a\<lparr>ax_calc := k\<rparr>
        in if ok \<and> m_isValid k
           then a1\<lparr>ax_calibratedRotation := EulerRotation M k, ax_calibratedTranslation := v_scale M (aff_translation (m_estimatedTransformation k)) (lit 100),
                   ax_refToTargetPose := m_refToTargetPose k, ax_relativePosCalibrated := m_relativePosCalibrated k, ax_valid := True\<rparr>
           else a1)"

definition extra_ready :: "CalibrationContext \<Rightarrow> AdditionalCalibration \<Rightarrow> bool" where
  "extra_ready c a \<longleftrightarrow> ax_enabled a \<and> device_index (ax_referenceID a) \<and> device_index (ax_targetID a)
     \<and> tracking_ok (device_pose c (ax_referenceID a)) \<and> tracking_ok (device_pose c (ax_targetID a))"

definition extra_tick :: "SolverMath \<Rightarrow> TickEnv \<Rightarrow> nat \<Rightarrow> AdditionalCalibration \<Rightarrow> Session \<Rightarrow> Session \<times> AdditionalCalibration" where
  "extra_tick M e i a s =
     (let c = ss_ctx s; st = settings s in
      if \<not> extra_ready c a then (s, a)
      else let x = extra_sample M (te_extraNow e i) (device_pose c (ax_referenceID a)) (device_pose c (ax_targetID a));
               (s1, k) = trim_samples s (PushSample x (ax_calc a));
               a1 = extra_lock M x a;
               k1 = k\<lparr>c_lockRelativePosition := ax_lockRelativePosition a1, c_enableStaticRecalibration := st_enableStaticRecalibration st\<rparr>
           in if st_calibrationPaused st then (s1, a1\<lparr>ax_calc := k1\<rparr>)
              else case SampleCount s1 of (s2, n) \<Rightarrow>
                if length (m_samples k1) < n then (s2, a1\<lparr>ax_calc := k1\<rparr>)
                else (note_error M (te_stamp e (Suc i)) k1 s2, extra_publish M (incremental M st k1) a1))"

fun extra_ticks :: "SolverMath \<Rightarrow> TickEnv \<Rightarrow> nat \<Rightarrow> AdditionalCalibration list \<Rightarrow> Session \<Rightarrow> Session \<times> AdditionalCalibration list" where
  "extra_ticks M e i [] s = (s, [])"
| "extra_ticks M e i (a # as) s =
     (case extra_tick M e i a s of (s1, a1) \<Rightarrow> case extra_ticks M e (Suc i) as s1 of (s2, as2) \<Rightarrow> (s2, a1 # as2))"

definition solve_block :: "SolverMath \<Rightarrow> TickEnv \<Rightarrow> double \<Rightarrow> Session \<Rightarrow> Session" where
  "solve_block M e time s =
     (let s1 = upd_calc (set_options (settings s)) s in
      if state_of s1 = CalContinuous
      then (case extra_ticks M e 0 (cx_additionalCalibrations (ss_ctx s1)) (primary_solve M e time s1) of (s2, as) \<Rightarrow>
              upd_ctx (\<lambda>c. c\<lparr>cx_additionalCalibrations := as\<rparr>) s2)
      else upd_calc (\<lambda>k. fst (ComputeOneshot M (st_mode (settings s1)) (st_ignoreOutliers (settings s1)) (k\<lparr>c_enableStaticRecalibration := False\<rparr>))) s1)"

section \<open>Publishing\<close>

definition rot_angle :: "SolverMath \<Rightarrow> TickEnv \<Rightarrow> Matrix3d \<Rightarrow> double" where
  "rot_angle M e R = m_acos M (std_clamp ((te_trace e R - 1) * lit 0.5) (- 1) 1)"

definition solve_usable :: "SolverMath \<Rightarrow> TickEnv \<Rightarrow> AffineCompact3d \<Rightarrow> bool" where
  "solve_usable M e x \<longleftrightarrow> v_allFinite (aff_translation x) \<and> lit 0.001 < rot_angle M e (aff_rotation (aff M) x)"

definition adopt_solution :: "SolverMath \<Rightarrow> Calc \<Rightarrow> CalibrationContext \<Rightarrow> CalibrationContext" where
  "adopt_solution M k c = c\<lparr>cx_calibratedRotation := EulerRotation M k,
     cx_calibratedTranslation := v_scale M (aff_translation (m_estimatedTransformation k)) (lit 100),
     cc_refToTargetPose := m_refToTargetPose k, cc_relativePosCalibrated := m_relativePosCalibrated k, cx_validProfile := True\<rparr>"

definition publish_block :: "SolverMath \<Rightarrow> TickEnv \<Rightarrow> Session \<Rightarrow> block" where
  "publish_block M e s =
     (if m_isValid (ss_calc s) \<and> solve_usable M e (m_estimatedTransformation (ss_calc s))
      then tick_then (run_scan M e (SaveProfile (upd_ctx (adopt_solution M (ss_calc s)) s)))
             (\<lambda>s. (upd_ctx (\<lambda>c. c\<lparr>cc_hasAppliedCalibrationResult := True\<rparr>) s, Go))
      else (s, Go))"

definition close_block :: "Session \<Rightarrow> Session" where
  "close_block s =
     (if state_of s \<noteq> CalContinuous then upd_calc calc_Clear (set_state CalNone s)
      else case SampleCount s of (s1, n) \<Rightarrow> upd_calc (\<lambda>k. (ShiftSample ^^ (n div 10)) k) s1)"

section \<open>The tick\<close>

definition prelude_blocks :: "SolverMath \<Rightarrow> TickEnv \<Rightarrow> double \<Rightarrow> Session \<Rightarrow> block" where
  "prelude_blocks M e time s =
     tick_then (tick_then (open_block time s)
       (\<lambda>s. ingest_block e time (latency_block M time (geometry_block (reassign_block e time (drift_ticks M (te_vr e) time s)))))) stall_block"

definition state_blocks :: "SolverMath \<Rightarrow> TickEnv \<Rightarrow> double \<Rightarrow> Session \<Rightarrow> block" where
  "state_blocks M e time s =
     tick_then (tick_then (tick_then (tick_then (scan_block M e time s) (standby_block e)) (idle_block M e time)) (begin_block M e)) (gate_block e time)"

definition sample_blocks :: "SolverMath \<Rightarrow> TickEnv \<Rightarrow> Session \<Rightarrow> block" where
  "sample_blocks M e s = tick_then (tick_then (tick_then (collect_block M e s) count_block) (phase_block M)) (trigger_block e)"

definition CalibrationTick :: "SolverMath \<Rightarrow> TickEnv \<Rightarrow> double \<Rightarrow> Session \<Rightarrow> block" where
  "CalibrationTick M e time s =
     tick_then (tick_then (tick_then (prelude_blocks M e time s) (state_blocks M e time)) (sample_blocks M e))
       (\<lambda>s. tick_then (publish_block M e (solve_block M e time s)) (\<lambda>s. (close_block s, Stop)))"

end
