(* ===== verification/CalibrationRuns.thy ===== *)
theory CalibrationRuns
  imports CalibrationTick
begin

text \<open>
  What holds along every run of the calibration overlay: a session changes by ticks and by what the user does
  (\<open>UserInterface.cpp\<close>, \<open>UserInterfaceTabsBasic.cpp\<close>), in any order. Dialogs that change settings, devices or the profile
  itself are one step, which writes any value into the context except the state and the detectors' histories. The invariant of the reachable sessions is proved block by block over the
  contract \<open>ends\<close>, which says what a block guarantees when it returns and when it goes on.
\<close>

section \<open>Sessions\<close>

inductive session_step :: "SolverMath \<Rightarrow> Session \<Rightarrow> Session \<Rightarrow> bool" for M where
  Step_tick: "session_step M s (fst (CalibrationTick M e time s))"
| Step_start: "session_step M s (StartCalibration env s)"
| Step_continuous: "session_step M s (StartContinuousCalibration env s)"
| Step_end: "session_step M s (EndContinuousCalibration s)"
| Step_undo: "session_step M s (fst (UndoLastAutoRecovery s))"
| Step_dismiss: "session_step M s (DismissAutoRecoveryBanner s)"
| Step_edit: "state_of s = CalNone \<Longrightarrow> session_step M s (set_state CalEditing s)"
| Step_edited: "state_of s = CalEditing \<Longrightarrow> session_step M s (set_state CalNone (SaveProfile s))"
| Step_clear: "session_step M s (SaveProfile (upd_ctx (Context_Clear r t) s))"
| Step_write: "cx_state c = state_of s \<Longrightarrow> cc_lock c = cc_lock (ss_ctx s) \<Longrightarrow> cc_latency c = cc_latency (ss_ctx s) \<Longrightarrow> cc_pair c = cc_pair (ss_ctx s)
    \<Longrightarrow> session_step M s (s\<lparr>ss_ctx := c\<rparr>)"
| Step_save: "session_step M s (SaveProfile s)"

inductive session_reach :: "SolverMath \<Rightarrow> Session \<Rightarrow> Session \<Rightarrow> bool" for M s0 where
  Reach_first: "session_reach M s0 s0"
| Reach_step: "session_reach M s0 s \<Longrightarrow> session_step M s s' \<Longrightarrow> session_reach M s0 s'"

section \<open>The invariant\<close>

text \<open>Enough rotation was seen in the first phase.\<close>

definition rotation_rich :: "SolverMath \<Rightarrow> Sample list \<Rightarrow> bool" where
  "rotation_rich M xs \<longleftrightarrow> 30 \<le> length xs \<and> (\<exists>k. m_samples k = xs \<and> \<not> RotationDiversity M k < lit 0.7)"

definition calc_inv :: "SolverMath \<Rightarrow> CalibrationState \<Rightarrow> Calc \<Rightarrow> bool" where
  "calc_inv M st k \<longleftrightarrow> (st = CalBegin \<or> st = CalRotation \<longrightarrow> \<not> m_isValid k \<and> m_rotationFrozen k = [])
     \<and> (st = CalTranslation \<longrightarrow> rotation_rich M (m_rotationFrozen k))"

definition lock_inv :: "LockTrack \<Rightarrow> bool" where
  "lock_inv lk \<longleftrightarrow> length (autoLockHistory lk) \<le> 30 \<and> (autoLockEffectivelyLocked lk \<longrightarrow> length (autoLockHistory lk) = 30)"

definition latency_inv :: "LatencyTrack \<Rightarrow> bool" where
  "latency_inv l \<longleftrightarrow> length (refSpeedHistory l) \<le> 100 \<and> length (targetSpeedHistory l) \<le> 100 \<and> length (speedSampleTimes l) \<le> 100"

definition pair_inv :: "PairTrack \<Rightarrow> bool" where
  "pair_inv p \<longleftrightarrow> 0 \<le> pairedMotionMismatchCount p \<and> pairedMotionMismatchCount p \<le> 30"

text \<open>An error in the series is that of a calibration which the validation accepted.\<close>

definition accepted_error :: "SolverMath \<Rightarrow> double \<Rightarrow> bool" where
  "accepted_error M x \<longleftrightarrow> (\<exists>k. x = rms_of M k (m_estimatedTransformation k) * lit 1000 \<and> \<not> rms_gate M k < rms_of M k (m_estimatedTransformation k))"

definition base_inv :: "SolverMath \<Rightarrow> Session \<Rightarrow> bool" where
  "base_inv M s \<longleftrightarrow> calc_ok (ss_calc s) \<and> lock_inv (cc_lock (ss_ctx s)) \<and> latency_inv (cc_latency (ss_ctx s))
     \<and> pair_inv (cc_pair (ss_ctx s)) \<and> list_all (accepted_error M \<circ> snd) (mx_error_currentCal (ss_metrics s))"

definition session_inv :: "SolverMath \<Rightarrow> Session \<Rightarrow> bool" where
  "session_inv M s \<longleftrightarrow> base_inv M s \<and> calc_inv M (state_of s) (ss_calc s)"

lemmas inv_defs = session_inv_def base_inv_def calc_inv_def lock_inv_def latency_inv_def pair_inv_def

section \<open>Contracts of blocks\<close>

definition ends :: "(Session \<Rightarrow> bool) \<Rightarrow> (Session \<Rightarrow> bool) \<Rightarrow> block \<Rightarrow> bool" where
  "ends P Q r \<longleftrightarrow> P (fst r) \<and> (snd r = Go \<longrightarrow> Q (fst r))"

lemma ends_then:
  assumes "ends P Q r" "\<And>s. Q s \<Longrightarrow> ends P R (f s)"
  shows "ends P R (tick_then r f)"
  using assms by (cases r) (auto simp: ends_def tick_then_def)

lemma ends_weaken: "ends P Q r \<Longrightarrow> (\<And>s. Q s \<Longrightarrow> R s) \<Longrightarrow> ends P R r"
  by (simp add: ends_def)

lemma ends_pair [simp]: "ends P Q (s, fl) \<longleftrightarrow> P s \<and> (fl = Go \<longrightarrow> Q s)"
  by (simp add: ends_def)

abbreviation in_states :: "SolverMath \<Rightarrow> CalibrationState set \<Rightarrow> Session \<Rightarrow> bool" where
  "in_states M S s \<equiv> session_inv M s \<and> state_of s \<in> S"

section \<open>Operations keep the invariant\<close>

lemma calc_ok_Clear [simp]: "calc_ok k \<Longrightarrow> calc_ok (calc_Clear k)"
  using calc_step_ok [of k _ _ CClear] by simp

lemma calc_ok_Shift [simp]: "calc_ok k \<Longrightarrow> calc_ok (ShiftSample k)"
  using calc_step_ok [of k _ _ CShift] by simp

lemma calc_ok_Freeze [simp]: "calc_ok k \<Longrightarrow> calc_ok (FreezeRotationPhaseSamples k)"
  using calc_step_ok [of k _ _ CFreeze] by simp

lemma calc_ok_fields [simp]:
  "calc_ok (k\<lparr>m_refToTargetPose := a\<rparr>) = calc_ok k" "calc_ok (k\<lparr>m_relativePosCalibrated := b\<rparr>) = calc_ok k"
  "calc_ok (k\<lparr>c_lockRelativePosition := b\<rparr>) = calc_ok k" "calc_ok (k\<lparr>c_enableStaticRecalibration := b\<rparr>) = calc_ok k"
  "calc_ok (k\<lparr>c_options := op\<rparr>) = calc_ok k" "calc_ok (k\<lparr>c_useBlendFilter := b\<rparr>) = calc_ok k"
  by (simp_all add: calc_ok_def)

lemma AssignTargets_keeps:
  assumes "AssignTargets env s = (s', ok)"
  shows "ss_calc s' = ss_calc s" "state_of s' = state_of s" "cc_lock (ss_ctx s') = cc_lock (ss_ctx s)" "cc_latency (ss_ctx s') = cc_latency (ss_ctx s)"
    "cc_pair (ss_ctx s') = cc_pair (ss_ctx s)" "ss_metrics s' = ss_metrics s" "ss_drift s' = ss_drift s" "ss_saves s' = ss_saves s"
    "cc_settings (ss_ctx s') = cc_settings (ss_ctx s)" "cc_devicePoses (ss_ctx s') = cc_devicePoses (ss_ctx s)"
  using assms by (auto simp: AssignTargets_def Let_def)

lemma AssignTargets_inv: "session_inv M s \<Longrightarrow> session_inv M (fst (AssignTargets env s))"
  by (simp add: session_inv_def base_inv_def AssignTargets_def Let_def)

lemma Clear_fields [simp]: "m_isValid (calc_Clear k) = False" "m_rotationFrozen (calc_Clear k) = []" "m_samples (calc_Clear k) = []"
  by (simp_all add: calc_Clear_def)

lemma StartCalibration_inv: "base_inv M s \<Longrightarrow> session_inv M (StartCalibration env s)"
  by (simp add: inv_defs StartCalibration_def AssignTargets_def Let_def)

lemma StartContinuous_inv: "base_inv M s \<Longrightarrow> session_inv M (StartContinuousCalibration env s)"
  by (simp add: inv_defs StartContinuousCalibration_def StartCalibration_def AssignTargets_def Let_def setRelativeTransformation_def)

lemma StartContinuous_state [simp]: "state_of (StartContinuousCalibration env s) = CalContinuous"
  by (simp add: StartContinuousCalibration_def Let_def)

lemma Recover_inv: "base_inv M s \<Longrightarrow> session_inv M (RecoverFromWedgedCalibration env s)"
  unfolding RecoverFromWedgedCalibration_def
  by (rule StartContinuous_inv) (simp add: base_inv_def)

text \<open>Operations that touch neither the calibration nor what the invariant reads.\<close>

definition inv_view :: "Session \<Rightarrow> (CalibrationState \<times> Calc) \<times> (LockTrack \<times> LatencyTrack \<times> PairTrack) \<times> (double \<times> double) list" where
  "inv_view s = ((state_of s, ss_calc s), (cc_lock (ss_ctx s), cc_latency (ss_ctx s), cc_pair (ss_ctx s)), mx_error_currentCal (ss_metrics s))"

lemma inv_view_cong: "inv_view s' = inv_view s \<Longrightarrow> session_inv M s' = session_inv M s"
  by (simp add: inv_view_def session_inv_def base_inv_def)

lemma view_state: "inv_view s' = inv_view s \<Longrightarrow> state_of s' = state_of s"
  by (simp add: inv_view_def)

lemma run_scan_view: "inv_view (fst (run_scan M e s)) = inv_view s"
  by (simp add: run_scan_def inv_view_def split: prod.splits)

lemma timed_scan_view: "inv_view (fst (timed_scan M e time iv s)) = inv_view s"
proof -
  have "inv_view (fst (tick_then r (\<lambda>s. (upd_times f s, Go)))) = inv_view (fst r)" for r f
    by (cases r) (simp add: tick_then_def inv_view_def)
  then show ?thesis by (simp add: timed_scan_def run_scan_view)
qed

lemma check_system_view: "inv_view (check_system M now th obs sys s) = inv_view s"
proof -
  have "inv_view (ApplyUniverseShiftToCalibrations M D sys s) = inv_view s" for D
    by (simp add: ApplyUniverseShiftToCalibrations_def shift_primary_def inv_view_def Let_def split: prod.splits)
  then show ?thesis by (simp add: check_system_def Let_def inv_view_def)
qed

lemma TickBaseStationDrift_view: "inv_view (TickBaseStationDrift M env now s) = inv_view s"
proof -
  have "inv_view (fold (check_system M now th obs) xs s) = inv_view s" for th obs xs
    by (induction xs arbitrary: s) (simp_all add: check_system_view)
  then show ?thesis by (simp add: TickBaseStationDrift_def Let_def inv_view_def)
qed

lemma rest_view: "inv_view (TickRestLockedYaw M now s) = inv_view s"
  by (simp add: TickRestLockedYaw_def inv_view_def Let_def split: prod.splits)

lemma predictive_view: "inv_view (TickPredictiveRecovery M now s) = inv_view s"
  by (simp add: TickPredictiveRecovery_def inv_view_def Let_def)

lemma reanchor_view: "inv_view (fst (TickReanchorChiSquare M now s)) = inv_view s"
  by (simp add: TickReanchorChiSquare_def inv_view_def Let_def)

lemma session_base: "session_inv M s \<Longrightarrow> base_inv M s"
  by (simp add: session_inv_def)

lemma inv_untouched [simp]:
  "session_inv M (s\<lparr>ss_drift := d\<rparr>) = session_inv M s" "session_inv M (s\<lparr>ss_gate := g\<rparr>) = session_inv M s"
  "session_inv M (s\<lparr>ss_speed := k\<rparr>) = session_inv M s" "session_inv M (s\<lparr>ss_shift := w\<rparr>) = session_inv M s"
  "session_inv M (s\<lparr>ss_pub := p\<rparr>) = session_inv M s" "session_inv M (s\<lparr>ss_saves := vs\<rparr>) = session_inv M s"
  "session_inv M (s\<lparr>ss_ctx := (ss_ctx s)\<lparr>cc_times := t\<rparr>\<rparr>) = session_inv M s"
  "session_inv M (s\<lparr>ss_gate := g, ss_ctx := (ss_ctx s)\<lparr>cc_times := t\<rparr>\<rparr>) = session_inv M s"
  by (simp_all add: session_inv_def base_inv_def)

lemma auto_recover_inv:
  assumes "session_inv M s"
  shows "session_inv M (auto_recover M env now hmd s)"
proof -
  have "session_inv M (RecoverFromWedgedCalibration env (s\<lparr>ss_drift := d\<rparr>))" for d
    by (rule Recover_inv [OF session_base]) (simp add: assms)
  then show ?thesis by (simp add: auto_recover_def Let_def)
qed

lemma reloc_check_inv: "session_inv M s \<Longrightarrow> session_inv M (reloc_check M env now s)"
  by (simp add: reloc_check_def reloc_remember_def Let_def auto_recover_inv)

lemma TickHmdRelocalization_inv: "session_inv M s \<Longrightarrow> session_inv M (TickHmdRelocalizationDetector M env now s)"
  by (simp add: TickHmdRelocalizationDetector_def reloc_check_inv split: option.splits)

lemma drift_ticks_inv:
  assumes "session_inv M s"
  shows "session_inv M (drift_ticks M env now s)"
proof -
  let ?s = "TickHmdRelocalizationDetector M env now s"
  have "session_inv M (fst (TickReanchorChiSquare M now ?s))"
    using TickHmdRelocalization_inv [OF assms] by (simp add: inv_view_cong [OF reanchor_view])
  then show ?thesis
    by (auto simp: drift_ticks_def inv_view_cong [OF predictive_view] inv_view_cong [OF rest_view] split: prod.splits)
qed

section \<open>Blocks keep the invariant\<close>

lemma open_block_inv: "session_inv M s \<Longrightarrow> ends (session_inv M) (session_inv M) (open_block time s)"
  by (auto simp: open_block_def ResolveLockMode_def inv_defs Let_def)

lemma reassign_block_inv: "session_inv M s \<Longrightarrow> session_inv M (reassign_block e time s)"
  by (simp add: reassign_block_def AssignTargets_inv)

lemma geometry_block_inv: "session_inv M s \<Longrightarrow> session_inv M (geometry_block s)"
  by (auto simp: geometry_block_def inv_defs Let_def split: prod.splits)

lemma latency_block_inv: "session_inv M s \<Longrightarrow> session_inv M (latency_block M time s)"
  by (auto simp: latency_block_def inv_defs Let_def split: option.splits)

lemma ingest_pose_view:
  "cx_state (ingest_pose a c) = cx_state c" "cc_lock (ingest_pose a c) = cc_lock c" "cc_latency (ingest_pose a c) = cc_latency c"
  "cc_pair (ingest_pose a c) = cc_pair c"
  by (simp_all add: ingest_pose_def Let_def)

lemma ingest_fold_view:
  "cx_state (fold ingest_pose as c) = cx_state c" "cc_lock (fold ingest_pose as c) = cc_lock c" "cc_latency (fold ingest_pose as c) = cc_latency c"
  "cc_pair (fold ingest_pose as c) = cc_pair c"
  by (induction as arbitrary: c) (simp_all add: ingest_pose_view)

lemma ingest_block_inv: "session_inv M s \<Longrightarrow> ends (session_inv M) (session_inv M) (ingest_block e time s)"
  by (auto simp: ingest_block_def inv_defs ingest_fold_view Let_def split: option.splits)

lemma stall_block_inv: "session_inv M s \<Longrightarrow> ends (session_inv M) (session_inv M) (stall_block s)"
  by (auto simp: stall_block_def session_inv_def base_inv_def Let_def split: prod.splits)

lemma prelude_blocks_inv:
  assumes "session_inv M s"
  shows "ends (session_inv M) (session_inv M) (prelude_blocks M e time s)"
  unfolding prelude_blocks_def
proof (rule ends_then [OF ends_then [OF open_block_inv [OF assms]] stall_block_inv])
  fix s assume "session_inv M s"
  then show "ends (session_inv M) (session_inv M)
      (ingest_block e time (latency_block M time (geometry_block (reassign_block e time (drift_ticks M (te_vr e) time s)))))"
    by (intro ingest_block_inv latency_block_inv geometry_block_inv reassign_block_inv drift_ticks_inv)
qed

lemma scan_view_ends:
  assumes "inv_view (fst r) = inv_view s" "in_states M S s"
  shows "ends (session_inv M) (in_states M S) r"
  using inv_view_cong [OF assms(1)] view_state [OF assms(1)] assms(2) by (simp add: ends_def)

lemma scan_block_inv:
  assumes "session_inv M s"
  shows "ends (session_inv M) (session_inv M) (scan_block M e time s)"
  using scan_view_ends [OF timed_scan_view, of M s UNIV] assms by (simp add: scan_block_def ends_def)

lemma standby_block_inv:
  assumes "session_inv M s"
  shows "ends (session_inv M) (in_states M (- {CalContinuousStandby})) (standby_block e s)"
proof (cases "AssignTargets (te_vr e) s")
  case (Pair s1 found)
  have "session_inv M s1" using AssignTargets_inv [OF assms, of "te_vr e"] Pair by simp
  then show ?thesis using assms Pair
    by (auto simp: standby_block_def StartContinuous_inv session_base)
qed

lemma idle_block_inv:
  assumes "in_states M (- {CalContinuousStandby}) s"
  shows "ends (session_inv M) (in_states M {CalBegin, CalRotation, CalTranslation, CalContinuous}) (idle_block M e time s)"
proof -
  have times: "session_inv M (upd_times f s') = session_inv M s'" for f s' by (simp add: session_inv_def base_inv_def)
  have scan: "ends (session_inv M) (session_inv M) (timed_scan M e time iv s')" if "session_inv M s'" for iv s'
    using scan_view_ends [OF timed_scan_view, of M s' UNIV] that by (simp add: ends_def)
  have ed: "ends (session_inv M) Q (tick_then (timed_scan M e time iv s') (\<lambda>s. (s, Stop)))" if "session_inv M s'" for Q iv s'
    by (rule ends_then [OF scan [OF that]]) simp
  show ?thesis using assms ed [of "upd_times (\<lambda>t. t\<lparr>wantedUpdateInterval := lit 0.1\<rparr>) s"]
    by (cases "state_of s") (simp_all add: idle_block_def times inv_view_cong [OF TickBaseStationDrift_view])
qed

lemma abort_block_inv:
  assumes "in_states M S s"
  shows "ends (session_inv M) (in_states M S) (abort_block ok s)"
  using assms by (auto simp: abort_block_def inv_defs)

lemma begin_block_inv:
  assumes "in_states M {CalBegin, CalRotation, CalTranslation, CalContinuous} s"
  shows "ends (session_inv M) (in_states M {CalRotation, CalTranslation, CalContinuous}) (begin_block M e s)"
proof (cases "state_of s = CalBegin")
  case False
  then show ?thesis using assms abort_block_inv [where S = "{CalRotation, CalTranslation, CalContinuous}"] by (auto simp: begin_block_def)
next
  case True
  have "ends (session_inv M) (in_states M {CalBegin}) (run_scan M e s)"
    by (rule scan_view_ends [OF run_scan_view]) (use assms True in simp)
  then show ?thesis using True unfolding begin_block_def Let_def
    by (simp, elim ends_then) (auto simp: abort_block_def inv_defs)
qed

lemma gate_block_inv:
  assumes "in_states M {CalRotation, CalTranslation, CalContinuous} s"
  shows "ends (session_inv M) (in_states M {CalRotation, CalTranslation, CalContinuous}) (gate_block e time s)"
proof -
  have "session_inv M (StartContinuousCalibration env (s\<lparr>ss_gate := g\<rparr>))" for env g
    by (rule StartContinuous_inv [OF session_base]) (simp add: assms)
  then show ?thesis using assms by (auto simp: gate_block_def split: prod.splits gate_result.splits)
qed

lemma state_blocks_inv:
  assumes "session_inv M s"
  shows "ends (session_inv M) (in_states M {CalRotation, CalTranslation, CalContinuous}) (state_blocks M e time s)"
  unfolding state_blocks_def
  by (rule ends_then [OF ends_then [OF ends_then [OF ends_then [OF scan_block_inv [OF assms] standby_block_inv] idle_block_inv] begin_block_inv] gate_block_inv])

section \<open>Samples and solves\<close>

lemma SampleCount_cases:
  assumes "SampleCount s = (s', n)"
  shows "\<exists>k. s' = s\<lparr>ss_speed := k\<rparr>" "30 \<le> n"
proof -
  obtain k sp where r: "ResolvedCalibrationSpeed s (ss_speed s) = (k, sp)" by (rule prod.exhaust)
  then show "\<exists>k. s' = s\<lparr>ss_speed := k\<rparr>" using assms by (auto simp: SampleCount_def)
  have "30 \<le> sample_target sp" by (cases sp) simp_all
  then show "30 \<le> n" using assms r by (simp add: SampleCount_def)
qed

lemma Shift_fields [simp]: "m_isValid (ShiftSample k) = m_isValid k" "m_rotationFrozen (ShiftSample k) = m_rotationFrozen k"
  "m_samples (ShiftSample k) = tl (m_samples k)" "m_estimatedTransformation (ShiftSample k) = m_estimatedTransformation k"
  by (simp_all add: ShiftSample_def)

lemma trim_samples_cases:
  assumes "trim_samples s k = (s', k')"
  shows "(\<exists>c. s' = s\<lparr>ss_speed := c\<rparr>) \<and> (calc_ok k \<longrightarrow> calc_ok k') \<and> m_isValid k' = m_isValid k \<and> m_rotationFrozen k' = m_rotationFrozen k
    \<and> (30 \<le> length (m_samples k) \<longrightarrow> 30 \<le> length (m_samples k'))"
  using assms
proof (induction s k rule: trim_samples.induct)
  case (1 s k)
  obtain s1 n where c: "SampleCount s = (s1, n)" by (rule prod.exhaust)
  note sc = SampleCount_cases [OF c]
  show ?case
  proof (cases "n < length (m_samples k)")
    case True
    then have "trim_samples s1 (ShiftSample k) = (s', k')" using "1.prems" by (subst (asm) trim_samples.simps) (simp add: c)
    from "1.IH" [OF c [symmetric] True this] show ?thesis using sc True by auto
  next
    case False
    then have "s' = s1" "k' = k" using "1.prems" by (subst (asm) trim_samples.simps, simp add: c)+
    then show ?thesis using sc by auto
  qed
qed

lemma last_of_length [simp]: "length (last_of n xs) = min n (length xs)"
  by (simp add: last_of_def)

lemma UpdateAutoLock_inv: "lock_inv lk \<Longrightarrow> lock_inv (UpdateAutoLockDetector M r t lk)"
  by (simp add: lock_inv_def UpdateAutoLockDetector_def kAutoLockHistoryMax_def Let_def)

lemma note_speeds_inv: "latency_inv (note_speeds r t now l)"
  by (simp add: latency_inv_def note_speeds_def kLatencyHistoryCapacity_def)

lemma paired_motion_inv: "pair_inv p \<Longrightarrow> pair_inv (fst (paired_motion M r t p))"
  by (auto simp: pair_inv_def paired_motion_def Let_def)

lemma PushSample_fields [simp]: "m_isValid (PushSample x k) = m_isValid k" "m_rotationFrozen (PushSample x k) = m_rotationFrozen k"
  by (simp_all add: PushSample_def Let_def)

lemma note_jitter_fields:
  "state_of (note_jitter M s) = state_of s" "session_inv M' (note_jitter M s) = session_inv M' s" "ss_saves (note_jitter M s) = ss_saves s"
  "ss_drift (note_jitter M s) = ss_drift s" "ss_calc (note_jitter M s) = ss_calc s"
  by (simp_all add: note_jitter_def session_inv_def base_inv_def)

lemma collect_block_inv:
  assumes "in_states M {CalRotation, CalTranslation, CalContinuous} s"
  shows "ends (session_inv M) (in_states M {CalRotation, CalTranslation, CalContinuous}) (collect_block M e s)"
proof (cases "tracking_ok (device_pose (ss_ctx s) (cc_referenceID (ss_ctx s))) \<and> tracking_ok (device_pose (ss_ctx s) (cx_targetID (ss_ctx s)))")
  case False
  then show ?thesis using assms by (auto simp: collect_block_def CollectSample_def Let_def inv_defs)
next
  case True
  let ?x = "collected_sample M (te_sample e) (ss_ctx s)"
  have "session_inv M (s\<lparr>ss_ctx := note_sample M (te_sample e) ?x (ss_ctx s), ss_calc := PushSample ?x (ss_calc s)\<rparr>)"
    using assms UpdateAutoLock_inv note_speeds_inv paired_motion_inv PushSample_ok
    by (simp add: session_inv_def base_inv_def calc_inv_def note_sample_def)
  then show ?thesis using True assms
    by (simp add: collect_block_def CollectSample_def Let_def note_jitter_fields note_sample_def)
qed

lemma count_block_inv:
  assumes "in_states M S s"
  shows "ends (session_inv M) (\<lambda>s. in_states M S s \<and> 30 \<le> length (m_samples (ss_calc s))) (count_block s)"
proof -
  obtain s0 n0 where c0: "SampleCount s = (s0, n0)" by (rule prod.exhaust)
  obtain s1 n where c: "SampleCount s0 = (s1, n)" by (rule prod.exhaust)
  obtain s2 k where t: "trim_samples s1 (ss_calc s1) = (s2, k)" by (rule prod.exhaust)
  obtain p where s1: "s1 = s\<lparr>ss_speed := p\<rparr>" using SampleCount_cases(1) [OF c0] SampleCount_cases(1) [OF c] by auto
  note tc = trim_samples_cases [OF t]
  obtain q where s2: "s2 = s\<lparr>ss_speed := q\<rparr>" using tc s1 by auto
  have i1: "session_inv M s1" using assms s1 by simp
  show ?thesis
  proof (cases "length (m_samples (ss_calc s1)) < n")
    case True
    then show ?thesis using i1 by (simp add: count_block_def c0 c)
  next
    case False
    then have "30 \<le> length (m_samples k)" using tc SampleCount_cases(2) [OF c] by linarith
    moreover have "session_inv M (s2\<lparr>ss_calc := k\<rparr>)" using tc assms s1 s2 by (simp add: session_inv_def base_inv_def calc_inv_def)
    ultimately show ?thesis using False assms s2 by (simp add: count_block_def c0 c t)
  qed
qed

lemma phase_block_inv:
  assumes "in_states M {CalRotation, CalTranslation, CalContinuous} s" "30 \<le> length (m_samples (ss_calc s))"
  shows "ends (session_inv M) (\<lambda>s. in_states M {CalTranslation, CalContinuous} s \<and> 30 \<le> length (m_samples (ss_calc s))
     \<and> (state_of s = CalTranslation \<longrightarrow> \<not> TranslationDiversity (ss_calc s) < lit 0.55)) (phase_block M s)"
proof -
  have shift: "session_inv M (upd_calc ShiftSample s)" using assms(1) by (simp add: session_inv_def base_inv_def calc_inv_def)
  have "session_inv M (set_state CalTranslation (upd_calc FreezeRotationPhaseSamples s))" if "\<not> RotationDiversity M (ss_calc s) < lit 0.7"
    using assms that by (auto simp: session_inv_def base_inv_def calc_inv_def rotation_rich_def FreezeRotationPhaseSamples_def calc_ok_def)
  then show ?thesis using assms shift by (auto simp: phase_block_def)
qed

lemma trigger_block_inv:
  assumes "in_states M S s \<and> R (state_of s) (ss_calc s)"
  shows "ends (session_inv M) (\<lambda>s. in_states M S s \<and> R (state_of s) (ss_calc s)) (trigger_block e s)"
  using assms by (auto simp: trigger_block_def Let_def session_inv_def base_inv_def)

text \<open>What is known when the solve begins.\<close>

definition solvable :: "SolverMath \<Rightarrow> CalibrationState \<Rightarrow> Calc \<Rightarrow> bool" where
  "solvable M st k \<longleftrightarrow> 30 \<le> length (m_samples k) \<and> (st = CalTranslation \<longrightarrow> \<not> TranslationDiversity k < lit 0.55)"

lemma sample_blocks_inv:
  assumes "in_states M {CalRotation, CalTranslation, CalContinuous} s"
  shows "ends (session_inv M) (\<lambda>s. in_states M {CalTranslation, CalContinuous} s \<and> solvable M (state_of s) (ss_calc s)) (sample_blocks M e s)"
  unfolding sample_blocks_def
proof (rule ends_then [OF ends_then [OF ends_then [OF collect_block_inv [OF assms] count_block_inv]] trigger_block_inv])
  fix s assume "in_states M {CalRotation, CalTranslation, CalContinuous} s \<and> 30 \<le> length (m_samples (ss_calc s))"
  then show "ends (session_inv M) (\<lambda>s. in_states M {CalTranslation, CalContinuous} s \<and> solvable M (state_of s) (ss_calc s)) (phase_block M s)"
    using phase_block_inv by (auto simp: solvable_def)
qed simp_all

lemma pushed_error_accepted:
  assumes "pushed_error M k = Some x"
  shows "accepted_error M x"
proof -
  obtain k1 locked where l: "lock_stage M k = (k1, locked)" by (rule prod.exhaust)
  obtain k2 ok err off where v: "ValidateCalibration M (m_estimatedTransformation k1) k1 = (k2, ok, err, off)" by (metis prod_cases4)
  then have "err = rms_of M k1 (m_estimatedTransformation k1)" "ok = (\<not> rms_gate M k1 < rms_of M k1 (m_estimatedTransformation k1))"
    by (auto simp: ValidateCalibration_def Let_def)
  then show ?thesis using assms l v by (auto simp: pushed_error_def accepted_error_def split: if_splits)
qed

lemma ts_trim_all: "list_all P xs \<Longrightarrow> list_all P (ts_trim c xs)"
  by (induction xs) auto

lemma note_error_inv: "session_inv M s \<Longrightarrow> session_inv M (note_error M now k s)"
  by (auto simp: note_error_def session_inv_def base_inv_def ts_push_def intro!: ts_trim_all dest: pushed_error_accepted split: option.splits)

lemma note_error_fields [simp]:
  "ss_ctx (note_error M now k s) = ss_ctx s" "ss_calc (note_error M now k s) = ss_calc s" "ss_saves (note_error M now k s) = ss_saves s"
  "ss_drift (note_error M now k s) = ss_drift s"
  by (simp_all add: note_error_def split: option.splits)

lemma incremental_ok:
  assumes "calc_ok k"
  shows "calc_ok (fst (incremental M st k))"
  using calc_step_ok [OF assms, of M "st_mode st" "CIncremental (fp_cast (st_continuousCalibrationThreshold st)) (fp_cast (st_maxRelativeErrorThreshold st)) (st_ignoreOutliers st)"]
  by (auto simp: incremental_def split: prod.splits)

lemma primary_solve_inv:
  assumes "in_states M {CalContinuous} s"
  shows "in_states M {CalContinuous} (primary_solve M e time s)"
proof -
  let ?k = "(ss_calc s)\<lparr>c_enableStaticRecalibration := st_enableStaticRecalibration (settings s), c_lockRelativePosition := lockRelativePosition (cc_lock (ss_ctx s))\<rparr>"
  have k: "calc_ok ?k" using assms by (simp add: session_inv_def base_inv_def)
  have "session_inv M (s\<lparr>ss_calc := k'\<rparr>)" if "calc_ok k'" for k' using assms that by (simp add: session_inv_def base_inv_def calc_inv_def)
  then have "session_inv M (s\<lparr>ss_calc := ?k\<rparr>)" "session_inv M (note_error M now ?k (s\<lparr>ss_calc := fst (incremental M (settings s) ?k)\<rparr>))" for now
    using k incremental_ok [OF k] note_error_inv by blast+
  then show ?thesis using assms by (simp add: primary_solve_def Let_def session_inv_def base_inv_def)
qed

lemma extra_tick_cases:
  assumes "extra_tick M e i a s = (s', a')"
  shows "ss_ctx s' = ss_ctx s \<and> ss_calc s' = ss_calc s \<and> ss_saves s' = ss_saves s \<and> ss_drift s' = ss_drift s \<and> (session_inv M s \<longrightarrow> session_inv M s')"
proof (cases "extra_ready (ss_ctx s) a")
  case True
  let ?x = "extra_sample M (te_extraNow e i) (device_pose (ss_ctx s) (ax_referenceID a)) (device_pose (ss_ctx s) (ax_targetID a))"
  obtain s1 k where t: "trim_samples s (PushSample ?x (ax_calc a)) = (s1, k)" by (rule prod.exhaust)
  obtain s2 n where c: "SampleCount s1 = (s2, n)" by (rule prod.exhaust)
  obtain p where s1: "s1 = s\<lparr>ss_speed := p\<rparr>" using trim_samples_cases [OF t] by blast
  obtain q where s2: "s2 = s\<lparr>ss_speed := q\<rparr>" using SampleCount_cases(1) [OF c] s1 by auto
  have "s' = s1 \<or> s' = s2 \<or> (\<exists>now k1. s' = note_error M now k1 s2)"
    using assms True by (auto simp: extra_tick_def t c Let_def split: if_splits)
  then show ?thesis using s1 s2 note_error_inv [of M "s\<lparr>ss_speed := q\<rparr>"] by auto
qed (use assms in \<open>auto simp: extra_tick_def\<close>)

lemma extra_ticks_cases:
  assumes "extra_ticks M e i as s = (s', as')"
  shows "ss_ctx s' = ss_ctx s \<and> ss_calc s' = ss_calc s \<and> ss_saves s' = ss_saves s \<and> ss_drift s' = ss_drift s \<and> (session_inv M s \<longrightarrow> session_inv M s')"
  using assms
proof (induction as arbitrary: i s s' as')
  case (Cons a as)
  obtain s1 a1 where t: "extra_tick M e i a s = (s1, a1)" by (rule prod.exhaust)
  obtain s2 as2 where u: "extra_ticks M e (Suc i) as s1 = (s2, as2)" by (rule prod.exhaust)
  show ?case using Cons.prems extra_tick_cases [OF t] Cons.IH [OF u] by (simp add: t u)
qed simp

lemma Oneshot_ok: "calc_ok k \<Longrightarrow> calc_ok (fst (ComputeOneshot M md ign k))"
  using calc_step_ok [of k M md "COneshot ign"] by simp

lemma Oneshot_frozen: "m_rotationFrozen (fst (ComputeOneshot M md ign k)) = m_rotationFrozen k"
proof -
  obtain k1 ok where o: "oneshot_solve M md ign (k\<lparr>m_samples := m_rotationFrozen k @ m_samples k\<rparr>) = (k1, ok)" by (rule prod.exhaust)
  show ?thesis using oneshot_solve_cases [OF o] by (simp add: ComputeOneshot_def o)
qed

lemma set_options_fields [simp]:
  "m_samples (set_options st k) = m_samples k" "m_rotationFrozen (set_options st k) = m_rotationFrozen k" "m_isValid (set_options st k) = m_isValid k"
  "calc_ok (set_options st k) = calc_ok k"
  by (simp_all add: set_options_def Let_def)

lemma solve_block_inv:
  assumes "in_states M {CalTranslation, CalContinuous} s"
  shows "in_states M {CalTranslation, CalContinuous} (solve_block M e time s)"
proof (cases "state_of s = CalContinuous")
  case True
  let ?s = "upd_calc (set_options (settings s)) s"
  obtain s2 as where x: "extra_ticks M e 0 (cx_additionalCalibrations (ss_ctx ?s)) (primary_solve M e time ?s) = (s2, as)" by (rule prod.exhaust)
  have "in_states M {CalContinuous} (primary_solve M e time ?s)"
    by (rule primary_solve_inv) (use assms True in \<open>simp add: session_inv_def base_inv_def calc_inv_def\<close>)
  then have "in_states M {CalContinuous} s2" using extra_ticks_cases [OF x] by auto
  then show ?thesis using True x by (auto simp: solve_block_def Let_def session_inv_def base_inv_def)
next
  case False
  then show ?thesis using assms Oneshot_ok Oneshot_frozen
    by (simp add: solve_block_def Let_def session_inv_def base_inv_def calc_inv_def)
qed

lemma publish_block_inv:
  assumes "in_states M S s"
  shows "ends (session_inv M) (in_states M S) (publish_block M e s)"
proof -
  let ?s = "SaveProfile (upd_ctx (adopt_solution M (ss_calc s)) s)"
  have a: "in_states M S ?s" using assms by (simp add: SaveProfile_def adopt_solution_def session_inv_def base_inv_def)
  have "ends (session_inv M) (in_states M S) (tick_then (run_scan M e ?s) (\<lambda>s. (upd_ctx (\<lambda>c. c\<lparr>cc_hasAppliedCalibrationResult := True\<rparr>) s, Go)))"
    by (rule ends_then [OF scan_view_ends [OF run_scan_view a]]) (simp add: session_inv_def base_inv_def)
  then show ?thesis using assms by (simp add: publish_block_def)
qed

lemma Shift_power_ok: "calc_ok k \<Longrightarrow> calc_ok ((ShiftSample ^^ n) k)"
  by (induction n) simp_all

lemma close_block_inv:
  assumes "session_inv M s"
  shows "session_inv M (close_block s)"
proof -
  obtain s1 n where c: "SampleCount s = (s1, n)" by (rule prod.exhaust)
  then obtain p where "s1 = s\<lparr>ss_speed := p\<rparr>" using SampleCount_cases(1) by blast
  then show ?thesis using assms c Shift_power_ok by (auto simp: close_block_def session_inv_def base_inv_def calc_inv_def)
qed

lemma CalibrationTick_inv:
  assumes "session_inv M s"
  shows "session_inv M (fst (CalibrationTick M e time s))"
proof -
  have fin: "ends (session_inv M) (\<lambda>_. True) (tick_then (publish_block M e (solve_block M e time s)) (\<lambda>s. (close_block s, Stop)))"
    if "in_states M {CalTranslation, CalContinuous} s \<and> solvable M (state_of s) (ss_calc s)" for s
    by (rule ends_then [OF publish_block_inv [OF solve_block_inv]]) (use that close_block_inv in auto)
  have "ends (session_inv M) (\<lambda>_. True) (CalibrationTick M e time s)" unfolding CalibrationTick_def
    by (rule ends_then [OF ends_then [OF ends_then [OF prelude_blocks_inv [OF assms] state_blocks_inv] sample_blocks_inv] fin])
  then show ?thesis by (simp add: ends_def)
qed

lemma session_step_inv: "session_step M s s' \<Longrightarrow> session_inv M s \<Longrightarrow> session_inv M s'"
proof (induction rule: session_step.induct)
  case (Step_undo s)
  then show ?case by (simp add: UndoLastAutoRecovery_def Let_def session_inv_def base_inv_def)
next
  case (Step_end s)
  then show ?case by (simp add: EndContinuousCalibration_def SaveProfile_def session_inv_def base_inv_def calc_inv_def)
next
  case (Step_clear r t s)
  then show ?case by (simp add: Context_Clear_def SaveProfile_def inv_defs)
qed (auto simp: CalibrationTick_inv StartCalibration_inv StartContinuous_inv session_base DismissAutoRecoveryBanner_def SaveProfile_def,
     auto simp: session_inv_def base_inv_def calc_inv_def)

lemma session_reach_inv: "session_reach M s0 s \<Longrightarrow> session_inv M s0 \<Longrightarrow> session_inv M s"
  by (induction rule: session_reach.induct) (auto intro: session_step_inv)

section \<open>Frames\<close>

text \<open>What only few blocks change: the saved profiles, the cache of the base stations and the relocalisation detector.\<close>

definition frame :: "Session \<Rightarrow> CalProfile list \<times> (string \<rightharpoonup> string \<times> AffineCompact3d) \<times> RelocDetector" where
  "frame s = (ss_saves s, baseStationCache (ss_drift s), g_relocDetector (ss_drift s))"

lemma frame_untouched [simp]:
  "frame (s\<lparr>ss_ctx := c\<rparr>) = frame s" "frame (s\<lparr>ss_calc := k\<rparr>) = frame s" "frame (s\<lparr>ss_gate := g\<rparr>) = frame s" "frame (s\<lparr>ss_speed := p\<rparr>) = frame s"
  "frame (s\<lparr>ss_shift := w\<rparr>) = frame s" "frame (s\<lparr>ss_pub := b\<rparr>) = frame s" "frame (s\<lparr>ss_metrics := m\<rparr>) = frame s"
  by (simp_all add: frame_def)

lemma frame_Assign [simp]: "frame (fst (AssignTargets env s)) = frame s"
  by (simp add: AssignTargets_def Let_def)

lemma frame_Start [simp]: "frame (StartCalibration env s) = frame s"
  by (simp add: StartCalibration_def Let_def)

lemma frame_StartContinuous [simp]: "frame (StartContinuousCalibration env s) = frame s"
  by (simp add: StartContinuousCalibration_def Let_def)

lemma frame_run_scan [simp]: "frame (fst (run_scan M e s)) = frame s"
  by (simp add: run_scan_def split: prod.splits)

lemma frame_then: "frame (fst r) = v \<Longrightarrow> (\<And>s. frame s = v \<Longrightarrow> frame (fst (f s)) = v) \<Longrightarrow> frame (fst (tick_then r f)) = v"
  by (cases r) (simp add: tick_then_def)

lemma frame_timed_scan [simp]: "frame (fst (timed_scan M e time iv s)) = frame s"
  by (auto simp: timed_scan_def intro!: frame_then)

lemma frame_open [simp]: "frame (fst (open_block time s)) = frame s"
  by (simp add: open_block_def ResolveLockMode_def Let_def)

lemma frame_ingest [simp]: "frame (fst (ingest_block e time s)) = frame s"
  by (simp add: ingest_block_def Let_def split: option.splits)

lemma frame_prelude_rest [simp]:
  "frame (reassign_block e time s) = frame s" "frame (geometry_block s) = frame s" "frame (latency_block M time s) = frame s" "frame (fst (stall_block s)) = frame s"
  by (simp_all add: reassign_block_def geometry_block_def latency_block_def stall_block_def Let_def split: prod.splits option.splits)

lemma frame_scan_block [simp]: "frame (fst (scan_block M e time s)) = frame s"
  by (simp add: scan_block_def)

lemma frame_standby [simp]: "frame (fst (standby_block e s)) = frame s"
  using frame_Assign [of "te_vr e" s] by (cases "AssignTargets (te_vr e) s") (simp add: standby_block_def del: frame_Assign)

lemma frame_abort [simp]: "frame (fst (abort_block ok s)) = frame s"
  by (simp add: abort_block_def)

lemma frame_begin [simp]: "frame (fst (begin_block M e s)) = frame s"
  by (auto simp: begin_block_def Let_def intro!: frame_then)

lemma frame_gate [simp]: "frame (fst (gate_block e time s)) = frame s"
  by (simp add: gate_block_def split: prod.splits gate_result.splits)

lemma frame_collect [simp]: "frame (fst (collect_block M e s)) = frame s"
  by (simp add: collect_block_def CollectSample_def note_jitter_def Let_def)

lemma frame_count [simp]: "frame (fst (count_block s)) = frame s"
proof -
  obtain s0 n0 where c0: "SampleCount s = (s0, n0)" by (rule prod.exhaust)
  obtain s1 n where c: "SampleCount s0 = (s1, n)" by (rule prod.exhaust)
  obtain s2 k where t: "trim_samples s1 (ss_calc s1) = (s2, k)" by (rule prod.exhaust)
  show ?thesis using SampleCount_cases(1) [OF c0] SampleCount_cases(1) [OF c] trim_samples_cases [OF t] by (auto simp: count_block_def c0 c t)
qed

lemma frame_phase [simp]: "frame (fst (phase_block M s)) = frame s"
  by (simp add: phase_block_def)

lemma frame_trigger [simp]: "frame (fst (trigger_block e s)) = frame s"
  by (simp add: trigger_block_def Let_def)

lemma frame_note_error [simp]: "frame (note_error M now k s) = frame s"
  by (simp add: note_error_def split: option.splits)

lemma frame_primary [simp]: "frame (primary_solve M e time s) = frame s"
  by (simp add: primary_solve_def Let_def)

lemma frame_solve [simp]: "frame (solve_block M e time s) = frame s"
proof -
  let ?s = "upd_calc (set_options (settings s)) s"
  obtain s2 as where x: "extra_ticks M e 0 (cx_additionalCalibrations (ss_ctx ?s)) (primary_solve M e time ?s) = (s2, as)" by (rule prod.exhaust)
  have "frame s2 = frame (primary_solve M e time ?s)" using extra_ticks_cases [OF x] by (simp add: frame_def)
  then show ?thesis using x by (simp add: solve_block_def Let_def)
qed

lemma frame_close [simp]: "frame (close_block s) = frame s"
proof -
  obtain s1 n where c: "SampleCount s = (s1, n)" by (rule prod.exhaust)
  show ?thesis using SampleCount_cases(1) [OF c] by (auto simp: close_block_def c)
qed

lemma frame_sample_blocks [simp]: "frame (fst (sample_blocks M e s)) = frame s"
  by (auto simp: sample_blocks_def intro!: frame_then)

lemma check_system_frame: "frame (check_system M now th obs sys s) = frame s"
  by (simp add: check_system_def ApplyUniverseShiftToCalibrations_def frame_def Let_def)

lemma TickBaseStationDrift_frame:
  "ss_saves (TickBaseStationDrift M env now s) = ss_saves s" "g_relocDetector (ss_drift (TickBaseStationDrift M env now s)) = g_relocDetector (ss_drift s)"
proof -
  have "frame (fold (check_system M now th obs) xs s) = frame s" for th obs xs
    by (induction xs arbitrary: s) (simp_all add: check_system_frame)
  then show "ss_saves (TickBaseStationDrift M env now s) = ss_saves s" "g_relocDetector (ss_drift (TickBaseStationDrift M env now s)) = g_relocDetector (ss_drift s)"
    by (simp_all add: TickBaseStationDrift_def Let_def frame_def)
qed

lemma idle_saves: "ss_saves (fst (idle_block M e time s)) = ss_saves s"
proof -
  have "frame (fst (tick_then (timed_scan M e time iv s') (\<lambda>s. (s, Stop)))) = frame s'" for iv s'
    by (auto intro!: frame_then)
  then show ?thesis by (simp add: idle_block_def TickBaseStationDrift_frame frame_def)
qed

lemma saves_then: "ss_saves (fst r) = v \<Longrightarrow> (\<And>s. ss_saves s = v \<Longrightarrow> ss_saves (fst (f s)) = v) \<Longrightarrow> ss_saves (fst (tick_then r f)) = v"
  by (cases r) (simp add: tick_then_def)

lemma frame_saves: "frame s' = frame s \<Longrightarrow> ss_saves s' = ss_saves s"
  by (simp add: frame_def)

lemmas saves_simps [simp] = frame_scan_block [THEN frame_saves] frame_standby [THEN frame_saves] frame_begin [THEN frame_saves] frame_gate [THEN frame_saves]
  frame_open [THEN frame_saves] frame_ingest [THEN frame_saves] frame_prelude_rest [THEN frame_saves] frame_StartContinuous [THEN frame_saves]
  frame_sample_blocks [THEN frame_saves] frame_solve [THEN frame_saves] frame_close [THEN frame_saves] frame_run_scan [THEN frame_saves]

lemma state_blocks_saves: "ss_saves (fst (state_blocks M e time s)) = ss_saves s"
  by (auto simp: state_blocks_def idle_saves intro!: saves_then)

lemma reloc_saves: "ss_saves (TickHmdRelocalizationDetector M env now s) = ss_saves s"
proof -
  have "ss_saves (auto_recover M env now hmd s) = ss_saves s" for hmd s
    by (simp add: auto_recover_def RecoverFromWedgedCalibration_def Let_def)
  then show ?thesis by (simp add: TickHmdRelocalizationDetector_def reloc_check_def reloc_remember_def Let_def split: option.splits)
qed

lemma frame_corrections:
  "frame (TickRestLockedYaw M now s) = frame s" "frame (TickPredictiveRecovery M now s) = frame s" "frame (fst (TickReanchorChiSquare M now s)) = frame s"
  by (simp add: TickRestLockedYaw_def frame_def Let_def split: prod.splits)
     (simp_all add: TickPredictiveRecovery_def TickReanchorChiSquare_def frame_def Let_def)

lemma drift_ticks_frame: "frame (drift_ticks M env now s) = frame (TickHmdRelocalizationDetector M env now s)"
proof (cases "TickReanchorChiSquare M now (TickHmdRelocalizationDetector M env now s)")
  case (Pair s1 frozen)
  then show ?thesis using frame_corrections(3) [of M now "TickHmdRelocalizationDetector M env now s"]
    by (simp add: drift_ticks_def frame_corrections(1,2))
qed

lemma drift_ticks_saves: "ss_saves (drift_ticks M env now s) = ss_saves s"
  using drift_ticks_frame [THEN frame_saves] reloc_saves by simp

lemma prelude_saves: "ss_saves (fst (prelude_blocks M e time s)) = ss_saves s"
  by (auto simp: prelude_blocks_def drift_ticks_saves intro!: saves_then)

section \<open>What a tick saves\<close>

definition fresh_session :: "Session \<Rightarrow> bool" where
  "fresh_session s \<longleftrightarrow> (state_of s = CalNone \<or> state_of s = CalContinuousStandby) \<and> m_samples (ss_calc s) = [] \<and> m_rotationFrozen (ss_calc s) = []
     \<and> m_consecutiveRejections (ss_calc s) = 0 \<and> autoLockHistory (cc_lock (ss_ctx s)) = [] \<and> \<not> autoLockEffectivelyLocked (cc_lock (ss_ctx s))
     \<and> refSpeedHistory (cc_latency (ss_ctx s)) = [] \<and> targetSpeedHistory (cc_latency (ss_ctx s)) = [] \<and> speedSampleTimes (cc_latency (ss_ctx s)) = []
     \<and> pairedMotionMismatchCount (cc_pair (ss_ctx s)) = 0 \<and> mx_error_currentCal (ss_metrics s) = []"

lemma fresh_inv: "fresh_session s \<Longrightarrow> session_inv M s"
  by (auto simp: fresh_session_def inv_defs calc_ok_def)

lemma fresh_reach_inv: "fresh_session s0 \<Longrightarrow> session_reach M s0 s \<Longrightarrow> session_inv M s"
  using fresh_inv session_reach_inv by blast

lemma publish_block_saves:
  assumes "publish_block M e s = (s', fl)" "ss_saves s' \<noteq> ss_saves s"
  shows "m_isValid (ss_calc s) \<and> solve_usable M e (m_estimatedTransformation (ss_calc s))
    \<and> ss_saves s' = ss_saves s @ [CalProfile.truncate (adopt_solution M (ss_calc s) (ss_ctx s))]"
proof (cases "m_isValid (ss_calc s) \<and> solve_usable M e (m_estimatedTransformation (ss_calc s))")
  case False
  then have "publish_block M e s = (s, Go)" unfolding publish_block_def by (rule if_not_P)
  then show ?thesis using assms by simp
next
  case True
  let ?s = "SaveProfile (upd_ctx (adopt_solution M (ss_calc s)) s)"
  have "ss_saves (fst (tick_then (run_scan M e ?s) (\<lambda>s. (upd_ctx (\<lambda>c. c\<lparr>cc_hasAppliedCalibrationResult := True\<rparr>) s, Go)))) = ss_saves ?s"
    by (rule saves_then) simp_all
  moreover have "publish_block M e s = tick_then (run_scan M e ?s) (\<lambda>s. (upd_ctx (\<lambda>c. c\<lparr>cc_hasAppliedCalibrationResult := True\<rparr>) s, Go))"
    using True unfolding publish_block_def by (rule if_P)
  ultimately have "ss_saves s' = ss_saves ?s" using assms(1) by (metis fst_conv)
  then show ?thesis using True by (simp add: SaveProfile_def)
qed

lemma tick_then_Go: "tick_then r f = (s', fl) \<Longrightarrow> (\<exists>s. r = (s, Go) \<and> f s = (s', fl)) \<or> r = (s', fl)"
  by (cases r) (auto simp: tick_then_def split: if_splits)

text \<open>A tick that saves got to its solve, with the state and the samples the earlier blocks ask for.\<close>

lemma tick_saves:
  assumes "session_inv M s" "CalibrationTick M e time s = (s', fl)" "ss_saves s' \<noteq> ss_saves s"
  obtains t where "in_states M {CalTranslation, CalContinuous} t" "solvable M (state_of t) (ss_calc t)"
    "m_isValid (ss_calc (solve_block M e time t))" "solve_usable M e (m_estimatedTransformation (ss_calc (solve_block M e time t)))"
    "ss_saves s' = ss_saves s @ [CalProfile.truncate (adopt_solution M (ss_calc (solve_block M e time t)) (ss_ctx (solve_block M e time t)))]"
proof -
  let ?r = "tick_then (tick_then (prelude_blocks M e time s) (state_blocks M e time)) (sample_blocks M e)"
  have sv: "ss_saves (fst ?r) = ss_saves s"
    by (intro saves_then) (auto simp: prelude_saves state_blocks_saves)
  have en: "ends (session_inv M) (\<lambda>s. in_states M {CalTranslation, CalContinuous} s \<and> solvable M (state_of s) (ss_calc s)) ?r"
    by (rule ends_then [OF ends_then [OF prelude_blocks_inv [OF assms(1)] state_blocks_inv] sample_blocks_inv])
  from tick_then_Go [OF assms(2) [unfolded CalibrationTick_def]]
  obtain t where t: "?r = (t, Go)" "tick_then (publish_block M e (solve_block M e time t)) (\<lambda>s. (close_block s, Stop)) = (s', fl)"
    using sv assms(3) by auto
  obtain u fl' where p: "publish_block M e (solve_block M e time t) = (u, fl')" by (rule prod.exhaust)
  have "ss_saves s' = ss_saves u" using t(2) p by (auto simp: tick_then_def split: if_splits)
  moreover have "ss_saves (solve_block M e time t) = ss_saves s" using sv t(1) by simp
  ultimately show ?thesis using publish_block_saves [OF p] assms(3) en t(1) by (intro that [of t]) (auto simp: ends_def)
qed

lemma solve_block_oneshot:
  assumes "state_of s = CalTranslation"
  shows "ss_ctx (solve_block M e time s) = ss_ctx s"
    "ss_calc (solve_block M e time s) = fst (ComputeOneshot M (st_mode (settings s)) (st_ignoreOutliers (settings s))
       ((set_options (settings s) (ss_calc s))\<lparr>c_enableStaticRecalibration := False\<rparr>))"
  using assms by (simp_all add: solve_block_def Let_def)

lemma diversity_options [simp]:
  "TranslationDiversity (set_options st k) = TranslationDiversity k" "TranslationDiversity (k\<lparr>c_enableStaticRecalibration := b\<rparr>) = TranslationDiversity k"
  by (simp_all add: TranslationDiversity_def usable_targets_def)

section \<open>Properties of runs\<close>


text \<open>C13. In a session that keeps the invariant, a tick saves at most one profile, and only a usable one: its translation is that of a valid solve and finite, its rotation is not the identity.
  In a one-shot calibration the solve had both phases behind it: at least 30 frozen samples with rotation enough and at least 30 live samples that
  cover every axis.\<close>

theorem saved_profile_usable:
  assumes "session_inv M s" "CalibrationTick M e time s = (s', fl)" "ss_saves s' \<noteq> ss_saves s"
  shows "\<exists>p k. ss_saves s' = ss_saves s @ [p] \<and> cx_validProfile p \<and> cx_state p \<in> {CalTranslation, CalContinuous} \<and> m_isValid k
    \<and> cx_calibratedTranslation p = v_scale M (aff_translation (m_estimatedTransformation k)) (lit 100) \<and> cx_calibratedRotation p = EulerRotation M k
    \<and> v_allFinite (aff_translation (m_estimatedTransformation k)) \<and> lit 0.001 < rot_angle M e (aff_rotation (aff M) (m_estimatedTransformation k))
    \<and> (cx_state p = CalTranslation \<longrightarrow> (\<exists>k0 md ign. k = fst (ComputeOneshot M md ign k0) \<and> 30 \<le> length (m_samples k0)
         \<and> \<not> TranslationDiversity k0 < lit 0.55 \<and> rotation_rich M (m_rotationFrozen k0)))"
proof -
  from tick_saves [OF assms] obtain t
    where t: "in_states M {CalTranslation, CalContinuous} t" "solvable M (state_of t) (ss_calc t)"
      "m_isValid (ss_calc (solve_block M e time t))" "solve_usable M e (m_estimatedTransformation (ss_calc (solve_block M e time t)))"
      "ss_saves s' = ss_saves s @ [CalProfile.truncate (adopt_solution M (ss_calc (solve_block M e time t)) (ss_ctx (solve_block M e time t)))]"
    by blast
  let ?u = "solve_block M e time t"
  let ?p = "CalProfile.truncate (adopt_solution M (ss_calc ?u) (ss_ctx ?u))"
  have st: "state_of ?u = state_of t"
  proof (cases "state_of t = CalTranslation")
    case True then show ?thesis by (simp add: solve_block_oneshot)
  next
    case False
    then have "in_states M {CalContinuous} (upd_calc (set_options (settings t)) t)" using t(1) by (simp add: session_inv_def base_inv_def calc_inv_def)
    then have "state_of (primary_solve M e time (upd_calc (set_options (settings t)) t)) = CalContinuous" using primary_solve_inv by blast
    then show ?thesis using False t(1) by (auto simp: solve_block_def Let_def dest: extra_ticks_cases split: prod.splits)
  qed
  have os: "\<exists>k0 md ign. ss_calc ?u = fst (ComputeOneshot M md ign k0) \<and> 30 \<le> length (m_samples k0) \<and> \<not> TranslationDiversity k0 < lit 0.55
      \<and> rotation_rich M (m_rotationFrozen k0)" if "state_of t = CalTranslation"
    by (rule exI [of _ "(set_options (settings t) (ss_calc t))\<lparr>c_enableStaticRecalibration := False\<rparr>"])
       (use that t(1,2) in \<open>auto simp: solve_block_oneshot solvable_def session_inv_def calc_inv_def\<close>)
  have "cx_validProfile ?p" "cx_state ?p = state_of t" "cx_calibratedRotation ?p = EulerRotation M (ss_calc ?u)"
    "cx_calibratedTranslation ?p = v_scale M (aff_translation (m_estimatedTransformation (ss_calc ?u))) (lit 100)"
    using st by (simp_all add: CalProfile.truncate_def adopt_solution_def)
  then show ?thesis using t os by (intro exI [of _ ?p] exI [of _ "ss_calc ?u"]) (auto simp: solve_usable_def)
qed

text \<open>C29. What the geometry watchdog reads. Every error in its series belongs to a calibration that the validation accepted, because the solver records the error of the present
  calibration only then; a calibration whose error is above the limit, as after a real shift of the geometry, leaves the series as it is. So when the watchdog
  does demote the session, it does so over an error within the limit.\<close>

theorem watchdog_sees_only_accepted:
  assumes "fresh_session s0" "session_reach M s0 s"
  shows "list_all (accepted_error M \<circ> snd) (mx_error_currentCal (ss_metrics s))
    \<and> (\<forall>k now. \<not> c_lockRelativePosition k \<and> rms_gate M k < rms_of M k (m_estimatedTransformation k) \<longrightarrow> note_error M now k s = s)
    \<and> (state_of (geometry_block s) \<noteq> state_of s \<longrightarrow>
        (\<exists>k. snd (last (mx_error_currentCal (ss_metrics s))) = rms_of M k (m_estimatedTransformation k) * lit 1000
             \<and> \<not> rms_gate M k < rms_of M k (m_estimatedTransformation k)))"
proof -
  let ?xs = "mx_error_currentCal (ss_metrics s)"
  have all: "list_all (accepted_error M \<circ> snd) ?xs" using fresh_reach_inv [OF assms] by (simp add: inv_defs)
  have "note_error M now k s = s" if "\<not> c_lockRelativePosition k" "rms_gate M k < rms_of M k (m_estimatedTransformation k)" for k now
    using that by (simp add: note_error_def pushed_error_def lock_stage_def ValidateCalibration_def Let_def)
  moreover have "accepted_error M (snd (last ?xs))" if "state_of (geometry_block s) \<noteq> state_of s"
  proof -
    have "?xs \<noteq> []" using that by (auto simp: geometry_block_def shift_tick_def Let_def split: prod.splits if_splits)
    then show ?thesis using all by (simp add: list_all_iff)
  qed
  ultimately show ?thesis using all unfolding accepted_error_def by blast
qed

section \<open>Base stations away from their cached poses\<close>

definition station_moved :: "SolverMath \<Rightarrow> ScanEnv \<Rightarrow> Session \<Rightarrow> bool" where
  "station_moved M env s \<longleftrightarrow> (\<exists>i\<in>set (station_ids env (ss_ctx s)). \<exists>d. station_move M env s i = Some d \<and> kRelocBaseStableM \<le> d)"

lemma max_fold:
  fixes m :: double
  assumes "\<not> isnan m"
  shows "m \<le> fold (\<lambda>d m. if m < d then d else m) ds m \<and> (\<forall>d\<in>set ds. \<not> isnan d \<longrightarrow> d \<le> fold (\<lambda>d m. if m < d then d else m) ds m)"
  using assms
proof (induction ds arbitrary: m)
  case (Cons d ds)
  have n: "\<not> isnan (if m < d then d else m)" using Cons.prems by (cases m; cases d) auto
  have "m \<le> (if m < d then d else m)" "\<not> isnan d \<Longrightarrow> d \<le> (if m < d then d else m)"
    using Cons.prems fp_not_less [of m d] by (auto intro: fp_less_le fp_le_refl)
  then show ?case using Cons.IH [OF n] by (auto intro: fp_le_trans)
qed (simp add: fp_le_refl)

lemma max_of_ge:
  assumes "d \<in> set ds" "c \<le> d"
  shows "\<not> max_of ds < c"
proof
  assume l: "max_of ds < c"
  have "\<not> isnan d" using assms(2) by (cases c; cases d) auto
  then have "d \<le> max_of ds" using max_fold [of 0 ds] assms(1) by (simp add: max_of_def zero_fp_def)
  then have "max_of ds < max_of ds" using l assms(2) by (blast intro: fp_le_trans fp_less_le_trans)
  then show False by (cases "max_of ds") auto
qed

lemma station_moved_cong:
  assumes "baseStationCache (ss_drift s') = baseStationCache (ss_drift s)" "cc_devicePoses (ss_ctx s') = cc_devicePoses (ss_ctx s)"
  shows "station_moved M env s' = station_moved M env s"
proof -
  have "station_move M env s' = station_move M env s" by (rule ext) (simp add: station_move_def assms split: option.splits)
  then show ?thesis by (simp add: station_moved_def station_ids_def assms(2))
qed

lemma moved_blocks_fire: "station_moved M env s \<Longrightarrow> \<not> reloc_fires M env now hmd bodies s"
proof -
  assume "station_moved M env s"
  then obtain i d where d: "i \<in> set (station_ids env (ss_ctx s))" "station_move M env s i = Some d" "kRelocBaseStableM \<le> d" by (auto simp: station_moved_def)
  then have "d \<in> set (List.map_filter (station_move M env s) (station_ids env (ss_ctx s)))" by (force simp: List.map_filter_def)
  then show ?thesis using max_of_ge [OF _ d(3)] by (auto simp: reloc_fires_def bsMaxDelta_def Let_def)
qed

text \<open>The marks that a relocalisation and a recovery leave.\<close>

definition reloc_marks :: "Session \<Rightarrow> (double \<times> double \<times> AutoRecoverySnapshot) \<times> (string \<rightharpoonup> string \<times> AffineCompact3d)" where
  "reloc_marks s = (let d = g_relocDetector (ss_drift s) in ((rl_lastFireTime d, rl_lastAutoRecoverTime d, rl_snapshot d), baseStationCache (ss_drift s)))"

lemma frame_marks: "frame s' = frame s \<Longrightarrow> reloc_marks s' = reloc_marks s"
  by (simp add: frame_def reloc_marks_def)

lemma moved_detector:
  assumes "station_moved M (ve_scan env) s"
  shows "reloc_marks (TickHmdRelocalizationDetector M env now s) = reloc_marks s"
proof -
  have "station_moved M (ve_scan env) (s\<lparr>ss_drift := (ss_drift s)\<lparr>g_relocDetector := d\<rparr>\<rparr>)" for d
    using assms by (subst station_moved_cong [of _ s]) simp_all
  then show ?thesis using assms moved_blocks_fire
    by (simp add: TickHmdRelocalizationDetector_def reloc_check_def reloc_remember_def reloc_marks_def Let_def split: option.splits)
qed

lemma open_block_moved:
  assumes "open_block time s = (s1, fl)" "station_moved M env s"
  shows "station_moved M env s1"
proof -
  have "ss_drift s1 = ss_drift s" "cc_devicePoses (ss_ctx s1) = cc_devicePoses (ss_ctx s)"
    using assms(1) by (auto simp: open_block_def ResolveLockMode_def Let_def split: if_splits)
  then show ?thesis using assms(2) station_moved_cong [of s1 s] by simp
qed

lemma marks_then:
  assumes "reloc_marks (fst r) = v" "\<And>s. r = (s, Go) \<Longrightarrow> reloc_marks s = v \<Longrightarrow> reloc_marks (fst (f s)) = v"
  shows "reloc_marks (fst (tick_then r f)) = v"
  using assms by (cases r) (auto simp: tick_then_def)

lemma prelude_marks:
  assumes "station_moved M (ve_scan (te_vr e)) s"
  shows "reloc_marks (fst (prelude_blocks M e time s)) = reloc_marks s"
  unfolding prelude_blocks_def
proof (intro marks_then)
  fix s1 assume o: "open_block time s = (s1, Go)" "reloc_marks s1 = reloc_marks s"
  let ?g = "\<lambda>s. fst (ingest_block e time (latency_block M time (geometry_block (reassign_block e time s))))"
  have "reloc_marks (?g (drift_ticks M (te_vr e) time s1)) = reloc_marks (TickHmdRelocalizationDetector M (te_vr e) time s1)"
    by (rule frame_marks) (simp add: drift_ticks_frame)
  then show "reloc_marks (?g (drift_ticks M (te_vr e) time s1)) = reloc_marks s"
    using moved_detector [OF open_block_moved [OF o(1) assms]] o(2) by simp
qed (simp_all add: frame_marks [OF frame_open] frame_marks [OF frame_prelude_rest(4)])

text \<open>Only an idle tick refreshes the cache.\<close>

definition marked :: "(double \<times> double \<times> AutoRecoverySnapshot) \<times> (string \<rightharpoonup> string \<times> AffineCompact3d) \<Rightarrow> Session \<Rightarrow> bool" where
  "marked v s \<longleftrightarrow> reloc_marks s = v \<or> state_of s = CalNone"

lemma idle_marked:
  assumes "reloc_marks s = v"
  shows "ends (marked v) (\<lambda>s. reloc_marks s = v) (idle_block M e time s)"
proof -
  have "frame (fst (tick_then (timed_scan M e time iv s') (\<lambda>s. (s, Stop)))) = frame s'" for iv s' by (auto intro!: frame_then)
  moreover have "snd (tick_then (timed_scan M e time iv s') (\<lambda>s. (s, Stop))) \<noteq> Go" for iv s' by (auto simp: tick_then_def split: prod.splits)
  ultimately show ?thesis using assms view_state [OF TickBaseStationDrift_view]
    by (auto simp: idle_block_def marked_def ends_def intro: frame_marks [THEN trans] split: if_splits)
qed

lemma frame_ends:
  assumes "frame (fst r) = frame s" "reloc_marks s = v"
  shows "ends (marked v) (\<lambda>s. reloc_marks s = v) r"
  using frame_marks [OF assms(1)] assms(2) by (simp add: ends_def marked_def)

lemma publish_marks: "reloc_marks (fst (publish_block M e s)) = reloc_marks s"
proof -
  have "reloc_marks (fst (run_scan M e s')) = reloc_marks s'" for s' by (rule frame_marks) simp
  moreover have "reloc_marks (SaveProfile (upd_ctx f s)) = reloc_marks s" "reloc_marks (upd_ctx f s') = reloc_marks s'" for f s'
    by (simp_all add: reloc_marks_def SaveProfile_def)
  ultimately show ?thesis by (auto simp: publish_block_def intro!: marks_then)
qed

lemma tick_marked:
  assumes "station_moved M (ve_scan (te_vr e)) s"
  shows "marked (reloc_marks s) (fst (CalibrationTick M e time s))"
proof -
  let ?v = "reloc_marks s" and ?Q = "\<lambda>t. reloc_marks t = reloc_marks s"
  have p: "ends (marked ?v) ?Q (prelude_blocks M e time s)" using prelude_marks [OF assms] by (simp add: ends_def marked_def)
  have st: "ends (marked ?v) ?Q (state_blocks M e time t)" if "?Q t" for t
    unfolding state_blocks_def
    by (rule ends_then [OF ends_then [OF ends_then [OF ends_then [OF frame_ends [OF frame_scan_block that] frame_ends [OF frame_standby]] idle_marked]
      frame_ends [OF frame_begin]] frame_ends [OF frame_gate]])
  have fin: "ends (marked ?v) (\<lambda>_. True) (tick_then (publish_block M e (solve_block M e time t)) (\<lambda>s. (close_block s, Stop)))" if "?Q t" for t
  proof (rule ends_then [where Q = ?Q])
    have "reloc_marks (solve_block M e time t) = ?v" using frame_marks [OF frame_solve] that by simp
    then show "ends (marked ?v) ?Q (publish_block M e (solve_block M e time t))" by (simp add: ends_def marked_def publish_marks)
  qed (use frame_marks [OF frame_close] in \<open>simp add: marked_def\<close>)
  have "ends (marked ?v) (\<lambda>_. True) (CalibrationTick M e time s)" unfolding CalibrationTick_def
    by (rule ends_then [OF ends_then [OF ends_then [OF p st] frame_ends [OF frame_sample_blocks]] fin])
  then show ?thesis by (simp add: ends_def)
qed

text \<open>Ticks that leave the session busy, with some base station at least a millimetre from where the cache has it.\<close>

inductive moved_run :: "SolverMath \<Rightarrow> Session \<Rightarrow> Session \<Rightarrow> bool" for M s0 where
  Moved_first: "moved_run M s0 s0"
| Moved_tick: "moved_run M s0 s \<Longrightarrow> station_moved M (ve_scan (te_vr e)) s \<Longrightarrow> state_of (fst (CalibrationTick M e time s)) \<noteq> CalNone
    \<Longrightarrow> moved_run M s0 (fst (CalibrationTick M e time s))"

text \<open>C28. The cache of the base stations goes stale outside idle ticks, and this disables the automatic recovery. In a run of ticks that leave the session busy (continuous
  calibration, where the recovery is meant to work) the cache keeps the poses of the last idle tick. As long as one base station is a millimetre or more from its cached
  pose, no relocalisation of the headset is detected, no recovery happens, and the next idle tick will compare with the old poses.\<close>

theorem stale_stations_block_recovery:
  assumes "moved_run M s0 s"
  shows "rl_lastFireTime (g_relocDetector (ss_drift s)) = rl_lastFireTime (g_relocDetector (ss_drift s0))
    \<and> rl_lastAutoRecoverTime (g_relocDetector (ss_drift s)) = rl_lastAutoRecoverTime (g_relocDetector (ss_drift s0))
    \<and> rl_snapshot (g_relocDetector (ss_drift s)) = rl_snapshot (g_relocDetector (ss_drift s0))
    \<and> baseStationCache (ss_drift s) = baseStationCache (ss_drift s0)"
proof -
  have "reloc_marks s = reloc_marks s0" using assms
  proof induction
    case (Moved_tick s e time)
    then show ?case using tick_marked [OF Moved_tick.hyps(2), of time] by (simp add: marked_def)
  qed simp
  then show ?thesis by (simp add: reloc_marks_def Let_def)
qed


text \<open>A profile cleared during continuous calibration comes back: the solver keeps its calibration, so the next usable solve is saved as a valid profile, now without the
  names of the tracking systems.\<close>

lemma cleared_profile_returns:
  assumes "m_isValid (ss_calc s)" "solve_usable M e (m_estimatedTransformation (ss_calc s))"
  shows "\<exists>p. ss_saves (fst (publish_block M e (SaveProfile (upd_ctx (Context_Clear r t) s)))) = ss_saves s @ [CalProfile.truncate (Context_Clear r t (ss_ctx s)), p]
    \<and> cx_validProfile p \<and> cx_targetTrackingSystem p = [] \<and> cx_referenceTrackingSystem p = []"
proof -
  let ?s = "SaveProfile (upd_ctx (Context_Clear r t) s)"
  let ?t = "SaveProfile (upd_ctx (adopt_solution M (ss_calc s)) ?s)"
  obtain u fl where u: "run_scan M e ?t = (u, fl)" by (rule prod.exhaust)
  have "ss_saves u = ss_saves ?t" using frame_run_scan [THEN frame_saves, of M e ?t] unfolding u by simp
  moreover have "fst (publish_block M e ?s) = fst (tick_then (u, fl) (\<lambda>s. (upd_ctx (\<lambda>c. c\<lparr>cc_hasAppliedCalibrationResult := True\<rparr>) s, Go)))"
    using assms u by (simp add: publish_block_def SaveProfile_def)
  ultimately show ?thesis
    by (cases fl) (simp_all add: tick_then_def SaveProfile_def CalProfile.truncate_def adopt_solution_def Context_Clear_def)
qed


section \<open>Witnesses\<close>

definition demo_device_pose :: "bool \<Rightarrow> double \<Rightarrow> DriverPose_t" where
  "demo_device_pose linked x = \<lparr>poseTimeOffset = 0, qWorldFromDriverRotation = q_identity, vecWorldFromDriverTranslation = v_zero, qDriverFromHeadRotation = q_identity,
     vecDriverFromHeadTranslation = v_zero, vecPosition = (x, 0, 0), vecVelocity = v_zero, vecAcceleration = v_zero, qRotation = q_identity,
     vecAngularVelocity = v_zero, vecAngularAcceleration = v_zero, pose_result = TrackingResult_Running_OK, poseIsValid = True, willDriftInYaw = False,
     shouldApplyHeadModel = False, DriverPose_t.deviceIsConnected = linked\<rparr>"

definition demo_settings :: CalSettings where
  "demo_settings = \<lparr>st_ignoreOutliers = False, st_jitterThreshold = lit 3, st_requireTriggerPressToApply = False, st_baseStationDriftCorrectionEnabled = True,
     st_continuousCalibrationThreshold = 1, st_maxRelativeErrorThreshold = 1, st_continuousCalibrationOffset = v_zero, st_targetLatencyOffsetMs = 0,
     st_latencyAutoDetect = False, st_useGccPhatLatency = True, st_useCusumGeometryShift = False, st_useVelocityAwareWeighting = False, st_useTukeyBiweight = False,
     st_mode = demo_mode, st_useBlendFilter = False, st_restLockedYawEnabled = False, st_predictiveRecoveryEnabled = False, st_reanchorChiSquareEnabled = False,
     st_enableStaticRecalibration = False, st_lockRelativePositionMode = LockOn, st_calibrationPaused = False, st_calibrationSpeed = FAST\<rparr>"

definition demo_context :: "CalibrationState \<Rightarrow> double \<Rightarrow> CalibrationContext" where
  "demo_context st x = CalProfile.extend (demo_profile\<lparr>cx_state := st, cx_targetID := 0\<rparr>)
     \<lparr>cc_referenceID = 0, cc_targetStandby = \<lparr>sd_trackingSystem = [], sd_model = [], sd_serial = []\<rparr>,
      cc_referenceStandby = \<lparr>sd_trackingSystem = [], sd_model = [], sd_serial = []\<rparr>, cc_controllerIDs = [], cc_settings = demo_settings,
      cc_pair = \<lparr>pairedMotionPosSeeded = False, pairedMotionPrevRefPos = v_zero, pairedMotionPrevTgtPos = v_zero, pairedMotionMismatchCount = 0\<rparr>,
      cc_latency = \<lparr>refSpeedHistory = [], targetSpeedHistory = [], speedSampleTimes = [], timeLastLatencyEstimate = 0, estimatedLatencyOffsetMs = 0\<rparr>,
      cc_lock = \<lparr>lockRelativePosition = True, autoLockHistory = [], autoLockEffectivelyLocked = False\<rparr>,
      cc_tilt = \<lparr>tiltDiagnosticWindow = [], tiltSustainedAlarmed = False, tiltLastAnnotatedMedian = 0\<rparr>,
      cc_times = \<lparr>timeLastTick = 0, timeLastScan = 1, timeLastAssign = 0, wantedUpdateInterval = 1\<rparr>,
      cc_hmd = \<lparr>hmdPrev = (0, 0, 0), consecutiveHmdStalls = 0\<rparr>, cc_wasWaitingForTriggers = False, cc_hasAppliedCalibrationResult = False,
      cc_refToTargetPose = aff_identity, cc_relativePosCalibrated = False, cc_devicePoses = demo_device_pose False x # replicate 63 (demo_device_pose True 0),
      cc_devicePoseSampleTimes = replicate 64 0\<rparr>"

definition demo_drift :: DriftState where
  "demo_drift = \<lparr>baseStationCache = [''LHR'' \<mapsto> (''lighthouse'', aff_identity)], lastBaseStationShiftAcceptedTime = 0,
     g_relocDetector = \<lparr>rl_havePrevHmd = False, rl_prevHmd = aff_identity, rl_hmdTrackingSystem = [], rl_prevBodyTrans = Map.empty, rl_lastFireTime = 0,
       rl_lastFireDelta = v_zero, rl_lastFireRotRad = 0, rl_lastAutoRecoverTime = 0, rl_lastHmdInvalidTime = 0,
       rl_snapshot = \<lparr>ar_valid = False, ar_refToTargetPose = aff_identity, ar_relativePosCalibrated = False, ar_hasAppliedCalibrationResult = False\<rparr>,
       rl_bannerDismissed = False\<rparr>,
     g_restStates = Map.empty, g_restLockedYawLastTickTime = - 1, g_recoveryDeltaBuffer = RecoveryBuffer_new, g_predictiveRecoveryLastTickTime = - 1,
     g_reanchorChiState = ReanchorState_new, g_reanchorChiLastTickTime = - 1\<rparr>"

definition demo_session :: "CalibrationState \<Rightarrow> double \<Rightarrow> nat \<Rightarrow> Session" where
  "demo_session st x n = \<lparr>ss_ctx = demo_context st x, ss_calc = (Calc_new aff_identity v_zero)\<lparr>m_samples := replicate n demo_sample\<rparr>, ss_gate = anchor_gate_new,
     ss_shift = shift_watch_new, ss_speed = \<lparr>s_lastResolved = SLOW, s_pendingResolved = SLOW, s_pendingTicks = 0\<rparr>,
     ss_metrics = \<lparr>mx_error_currentCal = [], mx_jitterRef = 0, mx_jitterTarget = 0\<rparr>, ss_drift = demo_drift, ss_pub = PublishState_new, ss_saves = []\<rparr>"

definition demo_vr :: VREnv where
  "demo_vr = \<lparr>ve_scan = demo_scan_env\<lparr>env_class := (\<lambda>i. if i = 0 then TrackedDeviceClass_HMD else if i = 1 then TrackedDeviceClass_TrackingReference else TrackedDeviceClass_Invalid)\<rparr>,
     ve_model = (\<lambda>i. []), ve_serial = (\<lambda>i. ''LHR''), ve_role = (\<lambda>i. RoleOther)\<rparr>"

definition demo_tick_env :: TickEnv where
  "demo_tick_env = \<lparr>te_vr = demo_vr, te_up = always, te_sample = \<lparr>se_now = 1, se_stamp = 1, se_freq = 1000\<rparr>, te_newPoses = Some [], te_stamp = (\<lambda>i. 1),
     te_extraNow = (\<lambda>i. 1), te_triggers = (\<lambda>i. False), te_bits = (\<lambda>x. 0), te_trace = (\<lambda>m. lit 3)\<rparr>"

text \<open>An interpretation of Eigen in which every distance is one and every angle is one, and every squared norm is zero.\<close>

definition demo_math :: SolverMath where
  "demo_math = (demo_solver (\<lambda>v. 0))\<lparr>m_acos := (\<lambda>x. 1), v_norm := (\<lambda>v. 1)\<rparr>"

lemma demo_fresh: "fresh_session (demo_session CalNone 1 0)"
  by (simp add: fresh_session_def demo_session_def demo_context_def CalProfile.extend_def demo_profile_def Calc_new_def)


theorem watchdog_sees_only_accepted_witness:
  "rms_of (demo_solver vx) (demo_calc False 0) aff_identity = Fin 3
    \<and> note_error (demo_solver vx) 1 (demo_calc False 0) (demo_session CalNone 1 0) = demo_session CalNone 1 0"
proof -
  let ?M = "demo_solver vx" and ?k = "demo_calc False 0"
  have e: "m_estimatedTransformation ?k = aff_identity" "\<not> c_lockRelativePosition ?k" by (simp_all add: demo_calc_def Calc_new_def)
  have r: "rms_of ?M ?k aff_identity = Fin 3"
    using demo_errors [of 9] by (simp add: demo_rms aff_identity_def sqrt_small small_ints del: fp_sqrt.simps)
  have "rms_gate ?M ?k < Fin 3" using demo_gate [of vx] demo_small(1) by (cases "lit 0.005 :: double") (auto simp: v_zero_def)
  then show ?thesis using watchdog_sees_only_accepted [OF demo_fresh Reach_first, of ?M] e r by auto
qed

lemma near_one: "fround (1073741825 / 1073741824) = (Fin 1 :: float32)"
proof -
  have l: "ilog2 (1073741825 / 1073741824) = 0" by (rule ilog2_eqI) (simp_all add: field_simps)
  have "\<lfloor>1073741825 / 128 :: rat\<rfloor> = 8388608" by (simp add: floor_unique)
  then have "rne (1073741825 / 128) = 8388608" by (simp add: rne_def Let_def)
  then have "rnd 24 (1073741825 / 1073741824) = 1"
    by (simp add: rnd_def fp_qexp_def l fp_qmin_def fp_emax_def Let_def power_int_def power_one_over)
  then show ?thesis by (simp add: fround_def fp_emax_def Let_def power_int_def)
qed


text \<open>A whole tick of a continuous calibration with a locked relative pose, block by block.\<close>

definition goes :: "(Session \<Rightarrow> bool) \<Rightarrow> block \<Rightarrow> bool" where
  "goes Q r \<longleftrightarrow> snd r = Go \<and> Q (fst r)"

lemma goes_then: "goes P r \<Longrightarrow> (\<And>s. P s \<Longrightarrow> goes Q (f s)) \<Longrightarrow> goes Q (tick_then r f)"
  by (cases r) (simp add: goes_def tick_then_def)

lemma goes_pair [simp]: "goes Q (s, fl) \<longleftrightarrow> fl = Go \<and> Q s"
  by (simp add: goes_def)

definition demo_busy :: "Session \<Rightarrow> bool" where
  "demo_busy s \<longleftrightarrow> state_of s = CalContinuous \<and> settings s = demo_settings \<and> cc_referenceID (ss_ctx s) = 0 \<and> cx_targetID (ss_ctx s) = 0
     \<and> cc_devicePoses (ss_ctx s) ! 0 = demo_device_pose False 1 \<and> ss_gate s = anchor_gate_new \<and> mx_error_currentCal (ss_metrics s) = []
     \<and> refSpeedHistory (cc_latency (ss_ctx s)) = [] \<and> lockRelativePosition (cc_lock (ss_ctx s)) \<and> cx_additionalCalibrations (ss_ctx s) = []
     \<and> timeLastScan (cc_times (ss_ctx s)) = 1 \<and> 30 \<le> length (m_samples (ss_calc s)) \<and> list_all s_valid (m_samples (ss_calc s)) \<and> ss_saves s = []"

definition demo_start :: "Session \<Rightarrow> bool" where
  "demo_start s \<longleftrightarrow> demo_busy s \<and> timeLastTick (cc_times (ss_ctx s)) = 0 \<and> hmdPrev (cc_hmd (ss_ctx s)) = (0, 0, 0)"

lemma demo_starts: "demo_start (demo_session CalContinuous 1 30)"
  by (simp add: demo_start_def demo_busy_def demo_session_def demo_context_def CalProfile.extend_def demo_profile_def demo_sample_def Calc_new_def list_all_iff)

lemma small_lits: "\<not> 1 - 0 < (lit (1 / 20) :: double)" "\<not> (1 :: double) \<le> 1 - 1" "(lit (1 / 1000) :: double) < 1"
  "\<not> (std_max (lit (1 / 200)) x :: double) < 0"
proof -
  obtain a where "(lit (1 / 20) :: double) = Fin a" "a \<le> 1" using lit_01 [of "1 / 20"] by auto
  then show "\<not> 1 - 0 < (lit (1 / 20) :: double)" by (simp add: one_fp_def zero_fp_def minus_fp_def fround_1)
  show "\<not> (1 :: double) \<le> 1 - 1" by (simp add: one_fp_def fround_zero minus_fp_def)
  have "rnd 53 (1 / 1000) < 1" using rnd_le_quarter [of "1 / 1000"] by simp
  then show "(lit (1 / 1000) :: double) < 1" using lit_01 [of "1 / 1000"] by (auto simp: one_fp_def)
  obtain c where "(lit (1 / 200) :: double) = Fin c" "0 \<le> c" using lit_01 [of "1 / 200"] by auto
  then show "\<not> (std_max (lit (1 / 200)) x :: double) < 0" by (cases x) (auto simp: std_max_def zero_fp_def)
qed

lemma demo_flags [simp]:
  "st_requireTriggerPressToApply demo_settings = False" "st_restLockedYawEnabled demo_settings = False" "st_predictiveRecoveryEnabled demo_settings = False"
  "st_reanchorChiSquareEnabled demo_settings = False" "st_calibrationPaused demo_settings = False" "st_calibrationSpeed demo_settings = FAST"
  "st_lockRelativePositionMode demo_settings = LockOn" "te_newPoses demo_tick_env = Some []"
  by (simp_all add: demo_settings_def demo_tick_env_def)

lemma demo_device_pose_fields [simp]: "pose_live (demo_device_pose False x) = False" "tracking_ok (demo_device_pose b x)" "vecPosition (demo_device_pose b x) = (x, 0, 0)"
  by (simp_all add: demo_device_pose_def pose_live_def tracking_ok_def)

lemma demo_open: "demo_start s \<Longrightarrow> goes demo_start (open_block 1 s)"
  by (simp add: open_block_def id_ok_def device_index_def k_unMaxTrackedDeviceCount_def ResolveLockMode_def demo_start_def demo_busy_def small_lits Let_def)

lemma demo_drift_ticks: "demo_start s \<Longrightarrow> demo_start (drift_ticks M env 1 s)"
  by (simp add: drift_ticks_def TickHmdRelocalizationDetector_def TickReanchorChiSquare_def TickRestLockedYaw_def TickPredictiveRecovery_def
      demo_start_def demo_busy_def Let_def)

lemma demo_quiet_blocks:
  assumes "demo_start s"
  shows "demo_start (latency_block M 1 (geometry_block (reassign_block e 1 s)))"
proof -
  have "reassign_block e 1 s = s" "demo_start (geometry_block s)"
    using assms by (simp_all add: reassign_block_def geometry_block_def shift_tick_def demo_start_def demo_busy_def Let_def)
  moreover have "latency_block M 1 t = t" if "demo_start t" for t
    using that by (simp add: latency_block_def kLatencyHistoryCapacity_def demo_start_def demo_busy_def Let_def)
  ultimately show ?thesis by simp
qed

lemma demo_ingest: "demo_start s \<Longrightarrow> goes (\<lambda>s. demo_busy s \<and> hmdPrev (cc_hmd (ss_ctx s)) = (0, 0, 0)) (ingest_block demo_tick_env 1 s)"
  by (simp add: ingest_block_def demo_start_def demo_busy_def Let_def)

lemma demo_stall: "demo_busy s \<and> hmdPrev (cc_hmd (ss_ctx s)) = (0, 0, 0) \<Longrightarrow> goes demo_busy (stall_block s)"
  by (simp add: stall_block_def hmd_stalled_def demo_busy_def fp_eq_def zero_fp_def one_fp_def fround_zero Let_def)

lemma demo_prelude: "demo_start s \<Longrightarrow> goes demo_busy (prelude_blocks M demo_tick_env 1 s)"
  unfolding prelude_blocks_def
  by (rule goes_then [OF goes_then [OF demo_open] demo_stall]) (blast intro: demo_ingest demo_quiet_blocks demo_drift_ticks)+

lemma demo_state_blocks: "demo_busy s \<Longrightarrow> goes demo_busy (state_blocks M e 1 s)"
  by (simp add: state_blocks_def scan_block_def timed_scan_def standby_block_def idle_block_def begin_block_def abort_block_def anchors_assigned_def
      gate_block_def liveness_inputs_def gate_tick_def tick_one_def anchor_gate_new_def IsOffline_def TrackerLivenessState_new_def
      k_unMaxTrackedDeviceCount_def demo_busy_def small_lits tick_then_def Let_def)

lemma PushSample_valid:
  "list_all s_valid (m_samples k) \<Longrightarrow> s_valid x \<Longrightarrow> list_all s_valid (m_samples (PushSample x k))" "length (m_samples k) \<le> length (m_samples (PushSample x k))"
  by (auto simp: PushSample_def Let_def)

definition demo_ready :: "Session \<Rightarrow> bool" where
  "demo_ready s \<longleftrightarrow> state_of s = CalContinuous \<and> settings s = demo_settings \<and> lockRelativePosition (cc_lock (ss_ctx s)) \<and> cx_additionalCalibrations (ss_ctx s) = []
     \<and> 30 \<le> length (m_samples (ss_calc s)) \<and> list_all s_valid (m_samples (ss_calc s)) \<and> ss_saves s = []"

lemma demo_collect:
  assumes "demo_busy s"
  shows "goes demo_ready (collect_block M e s)"
proof -
  let ?x = "collected_sample M (te_sample e) (ss_ctx s)"
  have "s_valid ?x" by (simp add: collected_sample_def Let_def)
  then have "list_all s_valid (m_samples (PushSample ?x (ss_calc s)))" "30 \<le> length (m_samples (PushSample ?x (ss_calc s)))"
    using assms PushSample_valid [of "ss_calc s" ?x] by (auto simp: demo_busy_def)
  then show ?thesis using assms
    by (simp add: collect_block_def CollectSample_def note_sample_def note_jitter_def UpdateAutoLockDetector_def demo_busy_def demo_ready_def Let_def)
qed

lemma trim_samples_set: "trim_samples s k = (s', k') \<Longrightarrow> set (m_samples k') \<subseteq> set (m_samples k)"
proof (induction s k rule: trim_samples.induct)
  case (1 s k)
  obtain s1 n where c: "SampleCount s = (s1, n)" by (rule prod.exhaust)
  show ?case
  proof (cases "n < length (m_samples k)")
    case True
    then have "trim_samples s1 (ShiftSample k) = (s', k')" using "1.prems" by (subst (asm) trim_samples.simps) (simp add: c)
    from "1.IH" [OF c [symmetric] True this] show ?thesis by (auto dest: list.set_sel(2) [rotated] simp: Nil_tl) (metis list.set_sel(2) subsetD tl_Nil)
  next
    case False
    then show ?thesis using "1.prems" by (subst (asm) trim_samples.simps) (simp add: c)
  qed
qed

lemma demo_count:
  assumes "demo_ready s"
  shows "goes demo_ready (count_block s)"
proof -
  have sc: "SampleCount t = (t, 30)" if "settings t = demo_settings" for t using that by (simp add: SampleCount_def ResolvedCalibrationSpeed_def)
  obtain s2 k where t: "trim_samples s (ss_calc s) = (s2, k)" by (rule prod.exhaust)
  have st: "settings s = demo_settings" using assms by (simp add: demo_ready_def)
  obtain q where "s2 = s\<lparr>ss_speed := q\<rparr>" "30 \<le> length (m_samples k)" using trim_samples_cases [OF t] assms by (auto simp: demo_ready_def)
  moreover have "list_all s_valid (m_samples k)" using trim_samples_set [OF t] assms by (auto simp: demo_ready_def list_all_iff)
  ultimately show ?thesis using assms by (simp add: count_block_def sc [OF st] t demo_ready_def)
qed

lemma demo_sample_blocks: "demo_busy s \<Longrightarrow> goes demo_ready (sample_blocks M e s)"
  unfolding sample_blocks_def
  by (rule goes_then [OF goes_then [OF goes_then [OF demo_collect demo_count]]]) (auto simp: phase_block_def trigger_block_def demo_ready_def Let_def)

lemma sum_zeros: "sum_fp (replicate n (0 :: double)) = 0"
proof -
  have "fold (\<lambda>x acc. acc + x) (replicate n (0 :: double)) 0 = 0" by (induction n) (simp_all add: zero_fp_def fround_zero)
  then show ?thesis by (simp add: sum_fp_def)
qed

lemma zero_over: "fp_sqrt (0 / x :: double) = 0 \<or> fp_sqrt (0 / x :: double) = FNaN"
  by (cases x) (auto simp: zero_fp_def fround_zero sqrt_small simp del: fp_sqrt.simps, simp_all)

lemma demo_math_lock:
  assumes "list_all s_valid (m_samples k)" "30 \<le> length (m_samples k)" "c_lockRelativePosition k"
  shows "\<exists>k1. lock_stage demo_math k = (k1, True) \<and> m_isValid k1 \<and> solve_usable demo_math e (m_estimatedTransformation k1)"
proof -
  let ?x = "CalibrateByRelPose demo_math k"
  have x: "?x = \<lparr>aff_linear = m3_identity, aff_translation = (Fin 1, 0, 0)\<rparr>"
    by (simp add: CalibrateByRelPose_def average_poses_def demo_math_def demo_solver_simps Let_def)
  have v: "valid_samples k = m_samples k" using assms(1) by (simp add: list_all_iff filter_id_conv)
  have "RetargetingErrorRMS demo_math h c k = fp_sqrt (sum_fp (replicate (length (m_samples k)) 0) / of_integer (int (length (m_samples k))))" for h c
    using assms(2) unfolding RetargetingErrorRMS_def v by (auto simp: demo_math_def demo_solver_simps map_replicate_const Let_def simp del: fp_sqrt.simps)
  then have "rms_of demo_math k ?x = 0 \<or> rms_of demo_math k ?x = FNaN" using zero_over by (simp add: rms_of_def sum_zeros del: fp_sqrt.simps)
  then have ok: "\<not> rms_gate demo_math k < rms_of demo_math k ?x" by (auto simp: rms_gate_def small_lits Let_def)
  have "solve_usable demo_math e ?x" unfolding solve_usable_def x by (simp add: rot_angle_def demo_math_def zero_fp_def small_lits)
  then show ?thesis using assms(3) ok by (auto simp: lock_stage_def ValidateCalibration_def Let_def)
qed

lemma demo_primary:
  assumes "demo_ready s"
  shows "state_of (solve_block demo_math e 1 s) = CalContinuous" "ss_saves (solve_block demo_math e 1 s) = []"
    "m_isValid (ss_calc (solve_block demo_math e 1 s)) \<and> solve_usable demo_math e (m_estimatedTransformation (ss_calc (solve_block demo_math e 1 s)))"
proof -
  let ?k = "(set_options demo_settings (ss_calc s))\<lparr>c_enableStaticRecalibration := st_enableStaticRecalibration demo_settings, c_lockRelativePosition := True\<rparr>"
  have m: "m_samples ?k = m_samples (ss_calc s)" by (simp add: set_options_def Let_def)
  from assms obtain k1 where k1: "lock_stage demo_math ?k = (k1, True)" "m_isValid k1" "solve_usable demo_math e (m_estimatedTransformation k1)"
    using demo_math_lock [of ?k e] by (auto simp: demo_ready_def m)
  have i: "fst (incremental demo_math st ?k) = k1" "note_error demo_math now ?k t = t" for st now t
    using assms by (simp_all add: incremental_def ComputeIncremental_def note_error_def pushed_error_def k1(1) m demo_ready_def Let_def del: Calc.simps)
  from assms i k1(2,3) show "state_of (solve_block demo_math e 1 s) = CalContinuous" "ss_saves (solve_block demo_math e 1 s) = []"
    "m_isValid (ss_calc (solve_block demo_math e 1 s)) \<and> solve_usable demo_math e (m_estimatedTransformation (ss_calc (solve_block demo_math e 1 s)))"
    by (simp_all add: solve_block_def primary_solve_def demo_ready_def Let_def del: Calc.simps)
qed

lemma demo_publish:
  assumes "state_of s = CalContinuous" "m_isValid (ss_calc s) \<and> solve_usable M e (m_estimatedTransformation (ss_calc s))"
  shows "case tick_then (publish_block M e s) (\<lambda>s. (close_block s, Stop)) of (s', fl) \<Rightarrow> state_of s' = CalContinuous \<and> ss_saves s' \<noteq> []"
proof -
  let ?t = "SaveProfile (upd_ctx (adopt_solution M (ss_calc s)) s)"
  obtain u fl where u: "run_scan M e ?t = (u, fl)" by (rule prod.exhaust)
  have st: "state_of u = CalContinuous" using view_state [OF run_scan_view, of M e ?t] u assms(1) by (simp add: SaveProfile_def adopt_solution_def)
  have "ss_saves u = ss_saves ?t" using frame_run_scan [THEN frame_saves, of M e ?t] unfolding u by simp
  then have "ss_saves u \<noteq> []" by (simp add: SaveProfile_def)
  moreover have "state_of (close_block v) = CalContinuous" if "state_of v = CalContinuous" for v
  proof -
    obtain w n where w: "SampleCount v = (w, n)" by (rule prod.exhaust)
    then obtain q where "w = v\<lparr>ss_speed := q\<rparr>" using SampleCount_cases(1) by blast
    then show ?thesis using that w by (simp add: close_block_def)
  qed
  ultimately show ?thesis using assms(2) st frame_close [THEN frame_saves]
    by (cases fl) (simp_all add: publish_block_def u tick_then_def)
qed

lemma demo_tick:
  "case CalibrationTick demo_math demo_tick_env 1 (demo_session CalContinuous 1 30) of (s', fl) \<Rightarrow> state_of s' = CalContinuous \<and> ss_saves s' \<noteq> []"
proof -
  have "goes demo_ready (tick_then (tick_then (prelude_blocks demo_math demo_tick_env 1 (demo_session CalContinuous 1 30)) (state_blocks demo_math demo_tick_env 1))
      (sample_blocks demo_math demo_tick_env))"
    by (rule goes_then [OF goes_then [OF demo_prelude [OF demo_starts] demo_state_blocks] demo_sample_blocks])
  then obtain t where t: "demo_ready t"
    "tick_then (tick_then (prelude_blocks demo_math demo_tick_env 1 (demo_session CalContinuous 1 30)) (state_blocks demo_math demo_tick_env 1))
      (sample_blocks demo_math demo_tick_env) = (t, Go)" by (cases) (auto simp: goes_def prod_eq_iff)
  show ?thesis unfolding CalibrationTick_def t(2)
    using demo_publish [OF demo_primary(1) [OF t(1)] demo_primary(3) [OF t(1)]] by (simp add: tick_then_def)
qed

lemma demo_inv: "session_inv M (demo_session CalContinuous 1 30)"
  by (simp add: inv_defs calc_ok_def demo_session_def demo_context_def CalProfile.extend_def demo_profile_def demo_sample_def Calc_new_def list_all_iff sane_sample_def sane_vec.simps v_zero_def zero_fp_def)

theorem saved_profile_usable_witness:
  "\<exists>p. ss_saves (fst (CalibrationTick demo_math demo_tick_env 1 (demo_session CalContinuous 1 30))) = [p] \<and> cx_validProfile p"
proof -
  obtain s' fl where t: "CalibrationTick demo_math demo_tick_env 1 (demo_session CalContinuous 1 30) = (s', fl)" "ss_saves s' \<noteq> []" using demo_tick by auto
  have e: "ss_saves (demo_session CalContinuous 1 30) = []" by (simp add: demo_session_def)
  from saved_profile_usable [OF demo_inv t(1)] t show ?thesis unfolding e by auto
qed

lemma milli_le: "(lit (1 / 1000) :: double) \<le> 1"
  using lit_01 [of "1 / 1000"] by (auto simp: one_fp_def)

theorem stale_stations_block_recovery_witness:
  "\<exists>s. moved_run demo_math (demo_session CalContinuous 1 30) s \<and> ss_saves s \<noteq> []
    \<and> rl_lastFireTime (g_relocDetector (ss_drift s)) = rl_lastFireTime (g_relocDetector (ss_drift (demo_session CalContinuous 1 30)))"
proof -
  let ?a = "demo_session CalContinuous 1 30" and ?s = "fst (CalibrationTick demo_math demo_tick_env 1 (demo_session CalContinuous 1 30))"
  have "station_moved demo_math (ve_scan (te_vr demo_tick_env)) ?a"
    unfolding station_moved_def
    by (rule bexI [of _ 1])
       (simp_all add: station_move_def station_ids_def demo_tick_env_def demo_vr_def demo_scan_env_def demo_session_def demo_context_def demo_drift_def demo_math_def
        CalProfile.extend_def demo_profile_def k_unMaxTrackedDeviceCount_def demo_device_pose_def pose_live_def kRelocBaseStableM_def milli_le)
  moreover have "state_of ?s \<noteq> CalNone" "ss_saves ?s \<noteq> []" using demo_tick by (simp_all split: prod.splits)
  ultimately have "moved_run demo_math ?a ?s" by (intro Moved_tick Moved_first)
  from stale_stations_block_recovery [OF this] this \<open>ss_saves ?s \<noteq> []\<close> show ?thesis by blast
qed

end
