(* ===== verification/IpcClient.thy ===== *)
theory IpcClient
  imports Protocol
begin

text \<open>
  The overlays' side of a feature pipe (\<open>core/src/overlay/IpcClientBase.cpp\<close>). The answers of Windows are the record \<open>PipeOs\<close>,
  asked by the running number of the call; exceptions are values of \<open>IpcError\<close>. \<open>Connect\<close> sends the handshake through
  \<open>SendBlocking\<close>, and \<open>SendBlocking\<close> reconnects through \<open>Connect\<close>. The flag \<open>reconnecting_\<close> ends this after one
  level, so the calls appear here level by level: with the flag set (\<open>_nested\<close>) a broken pipe is passed on.
  What happens on the wire is recorded, newest first, with the number of the connection.
\<close>

section \<open>State and answers\<close>

datatype MismatchState = Matching | OverlayNewer | DriverNewer

datatype IpcError = NotConnected | PipeUnavailable | PipeModeFailed | VersionMismatch | WriteFailed | WriteTruncated
  | ReadFailed | Oversized | SizeMismatch | BrokenPipe | ReconnectFailed IpcError

datatype WireEvent = Opened nat | Wrote nat Request | Got nat Response | ReconnectHook nat

record IpcClientBase =
  ic_pipe :: "nat option"
  ic_pipeName :: string
  ic_generation :: u64
  ic_mismatch :: MismatchState
  ic_driverVersion :: u32
  ic_calls :: nat
  ic_opened :: nat
  ic_wire :: "WireEvent list"

definition IpcClientBase_new :: IpcClientBase where
  "IpcClientBase_new = \<lparr>ic_pipe = None, ic_pipeName = [], ic_generation = 0, ic_mismatch = Matching, ic_driverVersion = 0,
     ic_calls = 0, ic_opened = 0, ic_wire = []\<rparr>"

datatype WriteAnswer = WrittenAll | WrittenShort | WriteBroken | WriteError

text \<open>A full response with the word where the version is; the answer that the message is larger, and whether the pipe
  broke while the rest was drained.\<close>

datatype ReadAnswer = ReadAll Response u32 | ReadShort | ReadBroken | ReadError | ReadMore bool

record PipeOs =
  os_open :: "nat \<Rightarrow> bool"
  os_mode :: "nat \<Rightarrow> bool"
  os_write :: "nat \<Rightarrow> WriteAnswer"
  os_read :: "nat \<Rightarrow> ReadAnswer"

definition tick :: "IpcClientBase \<Rightarrow> IpcClientBase" where
  "tick c = c\<lparr>ic_calls := ic_calls c + 1\<rparr>"

section \<open>Operations\<close>

definition ic_Close :: "IpcClientBase \<Rightarrow> IpcClientBase" where
  "ic_Close c = c\<lparr>ic_pipe := None\<rparr>"

definition ic_Send :: "PipeOs \<Rightarrow> Request \<Rightarrow> IpcClientBase \<Rightarrow> IpcClientBase \<times> (IpcError + unit)" where
  "ic_Send os r c = (case ic_pipe c of
       None \<Rightarrow> (c, Inl NotConnected)
     | Some k \<Rightarrow> (case os_write os (ic_calls c) of
           WrittenAll \<Rightarrow> ((tick c)\<lparr>ic_wire := Wrote k r # ic_wire c\<rparr>, Inr ())
         | WrittenShort \<Rightarrow> (ic_Close (tick c), Inl WriteTruncated)
         | WriteBroken \<Rightarrow> (ic_Close (tick c), Inl BrokenPipe)
         | WriteError \<Rightarrow> (ic_Close (tick c), Inl WriteFailed)))"

definition ic_Receive :: "PipeOs \<Rightarrow> IpcClientBase \<Rightarrow> IpcClientBase \<times> (IpcError + Response \<times> u32)" where
  "ic_Receive os c = (case ic_pipe c of
       None \<Rightarrow> (c, Inl NotConnected)
     | Some k \<Rightarrow> (case os_read os (ic_calls c) of
           ReadAll r w \<Rightarrow> ((tick c)\<lparr>ic_wire := Got k r # ic_wire c\<rparr>, Inr (r, w))
         | ReadShort \<Rightarrow> (ic_Close (tick c), Inl SizeMismatch)
         | ReadBroken \<Rightarrow> (ic_Close (tick c), Inl BrokenPipe)
         | ReadError \<Rightarrow> (ic_Close (tick c), Inl ReadFailed)
         | ReadMore broken \<Rightarrow> if broken then (ic_Close (tick c), Inl BrokenPipe) else (tick c, Inl Oversized)))"

text \<open>Writing a request and reading its response: the body of \<open>SendBlocking\<close>, and all of it when the flag is set.\<close>

definition SendBlocking_nested :: "PipeOs \<Rightarrow> Request \<Rightarrow> IpcClientBase \<Rightarrow> IpcClientBase \<times> (IpcError + Response \<times> u32)" where
  "SendBlocking_nested os r c = (case ic_Send os r c of (c1, Inl e) \<Rightarrow> (c1, Inl e) | (c1, Inr _) \<Rightarrow> ic_Receive os c1)"

definition open_pipe :: "PipeOs \<Rightarrow> string \<Rightarrow> IpcClientBase \<Rightarrow> IpcClientBase \<times> (IpcError + unit)" where
  "open_pipe os name c =
     (let c1 = tick ((ic_Close c)\<lparr>ic_pipeName := name\<rparr>)
      in if \<not> os_open os (ic_calls c) then (c1, Inl PipeUnavailable)
         else let c2 = c1\<lparr>ic_pipe := Some (ic_opened c), ic_opened := ic_opened c + 1, ic_wire := Opened (ic_opened c) # ic_wire c\<rparr>
              in if os_mode os (ic_calls c1) then (tick c2, Inr ()) else (ic_Close (tick c2), Inl PipeModeFailed))"

text \<open>The version word of a response that is not a handshake is whatever the union holds there.\<close>

definition response_version :: "Response \<Rightarrow> u32 \<Rightarrow> u32" where
  "response_version r w = (case r of ResponseHandshake v \<Rightarrow> v | _ \<Rightarrow> w)"

definition check_handshake :: "IpcClientBase \<times> (IpcError + Response \<times> u32) \<Rightarrow> IpcClientBase \<times> (IpcError + unit)" where
  "check_handshake res = (case res of
       (c, Inl e) \<Rightarrow> (c, Inl e)
     | (c, Inr (r, w)) \<Rightarrow>
         if r = ResponseHandshake Version
         then (c\<lparr>ic_mismatch := Matching, ic_generation := ic_generation c + 1\<rparr>, Inr ())
         else let v = response_version r w
              in (ic_Close (c\<lparr>ic_driverVersion := v, ic_mismatch := (if v < Version then OverlayNewer else DriverNewer)\<rparr>), Inl VersionMismatch))"

definition Connect_nested :: "PipeOs \<Rightarrow> string \<Rightarrow> IpcClientBase \<Rightarrow> IpcClientBase \<times> (IpcError + unit)" where
  "Connect_nested os name c = (case open_pipe os name c of
       (c1, Inl e) \<Rightarrow> (c1, Inl e)
     | (c1, Inr _) \<Rightarrow> check_handshake (SendBlocking_nested os RequestHandshake c1))"

text \<open>A reconnection, with the hook of the subclass, and the second attempt.\<close>

definition retry :: "PipeOs \<Rightarrow> Request \<Rightarrow> IpcClientBase \<Rightarrow> IpcClientBase \<times> (IpcError + Response \<times> u32)" where
  "retry os r c = (case Connect_nested os (ic_pipeName c) (ic_Close c) of
       (c1, Inl e) \<Rightarrow> (c1, Inl (ReconnectFailed e))
     | (c1, Inr _) \<Rightarrow> SendBlocking_nested os r (c1\<lparr>ic_wire := ReconnectHook (ic_opened c1 - 1) # ic_wire c1\<rparr>))"

definition SendBlocking_open :: "PipeOs \<Rightarrow> Request \<Rightarrow> IpcClientBase \<Rightarrow> IpcClientBase \<times> (IpcError + Response \<times> u32)" where
  "SendBlocking_open os r c = (case SendBlocking_nested os r c of
       (c1, Inl BrokenPipe) \<Rightarrow> if ic_pipeName c1 = [] then (c1, Inl BrokenPipe) else retry os r c1
     | res \<Rightarrow> res)"

definition ic_Connect :: "PipeOs \<Rightarrow> string \<Rightarrow> IpcClientBase \<Rightarrow> IpcClientBase \<times> (IpcError + unit)" where
  "ic_Connect os name c = (case open_pipe os name c of
       (c1, Inl e) \<Rightarrow> (c1, Inl e)
     | (c1, Inr _) \<Rightarrow> check_handshake (SendBlocking_open os RequestHandshake c1))"

definition ic_SendBlocking :: "PipeOs \<Rightarrow> Request \<Rightarrow> IpcClientBase \<Rightarrow> IpcClientBase \<times> (IpcError + Response \<times> u32)" where
  "ic_SendBlocking os r c =
     (if ic_pipe c = None
      then if ic_pipeName c = [] then (c, Inl NotConnected)
           else (case ic_Connect os (ic_pipeName c) c of (c1, Inl e) \<Rightarrow> (c1, Inl e) | (c1, Inr _) \<Rightarrow> SendBlocking_open os r c1)
      else SendBlocking_open os r c)"

section \<open>What is on the wire\<close>

text \<open>A request other than the handshake is written only to a connection whose driver has answered with this version.\<close>

fun checked :: "WireEvent list \<Rightarrow> bool" where
  "checked [] = True"
| "checked (e # es) = (checked es \<and> (case e of Wrote k r \<Rightarrow> r = RequestHandshake \<or> Got k (ResponseHandshake Version) \<in> set es | _ \<Rightarrow> True))"

definition verified :: "IpcClientBase \<Rightarrow> bool" where
  "verified c \<longleftrightarrow> (\<forall>k. ic_pipe c = Some k \<longrightarrow> Got k (ResponseHandshake Version) \<in> set (ic_wire c))"

definition never_oversized :: "PipeOs \<Rightarrow> bool" where
  "never_oversized os \<longleftrightarrow> (\<forall>n. os_read os n \<noteq> ReadMore False)"

lemma tick_simps [simp]:
  "ic_pipe (tick c) = ic_pipe c" "ic_pipeName (tick c) = ic_pipeName c" "ic_opened (tick c) = ic_opened c" "ic_wire (tick c) = ic_wire c"
  "ic_pipe (ic_Close c) = None" "ic_pipeName (ic_Close c) = ic_pipeName c" "ic_opened (ic_Close c) = ic_opened c" "ic_wire (ic_Close c) = ic_wire c"
  by (simp_all add: tick_def ic_Close_def)

text \<open>One exchange.\<close>

lemma nested_cases:
  assumes "SendBlocking_nested os r c = (c', res)" "ic_pipe c = Some k"
  shows "ic_pipeName c' = ic_pipeName c \<and> ic_opened c' = ic_opened c \<and>
    (case res of
       Inr (p, w) \<Rightarrow> ic_pipe c' = Some k \<and> ic_wire c' = Got k p # Wrote k r # ic_wire c
     | Inl e \<Rightarrow> (ic_pipe c' = None \<or> e = Oversized \<and> ic_pipe c' = Some k \<and> \<not> never_oversized os) \<and> (ic_wire c' = ic_wire c \<or> ic_wire c' = Wrote k r # ic_wire c))"
  using assms by (auto simp: SendBlocking_nested_def ic_Send_def ic_Receive_def never_oversized_def Let_def
      split: WriteAnswer.splits ReadAnswer.splits if_splits)

lemma open_pipe_cases:
  assumes "open_pipe os name c = (c', res)"
  shows "ic_pipeName c' = name \<and> (case res of
       Inr _ \<Rightarrow> ic_pipe c' = Some (ic_opened c) \<and> ic_opened c' = ic_opened c + 1 \<and> ic_wire c' = Opened (ic_opened c) # ic_wire c
     | Inl _ \<Rightarrow> ic_pipe c' = None \<and> (ic_wire c' = ic_wire c \<or> ic_wire c' = Opened (ic_opened c) # ic_wire c))"
  using assms by (auto simp: open_pipe_def Let_def split: if_splits)

lemma check_handshake_cases:
  assumes "check_handshake (c, res) = (c', out)"
  shows "ic_pipeName c' = ic_pipeName c \<and> ic_opened c' = ic_opened c \<and> ic_wire c' = ic_wire c \<and>
    (case out of
       Inr _ \<Rightarrow> (\<exists>w. res = Inr (ResponseHandshake Version, w)) \<and> ic_pipe c' = ic_pipe c
     | Inl e \<Rightarrow> ic_pipe c' = None \<or> res = Inl e \<and> ic_pipe c' = ic_pipe c)"
  using assms by (auto simp: check_handshake_def Let_def split: sum.splits prod.splits if_splits)

lemma Connect_nested_cases:
  assumes "Connect_nested os name c = (c', res)" "checked (ic_wire c)" "never_oversized os"
  shows "checked (ic_wire c') \<and> ic_pipeName c' = name \<and> (case res of
      Inr _ \<Rightarrow> \<exists>k. ic_pipe c' = Some k \<and> Got k (ResponseHandshake Version) \<in> set (ic_wire c') | Inl _ \<Rightarrow> ic_pipe c' = None)"
proof -
  obtain c1 r1 where o: "open_pipe os name c = (c1, r1)" by (rule prod.exhaust)
  note oc = open_pipe_cases [OF o]
  show ?thesis
  proof (cases r1)
    case (Inl e)
    then show ?thesis using assms oc by (auto simp: Connect_nested_def o)
  next
    case (Inr u)
    obtain c2 r2 where n: "SendBlocking_nested os RequestHandshake c1 = (c2, r2)" by (rule prod.exhaust)
    have p1: "ic_pipe c1 = Some (ic_opened c)" using oc Inr by simp
    have k: "check_handshake (c2, r2) = (c', res)" using assms(1) Inr by (simp add: Connect_nested_def o n)
    show ?thesis using oc Inr nested_cases [OF n p1] check_handshake_cases [OF k] assms(2,3)
      by (cases r2; cases res) auto
  qed
qed

lemma retry_cases:
  assumes "retry os r c = (c', res)" "checked (ic_wire c)" "never_oversized os"
  shows "checked (ic_wire c') \<and> verified c' \<and> ic_pipeName c' = ic_pipeName c \<and>
    (case res of Inr (p, w) \<Rightarrow> \<exists>k. ic_pipe c' = Some k \<and> Got k p \<in> set (ic_wire c') | Inl _ \<Rightarrow> ic_pipe c' = None)"
proof -
  obtain c1 r1 where o: "Connect_nested os (ic_pipeName c) (ic_Close c) = (c1, r1)" by (rule prod.exhaust)
  note oc = Connect_nested_cases [OF o _ assms(3), simplified, OF assms(2)]
  show ?thesis
  proof (cases r1)
    case (Inl e)
    then show ?thesis using assms oc by (auto simp: retry_def o verified_def)
  next
    case (Inr u)
    let ?c1 = "c1\<lparr>ic_wire := ReconnectHook (ic_opened c1 - 1) # ic_wire c1\<rparr>"
    obtain k where k: "ic_pipe ?c1 = Some k" "Got k (ResponseHandshake Version) \<in> set (ic_wire c1)" using oc Inr by auto
    have n: "SendBlocking_nested os r ?c1 = (c', res)" using assms(1) Inr by (simp add: retry_def o)
    show ?thesis using oc Inr k nested_cases [OF n k(1)] assms(3) by (cases res) (auto simp: verified_def)
  qed
qed

lemma SendBlocking_open_cases:
  assumes "SendBlocking_open os r c = (c', res)" "ic_pipe c = Some k" "checked (ic_wire c)" "never_oversized os"
    and "r = RequestHandshake \<or> Got k (ResponseHandshake Version) \<in> set (ic_wire c)"
  shows "checked (ic_wire c') \<and> (case res of
      Inr (p, w) \<Rightarrow> (\<exists>k'. ic_pipe c' = Some k' \<and> Got k' p \<in> set (ic_wire c')) \<and> (Got k (ResponseHandshake Version) \<in> set (ic_wire c) \<longrightarrow> verified c')
    | Inl _ \<Rightarrow> ic_pipe c' = None)"
proof -
  obtain c1 r1 where n: "SendBlocking_nested os r c = (c1, r1)" by (rule prod.exhaust)
  note nc = nested_cases [OF n assms(2)]
  have ck: "checked (ic_wire c1)" using nc assms(3,5) by (cases r1) auto
  show ?thesis
  proof (cases "r1 = Inl BrokenPipe \<and> ic_pipeName c1 \<noteq> []")
    case True
    then have "retry os r c1 = (c', res)" using assms(1) by (simp add: SendBlocking_open_def n)
    from retry_cases [OF this ck assms(4)] show ?thesis
      by (cases res) auto
  next
    case False
    then have "c' = c1" "res = r1" using assms(1) by (auto simp: SendBlocking_open_def n split: sum.splits IpcError.splits if_splits)
    then show ?thesis using nc ck assms(4) by (cases r1) (auto simp: verified_def)
  qed
qed

lemma ic_Connect_cases:
  assumes "ic_Connect os name c = (c', res)" "checked (ic_wire c)" "never_oversized os"
  shows "checked (ic_wire c') \<and> verified c' \<and> (case res of Inr _ \<Rightarrow> ic_pipe c' \<noteq> None | Inl _ \<Rightarrow> ic_pipe c' = None)"
proof -
  obtain c1 r1 where o: "open_pipe os name c = (c1, r1)" by (rule prod.exhaust)
  note oc = open_pipe_cases [OF o]
  show ?thesis
  proof (cases r1)
    case (Inl e)
    then show ?thesis using assms oc by (auto simp: ic_Connect_def o verified_def)
  next
    case (Inr u)
    obtain c2 r2 where n: "SendBlocking_open os RequestHandshake c1 = (c2, r2)" by (rule prod.exhaust)
    have p1: "ic_pipe c1 = Some (ic_opened c)" "checked (ic_wire c1)" using oc Inr assms(2) by simp_all
    note sc = SendBlocking_open_cases [OF n p1 assms(3) disjI1 [OF refl]]
    have k: "check_handshake (c2, r2) = (c', res)" using assms(1) Inr by (simp add: ic_Connect_def o n)
    show ?thesis using sc check_handshake_cases [OF k] by (cases r2; cases res) (auto simp: verified_def)
  qed
qed

lemma ic_SendBlocking_checked:
  assumes "checked (ic_wire c)" "verified c" "never_oversized os"
  shows "checked (ic_wire (fst (ic_SendBlocking os r c))) \<and> verified (fst (ic_SendBlocking os r c))"
proof -
  have op: "checked (ic_wire (fst (SendBlocking_open os r d))) \<and> verified (fst (SendBlocking_open os r d))"
    if d: "ic_pipe d = Some k" "checked (ic_wire d)" "verified d" for d k
  proof -
    obtain d' res where s: "SendBlocking_open os r d = (d', res)" by (rule prod.exhaust)
    have "Got k (ResponseHandshake Version) \<in> set (ic_wire d)" using d(1,3) by (simp add: verified_def)
    with SendBlocking_open_cases [OF s d(1,2) assms(3)] s show ?thesis by (cases res) (auto simp: verified_def)
  qed
  show ?thesis
  proof (cases "ic_pipe c")
    case None
    obtain c1 r1 where o: "ic_Connect os (ic_pipeName c) c = (c1, r1)" by (rule prod.exhaust)
    note oc = ic_Connect_cases [OF o assms(1,3)]
    show ?thesis using None assms oc op [of c1] by (cases r1) (auto simp: ic_SendBlocking_def o)
  next
    case (Some k)
    then show ?thesis using op [of c] assms by (simp add: ic_SendBlocking_def)
  qed
qed

text \<open>What a client can do, in any order.\<close>

inductive client_reach :: "PipeOs \<Rightarrow> IpcClientBase \<Rightarrow> bool" for os :: PipeOs where
  Client_new: "client_reach os IpcClientBase_new"
| Client_connect: "client_reach os c \<Longrightarrow> client_reach os (fst (ic_Connect os name c))"
| Client_send: "client_reach os c \<Longrightarrow> client_reach os (fst (ic_SendBlocking os r c))"
| Client_close: "client_reach os c \<Longrightarrow> client_reach os (ic_Close c)"

lemma client_reach_checked:
  assumes "client_reach os c" "never_oversized os"
  shows "checked (ic_wire c) \<and> verified c"
  using assms
proof (induction rule: client_reach.induct)
  case (Client_connect c name)
  obtain c1 r1 where o: "ic_Connect os name c = (c1, r1)" by (rule prod.exhaust)
  show ?case using Client_connect ic_Connect_cases [OF o] by (simp add: o)
qed (simp_all add: ic_SendBlocking_checked, simp_all add: IpcClientBase_new_def verified_def)

section \<open>Delivery\<close>

text \<open>How often a request is written in a piece of the wire.\<close>

definition writes :: "Request \<Rightarrow> WireEvent list \<Rightarrow> nat" where
  "writes r es = length (filter (\<lambda>e. case e of Wrote k q \<Rightarrow> q = r | _ \<Rightarrow> False) es)"

lemma writes_simps [simp]:
  "writes r [] = 0" "writes r (Wrote k q # es) = (if q = r then Suc (writes r es) else writes r es)"
  "writes r (Got k p # es) = writes r es" "writes r (Opened k # es) = writes r es" "writes r (ReconnectHook k # es) = writes r es"
  by (simp_all add: writes_def)

lemma nested_wire:
  assumes "SendBlocking_nested os q c = (c', res)" "ic_pipe c = Some k"
  shows "\<exists>new. ic_wire c' = new @ ic_wire c \<and> writes r new \<le> (if q = r then 1 else 0) \<and> ReconnectHook i \<notin> set new
    \<and> (case res of Inr (p, w) \<Rightarrow> new = [Got k p, Wrote k q] \<and> ic_pipe c' = Some k | Inl _ \<Rightarrow> True)"
proof (cases res)
  case (Inl e)
  then have "ic_wire c' = ic_wire c \<or> ic_wire c' = Wrote k q # ic_wire c" using nested_cases [OF assms] by simp
  then show ?thesis using Inl by (elim disjE) (auto intro: exI [of _ "[]"] exI [of _ "[Wrote k q]"])
next
  case (Inr p)
  then show ?thesis using nested_cases [OF assms] by (intro exI [of _ "[Got k (fst p), Wrote k q]"]) (auto split: prod.splits)
qed

text \<open>Connecting writes handshakes only.\<close>

lemma Connect_nested_wire:
  assumes "Connect_nested os name c = (c', res)" "r \<noteq> RequestHandshake"
  shows "\<exists>new. ic_wire c' = new @ ic_wire c \<and> writes r new = 0 \<and> ReconnectHook i \<notin> set new \<and> (case res of Inr _ \<Rightarrow> ic_pipe c' \<noteq> None | Inl _ \<Rightarrow> True)"
proof -
  obtain c1 r1 where o: "open_pipe os name c = (c1, r1)" by (rule prod.exhaust)
  note oc = open_pipe_cases [OF o]
  show ?thesis
  proof (cases r1)
    case (Inl e)
    then have "c' = c1" "res = Inl e" using assms(1) by (simp_all add: Connect_nested_def o)
    moreover from oc Inl consider "ic_wire c1 = ic_wire c" | "ic_wire c1 = Opened (ic_opened c) # ic_wire c" by auto
    then have "\<exists>new. ic_wire c1 = new @ ic_wire c \<and> (new = [] \<or> new = [Opened (ic_opened c)])"
      by cases (auto intro: exI [of _ "[]"] exI [of _ "[Opened (ic_opened c)]"])
    ultimately show ?thesis by auto
  next
    case (Inr u)
    obtain c2 r2 where n: "SendBlocking_nested os RequestHandshake c1 = (c2, r2)" by (rule prod.exhaust)
    have p1: "ic_pipe c1 = Some (ic_opened c)" using oc Inr by simp
    have k: "check_handshake (c2, r2) = (c', res)" using assms(1) Inr by (simp add: Connect_nested_def o n)
    obtain new where "ic_wire c2 = new @ ic_wire c1" "writes r new = 0" "ReconnectHook i \<notin> set new"
      "case r2 of Inr (p, w) \<Rightarrow> ic_pipe c2 = Some (ic_opened c) | Inl _ \<Rightarrow> True"
      using nested_wire [OF n p1, of r i] assms(2) by (cases r2) auto
    then show ?thesis using oc Inr check_handshake_cases [OF k]
      by (intro exI [of _ "new @ [Opened (ic_opened c)]"]) (auto simp: writes_def split: sum.splits)
  qed
qed

lemma SendBlocking_open_wire:
  assumes "SendBlocking_open os q c = (c', res)" "ic_pipe c = Some k"
  shows "\<exists>new. ic_wire c' = new @ ic_wire c \<and> (q \<noteq> r \<and> r \<noteq> RequestHandshake \<longrightarrow> writes r new = 0)
    \<and> (case res of
        Inr (p, w) \<Rightarrow> (\<exists>k' mid. ic_pipe c' = Some k' \<and> new = Got k' p # Wrote k' q # mid
            \<and> (q \<noteq> RequestHandshake \<longrightarrow> writes q mid \<le> 1 \<and> (writes q mid = 1 \<longrightarrow> (\<exists>i. ReconnectHook i \<in> set mid))))
      | Inl _ \<Rightarrow> True)"
proof -
  obtain c1 r1 where n: "SendBlocking_nested os q c = (c1, r1)" by (rule prod.exhaust)
  show ?thesis
  proof (cases "r1 = Inl BrokenPipe \<and> ic_pipeName c1 \<noteq> []")
    case False
    then have e: "c' = c1" "res = r1" using assms(1) by (auto simp: SendBlocking_open_def n split: sum.splits IpcError.splits if_splits)
    obtain new where "ic_wire c1 = new @ ic_wire c" "writes r new \<le> (if q = r then 1 else 0)"
      "case r1 of Inr (p, w) \<Rightarrow> new = [Got k p, Wrote k q] \<and> ic_pipe c1 = Some k | Inl _ \<Rightarrow> True"
      using nested_wire [OF n assms(2), of r] by auto
    then show ?thesis unfolding e by (intro exI [of _ new]) (auto split: sum.splits)
  next
    case True
    then have t: "retry os q c1 = (c', res)" using assms(1) by (simp add: SendBlocking_open_def n)
    obtain n1 where n1: "ic_wire c1 = n1 @ ic_wire c" "writes r n1 \<le> (if q = r then 1 else 0)" using nested_wire [OF n assms(2), of r] by auto
    obtain n1' where "ic_wire c1 = n1' @ ic_wire c" "writes q n1' \<le> 1" using nested_wire [OF n assms(2), of q] by auto
    with n1 have n1q: "writes q n1 \<le> 1" by simp
    obtain c2 r2 where o: "Connect_nested os (ic_pipeName c1) (ic_Close c1) = (c2, r2)" by (rule prod.exhaust)
    have w2: "\<exists>new. ic_wire c2 = new @ ic_wire c1 \<and> (\<forall>x. x \<noteq> RequestHandshake \<longrightarrow> writes x new = 0) \<and> (case r2 of Inr _ \<Rightarrow> ic_pipe c2 \<noteq> None | Inl _ \<Rightarrow> True)"
    proof -
      obtain new where new: "ic_wire c2 = new @ ic_wire c1" "case r2 of Inr _ \<Rightarrow> ic_pipe c2 \<noteq> None | Inl _ \<Rightarrow> True"
        using Connect_nested_wire [OF o, of RequestInvalid 0] by auto
      have "writes x new = 0" if "x \<noteq> RequestHandshake" for x using Connect_nested_wire [OF o that, of 0] new by auto
      with new show ?thesis by blast
    qed
    then obtain n2 where n2: "ic_wire c2 = n2 @ ic_wire c1" "\<forall>x. x \<noteq> RequestHandshake \<longrightarrow> writes x n2 = 0"
      "case r2 of Inr _ \<Rightarrow> ic_pipe c2 \<noteq> None | Inl _ \<Rightarrow> True" by blast
    show ?thesis
    proof (cases r2)
      case (Inl e)
      then have "c' = c2" "\<exists>e. res = Inl e" using t by (auto simp: retry_def o)
      then show ?thesis using n1 n2 by (intro exI [of _ "n2 @ n1"]) (auto simp: writes_def)
    next
      case (Inr u)
      let ?h = "ReconnectHook (ic_opened c2 - 1)" let ?c2 = "c2\<lparr>ic_wire := ?h # ic_wire c2\<rparr>"
      obtain k2 where k2: "ic_pipe ?c2 = Some k2" using n2(3) Inr by auto
      have s: "SendBlocking_nested os q ?c2 = (c', res)" using t Inr by (simp add: retry_def o)
      obtain n3 where n3: "ic_wire c' = n3 @ ?h # ic_wire c2" "writes r n3 \<le> (if q = r then 1 else 0)"
        "case res of Inr (p, w) \<Rightarrow> n3 = [Got k2 p, Wrote k2 q] \<and> ic_pipe c' = Some k2 | Inl _ \<Rightarrow> True"
        using nested_wire [OF s k2, of r] by auto
      have cat: "writes x (a @ b) = writes x a + writes x b" for x a b by (simp add: writes_def)
      show ?thesis using n1 n1q n2(1,2) n3
        by (intro exI [of _ "n3 @ ?h # n2 @ n1"]) (auto simp: cat split: sum.splits)
    qed
  qed
qed

lemma ic_Connect_wire:
  assumes "ic_Connect os name c = (c', res)" "r \<noteq> RequestHandshake"
  shows "\<exists>new. ic_wire c' = new @ ic_wire c \<and> writes r new = 0 \<and> (case res of Inr _ \<Rightarrow> ic_pipe c' \<noteq> None | Inl _ \<Rightarrow> True)"
proof -
  obtain c1 r1 where o: "open_pipe os name c = (c1, r1)" by (rule prod.exhaust)
  note oc = open_pipe_cases [OF o]
  show ?thesis
  proof (cases r1)
    case (Inl e)
    then have "c' = c1" "res = Inl e" using assms(1) by (simp_all add: ic_Connect_def o)
    moreover from oc Inl consider "ic_wire c1 = ic_wire c" | "ic_wire c1 = Opened (ic_opened c) # ic_wire c" by auto
    then have "\<exists>new. ic_wire c1 = new @ ic_wire c \<and> (new = [] \<or> new = [Opened (ic_opened c)])"
      by cases (auto intro: exI [of _ "[]"] exI [of _ "[Opened (ic_opened c)]"])
    ultimately show ?thesis by auto
  next
    case (Inr u)
    obtain c2 r2 where n: "SendBlocking_open os RequestHandshake c1 = (c2, r2)" by (rule prod.exhaust)
    have p1: "ic_pipe c1 = Some (ic_opened c)" using oc Inr by simp
    have k: "check_handshake (c2, r2) = (c', res)" using assms(1) Inr by (simp add: ic_Connect_def o n)
    obtain new where "ic_wire c2 = new @ ic_wire c1" "writes r new = 0" "case r2 of Inr (p, w) \<Rightarrow> ic_pipe c2 \<noteq> None | Inl _ \<Rightarrow> True"
      using SendBlocking_open_wire [OF n p1, of r] assms(2) by (cases r2) auto
    then show ?thesis using oc Inr check_handshake_cases [OF k]
      by (intro exI [of _ "new @ [Opened (ic_opened c)]"]) (auto simp: writes_def split: sum.splits)
  qed
qed

section \<open>Properties\<close>

text \<open>C16. The handshake protects every request. As long as the driver never answers with a message larger than a response, whatever the
  client connects to, sends and closes, however often pipes break and are reopened, a request other than the handshake is only ever
  written to a connection on which a driver of the same protocol version has answered, and an open pipe is always such a
  connection.\<close>

theorem driver_version_checked:
  assumes "client_reach os c" "never_oversized os"
  shows "checked (ic_wire c) \<and> (\<forall>k. ic_pipe c = Some k \<longrightarrow> Got k (ResponseHandshake Version) \<in> set (ic_wire c))"
  using client_reach_checked [OF assms] by (simp add: verified_def)

text \<open>C19. A request that gets an answer was written at least once and at most twice: the answer is the last thing read, on the connection that is open
  now, right after the request was written there, and the request was written before that only if the first pipe broke
  and the driver was connected to again. The driver may have handled it both times.\<close>

theorem answered_request_delivered:
  assumes "ic_SendBlocking os r c = (c', Inr (p, w))" "r \<noteq> RequestHandshake"
  shows "\<exists>k mid. ic_pipe c' = Some k \<and> ic_wire c' = Got k p # Wrote k r # mid @ ic_wire c \<and> writes r mid \<le> 1
    \<and> (writes r mid = 1 \<longrightarrow> (\<exists>i. ReconnectHook i \<in> set mid))"
proof -
  have op: "\<exists>k mid. ic_pipe d' = Some k \<and> ic_wire d' = Got k p # Wrote k r # mid @ ic_wire d \<and> writes r mid \<le> 1
      \<and> (writes r mid = 1 \<longrightarrow> (\<exists>i. ReconnectHook i \<in> set mid))"
    if "SendBlocking_open os r d = (d', Inr (p, w))" "ic_pipe d \<noteq> None" for d d'
    using SendBlocking_open_wire [OF that(1)] that(2) assms(2) by fastforce
  show ?thesis
  proof (cases "ic_pipe c")
    case (Some k)
    then show ?thesis using op [of c c'] assms(1) by (simp add: ic_SendBlocking_def)
  next
    case None
    obtain c1 r1 where o: "ic_Connect os (ic_pipeName c) c = (c1, r1)" by (rule prod.exhaust)
    obtain new where new: "ic_wire c1 = new @ ic_wire c" "writes r new = 0" "case r1 of Inr _ \<Rightarrow> ic_pipe c1 \<noteq> None | Inl _ \<Rightarrow> True"
      using ic_Connect_wire [OF o assms(2)] by blast
    have s: "SendBlocking_open os r c1 = (c', Inr (p, w))" "\<exists>u. r1 = Inr u"
      using assms(1) None by (auto simp: ic_SendBlocking_def o split: if_splits sum.splits)
    then obtain k mid where m: "ic_pipe c' = Some k" "ic_wire c' = Got k p # Wrote k r # mid @ ic_wire c1" "writes r mid \<le> 1"
      "writes r mid = 1 \<longrightarrow> (\<exists>i. ReconnectHook i \<in> set mid)"
      using op [OF s(1)] new(3) by auto
    have "writes r (mid @ new) = writes r mid" using new(2) by (simp add: writes_def)
    with m new(1) show ?thesis by (intro exI [of _ k] exI [of _ "mid @ new"]) auto
  qed
qed

text \<open>A driver whose responses are larger defeats the check. When the answer to the handshake is larger than a response of this version,
  \<open>Connect\<close> throws and leaves the pipe open, and the next request is written to the driver that was never
  checked.\<close>

lemmas client_steps = ic_SendBlocking_def ic_Connect_def open_pipe_def SendBlocking_open_def SendBlocking_nested_def ic_Send_def ic_Receive_def check_handshake_def
  tick_def ic_Close_def

theorem oversized_handshake_unchecked:
  assumes "ic_calls c = n" "os_open os n" "os_mode os (n + 1)" "os_write os (n + 2) = WrittenAll" "os_read os (n + 3) = ReadMore False"
    and "os_write os (n + 4) = WrittenAll" "os_read os (n + 5) = ReadAll p w" "r \<noteq> RequestHandshake" "\<forall>q. Got (ic_opened c) q \<notin> set (ic_wire c)"
  shows "case ic_Connect os name c of (c1, res) \<Rightarrow> res = Inl Oversized \<and> ic_pipe c1 = Some (ic_opened c)
    \<and> (case ic_SendBlocking os r c1 of (c2, res2) \<Rightarrow> res2 = Inr (p, w) \<and> \<not> checked (ic_wire c2))"
proof -
  let ?k = "ic_opened c"
  define c1 where "c1 = c\<lparr>ic_pipeName := name, ic_pipe := Some ?k, ic_opened := ?k + 1, ic_calls := n + 4, ic_wire := Wrote ?k RequestHandshake # Opened ?k # ic_wire c\<rparr>"
  have con: "ic_Connect os name c = (c1, Inl Oversized)"
    using assms(1-5) by (simp add: client_steps Let_def c1_def eval_nat_numeral)
  have "ic_SendBlocking os r c1 = (c1\<lparr>ic_calls := n + 6, ic_wire := Got ?k p # Wrote ?k r # ic_wire c1\<rparr>, Inr (p, w))"
    using assms(6,7) by (simp add: client_steps Let_def c1_def eval_nat_numeral)
  then show ?thesis using assms(8,9) by (simp add: con) (simp add: c1_def)
qed

text \<open>A client that lost its pipe in a failed call opens the next one silently. The reconnection at the start of \<open>SendBlocking\<close> does not
  run the hook through which the calibration overlay reopens the pose segment: the request is answered by the new driver,
  and the overlay goes on reading the segment of the old one.\<close>

theorem lazy_reconnect_skips_hook:
  assumes "ic_pipe c = None" "ic_pipeName c \<noteq> []" "ic_calls c = n" "os_open os n" "os_mode os (n + 1)" "os_write os (n + 2) = WrittenAll"
    and "os_read os (n + 3) = ReadAll (ResponseHandshake Version) v" "os_write os (n + 4) = WrittenAll" "os_read os (n + 5) = ReadAll p w"
  shows "case ic_SendBlocking os r c of (c', res) \<Rightarrow> res = Inr (p, w) \<and> ic_generation c' = ic_generation c + 1 \<and> ic_pipe c' = Some (ic_opened c)
    \<and> (\<exists>new. ic_wire c' = new @ ic_wire c \<and> Opened (ic_opened c) \<in> set new \<and> (\<forall>i. ReconnectHook i \<notin> set new))"
proof -
  let ?k = "ic_opened c"
  define c1 where "c1 = c\<lparr>ic_pipe := Some ?k, ic_opened := ?k + 1, ic_calls := n + 4, ic_mismatch := Matching, ic_generation := ic_generation c + 1,
    ic_wire := Got ?k (ResponseHandshake Version) # Wrote ?k RequestHandshake # Opened ?k # ic_wire c\<rparr>"
  have con: "ic_Connect os (ic_pipeName c) c = (c1, Inr ())"
    using assms(3-7) by (simp add: client_steps Let_def c1_def eval_nat_numeral)
  have "SendBlocking_open os r c1 = (c1\<lparr>ic_calls := n + 6, ic_wire := Got ?k p # Wrote ?k r # ic_wire c1\<rparr>, Inr (p, w))"
    using assms(8,9) by (simp add: client_steps Let_def c1_def eval_nat_numeral)
  then have "ic_SendBlocking os r c = (c1\<lparr>ic_calls := n + 6, ic_wire := Got ?k p # Wrote ?k r # ic_wire c1\<rparr>, Inr (p, w))"
    using assms(1,2) by (simp add: ic_SendBlocking_def con)
  then show ?thesis
    by (auto simp: c1_def intro!: exI [of _ "[Got ?k p, Wrote ?k r, Got ?k (ResponseHandshake Version), Wrote ?k RequestHandshake, Opened ?k]"])
qed

section \<open>Examples\<close>

definition demo_os :: "(nat \<Rightarrow> ReadAnswer) \<Rightarrow> PipeOs" where
  "demo_os rd = \<lparr>os_open = (\<lambda>n. True), os_mode = (\<lambda>n. True), os_write = (\<lambda>n. WrittenAll), os_read = rd\<rparr>"

definition good_reads :: "nat \<Rightarrow> ReadAnswer" where
  "good_reads n = (if n = 3 then ReadAll (ResponseHandshake Version) 0 else ReadAll ResponseSuccess 0)"

definition demo_client :: IpcClientBase where
  "demo_client = IpcClientBase_new\<lparr>ic_pipeName := ''pipe''\<rparr>"

theorem driver_version_checked_witness:
  "checked (ic_wire (fst (ic_SendBlocking (demo_os good_reads) RequestDebugOffset (fst (ic_Connect (demo_os good_reads) ''pipe'' IpcClientBase_new)))))"
  using driver_version_checked [OF Client_send [OF Client_connect [OF Client_new]], of "demo_os good_reads" RequestDebugOffset "''pipe''"]
  by (simp add: never_oversized_def demo_os_def good_reads_def)

lemma demo_send: "\<exists>c'. ic_SendBlocking (demo_os good_reads) RequestDebugOffset demo_client = (c', Inr (ResponseSuccess, 0))"
  by (simp add: client_steps Let_def demo_os_def good_reads_def demo_client_def IpcClientBase_new_def)

theorem answered_request_delivered_witness:
  "\<exists>c' k mid. ic_SendBlocking (demo_os good_reads) RequestDebugOffset demo_client = (c', Inr (ResponseSuccess, 0)) \<and>
     ic_wire c' = Got k ResponseSuccess # Wrote k RequestDebugOffset # mid @ ic_wire demo_client"
proof -
  obtain c' where c: "ic_SendBlocking (demo_os good_reads) RequestDebugOffset demo_client = (c', Inr (ResponseSuccess, 0))" using demo_send by blast
  from answered_request_delivered [OF this] c show ?thesis by auto
qed

theorem oversized_handshake_unchecked_witness:
  "\<not> checked (ic_wire (fst (ic_SendBlocking (demo_os (\<lambda>n. if n = 3 then ReadMore False else ReadAll ResponseSuccess 0)) RequestDebugOffset
     (fst (ic_Connect (demo_os (\<lambda>n. if n = 3 then ReadMore False else ReadAll ResponseSuccess 0)) ''pipe'' IpcClientBase_new)))))"
  using oversized_handshake_unchecked [of IpcClientBase_new 0 "demo_os (\<lambda>n. if n = 3 then ReadMore False else ReadAll ResponseSuccess 0)" ResponseSuccess 0 RequestDebugOffset "''pipe''"]
  by (auto simp: demo_os_def IpcClientBase_new_def split: prod.splits)

theorem lazy_reconnect_skips_hook_witness:
  "case ic_SendBlocking (demo_os good_reads) RequestDebugOffset demo_client of (c', res) \<Rightarrow> res = Inr (ResponseSuccess, 0) \<and> ic_generation c' = 1"
  using lazy_reconnect_skips_hook [of demo_client 0 "demo_os good_reads" 0 ResponseSuccess 0 RequestDebugOffset]
  by (auto simp: demo_os_def good_reads_def demo_client_def IpcClientBase_new_def split: prod.splits)

end
