(* ===== verification/Spec2Isabelle.thy ===== *)
theory Spec2Isabelle
  imports InputHealth FaceFilters HostCommands CalibrationDecisions Skeletal CalibrationRuns IpcClient
begin

text \<open>
  WKOpenVR (OpenVR-PairDriver): a model of the SteamVR driver, of the processes it supervises and
  of the decision rules of its calibration overlay, with the theorems that make them correct.

  \<^bold>\<open>The program.\<close> One driver DLL, loaded by SteamVR, hosts feature modules (calibration, smoothing,
  input health, face tracking, OSC router, captions). Overlays talk to it over one named pipe per
  feature (\<open>core/src/driver/IPCServer.cpp\<close>), with the messages of \<open>core/src/common/Protocol.h\<close>, and read
  what it publishes in shared-memory segments. The driver hooks every pose of every device and
  rewrites it (\<open>ServerTrackedDeviceProvider.cpp\<close>). Two features run in processes of their own
  (captions, face tracking), spawned and watched by \<open>HostSupervisorBase.cpp\<close>. The OSC router owns
  the one UDP socket; the other parts publish through it.

  \<^bold>\<open>The theories,\<close> each a component or two, in the order they build on each other:
  \<^item> \<open>WK_Prelude\<close>: machine types, C strings, bounded copies, shared lemmas and fact collections.
  \<^item> \<open>FloatArith\<close>: \<open>float\<close> and \<open>double\<close> as IEEE 754 values (rationals with rounding to nearest even,
    infinities, NaN), with monotonicity of rounding and the lemmas on values in \<open>[0,1]\<close>.
  \<^item> \<open>Protocol\<close>: the request and response types and their payloads.
  \<^item> \<open>Seqlock\<close>, \<open>ShmemSegment\<close>: the sequence lock of the segments as an interleaving of its loads and
    stores, and the opening of a segment. \<open>PoseShmem\<close>, \<open>InputHealthShmem\<close>, \<open>FaceFrameShmem\<close>,
    \<open>OscStatsShmem\<close>: the four segments on top of it (ring of poses, snapshot slots, ring of face
    frames with the remapping of upstream shapes, router statistics).
  \<^item> \<open>OscWire\<close>: OSC packets, the reader, bundles and address patterns (\<open>OscWire.h\<close>, \<open>OscWire.cpp\<close>).
    \<open>RouteTable\<close>, \<open>OscRouter\<close>: routes, the bounded send queue, the publish pipe, life cycle.
  \<^item> \<open>PoseTransform\<close>, \<open>PosePath\<close>: the device transforms, fallback table, blending and prediction
    suppression of the pose hook; invariant and properties.
  \<^item> \<open>DriverConfig\<close>, \<open>DriverHost\<close>: packed configuration atomics, compensation table, path
    classification; feature flags, modules, request routing and the pipe server.
  \<^item> \<open>InputStats\<close>, \<open>InputHealth\<close>: the running statistics of an input component, the correction of
    its values, and the module around them (registry, input detours, reset requests, snapshots and
    their publisher), as steps that may come in any order.
  \<^item> \<open>FaceFilters\<close>: the filters of the face-tracking worker (continuous calibration, vergence lock,
    eyelid synchronisation), their pipeline and the detector of a wedged host.
  \<^item> \<open>HostSupervisor\<close>: spawning, monitoring, back-off and circuit breaker, as two threads.
    \<open>CaptionsHost\<close>: the captions process (publisher, pacer, control messages, main loop).
    \<open>HostCommands\<close>: what the supervisors send to their hosts, and the captions module.
  \<^item> \<open>CalibrationDecisions\<close>: state table, watchdog, wedge, geometry-shift and liveness rules of
    \<open>modules/calibration/src/overlay\<close>, with the gate of a continuous tick.
  \<^item> \<open>FloatSteps\<close>: bounds on rounded interpolation and gain steps. On it \<open>CalibrationFilters\<close> (blend filter,
    re-anchor detector, rest-locked yaw, recovery buffer, tilt diagnostic, latency estimator) and
    \<open>Skeletal\<close> (the finger-smoothing hook of \<open>modules/smoothing\<close>).
  \<^item> \<open>RobustSolve\<close>, \<open>CalibrationCalc\<close>: the robust scale and the translation solvers, and the sample engine with
    its one-shot and incremental solves (\<open>TranslationSolveDirect.cpp\<close>, \<open>CalibrationCalc.cpp\<close>).
    \<open>ProfilePublish\<close>: how the overlay sends the profile to the driver (\<open>Calibration.cpp\<close>).
  \<^item> \<open>CalibrationSession\<close>, \<open>CalibrationDrift\<close>, \<open>CalibrationTick\<close>, \<open>CalibrationRuns\<close>: the state of the calibration
    overlay and its operations, the drift and recovery detectors, \<open>CalibrationTick\<close> block by block, and what
    holds along every run of ticks and user actions (\<open>Calibration.h\<close>, \<open>Calibration.cpp\<close>, \<open>VRState.cpp\<close>).
  \<^item> \<open>IpcClient\<close>: the overlays' end of the pipes, with handshake and reconnection
    (\<open>core/src/overlay/IpcClientBase.cpp\<close>).
  \<^item> This theory: the pipe server composed with the provider's modules.

  \<^bold>\<open>How code becomes definitions.\<close> A struct is a record with the source's fields, a function of the
  source a function of the same name on explicit state; a raise, an early return or a failed call is a
  branch that returns an option, a sum or a flag. Locks and threads are explicit: where a claim is
  about concurrency, a step is what happens between two points at which another thread can act
  (\<open>seq_step\<close>, \<open>MonitorLoop\<close>, \<open>channel_step\<close>, \<open>ipc_run\<close>), and the claim is about every interleaving.
  Integers that wrap are words.

  \<^bold>\<open>Interfaces\<close> are locales, each interpreted on the model: OSC writers, the opening of a segment, the
  slots of the sequence lock, the bounded queue, the bounded subscription table, and the message channel of a
  supervisor.

  \<^bold>\<open>Parameters.\<close> Code outside the repository is an argument: Eigen (a record of its operations),
  OpenVR properties, Windows calls (the answers of each call, as inputs of the step), the speech
  libraries, and \<open>std::hypot\<close> and \<open>std::atan2\<close>, whose last digits the C library chooses. No law of
  Eigen or of these functions is assumed.

  \<^bold>\<open>What the theorems show.\<close> Shared memory: a reader never accepts a torn snapshot, and each ring
  delivers what it says. OSC: build and parse are inverse, parsing stays inside the datagram, the
  pattern matcher decides the reference semantics, the route table is a map, the router's queue is a
  bounded FIFO that is drained. Poses: an invariant of the whole pose state, suppression never
  amplifies motion, overlays do not overwrite each other, the fallback table is a map, blending moves
  by at most the whole step. Driver: the pipe server is equivalent to one that serves requests
  one by one, a request changes only what its pipe owns, start-up and clean-up are exact, and any
  traffic on a pipe keeps the state invariants. Input health: every run keeps the module's invariant, a
  tick publishes every component in a slot of its own, the streaming mean never leaves the observed range,
  button changes keep the learned distance, axis values are changed only where an entry allows it and stay
  in range, a reset clears exactly what it names. Face tracking: a wink passes only after its dwell time,
  lids stay in range, a wedged host is restarted at most every ten seconds. Processes: the breaker's invariant and the
  termination of the monitor in every interleaving, the round trip of the configuration, the delivery of
  captions. Calibration: an outage is reported once and only when there is one; samples are never
  mixed across it; the sample buffer is bounded, an accepted candidate has passed the gates it names; along every run of
  ticks and user actions the session keeps its invariant and saves only usable profiles; a scan brings every device of the driver to what the profile asks for. Pipe client: a request is sent only
  to a driver of the same protocol version, and a response belongs to its request.
  Some theorems state what the code does and should not: the second caption of a connection is lost,
  every crash counts as a fast exit, \<open>Restart\<close> can lose the host it spawned, a module selection can be
  noted as sent without being sent, a lookup can undo an overlay's push, one NaN reading disables a
  drift detector or drives a face shape to 1 for good, the percentile estimator never moves its markers,
  a rapid correction is accepted without validation, a restarted driver is not sent the profile again, a
  fallback is lost when the tracking system changes back, a base station that moved disables the automatic
  recovery, the geometry watchdog never sees a large error, undoing a recovery does not restore the
  calibration, a frozen headset can go unnoticed.

  \<^bold>\<open>Bounds and fuel.\<close> Recursion is structural or has a measure (pattern length, remaining reads,
  remaining message); no fuel is used. \<open>monitor_stop_terminates\<close> gives the number of steps of a stop.
  Word bounds appear as hypotheses where a counter of the code would wrap.

  \<^bold>\<open>Not modelled.\<close> The profile store of the calibration (registry and JSON), the learning engine of input
  health, the settings of the smoothing overlay and the OSC publication of face frames remain: they are mostly
  JSON documents and tables of addresses.
  User interfaces, logging, hook installation, downloads, the C# host and vendored code are left out:
  they are I/O or third-party code.
\<close>

section \<open>Requests served over the pipes\<close>

definition names_ok :: "Request \<Rightarrow> bool" where
  "names_ok r \<longleftrightarrow> (case r of RequestSetTrackingSystemFallback m \<Rightarrow> wire_name (stf_system_name m) | _ \<Rightarrow> True)"

definition provider_reach :: "Eigen \<Rightarrow> ProviderState \<Rightarrow> bool" where
  "provider_reach E s \<longleftrightarrow> pose_reach E (pv_pose s) \<and> cfg_reach (pv_cfg s)"

lemma calibration_reach:
  "calibration_HandleRequest E env r s = Some (s', a) \<Longrightarrow> provider_reach E s \<Longrightarrow> names_ok r \<Longrightarrow> provider_reach E s'"
  by (auto simp: handler_simps provider_reach_def names_ok_def split: if_splits Request.splits
      intro: Reach_transform Reach_offset Reach_params Reach_fallback)

lemma smoothing_reach:
  "smoothing_HandleRequest r s = Some (s', a) \<Longrightarrow> provider_reach E s \<Longrightarrow> provider_reach E s'"
  by (auto simp: handler_simps provider_reach_def split: if_splits Request.splits intro: Cfg_fingers Reach_prediction)

lemma inputhealth_reach:
  "inputhealth_HandleRequest r s = Some (s', a) \<Longrightarrow> provider_reach E s \<Longrightarrow> provider_reach E s'"
  by (auto simp: handler_simps provider_reach_def split: if_splits Request.splits intro: Cfg_health Cfg_set Cfg_clear)

lemma ask_provider_reach:
  assumes "ask_modules fm r ms s = Some (s', a)" "set ms \<subseteq> set (provider_modules E env)" "provider_reach E s" "names_ok r"
  shows "provider_reach E s'"
  using ask_provider [OF assms(2,1)] assms(3,4)
  by (auto intro: calibration_reach smoothing_reach inputhealth_reach)

lemma run_requests_reach:
  assumes "set (activeModules d) \<subseteq> set (provider_modules E env)" "provider_reach E (drv d)" "list_all names_ok rs"
    and "run_requests fm rs d = (d', as)"
  shows "provider_reach E (drv d')"
  using assms
proof (induction rs arbitrary: d as)
  case (Cons r rs)
  obtain d1 a where h: "IPCServer_HandleRequest fm r d = (d1, a)" by fastforce
  have "provider_reach E (drv d1)" "activeModules d1 = activeModules d"
    using h Cons.prems(1-3)
    by (auto simp: IPCServer_HandleRequest_def HandleIpcRequest_def intro: ask_provider_reach split: if_splits option.splits)
  then show ?case using Cons.IH [of d1] Cons.prems h by (auto simp: Let_def split: prod.splits)
qed simp

text \<open>
  C12. The driver end to end. Whatever requests the clients of a pipe send, in whatever order their
  completions arrive, with clients that disconnect or send short messages, the provider's state stays
  one that its operations can produce: the pose table keeps its invariant, the compensation table
  keeps its own, and the pose hook is defined on every device. The only thing asked of the clients is
  that a tracking-system name they send has its terminator.
\<close>

theorem served_clients_keep_invariants:
  assumes "ipc_run szq szr d0 fm sv d lg" "set (activeModules d0) \<subseteq> set (provider_modules E env)"
    and "pose_reach E (pv_pose (drv d0))" "cfg_reach (pv_cfg (drv d0))" "list_all (names_ok \<circ> fst \<circ> snd) lg"
  shows "pose_inv (pv_pose (drv d)) \<and> comp_inv (pv_cfg (drv d))
    \<and> (unlocked_ok penv \<longrightarrow> unat v < k_unMaxTrackedDeviceCount \<longrightarrow>
        (\<exists>s' pose'. HandleDevicePoseUpdated E penv v pose (pv_pose (drv d)) = Some (s', pose') \<and> pose_inv s'))"
proof -
  have "run_requests fm (map (fst \<circ> snd) lg) d0 = (d, map (snd \<circ> snd) lg)"
    using ipc_run_inv [OF assms(1)] by (simp add: ipc_inv_def)
  moreover have "list_all names_ok (map (fst \<circ> snd) lg)" using assms(5) by (simp add: list.pred_map o_assoc)
  ultimately have "provider_reach E (drv d)"
    using run_requests_reach [of d0 E env] assms(2-4) by (simp add: provider_reach_def)
  then have inv: "pose_inv (pv_pose (drv d))" "comp_inv (pv_cfg (drv d))"
    by (auto simp: provider_reach_def intro: pose_reach_inv cfg_reach_inv)
  with HandleDevicePoseUpdated_inv [OF inv(1)] show ?thesis by blast
qed

theorem served_clients_keep_invariants_witness:
  "pose_inv (pv_pose (drv (fst (IPCServer_HandleRequest kFeatureSmoothing (RequestSetDevicePrediction demo_prediction) demo_driver))))"
proof -
  let ?r = "RequestSetDevicePrediction demo_prediction" and ?sv = "\<lparr>ipc_pipes = Map.empty, ipc_mask = kFeatureSmoothing\<rparr>"
  obtain d a where h: "IPCServer_HandleRequest kFeatureSmoothing ?r demo_driver = (d, a)" by fastforce
  have "ipc_run 1 1 demo_driver kFeatureSmoothing (accept_client 1 True 0 ?sv) demo_driver []"
    by (rule Ipc_connect [OF Ipc_start]) simp
  from Ipc_dispatch [OF this, of 0 True 0 1 ?r _ d ?r] h
  have "\<exists>sv. ipc_run 1 1 demo_driver kFeatureSmoothing sv d [(0, ?r, a)]"
    by (auto simp: accept_client_def CompletedWriteCallback_def CompletedReadCallback_def)
  then obtain sv where run: "ipc_run 1 1 demo_driver kFeatureSmoothing sv d [(0, ?r, a)]" by blast
  have "set (activeModules demo_driver) \<subseteq> set (provider_modules demo_eigen demo_request_env)"
    "pose_reach demo_eigen (pv_pose (drv demo_driver))" "cfg_reach (pv_cfg (drv demo_driver))"
    by (simp_all add: demo_driver_def provider_modules_def demo_reach Cfg_new)
  from served_clients_keep_invariants [OF run this] show ?thesis by (simp add: h names_ok_def)
qed

end
